(* ===== verification/Kopete_Prelude.thy ===== *)
theory Kopete_Prelude
  imports Main "HOL-Library.Word"
begin

text \<open>
  Shared vocabulary of the development: the machine integers of \<^verbatim>\<open>liboscar\<close>
  (\<^verbatim>\<open>BYTE\<close>, \<^verbatim>\<open>WORD\<close>, \<^verbatim>\<open>DWORD\<close> of \<^verbatim>\<open>oscartypes.h\<close>), the Qt value types the
  sources pass around, the theorem collections the component theories extend, and the
  lemmas about splitting words into bytes and about lists that several components share.

  A \<^verbatim>\<open>QByteArray\<close> is a list of bytes and a \<^verbatim>\<open>QString\<close> the list of its UTF-16 code
  units.  Conversions between the two, and case folding, are Qt's: the definitions that
  use them take them as arguments.
\<close>

unbundle bit_operations_syntax

type_synonym u8 = "8 word"
type_synonym u16 = "16 word"
type_synonym u32 = "32 word"
type_synonym bytes = "u8 list"
type_synonym qstring = "u16 list"

text \<open>A C string literal as a \<^verbatim>\<open>QString\<close>.\<close>

definition qstr :: "string \<Rightarrow> qstring" where
  "qstr s = map of_char s"

named_theorems split_simps \<open>word to byte splitting and joining\<close>
named_theorems buf_simps \<open>what each buffer operation does to the bytes and the read position\<close>
named_theorems inv_intros \<open>invariant preservation, one rule per operation\<close>

subsection \<open>Splitting words into bytes\<close>

text \<open>
  The sources select a byte either as \<^verbatim>\<open>(w & 0xff00) >> 8\<close> or as \<^verbatim>\<open>(w >> 8) & 0xff\<close>;
  both are the truncation of a right shift.
\<close>

definition enc16 :: "u16 \<Rightarrow> bytes" where
  "enc16 w = [ucast (drop_bit 8 w), ucast w]"

definition enc16le :: "u16 \<Rightarrow> bytes" where
  "enc16le w = [ucast w, ucast (drop_bit 8 w)]"

definition enc32 :: "u32 \<Rightarrow> bytes" where
  "enc32 w = [ucast (drop_bit 24 w), ucast (drop_bit 16 w), ucast (drop_bit 8 w), ucast w]"

definition enc32le :: "u32 \<Rightarrow> bytes" where
  "enc32le w = [ucast w, ucast (drop_bit 8 w), ucast (drop_bit 16 w), ucast (drop_bit 24 w)]"

lemma length_enc [simp]:
  "length (enc16 w) = 2" "length (enc16le w) = 2"
  "length (enc32 d) = 4" "length (enc32le d) = 4"
  by (simp_all add: enc16_def enc16le_def enc32_def enc32le_def)

lemma byte_masks:
  "(0xff :: 'a::len word) = mask 8"
  "(0xff00 :: 'a::len word) = push_bit 8 (mask 8)"
  "(0xff0000 :: 'a::len word) = push_bit 16 (mask 8)"
  "(0xff000000 :: 'a::len word) = push_bit 24 (mask 8)"
  by (simp_all add: mask_eq_exp_minus_1 push_bit_eq_mult)

lemma select_byte [split_simps]:
  "(ucast ((w :: 'a::len word) AND 0xff) :: u8) = ucast w"
  "(ucast (drop_bit 8 ((w :: 'a::len word) AND 0xff00)) :: u8) = ucast (drop_bit 8 w)"
  "(ucast (drop_bit 16 ((w :: 'a::len word) AND 0xff0000)) :: u8) = ucast (drop_bit 16 w)"
  "(ucast (drop_bit 24 ((w :: 'a::len word) AND 0xff000000)) :: u8) = ucast (drop_bit 24 w)"
  unfolding byte_masks
  by (rule bit_word_eqI, auto simp: bit_simps dest: bit_imp_le_length)+

lemma join16 [split_simps]:
  "push_bit 8 (ucast (ucast (drop_bit 8 w) :: u8)) OR ucast (ucast w :: u8) = (w :: u16)"
  by (rule bit_word_eqI) (auto simp: bit_simps)

lemma join32 [split_simps]:
  "push_bit 16 (ucast (ucast (drop_bit 16 d) :: u16)) OR ucast (ucast d :: u16) = (d :: u32)"
  by (rule bit_word_eqI) (auto simp: bit_simps)

lemma half_word_bytes [split_simps]:
  "(ucast (drop_bit 8 (ucast (drop_bit 16 d) :: u16)) :: u8) = ucast (drop_bit 24 (d :: u32))"
  "(ucast (ucast (drop_bit 16 d) :: u16) :: u8) = ucast (drop_bit 16 (d :: u32))"
  "(ucast (drop_bit 8 (ucast d :: u16)) :: u8) = ucast (drop_bit 8 (d :: u32))"
  "(ucast (ucast d :: u16) :: u8) = ucast (d :: u32)"
  by (rule bit_word_eqI, auto simp: bit_simps)+

lemma enc32_halves: "enc32 d = enc16 (ucast (drop_bit 16 d)) @ enc16 (ucast d)"
  by (simp add: enc32_def enc16_def split_simps)

lemma enc32le_halves: "enc32le d = enc16le (ucast d) @ enc16le (ucast (drop_bit 16 d))"
  by (simp add: enc32le_def enc16le_def split_simps)

subsection \<open>Lengths stored in words\<close>

lemma unat_of_nat_u8: "n < 256 \<Longrightarrow> unat (of_nat n :: u8) = n"
  by (simp add: unat_of_nat take_bit_eq_mod)

lemma unat_of_nat_u16: "n < 65536 \<Longrightarrow> unat (of_nat n :: u16) = n"
  by (simp add: unat_of_nat take_bit_eq_mod)

lemma unat_of_nat_u32: "n < 4294967296 \<Longrightarrow> unat (of_nat n :: u32) = n"
  by (simp add: unat_of_nat take_bit_eq_mod)

lemma unat_u16_less: "unat (w :: u16) < 65536"
  using unsigned_less [of w, where ?'a = nat] by simp

lemma unat_u8_less: "unat (w :: u8) < 256"
  using unsigned_less [of w, where ?'a = nat] by simp

lemma unat_u32_less: "unat (w :: u32) < 4294967296"
  using unsigned_less [of w, where ?'a = nat] by simp

lemma unat_ucast_u16_u32 [simp]: "unat (ucast (w :: u16) :: u32) = unat w"
  by (simp add: unsigned_ucast_eq take_bit_eq_mod mod_less order.strict_trans [OF unat_u16_less])

lemma unat_ucast_u8_u32 [simp]: "unat (ucast (w :: u8) :: u32) = unat w"
  by (simp add: unsigned_ucast_eq take_bit_eq_mod mod_less order.strict_trans [OF unat_u8_less])

subsection \<open>Byte arrays\<close>

text \<open>
  \<^verbatim>\<open>QByteArray::operator[](int)\<close> on the left of an assignment grows the array when the
  index lies past its end.  \<^verbatim>\<open>QByteArray::resize\<close> leaves new bytes uninitialised; they are
  zero here, and every caller in the sources overwrites them.
\<close>

definition qba_set :: "nat \<Rightarrow> u8 \<Rightarrow> bytes \<Rightarrow> bytes" where
  "qba_set i v xs = (xs @ replicate (Suc i - length xs) 0)[i := v]"

definition qba_resize :: "nat \<Rightarrow> bytes \<Rightarrow> bytes" where
  "qba_resize n xs = take n xs @ replicate (n - length xs) 0"

lemma qba_set_in [simp]: "i < length xs \<Longrightarrow> qba_set i v xs = xs[i := v]"
  by (simp add: qba_set_def)

lemma qba_set_end: "qba_set (length xs) v xs = xs @ [v]"
  by (simp add: qba_set_def)

lemma length_qba_set: "length (qba_set i v xs) = max (Suc i) (length xs)"
  by (simp add: qba_set_def max_def)

text \<open>A C string stored in an array of bytes: what \<^verbatim>\<open>strlen\<close> sees of it.\<close>

definition cstr :: "bytes \<Rightarrow> bytes" where
  "cstr s = takeWhile (\<lambda>c. c \<noteq> 0) s"

definition strlen :: "bytes \<Rightarrow> nat" where
  "strlen s = length (cstr s)"

lemma cstr_id: "0 \<notin> set s \<Longrightarrow> cstr s = s"
  by (metis (mono_tags, lifting) cstr_def takeWhile_eq_all_conv)

lemma take_strlen: "take (strlen s) s = cstr s"
  by (simp add: strlen_def cstr_def takeWhile_eq_take [symmetric])

lemma list_preimage:
  "\<forall>x \<in> set xs. \<exists>u. x = f u \<and> P u \<Longrightarrow> \<exists>us. xs = map f us \<and> list_all P us"
proof (induction xs)
  case (Cons x xs)
  then obtain u us where "x = f u" "P u" "xs = map f us" "list_all P us" by auto
  then show ?case by (intro exI [of _ "u # us"]) simp
qed simp

subsection \<open>Streams of frames\<close>

text \<open>
  A prefix of a stream of frames is some whole frames and a proper part of the next one.
\<close>

lemma concat_prefix_split:
  assumes "q @ r = concat (map f ts)"
  shows "\<exists>ts1 ts2 p. ts = ts1 @ ts2 \<and> q = concat (map f ts1) @ p \<and> p @ r = concat (map f ts2)
    \<and> (p = [] \<or> (\<exists>t ts3 k. ts2 = t # ts3 \<and> k < length (f t) \<and> p = take k (f t)))"
  using assms
proof (induction ts arbitrary: q)
  case Nil
  then show ?case by auto
next
  case (Cons t ts)
  show ?case
  proof (cases "length q < length (f t)")
    case True
    then have "q = take (length q) (f t)"
      using Cons.prems by (auto simp: append_eq_append_conv_if)
    with True Cons.prems show ?thesis
      by (intro exI [of _ "[]"] exI [of _ "t # ts"] exI [of _ q]) auto
  next
    case False
    then have "take (length (f t)) q = f t"
      using Cons.prems by (auto simp: append_eq_append_conv_if split: if_splits)
    then obtain q' where q: "q = f t @ q'" by (metis append_take_drop_id)
    with Cons.prems have "q' @ r = concat (map f ts)" by simp
    from Cons.IH [OF this] obtain ts1 ts2 p where
      "ts = ts1 @ ts2" "q' = concat (map f ts1) @ p" "p @ r = concat (map f ts2)"
      "p = [] \<or> (\<exists>t ts3 k. ts2 = t # ts3 \<and> k < length (f t) \<and> p = take k (f t))"
      by blast
    with q show ?thesis
      by (intro exI [of _ "t # ts1"] exI [of _ ts2] exI [of _ p]) simp
  qed
qed

end
