(* ===== verification/Oscar_Buffer.thy ===== *)
theory Oscar_Buffer
  imports Kopete_Prelude
begin

text \<open>
  The byte buffer of \<^verbatim>\<open>protocols/oscar/liboscar/buffer.cpp\<close> with its TLVs
  (\<^verbatim>\<open>oscartypeclasses.cpp\<close>) and GUIDs (\<^verbatim>\<open>oscarguid.cpp\<close>): the state is the array,
  the read position and the stack of open length-prefixed blocks.

  Every \<^verbatim>\<open>add\<close> operation of the source returns the new size of the array, so the
  model returns the new buffer and \<open>bufLength\<close> of it is the source's return value.
  A read returns its value and the buffer with the read position moved.  A read or a copy
  from memory outside the array is undefined behaviour of the source and is \<open>None\<close> here.
\<close>

subsection \<open>TLVs\<close>

record tlv =
  tlv_type :: u16
  tlv_length :: u16
  tlv_data :: bytes

definition emptyTLV :: tlv where
  "emptyTLV = \<lparr>tlv_type = 0, tlv_length = 0, tlv_data = []\<rparr>"

definition mkTLV :: "u16 \<Rightarrow> u16 \<Rightarrow> bytes \<Rightarrow> tlv" where
  "mkTLV newType newLength newData = \<lparr>tlv_type = newType, tlv_length = newLength, tlv_data = newData\<rparr>"

text \<open>\<^verbatim>\<open>TLV::operator bool\<close>.\<close>

definition tlv_bool :: "tlv \<Rightarrow> bool" where
  "tlv_bool t \<longleftrightarrow> tlv_type t \<noteq> 0"

subsection \<open>GUIDs\<close>

type_synonym guid = bytes

definition guidIsValid :: "guid \<Rightarrow> bool" where
  "guidIsValid g \<longleftrightarrow> length g = 16"

definition guidIsEqual :: "guid \<Rightarrow> guid \<Rightarrow> nat \<Rightarrow> bool" where
  "guidIsEqual g rhs n = (let n = (if n > 16 then 16 else n) in take n g = take n rhs)"

text \<open>
  \<^verbatim>\<open>Guid::operator=\<close> copies 16 bytes from the right-hand side whatever its size; a shorter
  one is read past its end.
\<close>

definition guidAssign :: "guid \<Rightarrow> guid option" where
  "guidAssign rhs = (if length rhs < 16 then None else Some (take 16 rhs))"

text \<open>
  \<^verbatim>\<open>Guid(const QString&)\<close>: dashes are dropped, then sixteen two-digit groups are parsed with
  \<^verbatim>\<open>QString::toShort(&ok, 16)\<close> until one fails; the failing group still appends its value.
\<close>

function guidGroups :: "(qstring \<Rightarrow> u16 \<times> bool) \<Rightarrow> qstring \<Rightarrow> nat \<Rightarrow> bool \<Rightarrow> guid \<Rightarrow> guid" where
  "guidGroups toShort16 d n ok m =
     (if n < 32 \<and> ok
      then (let (v, ok') = toShort16 (take 2 (drop n d))
            in guidGroups toShort16 d (n + 2) ok' (m @ [ucast v]))
      else m)"
  by pat_completeness auto
termination
  by (relation "measure (\<lambda>(f, d, n, ok, m). 32 - n)") auto

declare guidGroups.simps [simp del]

definition guidFromString :: "(qstring \<Rightarrow> u16 \<times> bool) \<Rightarrow> qstring \<Rightarrow> guid" where
  "guidFromString toShort16 s =
     guidGroups toShort16 (filter (\<lambda>c. c \<noteq> of_char CHR ''-'') s) 0 True []"

subsection \<open>The buffer\<close>

datatype byte_order = BigEndian | LittleEndian
datatype block_type = BWord | BDWord

record block =
  blk_type :: block_type
  blk_byteOrder :: byte_order
  blk_pos :: nat

record buffer =
  mBuffer :: bytes
  mReadPos :: nat
  mBlockStack :: "block list"

definition emptyBuffer :: buffer where
  "emptyBuffer = \<lparr>mBuffer = [], mReadPos = 0, mBlockStack = []\<rparr>"

definition mkBuffer :: "bytes \<Rightarrow> buffer" where
  "mkBuffer data = \<lparr>mBuffer = data, mReadPos = 0, mBlockStack = []\<rparr>"

definition bufLength :: "buffer \<Rightarrow> nat" where
  "bufLength b = length (mBuffer b)"

definition bytesAvailable :: "buffer \<Rightarrow> int" where
  "bytesAvailable b = int (length (mBuffer b)) - int (mReadPos b)"

definition expandBuffer :: "nat \<Rightarrow> buffer \<Rightarrow> buffer" where
  "expandBuffer inc b = b\<lparr>mBuffer := qba_resize (length (mBuffer b) + inc) (mBuffer b)\<rparr>"

text \<open>\<^verbatim>\<open>mBuffer[mBuffer.size()-k] = v\<close>\<close>

definition setFromEnd :: "nat \<Rightarrow> u8 \<Rightarrow> buffer \<Rightarrow> buffer" where
  "setFromEnd k v b = b\<lparr>mBuffer := qba_set (length (mBuffer b) - k) v (mBuffer b)\<rparr>"

definition clearBuffer :: "buffer \<Rightarrow> buffer" where
  "clearBuffer b = b\<lparr>mBuffer := take 0 (mBuffer b), mReadPos := 0\<rparr>"

definition setBuf :: "bytes \<Rightarrow> buffer \<Rightarrow> buffer" where
  "setBuf data b = b\<lparr>mBuffer := data, mReadPos := 0\<rparr>"

subsection \<open>Appending\<close>

definition addByte :: "u8 \<Rightarrow> buffer \<Rightarrow> buffer" where
  "addByte v b = setFromEnd 1 v (expandBuffer 1 b)"

definition addLEByte :: "u8 \<Rightarrow> buffer \<Rightarrow> buffer" where
  "addLEByte v b = setFromEnd 1 (v AND 0xff) (expandBuffer 1 b)"

definition addWord :: "u16 \<Rightarrow> buffer \<Rightarrow> buffer" where
  "addWord w b =
     setFromEnd 1 (ucast (w AND 0x00ff))
       (setFromEnd 2 (ucast (drop_bit 8 (w AND 0xff00))) (expandBuffer 2 b))"

definition addLEWord :: "u16 \<Rightarrow> buffer \<Rightarrow> buffer" where
  "addLEWord w b =
     setFromEnd 1 (ucast (drop_bit 8 w AND 0xff))
       (setFromEnd 2 (ucast (drop_bit 0 w AND 0xff)) (expandBuffer 2 b))"

definition addDWord :: "u32 \<Rightarrow> buffer \<Rightarrow> buffer" where
  "addDWord dw b =
     setFromEnd 1 (ucast (dw AND 0x000000ff))
       (setFromEnd 2 (ucast (drop_bit 8 (dw AND 0x0000ff00)))
         (setFromEnd 3 (ucast (drop_bit 16 (dw AND 0x00ff0000)))
           (setFromEnd 4 (ucast (drop_bit 24 (dw AND 0xff000000))) (expandBuffer 4 b))))"

definition addLEDWord :: "u32 \<Rightarrow> buffer \<Rightarrow> buffer" where
  "addLEDWord dw b =
     setFromEnd 1 (ucast (drop_bit 24 dw AND 0xff))
       (setFromEnd 2 (ucast (drop_bit 16 dw AND 0xff))
         (setFromEnd 3 (ucast (drop_bit 8 dw AND 0xff))
           (setFromEnd 4 (ucast (drop_bit 0 dw AND 0xff)) (expandBuffer 4 b))))"

definition addString :: "bytes \<Rightarrow> buffer \<Rightarrow> buffer" where
  "addString s b = b\<lparr>mBuffer := mBuffer b @ s\<rparr>"

text \<open>The overload \<^verbatim>\<open>addString(QByteArray, DWORD)\<close> ignores its length.\<close>

definition addStringIgnoringLength :: "bytes \<Rightarrow> u32 \<Rightarrow> buffer \<Rightarrow> buffer" where
  "addStringIgnoringLength s len b = addString s b"

text \<open>
  The overloads on a pointer and a length copy \<^verbatim>\<open>len\<close> bytes: undefined when the memory
  pointed to is shorter.
\<close>

definition addStringPtr :: "bytes \<Rightarrow> nat \<Rightarrow> buffer \<Rightarrow> buffer option" where
  "addStringPtr s len b = (if length s < len then None else Some (addString (take len s) b))"

fun addLEStringLoop :: "nat \<Rightarrow> bytes \<Rightarrow> buffer \<Rightarrow> buffer" where
  "addLEStringLoop pos [] b = b"
| "addLEStringLoop pos (c # cs) b =
     addLEStringLoop (Suc pos) cs (b\<lparr>mBuffer := qba_set pos (c AND 0xff) (mBuffer b)\<rparr>)"

definition addLEString :: "bytes \<Rightarrow> nat \<Rightarrow> buffer \<Rightarrow> buffer option" where
  "addLEString s len b =
     (if length s < len then None
      else Some (addLEStringLoop (length (mBuffer b)) (take len s) (expandBuffer len b)))"

definition addTLVData :: "u16 \<Rightarrow> bytes \<Rightarrow> buffer \<Rightarrow> buffer" where
  "addTLVData type data b = addString data (addWord (of_nat (length data)) (addWord type b))"

definition addTLV :: "tlv \<Rightarrow> buffer \<Rightarrow> buffer" where
  "addTLV t b = addTLVData (tlv_type t) (tlv_data t) b"

definition addLETLV :: "u16 \<Rightarrow> bytes \<Rightarrow> buffer \<Rightarrow> buffer" where
  "addLETLV type data b = addString data (addLEWord (of_nat (length data)) (addLEWord type b))"

definition addTLV32 :: "u16 \<Rightarrow> u32 \<Rightarrow> buffer \<Rightarrow> buffer" where
  "addTLV32 type data b = addDWord data (addWord 0x0004 (addWord type b))"

definition addLETLV32 :: "u16 \<Rightarrow> u32 \<Rightarrow> buffer \<Rightarrow> buffer" where
  "addLETLV32 type data b = addLEDWord data (addLEWord 0x0004 (addLEWord type b))"

definition addTLV16 :: "u16 \<Rightarrow> u16 \<Rightarrow> buffer \<Rightarrow> buffer" where
  "addTLV16 type data b = addWord data (addWord 0x0002 (addWord type b))"

definition addLETLV16 :: "u16 \<Rightarrow> u16 \<Rightarrow> buffer \<Rightarrow> buffer" where
  "addLETLV16 type data b = addLEWord data (addLEWord 0x0002 (addLEWord type b))"

definition addTLV8 :: "u16 \<Rightarrow> u8 \<Rightarrow> buffer \<Rightarrow> buffer" where
  "addTLV8 type data b = addByte data (addWord 0x0001 (addWord type b))"

definition addLETLV8 :: "u16 \<Rightarrow> u8 \<Rightarrow> buffer \<Rightarrow> buffer" where
  "addLETLV8 type data b = addLEByte data (addLEWord 0x0001 (addLEWord type b))"

definition addChatTLV :: "(qstring \<Rightarrow> bytes) \<Rightarrow> u16 \<Rightarrow> u16 \<Rightarrow> qstring \<Rightarrow> u16 \<Rightarrow> buffer \<Rightarrow> buffer" where
  "addChatTLV toLatin1 type exchange roomname instanceId b =
     (let b = addWord type b;
          b = addWord (of_nat (0x0005 + length roomname)) b;
          b = addWord exchange b;
          b = addByte (of_nat (length roomname)) b;
          b = addString (toLatin1 roomname) b
      in addWord instanceId b)"

text \<open>
  The operations on C strings: \<^verbatim>\<open>s\<close> is the memory from the pointer on, up to and with its
  terminator, so copying \<^verbatim>\<open>strlen(s)\<close> bytes is defined.
\<close>

definition addLNTS :: "bytes \<Rightarrow> buffer \<Rightarrow> buffer" where
  "addLNTS s b =
     (let len = strlen s;
          b = addLEWord (of_nat (len + 1)) b;
          b = (if len > 0 then addString (take len s) b else b)
      in addByte 0x00 b)"

definition addLELNTS :: "bytes \<Rightarrow> buffer \<Rightarrow> buffer" where
  "addLELNTS s b =
     (let len = strlen s;
          b = addLEWord (of_nat (len + 1)) b;
          b = (if len > 0 then addLEStringLoop (length (mBuffer b)) (take len s) (expandBuffer len b)
               else b)
      in addByte 0x00 b)"

definition addBSTR :: "bytes \<Rightarrow> buffer \<Rightarrow> buffer" where
  "addBSTR s b =
     (let len = strlen s;
          b = addWord (of_nat len) b
      in if len > 0 then addString (take len s) b else b)"

definition addBUIN :: "bytes \<Rightarrow> buffer \<Rightarrow> buffer" where
  "addBUIN s b = (let len = strlen s in addString (take len s) (addByte (of_nat len) b))"

definition addGuid :: "guid \<Rightarrow> buffer \<Rightarrow> buffer" where
  "addGuid g b = (if guidIsValid g then addString g b else b)"

definition addLEBlock :: "bytes \<Rightarrow> buffer \<Rightarrow> buffer" where
  "addLEBlock block b =
     (let b = addLEWord (of_nat (length block)) b
      in if length block > 0 then addString block b else b)"

definition addLEDBlock :: "bytes \<Rightarrow> buffer \<Rightarrow> buffer" where
  "addLEDBlock block b =
     (let b = addLEDWord (of_nat (length block)) b
      in if length block > 0 then addString block b else b)"

subsection \<open>Reading\<close>

definition getByte :: "buffer \<Rightarrow> u8 \<times> buffer" where
  "getByte b =
     (if mReadPos b < length (mBuffer b)
      then (mBuffer b ! mReadPos b, b\<lparr>mReadPos := mReadPos b + 1\<rparr>)
      else (0x00, b))"

text \<open>No caller passes a negative count to \<^verbatim>\<open>skipBytes\<close>.\<close>

definition skipBytes :: "nat \<Rightarrow> buffer \<Rightarrow> buffer" where
  "skipBytes n b = (if mReadPos b < length (mBuffer b) then b\<lparr>mReadPos := mReadPos b + n\<rparr> else b)"

definition getLEByte :: "buffer \<Rightarrow> u8 \<times> buffer" where
  "getLEByte b = (let (v, b) = getByte b in (v AND 0xff, b))"

definition getWord :: "buffer \<Rightarrow> u16 \<times> buffer" where
  "getWord b =
     (let (theword, b) = getByte b;
          (theword2, b) = getByte b
      in (push_bit 8 (ucast theword) OR ucast theword2, b))"

definition getLEWord :: "buffer \<Rightarrow> u16 \<times> buffer" where
  "getLEWord b =
     (let (theword1, b) = getLEByte b;
          (theword2, b) = getLEByte b
      in (push_bit 8 (ucast theword2) OR ucast theword1, b))"

definition getDWord :: "buffer \<Rightarrow> u32 \<times> buffer" where
  "getDWord b =
     (let (word1, b) = getWord b;
          (word2, b) = getWord b
      in (push_bit 16 (ucast word1) OR ucast word2, b))"

definition getLEDWord :: "buffer \<Rightarrow> u32 \<times> buffer" where
  "getLEDWord b =
     (let (word1, b) = getLEWord b;
          (word2, b) = getLEWord b
      in (push_bit 16 (ucast word2) OR ucast word1, b))"

text \<open>The loop \<^verbatim>\<open>for (i = 0; i < n; i++) ch[i] = get();\<close>\<close>

fun getN :: "(buffer \<Rightarrow> 'a \<times> buffer) \<Rightarrow> nat \<Rightarrow> buffer \<Rightarrow> 'a list \<times> buffer" where
  "getN get 0 b = ([], b)"
| "getN get (Suc n) b =
     (let (v, b) = get b; (vs, b) = getN get n b in (v # vs, b))"

text \<open>
  \<^verbatim>\<open>(DWORD)(mBuffer.size() - mReadPos)\<close> is taken modulo \<^verbatim>\<open>2^32\<close>: after a skip past the
  end it is huge, and the loop then reads zeros.
\<close>

definition getBlock :: "u32 \<Rightarrow> buffer \<Rightarrow> bytes \<times> buffer" where
  "getBlock len b =
     (let rest = (of_int (bytesAvailable b) :: u32);
          len = (if len > rest then rest else len)
      in getN getByte (unat len) b)"

definition getBBlock :: "u16 \<Rightarrow> buffer \<Rightarrow> (bytes \<times> buffer) option" where
  "getBBlock len b =
     (if mReadPos b + unat len \<le> length (mBuffer b)
      then Some (take (unat len) (drop (mReadPos b) (mBuffer b)),
                 b\<lparr>mReadPos := mReadPos b + unat len\<rparr>)
      else None)"

definition getWordBlock :: "u16 \<Rightarrow> buffer \<Rightarrow> u16 list \<times> buffer" where
  "getWordBlock len b = (let (ch, b) = getN getWord (unat len) b in (ch @ [0], b))"

definition getLEBlockN :: "u16 \<Rightarrow> buffer \<Rightarrow> bytes \<times> buffer" where
  "getLEBlockN len b = getN getLEByte (unat len) b"

definition getTLV :: "buffer \<Rightarrow> tlv \<times> buffer" where
  "getTLV b =
     (if bytesAvailable b \<ge> 4
      then (let (ty, b) = getWord b;
                (len, b) = getWord b;
                t = emptyTLV\<lparr>tlv_type := ty, tlv_length := len\<rparr>
            in if tlv_bool t
               then (let (d, b) = getBlock (ucast len) b in (t\<lparr>tlv_data := d\<rparr>, b))
               else (t, b))
      else (emptyTLV, b))"

text \<open>
  The loop of \<^verbatim>\<open>getTLVList\<close> continues on an invalid TLV, so it may not end: \<open>None\<close> is
  "does not return".
\<close>

partial_function (option) getTLVLoop :: "tlv list \<Rightarrow> buffer \<Rightarrow> (tlv list \<times> buffer) option" where
  "getTLVLoop ql b =
     (if mReadPos b < length (mBuffer b)
      then (case getTLV b of (t, b') \<Rightarrow>
              if \<not> tlv_bool t then getTLVLoop ql b' else getTLVLoop (ql @ [t]) b')
      else Some (ql, b))"

definition getTLVList :: "buffer \<Rightarrow> (tlv list \<times> buffer) option" where
  "getTLVList b = getTLVLoop [] b"

definition getLNTS :: "buffer \<Rightarrow> bytes \<times> buffer" where
  "getLNTS b =
     (let (len, b) = getWord b
      in if len > 0
         then (let (qcs, b) = getBlock (ucast len - 1) b in (qcs, skipBytes 1 b))
         else ([], b))"

definition getLELNTS :: "buffer \<Rightarrow> bytes \<times> buffer" where
  "getLELNTS b =
     (let (len, b) = getLEWord b
      in if len > 0
         then (let (qcs, b) = getBlock (ucast len - 1) b in (qcs, skipBytes 1 b))
         else ([], b))"

definition getBSTR :: "buffer \<Rightarrow> bytes \<times> buffer" where
  "getBSTR b = (let (len, b) = getWord b in getBlock (ucast len) b)"

definition getBUIN :: "buffer \<Rightarrow> bytes \<times> buffer" where
  "getBUIN b = (let (len, b) = getByte b in getBlock (ucast len) b)"

definition peekBSTR :: "(bytes \<Rightarrow> qstring) \<Rightarrow> buffer \<Rightarrow> qstring \<times> buffer" where
  "peekBSTR toQString b =
     (let lastPos = mReadPos b; (qba, b) = getBSTR b in (toQString qba, b\<lparr>mReadPos := lastPos\<rparr>))"

definition peekBUIN :: "(bytes \<Rightarrow> qstring) \<Rightarrow> buffer \<Rightarrow> qstring \<times> buffer" where
  "peekBUIN toQString b =
     (let lastPos = mReadPos b; (qba, b) = getBUIN b in (toQString qba, b\<lparr>mReadPos := lastPos\<rparr>))"

definition getGuid :: "buffer \<Rightarrow> (guid \<times> buffer) option" where
  "getGuid b = getBBlock 16 b"

definition getLEBlock :: "buffer \<Rightarrow> bytes \<times> buffer" where
  "getLEBlock b = (let (len, b) = getLEWord b in getBlock (ucast len) b)"

definition getLEDBlock :: "buffer \<Rightarrow> bytes \<times> buffer" where
  "getLEDBlock b = (let (len, b) = getLEDWord b in getBlock len b)"

subsection \<open>Length-prefixed blocks\<close>

definition startBlock :: "block_type \<Rightarrow> byte_order \<Rightarrow> buffer \<Rightarrow> buffer" where
  "startBlock type byteOrder b =
     (let blk = \<lparr>blk_type = type, blk_byteOrder = byteOrder, blk_pos = length (mBuffer b)\<rparr>;
          b = b\<lparr>mBlockStack := blk # mBlockStack b\<rparr>
      in case type of BWord \<Rightarrow> expandBuffer 2 b | BDWord \<Rightarrow> expandBuffer 4 b)"

fun setBytes :: "nat \<Rightarrow> bytes \<Rightarrow> bytes \<Rightarrow> bytes" where
  "setBytes pos [] xs = xs"
| "setBytes pos (v # vs) xs = setBytes (Suc pos) vs (qba_set pos v xs)"

definition endBlock :: "buffer \<Rightarrow> buffer option" where
  "endBlock b =
     (case mBlockStack b of
        [] \<Rightarrow> None
      | blk # stack \<Rightarrow>
          (let size = (case blk_type blk of
                 BWord \<Rightarrow> (of_int (int (length (mBuffer b)) - int (blk_pos blk) - 2) :: u32)
               | BDWord \<Rightarrow> of_int (int (length (mBuffer b)) - int (blk_pos blk) - 4));
               lenBytes = (case (blk_byteOrder blk, blk_type blk) of
                 (BigEndian, BWord) \<Rightarrow>
                   [ucast (drop_bit 8 (size AND 0x0000ff00)), ucast (drop_bit 0 (size AND 0x000000ff))]
               | (BigEndian, BDWord) \<Rightarrow>
                   [ucast (drop_bit 24 (size AND 0xff000000)), ucast (drop_bit 16 (size AND 0x00ff0000)),
                    ucast (drop_bit 8 (size AND 0x0000ff00)), ucast (drop_bit 0 (size AND 0x000000ff))]
               | (LittleEndian, BWord) \<Rightarrow>
                   [ucast (drop_bit 0 size AND 0xff), ucast (drop_bit 8 size AND 0xff)]
               | (LittleEndian, BDWord) \<Rightarrow>
                   [ucast (drop_bit 0 size AND 0xff), ucast (drop_bit 8 size AND 0xff),
                    ucast (drop_bit 16 size AND 0xff), ucast (drop_bit 24 size AND 0xff)])
           in Some (b\<lparr>mBuffer := setBytes (blk_pos blk) lenBytes (mBuffer b), mBlockStack := stack\<rparr>)))"

end
