(* ===== verification/Oscar_Codec.thy ===== *)
theory Oscar_Codec
  imports Oscar_Buffer
begin

text \<open>
  What the operations of \<^verbatim>\<open>Buffer\<close> mean to their callers.  Every append is an
  \<open>addString\<close> of an encoding, every read is described by the unread bytes, and a pair
  of an append and the read that undoes it is an instance of the locale \<open>buffer_codec\<close>.
  The locale's lemmas give the round trips of single values, of lists of values, and of one
  codec after another.
\<close>

subsection \<open>Appends as string appends\<close>

lemma addString_simps [simp]:
  "mBuffer (addString s b) = mBuffer b @ s"
  "mReadPos (addString s b) = mReadPos b"
  "mBlockStack (addString s b) = mBlockStack b"
  "addString [] b = b"
  "addString s (addString r b) = addString (r @ s) b"
  by (simp_all add: addString_def)

lemma expand_setFromEnd:
  assumes "length vs < k"
  shows "setFromEnd (k - length vs) v (b\<lparr>mBuffer := xs @ vs @ replicate (k - length vs) 0\<rparr>)
    = b\<lparr>mBuffer := xs @ (vs @ [v]) @ replicate (k - length (vs @ [v])) 0\<rparr>"
proof -
  from assms obtain m where m: "k - length vs = Suc m" by (cases "k - length vs") auto
  then have m': "k - Suc (length vs) = m" by simp
  show ?thesis
    by (simp add: setFromEnd_def m m' list_update_append)
qed

lemma expandBuffer_eq: "expandBuffer k b = b\<lparr>mBuffer := mBuffer b @ [] @ replicate k 0\<rparr>"
  by (simp add: expandBuffer_def qba_resize_def)

lemma addByte_eq [buf_simps]: "addByte v b = addString [v] b"
  using expand_setFromEnd [of "[]" 1 v "mBuffer b" b]
  by (simp add: addByte_def expandBuffer_eq addString_def)

lemma addLEByte_eq [buf_simps]: "addLEByte v b = addString [v] b"
proof -
  have "v AND 0xff = v"
    unfolding byte_masks by (rule bit_word_eqI) (auto simp: bit_simps)
  then have "addLEByte v b = addByte v b" by (simp add: addLEByte_def addByte_def)
  then show ?thesis by (simp add: buf_simps)
qed

lemma set2:
  "setFromEnd 1 v (setFromEnd 2 u (expandBuffer 2 b)) = addString [u, v] b"
  using expand_setFromEnd [of "[]" 2 u "mBuffer b" b] expand_setFromEnd [of "[u]" 2 v "mBuffer b" b]
  by (simp add: expandBuffer_eq addString_def)

lemma set4:
  "setFromEnd 1 x (setFromEnd 2 w (setFromEnd 3 v (setFromEnd 4 u (expandBuffer 4 b))))
    = addString [u, v, w, x] b"
  using expand_setFromEnd [of "[]" 4 u "mBuffer b" b] expand_setFromEnd [of "[u]" 4 v "mBuffer b" b]
    expand_setFromEnd [of "[u, v]" 4 w "mBuffer b" b]
    expand_setFromEnd [of "[u, v, w]" 4 x "mBuffer b" b]
  by (simp add: expandBuffer_eq addString_def numeral_3_eq_3 [symmetric])

lemma addWord_eq [buf_simps]: "addWord w b = addString (enc16 w) b"
  by (simp add: addWord_def set2 [simplified] enc16_def split_simps)

lemma addLEWord_eq [buf_simps]: "addLEWord w b = addString (enc16le w) b"
  by (simp add: addLEWord_def set2 [simplified] enc16le_def split_simps)

lemma addDWord_eq [buf_simps]: "addDWord d b = addString (enc32 d) b"
  by (simp add: addDWord_def set4 [simplified] enc32_def split_simps)

lemma addLEDWord_eq [buf_simps]: "addLEDWord d b = addString (enc32le d) b"
  by (simp add: addLEDWord_def set4 [simplified] enc32le_def split_simps)

lemma addLEStringLoop_eq:
  assumes "pos + length cs \<le> length (mBuffer b)"
  shows "addLEStringLoop pos cs b
    = b\<lparr>mBuffer := take pos (mBuffer b) @ cs @ drop (pos + length cs) (mBuffer b)\<rparr>"
  using assms
proof (induction cs arbitrary: pos b)
  case Nil
  then show ?case by simp
next
  case (Cons c cs)
  have "c AND 0xff = c"
    unfolding byte_masks by (rule bit_word_eqI) (auto simp: bit_simps)
  with Cons show ?case
    by (simp add: upd_conv_take_nth_drop take_Suc_conv_app_nth Suc_le_eq add.commute)
qed

lemma addLEStringLoop_expand [buf_simps]:
  "addLEStringLoop (length (mBuffer b)) s (expandBuffer (length s) b) = addString s b"
  by (simp add: addLEStringLoop_eq expandBuffer_eq addString_def)

lemma addLEString_eq: "length s = len \<Longrightarrow> addLEString s len b = Some (addString s b)"
  by (auto simp: addLEString_def buf_simps)

definition enc_tlv :: "u16 \<Rightarrow> bytes \<Rightarrow> bytes" where
  "enc_tlv ty d = enc16 ty @ enc16 (of_nat (length d)) @ d"

lemma addTLVData_eq [buf_simps]: "addTLVData ty d b = addString (enc_tlv ty d) b"
  by (simp add: addTLVData_def buf_simps enc_tlv_def)

lemma addTLV_eq [buf_simps]: "addTLV t b = addString (enc_tlv (tlv_type t) (tlv_data t)) b"
  by (simp add: addTLV_def buf_simps)

lemma addLETLV_eq [buf_simps]:
  "addLETLV ty d b = addString (enc16le ty @ enc16le (of_nat (length d)) @ d) b"
  by (simp add: addLETLV_def buf_simps)

lemma addTLVn_eq [buf_simps]:
  "addTLV8 ty x b = addTLVData ty [x] b"
  "addTLV16 ty w b = addTLVData ty (enc16 w) b"
  "addTLV32 ty d b = addTLVData ty (enc32 d) b"
  by (simp_all add: addTLV8_def addTLV16_def addTLV32_def buf_simps enc_tlv_def)

lemma addLETLVn_eq [buf_simps]:
  "addLETLV8 ty x b = addLETLV ty [x] b"
  "addLETLV16 ty w b = addLETLV ty (enc16le w) b"
  "addLETLV32 ty d b = addLETLV ty (enc32le d) b"
  by (simp_all add: addLETLV8_def addLETLV16_def addLETLV32_def buf_simps)

lemma addBSTR_eq [buf_simps]:
  "addBSTR s b = addString (enc16 (of_nat (strlen s)) @ cstr s) b"
  by (auto simp: addBSTR_def buf_simps Let_def take_strlen) (simp add: strlen_def)

lemma addBUIN_eq [buf_simps]:
  "addBUIN s b = addString (of_nat (strlen s) # cstr s) b"
  by (simp add: addBUIN_def buf_simps take_strlen)

lemma addLEBlock_eq [buf_simps]:
  "addLEBlock d b = addString (enc16le (of_nat (length d)) @ d) b"
  by (simp add: addLEBlock_def buf_simps Let_def)

lemma addLEDBlock_eq [buf_simps]:
  "addLEDBlock d b = addString (enc32le (of_nat (length d)) @ d) b"
  by (simp add: addLEDBlock_def buf_simps Let_def)

lemma addLNTS_eq [buf_simps]:
  "addLNTS s b = addString (enc16le (of_nat (strlen s + 1)) @ cstr s @ [0]) b"
  by (auto simp: addLNTS_def buf_simps Let_def take_strlen) (simp add: strlen_def)

lemma length_cstr: "length (cstr s) = strlen s"
  by (simp add: strlen_def)

lemma addLELNTS_eq [buf_simps]:
  "addLELNTS s b = addString (enc16le (of_nat (strlen s + 1)) @ cstr s @ [0]) b"
  using addLEStringLoop_expand [of "addString (enc16le (1 + of_nat (strlen s))) b" "cstr s"]
  by (auto simp: addLELNTS_def addLEWord_eq addByte_eq Let_def take_strlen length_cstr) (simp add: strlen_def)

subsection \<open>Reads by the unread bytes\<close>

definition unread :: "buffer \<Rightarrow> bytes" where
  "unread b = drop (mReadPos b) (mBuffer b)"

definition advance :: "nat \<Rightarrow> buffer \<Rightarrow> buffer" where
  "advance n b = b\<lparr>mReadPos := mReadPos b + n\<rparr>"

lemma advance_simps [simp]:
  "mBuffer (advance n b) = mBuffer b"
  "mReadPos (advance n b) = mReadPos b + n"
  "mBlockStack (advance n b) = mBlockStack b"
  "advance 0 b = b"
  "advance n (advance m b) = advance (m + n) b"
  "unread (advance n b) = drop n (unread b)"
  by (simp_all add: advance_def unread_def add.commute)

lemma unread_mkBuffer [simp]: "unread (mkBuffer d) = d"
  by (simp add: unread_def mkBuffer_def)

lemma unread_addString: "mReadPos b \<le> length (mBuffer b) \<Longrightarrow> unread (addString s b) = unread b @ s"
  by (simp add: unread_def)

lemma bytesAvailable_unread:
  "unread b \<noteq> [] \<Longrightarrow> bytesAvailable b = int (length (unread b))"
  by (auto simp: bytesAvailable_def unread_def)

lemma bytesAvailable_pos: "bytesAvailable b > 0 \<longleftrightarrow> unread b \<noteq> []"
  by (auto simp: bytesAvailable_def unread_def)

lemma getByte_unread: "unread b = v # rest \<Longrightarrow> getByte b = (v, advance 1 b)"
proof -
  assume u: "unread b = v # rest"
  then have lt: "mReadPos b < length (mBuffer b)" by (metis drop_all leI list.simps(3) unread_def)
  with u have "mBuffer b ! mReadPos b = v" by (simp add: unread_def Cons_nth_drop_Suc [symmetric])
  with lt show "getByte b = (v, advance 1 b)" by (simp add: getByte_def advance_def)
qed

lemma getByte_empty: "unread b = [] \<Longrightarrow> getByte b = (0, b)"
  by (simp add: getByte_def unread_def)

lemma getLEByte_eq: "getLEByte b = getByte b"
proof -
  have "v AND 0xff = v" for v :: u8
    unfolding byte_masks by (rule bit_word_eqI) (auto simp: bit_simps)
  then show ?thesis by (simp add: getLEByte_def split: prod.splits)
qed

lemma unread_nonempty: "unread b \<noteq> [] \<longleftrightarrow> mReadPos b < length (mBuffer b)"
  by (simp add: unread_def not_le)

lemma getN_getByte:
  "n \<le> length (unread b) \<Longrightarrow> getN getByte n b = (take n (unread b), advance n b)"
proof (induction n arbitrary: b)
  case 0
  then show ?case by simp
next
  case (Suc n)
  then obtain v rest where vr: "unread b = v # rest" by (cases "unread b") auto
  with Suc.prems Suc.IH [of "advance 1 b"] show ?case
    by (simp add: getByte_unread [OF vr])
qed

lemma getN_getByte_short:
  "mReadPos b \<le> length (mBuffer b) \<Longrightarrow> getN getByte n b
    = (take n (unread b) @ replicate (n - length (unread b)) 0, advance (min n (length (unread b))) b)"
proof (induction n arbitrary: b)
  case 0
  then show ?case by simp
next
  case (Suc n)
  show ?case
  proof (cases "unread b")
    case Nil
    with Suc show ?thesis by (simp add: getByte_empty)
  next
    case (Cons v rest)
    then have "mReadPos (advance 1 b) \<le> length (mBuffer (advance 1 b))"
      using unread_nonempty [of b] by simp
    with Cons Suc.IH [of "advance 1 b"] show ?thesis
      by (simp add: getByte_unread [OF Cons])
  qed
qed

lemma getBlock_unread:
  assumes "unat len \<le> length (unread b)" "length (mBuffer b) < 4294967296"
  shows "getBlock len b = (take (unat len) (unread b), advance (unat len) b)"
proof (cases "unread b = []")
  case True
  with assms(1) have "len = 0" by (simp add: unat_eq_0)
  then show ?thesis by (simp add: getBlock_def)
next
  case False
  then have av: "of_int (bytesAvailable b) = (of_nat (length (unread b)) :: u32)"
    by (simp add: bytesAvailable_unread)
  have "length (unread b) < 4294967296" using assms(2) by (simp add: unread_def)
  then have "unat (of_nat (length (unread b)) :: u32) = length (unread b)" by (rule unat_of_nat_u32)
  then have "\<not> len > of_nat (length (unread b))"
    using assms(1) by (simp add: word_less_nat_alt)
  then show ?thesis
    using assms(1) by (simp add: getBlock_def av getN_getByte)
qed

subsection \<open>Words\<close>

lemma getWord_unread:
  "unread b = u # v # rest \<Longrightarrow> getWord b = (push_bit 8 (ucast u) OR ucast v, advance 2 b)"
proof -
  assume u: "unread b = u # v # rest"
  then have "unread (advance 1 b) = v # rest" by simp
  then show ?thesis by (simp add: getWord_def getByte_unread [OF u] getByte_unread numeral_2_eq_2)
qed

lemma getLEWord_unread:
  "unread b = u # v # rest \<Longrightarrow> getLEWord b = (push_bit 8 (ucast v) OR ucast u, advance 2 b)"
proof -
  assume u: "unread b = u # v # rest"
  then have "unread (advance 1 b) = v # rest" by simp
  then show ?thesis
    by (simp add: getLEWord_def getLEByte_eq getByte_unread [OF u] getByte_unread numeral_2_eq_2)
qed

lemma getWord_enc: "unread b = enc16 w @ rest \<Longrightarrow> getWord b = (w, advance 2 b)"
  by (simp add: enc16_def getWord_unread split_simps)

lemma getLEWord_enc: "unread b = enc16le w @ rest \<Longrightarrow> getLEWord b = (w, advance 2 b)"
  by (simp add: enc16le_def getLEWord_unread split_simps)

lemma getDWord_enc: "unread b = enc32 d @ rest \<Longrightarrow> getDWord b = (d, advance 4 b)"
  using getWord_enc [of b "ucast (drop_bit 16 d)" "enc16 (ucast d) @ rest"]
    getWord_enc [of "advance 2 b" "ucast d" rest]
  by (simp add: enc32_halves getDWord_def split_simps)

lemma getLEDWord_enc: "unread b = enc32le d @ rest \<Longrightarrow> getLEDWord b = (d, advance 4 b)"
  using getLEWord_enc [of b "ucast d" "enc16le (ucast (drop_bit 16 d)) @ rest"]
    getLEWord_enc [of "advance 2 b" "ucast (drop_bit 16 d)" rest]
  by (simp add: enc32le_halves getLEDWord_def split_simps)

lemma getBlock_enc:
  "unat len = length d \<Longrightarrow> length (mBuffer b) < 4294967296 \<Longrightarrow> unread b = d @ rest
    \<Longrightarrow> getBlock len b = (d, advance (length d) b)"
  by (simp add: getBlock_unread)

subsection \<open>The contract between an append and its read\<close>

locale buffer_codec =
  fixes put :: "'a \<Rightarrow> buffer \<Rightarrow> buffer"
    and get :: "buffer \<Rightarrow> 'a \<times> buffer"
    and enc :: "'a \<Rightarrow> bytes"
    and ok :: "'a \<Rightarrow> bool"
  assumes put_enc: "put x b = addString (enc x) b"
    and get_enc: "ok x \<Longrightarrow> length (mBuffer b) < 4294967296 \<Longrightarrow> unread b = enc x @ rest
      \<Longrightarrow> get b = (x, advance (length (enc x)) b)"
begin

lemma fold_put: "fold put xs b = addString (concat (map enc xs)) b"
  by (induction xs arbitrary: b) (simp_all add: put_enc)

lemma getN_enc:
  "list_all ok xs \<Longrightarrow> length (mBuffer b) < 4294967296 \<Longrightarrow> unread b = concat (map enc xs) @ rest
    \<Longrightarrow> getN get (length xs) b = (xs, advance (length (concat (map enc xs))) b)"
proof (induction xs arbitrary: b)
  case Nil
  then show ?case by simp
next
  case (Cons x xs)
  then have "get b = (x, advance (length (enc x)) b)" by (simp add: get_enc)
  with Cons show ?case by simp
qed

lemma get_put:
  assumes "ok x" "mReadPos b = length (mBuffer b)" "length (mBuffer (put x b)) < 4294967296"
  shows "get (put x b) = (x, advance (length (enc x)) (put x b))"
  using assms get_enc [of x "put x b" "[]"] by (simp add: put_enc unread_def)

lemma getN_put:
  assumes "list_all ok xs" "length (mBuffer (fold put xs emptyBuffer)) < 4294967296"
  shows "getN get (length xs) (mkBuffer (mBuffer (fold put xs emptyBuffer)))
    = (xs, advance (length (concat (map enc xs))) (mkBuffer (mBuffer (fold put xs emptyBuffer))))"
proof -
  let ?d = "mBuffer (fold put xs emptyBuffer)"
  have d: "?d = concat (map enc xs)" by (simp add: fold_put emptyBuffer_def)
  have "mBuffer (mkBuffer ?d) = ?d" by (simp add: mkBuffer_def)
  with assms d show ?thesis
    using getN_enc [of xs "mkBuffer ?d" "[]"] by simp
qed

end

text \<open>A codec whose encodings all have one width.\<close>

locale fixed_codec = buffer_codec +
  fixes width :: nat
  assumes enc_width: "length (enc x) = width"
begin

lemma length_concat_enc: "length (concat (map enc xs)) = width * length xs"
  by (induction xs) (simp_all add: enc_width)

lemma bufLength_fold_put: "bufLength (fold put xs b) = bufLength b + width * length xs"
  by (simp add: bufLength_def fold_put length_concat_enc)

end

interpretation byte_codec: fixed_codec addByte getByte "\<lambda>v. [v]" "\<lambda>_. True" 1
  by unfold_locales (simp_all add: buf_simps getByte_unread)

interpretation lebyte_codec: fixed_codec addLEByte getLEByte "\<lambda>v. [v]" "\<lambda>_. True" 1
  by unfold_locales (simp_all add: buf_simps getLEByte_eq getByte_unread)

interpretation word_codec: fixed_codec addWord getWord enc16 "\<lambda>_. True" 2
  by unfold_locales (simp_all add: buf_simps getWord_enc)

interpretation leword_codec: fixed_codec addLEWord getLEWord enc16le "\<lambda>_. True" 2
  by unfold_locales (simp_all add: buf_simps getLEWord_enc)

interpretation dword_codec: fixed_codec addDWord getDWord enc32 "\<lambda>_. True" 4
  by unfold_locales (simp_all add: buf_simps getDWord_enc)

interpretation ledword_codec: fixed_codec addLEDWord getLEDWord enc32le "\<lambda>_. True" 4
  by unfold_locales (simp_all add: buf_simps getLEDWord_enc)

text \<open>A TLV that \<^verbatim>\<open>addTLV\<close> writes as it stands: its length field is the length of its data.\<close>

definition tlv_ok :: "tlv \<Rightarrow> bool" where
  "tlv_ok t \<longleftrightarrow> tlv_bool t \<and> tlv_length t = of_nat (length (tlv_data t)) \<and> length (tlv_data t) < 65536"

lemma getTLV_enc:
  assumes "tlv_ok t" "length (mBuffer b) < 4294967296"
    "unread b = enc_tlv (tlv_type t) (tlv_data t) @ rest"
  shows "getTLV b = (t, advance (4 + length (tlv_data t)) b)"
proof -
  let ?d = "tlv_data t"
  have av: "bytesAvailable b \<ge> 4"
    using assms(3) by (subst bytesAvailable_unread) (auto simp: enc_tlv_def enc16_def)
  have w1: "getWord b = (tlv_type t, advance 2 b)"
    using assms(3) getWord_enc [of b] by (simp add: enc_tlv_def)
  have w2: "getWord (advance 2 b) = (tlv_length t, advance 4 b)"
    using assms getWord_enc [of "advance 2 b" "tlv_length t" "?d @ rest"]
    by (simp add: enc_tlv_def tlv_ok_def)
  have "unat (ucast (tlv_length t) :: u32) = length ?d"
    using assms(1) by (simp add: tlv_ok_def unat_of_nat_u16)
  then have "getBlock (ucast (tlv_length t)) (advance 4 b) = (?d, advance (4 + length ?d) b)"
    using assms getBlock_enc [of "ucast (tlv_length t)" ?d "advance 4 b" rest]
    by (simp add: enc_tlv_def)
  then show ?thesis
    using av assms(1) by (simp add: getTLV_def w1 w2 tlv_ok_def tlv_bool_def emptyTLV_def)
qed

interpretation tlv_codec: buffer_codec addTLV getTLV "\<lambda>t. enc_tlv (tlv_type t) (tlv_data t)" tlv_ok
  by unfold_locales (simp_all add: buf_simps getTLV_enc enc_tlv_def)

text \<open>Strings without a zero byte that fit the width of the length field.\<close>

definition str_ok :: "nat \<Rightarrow> bytes \<Rightarrow> bool" where
  "str_ok m s \<longleftrightarrow> 0 \<notin> set s \<and> length s < m"

lemma str_ok_simps: "str_ok m s \<Longrightarrow> cstr s = s" "str_ok m s \<Longrightarrow> strlen s = length s"
  by (simp_all add: str_ok_def cstr_id strlen_def)

lemma getBSTR_enc:
  assumes "str_ok 65536 s" "length (mBuffer b) < 4294967296"
    "unread b = (enc16 (of_nat (strlen s)) @ cstr s) @ rest"
  shows "getBSTR b = (s, advance (2 + length s) b)"
  using assms getWord_enc [of b "of_nat (strlen s)" "s @ rest"]
    getBlock_enc [of "ucast (of_nat (strlen s) :: u16)" s "advance 2 b" rest]
  by (simp add: getBSTR_def str_ok_simps) (simp add: str_ok_def unat_of_nat_u16)

interpretation bstr_codec: buffer_codec addBSTR getBSTR
  "\<lambda>s. enc16 (of_nat (strlen s)) @ cstr s" "str_ok 65536"
  by unfold_locales (simp_all add: buf_simps getBSTR_enc str_ok_simps)

lemma getBUIN_enc:
  assumes "str_ok 256 s" "length (mBuffer b) < 4294967296"
    "unread b = (of_nat (strlen s) # cstr s) @ rest"
  shows "getBUIN b = (s, advance (1 + length s) b)"
  using assms getByte_unread [of b "of_nat (strlen s)" "s @ rest"]
    getBlock_enc [of "ucast (of_nat (strlen s) :: u8)" s "advance 1 b" rest]
  by (simp add: getBUIN_def str_ok_simps) (simp add: str_ok_def unat_of_nat_u8)

interpretation buin_codec: buffer_codec addBUIN getBUIN
  "\<lambda>s. of_nat (strlen s) # cstr s" "str_ok 256"
  by unfold_locales (simp_all add: buf_simps getBUIN_enc str_ok_simps)

lemma getLEBlock_enc:
  assumes "length s < 65536" "length (mBuffer b) < 4294967296"
    "unread b = (enc16le (of_nat (length s)) @ s) @ rest"
  shows "getLEBlock b = (s, advance (2 + length s) b)"
  using assms getLEWord_enc [of b "of_nat (length s)" "s @ rest"]
    getBlock_enc [of "ucast (of_nat (length s) :: u16)" s "advance 2 b" rest]
  by (simp add: getLEBlock_def unat_of_nat_u16)

interpretation leblock_codec: buffer_codec addLEBlock getLEBlock
  "\<lambda>s. enc16le (of_nat (length s)) @ s" "\<lambda>s. length s < 65536"
  by unfold_locales (simp_all add: buf_simps getLEBlock_enc)

lemma getLEDBlock_enc:
  assumes "length (mBuffer b) < 4294967296" "unread b = (enc32le (of_nat (length s)) @ s) @ rest"
  shows "getLEDBlock b = (s, advance (4 + length s) b)"
proof -
  have "length s \<le> length (unread b)" using assms(2) by simp
  also have "\<dots> \<le> length (mBuffer b)" by (simp add: unread_def)
  finally have "unat (of_nat (length s) :: u32) = length s" using assms(1) by (simp add: unat_of_nat_u32)
  then show ?thesis
    using assms getLEDWord_enc [of b "of_nat (length s)" "s @ rest"]
      getBlock_enc [of "of_nat (length s)" s "advance 4 b" rest]
    by (simp add: getLEDBlock_def)
qed

interpretation ledblock_codec: buffer_codec addLEDBlock getLEDBlock
  "\<lambda>s. enc32le (of_nat (length s)) @ s" "\<lambda>_. True"
  by unfold_locales (simp_all add: buf_simps getLEDBlock_enc)

lemma getLELNTS_enc:
  assumes "str_ok 65535 s" "length (mBuffer b) < 4294967296"
    "unread b = (enc16le (of_nat (strlen s + 1)) @ cstr s @ [0]) @ rest"
  shows "getLELNTS b = (s, advance (3 + length s) b)"
proof -
  have n: "length s + 1 < 65536" and s: "strlen s = length s" "cstr s = s"
    using assms(1) by (simp_all add: str_ok_simps) (simp add: str_ok_def)
  let ?w = "of_nat (length s + 1) :: u16"
  have w: "unat ?w = length s + 1" using n by (rule unat_of_nat_u16)
  then have pos: "?w > 0" by (simp add: word_less_nat_alt)
  have "unat (ucast ?w - 1 :: u32) = length s"
    using w by (subst unat_minus_one) (auto simp: word_neq_0_conv [symmetric] simp flip: unat_eq_0)
  then have "getBlock (ucast ?w - 1) (advance 2 b) = (s, advance (2 + length s) b)"
    using assms s getBlock_enc [of "ucast ?w - 1" s "advance 2 b" "[0] @ rest"] by simp
  moreover have "getLEWord b = (?w, advance 2 b)"
    using assms(3) s getLEWord_enc [of b ?w "s @ [0] @ rest"] by simp
  moreover have "mReadPos (advance (2 + length s) b) < length (mBuffer (advance (2 + length s) b))"
    using assms(3) s unread_nonempty [of "advance (2 + length s) b"] by simp
  ultimately show ?thesis
    using pos by (simp add: getLELNTS_def skipBytes_def advance_def)
qed

interpretation lelnts_codec: buffer_codec addLELNTS getLELNTS
  "\<lambda>s. enc16le (of_nat (strlen s + 1)) @ cstr s @ [0]" "str_ok 65535"
  by unfold_locales (simp_all add: buf_simps getLELNTS_enc str_ok_simps)

lemma getGuid_enc:
  "guidIsValid g \<Longrightarrow> unread b = g @ rest \<Longrightarrow> getGuid b = Some (g, advance 16 b)"
proof -
  assume g: "guidIsValid g" and u: "unread b = g @ rest"
  from g have n: "length g = 16" by (simp add: guidIsValid_def)
  from u n have "unread b \<noteq> []" by auto
  then have "mReadPos b < length (mBuffer b)" by (simp add: unread_nonempty)
  moreover have "length (unread b) \<ge> 16" using u n by simp
  ultimately have "mReadPos b + 16 \<le> length (mBuffer b)" by (simp add: unread_def)
  moreover have "take 16 (drop (mReadPos b) (mBuffer b)) = g"
    using u n by (simp add: unread_def)
  ultimately show ?thesis by (simp add: getGuid_def getBBlock_def advance_def)
qed

subsection \<open>TLV lists\<close>

text \<open>What is left when the loop can make no progress: one to three bytes.\<close>

definition tlv_stuck :: "buffer \<Rightarrow> bool" where
  "tlv_stuck b \<longleftrightarrow> 0 < bytesAvailable b \<and> bytesAvailable b < 4"

lemma getTLV_stuck: "tlv_stuck b \<Longrightarrow> getTLV b = (emptyTLV, b)"
  by (simp add: tlv_stuck_def getTLV_def)

lemma getTLVLoop_stuck: "tlv_stuck b \<Longrightarrow> getTLVLoop ql b = None"
proof (rule ccontr)
  assume "tlv_stuck b" "getTLVLoop ql b \<noteq> None"
  then obtain r where ret: "getTLVLoop ql b = Some r" by auto
  have "\<not> tlv_stuck b"
  proof (rule getTLVLoop.raw_induct [where P = "\<lambda>ql b r. \<not> tlv_stuck b", OF _ ret])
    fix f ql b r
    assume IH: "\<And>ql b r. f ql b = Some r \<Longrightarrow> \<not> tlv_stuck b"
      and eq: "(if mReadPos b < length (mBuffer b)
         then case getTLV b of (t, b') \<Rightarrow>
                if \<not> tlv_bool t then f ql b' else f (ql @ [t]) b'
         else Some (ql, b)) = Some r"
    show "\<not> tlv_stuck b"
    proof
      assume st: "tlv_stuck b"
      then have "mReadPos b < length (mBuffer b)" by (simp add: tlv_stuck_def bytesAvailable_def)
      with eq getTLV_stuck [OF st] have "f ql b = Some r" by (simp add: tlv_bool_def emptyTLV_def)
      with IH st show False by blast
    qed
  qed
  with \<open>tlv_stuck b\<close> show False by contradiction
qed

lemma getTLVLoop_enc:
  assumes "list_all tlv_ok ts" "length (mBuffer b) < 4294967296"
    "unread b = concat (map (\<lambda>t. enc_tlv (tlv_type t) (tlv_data t)) ts) @ rest"
  shows "getTLVLoop ql b = getTLVLoop (ql @ ts)
    (advance (length (concat (map (\<lambda>t. enc_tlv (tlv_type t) (tlv_data t)) ts))) b)"
  using assms
proof (induction ts arbitrary: ql b)
  case Nil
  then show ?case by simp
next
  case (Cons t ts)
  let ?e = "enc_tlv (tlv_type t) (tlv_data t)"
  have get: "getTLV b = (t, advance (length ?e) b)"
    using Cons.prems tlv_codec.get_enc by simp
  have "unread b \<noteq> []" using Cons.prems(3) by (simp add: enc_tlv_def enc16_def)
  then have "mReadPos b < length (mBuffer b)" by (simp add: unread_nonempty)
  then have "getTLVLoop ql b = getTLVLoop (ql @ [t]) (advance (length ?e) b)"
    using get Cons.prems(1) by (subst getTLVLoop.simps) (simp add: tlv_ok_def)
  with Cons.IH [of "advance (length ?e) b" "ql @ [t]"] Cons.prems show ?case by simp
qed

text \<open>The wire image of a list of TLVs.\<close>

definition tlv_wire :: "tlv list \<Rightarrow> bytes" where
  "tlv_wire ts = mBuffer (fold addTLV ts emptyBuffer)"

lemma tlv_wire_eq: "tlv_wire ts = concat (map (\<lambda>t. enc_tlv (tlv_type t) (tlv_data t)) ts)"
  by (simp add: tlv_wire_def tlv_codec.fold_put emptyBuffer_def)

lemma getTLVList_wire:
  assumes "list_all tlv_ok ts" "length (tlv_wire ts @ junk) < 4294967296"
  shows "getTLVList (mkBuffer (tlv_wire ts @ junk))
    = getTLVLoop ts (advance (length (tlv_wire ts)) (mkBuffer (tlv_wire ts @ junk)))"
  using assms getTLVLoop_enc [of ts "mkBuffer (tlv_wire ts @ junk)" junk "[]"]
  by (simp add: getTLVList_def tlv_wire_eq mkBuffer_def unread_def)

text \<open>
  The TLV list reader inverts the TLV writer.  Writing any list of well-formed TLVs with
  \<^verbatim>\<open>addTLV\<close> and reading the bytes back with \<^verbatim>\<open>getTLVList\<close> returns exactly that list and
  consumes every byte.
\<close>

theorem getTLVList_roundtrip:
  assumes "list_all tlv_ok ts" "length (tlv_wire ts) < 4294967296"
  shows "getTLVList (mkBuffer (tlv_wire ts))
    = Some (ts, (mkBuffer (tlv_wire ts))\<lparr>mReadPos := length (tlv_wire ts)\<rparr>)"
proof -
  have "getTLVLoop ts (advance (length (tlv_wire ts)) (mkBuffer (tlv_wire ts)))
    = Some (ts, advance (length (tlv_wire ts)) (mkBuffer (tlv_wire ts)))"
    by (subst getTLVLoop.simps) (simp add: mkBuffer_def)
  with getTLVList_wire [of ts "[]"] assms show ?thesis
    by (simp add: advance_def mkBuffer_def)
qed

theorem getTLVList_roundtrip_witness:
  "getTLVList (mkBuffer (tlv_wire [mkTLV 0x66 2 [1, 2], mkTLV 0x131 0 []]))
    = Some ([mkTLV 0x66 2 [1, 2], mkTLV 0x131 0 []],
        (mkBuffer (tlv_wire [mkTLV 0x66 2 [1, 2], mkTLV 0x131 0 []]))
          \<lparr>mReadPos := length (tlv_wire [mkTLV 0x66 2 [1, 2], mkTLV 0x131 0 []])\<rparr>)"
  by (rule getTLVList_roundtrip)
    (simp_all add: tlv_ok_def tlv_bool_def mkTLV_def tlv_wire_eq enc_tlv_def)

text \<open>
  C33: \<^verbatim>\<open>getTLVList\<close> does not return on a list followed by one to three stray bytes:
  \<^verbatim>\<open>getTLV\<close> consumes nothing when fewer than four bytes are left, and the loop continues
  on the invalid TLV it returns.
\<close>

theorem getTLVList_diverges:
  assumes "list_all tlv_ok ts" "0 < length junk" "length junk < 4"
    "length (tlv_wire ts @ junk) < 4294967296"
  shows "getTLVList (mkBuffer (tlv_wire ts @ junk)) = None"
proof -
  have "tlv_stuck (advance (length (tlv_wire ts)) (mkBuffer (tlv_wire ts @ junk)))"
    using assms(2,3) by (simp add: tlv_stuck_def bytesAvailable_def mkBuffer_def)
  then show ?thesis using assms by (simp add: getTLVList_wire getTLVLoop_stuck)
qed

theorem getTLVList_diverges_witness:
  "getTLVList (mkBuffer (tlv_wire [mkTLV 0x66 1 [7]] @ [0, 1, 0])) = None"
  by (rule getTLVList_diverges)
    (simp_all add: tlv_ok_def tlv_bool_def mkTLV_def tlv_wire_eq enc_tlv_def)

subsection \<open>Length-prefixed blocks\<close>

lemma setBytes_eq:
  "pos \<le> length xs \<Longrightarrow> setBytes pos vs xs = take pos xs @ vs @ drop (pos + length vs) xs"
proof (induction vs arbitrary: pos xs)
  case Nil
  then show ?case by simp
next
  case (Cons v vs)
  show ?case
  proof (cases "pos = length xs")
    case True
    with Cons.IH [of "Suc pos" "xs @ [v]"] show ?thesis by (simp add: qba_set_end)
  next
    case False
    with Cons show ?thesis
      by (simp add: upd_conv_take_nth_drop take_Suc_conv_app_nth Suc_le_eq add.commute)
  qed
qed

lemma setBytes_fresh:
  "setBytes (length xs) [u, v] (xs @ replicate 2 0 @ body) = xs @ [u, v] @ body"
  "setBytes (length xs) [u, v, w, x] (xs @ replicate 4 0 @ body) = xs @ [u, v, w, x] @ body"
  by (simp_all add: setBytes_eq del: setBytes.simps)

lemma of_nat_u16_ucast: "(of_nat n :: u16) = ucast (of_nat n :: u32)"
  by (rule bit_word_eqI) (simp add: bit_simps)

lemma block_bytes:
  "enc16 (of_nat n) = [ucast (drop_bit 8 (of_nat n :: u32)), ucast (of_nat n :: u32)]"
  "enc16le (of_nat n) = [ucast (of_nat n :: u32), ucast (drop_bit 8 (of_nat n :: u32))]"
  by (simp_all add: enc16_def enc16le_def of_nat_u16_ucast split_simps)

text \<open>
  A block opened with \<^verbatim>\<open>startBlock\<close> and closed with \<^verbatim>\<open>endBlock\<close> is its contents behind
  a length field of the block's width and byte order, whatever was in the buffer before,
  and the block stack is as it was: blocks nest.
\<close>

theorem block_is_length_prefix:
  "endBlock (addString body (startBlock BWord BigEndian b))
     = Some (addString body (addWord (of_nat (length body)) b))
   \<and> endBlock (addString body (startBlock BDWord BigEndian b))
     = Some (addString body (addDWord (of_nat (length body)) b))
   \<and> endBlock (addString body (startBlock BWord LittleEndian b)) = Some (addLEBlock body b)
   \<and> endBlock (addString body (startBlock BDWord LittleEndian b)) = Some (addLEDBlock body b)"
  by (intro conjI) (simp_all add: endBlock_def startBlock_def expandBuffer_eq setBytes_fresh buf_simps addString_def
      block_bytes enc32_def enc32le_def split_simps Let_def del: setBytes.simps)

subsection \<open>Round trips of single values\<close>

text \<open>
  Every string format of \<^verbatim>\<open>Buffer\<close> whose reader and writer agree on the byte order is
  read back as written: appended to a buffer that has been read to its end, a string without
  zero bytes that fits the one-byte length of a \<^verbatim>\<open>BUIN\<close> comes back from all five readers.
\<close>

theorem string_codecs_roundtrip:
  assumes "str_ok 256 s" "mReadPos b = length (mBuffer b)"
    "length (mBuffer b) + length s + 4 < 4294967296"
  shows "fst (getBSTR (addBSTR s b)) = s \<and> fst (getBUIN (addBUIN s b)) = s
    \<and> fst (getLELNTS (addLELNTS s b)) = s \<and> fst (getLEBlock (addLEBlock s b)) = s
    \<and> fst (getLEDBlock (addLEDBlock s b)) = s"
proof -
  from assms(1) have ok: "str_ok 65536 s" "str_ok 65535 s" "length s < 65536"
    by (simp_all add: str_ok_def)
  note lens = buf_simps str_ok_simps [OF ok(1)]
  show ?thesis
    using assms ok bstr_codec.get_put [where x = s and b = b] buin_codec.get_put [where x = s and b = b]
      lelnts_codec.get_put [where x = s and b = b] leblock_codec.get_put [where x = s and b = b] ledblock_codec.get_put [where x = s and b = b]
    by (simp add: lens)
qed

theorem string_codecs_roundtrip_witness:
  "fst (getBSTR (addBSTR [0x61] emptyBuffer)) = [0x61] \<and> fst (getBUIN (addBUIN [0x61] emptyBuffer)) = [0x61]
    \<and> fst (getLELNTS (addLELNTS [0x61] emptyBuffer)) = [0x61]
    \<and> fst (getLEBlock (addLEBlock [0x61] emptyBuffer)) = [0x61]
    \<and> fst (getLEDBlock (addLEDBlock [0x61] emptyBuffer)) = [0x61]"
  by (rule string_codecs_roundtrip) (simp_all add: str_ok_def emptyBuffer_def)

subsection \<open>The two orders of LNTS\<close>

text \<open>
  \<^verbatim>\<open>addLNTS\<close> is declared as the counterpart of \<^verbatim>\<open>getLNTS\<close> and \<^verbatim>\<open>addLELNTS\<close> as its
  "little-endian version", but both write the length with \<^verbatim>\<open>addLEWord\<close>.
\<close>

lemma addLNTS_is_little_endian: "addLNTS s b = addLELNTS s b"
  by (simp add: buf_simps)

lemma enc16le_byte: "n < 256 \<Longrightarrow> enc16le (of_nat n) = enc16 (of_nat (n * 256))"
proof -
  assume n: "n < 256"
  have "take_bit 8 n = n" using n by (simp add: take_bit_eq_mod)
  then have small: "bit n k \<Longrightarrow> k < 8" for k
    by (metis bit_take_bit_iff)
  then have small16: "bit n k \<Longrightarrow> k < 16" for k by fastforce
  have shift: "(of_nat (n * 256) :: u16) = push_bit 8 (of_nat n)"
    by (simp add: push_bit_eq_mult mult.commute)
  show ?thesis
    unfolding enc16le_def enc16_def shift
    by (auto simp: bit_simps intro!: bit_word_eqI dest: small small16)
qed

text \<open>
  A string written with \<^verbatim>\<open>addLNTS\<close> is not what \<^verbatim>\<open>getLNTS\<close> reads back.  The length is
  written little-endian and read big-endian, so for every string of fewer than 255 bytes
  the reader asks for 256 times as many bytes and runs to the end of the buffer, returning the
  terminator as part of the string.
\<close>

theorem getLNTS_misreads_addLNTS:
  assumes "str_ok 255 s" "mReadPos b = length (mBuffer b)"
    "length (mBuffer (addLNTS s b)) < 4294967296"
  shows "fst (getLNTS (addLNTS s b)) = s @ [0]"
proof -
  let ?c = "addLNTS s b" and ?w = "of_nat ((length s + 1) * 256) :: u16"
  from assms(1) have n: "length s + 1 < 256" by (simp add: str_ok_def)
  have "unread ?c = enc16le (of_nat (length s + 1)) @ s @ [0]"
    using assms(1,2) by (simp add: buf_simps str_ok_simps unread_def)
  then have u: "unread ?c = enc16 ?w @ s @ [0]" by (simp only: enc16le_byte [OF n])
  then have get: "getWord ?c = (?w, advance 2 ?c)" by (rule getWord_enc)
  have "(length s + 1) * 256 < 65536" using n by simp
  then have w: "unat ?w = (length s + 1) * 256" by (rule unat_of_nat_u16)
  then have pos: "?w > 0" by (simp add: word_less_nat_alt)
  let ?r = "advance 2 ?c" and ?len = "ucast ?w - 1 :: u32"
  have len: "unat ?len = (length s + 1) * 256 - 1"
    using w by (subst unat_minus_one) (auto simp: word_neq_0_conv [symmetric] simp flip: unat_eq_0)
  have r: "unread ?r = s @ [0]" using u by simp
  then have av: "of_int (bytesAvailable ?r) = (of_nat (length s + 1) :: u32)"
    by (simp add: bytesAvailable_unread)
  have "unat (of_nat (length s + 1) :: u32) = length s + 1"
    using n by (intro unat_of_nat_u32) simp
  moreover from this len have "?len > of_nat (length s + 1)"
    by (simp add: word_less_nat_alt)
  ultimately have "getBlock ?len ?r = getN getByte (length s + 1) ?r"
    by (simp add: getBlock_def av)
  also have "\<dots> = (s @ [0], advance (length s + 1) ?r)"
    using r by (subst getN_getByte) auto
  finally show ?thesis using pos by (simp add: getLNTS_def get)
qed

theorem getLNTS_misreads_addLNTS_witness:
  "fst (getLNTS (addLNTS [0x61, 0x62] emptyBuffer)) = [0x61, 0x62] @ [0]"
  by (rule getLNTS_misreads_addLNTS)
    (simp_all add: str_ok_def emptyBuffer_def buf_simps enc16le_def cstr_def)

end
