(* ===== verification/Oscar_Hexdump.thy ===== *)
theory Oscar_Hexdump
  imports Oscar_Buffer
begin

text \<open>
  The hexadecimal dump that \<^verbatim>\<open>Buffer::toString\<close>, \<^verbatim>\<open>Transfer::toString\<close> and the
  \<^verbatim>\<open>toString\<close> of \<^verbatim>\<open>coreprotocol.cpp\<close> each write out: the loop with its counter and its
  two column strings, and a specification by lines of sixteen bytes.  The output is ASCII,
  so it is a list of characters here.  \<^verbatim>\<open>isprint\<close> is that of the C locale.
\<close>

definition isprint :: "u8 \<Rightarrow> bool" where
  "isprint c \<longleftrightarrow> 0x20 \<le> c \<and> c \<le> 0x7e"

definition hexDigit :: "nat \<Rightarrow> char" where
  "hexDigit n = ''0123456789abcdef'' ! n"

text \<open>\<^verbatim>\<open>QStringLiteral("%1 ").arg(c, 0, 16)\<close>: no padding.\<close>

definition hexArg :: "u8 \<Rightarrow> string" where
  "hexArg c = (if unat c < 16 then [hexDigit (unat c)]
     else [hexDigit (unat c div 16), hexDigit (unat c mod 16)]) @ '' ''"

definition leftJustified :: "nat \<Rightarrow> string \<Rightarrow> string" where
  "leftJustified n s = s @ replicate (n - length s) (CHR '' '')"

definition newline :: string where
  "newline = [CHR 0x0A]"

record dump_state =
  ds_i :: nat
  ds_output :: string
  ds_hex :: string
  ds_ascii :: string

definition dumpStep :: "u8 \<Rightarrow> dump_state \<Rightarrow> dump_state" where
  "dumpStep c s =
     (let i = ds_i s + 1;
          hex = ds_hex s @ (if c < 0x10 then ''0'' else '''') @ hexArg c;
          ascii = ds_ascii s @ [if isprint c then char_of (unat c) else CHR ''.'']
      in if i = 16
         then \<lparr>ds_i = 0, ds_output = ds_output s @ hex @ ''   |'' @ ascii @ ''|'' @ newline,
                ds_hex = '''', ds_ascii = ''''\<rparr>
         else \<lparr>ds_i = i, ds_output = ds_output s, ds_hex = hex, ds_ascii = ascii\<rparr>)"

definition hexdump :: "bytes \<Rightarrow> string" where
  "hexdump buffer =
     (let s = fold dumpStep buffer \<lparr>ds_i = 0, ds_output = newline, ds_hex = '''', ds_ascii = ''''\<rparr>;
          output = (if ds_hex s \<noteq> ''''
            then ds_output s @ leftJustified 48 (ds_hex s) @ ''   |'' @ leftJustified 16 (ds_ascii s) @ ''|''
            else ds_output s)
      in output @ newline)"

definition bufferToString :: "buffer \<Rightarrow> string" where
  "bufferToString b = hexdump (mBuffer b)"

subsection \<open>Specification by lines\<close>

definition hexCell :: "u8 \<Rightarrow> string" where
  "hexCell c = [hexDigit (unat c div 16), hexDigit (unat c mod 16), CHR '' '']"

definition asciiCell :: "u8 \<Rightarrow> char" where
  "asciiCell c = (if isprint c then char_of (unat c) else CHR ''.'')"

definition dumpLine :: "bytes \<Rightarrow> string" where
  "dumpLine bs = leftJustified 48 (concat (map hexCell bs)) @ ''   |''
     @ leftJustified 16 (map asciiCell bs) @ ''|''"

function dumpLines :: "bytes \<Rightarrow> string" where
  "dumpLines bs =
     (if length bs = 0 then newline
      else if length bs < 16 then dumpLine bs @ newline
      else dumpLine (take 16 bs) @ newline @ dumpLines (drop 16 bs))"
  by pat_completeness auto
termination
  by (relation "measure length") auto

declare dumpLines.simps [simp del]

lemma hexCell_step: "(if c < 0x10 then ''0'' else '''') @ hexArg c = hexCell c"
  by (simp add: hexCell_def hexArg_def word_less_nat_alt hexDigit_def)

lemma length_cells [simp]: "length (concat (map hexCell bs)) = 3 * length bs"
  by (induction bs) (simp_all add: hexCell_def)

lemma cells_empty: "concat (map hexCell bs) = [] \<longleftrightarrow> bs = []"
  by (cases bs) (simp_all add: hexCell_def)

lemma length_dumpLine: "length bs \<le> 16 \<Longrightarrow> length (dumpLine bs) = 69"
  by (simp add: dumpLine_def leftJustified_def)

lemma fold_dumpStep_short:
  "i + length bs < 16 \<Longrightarrow> fold dumpStep bs \<lparr>ds_i = i, ds_output = out, ds_hex = h, ds_ascii = a\<rparr>
    = \<lparr>ds_i = i + length bs, ds_output = out, ds_hex = h @ concat (map hexCell bs),
       ds_ascii = a @ map asciiCell bs\<rparr>"
proof (induction bs arbitrary: i h a)
  case Nil
  then show ?case by simp
next
  case (Cons c bs)
  then show ?case
    by (simp add: dumpStep_def Let_def hexCell_step [symmetric] asciiCell_def)
qed

lemma fold_dumpStep_line:
  assumes "length bs = 16"
  shows "fold dumpStep bs \<lparr>ds_i = 0, ds_output = out, ds_hex = '''', ds_ascii = ''''\<rparr>
    = \<lparr>ds_i = 0, ds_output = out @ dumpLine bs @ newline, ds_hex = '''', ds_ascii = ''''\<rparr>"
proof -
  from assms obtain cs c where bs: "bs = cs @ [c]" and n: "length cs = 15"
    by (cases bs rule: rev_cases) auto
  then show ?thesis
    by (simp add: fold_dumpStep_short dumpStep_def Let_def dumpLine_def leftJustified_def
        hexCell_step [symmetric] asciiCell_def length_cells [of cs, simplified n]
        add: length_cells [of "[c]", unfolded hexCell_step [symmetric], simplified])
qed

lemma hexdump_from:
  "(let s = fold dumpStep bs \<lparr>ds_i = 0, ds_output = out, ds_hex = '''', ds_ascii = ''''\<rparr>
    in (if ds_hex s \<noteq> ''''
        then ds_output s @ leftJustified 48 (ds_hex s) @ ''   |'' @ leftJustified 16 (ds_ascii s) @ ''|''
        else ds_output s) @ newline) = out @ dumpLines bs"
proof (induction bs arbitrary: out rule: dumpLines.induct)
  case (1 bs)
  consider "bs = []" | "bs \<noteq> []" "length bs < 16" | "length bs \<ge> 16" by fastforce
  then show ?case
  proof cases
    case 1
    then show ?thesis by (simp add: dumpLines.simps)
  next
    case 2
    then show ?thesis
      by (simp add: dumpLines.simps [of bs] fold_dumpStep_short dumpLine_def cells_empty Let_def
          del: concat_eq_Nil_conv)
  next
    case 3
    then have "fold dumpStep bs s = fold dumpStep (drop 16 bs) (fold dumpStep (take 16 bs) s)" for s
      by (metis append_take_drop_id comp_apply fold_append)
    moreover from 3 have "bs \<noteq> []" by auto
    ultimately show ?thesis
      using 3 1 by (simp add: dumpLines.simps [of bs] fold_dumpStep_line)
  qed
qed

text \<open>
  The dump loop prints exactly one line of 69 characters for each run of sixteen bytes,
  the last one padded, after an empty line, with one more empty line when the length is a
  multiple of sixteen: the counter, the two column strings and their resets implement the
  line-by-line specification.
\<close>

theorem hexdump_by_lines: "hexdump bs = newline @ dumpLines bs"
  using hexdump_from [of bs newline] by (simp add: hexdump_def Let_def)

end
