(* ===== verification/Oscar_Transfer.thy ===== *)
theory Oscar_Transfer
  imports Oscar_Codec Oscar_Hexdump
begin

text \<open>
  The transfers of \<^verbatim>\<open>transfer.cpp\<close>: a raw buffer, a FLAP frame and a SNAC inside a FLAP,
  each with the byte image that goes on the wire.  The class hierarchy is a chain of record
  extensions, and \<open>anyTransfer\<close> is a pointer to one of the three classes, whose case
  distinction is the sources' \<^verbatim>\<open>dynamic_cast\<close>.
\<close>

record flap =
  flap_channel :: u8
  flap_sequence :: u16
  flap_length :: u16

record snac =
  snac_family :: u16
  snac_subtype :: u16
  snac_flags :: u16
  snac_id :: u32

record transfer =
  m_buffer :: buffer
  m_wireFormat :: bytes
  m_isBufferValid :: bool

record flapTransfer = transfer +
  m_flapChannel :: u8
  m_flapSequence :: u16
  m_flapLength :: u16
  m_isFlapValid :: bool

record snacTransfer = flapTransfer +
  m_snacService :: u16
  m_snacSubtype :: u16
  m_snacFlags :: u16
  m_snacReqId :: u32
  m_isSnacValid :: bool

datatype transfer_type = RawTransferType | FlapTransferType | SnacTransferType

datatype anyTransfer = RawTransfer transfer | FlapTransfer flapTransfer | SnacTransfer snacTransfer

primrec typeOf :: "anyTransfer \<Rightarrow> transfer_type" where
  "typeOf (RawTransfer t) = RawTransferType"
| "typeOf (FlapTransfer t) = FlapTransferType"
| "typeOf (SnacTransfer t) = SnacTransferType"

definition transferToString :: "'a transfer_scheme \<Rightarrow> string" where
  "transferToString t = hexdump (m_wireFormat t)"

definition setBuffer :: "buffer \<Rightarrow> 'a transfer_scheme \<Rightarrow> 'a transfer_scheme" where
  "setBuffer b t = t\<lparr>m_buffer := b\<rparr>"

subsection \<open>Constructors\<close>

definition mkTransfer :: "buffer \<Rightarrow> transfer" where
  "mkTransfer buf = \<lparr>m_buffer = buf, m_wireFormat = [], m_isBufferValid = True\<rparr>"

definition mkFlapTransferWith :: "buffer \<Rightarrow> u8 \<Rightarrow> u16 \<Rightarrow> u16 \<Rightarrow> flapTransfer" where
  "mkFlapTransferWith buffer chan seq len =
     \<lparr>m_buffer = buffer, m_wireFormat = [], m_isBufferValid = True,
      m_flapChannel = chan, m_flapSequence = seq, m_flapLength = len,
      m_isFlapValid = \<not> (chan = 0 \<or> len < 6)\<rparr>"

definition mkFlapTransfer :: "flap \<Rightarrow> buffer \<Rightarrow> flapTransfer" where
  "mkFlapTransfer f buffer =
     \<lparr>m_buffer = buffer, m_wireFormat = [], m_isBufferValid = True,
      m_flapChannel = flap_channel f, m_flapSequence = flap_sequence f, m_flapLength = flap_length f,
      m_isFlapValid = \<not> (flap_channel f = 0 \<or> flap_length f < 6)\<rparr>"

definition mkSnacTransferWith ::
  "buffer \<Rightarrow> u8 \<Rightarrow> u16 \<Rightarrow> u16 \<Rightarrow> u16 \<Rightarrow> u16 \<Rightarrow> u16 \<Rightarrow> u32 \<Rightarrow> snacTransfer" where
  "mkSnacTransferWith buffer chan seq len service subtype flags reqId =
     flapTransfer.extend (mkFlapTransferWith buffer chan seq len)
       (snacTransfer.fields service subtype flags reqId (\<not> (service = 0 \<or> subtype = 0)))"

definition mkSnacTransfer :: "flap \<Rightarrow> snac \<Rightarrow> buffer \<Rightarrow> snacTransfer" where
  "mkSnacTransfer f s buffer =
     flapTransfer.extend (mkFlapTransfer f buffer)
       (snacTransfer.fields (snac_family s) (snac_subtype s) (snac_flags s) (snac_id s)
          (\<not> (snac_family s = 0 \<or> snac_subtype s = 0)))"

subsection \<open>Setters\<close>

definition setFlapChannel :: "u8 \<Rightarrow> 'a flapTransfer_scheme \<Rightarrow> 'a flapTransfer_scheme" where
  "setFlapChannel channel t =
     (if channel \<noteq> 0 then t\<lparr>m_flapChannel := channel, m_isFlapValid := True\<rparr> else t)"

definition setFlapSequence :: "u16 \<Rightarrow> 'a flapTransfer_scheme \<Rightarrow> 'a flapTransfer_scheme" where
  "setFlapSequence seq t = t\<lparr>m_flapSequence := seq\<rparr>"

definition setFlapLength :: "u16 \<Rightarrow> 'a flapTransfer_scheme \<Rightarrow> 'a flapTransfer_scheme" where
  "setFlapLength len t = t\<lparr>m_flapLength := len\<rparr>"

definition setSnacService :: "u16 \<Rightarrow> snacTransfer \<Rightarrow> snacTransfer" where
  "setSnacService service t = t\<lparr>m_snacService := service\<rparr>"

definition setSnacSubtype :: "u16 \<Rightarrow> snacTransfer \<Rightarrow> snacTransfer" where
  "setSnacSubtype subtype t = t\<lparr>m_snacSubtype := subtype\<rparr>"

definition setSnacFlags :: "u16 \<Rightarrow> snacTransfer \<Rightarrow> snacTransfer" where
  "setSnacFlags flags t = t\<lparr>m_snacFlags := flags\<rparr>"

definition setSnacRequest :: "u32 \<Rightarrow> snacTransfer \<Rightarrow> snacTransfer" where
  "setSnacRequest reqId t = t\<lparr>m_snacReqId := reqId\<rparr>"

definition snacOf :: "snacTransfer \<Rightarrow> snac" where
  "snacOf t = \<lparr>snac_family = m_snacService t, snac_subtype = m_snacSubtype t,
     snac_flags = m_snacFlags t, snac_id = m_snacReqId t\<rparr>"

subsection \<open>Wire images\<close>

definition populateWireBuffer :: "nat \<Rightarrow> bytes \<Rightarrow> 'a transfer_scheme \<Rightarrow> 'a transfer_scheme" where
  "populateWireBuffer offset buf t = t\<lparr>m_wireFormat := setBytes offset buf (m_wireFormat t)\<rparr>"

definition rawToWire :: "transfer \<Rightarrow> bytes \<times> transfer" where
  "rawToWire t = (let t = t\<lparr>m_wireFormat := mBuffer (m_buffer t)\<rparr> in (m_wireFormat t, t))"

text \<open>Six assignments \<^verbatim>\<open>m_wireFormat[0] = ...\<close> to \<^verbatim>\<open>m_wireFormat[5] = ...\<close>.\<close>

definition flapHeader :: "u8 \<Rightarrow> u16 \<Rightarrow> u16 \<Rightarrow> bytes" where
  "flapHeader chan seq len =
     [0x2A, chan, ucast (drop_bit 8 (seq AND 0xFF00)), ucast (seq AND 0x00FF),
      ucast (drop_bit 8 (len AND 0xFF00)), ucast (len AND 0x00FF)]"

definition flapToWire :: "flapTransfer \<Rightarrow> bytes \<times> flapTransfer" where
  "flapToWire t =
     (let t = t\<lparr>m_wireFormat := take 0 (m_wireFormat t)\<rparr>;
          useBuf = mBuffer (m_buffer t);
          t = t\<lparr>m_flapLength := of_nat (length useBuf)\<rparr>;
          t = t\<lparr>m_wireFormat := qba_resize (6 + unat (m_flapLength t)) (m_wireFormat t)\<rparr>;
          t = t\<lparr>m_wireFormat := setBytes 0
                 (flapHeader (m_flapChannel t) (m_flapSequence t) (m_flapLength t)) (m_wireFormat t)\<rparr>;
          t = populateWireBuffer 6 useBuf t
      in (m_wireFormat t, t))"

definition snacHeader :: "u16 \<Rightarrow> u16 \<Rightarrow> u16 \<Rightarrow> u32 \<Rightarrow> bytes" where
  "snacHeader service subtype flags reqId =
     [ucast (drop_bit 8 (service AND 0xFF00)), ucast (service AND 0x00FF),
      ucast (drop_bit 8 (subtype AND 0xFF00)), ucast (subtype AND 0x00FF),
      ucast (drop_bit 8 (flags AND 0xFF00)), ucast (flags AND 0x00FF),
      ucast (drop_bit 24 (reqId AND 0xFF000000)), ucast (drop_bit 16 (reqId AND 0x00FF0000)),
      ucast (drop_bit 8 (reqId AND 0x0000FF00)), ucast (reqId AND 0x000000FF)]"

definition snacToWire :: "snacTransfer \<Rightarrow> bytes \<times> snacTransfer" where
  "snacToWire t =
     (let t = t\<lparr>m_wireFormat := take 0 (m_wireFormat t)\<rparr>;
          useBuf = mBuffer (m_buffer t);
          t = setFlapLength (of_nat (length useBuf + 10)) t;
          t = t\<lparr>m_wireFormat := qba_resize (16 + length useBuf) (m_wireFormat t)\<rparr>;
          t = t\<lparr>m_wireFormat := setBytes 0
                 (flapHeader (m_flapChannel t) (m_flapSequence t) (m_flapLength t)) (m_wireFormat t)\<rparr>;
          t = t\<lparr>m_wireFormat := setBytes 6
                 (snacHeader (m_snacService t) (m_snacSubtype t) (m_snacFlags t) (m_snacReqId t))
                 (m_wireFormat t)\<rparr>;
          t = populateWireBuffer 16 useBuf t
      in (m_wireFormat t, t))"

text \<open>The virtual \<^verbatim>\<open>toWire()\<close>.\<close>

primrec toWire :: "anyTransfer \<Rightarrow> bytes \<times> anyTransfer" where
  "toWire (RawTransfer t) = (let (w, t) = rawToWire t in (w, RawTransfer t))"
| "toWire (FlapTransfer t) = (let (w, t) = flapToWire t in (w, FlapTransfer t))"
| "toWire (SnacTransfer t) = (let (w, t) = snacToWire t in (w, SnacTransfer t))"

subsection \<open>What is on the wire\<close>

lemma flapHeader_eq [split_simps]: "flapHeader chan seq len = 0x2A # chan # enc16 seq @ enc16 len"
  by (simp add: flapHeader_def enc16_def split_simps)

lemma snacHeader_eq [split_simps]:
  "snacHeader service subtype flags reqId
    = enc16 service @ enc16 subtype @ enc16 flags @ enc32 reqId"
  by (simp add: snacHeader_def enc16_def enc32_def split_simps)

lemma setBytes_zero:
  "setBytes 0 hdr (qba_resize (length hdr + n) []) = hdr @ replicate n 0"
  by (simp add: setBytes_eq qba_resize_def)

lemma unat_of_nat_u16_le: "unat (of_nat n :: u16) \<le> n"
  by (simp add: unat_of_nat take_bit_eq_mod)

lemma flapToWire_bytes:
  "fst (flapToWire t) = 0x2A # m_flapChannel t # enc16 (m_flapSequence t)
     @ enc16 (of_nat (length (mBuffer (m_buffer t)))) @ mBuffer (m_buffer t)"
proof -
  let ?d = "mBuffer (m_buffer t)"
  let ?h = "flapHeader (m_flapChannel t) (m_flapSequence t) (of_nat (length ?d))"
  have h: "length ?h = 6" by (simp add: flapHeader_def)
  have "setBytes 0 ?h (qba_resize (6 + unat (of_nat (length ?d) :: u16)) [])
    = ?h @ replicate (unat (of_nat (length ?d) :: u16)) 0"
    using setBytes_zero [of ?h] by (simp only: h)
  then have "fst (flapToWire t) = setBytes 6 ?d (?h @ replicate (unat (of_nat (length ?d) :: u16)) 0)"
    by (simp add: flapToWire_def populateWireBuffer_def Let_def del: setBytes.simps)
  also have "\<dots> = ?h @ ?d"
    using unat_of_nat_u16_le [of "length ?d"] h by (simp add: setBytes_eq)
  finally show ?thesis by (simp add: split_simps)
qed

lemma snacToWire_bytes:
  "fst (snacToWire t) = 0x2A # m_flapChannel t # enc16 (m_flapSequence t)
     @ enc16 (of_nat (length (mBuffer (m_buffer t)) + 10))
     @ enc16 (m_snacService t) @ enc16 (m_snacSubtype t) @ enc16 (m_snacFlags t)
     @ enc32 (m_snacReqId t) @ mBuffer (m_buffer t)"
proof -
  let ?d = "mBuffer (m_buffer t)"
  let ?h = "flapHeader (m_flapChannel t) (m_flapSequence t) (of_nat (length ?d + 10))"
  let ?s = "snacHeader (m_snacService t) (m_snacSubtype t) (m_snacFlags t) (m_snacReqId t)"
  have h: "length ?h = 6" and s: "length ?s = 10" by (simp_all add: flapHeader_def snacHeader_def)
  have e: "16 + length ?d = length ?h + (10 + length ?d)" unfolding h by simp
  have 1: "setBytes 0 ?h (qba_resize (16 + length ?d) []) = ?h @ replicate (10 + length ?d) 0"
    unfolding e by (rule setBytes_zero)
  have 2: "setBytes 6 ?s (?h @ replicate (10 + length ?d) 0) = ?h @ ?s @ replicate (length ?d) 0"
    using h s by (simp add: setBytes_eq)
  have 3: "setBytes 16 ?d (?h @ ?s @ replicate (length ?d) 0) = ?h @ ?s @ ?d"
    using h s by (simp add: setBytes_eq)
  have "fst (snacToWire t)
    = setBytes 16 ?d (setBytes 6 ?s (setBytes 0 ?h (qba_resize (16 + length ?d) [])))"
    by (simp add: snacToWire_def populateWireBuffer_def setFlapLength_def Let_def del: setBytes.simps)
  also have "\<dots> = ?h @ ?s @ ?d" by (simp only: 1 2 3)
  finally show ?thesis by (simp add: split_simps)
qed

end
