(* ===== verification/Oscar_CoreProtocol.thy ===== *)
theory Oscar_CoreProtocol
  imports Oscar_Transfer
begin

text \<open>
  From bytes to transfers: \<^verbatim>\<open>inputprotocolbase.cpp\<close>, \<^verbatim>\<open>flapprotocol.cpp\<close>,
  \<^verbatim>\<open>snacprotocol.cpp\<close> and \<^verbatim>\<open>coreprotocol.cpp\<close>.  A parse that would read memory outside
  the packet is \<open>Undefined\<close>.  The signal \<^verbatim>\<open>incomingData\<close> is a direct call of the client
  stream's \<^verbatim>\<open>cp_incomingData\<close>, which takes the transfer and puts it in its queue \<open>d_in\<close>.
\<close>

subsection \<open>QDataStream reads\<close>

text \<open>Big endian; a read past the end yields 0 and leaves the stream at its end.\<close>

definition dsByte :: "bytes \<Rightarrow> u8 \<times> bytes" where
  "dsByte din = (case din of [] \<Rightarrow> (0, []) | v # rest \<Rightarrow> (v, rest))"

definition dsWord :: "bytes \<Rightarrow> u16 \<times> bytes" where
  "dsWord din = (case din of u # v # rest \<Rightarrow> (push_bit 8 (ucast u) OR ucast v, rest) | _ \<Rightarrow> (0, []))"

definition dsDWord :: "bytes \<Rightarrow> u32 \<times> bytes" where
  "dsDWord din = (case din of
      a # b # c # d # rest \<Rightarrow>
        (push_bit 16 (ucast (push_bit 8 (ucast a) OR ucast b :: u16))
           OR ucast (push_bit 8 (ucast c) OR ucast d :: u16), rest)
    | _ \<Rightarrow> (0, []))"

lemma ds_enc [simp]:
  "dsByte (v # rest) = (v, rest)"
  "dsWord (enc16 w @ rest) = (w, rest)"
  "dsDWord (enc32 d @ rest) = (d, rest)"
proof -
  show "dsByte (v # rest) = (v, rest)" by (simp add: dsByte_def)
  show "dsWord (enc16 w @ rest) = (w, rest)" by (simp add: dsWord_def enc16_def split_simps)
  have "ucast (push_bit 8 (ucast (ucast (drop_bit 24 d) :: u8)) OR ucast (ucast (drop_bit 16 d) :: u8) :: u16)
      = (ucast (ucast (drop_bit 16 d) :: u16) :: u32)"
    using join16 [of "ucast (drop_bit 16 d)"] by (simp add: split_simps)
  moreover have "ucast (push_bit 8 (ucast (ucast (drop_bit 8 d) :: u8)) OR ucast (ucast d :: u8) :: u16)
      = (ucast (ucast d :: u16) :: u32)"
    using join16 [of "ucast d"] by (simp add: split_simps)
  ultimately show "dsDWord (enc32 d @ rest) = (d, rest)"
    using join32 [of d] by (simp add: dsDWord_def enc32_def)
qed

subsection \<open>InputProtocolBase\<close>

text \<open>Its states are \<^verbatim>\<open>Success\<close> 0, \<^verbatim>\<open>NeedMore\<close> 1, \<^verbatim>\<open>OutOfSync\<close> 2, \<^verbatim>\<open>ProtocolError\<close> 3.\<close>

datatype ip_state = IpSuccess | IpNeedMore | IpOutOfSync | IpProtocolError

primrec ip_state_num :: "ip_state \<Rightarrow> nat" where
  "ip_state_num IpSuccess = 0"
| "ip_state_num IpNeedMore = 1"
| "ip_state_num IpOutOfSync = 2"
| "ip_state_num IpProtocolError = 3"

record inputProtocol =
  ip_mstate :: ip_state
  ip_bytes :: u32
  ip_din :: "bytes option"

definition mkInputProtocol :: inputProtocol where
  "mkInputProtocol = \<lparr>ip_mstate = IpNeedMore, ip_bytes = 0, ip_din = None\<rparr>"

definition ipOkToProceed :: "inputProtocol \<Rightarrow> bool \<times> inputProtocol" where
  "ipOkToProceed p =
     (case ip_din p of
        None \<Rightarrow> (False, p)
      | Some din \<Rightarrow> if din = [] then (False, p\<lparr>ip_mstate := IpNeedMore\<rparr>) else (True, p))"

text \<open>
  \<^verbatim>\<open>temp\<close> is only reserved, never resized, so its length stays 0 whatever
  \<^verbatim>\<open>readRawData\<close> writes behind it.
\<close>

definition safeReadBytes :: "inputProtocol \<Rightarrow> (bytes \<times> u32) option \<times> inputProtocol" where
  "safeReadBytes p =
     (let (ok, p) = ipOkToProceed p
      in if \<not> ok then (None, p)
         else
           let (val, din) = dsDWord (the (ip_din p));
               p = p\<lparr>ip_din := Some din, ip_bytes := ip_bytes p + 4\<rparr>
           in if val > 1024 then (None, p)
              else
                let temp = ([] :: bytes)
                in if val \<noteq> 0
                   then (let (ok, p) = ipOkToProceed p
                         in if \<not> ok then (None, p)
                            else
                              let p = p\<lparr>ip_din := map_option (drop (unat val)) (ip_din p)\<rparr>
                              in if (of_nat (length temp) :: u32) < val - 1
                                 then (None, p\<lparr>ip_mstate := IpNeedMore\<rparr>)
                                 else (Some (temp, val), p\<lparr>ip_bytes := ip_bytes p + val\<rparr>))
                   else (Some (temp, val), p\<lparr>ip_bytes := ip_bytes p + val\<rparr>))"

text \<open>
  C11: \<^verbatim>\<open>InputProtocolBase::safeReadBytes\<close> never delivers data.  When it succeeds the length
  it read is 0 or 1 and the data is empty: the array the bytes are read into is reserved but
  never resized, so the check of its length against the expected one fails for any longer string.
\<close>

theorem safeReadBytes_delivers_nothing:
  assumes "safeReadBytes p = (Some (data, len), p')"
  shows "data = [] \<and> len \<le> 1"
proof -
  from assms have d: "data = []" and l: "len = 0 \<or> \<not> 0 < len - 1"
    by (auto simp: safeReadBytes_def Let_def split: prod.splits if_splits)
  from l have "len = 0 \<or> len = 1" using word_neq_0_conv [of "len - 1"] by auto
  then have "len \<le> 1" by auto
  with d show ?thesis ..
qed

theorem safeReadBytes_delivers_nothing_witness:
  "([] :: bytes) = [] \<and> (1 :: u32) \<le> 1"
  by (rule safeReadBytes_delivers_nothing
      [of "mkInputProtocol\<lparr>ip_din := Some [0, 0, 0, 1, 65]\<rparr>" "[]" 1
          "\<lparr>ip_mstate = IpNeedMore, ip_bytes = 5, ip_din = Some []\<rparr>"])
    (simp add: safeReadBytes_def ipOkToProceed_def mkInputProtocol_def dsDWord_def)

definition ipReadString :: "(bytes \<Rightarrow> qstring) \<Rightarrow> inputProtocol \<Rightarrow> qstring option \<times> inputProtocol" where
  "ipReadString fromUtf8 p =
     (case safeReadBytes p of
        (None, p) \<Rightarrow> (None, p)
      | (Some (rawData, len), p) \<Rightarrow> (Some (fromUtf8 (take (unat (len - 1)) rawData)), p))"

subsection \<open>FLAP and SNAC parsers\<close>

datatype parse_outcome = Undefined | NoTransfer | Parsed anyTransfer nat

definition flapParse :: "bytes \<Rightarrow> parse_outcome" where
  "flapParse packet =
     (let (b, din) = dsByte packet;
          (b, din) = dsByte din;
          (w, din) = dsWord din;
          (len, din) = dsWord din;
          f = \<lparr>flap_channel = b, flap_sequence = w, flap_length = len\<rparr>
      in if length packet < 6 + unat (flap_length f) then Undefined
         else
           let snacBuffer = mkBuffer (take (unat (flap_length f)) (drop 6 packet))
           in Parsed (FlapTransfer (mkFlapTransfer f snacBuffer)) (bufLength snacBuffer + 6))"

definition snacParse :: "bytes \<Rightarrow> parse_outcome" where
  "snacParse packet =
     (let (b, din) = dsByte packet;
          (b, din) = dsByte din;
          (w, din) = dsWord din;
          (len, din) = dsWord din;
          f = \<lparr>flap_channel = b, flap_sequence = w, flap_length = len\<rparr>
      in if unat (flap_length f) + 6 > length packet then NoTransfer
         else
           let (fam, din) = dsWord din;
               (sub, din) = dsWord din;
               (fl, din) = dsWord din;
               (i, din) = dsDWord din;
               s = \<lparr>snac_family = fam, snac_subtype = sub, snac_flags = fl, snac_id = i\<rparr>;
               snacOffset = (if snac_flags s \<ge> 0x8000 then 18 else 10);
               snacStart = (if snac_flags s \<ge> 0x8000 then 24 else 16)
           in if unat (flap_length f) < snacOffset then Undefined
              else
                let snacBuffer = mkBuffer (take (unat (flap_length f) - snacOffset) (drop snacStart packet))
                in Parsed (SnacTransfer (mkSnacTransfer f s snacBuffer)) (unat (flap_length f) + 6))"

subsection \<open>CoreProtocol\<close>

datatype cp_state = NeedMore | Available | NoData | OutOfSync

primrec cp_state_num :: "cp_state \<Rightarrow> nat" where
  "cp_state_num NeedMore = 0"
| "cp_state_num Available = 1"
| "cp_state_num NoData = 2"
| "cp_state_num OutOfSync = 3"

record coreProtocol =
  m_in :: bytes
  m_inTransfer :: "anyTransfer option"
  m_state :: cp_state
  m_snacProtocol :: inputProtocol
  m_flapProtocol :: inputProtocol
  d_in :: "anyTransfer list"

text \<open>The constructor leaves \<^verbatim>\<open>m_state\<close> and \<^verbatim>\<open>m_inTransfer\<close> uninitialised.\<close>

definition mkCoreProtocol :: "cp_state \<Rightarrow> anyTransfer option \<Rightarrow> coreProtocol" where
  "mkCoreProtocol st t =
     \<lparr>m_in = [], m_inTransfer = t, m_state = st, m_snacProtocol = mkInputProtocol,
      m_flapProtocol = mkInputProtocol, d_in = []\<rparr>"

definition incomingTransfer :: "coreProtocol \<Rightarrow> anyTransfer option \<times> coreProtocol" where
  "incomingTransfer s =
     (if m_state s = Available then (m_inTransfer s, s\<lparr>m_state := NoData\<rparr>) else (None, s))"

definition cp_incomingData :: "coreProtocol \<Rightarrow> coreProtocol" where
  "cp_incomingData s =
     (let (incoming, s) = incomingTransfer s
      in case incoming of Some t \<Rightarrow> s\<lparr>d_in := d_in s @ [t]\<rparr> | None \<Rightarrow> s)"

definition okToProceed :: "bytes \<Rightarrow> coreProtocol \<Rightarrow> bool \<times> coreProtocol" where
  "okToProceed din s = (if din = [] then (False, s\<lparr>m_state := NeedMore\<rparr>) else (True, s))"

text \<open>The result is \<open>None\<close> when the behaviour is undefined, else the bytes parsed.\<close>

definition wireToTransfer :: "bytes \<Rightarrow> coreProtocol \<Rightarrow> (nat \<times> coreProtocol) option" where
  "wireToTransfer wire s =
     (if length wire < 6 then Some (0, s\<lparr>m_state := NeedMore\<rparr>)
      else
        let (ok, s) = okToProceed wire s
        in if \<not> ok then Some (0, s)
           else
             let (flapStart, din) = dsByte wire
             in if flapStart = 0x2A
                then
                  let (flapChannel, din) = dsByte din;
                      (flapLength, din) = dsWord din;
                      (flapLength, din) = dsWord din
                  in if length wire < unat flapLength then Some (0, s\<lparr>m_state := NeedMore\<rparr>)
                     else
                       (case (if flapChannel = 2 then snacParse wire else flapParse wire) of
                          Undefined \<Rightarrow> None
                        | Parsed t bytesParsed \<Rightarrow>
                            Some (bytesParsed,
                              cp_incomingData (s\<lparr>m_inTransfer := Some t, m_state := Available\<rparr>))
                        | NoTransfer \<Rightarrow> Some (0, s\<lparr>m_state := NeedMore\<rparr>))
                else Some (0, s))"

lemma m_in_cp_incomingData [simp]: "m_in (cp_incomingData s) = m_in s"
  by (simp add: cp_incomingData_def incomingTransfer_def split: option.splits)

lemma wireToTransfer_m_in: "wireToTransfer wire s = Some (n, s') \<Longrightarrow> m_in s' = m_in s"
  by (auto simp: wireToTransfer_def okToProceed_def Let_def
      split: if_splits prod.splits parse_outcome.splits)

function incomingLoop :: "coreProtocol \<Rightarrow> coreProtocol option" where
  "incomingLoop s =
     (if m_in s = [] then Some s
      else case wireToTransfer (m_in s) s of
             None \<Rightarrow> None
           | Some (parsedBytes, s') \<Rightarrow>
               if parsedBytes = 0 then Some s'
               else incomingLoop (s'\<lparr>m_in := drop parsedBytes (m_in s')\<rparr>))"
  by pat_completeness auto
termination
  by (relation "measure (\<lambda>s. length (m_in s))") (auto dest: wireToTransfer_m_in)

declare incomingLoop.simps [simp del]

text \<open>
  The comparison \<^verbatim>\<open>m_snacProtocol->state() == OutOfSync\<close> is between numbers, and the name is
  \<^verbatim>\<open>CoreProtocol\<close>'s own constant.
\<close>

definition addIncomingData :: "bytes \<Rightarrow> coreProtocol \<Rightarrow> coreProtocol option" where
  "addIncomingData incomingBytes s =
     (let s = s\<lparr>m_in := m_in s @ incomingBytes\<rparr>;
          s = s\<lparr>m_state := Available\<rparr>
      in case incomingLoop s of
           None \<Rightarrow> None
         | Some s \<Rightarrow>
             Some (if ip_state_num (ip_mstate (m_snacProtocol s)) = cp_state_num OutOfSync
                      \<or> ip_state_num (ip_mstate (m_flapProtocol s)) = cp_state_num OutOfSync
                   then s\<lparr>m_in := take 0 (m_in s)\<rparr> else s))"

definition outgoingTransfer :: "anyTransfer \<Rightarrow> bytes" where
  "outgoingTransfer t = fst (toWire t)"

definition resetCoreProtocol :: "coreProtocol \<Rightarrow> coreProtocol" where
  "resetCoreProtocol s = s\<lparr>m_in := []\<rparr>"

text \<open>A socket delivers the stream in chunks.\<close>

fun addChunks :: "bytes list \<Rightarrow> coreProtocol \<Rightarrow> coreProtocol option" where
  "addChunks [] s = Some s"
| "addChunks (c # cs) s =
     (case addIncomingData c s of None \<Rightarrow> None | Some s \<Rightarrow> addChunks cs s)"

end
