(* ===== verification/Oscar_Stream.thy ===== *)
theory Oscar_Stream
  imports Oscar_CoreProtocol
begin

text \<open>
  What \<^verbatim>\<open>CoreProtocol\<close> does with a byte stream: SNAC frames are reassembled whatever
  the chunks they arrive in, a stream that does not start with the FLAP marker blocks the
  connection for good, and an incomplete frame of another channel is read past its end.
\<close>

subsection \<open>One frame\<close>

definition snac_frame_ok :: "snacTransfer \<Rightarrow> bool" where
  "snac_frame_ok t \<longleftrightarrow> m_flapChannel t = 2 \<and> m_snacFlags t < 0x8000
     \<and> length (mBuffer (m_buffer t)) + 10 < 65536"

definition snac_wire :: "snacTransfer \<Rightarrow> bytes" where
  "snac_wire t = outgoingTransfer (SnacTransfer t)"

text \<open>The transfer the receiver builds.\<close>

definition received :: "snacTransfer \<Rightarrow> anyTransfer" where
  "received t = SnacTransfer (mkSnacTransfer
     \<lparr>flap_channel = m_flapChannel t, flap_sequence = m_flapSequence t,
      flap_length = of_nat (length (mBuffer (m_buffer t)) + 10)\<rparr>
     (snacOf t) (mkBuffer (mBuffer (m_buffer t))))"

definition snac_body :: "snacTransfer \<Rightarrow> bytes" where
  "snac_body t = enc16 (m_snacService t) @ enc16 (m_snacSubtype t) @ enc16 (m_snacFlags t)
     @ enc32 (m_snacReqId t) @ mBuffer (m_buffer t)"

lemma length_snac_body: "length (snac_body t) = length (mBuffer (m_buffer t)) + 10"
  by (simp add: snac_body_def)

lemma snac_wire_eq:
  "snac_wire t = 0x2A # m_flapChannel t # enc16 (m_flapSequence t)
     @ enc16 (of_nat (length (snac_body t))) @ snac_body t"
  using snacToWire_bytes [of t]
  by (simp add: snac_wire_def outgoingTransfer_def split_def length_snac_body snac_body_def add.commute)

lemma length_snac_wire: "length (snac_wire t) = length (snac_body t) + 6"
  by (simp add: snac_wire_eq)

lemma snac_wire_nonempty [simp]: "snac_wire t \<noteq> []"
  by (simp add: snac_wire_eq)

lemma unat_frame_length:
  "snac_frame_ok t \<Longrightarrow> unat (of_nat (length (snac_body t)) :: u16) = length (snac_body t)"
  by (rule unat_of_nat_u16) (simp add: snac_frame_ok_def length_snac_body)

lemma snacParse_wire:
  assumes "snac_frame_ok t"
  shows "snacParse (snac_wire t @ rest) = Parsed (received t) (length (snac_wire t))"
proof -
  let ?len = "of_nat (length (snac_body t)) :: u16"
  note n = unat_frame_length [OF assms]
  have fl: "\<not> 0x8000 \<le> m_snacFlags t" using assms by (simp add: snac_frame_ok_def not_le)
  have drop: "drop 16 (snac_wire t @ rest) = mBuffer (m_buffer t) @ rest"
    by (simp add: snac_wire_eq snac_body_def)
  have len: "length (snac_wire t @ rest) = length (snac_body t) + 6 + length rest"
    by (simp add: length_snac_wire)
  show ?thesis
    unfolding snacParse_def Let_def len drop
    using fl n assms
    by (simp add: snac_wire_eq snac_body_def snac_frame_ok_def received_def snacOf_def add.commute)
qed

lemma wireToTransfer_frame:
  assumes "snac_frame_ok t"
  shows "wireToTransfer (snac_wire t @ rest) s = Some (length (snac_wire t),
    s\<lparr>m_inTransfer := Some (received t), m_state := NoData, d_in := d_in s @ [received t]\<rparr>)"
proof -
  let ?w = "snac_wire t @ rest"
  have parse: "snacParse ?w = Parsed (received t) (length (snac_wire t))"
    using assms by (rule snacParse_wire)
  have ch: "m_flapChannel t = 2" using assms by (simp add: snac_frame_ok_def)
  have len: "\<not> length ?w < 6" "\<not> length ?w < length (snac_body t)" "?w \<noteq> []"
    by (simp_all add: length_snac_wire)
  have h: "?w = 0x2A # 2 # enc16 (m_flapSequence t) @ enc16 (of_nat (length (snac_body t))) @ snac_body t @ rest"
    using ch by (simp add: snac_wire_eq)
  have din: "dsByte ?w = (0x2A, 2 # enc16 (m_flapSequence t) @ enc16 (of_nat (length (snac_body t)))
      @ snac_body t @ rest)"
    by (simp add: h)
  show ?thesis
    unfolding wireToTransfer_def okToProceed_def Let_def
    using len parse unat_frame_length [OF assms]
    by (simp add: din cp_incomingData_def incomingTransfer_def)
qed

lemma wireToTransfer_partial:
  assumes "snac_frame_ok t" "k < length (snac_wire t)"
  shows "wireToTransfer (take k (snac_wire t)) s = Some (0, s\<lparr>m_state := NeedMore\<rparr>)"
proof (cases "k < 6")
  case True
  then have "length (take k (snac_wire t)) < 6" by simp
  then show ?thesis by (simp add: wireToTransfer_def)
next
  case False
  let ?p = "take k (snac_wire t)"
  have ch: "m_flapChannel t = 2" using assms by (simp add: snac_frame_ok_def)
  have len: "length ?p = k" using assms(2) by simp
  from False obtain j where j: "k = j + 6" using le_Suc_ex [of 6 k] by (auto simp: not_less add.commute)
  have hdr: "snac_wire t = (0x2A # 2 # enc16 (m_flapSequence t) @ enc16 (of_nat (length (snac_body t))))
      @ snac_body t" (is "_ = ?h @ _")
    using ch by (simp add: snac_wire_eq)
  have l6: "length ?h = 6" by simp
  have h: "?p = ?h @ take j (snac_body t)"
    unfolding hdr j take_append l6 by simp
  have k: "k < length (snac_body t) + 6" using assms(2) by (simp add: length_snac_wire)
  have "snacParse ?p = NoTransfer"
    unfolding snacParse_def Let_def len
    using k unat_frame_length [OF assms(1)] by (simp add: h)
  moreover have "dsByte ?p = (0x2A, 2 # enc16 (m_flapSequence t)
      @ enc16 (of_nat (length (snac_body t))) @ take j (snac_body t))"
    by (simp add: h)
  moreover have "?p \<noteq> []" using h by simp
  ultimately show ?thesis
    unfolding wireToTransfer_def okToProceed_def Let_def len
    using False by simp
qed

text \<open>
  A frame of another channel.  It is only waited for while fewer bytes have come than its payload
  has: then, with at least the header there, it is parsed, complete or not.
\<close>

lemma wireToTransfer_flap:
  assumes "ch \<noteq> 2" "n < 65536" "wire = 0x2A # ch # enc16 seq @ enc16 (of_nat n) @ body"
    "n \<le> length body + 6"
  shows "wireToTransfer wire s =
    (if length body < n then None
     else Some (n + 6, cp_incomingData (s\<lparr>m_inTransfer := Some (FlapTransfer (mkFlapTransfer
       \<lparr>flap_channel = ch, flap_sequence = seq, flap_length = of_nat n\<rparr> (mkBuffer (take n body)))),
       m_state := Available\<rparr>)))"
proof -
  have n: "unat (of_nat n :: u16) = n" using assms(2) by (rule unat_of_nat_u16)
  have d6: "drop 6 wire = body" using assms(3) by simp
  have len: "length wire = length body + 6" using assms(3) by simp
  have din: "dsByte wire = (0x2A, ch # enc16 seq @ enc16 (of_nat n) @ body)" "wire \<noteq> []"
    using assms(3) by simp_all
  have "flapParse wire =
     (if length body < n then Undefined
      else Parsed (FlapTransfer (mkFlapTransfer
        \<lparr>flap_channel = ch, flap_sequence = seq, flap_length = of_nat n\<rparr> (mkBuffer (take n body)))) (n + 6))"
    by (simp add: flapParse_def d6 len din n mkBuffer_def bufLength_def)
  with assms(1,4) show ?thesis
    by (simp add: wireToTransfer_def okToProceed_def Let_def len din n)
qed

fun frame_ok :: "anyTransfer \<Rightarrow> bool" where
  "frame_ok (SnacTransfer t) \<longleftrightarrow> snac_frame_ok t"
| "frame_ok (FlapTransfer t) \<longleftrightarrow> m_flapChannel t \<noteq> 2 \<and> length (mBuffer (m_buffer t)) < 65536"
| "frame_ok (RawTransfer t) \<longleftrightarrow> False"

text \<open>The transfer the receiver builds of a frame.\<close>

fun arrived :: "anyTransfer \<Rightarrow> anyTransfer" where
  "arrived (SnacTransfer t) = received t"
| "arrived (FlapTransfer t) = FlapTransfer (mkFlapTransfer
     \<lparr>flap_channel = m_flapChannel t, flap_sequence = m_flapSequence t,
      flap_length = of_nat (length (mBuffer (m_buffer t)))\<rparr> (mkBuffer (mBuffer (m_buffer t))))"
| "arrived (RawTransfer t) = RawTransfer t"

text \<open>\<open>blind k t\<close>: the first \<open>k\<close> bytes of the frame are parsed as if they were all of it.\<close>

fun blind :: "nat \<Rightarrow> anyTransfer \<Rightarrow> bool" where
  "blind k (FlapTransfer t) \<longleftrightarrow>
     6 \<le> k \<and> length (mBuffer (m_buffer t)) \<le> k \<and> k < length (mBuffer (m_buffer t)) + 6"
| "blind k _ \<longleftrightarrow> False"

lemma flap_wire_eq:
  "outgoingTransfer (FlapTransfer t) = 0x2A # m_flapChannel t # enc16 (m_flapSequence t)
     @ enc16 (of_nat (length (mBuffer (m_buffer t)))) @ mBuffer (m_buffer t)"
  using flapToWire_bytes [of t] by (simp add: outgoingTransfer_def split_def)

lemma frame_nonempty: "frame_ok t \<Longrightarrow> outgoingTransfer t \<noteq> []"
  by (cases t) (use snac_wire_nonempty in \<open>simp_all add: flap_wire_eq snac_wire_def\<close>)

lemma wireToTransfer_arrives:
  assumes "frame_ok t"
  shows "wireToTransfer (outgoingTransfer t @ rest) s = Some (length (outgoingTransfer t),
    s\<lparr>m_inTransfer := Some (arrived t), m_state := NoData, d_in := d_in s @ [arrived t]\<rparr>)"
proof (cases t)
  case (SnacTransfer u)
  with assms wireToTransfer_frame [of u rest s] show ?thesis by (simp add: snac_wire_def)
next
  case (FlapTransfer u)
  let ?n = "length (mBuffer (m_buffer u))"
  have "wireToTransfer (outgoingTransfer t @ rest) s = (if length (mBuffer (m_buffer u) @ rest) < ?n then None
     else Some (?n + 6, cp_incomingData (s\<lparr>m_inTransfer := Some (FlapTransfer (mkFlapTransfer
       \<lparr>flap_channel = m_flapChannel u, flap_sequence = m_flapSequence u, flap_length = of_nat ?n\<rparr>
       (mkBuffer (take ?n (mBuffer (m_buffer u) @ rest))))), m_state := Available\<rparr>)))"
    by (rule wireToTransfer_flap) (use assms FlapTransfer in \<open>simp_all add: flap_wire_eq\<close>)
  moreover have "length (outgoingTransfer t) = ?n + 6" by (simp add: FlapTransfer flap_wire_eq)
  ultimately show ?thesis by (simp add: FlapTransfer cp_incomingData_def incomingTransfer_def)
qed (use assms in simp)

lemma wireToTransfer_waits:
  assumes "frame_ok t" "k < length (outgoingTransfer t)" "\<not> blind k t"
  shows "wireToTransfer (take k (outgoingTransfer t)) s = Some (0, s\<lparr>m_state := NeedMore\<rparr>)"
proof (cases t)
  case (SnacTransfer u)
  with assms wireToTransfer_partial [of u k s] show ?thesis by (simp add: snac_wire_def)
next
  case (FlapTransfer u)
  let ?p = "take k (outgoingTransfer t)"
  let ?n = "length (mBuffer (m_buffer u))"
  have len: "length ?p = k" using assms(2) by simp
  show ?thesis
  proof (cases "k < 6")
    case True
    with len show ?thesis by (simp add: wireToTransfer_def)
  next
    case False
    from False obtain j where j: "k = j + 6" using le_Suc_ex [of 6 k] by (auto simp: not_less add.commute)
    let ?h = "0x2A # m_flapChannel u # enc16 (m_flapSequence u) @ enc16 (of_nat ?n)"
    have w: "outgoingTransfer t = ?h @ mBuffer (m_buffer u)" by (simp add: FlapTransfer flap_wire_eq)
    have l6: "length ?h = 6" by simp
    have h: "?p = ?h @ take j (mBuffer (m_buffer u))" unfolding w j take_append l6 by simp
    have "k < ?n + 6" using assms(2) by (simp add: FlapTransfer flap_wire_eq)
    with False assms(3) have "k < ?n" by (simp add: FlapTransfer)
    moreover have "unat (of_nat ?n :: u16) = ?n" using assms(1) by (intro unat_of_nat_u16) (simp add: FlapTransfer)
    moreover have "dsByte ?p = (0x2A, m_flapChannel u # enc16 (m_flapSequence u)
        @ enc16 (of_nat ?n) @ take j (mBuffer (m_buffer u)))" by (simp add: h)
    moreover have "?p \<noteq> []" by (simp add: h)
    ultimately show ?thesis
      unfolding wireToTransfer_def okToProceed_def Let_def len using False by simp
  qed
qed (use assms in simp)

subsection \<open>A stream of frames in chunks\<close>

text \<open>Where a stream of frames may be cut, and where a list of chunks that follows \<open>n\<close> bytes cuts it.\<close>

fun safeCut :: "anyTransfer list \<Rightarrow> nat \<Rightarrow> bool" where
  "safeCut [] k = True"
| "safeCut (t # ts) k =
     (if k < length (outgoingTransfer t) then \<not> blind k t else safeCut ts (k - length (outgoingTransfer t)))"

fun cuts :: "nat \<Rightarrow> bytes list \<Rightarrow> nat list" where
  "cuts n [] = []"
| "cuts n (c # cs) = (n + length c) # cuts (n + length c) cs"

lemma safeCut_append:
  "safeCut (ts @ us) (length (concat (map outgoingTransfer ts)) + k) = safeCut us k"
  by (induction ts) simp_all

lemma cuts_shift: "cuts (a + b) cs = map ((+) a) (cuts b cs)"
  by (induction cs arbitrary: b) (simp_all add: add.assoc)

lemma safeCut_everywhere: "\<forall>t \<in> set ts. \<forall>k. \<not> blind k t \<Longrightarrow> safeCut ts k"
  by (induction ts arbitrary: k) auto

text \<open>
  The part of the state a stream changes: what is buffered and what has been delivered.
  Both parsers stay in their initial state, so the buffer is never truncated.
\<close>

definition rx_state :: "coreProtocol \<Rightarrow> bytes \<Rightarrow> anyTransfer list \<Rightarrow> bool" where
  "rx_state s buf delivered \<longleftrightarrow> m_in s = buf \<and> d_in s = delivered
     \<and> m_snacProtocol s = mkInputProtocol \<and> m_flapProtocol s = mkInputProtocol"

lemma rx_state_init: "rx_state (mkCoreProtocol st t) [] []"
  by (simp add: rx_state_def mkCoreProtocol_def)

lemma incomingLoop_empty: "m_in s = [] \<Longrightarrow> incomingLoop s = Some s"
  by (simp add: incomingLoop.simps [of s])

lemma incomingLoop_frame:
  assumes "frame_ok t" "m_in s = outgoingTransfer t @ rest"
  shows "incomingLoop s = incomingLoop (s\<lparr>m_inTransfer := Some (arrived t), m_state := NoData,
    d_in := d_in s @ [arrived t], m_in := rest\<rparr>)"
  using wireToTransfer_arrives [OF assms(1), of rest s] assms(2) frame_nonempty [OF assms(1)]
  by (subst incomingLoop.simps) simp

text \<open>What is left of a frame when the receiver waits for the rest of it.\<close>

definition partial_frame :: "bytes \<Rightarrow> bool" where
  "partial_frame p \<longleftrightarrow> p = [] \<or> (\<exists>t k. frame_ok t \<and> k < length (outgoingTransfer t)
     \<and> p = take k (outgoingTransfer t) \<and> \<not> blind k t)"

lemma incomingLoop_stream:
  assumes "list_all frame_ok ts" "rx_state s (concat (map outgoingTransfer ts) @ p) out" "partial_frame p"
  shows "\<exists>s'. incomingLoop s = Some s' \<and> rx_state s' p (out @ map arrived ts)"
  using assms(1,2)
proof (induction ts arbitrary: s out)
  case Nil
  show ?case
  proof (cases "p = []")
    case True
    with Nil show ?thesis by (auto simp: incomingLoop_empty rx_state_def)
  next
    case False
    with assms(3) have "wireToTransfer p s = Some (0, s\<lparr>m_state := NeedMore\<rparr>)"
      unfolding partial_frame_def using wireToTransfer_waits by blast
    with Nil False show ?thesis by (subst incomingLoop.simps) (simp add: rx_state_def)
  qed
next
  case (Cons t ts)
  let ?s = "s\<lparr>m_inTransfer := Some (arrived t), m_state := NoData, d_in := d_in s @ [arrived t],
    m_in := concat (map outgoingTransfer ts) @ p\<rparr>"
  have "incomingLoop s = incomingLoop ?s"
    using Cons.prems by (intro incomingLoop_frame) (simp_all add: rx_state_def)
  moreover have "rx_state ?s (concat (map outgoingTransfer ts) @ p) (out @ [arrived t])"
    using Cons.prems by (simp add: rx_state_def)
  ultimately show ?case using Cons.IH [of ?s "out @ [arrived t]"] Cons.prems by simp
qed

lemma addIncomingData_stream:
  assumes "list_all frame_ok ts" "rx_state s q out" "q @ c = concat (map outgoingTransfer ts) @ p" "partial_frame p"
  shows "\<exists>s'. addIncomingData c s = Some s' \<and> rx_state s' p (out @ map arrived ts)"
proof -
  let ?s = "s\<lparr>m_in := m_in s @ c, m_state := Available\<rparr>"
  have "rx_state ?s (concat (map outgoingTransfer ts) @ p) out"
    using assms(2,3) by (simp add: rx_state_def)
  from incomingLoop_stream [OF assms(1) this assms(4)] obtain s' where
    "incomingLoop ?s = Some s'" "rx_state s' p (out @ map arrived ts)"
    by blast
  then show ?thesis by (auto simp: addIncomingData_def rx_state_def mkInputProtocol_def)
qed

lemma addChunks_frames:
  assumes "list_all frame_ok ts" "rx_state s q out" "q @ concat cs = concat (map outgoingTransfer ts)"
    "q = [] \<or> (\<exists>t ts' k. ts = t # ts' \<and> k < length (outgoingTransfer t) \<and> q = take k (outgoingTransfer t))"
    "list_all (safeCut ts) (cuts (length q) cs)"
  shows "\<exists>s'. addChunks cs s = Some s' \<and> rx_state s' [] (out @ map arrived ts)"
  using assms
proof (induction cs arbitrary: ts s q out)
  case Nil
  then have q: "q = concat (map outgoingTransfer ts)" by simp
  have "ts = []"
  proof (cases ts)
    case (Cons t ts')
    then have "length (outgoingTransfer t) \<le> length q" "q \<noteq> []"
      using Nil.prems(1) frame_nonempty by (auto simp: q)
    with Nil.prems(4) Cons show ?thesis by auto
  qed simp
  with Nil show ?case by simp
next
  case (Cons c cs)
  then have "(q @ c) @ concat cs = concat (map outgoingTransfer ts)" by simp
  from concat_prefix_split [OF this] obtain ts1 ts2 p where
    ts: "ts = ts1 @ ts2" and qc: "q @ c = concat (map outgoingTransfer ts1) @ p"
    and rest: "p @ concat cs = concat (map outgoingTransfer ts2)"
    and p: "p = [] \<or> (\<exists>t ts3 k. ts2 = t # ts3 \<and> k < length (outgoingTransfer t) \<and> p = take k (outgoingTransfer t))"
    by blast
  from ts Cons.prems(1) have ok: "list_all frame_ok ts1" "list_all frame_ok ts2" by simp_all
  have len: "length q + length c = length (concat (map outgoingTransfer ts1)) + length p"
    using arg_cong [OF qc, of length] by simp
  have cut: "safeCut ts2 (length p)" "list_all (safeCut ts2) (cuts (length p) cs)"
    using Cons.prems(5) by (simp_all add: len ts safeCut_append cuts_shift list_all_iff)
  have "partial_frame p" using p ok(2) cut(1) unfolding partial_frame_def by fastforce
  from addIncomingData_stream [OF ok(1) Cons.prems(2) qc this] obtain s' where
    s': "addIncomingData c s = Some s'" "rx_state s' p (out @ map arrived ts1)" by blast
  from Cons.IH [OF ok(2) s'(2) rest p cut(2)] s' ts show ?case by simp
qed

text \<open>
  C2: whatever chunks the socket cuts the stream into, the core protocol delivers exactly the
  SNAC transfers whose wire images were sent, in order and with the header fields and payload
  of each, and nothing stays in the input buffer.
\<close>

theorem stream_reassembly:
  assumes "list_all snac_frame_ok ts" "concat chunks = concat (map (\<lambda>t. outgoingTransfer (SnacTransfer t)) ts)"
  shows "\<exists>s. addChunks chunks (mkCoreProtocol st prev) = Some s
     \<and> d_in s = map received ts \<and> m_in s = []"
proof -
  have "list_all frame_ok (map SnacTransfer ts)" using assms(1) by (simp add: list_all_iff)
  moreover have "[] @ concat chunks = concat (map outgoingTransfer (map SnacTransfer ts))"
    using assms(2) by (simp add: comp_def)
  moreover have "list_all (safeCut (map SnacTransfer ts)) (cuts (length []) chunks)"
    by (auto simp: list_all_iff intro!: safeCut_everywhere)
  ultimately show ?thesis
    using addChunks_frames [OF _ rx_state_init [of st prev], of "map SnacTransfer ts" chunks]
    by (auto simp: rx_state_def comp_def)
qed

text \<open>Two frames, the cut inside the header of the second.\<close>

theorem stream_reassembly_witness:
  "let t = mkSnacTransferWith (mkBuffer [7, 8]) 2 1 0 1 6 0 9;
       w = outgoingTransfer (SnacTransfer t)
   in \<exists>s. addChunks [w @ take 3 w, drop 3 w] (mkCoreProtocol NoData None) = Some s
        \<and> d_in s = [received t, received t] \<and> m_in s = []"
  unfolding Let_def
  by (rule stream_reassembly [of "[mkSnacTransferWith (mkBuffer [7, 8]) 2 1 0 1 6 0 9,
        mkSnacTransferWith (mkBuffer [7, 8]) 2 1 0 1 6 0 9]", simplified list.map])
    (simp_all add: snac_frame_ok_def mkSnacTransferWith_def mkFlapTransferWith_def mkBuffer_def
      flapTransfer.defs snacTransfer.defs)

subsection \<open>A stream that is out of sync\<close>

lemma incomingLoop_out_of_sync:
  assumes "m_in s = b # rest" "b \<noteq> 0x2A"
  shows "\<exists>s'. incomingLoop s = Some s' \<and> m_in s' = m_in s \<and> d_in s' = d_in s
     \<and> m_snacProtocol s' = m_snacProtocol s \<and> m_flapProtocol s' = m_flapProtocol s"
proof -
  have "\<exists>s'. wireToTransfer (m_in s) s = Some (0, s') \<and> m_in s' = m_in s \<and> d_in s' = d_in s
     \<and> m_snacProtocol s' = m_snacProtocol s \<and> m_flapProtocol s' = m_flapProtocol s"
    using assms by (auto simp: wireToTransfer_def okToProceed_def dsByte_def)
  then show ?thesis using assms by (subst incomingLoop.simps) auto
qed

text \<open>
  Once the byte at the head of the input buffer is not the FLAP marker, no data that
  arrives later is ever delivered and the buffer only grows.  The test for a parser that is
  out of sync compares with the number of the state \<^verbatim>\<open>ProtocolError\<close>, which the parsers never
  enter, and \<^verbatim>\<open>CoreProtocol\<close> itself never enters its state \<^verbatim>\<open>OutOfSync\<close>.
\<close>

theorem out_of_sync_blocks_forever:
  assumes "m_in s = b # rest" "b \<noteq> 0x2A"
    "ip_mstate (m_snacProtocol s) \<noteq> IpProtocolError" "ip_mstate (m_flapProtocol s) \<noteq> IpProtocolError"
  shows "\<exists>s'. addChunks cs s = Some s' \<and> d_in s' = d_in s \<and> m_in s' = m_in s @ concat cs"
  using assms
proof (induction cs arbitrary: s rest)
  case Nil
  then show ?case by simp
next
  case (Cons c cs)
  have num: "ip_state_num st = 3 \<longleftrightarrow> st = IpProtocolError" for st by (cases st) simp_all
  let ?s = "s\<lparr>m_in := m_in s @ c, m_state := Available\<rparr>"
  from incomingLoop_out_of_sync [of ?s b "rest @ c"] Cons.prems obtain s' where
    s': "incomingLoop ?s = Some s'" "m_in s' = m_in s @ c" "d_in s' = d_in s"
      "m_snacProtocol s' = m_snacProtocol s" "m_flapProtocol s' = m_flapProtocol s" by auto
  then have "addIncomingData c s = Some s'"
    using Cons.prems by (simp add: addIncomingData_def num)
  with s' Cons.IH [of s' "rest @ c"] Cons.prems show ?case by simp
qed

text \<open>A valid frame behind one stray byte is never delivered.\<close>

theorem out_of_sync_blocks_forever_witness:
  "\<exists>s'. addChunks [[0x2A, 1, 0, 1, 0, 0], [5]] (mkCoreProtocol NoData None\<lparr>m_in := [0]\<rparr>) = Some s'
     \<and> d_in s' = [] \<and> m_in s' = [0, 0x2A, 1, 0, 1, 0, 0, 5]"
  using out_of_sync_blocks_forever [of "mkCoreProtocol NoData None\<lparr>m_in := [0]\<rparr>" 0 "[]"
      "[[0x2A, 1, 0, 1, 0, 0], [5]]"]
  by (simp add: mkCoreProtocol_def mkInputProtocol_def)

subsection \<open>Frames of the other channels\<close>

text \<open>
  A frame of a channel other than 2 whose last one to six bytes have not arrived yet is
  parsed anyway, reading memory behind the buffer.  \<^verbatim>\<open>wireToTransfer\<close> compares the buffered
  bytes with the payload length and forgets the six bytes of header, and \<^verbatim>\<open>FlapProtocol::parse\<close>
  copies the payload without a check.
\<close>

theorem incomplete_flap_reads_past_end:
  assumes "ch \<noteq> 2" "n < 65536" "length body < n" "n \<le> length body + 6"
  shows "addIncomingData (0x2A # ch # enc16 seq @ enc16 (of_nat n) @ body) (mkCoreProtocol st prev) = None"
proof -
  let ?w = "0x2A # ch # enc16 seq @ enc16 (of_nat n) @ body"
  have "wireToTransfer ?w s = None" for s
    using assms by (subst wireToTransfer_flap [of ch n _ seq body]) simp_all
  then show ?thesis
    by (simp add: addIncomingData_def mkCoreProtocol_def incomingLoop.simps)
qed

text \<open>The server's hello on channel 1, one byte short.\<close>

theorem incomplete_flap_reads_past_end_witness:
  "addIncomingData [0x2A, 1, 0, 5, 0, 4, 0, 0, 0] (mkCoreProtocol NoData None) = None"
  using incomplete_flap_reads_past_end [of 1 4 "[0, 0, 0]" 5 NoData None]
  by (simp add: enc16_def drop_bit_eq_div)

end
