(* ===== verification/Oscar_Contact.thy ===== *)
theory Oscar_Contact
  imports Oscar_Codec
begin

text \<open>
  Server-side list items: \<^verbatim>\<open>OContact\<close> (\<^verbatim>\<open>contact.cpp\<close>) with the TLV helpers of
  \<^verbatim>\<open>oscarutils.cpp\<close>.  The item ids are C \<^verbatim>\<open>int\<close>s whose accessors truncate to 16 bits.

  \<^verbatim>\<open>QString::fromUtf8(data, n)\<close> and \<^verbatim>\<open>memcmp(a, b, n)\<close> read \<open>n\<close> bytes of a
  \<^verbatim>\<open>QByteArray\<close>, which has one zero byte behind its contents; reading further is
  \<open>None\<close>.  The Qt conversions \<open>toLower\<close>, \<open>fromUtf8\<close> and \<open>toUtf8\<close> are arguments.
\<close>

subsection \<open>Helpers\<close>

definition qba_chars :: "nat \<Rightarrow> bytes \<Rightarrow> bytes option" where
  "qba_chars n d = (if n \<le> length d + 1 then Some (take n (d @ [0])) else None)"

lemma qba_chars_le [simp]: "n \<le> length d \<Longrightarrow> qba_chars n d = Some (take n d)"
  by (simp add: qba_chars_def)

fun decDigits :: "nat \<Rightarrow> string" where
  "decDigits n = (if n < 10 then [] else decDigits (n div 10)) @ [char_of (48 + n mod 10)]"

declare decDigits.simps [simp del]

text \<open>\<^verbatim>\<open>QString::number\<close>.\<close>

definition qnumber :: "int \<Rightarrow> qstring" where
  "qnumber i = qstr ((if i < 0 then ''-'' else []) @ decDigits (nat \<bar>i\<bar>))"

definition normalize :: "(qstring \<Rightarrow> qstring) \<Rightarrow> qstring \<Rightarrow> qstring" where
  "normalize toLower contact = filter (\<lambda>c. c \<noteq> of_char CHR '' '') (toLower contact)"

text \<open>\<^verbatim>\<open>operator==\<close> on TLVs does not look at the data.\<close>

definition tlv_eq :: "tlv \<Rightarrow> tlv \<Rightarrow> bool" where
  "tlv_eq a b \<longleftrightarrow> tlv_type a = tlv_type b \<and> tlv_length a = tlv_length b"

fun findTLV :: "tlv list \<Rightarrow> int \<Rightarrow> tlv" where
  "findTLV [] ty = emptyTLV"
| "findTLV (t # ts) ty = (if uint (tlv_type t) = ty then t else findTLV ts ty)"

subsection \<open>OContact\<close>

record ocontact =
  m_name :: qstring
  m_gid :: int
  m_bid :: int
  m_type :: int
  m_tlvList :: "tlv list"
  m_tlvLength :: int
  m_waitingAuth :: bool
  m_alias :: qstring
  m_hash :: bytes
  m_metaInfoId :: bytes
  m_caps :: u32

definition oc_gid :: "ocontact \<Rightarrow> u16" where "oc_gid c = of_int (m_gid c)"
definition oc_bid :: "ocontact \<Rightarrow> u16" where "oc_bid c = of_int (m_bid c)"
definition oc_type :: "ocontact \<Rightarrow> u16" where "oc_type c = of_int (m_type c)"
definition tlvListLength :: "ocontact \<Rightarrow> u16" where "tlvListLength c = of_int (m_tlvLength c)"

definition dummyItem :: ocontact where
  "dummyItem = \<lparr>m_name = [], m_gid = 0, m_bid = 0, m_type = 0xFFFF, m_tlvList = [], m_tlvLength = 0,
     m_waitingAuth = False, m_alias = [], m_hash = [], m_metaInfoId = [], m_caps = 0\<rparr>"

definition isValid :: "ocontact \<Rightarrow> bool" where
  "isValid c \<longleftrightarrow> m_type c \<noteq> 0xFFFF"

definition supportsFeature :: "u32 \<Rightarrow> ocontact \<Rightarrow> bool" where
  "supportsFeature cap c \<longleftrightarrow> m_caps c AND cap \<noteq> 0"

definition setTLVListLength :: "u16 \<Rightarrow> ocontact \<Rightarrow> ocontact" where
  "setTLVListLength newLength c = c\<lparr>m_tlvLength := uint newLength\<rparr>"

definition setAlias :: "qstring \<Rightarrow> ocontact \<Rightarrow> ocontact" where
  "setAlias newAlias c = c\<lparr>m_alias := newAlias\<rparr>"

definition setWaitingAuth :: "bool \<Rightarrow> ocontact \<Rightarrow> ocontact" where
  "setWaitingAuth waiting c = c\<lparr>m_waitingAuth := waiting\<rparr>"

definition setIconHash :: "bytes \<Rightarrow> ocontact \<Rightarrow> ocontact" where
  "setIconHash h c = c\<lparr>m_hash := h\<rparr>"

definition setMetaInfoId :: "bytes \<Rightarrow> ocontact \<Rightarrow> ocontact" where
  "setMetaInfoId i c = c\<lparr>m_metaInfoId := i\<rparr>"

definition refreshTLVLength :: "ocontact \<Rightarrow> ocontact" where
  "refreshTLVLength c =
     c\<lparr>m_tlvLength := fold (\<lambda>t n. n + 4 + uint (tlv_length t)) (m_tlvList c) 0\<rparr>"

definition checkTLVs :: "(bytes \<Rightarrow> qstring) \<Rightarrow> ocontact \<Rightarrow> ocontact option" where
  "checkTLVs fromUtf8 c =
     (let authTLV = findTLV (m_tlvList c) 0x0066;
          c = c\<lparr>m_waitingAuth := tlv_bool authTLV\<rparr>;
          aliasTLV = findTLV (m_tlvList c) 0x0131
      in case (if tlv_bool aliasTLV
               then map_option fromUtf8 (qba_chars (unat (tlv_length aliasTLV)) (tlv_data aliasTLV))
               else Some []) of
           None \<Rightarrow> None
         | Some a \<Rightarrow>
             let c = c\<lparr>m_alias := a\<rparr>;
                 metaInfoIdTLV = findTLV (m_tlvList c) 0x015C
             in Some (if tlv_bool metaInfoIdTLV then c\<lparr>m_metaInfoId := tlv_data metaInfoIdTLV\<rparr>
                      else c\<lparr>m_metaInfoId := []\<rparr>))"

text \<open>The members the constructor does not set are default constructed.\<close>

definition mkOContact ::
  "(bytes \<Rightarrow> qstring) \<Rightarrow> qstring \<Rightarrow> int \<Rightarrow> int \<Rightarrow> int \<Rightarrow> tlv list \<Rightarrow> int \<Rightarrow> ocontact option" where
  "mkOContact fromUtf8 name gid bid ty tlvlist tlvLength =
     (let c = dummyItem\<lparr>m_name := name, m_gid := gid, m_bid := bid, m_type := ty,
                m_tlvLength := tlvLength, m_tlvList := tlvlist\<rparr>;
          c = (if m_tlvLength c = 0 \<and> m_tlvList c \<noteq> [] then refreshTLVLength c else c)
      in checkTLVs fromUtf8 c)"

text \<open>The copy constructor refreshes the length.\<close>

definition copyOContact :: "ocontact \<Rightarrow> ocontact" where
  "copyOContact c = (if m_tlvLength c = 0 \<and> m_tlvList c \<noteq> [] then refreshTLVLength c else c)"

definition setTLVList :: "(bytes \<Rightarrow> qstring) \<Rightarrow> tlv list \<Rightarrow> ocontact \<Rightarrow> ocontact option" where
  "setTLVList fromUtf8 list c = checkTLVs fromUtf8 (refreshTLVLength (c\<lparr>m_tlvList := list\<rparr>))"

definition oc_toString :: "ocontact \<Rightarrow> qstring" where
  "oc_toString c =
     qstr ''name: '' @ m_name c @ qstr '' gid: '' @ qnumber (m_gid c) @ qstr '' bid: '' @ qnumber (m_bid c)
       @ qstr '' type: '' @ qnumber (m_type c) @ qstr '' tlv length: '' @ qnumber (m_tlvLength c)"

definition oc_eq :: "ocontact \<Rightarrow> ocontact \<Rightarrow> bool" where
  "oc_eq c item \<longleftrightarrow> m_name c = m_name item \<and> m_gid c = uint (oc_gid item)
     \<and> m_bid c = uint (oc_bid item) \<and> m_type c = uint (oc_type item)"

definition oc_toByteArray :: "(qstring \<Rightarrow> bytes) \<Rightarrow> ocontact \<Rightarrow> bytes" where
  "oc_toByteArray toUtf8 c =
     (let b = emptyBuffer;
          name = toUtf8 (m_name c);
          b = addWord (of_nat (length name)) b;
          b = addString name b;
          b = addWord (of_int (m_gid c)) b;
          b = addWord (of_int (m_bid c)) b;
          b = addWord (of_int (m_type c)) b;
          b = addWord (of_int (m_tlvLength c)) b
      in mBuffer (fold (\<lambda>t b. addString (tlv_data t) (addWord (tlv_length t) (addWord (tlv_type t) b)))
           (m_tlvList c) b))"

subsection \<open>Replacing TLVs\<close>

text \<open>The state of the loop of \<^verbatim>\<open>updateTLVs\<close>: \<^verbatim>\<open>tList\<close> and \<^verbatim>\<open>changed\<close>.\<close>

definition updateTLV :: "tlv \<Rightarrow> tlv list \<times> bool \<Rightarrow> (tlv list \<times> bool) option" where
  "updateTLV new st =
     (let (tList, changed) = st;
          t = findTLV tList (uint (tlv_type new));
          replace = Some ((if tlv_bool t then filter (\<lambda>x. \<not> tlv_eq x t) tList else tList) @ [new], True)
      in if tlv_bool t \<and> tlv_length t = tlv_length new
         then (case (qba_chars (unat (tlv_length t)) (tlv_data t),
                     qba_chars (unat (tlv_length t)) (tlv_data new)) of
                 (Some a, Some b) \<Rightarrow> if a = b then Some (tList, changed) else replace
               | _ \<Rightarrow> None)
         else replace)"

fun updateTLVLoop :: "tlv list \<Rightarrow> tlv list \<times> bool \<Rightarrow> (tlv list \<times> bool) option" where
  "updateTLVLoop [] st = Some st"
| "updateTLVLoop (t # ts) st = (case updateTLV t st of None \<Rightarrow> None | Some st \<Rightarrow> updateTLVLoop ts st)"

definition updateTLVs :: "(bytes \<Rightarrow> qstring) \<Rightarrow> tlv list \<Rightarrow> ocontact \<Rightarrow> (bool \<times> ocontact) option" where
  "updateTLVs fromUtf8 list item =
     (case updateTLVLoop list (m_tlvList item, False) of
        None \<Rightarrow> None
      | Some (tList, changed) \<Rightarrow>
          if changed then map_option (Pair True) (setTLVList fromUtf8 tList item)
          else Some (False, item))"

subsection \<open>Lists of well-formed TLVs\<close>

definition tlvs_ok :: "tlv list \<Rightarrow> bool" where
  "tlvs_ok ts \<longleftrightarrow> list_all tlv_ok ts \<and> distinct (map tlv_type ts)"

lemma unat_tlv_length: "tlv_ok t \<Longrightarrow> unat (tlv_length t) = length (tlv_data t)"
  by (simp add: tlv_ok_def unat_of_nat_u16)

lemma findTLV_cases:
  "(findTLV ts ty = emptyTLV \<and> (\<forall>t \<in> set ts. uint (tlv_type t) \<noteq> ty))
   \<or> (findTLV ts ty \<in> set ts \<and> uint (tlv_type (findTLV ts ty)) = ty)"
  by (induction ts) auto

lemma tlv_bool_emptyTLV [simp]: "\<not> tlv_bool emptyTLV"
  by (simp add: tlv_bool_def emptyTLV_def)

lemma findTLV_ok: "list_all tlv_ok ts \<Longrightarrow> tlv_bool (findTLV ts ty) \<Longrightarrow>
    tlv_ok (findTLV ts ty) \<and> findTLV ts ty \<in> set ts \<and> uint (tlv_type (findTLV ts ty)) = ty"
  using findTLV_cases [of ts ty] by (auto simp: list_all_iff)

lemma findTLV_absent: "list_all tlv_ok ts \<Longrightarrow> \<not> tlv_bool (findTLV ts ty) \<Longrightarrow>
    findTLV ts ty = emptyTLV \<and> (\<forall>t \<in> set ts. uint (tlv_type t) \<noteq> ty)"
  using findTLV_cases [of ts ty] by (auto simp: list_all_iff tlv_ok_def)

lemma findTLV_append:
  "findTLV (ts @ us) ty = (if \<exists>t \<in> set ts. uint (tlv_type t) = ty then findTLV ts ty else findTLV us ty)"
  by (induction ts) auto

lemma findTLV_filter:
  "findTLV (filter (\<lambda>x. tlv_type x \<noteq> T) ts) ty = (if ty = uint T then emptyTLV else findTLV ts ty)"
  by (induction ts) (auto simp: word_uint_eq_iff [symmetric])

lemma findTLV_none: "\<forall>t \<in> set ts. uint (tlv_type t) \<noteq> ty \<Longrightarrow> findTLV ts ty = emptyTLV"
  by (induction ts) auto

lemma filter_tlv_eq:
  assumes "distinct (map tlv_type ts)" "t \<in> set ts"
  shows "filter (\<lambda>x. \<not> tlv_eq x t) ts = filter (\<lambda>x. tlv_type x \<noteq> tlv_type t) ts"
proof (rule filter_cong [OF refl])
  fix x assume "x \<in> set ts"
  with assms have "tlv_type x = tlv_type t \<Longrightarrow> x = t" by (auto dest: inj_onD simp: distinct_map)
  then show "(\<not> tlv_eq x t) = (tlv_type x \<noteq> tlv_type t)" by (auto simp: tlv_eq_def)
qed

lemma updateTLV_ok:
  assumes "tlvs_ok ts" "tlv_ok new"
  shows "\<exists>ts'. updateTLV new (ts, ch) = Some (ts', ch \<or> findTLV ts (uint (tlv_type new)) \<noteq> new)
    \<and> (findTLV ts (uint (tlv_type new)) = new \<longrightarrow> ts' = ts) \<and> tlvs_ok ts'
    \<and> (\<forall>ty. findTLV ts' ty = (if ty = uint (tlv_type new) then new else findTLV ts ty))"
proof -
  define t where "t = findTLV ts (uint (tlv_type new))"
  from assms have ok: "list_all tlv_ok ts" "distinct (map tlv_type ts)" by (simp_all add: tlvs_ok_def)
  show ?thesis
  proof (cases "tlv_bool t")
    case False
    then have absent: "\<forall>x \<in> set ts. tlv_type x \<noteq> tlv_type new" "t \<noteq> new"
      using findTLV_absent [OF ok(1), of "uint (tlv_type new)"] assms(2)
      by (auto simp: t_def tlv_ok_def)
    moreover have "tlvs_ok (ts @ [new])"
      using absent ok assms(2) by (auto simp: tlvs_ok_def)
    moreover have "updateTLV new (ts, ch) = Some (ts @ [new], True)"
      using False by (simp add: updateTLV_def t_def Let_def)
    moreover have "findTLV (ts @ [new]) ty = (if ty = uint (tlv_type new) then new else findTLV ts ty)" for ty
      using absent(1) findTLV_none [of ts ty] by (auto simp: findTLV_append word_uint_eq_iff [symmetric])
    ultimately show ?thesis by (simp add: t_def)
  next
    case True
    with findTLV_ok [OF ok(1), of "uint (tlv_type new)"]
    have t: "tlv_ok t" "t \<in> set ts" "tlv_type t = tlv_type new"
      by (simp_all add: t_def word_uint_eq_iff [symmetric])
    let ?ts = "filter (\<lambda>x. tlv_type x \<noteq> tlv_type new) ts @ [new]"
    have same: "tlv_length t = tlv_length new \<Longrightarrow> tlv_data t = tlv_data new \<Longrightarrow> t = new"
      using t(3) by (intro tlv.equality) simp_all
    have len: "tlv_length t = tlv_length new \<Longrightarrow> length (tlv_data t) = length (tlv_data new)"
      using unat_tlv_length [OF t(1)] unat_tlv_length [OF assms(2)] by simp
    have "updateTLV new (ts, ch) = Some (if t = new then (ts, ch) else (?ts, True))"
      using True same len filter_tlv_eq [OF ok(2) t(2)] t(3) unat_tlv_length [OF t(1)]
      by (auto simp: updateTLV_def Let_def t_def [symmetric])
    moreover have "tlvs_ok ?ts"
      using ok assms(2) by (auto simp: tlvs_ok_def list_all_iff distinct_map_filter)
    moreover have "findTLV ?ts ty = (if ty = uint (tlv_type new) then new else findTLV ts ty)" for ty
    proof (cases "ty = uint (tlv_type new)")
      case True
      then show ?thesis by (simp add: findTLV_append word_uint_eq_iff [symmetric])
    next
      case False
      then have "(\<exists>t \<in> set (filter (\<lambda>x. tlv_type x \<noteq> tlv_type new) ts). uint (tlv_type t) = ty)
          = (\<exists>t \<in> set ts. uint (tlv_type t) = ty)" by auto
      with False show ?thesis using findTLV_none [of ts ty] by (auto simp: findTLV_append findTLV_filter)
    qed
    ultimately show ?thesis using assms(1) by (auto simp: t_def)
  qed
qed

lemma updateTLVLoop_ok:
  assumes "tlvs_ok ts" "tlvs_ok list"
  shows "\<exists>ts'. updateTLVLoop list (ts, ch)
      = Some (ts', ch \<or> (\<exists>t \<in> set list. findTLV ts (uint (tlv_type t)) \<noteq> t)) \<and> tlvs_ok ts'
    \<and> ((\<forall>t \<in> set list. findTLV ts (uint (tlv_type t)) = t) \<longrightarrow> ts' = ts)
    \<and> (\<forall>ty. findTLV ts' ty = (if \<exists>t \<in> set list. uint (tlv_type t) = ty then findTLV list ty else findTLV ts ty))"
  using assms
proof (induction list arbitrary: ts ch)
  case Nil
  then show ?case by simp
next
  case (Cons new list)
  let ?d = "findTLV ts (uint (tlv_type new)) \<noteq> new"
  from Cons.prems have ok: "tlv_ok new" "tlvs_ok list" "\<forall>t \<in> set list. tlv_type t \<noteq> tlv_type new"
    by (simp_all add: tlvs_ok_def image_iff) metis
  from updateTLV_ok [OF Cons.prems(1) ok(1), of ch] obtain ts1 where
    1: "updateTLV new (ts, ch) = Some (ts1, ch \<or> ?d)" "\<not> ?d \<longrightarrow> ts1 = ts" "tlvs_ok ts1"
      "\<And>ty. findTLV ts1 ty = (if ty = uint (tlv_type new) then new else findTLV ts ty)"
    by blast
  have rest: "findTLV ts1 (uint (tlv_type t)) = findTLV ts (uint (tlv_type t))" if "t \<in> set list" for t
    using 1(4) ok(3) that by (simp add: word_uint_eq_iff [symmetric])
  from Cons.IH [OF 1(3) ok(2), of "ch \<or> ?d"] obtain ts' where
    2: "updateTLVLoop list (ts1, ch \<or> ?d)
        = Some (ts', (ch \<or> ?d) \<or> (\<exists>t \<in> set list. findTLV ts1 (uint (tlv_type t)) \<noteq> t))" "tlvs_ok ts'"
      "(\<forall>t \<in> set list. findTLV ts1 (uint (tlv_type t)) = t) \<longrightarrow> ts' = ts1"
      "\<And>ty. findTLV ts' ty
        = (if \<exists>t \<in> set list. uint (tlv_type t) = ty then findTLV list ty else findTLV ts1 ty)"
    by blast
  show ?case
  proof (intro exI [of _ ts'] conjI allI impI)
    show "updateTLVLoop (new # list) (ts, ch)
        = Some (ts', ch \<or> (\<exists>t \<in> set (new # list). findTLV ts (uint (tlv_type t)) \<noteq> t))"
      using 1(1) 2(1) rest by auto
    show "tlvs_ok ts'" by (rule 2(2))
    show "ts' = ts" if "\<forall>t \<in> set (new # list). findTLV ts (uint (tlv_type t)) = t"
      using that 1(2) 2(3) rest by simp
    show "findTLV ts' ty = (if \<exists>t \<in> set (new # list). uint (tlv_type t) = ty
        then findTLV (new # list) ty else findTLV ts ty)" for ty
      using 2(4) 1(4) ok(3) by (auto simp: word_uint_eq_iff [symmetric])
  qed
qed

lemma checkTLVs_ok:
  assumes "list_all tlv_ok (m_tlvList c)"
  shows "checkTLVs fromUtf8 c = Some (c
    \<lparr>m_waitingAuth := tlv_bool (findTLV (m_tlvList c) 0x0066),
     m_alias := (let t = findTLV (m_tlvList c) 0x0131 in if tlv_bool t then fromUtf8 (tlv_data t) else []),
     m_metaInfoId := tlv_data (findTLV (m_tlvList c) 0x015C)\<rparr>)"
proof -
  have "tlv_bool (findTLV (m_tlvList c) 0x0131) \<Longrightarrow>
      unat (tlv_length (findTLV (m_tlvList c) 0x0131)) = length (tlv_data (findTLV (m_tlvList c) 0x0131))"
    using findTLV_ok [OF assms, of "0x0131"] by (simp add: unat_tlv_length)
  moreover have "\<not> tlv_bool (findTLV (m_tlvList c) 0x015C) \<Longrightarrow> tlv_data (findTLV (m_tlvList c) 0x015C) = []"
    using findTLV_absent [OF assms, of "0x015C"] by (simp add: emptyTLV_def)
  ultimately show ?thesis by (simp add: checkTLVs_def Let_def)
qed

text \<open>The bytes of a TLV list, as \<^verbatim>\<open>m_tlvLength\<close> counts them.\<close>

definition tlv_bytes :: "tlv list \<Rightarrow> int" where
  "tlv_bytes ts = (\<Sum>t \<leftarrow> ts. 4 + uint (tlv_length t))"

lemma refreshTLVLength_eq: "refreshTLVLength c = c\<lparr>m_tlvLength := tlv_bytes (m_tlvList c)\<rparr>"
proof -
  have "fold (\<lambda>t n. n + 4 + uint (tlv_length t)) ts n = n + tlv_bytes ts" for ts n
    by (induction ts arbitrary: n) (simp_all add: tlv_bytes_def)
  then show ?thesis by (simp add: refreshTLVLength_def)
qed

text \<open>
  C30: \<^verbatim>\<open>updateTLVs\<close> merges a TLV list into an item: every type of the new list then has the
  new TLV, every other type keeps its own, the result says whether anything differed, an item
  nothing differs from is untouched, and a changed one has the length, alias and
  authorization flag of its new list.  Both lists have well-formed TLVs of distinct types.
\<close>

theorem updateTLVs_merges:
  assumes "tlvs_ok (m_tlvList c)" "tlvs_ok list"
  shows "\<exists>c'. updateTLVs fromUtf8 list c = Some (\<exists>t \<in> set list. findTLV (m_tlvList c) (uint (tlv_type t)) \<noteq> t, c')
    \<and> (\<forall>ty. findTLV (m_tlvList c') ty = (if \<exists>t \<in> set list. uint (tlv_type t) = ty
         then findTLV list ty else findTLV (m_tlvList c) ty))
    \<and> ((\<forall>t \<in> set list. findTLV (m_tlvList c) (uint (tlv_type t)) = t) \<longrightarrow> c' = c)
    \<and> ((\<exists>t \<in> set list. findTLV (m_tlvList c) (uint (tlv_type t)) \<noteq> t) \<longrightarrow>
         m_tlvLength c' = tlv_bytes (m_tlvList c')
         \<and> m_waitingAuth c' = tlv_bool (findTLV (m_tlvList c') 0x0066)
         \<and> m_alias c' = (let t = findTLV (m_tlvList c') 0x0131 in if tlv_bool t then fromUtf8 (tlv_data t) else []))
    \<and> oc_eq c' c = oc_eq c c"
proof -
  let ?d = "\<exists>t \<in> set list. findTLV (m_tlvList c) (uint (tlv_type t)) \<noteq> t"
  from updateTLVLoop_ok [OF assms, of False] obtain ts where
    ts: "updateTLVLoop list (m_tlvList c, False) = Some (ts, ?d)" "tlvs_ok ts" "\<not> ?d \<longrightarrow> ts = m_tlvList c"
      "\<forall>ty. findTLV ts ty = (if \<exists>t \<in> set list. uint (tlv_type t) = ty then findTLV list ty
        else findTLV (m_tlvList c) ty)" by auto
  have all: "list_all tlv_ok ts" using ts(2) by (simp add: tlvs_ok_def)
  have set: "setTLVList fromUtf8 ts c = Some (c\<lparr>m_tlvList := ts, m_tlvLength := tlv_bytes ts,
      m_waitingAuth := tlv_bool (findTLV ts 0x0066),
      m_alias := (let t = findTLV ts 0x0131 in if tlv_bool t then fromUtf8 (tlv_data t) else []),
      m_metaInfoId := tlv_data (findTLV ts 0x015C)\<rparr>)"
    using checkTLVs_ok [of "c\<lparr>m_tlvList := ts, m_tlvLength := tlv_bytes ts\<rparr>"] all
    by (simp add: setTLVList_def refreshTLVLength_eq)
  show ?thesis
  proof (cases ?d)
    case True
    from set obtain c' where c': "setTLVList fromUtf8 ts c = Some c'" "m_tlvList c' = ts"
      "m_tlvLength c' = tlv_bytes ts" "m_waitingAuth c' = tlv_bool (findTLV ts 0x0066)"
      "m_alias c' = (let t = findTLV ts 0x0131 in if tlv_bool t then fromUtf8 (tlv_data t) else [])"
      "oc_eq c' c = oc_eq c c"
      by (simp add: oc_eq_def)
    have "updateTLVs fromUtf8 list c = Some (True, c')" using ts(1) True c'(1) by (simp add: updateTLVs_def)
    moreover have "?d = True" using True by simp
    ultimately show ?thesis using True ts(4) c'(2-6) by (intro exI [of _ c']) (simp only: simp_thms, blast)
  next
    case False
    with ts(3) have "ts = m_tlvList c" by simp
    with False ts(1,4) have "updateTLVs fromUtf8 list c = Some (False, c)" by (simp add: updateTLVs_def)
    with False ts(4) \<open>ts = m_tlvList c\<close> show ?thesis by auto
  qed
qed

theorem updateTLVs_merges_witness:
  "\<exists>c'. updateTLVs (map ucast) [mkTLV 0x66 0 [], mkTLV 0x131 1 [65]] dummyItem
     = Some (\<exists>t \<in> {mkTLV 0x66 0 [], mkTLV 0x131 1 [65]}. findTLV [] (uint (tlv_type t)) \<noteq> t, c')"
  using updateTLVs_merges [of dummyItem "[mkTLV 0x66 0 [], mkTLV 0x131 1 [65]]" "map ucast"]
  by (simp add: dummyItem_def tlvs_ok_def tlv_ok_def tlv_bool_def mkTLV_def) blast

subsection \<open>TLVs cut short\<close>

lemma getBlock_short:
  assumes "length (unread b) < unat len" "length (mBuffer b) < 4294967296" "unread b \<noteq> []"
  shows "getBlock len b = (unread b, advance (length (unread b)) b)"
proof -
  let ?n = "length (unread b)"
  have "?n < 4294967296" using assms(2) by (simp add: unread_def)
  then have n: "unat (of_nat ?n :: u32) = ?n" by (rule unat_of_nat_u32)
  then have "len > of_nat ?n" using assms(1) by (simp add: word_less_nat_alt)
  then show ?thesis using assms(3) n
    by (simp add: getBlock_def bytesAvailable_unread getN_getByte)
qed

text \<open>
  An alias TLV that is cut short on the wire makes the constructor of \<^verbatim>\<open>OContact\<close> read
  memory behind the TLV's data: \<^verbatim>\<open>getTLV\<close> keeps the announced length next to the shorter data
  it got, and \<^verbatim>\<open>checkTLVs\<close> hands that length to \<^verbatim>\<open>QString::fromUtf8\<close>.
\<close>

theorem truncated_alias_reads_past_end:
  assumes "body \<noteq> []" "length body + 1 < n" "n < 65536"
  shows "\<exists>ts b. getTLVList (mkBuffer (enc16 0x0131 @ enc16 (of_nat n) @ body)) = Some (ts, b)
    \<and> mkOContact fromUtf8 name gid bid ty ts len = None"
proof -
  let ?b = "mkBuffer (enc16 0x0131 @ enc16 (of_nat n) @ body)"
  let ?t = "mkTLV 0x0131 (of_nat n) body"
  have n: "unat (of_nat n :: u16) = n" using assms(3) by (rule unat_of_nat_u16)
  have u: "unread ?b = enc16 0x0131 @ enc16 (of_nat n) @ body" by simp
  then have u2: "unread (advance 2 ?b) = enc16 (of_nat n) @ body" by simp
  have small: "length (mBuffer ?b) < 4294967296" using assms(2,3) by (simp add: mkBuffer_def)
  have u4: "unread (advance 4 ?b) = body" by simp
  have ucast_n: "unat (ucast (of_nat n :: u16) :: u32) = n" by (simp only: unat_ucast_u16_u32 n)
  have blk: "getBlock (ucast (of_nat n :: u16)) (advance 4 ?b) = (body, advance (length body + 4) ?b)"
    using getBlock_short [of "advance 4 ?b" "ucast (of_nat n :: u16)"] assms small ucast_n u4
    by (simp add: add.commute)
  have av: "bytesAvailable ?b = int (length body + 4)"
    by (simp add: bytesAvailable_def mkBuffer_def)
  have "getTLV ?b = (?t, advance (length body + 4) ?b)"
    unfolding getTLV_def using av getWord_enc [OF u] getWord_enc [OF u2] blk
    by (simp add: tlv_bool_def emptyTLV_def mkTLV_def)
  moreover have "mReadPos ?b < length (mBuffer ?b)" "tlv_bool ?t"
      "mReadPos (advance (length body + 4) ?b) = length (mBuffer (advance (length body + 4) ?b))"
    by (simp_all add: mkBuffer_def mkTLV_def tlv_bool_def)
  ultimately have "getTLVList ?b = Some ([?t], advance (length body + 4) ?b)"
    unfolding getTLVList_def
    by (subst getTLVLoop.simps, subst getTLVLoop.simps) simp
  moreover have "mkOContact fromUtf8 name gid bid ty [?t] len = None"
    using assms n by (simp add: mkOContact_def checkTLVs_def Let_def refreshTLVLength_def
        mkTLV_def tlv_bool_def qba_chars_def)
  ultimately show ?thesis by blast
qed

theorem truncated_alias_reads_past_end_witness:
  "\<exists>ts b. getTLVList (mkBuffer (enc16 0x0131 @ enc16 (of_nat 200) @ [65])) = Some (ts, b)
    \<and> mkOContact (map ucast) [] 0 1 0 ts 0 = None"
  by (rule truncated_alias_reads_past_end) simp_all

end
