(* ===== verification/Oscar_ContactManager.thy ===== *)
theory Oscar_ContactManager
  imports Oscar_Contact
begin

text \<open>
  The server-side list of \<^verbatim>\<open>contactmanager.cpp\<close>: the items, the sets of item and group ids
  in use and the allocation of new ids.  The signals the manager emits are the log
  \<open>cm_emitted\<close>; slots connected to them are not part of the model.  The items the source
  returns by value are copies of list items, which are copies already.
\<close>

subsection \<open>State\<close>

datatype cm_event =
    GroupAdded ocontact | GroupUpdated ocontact | GroupRemoved qstring
  | ContactAdded ocontact | ContactUpdated ocontact | ContactRemoved qstring

record contactManager =
  cm_list :: "ocontact list"
  itemIdSet :: "u16 set"
  groupIdSet :: "u16 set"
  cm_complete :: bool
  lastModTime :: u32
  maxContacts :: u16
  maxGroups :: u16
  maxVisible :: u16
  maxInvisible :: u16
  maxIgnore :: u16
  nextContactIdM :: u16
  nextGroupIdM :: u16
  cm_emitted :: "cm_event list"

definition mkContactManager :: contactManager where
  "mkContactManager = \<lparr>cm_list = [], itemIdSet = {}, groupIdSet = {}, cm_complete = False,
     lastModTime = 0, maxContacts = 999, maxGroups = 999, maxVisible = 999, maxInvisible = 999,
     maxIgnore = 999, nextContactIdM = 0, nextGroupIdM = 0, cm_emitted = []\<rparr>"

definition ROSTER_CONTACT :: u16 where "ROSTER_CONTACT = 0x0000"
definition ROSTER_GROUP :: u16 where "ROSTER_GROUP = 0x0001"
definition ROSTER_VISIBLE :: u16 where "ROSTER_VISIBLE = 0x0002"
definition ROSTER_INVISIBLE :: u16 where "ROSTER_INVISIBLE = 0x0003"
definition ROSTER_IGNORE :: u16 where "ROSTER_IGNORE = 0x000e"
definition ROSTER_BUDDYICONS :: u16 where "ROSTER_BUDDYICONS = 0x0014"

definition cmEmit :: "cm_event \<Rightarrow> contactManager \<Rightarrow> contactManager" where
  "cmEmit e s = s\<lparr>cm_emitted := cm_emitted s @ [e]\<rparr>"

text \<open>\<^verbatim>\<open>QList::append\<close> copies, \<^verbatim>\<open>contains\<close> and \<^verbatim>\<open>removeAll\<close> compare the element with the argument.\<close>

definition cmAppend :: "ocontact \<Rightarrow> contactManager \<Rightarrow> contactManager" where
  "cmAppend c s = s\<lparr>cm_list := cm_list s @ [copyOContact c]\<rparr>"

definition cmContains :: "contactManager \<Rightarrow> ocontact \<Rightarrow> bool" where
  "cmContains s c \<longleftrightarrow> list_ex (\<lambda>x. oc_eq x c) (cm_list s)"

definition cmRemoveAll :: "ocontact \<Rightarrow> contactManager \<Rightarrow> nat \<times> contactManager" where
  "cmRemoveAll c s =
     (length (filter (\<lambda>x. oc_eq x c) (cm_list s)), s\<lparr>cm_list := filter (\<lambda>x. \<not> oc_eq x c) (cm_list s)\<rparr>)"

subsection \<open>Ids\<close>

function findFreeId :: "u16 set \<Rightarrow> u16 \<Rightarrow> u16" where
  "findFreeId idSet fromId =
     (if fromId < 0x8000
      then (if fromId \<notin> idSet then fromId else findFreeId idSet (fromId + 1))
      else 0xFFFF)"
  by pat_completeness auto
termination
proof (relation "measure (\<lambda>(S, i). 0x8000 - unat i)")
  fix S :: "u16 set" and i :: u16
  assume "i < 0x8000"
  then have "unat i < 0x8000" by (simp add: word_less_nat_alt)
  then have "unat (i + 1) = unat i + 1" by (subst unat_plus_simple [THEN iffD1]) (auto simp: word_le_nat_alt unat_word_ariths)
  with \<open>unat i < 0x8000\<close> show "((S, i + 1), (S, i)) \<in> measure (\<lambda>(S, i). 0x8000 - unat i)" by simp
qed simp

declare findFreeId.simps [simp del]

definition nextContactId :: "contactManager \<Rightarrow> u16 \<times> contactManager" where
  "nextContactId s =
     (let s = (if nextContactIdM s = 0 then s\<lparr>nextContactIdM := nextContactIdM s + 1\<rparr> else s);
          s = s\<lparr>nextContactIdM := findFreeId (itemIdSet s) (nextContactIdM s)\<rparr>
      in if nextContactIdM s = 0xFFFF then (0xFFFF, s)
         else
           let s = s\<lparr>itemIdSet := insert (nextContactIdM s) (itemIdSet s)\<rparr>
           in (nextContactIdM s, s\<lparr>nextContactIdM := nextContactIdM s + 1\<rparr>))"

definition nextGroupId :: "contactManager \<Rightarrow> u16 \<times> contactManager" where
  "nextGroupId s =
     (let s = (if nextGroupIdM s = 0 then s\<lparr>nextGroupIdM := nextGroupIdM s + 1\<rparr> else s);
          s = s\<lparr>nextGroupIdM := findFreeId (groupIdSet s) (nextGroupIdM s)\<rparr>
      in if nextGroupIdM s = 0xFFFF then (0xFFFF, s)
         else
           let s = s\<lparr>groupIdSet := insert (nextGroupIdM s) (groupIdSet s)\<rparr>
           in (nextGroupIdM s, s\<lparr>nextGroupIdM := nextGroupIdM s + 1\<rparr>))"

definition addID :: "ocontact \<Rightarrow> contactManager \<Rightarrow> contactManager" where
  "addID item s =
     (if oc_type item = ROSTER_GROUP then s\<lparr>groupIdSet := insert (oc_gid item) (groupIdSet s)\<rparr>
      else s\<lparr>itemIdSet := insert (oc_bid item) (itemIdSet s)\<rparr>)"

definition removeID :: "ocontact \<Rightarrow> contactManager \<Rightarrow> contactManager" where
  "removeID item s =
     (if oc_type item = ROSTER_GROUP
      then (let s = s\<lparr>groupIdSet := groupIdSet s - {oc_gid item}\<rparr>
            in if nextGroupIdM s > oc_gid item then s\<lparr>nextGroupIdM := oc_gid item\<rparr> else s)
      else (let s = s\<lparr>itemIdSet := itemIdSet s - {oc_bid item}\<rparr>
            in if nextContactIdM s > oc_bid item then s\<lparr>nextContactIdM := oc_bid item\<rparr> else s))"

subsection \<open>Parameters\<close>

definition clearManager :: "contactManager \<Rightarrow> contactManager" where
  "clearManager s = s\<lparr>cm_list := [], itemIdSet := {}, groupIdSet := {}, cm_complete := False,
     lastModTime := 0, nextContactIdM := 0, nextGroupIdM := 0\<rparr>"

definition numberOfItems :: "contactManager \<Rightarrow> u16" where
  "numberOfItems s = of_nat (length (cm_list s))"

definition setLastModificationTime :: "u32 \<Rightarrow> contactManager \<Rightarrow> contactManager" where
  "setLastModificationTime t s = s\<lparr>lastModTime := t\<rparr>"

definition setParameters :: "u16 \<Rightarrow> u16 \<Rightarrow> u16 \<Rightarrow> u16 \<Rightarrow> u16 \<Rightarrow> contactManager \<Rightarrow> contactManager" where
  "setParameters mc mg mv mi mig s =
     s\<lparr>maxContacts := mc, maxGroups := mg, maxInvisible := mi, maxVisible := mv, maxIgnore := mig\<rparr>"

definition setListComplete :: "bool \<Rightarrow> contactManager \<Rightarrow> contactManager" where
  "setListComplete c s = s\<lparr>cm_complete := c\<rparr>"

subsection \<open>Searches\<close>

definition firstItem :: "(ocontact \<Rightarrow> bool) \<Rightarrow> contactManager \<Rightarrow> ocontact" where
  "firstItem P s = (case find P (cm_list s) of Some c \<Rightarrow> c | None \<Rightarrow> dummyItem)"

definition hasItem :: "contactManager \<Rightarrow> ocontact \<Rightarrow> bool" where
  "hasItem s item \<longleftrightarrow> list_ex (\<lambda>x. oc_eq x item) (cm_list s)"

definition findGroup :: "(qstring \<Rightarrow> qstring) \<Rightarrow> contactManager \<Rightarrow> qstring \<Rightarrow> ocontact" where
  "findGroup toLower s grp =
     firstItem (\<lambda>c. oc_type c = ROSTER_GROUP \<and> toLower (m_name c) = toLower grp) s"

definition findGroupById :: "contactManager \<Rightarrow> int \<Rightarrow> ocontact" where
  "findGroupById s groupId = firstItem (\<lambda>c. oc_type c = ROSTER_GROUP \<and> uint (oc_gid c) = groupId) s"

text \<open>A null string is \<open>None\<close>.\<close>

definition findContactInGroup ::
  "(qstring \<Rightarrow> qstring) \<Rightarrow> contactManager \<Rightarrow> qstring option \<Rightarrow> qstring option \<Rightarrow> ocontact" where
  "findContactInGroup toLower s contact grp =
     (case (contact, grp) of
        (Some contact, Some grp) \<Rightarrow>
          let gr = findGroup toLower s grp
          in if isValid gr
             then firstItem (\<lambda>c. oc_type c = ROSTER_CONTACT \<and> m_name c = contact \<and> oc_gid c = oc_gid gr) s
             else dummyItem
      | _ \<Rightarrow> dummyItem)"

definition findContact :: "contactManager \<Rightarrow> qstring \<Rightarrow> ocontact" where
  "findContact s contact = firstItem (\<lambda>c. oc_type c = ROSTER_CONTACT \<and> m_name c = contact) s"

definition findContactById :: "contactManager \<Rightarrow> int \<Rightarrow> ocontact" where
  "findContactById s contactId = firstItem (\<lambda>c. oc_type c = ROSTER_CONTACT \<and> uint (oc_bid c) = contactId) s"

definition findItemForIcon :: "contactManager \<Rightarrow> bytes \<Rightarrow> ocontact" where
  "findItemForIcon s iconHash =
     firstItem (\<lambda>c. oc_type c = ROSTER_BUDDYICONS
       \<and> (let t = findTLV (m_tlvList c) 0x00D5;
              b = skipBytes 1 (mkBuffer (tlv_data t));
              (iconSize, b) = getByte b
          in fst (getBlock (ucast iconSize) b) = iconHash)) s"

definition findItemForIconByRef :: "(qstring \<Rightarrow> int) \<Rightarrow> contactManager \<Rightarrow> int \<Rightarrow> ocontact" where
  "findItemForIconByRef toInt s ref =
     firstItem (\<lambda>c. oc_type c = ROSTER_BUDDYICONS \<and> toInt (m_name c) = ref) s"

definition findItem :: "contactManager \<Rightarrow> qstring \<Rightarrow> int \<Rightarrow> ocontact" where
  "findItem s contact ty = firstItem (\<lambda>c. uint (oc_type c) = ty \<and> m_name c = contact) s"

definition groupList :: "contactManager \<Rightarrow> ocontact list" where
  "groupList s = filter (\<lambda>c. oc_type c = ROSTER_GROUP) (cm_list s)"

definition contactList :: "contactManager \<Rightarrow> ocontact list" where
  "contactList s = filter (\<lambda>c. oc_type c = ROSTER_CONTACT) (cm_list s)"

definition visibleList :: "contactManager \<Rightarrow> ocontact list" where
  "visibleList s = filter (\<lambda>c. oc_type c = ROSTER_VISIBLE) (cm_list s)"

definition invisibleList :: "contactManager \<Rightarrow> ocontact list" where
  "invisibleList s = filter (\<lambda>c. oc_type c = ROSTER_INVISIBLE) (cm_list s)"

definition ignoreList :: "contactManager \<Rightarrow> ocontact list" where
  "ignoreList s = filter (\<lambda>c. oc_type c = ROSTER_IGNORE) (cm_list s)"

definition contactsFromGroup :: "(qstring \<Rightarrow> qstring) \<Rightarrow> contactManager \<Rightarrow> qstring \<Rightarrow> ocontact list" where
  "contactsFromGroup toLower s grp =
     (let gr = findGroup toLower s grp
      in if isValid gr
         then filter (\<lambda>c. oc_type c = ROSTER_CONTACT \<and> oc_gid c = oc_gid gr) (cm_list s) else [])"

definition contactsFromGroupId :: "contactManager \<Rightarrow> int \<Rightarrow> ocontact list" where
  "contactsFromGroupId s groupId =
     filter (\<lambda>c. oc_type c = ROSTER_CONTACT \<and> uint (oc_gid c) = groupId) (cm_list s)"

definition visibilityItem :: "contactManager \<Rightarrow> ocontact" where
  "visibilityItem s = firstItem (\<lambda>c. oc_type c = 0x0004 \<and> m_name c = []) s"

subsection \<open>Changes\<close>

definition newGroup :: "(qstring \<Rightarrow> qstring) \<Rightarrow> ocontact \<Rightarrow> contactManager \<Rightarrow> bool \<times> contactManager" where
  "newGroup toLower grp s =
     (if isValid (findGroup toLower s (m_name grp)) then (False, s)
      else if m_name grp \<noteq> []
      then (True, cmEmit (GroupAdded grp) (cmAppend grp (addID grp s)))
      else (False, s))"

definition updateGroup :: "(qstring \<Rightarrow> qstring) \<Rightarrow> ocontact \<Rightarrow> contactManager \<Rightarrow> bool \<times> contactManager" where
  "updateGroup toLower grp s =
     (let oldGroup = findGroup toLower s (m_name grp);
          s = (if isValid oldGroup then snd (cmRemoveAll oldGroup (removeID oldGroup s)) else s)
      in if cmContains s grp then (False, s)
         else (True, cmEmit (GroupUpdated grp) (cmAppend grp (addID grp s))))"

definition removeGroup :: "ocontact \<Rightarrow> contactManager \<Rightarrow> bool \<times> contactManager" where
  "removeGroup grp s =
     (let groupName = m_name grp;
          (remcount, s) = cmRemoveAll grp (removeID grp s)
      in if remcount = 0 then (False, s) else (True, cmEmit (GroupRemoved groupName) s))"

definition removeGroupByName :: "(qstring \<Rightarrow> qstring) \<Rightarrow> qstring \<Rightarrow> contactManager \<Rightarrow> bool \<times> contactManager" where
  "removeGroupByName toLower grp s =
     (let gr = findGroup toLower s grp in if isValid gr then removeGroup gr s else (False, s))"

definition newContact :: "ocontact \<Rightarrow> contactManager \<Rightarrow> bool \<times> contactManager" where
  "newContact contact s =
     (if cmContains s contact then (False, s)
      else (True, cmEmit (ContactAdded contact) (cmAppend contact (addID contact s))))"

definition updateContact :: "ocontact \<Rightarrow> contactManager \<Rightarrow> bool \<times> contactManager" where
  "updateContact contact s =
     (let oldContact = findContact s (m_name contact);
          s = (if isValid oldContact then snd (cmRemoveAll oldContact (removeID oldContact s)) else s)
      in if cmContains s contact then (False, s)
         else (True, cmEmit (ContactUpdated contact) (cmAppend contact (addID contact s))))"

definition removeContact :: "ocontact \<Rightarrow> contactManager \<Rightarrow> bool \<times> contactManager" where
  "removeContact contact s =
     (let contactName = m_name contact;
          (remcount, s) = cmRemoveAll contact (removeID contact s)
      in if remcount = 0 then (False, s) else (True, cmEmit (ContactRemoved contactName) s))"

definition removeContactByName :: "qstring \<Rightarrow> contactManager \<Rightarrow> bool \<times> contactManager" where
  "removeContactByName contact s =
     (let ct = findContact s contact in if isValid ct then removeContact ct s else (False, s))"

definition newItem :: "ocontact \<Rightarrow> contactManager \<Rightarrow> bool \<times> contactManager" where
  "newItem item s =
     (if cmContains s item then (False, s) else (True, cmAppend item (addID item s)))"

definition updateItem :: "ocontact \<Rightarrow> contactManager \<Rightarrow> bool \<times> contactManager" where
  "updateItem item s =
     (let oldItem = findItem s (m_name item) (uint (oc_type item));
          s = (if isValid oldItem then snd (cmRemoveAll oldItem (removeID oldItem s)) else s)
      in if cmContains s item then (False, s) else (True, cmAppend item (addID item s)))"

definition removeItem :: "ocontact \<Rightarrow> contactManager \<Rightarrow> bool \<times> contactManager" where
  "removeItem item s =
     (let (remcount, s) = cmRemoveAll item (removeID item s)
      in (remcount \<noteq> 0, s))"

subsection \<open>The id allocator\<close>

lemma unat_inc: "i < 0x8000 \<Longrightarrow> unat (i + 1 :: u16) = unat i + 1"
  by (subst unat_plus_simple [THEN iffD1]) (auto simp: word_less_nat_alt word_le_nat_alt unat_word_ariths)

lemma findFreeId_free:
  "findFreeId S i \<noteq> 0xFFFF \<Longrightarrow> i \<le> findFreeId S i \<and> findFreeId S i < 0x8000 \<and> findFreeId S i \<notin> S
    \<and> (\<forall>k. i \<le> k \<and> k < findFreeId S i \<longrightarrow> k \<in> S)"
proof (induction S i rule: findFreeId.induct)
  case (1 S i)
  show ?case
  proof (cases "i < 0x8000 \<and> i \<in> S")
    case True
    then have next_id: "findFreeId S i = findFreeId S (i + 1)" by (subst findFreeId.simps) simp
    from True have inc: "unat (i + 1) = unat i + 1" by (simp add: unat_inc)
    have split: "i \<le> k \<longleftrightarrow> k = i \<or> i + 1 \<le> k" for k
      using inc by (auto simp: word_le_nat_alt word_unat_eq_iff)
    from 1 True next_id have "i + 1 \<le> findFreeId S i \<and> findFreeId S i < 0x8000 \<and> findFreeId S i \<notin> S
        \<and> (\<forall>k. i + 1 \<le> k \<and> k < findFreeId S i \<longrightarrow> k \<in> S)" by simp
    with True split show ?thesis by auto
  next
    case False
    then have "findFreeId S i = (if i < 0x8000 then i else 0xFFFF)"
      by (subst findFreeId.simps) auto
    with 1(2) False show ?thesis by (auto split: if_splits)
  qed
qed

lemma findFreeId_full: "findFreeId S i = 0xFFFF \<Longrightarrow> i \<le> k \<Longrightarrow> k < 0x8000 \<Longrightarrow> k \<in> S"
proof (induction S i rule: findFreeId.induct)
  case (1 S i)
  from 1(3,4) have lt: "i < 0x8000" by (simp add: word_less_nat_alt word_le_nat_alt)
  with 1(2) have i: "i \<in> S" by (subst (asm) findFreeId.simps) (auto split: if_splits)
  with lt have "findFreeId S i = findFreeId S (i + 1)" by (subst findFreeId.simps) simp
  with 1 lt i have "i + 1 \<le> k \<Longrightarrow> k \<in> S" by simp
  moreover have "k = i \<or> i + 1 \<le> k"
    using 1(3) unat_inc [OF lt] by (auto simp: word_le_nat_alt word_unat_eq_iff)
  ultimately show ?case using i by blast
qed

text \<open>
  What a client of an allocator relies on.  \<open>0xFFFF\<close> says that there is no free id.
\<close>

fun allocN :: "('s \<Rightarrow> u16 \<times> 's) \<Rightarrow> nat \<Rightarrow> 's \<Rightarrow> u16 list \<times> 's" where
  "allocN alloc 0 s = ([], s)"
| "allocN alloc (Suc n) s = (let (i, s) = alloc s; (is, s) = allocN alloc n s in (i # is, s))"

locale id_allocator =
  fixes alloc :: "'s \<Rightarrow> u16 \<times> 's"
    and release :: "u16 \<Rightarrow> 's \<Rightarrow> 's"
    and used :: "'s \<Rightarrow> u16 set"
    and inv :: "'s \<Rightarrow> bool"
  assumes alloc_inv: "inv s \<Longrightarrow> inv (snd (alloc s))"
    and release_inv: "inv s \<Longrightarrow> inv (release i s)"
    and alloc_ok: "inv s \<Longrightarrow> fst (alloc s) \<noteq> 0xFFFF \<Longrightarrow> 0 < fst (alloc s) \<and> fst (alloc s) < 0x8000
      \<and> fst (alloc s) \<notin> used s \<and> used (snd (alloc s)) = insert (fst (alloc s)) (used s)
      \<and> (\<forall>k. 0 < k \<and> k < fst (alloc s) \<longrightarrow> k \<in> used s)"
    and alloc_full: "inv s \<Longrightarrow> fst (alloc s) = 0xFFFF \<Longrightarrow> used (snd (alloc s)) = used s
      \<and> (\<forall>k. 0 < k \<and> k < 0x8000 \<longrightarrow> k \<in> used s)"
    and release_used: "used (release i s) = used s - {i}"
begin

lemma alloc_full_iff: "inv s \<Longrightarrow> fst (alloc s) = 0xFFFF \<longleftrightarrow> (\<forall>k. 0 < k \<and> k < 0x8000 \<longrightarrow> k \<in> used s)"
  using alloc_ok [of s] alloc_full [of s] by blast

lemma alloc_spec:
  assumes "inv s" "U \<subseteq> used s"
  shows "if {k. 0 < k \<and> k < 0x8000} \<subseteq> used s then fst (alloc s) = 0xFFFF
    else 0 < fst (alloc s) \<and> fst (alloc s) < 0x8000 \<and> fst (alloc s) \<notin> U
      \<and> {k. 0 < k \<and> k < fst (alloc s)} \<subseteq> used s"
proof (cases "fst (alloc s) = 0xFFFF")
  case True
  then show ?thesis using alloc_full_iff [OF assms(1)] by (simp add: subset_eq)
next
  case False
  then have "\<not> {k. 0 < k \<and> k < 0x8000} \<subseteq> used s" using alloc_full_iff [OF assms(1)] by (simp add: subset_eq)
  then show ?thesis using alloc_ok [OF assms(1) False] assms(2) by auto
qed

lemma alloc_used_mono: "inv s \<Longrightarrow> used s \<subseteq> used (snd (alloc s))"
  using alloc_ok [of s] alloc_full [of s] by blast

lemma alloc_after_release:
  assumes "inv s" "0 < i" "i < 0x8000"
  shows "fst (alloc (release i s)) \<le> i"
proof (rule ccontr)
  let ?s = "release i s"
  assume "\<not> fst (alloc ?s) \<le> i"
  then have lt: "i < fst (alloc ?s)" by simp
  have "i \<in> used ?s"
  proof (cases "fst (alloc ?s) = 0xFFFF")
    case True
    with alloc_full [OF release_inv [OF assms(1)]] assms(2,3) show ?thesis by blast
  next
    case False
    with alloc_ok [OF release_inv [OF assms(1)]] assms(2) lt show ?thesis by blast
  qed
  then show False by (simp add: release_used)
qed

lemma allocN_fresh:
  assumes "inv s" "set is = A" "allocN alloc n s = (is, s')"
  shows "inv s' \<and> distinct (filter (\<lambda>i. i \<noteq> 0xFFFF) is) \<and> used s \<inter> (A - {0xFFFF}) = {}
    \<and> used s' = used s \<union> (A - {0xFFFF})"
  using assms
proof (induction n arbitrary: s A "is")
  case 0
  then show ?case by simp
next
  case (Suc n)
  obtain i s1 where a: "alloc s = (i, s1)" by (cases "alloc s")
  obtain js where r: "allocN alloc n s1 = (js, s')" "is = i # js"
    using Suc.prems(3) a by (auto split: prod.splits)
  have i1: "inv s1" using alloc_inv [OF Suc.prems(1)] a by simp
  note IH = Suc.IH [OF i1 refl r(1)]
  show ?case
  proof (cases "i = 0xFFFF")
    case True
    with alloc_full [OF Suc.prems(1)] a have "used s1 = used s" by simp
    with IH True r Suc.prems(2) show ?thesis by auto
  next
    case False
    with alloc_ok [OF Suc.prems(1)] a have "used s1 = insert i (used s)" "i \<notin> used s" by simp_all
    with IH False r Suc.prems(2) show ?thesis by auto
  qed
qed

end

subsection \<open>Both id sets of the manager are allocators\<close>

definition next_inv :: "u16 set \<Rightarrow> u16 \<Rightarrow> bool" where
  "next_inv S n \<longleftrightarrow> (\<forall>k. 0 < k \<and> k < n \<and> k < 0x8000 \<longrightarrow> k \<in> S)"

lemma alloc_core:
  assumes "next_inv S n"
  defines "f \<equiv> findFreeId S (if n = 0 then 1 else n)"
  shows "f \<noteq> 0xFFFF \<Longrightarrow> 0 < f \<and> f < 0x8000 \<and> f \<notin> S \<and> (\<forall>k. 0 < k \<and> k < f \<longrightarrow> k \<in> S)
      \<and> next_inv (insert f S) (f + 1)"
    and "f = 0xFFFF \<Longrightarrow> (\<forall>k. 0 < k \<and> k < 0x8000 \<longrightarrow> k \<in> S) \<and> next_inv S 0xFFFF"
proof -
  let ?n = "if n = 0 then 1 else n"
  have below: "k \<in> S" if "0 < k" "k < ?n" "k < 0x8000" for k
    using assms(1) that by (auto simp: next_inv_def word_less_nat_alt split: if_splits)
  {
    assume "f \<noteq> 0xFFFF"
    then have f: "?n \<le> f" "f < 0x8000" "f \<notin> S" "\<And>k. ?n \<le> k \<Longrightarrow> k < f \<Longrightarrow> k \<in> S"
      using findFreeId_free [of S ?n] by (auto simp: f_def)
    have "0 < ?n" by (simp add: word_neq_0_conv)
    then have pos: "0 < f" using f(1) by (rule less_le_trans)
    have all: "k \<in> S" if "0 < k" "k < f" for k
      using below [of k] f(2,4) that by (cases "k < ?n") (auto simp: not_less)
    have "k < f + 1 \<Longrightarrow> k = f \<or> k < f" for k
      using unat_inc [OF f(2)] by (auto simp: word_less_nat_alt word_unat_eq_iff)
    with all have "next_inv (insert f S) (f + 1)" by (auto simp: next_inv_def)
    with pos f all show "0 < f \<and> f < 0x8000 \<and> f \<notin> S \<and> (\<forall>k. 0 < k \<and> k < f \<longrightarrow> k \<in> S)
      \<and> next_inv (insert f S) (f + 1)" by blast
  next
    assume "f = 0xFFFF"
    then have "k \<in> S" if "0 < k" "k < 0x8000" for k
      using findFreeId_full [of S ?n k] below [of k] that by (cases "k < ?n") (auto simp: f_def not_less)
    then show "(\<forall>k. 0 < k \<and> k < 0x8000 \<longrightarrow> k \<in> S) \<and> next_inv S 0xFFFF" by (auto simp: next_inv_def)
  }
qed

lemma next_inv_release: "next_inv S n \<Longrightarrow> next_inv (S - {i}) (if n > i then i else n)"
  by (auto simp: next_inv_def)

lemma next_inv_insert: "next_inv S n \<Longrightarrow> next_inv (insert i S) n"
  by (auto simp: next_inv_def)

definition ids_inv :: "contactManager \<Rightarrow> bool" where
  "ids_inv s \<longleftrightarrow> next_inv (itemIdSet s) (nextContactIdM s) \<and> next_inv (groupIdSet s) (nextGroupIdM s)"

definition itemWithId :: "u16 \<Rightarrow> u16 \<Rightarrow> ocontact" where
  "itemWithId ty i = dummyItem\<lparr>m_type := uint ty, m_gid := uint i, m_bid := uint i\<rparr>"

interpretation contact_ids: id_allocator nextContactId "\<lambda>i. removeID (itemWithId ROSTER_CONTACT i)"
  itemIdSet ids_inv
  by unfold_locales
    (auto simp: ids_inv_def nextContactId_def removeID_def itemWithId_def oc_type_def oc_bid_def
      ROSTER_CONTACT_def ROSTER_GROUP_def Let_def
      dest: alloc_core next_inv_release split: if_splits)

interpretation group_ids: id_allocator nextGroupId "\<lambda>i. removeID (itemWithId ROSTER_GROUP i)"
  groupIdSet ids_inv
  by unfold_locales
    (auto simp: ids_inv_def nextGroupId_def removeID_def itemWithId_def oc_type_def oc_gid_def
      ROSTER_CONTACT_def ROSTER_GROUP_def Let_def
      dest: alloc_core next_inv_release split: if_splits)

subsection \<open>Items and their ids\<close>

definition item_ok :: "ocontact \<Rightarrow> bool" where
  "item_ok c \<longleftrightarrow> 0 \<le> m_gid c \<and> m_gid c < 65536 \<and> 0 \<le> m_bid c \<and> m_bid c < 65536
     \<and> 0 \<le> m_type c \<and> m_type c < 65535"

text \<open>Groups draw their ids from one set, all other items from the other.\<close>

definition idkey :: "ocontact \<Rightarrow> bool \<times> u16" where
  "idkey c = (if oc_type c = ROSTER_GROUP then (True, oc_gid c) else (False, oc_bid c))"

definition id_used :: "contactManager \<Rightarrow> bool \<times> u16 \<Rightarrow> bool" where
  "id_used s k = (if fst k then snd k \<in> groupIdSet s else snd k \<in> itemIdSet s)"

definition list_inv :: "contactManager \<Rightarrow> bool" where
  "list_inv s \<longleftrightarrow> list_all item_ok (cm_list s) \<and> distinct (map idkey (cm_list s))
     \<and> (\<forall>c \<in> set (cm_list s). id_used s (idkey c))"

lemma oc_eq_iff:
  assumes "item_ok y"
  shows "oc_eq x y \<longleftrightarrow> m_name x = m_name y \<and> m_gid x = m_gid y \<and> m_bid x = m_bid y \<and> m_type x = m_type y"
  using assms by (simp add: oc_eq_def item_ok_def oc_gid_def oc_bid_def oc_type_def uint_word_of_int)

lemma oc_eq_refl: "item_ok x \<Longrightarrow> oc_eq x x"
  by (simp add: oc_eq_iff)

lemma oc_eq_idkey: "item_ok y \<Longrightarrow> oc_eq x y \<Longrightarrow> idkey x = idkey y"
  by (simp add: oc_eq_iff idkey_def oc_type_def oc_gid_def oc_bid_def)

lemma copyOContact_simps [simp]:
  "m_name (copyOContact c) = m_name c" "m_gid (copyOContact c) = m_gid c"
  "m_bid (copyOContact c) = m_bid c" "m_type (copyOContact c) = m_type c"
  "m_tlvList (copyOContact c) = m_tlvList c"
  "oc_gid (copyOContact c) = oc_gid c" "oc_bid (copyOContact c) = oc_bid c"
  "oc_type (copyOContact c) = oc_type c" "idkey (copyOContact c) = idkey c"
  "item_ok (copyOContact c) = item_ok c" "isValid (copyOContact c) = isValid c"
  by (simp_all add: copyOContact_def refreshTLVLength_def idkey_def item_ok_def oc_gid_def oc_bid_def
      oc_type_def isValid_def)

lemma ids_inv_simps [simp]:
  "ids_inv (cmEmit e s) = ids_inv s" "ids_inv (cmAppend c s) = ids_inv s"
  "ids_inv (snd (cmRemoveAll c s)) = ids_inv s"
  by (simp_all add: ids_inv_def cmEmit_def cmAppend_def cmRemoveAll_def)

lemma ids_inv_addID [inv_intros]: "ids_inv s \<Longrightarrow> ids_inv (addID c s)"
  by (simp add: ids_inv_def addID_def next_inv_insert)

lemma ids_inv_removeID [inv_intros]: "ids_inv s \<Longrightarrow> ids_inv (removeID c s)"
  by (auto simp: ids_inv_def removeID_def Let_def dest: next_inv_release split: if_splits)

lemma cm_list_simps [simp]:
  "cm_list (cmEmit e s) = cm_list s" "cm_list (cmAppend c s) = cm_list s @ [copyOContact c]"
  "cm_list (addID c s) = cm_list s" "cm_list (removeID c s) = cm_list s"
  "cm_list (snd (cmRemoveAll c s)) = filter (\<lambda>x. \<not> oc_eq x c) (cm_list s)"
  "cm_list (snd (nextContactId s)) = cm_list s" "cm_list (snd (nextGroupId s)) = cm_list s"
  by (simp_all add: cmEmit_def cmAppend_def addID_def removeID_def cmRemoveAll_def
      nextContactId_def nextGroupId_def Let_def)

lemma id_used_simps [simp]:
  "id_used (cmEmit e s) k = id_used s k" "id_used (cmAppend c s) k = id_used s k"
  "id_used (snd (cmRemoveAll c s)) k = id_used s k"
  "id_used (addID c s) k \<longleftrightarrow> k = idkey c \<or> id_used s k"
  "id_used (removeID c s) k \<longleftrightarrow> k \<noteq> idkey c \<and> id_used s k"
  by (cases k; auto simp: id_used_def cmEmit_def cmAppend_def cmRemoveAll_def addID_def removeID_def
      idkey_def Let_def)+

lemma list_inv_cmEmit [simp]: "list_inv (cmEmit e s) = list_inv s"
  by (simp add: list_inv_def)

lemma list_inv_add:
  assumes "list_inv s" "item_ok c" "idkey c \<notin> idkey ` set (cm_list s)"
  shows "list_inv (cmAppend c (addID c s))"
  using assms by (auto simp: list_inv_def)

lemma list_inv_remove:
  assumes "list_inv s" "item_ok c" "\<forall>x \<in> set (cm_list s). idkey x = idkey c \<longrightarrow> oc_eq x c"
  shows "list_inv (snd (cmRemoveAll c (removeID c s)))"
  using assms by (auto simp: list_inv_def list_all_iff distinct_map_filter)

lemma list_inv_member:
  assumes "list_inv s" "c \<in> set (cm_list s)"
  shows "item_ok c" "\<forall>x \<in> set (cm_list s). idkey x = idkey c \<longrightarrow> oc_eq x c"
proof -
  show ok: "item_ok c" using assms by (simp add: list_inv_def list_all_iff)
  show "\<forall>x \<in> set (cm_list s). idkey x = idkey c \<longrightarrow> oc_eq x c"
    using assms oc_eq_refl [OF ok] by (auto simp: list_inv_def distinct_map dest: inj_onD)
qed

lemma find_cases: "case find P xs of None \<Rightarrow> \<forall>x \<in> set xs. \<not> P x | Some x \<Rightarrow> x \<in> set xs \<and> P x"
  by (induction xs) (auto split: option.splits)

lemma firstItem_cases:
  "(firstItem P s \<in> set (cm_list s) \<and> P (firstItem P s))
   \<or> (firstItem P s = dummyItem \<and> (\<forall>x \<in> set (cm_list s). \<not> P x))"
  using find_cases [where P = P and xs = "cm_list s"] by (auto simp: firstItem_def split: option.splits)

lemma not_isValid_dummyItem [simp]: "\<not> isValid dummyItem"
  by (simp add: isValid_def dummyItem_def)

lemma item_ok_isValid: "item_ok c \<Longrightarrow> isValid c"
  by (auto simp: item_ok_def isValid_def)

lemma firstItem_valid:
  assumes "list_inv s"
  shows "isValid (firstItem P s) \<longleftrightarrow> (\<exists>x \<in> set (cm_list s). P x)"
proof -
  have "x \<in> set (cm_list s) \<Longrightarrow> isValid x" for x
    using list_inv_member(1) [OF assms] item_ok_isValid by blast
  then show ?thesis using firstItem_cases [of P s] by force
qed

text \<open>The first half of every update.\<close>

definition dropOld :: "ocontact \<Rightarrow> contactManager \<Rightarrow> contactManager" where
  "dropOld old s = (if isValid old then snd (cmRemoveAll old (removeID old s)) else s)"

lemma dropOld_inv:
  assumes "list_inv s" "ids_inv s" "old = firstItem P s"
  shows "list_inv (dropOld old s) \<and> ids_inv (dropOld old s)"
proof (cases "isValid old")
  case True
  then have "old \<in> set (cm_list s)" using firstItem_cases [of P s] assms(3) by auto
  from list_inv_member [OF assms(1) this] show ?thesis
    using assms list_inv_remove [OF assms(1)] True by (simp add: dropOld_def inv_intros)
qed (use assms in \<open>simp add: dropOld_def\<close>)

lemma cmContains_idkey: "item_ok c \<Longrightarrow> cmContains s c \<Longrightarrow> idkey c \<in> idkey ` set (cm_list s)"
  using oc_eq_idkey [of c] by (auto simp: cmContains_def list_ex_iff image_iff) metis

subsection \<open>Reachable states\<close>

definition fresh_item :: "ocontact \<Rightarrow> contactManager \<Rightarrow> bool" where
  "fresh_item c s \<longleftrightarrow> item_ok c \<and> idkey c \<notin> idkey ` set (cm_list s)"

definition sole_item :: "ocontact \<Rightarrow> contactManager \<Rightarrow> bool" where
  "sole_item c s \<longleftrightarrow> item_ok c \<and> (\<forall>x \<in> set (cm_list s). idkey x = idkey c \<longrightarrow> oc_eq x c)"

text \<open>
  One call of a public operation.  The items the server sends carry ids no other item has:
  a new one's id is fresh, an update's is fresh once the item it replaces is gone, and a
  removed one's belongs to no other item.
\<close>

inductive cm_step :: "(qstring \<Rightarrow> qstring) \<Rightarrow> contactManager \<Rightarrow> contactManager \<Rightarrow> bool"
  for toLower :: "qstring \<Rightarrow> qstring" where
  step_newGroup: "fresh_item c s \<Longrightarrow> cm_step toLower s (snd (newGroup toLower c s))"
| step_updateGroup: "fresh_item c (dropOld (findGroup toLower s (m_name c)) s)
    \<Longrightarrow> cm_step toLower s (snd (updateGroup toLower c s))"
| step_removeGroup: "sole_item c s \<Longrightarrow> cm_step toLower s (snd (removeGroup c s))"
| step_removeGroupByName: "cm_step toLower s (snd (removeGroupByName toLower n s))"
| step_newContact: "fresh_item c s \<Longrightarrow> cm_step toLower s (snd (newContact c s))"
| step_updateContact: "fresh_item c (dropOld (findContact s (m_name c)) s)
    \<Longrightarrow> cm_step toLower s (snd (updateContact c s))"
| step_removeContact: "sole_item c s \<Longrightarrow> cm_step toLower s (snd (removeContact c s))"
| step_removeContactByName: "cm_step toLower s (snd (removeContactByName n s))"
| step_newItem: "fresh_item c s \<Longrightarrow> cm_step toLower s (snd (newItem c s))"
| step_updateItem: "fresh_item c (dropOld (findItem s (m_name c) (uint (oc_type c))) s)
    \<Longrightarrow> cm_step toLower s (snd (updateItem c s))"
| step_removeItem: "sole_item c s \<Longrightarrow> cm_step toLower s (snd (removeItem c s))"
| step_nextContactId: "cm_step toLower s (snd (nextContactId s))"
| step_nextGroupId: "cm_step toLower s (snd (nextGroupId s))"
| step_clear: "cm_step toLower s (clearManager s)"
| step_setParameters: "cm_step toLower s (setParameters mc mg mv mi mig s)"
| step_setListComplete: "cm_step toLower s (setListComplete b s)"
| step_setLastModificationTime: "cm_step toLower s (setLastModificationTime n s)"

definition cm_inv :: "contactManager \<Rightarrow> bool" where
  "cm_inv s \<longleftrightarrow> list_inv s \<and> ids_inv s"

lemma cm_inv_add: "cm_inv s \<Longrightarrow> fresh_item c s \<Longrightarrow> cm_inv (cmAppend c (addID c s))"
  by (simp add: cm_inv_def fresh_item_def list_inv_add inv_intros)

lemma cm_inv_cmEmit [simp]: "cm_inv (cmEmit e s) = cm_inv s"
  by (simp add: cm_inv_def)

lemma cm_inv_remove: "cm_inv s \<Longrightarrow> sole_item c s \<Longrightarrow> cm_inv (snd (cmRemoveAll c (removeID c s)))"
  by (simp add: cm_inv_def sole_item_def list_inv_remove inv_intros)

lemma cm_inv_dropOld: "cm_inv s \<Longrightarrow> cm_inv (dropOld (firstItem P s) s)"
  using dropOld_inv [OF _ _ refl] by (simp add: cm_inv_def)

lemma sole_firstItem: "cm_inv s \<Longrightarrow> isValid (firstItem P s) \<Longrightarrow> sole_item (firstItem P s) s"
  using firstItem_cases [of P s] list_inv_member [of s "firstItem P s"]
  by (auto simp: cm_inv_def sole_item_def)

text \<open>Every operation in terms of appending and dropping.\<close>

lemma operations_eq:
  "snd (newGroup toLower c s) = (if isValid (findGroup toLower s (m_name c)) \<or> m_name c = [] then s
     else cmEmit (GroupAdded c) (cmAppend c (addID c s)))"
  "snd (updateGroup toLower c s) = (let s = dropOld (findGroup toLower s (m_name c)) s in
     if cmContains s c then s else cmEmit (GroupUpdated c) (cmAppend c (addID c s)))"
  "snd (newContact c s) = (if cmContains s c then s else cmEmit (ContactAdded c) (cmAppend c (addID c s)))"
  "snd (updateContact c s) = (let s = dropOld (findContact s (m_name c)) s in
     if cmContains s c then s else cmEmit (ContactUpdated c) (cmAppend c (addID c s)))"
  "snd (newItem c s) = (if cmContains s c then s else cmAppend c (addID c s))"
  "snd (updateItem c s) = (let s = dropOld (findItem s (m_name c) (uint (oc_type c))) s in
     if cmContains s c then s else cmAppend c (addID c s))"
  by (simp_all add: newGroup_def updateGroup_def newContact_def updateContact_def newItem_def
      updateItem_def dropOld_def Let_def)

lemma cm_inv_removals:
  assumes "cm_inv s" "sole_item c s"
  shows "cm_inv (snd (removeGroup c s))" "cm_inv (snd (removeContact c s))" "cm_inv (snd (removeItem c s))"
  using cm_inv_remove [OF assms]
  by (auto simp: removeGroup_def removeContact_def removeItem_def Let_def split: prod.splits)

lemma cm_inv_ids:
  "cm_inv s \<Longrightarrow> cm_inv (snd (nextContactId s))" "cm_inv s \<Longrightarrow> cm_inv (snd (nextGroupId s))"
proof -
  assume s: "cm_inv s"
  then have i: "ids_inv s" by (simp add: cm_inv_def)
  have "id_used s k \<Longrightarrow> id_used (snd (nextContactId s)) k \<and> id_used (snd (nextGroupId s)) k" for k
    by (auto simp: id_used_def nextContactId_def nextGroupId_def Let_def)
  then show "cm_inv (snd (nextContactId s))" "cm_inv (snd (nextGroupId s))"
    using s contact_ids.alloc_inv [OF i] group_ids.alloc_inv [OF i]
    by (auto simp: cm_inv_def list_inv_def)
qed

lemma cm_inv_settings:
  "cm_inv (clearManager s)"
  "cm_inv s \<Longrightarrow> cm_inv (setParameters mc mg mv mi mig s)"
  "cm_inv s \<Longrightarrow> cm_inv (setListComplete b s)"
  "cm_inv s \<Longrightarrow> cm_inv (setLastModificationTime n s)"
  by (simp_all add: cm_inv_def list_inv_def ids_inv_def next_inv_def id_used_def clearManager_def
      setParameters_def setListComplete_def setLastModificationTime_def)

lemma cm_inv_step:
  assumes "cm_step toLower s s'" "cm_inv s"
  shows "cm_inv s'"
  using assms
proof (induction rule: cm_step.induct)
  case (step_updateGroup c s)
  then show ?case using cm_inv_dropOld [OF step_updateGroup.prems]
    by (auto simp: operations_eq findGroup_def Let_def intro: cm_inv_add)
next
  case (step_updateContact c s)
  then show ?case using cm_inv_dropOld [OF step_updateContact.prems]
    by (auto simp: operations_eq findContact_def Let_def intro: cm_inv_add)
next
  case (step_updateItem c s)
  then show ?case using cm_inv_dropOld [OF step_updateItem.prems]
    by (auto simp: operations_eq findItem_def Let_def intro: cm_inv_add)
next
  case (step_removeGroupByName s n)
  then show ?case using sole_firstItem [OF step_removeGroupByName]
    by (auto simp: removeGroupByName_def findGroup_def Let_def intro: cm_inv_removals)
next
  case (step_removeContactByName s n)
  then show ?case using sole_firstItem [OF step_removeContactByName]
    by (auto simp: removeContactByName_def findContact_def Let_def intro: cm_inv_removals)
qed (auto simp: operations_eq cm_inv_removals cm_inv_ids cm_inv_settings intro: cm_inv_add)

lemma cm_inv_reachable: "(cm_step toLower)\<^sup>*\<^sup>* mkContactManager s \<Longrightarrow> cm_inv s"
proof (induction rule: rtranclp_induct)
  case base
  show ?case by (simp add: cm_inv_def list_inv_def ids_inv_def next_inv_def mkContactManager_def)
qed (rule cm_inv_step)

text \<open>
  In every state the operations of the contact manager can reach, a new contact or group
  id is free: it lies between 1 and \<^verbatim>\<open>0x7FFF\<close>, no item of the list has it, and it is the
  smallest id not in use; \<^verbatim>\<open>0xFFFF\<close> is returned exactly when all are in use.
\<close>

theorem allocated_ids_are_free:
  assumes "(cm_step toLower)\<^sup>*\<^sup>* mkContactManager s"
  shows "(if {k. 0 < k \<and> k < 0x8000} \<subseteq> itemIdSet s then fst (nextContactId s) = 0xFFFF
      else 0 < fst (nextContactId s) \<and> fst (nextContactId s) < 0x8000
        \<and> fst (nextContactId s) \<notin> oc_bid ` {c \<in> set (cm_list s). oc_type c \<noteq> ROSTER_GROUP}
        \<and> {k. 0 < k \<and> k < fst (nextContactId s)} \<subseteq> itemIdSet s)
    \<and> (if {k. 0 < k \<and> k < 0x8000} \<subseteq> groupIdSet s then fst (nextGroupId s) = 0xFFFF
      else 0 < fst (nextGroupId s) \<and> fst (nextGroupId s) < 0x8000
        \<and> fst (nextGroupId s) \<notin> oc_gid ` set (groupList s)
        \<and> {k. 0 < k \<and> k < fst (nextGroupId s)} \<subseteq> groupIdSet s)"
proof -
  from cm_inv_reachable [OF assms] have inv: "list_inv s" "ids_inv s" by (simp_all add: cm_inv_def)
  have "oc_bid ` {c \<in> set (cm_list s). oc_type c \<noteq> ROSTER_GROUP} \<subseteq> itemIdSet s"
    and "oc_gid ` set (groupList s) \<subseteq> groupIdSet s"
    using inv(1) by (auto simp: list_inv_def id_used_def idkey_def groupList_def split: if_splits)
  with contact_ids.alloc_spec [OF inv(2)] group_ids.alloc_spec [OF inv(2)]
  show ?thesis by blast
qed

theorem allocated_ids_are_free_witness:
  "let s = snd (newContact (itemWithId ROSTER_CONTACT 1) mkContactManager)
   in (if {k. 0 < k \<and> k < 0x8000} \<subseteq> itemIdSet s then fst (nextContactId s) = 0xFFFF
       else 0 < fst (nextContactId s) \<and> fst (nextContactId s) < 0x8000 \<and> fst (nextContactId s) \<noteq> 1)"
proof -
  let ?c = "itemWithId ROSTER_CONTACT 1"
  have "cm_step (\<lambda>n. n) mkContactManager (snd (newContact ?c mkContactManager))"
    by (rule step_newContact)
      (simp add: fresh_item_def item_ok_def itemWithId_def ROSTER_CONTACT_def mkContactManager_def dummyItem_def)
  note spec = conjunct1 [OF allocated_ids_are_free [OF r_into_rtranclp [of "cm_step (\<lambda>n. n)", OF this]]]
  let ?s = "snd (newContact ?c mkContactManager)"
  have one: "1 \<in> oc_bid ` {c \<in> set (cm_list ?s). oc_type c \<noteq> ROSTER_GROUP}"
    by (simp add: newContact_def cmContains_def mkContactManager_def itemWithId_def oc_type_def oc_bid_def
        dummyItem_def ROSTER_CONTACT_def ROSTER_GROUP_def copyOContact_def image_iff)
  show ?thesis
  proof (cases "{k. 0 < k \<and> k < 0x8000} \<subseteq> itemIdSet ?s")
    case True
    with spec show ?thesis unfolding Let_def by (simp only: if_True)
  next
    case False
    with spec have "fst (nextContactId ?s) \<notin> oc_bid ` {c \<in> set (cm_list ?s). oc_type c \<noteq> ROSTER_GROUP}"
      by (simp only: if_False simp_thms)
    with one have "fst (nextContactId ?s) \<noteq> 1" by (metis (no_types))
    with spec False show ?thesis unfolding Let_def by (simp only: if_False simp_thms)
  qed
qed

subsection \<open>Named items as a store\<close>

text \<open>
  What the tasks that edit the list rely on: an added item is found under its name, a dropped
  one no longer, and no other name is affected.  Names are compared up to \<open>same\<close>.
\<close>

locale item_store =
  fixes add :: "ocontact \<Rightarrow> 's \<Rightarrow> bool \<times> 's"
    and drop :: "qstring \<Rightarrow> 's \<Rightarrow> bool \<times> 's"
    and lookup :: "'s \<Rightarrow> qstring \<Rightarrow> ocontact"
    and same :: "qstring \<Rightarrow> qstring \<Rightarrow> bool"
    and ok :: "ocontact \<Rightarrow> 's \<Rightarrow> bool"
    and inv :: "'s \<Rightarrow> bool"
  assumes same_equiv: "equivp same"
    and lookup_dummy: "inv s \<Longrightarrow> \<not> isValid (lookup s k) \<Longrightarrow> lookup s k = dummyItem"
    and lookup_same: "same k k' \<Longrightarrow> lookup s k = lookup s k'"
    and add_spec: "inv s \<Longrightarrow> ok c s \<Longrightarrow> \<not> isValid (lookup s (m_name c)) \<Longrightarrow>
      fst (add c s) \<and> inv (snd (add c s))
      \<and> (\<forall>k. lookup (snd (add c s)) k = (if same k (m_name c) then copyOContact c else lookup s k))"
    and drop_spec: "inv s \<Longrightarrow> isValid (lookup s k) \<Longrightarrow>
      fst (drop k s) \<and> inv (snd (drop k s))
      \<and> (\<forall>k'. lookup (snd (drop k s)) k' = (if same k' k then dummyItem else lookup s k'))"
    and ok_valid: "ok c s \<Longrightarrow> isValid c"
begin

lemma add_then_drop:
  assumes "inv s" "ok c s" "\<not> isValid (lookup s (m_name c))" "same k (m_name c)"
  shows "fst (drop k (snd (add c s))) \<and> lookup (snd (drop k (snd (add c s)))) = lookup s"
proof -
  let ?t = "snd (add c s)"
  note a = add_spec [OF assms(1-3)]
  then have "isValid (lookup ?t k)" using assms(4) ok_valid [OF assms(2)] by simp
  note d = drop_spec [OF conjunct1 [OF conjunct2 [OF a]] this]
  have "lookup (snd (drop k ?t)) n = lookup s n" for n
  proof (cases "same n k")
    case True
    then have "same n (m_name c)" using assms(4) same_equiv by (meson equivp_transp)
    then have "lookup s n = lookup s (m_name c)" by (rule lookup_same)
    with True d lookup_dummy [OF assms(1,3)] show ?thesis by simp
  next
    case False
    then have "\<not> same n (m_name c)" using assms(4) same_equiv by (meson equivp_transp equivp_symp)
    with False d a show ?thesis by simp
  qed
  with d show ?thesis by blast
qed

lemma drop_then_add:
  assumes "inv s" "isValid (lookup s k)" "ok c (snd (drop k s))" "same (m_name c) k"
  shows "fst (add c (snd (drop k s))) \<and> lookup (snd (add c (snd (drop k s)))) n
    = (if same n k then copyOContact c else lookup s n)"
proof -
  note d = drop_spec [OF assms(1,2)]
  then have "\<not> isValid (lookup (snd (drop k s)) (m_name c))" using assms(4) by simp
  note a = add_spec [OF conjunct1 [OF conjunct2 [OF d]] assms(3) this]
  have "same n (m_name c) \<longleftrightarrow> same n k"
    using assms(4) same_equiv by (meson equivp_transp equivp_symp)
  with a d show ?thesis by simp
qed

end

text \<open>The items one kind of search sees, and the names that are unique among them.\<close>

definition names_unique :: "(qstring \<Rightarrow> qstring) \<Rightarrow> u16 \<Rightarrow> contactManager \<Rightarrow> bool" where
  "names_unique f ty s \<longleftrightarrow> distinct (map (\<lambda>c. f (m_name c)) (filter (\<lambda>c. oc_type c = ty) (cm_list s)))"

definition named_inv :: "(qstring \<Rightarrow> qstring) \<Rightarrow> u16 \<Rightarrow> contactManager \<Rightarrow> bool" where
  "named_inv f ty s \<longleftrightarrow> list_inv s \<and> names_unique f ty s"

definition lookupNamed :: "(qstring \<Rightarrow> qstring) \<Rightarrow> u16 \<Rightarrow> contactManager \<Rightarrow> qstring \<Rightarrow> ocontact" where
  "lookupNamed f ty s n = firstItem (\<lambda>c. oc_type c = ty \<and> f (m_name c) = f n) s"

lemma lookupNamed_valid:
  "list_inv s \<Longrightarrow> isValid (lookupNamed f ty s n) \<longleftrightarrow> (\<exists>c \<in> set (cm_list s). oc_type c = ty \<and> f (m_name c) = f n)"
  by (simp add: lookupNamed_def firstItem_valid)

lemma firstItem_append:
  "cm_list s' = cm_list s @ [c] \<Longrightarrow>
    firstItem P s' = (if \<exists>x \<in> set (cm_list s). P x then firstItem P s else if P c then c else dummyItem)"
proof -
  have "find P (xs @ [c]) = (if \<exists>x \<in> set xs. P x then find P xs else if P c then Some c else None)" for xs
    by (induction xs) auto
  then show "cm_list s' = cm_list s @ [c] \<Longrightarrow> ?thesis" by (simp add: firstItem_def)
qed

lemma firstItem_filter:
  "cm_list s' = filter Q (cm_list s) \<Longrightarrow> \<forall>x \<in> set (cm_list s). P x \<longrightarrow> Q x \<Longrightarrow> firstItem P s' = firstItem P s"
proof -
  have "\<forall>x \<in> set xs. P x \<longrightarrow> Q x \<Longrightarrow> find P (filter Q xs) = find P xs" for xs
    by (induction xs) auto
  then show "cm_list s' = filter Q (cm_list s) \<Longrightarrow> \<forall>x \<in> set (cm_list s). P x \<longrightarrow> Q x \<Longrightarrow> ?thesis"
    by (simp add: firstItem_def)
qed

lemma named_add:
  assumes "named_inv f ty s" "fresh_item c s" "oc_type c = ty" "\<not> isValid (lookupNamed f ty s (m_name c))"
    "cm_list s' = cm_list s @ [copyOContact c]" "list_inv s'"
  shows "named_inv f ty s' \<and> lookupNamed f ty s' n = (if f n = f (m_name c) then copyOContact c else lookupNamed f ty s n)"
proof -
  have inv: "list_inv s" using assms(1) by (simp add: named_inv_def)
  have new: "\<forall>x \<in> set (cm_list s). oc_type x = ty \<longrightarrow> f (m_name x) \<noteq> f (m_name c)"
    using assms(4) lookupNamed_valid [OF inv] by blast
  have "names_unique f ty s'"
    using assms(1,3,5) new by (auto simp: named_inv_def names_unique_def)
  moreover have "lookupNamed f ty s' n = (if f n = f (m_name c) then copyOContact c else lookupNamed f ty s n)"
    unfolding lookupNamed_def using assms(3) new firstItem_cases [of "\<lambda>c. oc_type c = ty \<and> f (m_name c) = f n" s]
    by (subst firstItem_append [OF assms(5)]) auto
  ultimately show ?thesis using assms(6) by (simp add: named_inv_def)
qed

lemma named_drop:
  assumes "named_inv f ty s" "isValid (lookupNamed f ty s n)"
    "cm_list s' = filter (\<lambda>x. \<not> oc_eq x (lookupNamed f ty s n)) (cm_list s)" "list_inv s'"
  shows "named_inv f ty s' \<and> lookupNamed f ty s' m = (if f m = f n then dummyItem else lookupNamed f ty s m)"
proof -
  let ?c = "lookupNamed f ty s n"
  have inv: "list_inv s" "names_unique f ty s" using assms(1) by (simp_all add: named_inv_def)
  have c: "?c \<in> set (cm_list s)" "oc_type ?c = ty" "f (m_name ?c) = f n"
    using firstItem_cases [of "\<lambda>c. oc_type c = ty \<and> f (m_name c) = f n" s] assms(2)
    by (auto simp: lookupNamed_def)
  note ok = list_inv_member [OF inv(1) c(1)]
  have eq: "oc_eq x ?c \<longleftrightarrow> x = ?c" if "x \<in> set (cm_list s)" for x
    using inv(1) that c(1) oc_eq_idkey [OF ok(1)] oc_eq_refl [OF ok(1)]
    by (auto simp: list_inv_def distinct_map dest: inj_onD)
  have inj: "inj_on (\<lambda>c. f (m_name c)) {x \<in> set (cm_list s). oc_type x = ty}"
    using inv(2) by (simp add: names_unique_def distinct_map)
  have only: "x = ?c" if "x \<in> set (cm_list s)" "oc_type x = ty" "f (m_name x) = f n" for x
    by (rule inj_onD [OF inj]) (use that c in auto)
  have "lookupNamed f ty s' m = dummyItem" if "f m = f n"
    using firstItem_cases [of "\<lambda>c. oc_type c = ty \<and> f (m_name c) = f m" s'] only eq that assms(3)
    by (auto simp: lookupNamed_def)
  moreover have "lookupNamed f ty s' m = lookupNamed f ty s m" if "f m \<noteq> f n"
    unfolding lookupNamed_def using that c(3) eq
    by (intro firstItem_filter [OF assms(3)]) (auto simp: lookupNamed_def)
  moreover have "filter (\<lambda>x. oc_type x = ty) (cm_list s')
      = filter (\<lambda>x. \<not> oc_eq x ?c) (filter (\<lambda>x. oc_type x = ty) (cm_list s))"
    by (simp add: assms(3) conj_commute)
  then have "names_unique f ty s'"
    using inv(2) by (simp add: names_unique_def distinct_map_filter del: filter_filter)
  ultimately show ?thesis using assms(4) by (simp add: named_inv_def)
qed

interpretation groups: item_store "newGroup toLower" "removeGroupByName toLower" "findGroup toLower"
    "\<lambda>n n'. toLower n = toLower n'"
    "\<lambda>c s. fresh_item c s \<and> oc_type c = ROSTER_GROUP \<and> m_name c \<noteq> []" "named_inv toLower ROSTER_GROUP"
    for toLower
proof unfold_locales
  fix s :: contactManager and c :: ocontact and k k' :: qstring
  have look: "findGroup toLower = lookupNamed toLower ROSTER_GROUP"
    by (simp add: fun_eq_iff findGroup_def lookupNamed_def)
  show "equivp (\<lambda>n n'. toLower n = toLower n')" by (rule equivpI) (auto simp: reflp_def symp_def transp_def)
  show "findGroup toLower s k = dummyItem" if "named_inv toLower ROSTER_GROUP s" "\<not> isValid (findGroup toLower s k)"
    using that lookupNamed_valid [of s toLower ROSTER_GROUP k]
      firstItem_cases [of "\<lambda>c. oc_type c = ROSTER_GROUP \<and> toLower (m_name c) = toLower k" s]
    by (auto simp: look named_inv_def lookupNamed_def)
  show "findGroup toLower s k = findGroup toLower s k'" if "toLower k = toLower k'"
    using that by (simp add: findGroup_def)
  show "isValid c" if "fresh_item c s \<and> oc_type c = ROSTER_GROUP \<and> m_name c \<noteq> []"
    using that by (simp add: fresh_item_def item_ok_isValid)
  show "fst (newGroup toLower c s) \<and> named_inv toLower ROSTER_GROUP (snd (newGroup toLower c s))
      \<and> (\<forall>k. findGroup toLower (snd (newGroup toLower c s)) k
          = (if toLower k = toLower (m_name c) then copyOContact c else findGroup toLower s k))"
    if "named_inv toLower ROSTER_GROUP s" "fresh_item c s \<and> oc_type c = ROSTER_GROUP \<and> m_name c \<noteq> []"
      "\<not> isValid (findGroup toLower s (m_name c))"
    using that named_add [OF that(1), of c "snd (newGroup toLower c s)"]
    by (simp add: look operations_eq newGroup_def named_inv_def fresh_item_def list_inv_add)
  show "fst (removeGroupByName toLower k s) \<and> named_inv toLower ROSTER_GROUP (snd (removeGroupByName toLower k s))
      \<and> (\<forall>k'. findGroup toLower (snd (removeGroupByName toLower k s)) k'
          = (if toLower k' = toLower k then dummyItem else findGroup toLower s k'))"
    if "named_inv toLower ROSTER_GROUP s" "isValid (findGroup toLower s k)"
  proof -
    let ?c = "findGroup toLower s k" and ?s' = "snd (removeGroupByName toLower k s)"
    have "?c \<in> set (cm_list s)"
      using that(2) firstItem_cases [of "\<lambda>c. oc_type c = ROSTER_GROUP \<and> toLower (m_name c) = toLower k" s]
      by (auto simp: findGroup_def)
    with that(1) have c: "item_ok ?c" "\<forall>x \<in> set (cm_list s). idkey x = idkey ?c \<longrightarrow> oc_eq x ?c" "oc_eq ?c ?c"
      using list_inv_member [of s ?c] oc_eq_refl by (simp_all add: named_inv_def)
    have n: "fst (cmRemoveAll ?c (removeID ?c s)) \<noteq> 0"
      using \<open>?c \<in> set (cm_list s)\<close> c(3) by (auto simp: cmRemoveAll_def filter_empty_conv)
    have s': "?s' = cmEmit (GroupRemoved (m_name ?c)) (snd (cmRemoveAll ?c (removeID ?c s)))"
      using that(2) n by (auto simp: removeGroupByName_def removeGroup_def Let_def split: prod.splits)
    have "list_inv ?s'" using that(1) c list_inv_remove by (simp add: s' named_inv_def)
    moreover have "cm_list ?s' = filter (\<lambda>x. \<not> oc_eq x ?c) (cm_list s)" by (simp add: s')
    moreover have "fst (removeGroupByName toLower k s)"
      using that(2) n by (auto simp: removeGroupByName_def removeGroup_def Let_def split: prod.splits)
    ultimately show ?thesis using named_drop [of toLower ROSTER_GROUP s k ?s'] that by (simp add: look)
  qed
qed

interpretation contacts: item_store newContact removeContactByName findContact "(=)"
    "\<lambda>c s. fresh_item c s \<and> oc_type c = ROSTER_CONTACT" "named_inv (\<lambda>n. n) ROSTER_CONTACT"
proof unfold_locales
  fix s :: contactManager and c :: ocontact and k k' :: qstring
  have look: "findContact = lookupNamed (\<lambda>n. n) ROSTER_CONTACT"
    by (simp add: fun_eq_iff findContact_def lookupNamed_def)
  show "equivp ((=) :: qstring \<Rightarrow> _)" by (rule identity_equivp)
  show "findContact s k = dummyItem" if "named_inv (\<lambda>n. n) ROSTER_CONTACT s" "\<not> isValid (findContact s k)"
    using that lookupNamed_valid [of s "\<lambda>n. n" ROSTER_CONTACT k]
      firstItem_cases [of "\<lambda>c. oc_type c = ROSTER_CONTACT \<and> m_name c = k" s]
    by (auto simp: look named_inv_def lookupNamed_def)
  show "findContact s k = findContact s k'" if "k = k'" using that by simp
  show "isValid c" if "fresh_item c s \<and> oc_type c = ROSTER_CONTACT"
    using that by (simp add: fresh_item_def item_ok_isValid)
  show "fst (newContact c s) \<and> named_inv (\<lambda>n. n) ROSTER_CONTACT (snd (newContact c s))
      \<and> (\<forall>k. findContact (snd (newContact c s)) k = (if k = m_name c then copyOContact c else findContact s k))"
    if "named_inv (\<lambda>n. n) ROSTER_CONTACT s" "fresh_item c s \<and> oc_type c = ROSTER_CONTACT"
      "\<not> isValid (findContact s (m_name c))"
  proof -
    have "\<not> cmContains s c" using that(2) cmContains_idkey by (auto simp: fresh_item_def)
    then show ?thesis using that named_add [OF that(1), of c "snd (newContact c s)"]
      by (simp add: look operations_eq newContact_def named_inv_def fresh_item_def list_inv_add)
  qed
  show "fst (removeContactByName k s) \<and> named_inv (\<lambda>n. n) ROSTER_CONTACT (snd (removeContactByName k s))
      \<and> (\<forall>k'. findContact (snd (removeContactByName k s)) k' = (if k' = k then dummyItem else findContact s k'))"
    if "named_inv (\<lambda>n. n) ROSTER_CONTACT s" "isValid (findContact s k)"
  proof -
    let ?c = "findContact s k" and ?s' = "snd (removeContactByName k s)"
    have "?c \<in> set (cm_list s)"
      using that(2) firstItem_cases [of "\<lambda>c. oc_type c = ROSTER_CONTACT \<and> m_name c = k" s]
      by (auto simp: findContact_def)
    with that(1) have c: "item_ok ?c" "\<forall>x \<in> set (cm_list s). idkey x = idkey ?c \<longrightarrow> oc_eq x ?c" "oc_eq ?c ?c"
      using list_inv_member [of s ?c] oc_eq_refl by (simp_all add: named_inv_def)
    have n: "fst (cmRemoveAll ?c (removeID ?c s)) \<noteq> 0"
      using \<open>?c \<in> set (cm_list s)\<close> c(3) by (auto simp: cmRemoveAll_def filter_empty_conv)
    have s': "?s' = cmEmit (ContactRemoved (m_name ?c)) (snd (cmRemoveAll ?c (removeID ?c s)))"
      using that(2) n by (auto simp: removeContactByName_def removeContact_def Let_def split: prod.splits)
    have "list_inv ?s'" using that(1) c list_inv_remove by (simp add: s' named_inv_def)
    moreover have "cm_list ?s' = filter (\<lambda>x. \<not> oc_eq x ?c) (cm_list s)" by (simp add: s')
    moreover have "fst (removeContactByName k s)"
      using that(2) n by (auto simp: removeContactByName_def removeContact_def Let_def split: prod.splits)
    ultimately show ?thesis using named_drop [of "\<lambda>n. n" ROSTER_CONTACT s k ?s'] that by (simp add: look)
  qed
qed

subsection \<open>What the callers see\<close>

text \<open>
  C38: A group is added under a name that no group of the list has, with ids that no item of the
  list has.  It is found under every spelling of its name that differs only in case, and removing it by any
  of them succeeds and leaves the list of items as it was before, and so every search: for groups by name and
  number, for contacts by name, number and group, and for items by name and type.
\<close>

theorem group_added_and_removed:
  assumes "named_inv toLower ROSTER_GROUP s" "fresh_item c s" "oc_type c = ROSTER_GROUP" "m_name c \<noteq> []"
    "\<not> isValid (findGroup toLower s (m_name c))" "toLower n = toLower (m_name c)"
  shows "findGroup toLower (snd (newGroup toLower c s)) n = copyOContact c
    \<and> fst (removeGroupByName toLower n (snd (newGroup toLower c s)))
    \<and> (let s' = snd (removeGroupByName toLower n (snd (newGroup toLower c s)))
       in cm_list s' = cm_list s \<and> findGroup toLower s' = findGroup toLower s \<and> findGroupById s' = findGroupById s
          \<and> findContact s' = findContact s \<and> findContactById s' = findContactById s
          \<and> findContactInGroup toLower s' = findContactInGroup toLower s \<and> findItem s' = findItem s)"
proof -
  let ?t = "snd (newGroup toLower c s)" let ?s' = "snd (removeGroupByName toLower n ?t)"
  have found: "findGroup toLower ?t n = copyOContact c"
    using groups.add_spec [OF assms(1) _ assms(5)] assms(2-4,6) by simp
  have dropped: "fst (removeGroupByName toLower n ?t) \<and> findGroup toLower ?s' = findGroup toLower s"
    by (rule groups.add_then_drop) (use assms in simp_all)
  have valid: "isValid (copyOContact c)" "item_ok (copyOContact c)" using assms(2) by (simp_all add: fresh_item_def item_ok_isValid)
  have t: "cm_list ?t = cm_list s @ [copyOContact c]" using assms(4,5) by (simp add: newGroup_def)
  have "cm_list ?s' = filter (\<lambda>x. \<not> oc_eq x (copyOContact c)) (cm_list ?t)"
    using found valid by (auto simp: removeGroupByName_def removeGroup_def cmRemoveAll_def Let_def split: prod.splits)
  moreover have "\<forall>x \<in> set (cm_list s). \<not> oc_eq x (copyOContact c)"
    using assms(2) oc_eq_idkey [OF valid(2)] by (auto simp: fresh_item_def image_iff)
  ultimately have "cm_list ?s' = cm_list s" using oc_eq_refl [OF valid(2)] by (simp add: t)
  moreover from this have "firstItem P ?s' = firstItem P s" for P by (simp add: firstItem_def)
  ultimately show ?thesis
    using found dropped
    by (simp add: findGroupById_def findContact_def findContactById_def findContactInGroup_def findItem_def fun_eq_iff Let_def
        split: option.split)
qed

lemma cm_list_mkContactManager [simp]: "cm_list mkContactManager = []"
  by (simp add: mkContactManager_def)

lemma empty_manager_named: "named_inv f ty mkContactManager"
  by (simp add: named_inv_def names_unique_def list_inv_def mkContactManager_def)

theorem group_added_and_removed_witness:
  "let c = (itemWithId ROSTER_GROUP 1)\<lparr>m_name := qstr ''Buddies''\<rparr>; s = snd (newGroup id c mkContactManager)
   in findGroup id (snd (removeGroupByName id (qstr ''Buddies'') s)) = findGroup id mkContactManager"
  using group_added_and_removed [of id mkContactManager "(itemWithId ROSTER_GROUP 1)\<lparr>m_name := qstr ''Buddies''\<rparr>" "qstr ''Buddies''"]
  by (simp add: empty_manager_named fresh_item_def item_ok_def itemWithId_def ROSTER_GROUP_def oc_type_def
      dummyItem_def findGroup_def firstItem_def isValid_def qstr_def Let_def)

text \<open>
  C15: \<^verbatim>\<open>updateGroup\<close> replaces the group of that name, whatever its case, ids and TLVs: it is
  the group found under the name afterwards, the lookups of all other names are unchanged and
  the names stay unique.
\<close>

theorem updateGroup_replaces:
  assumes "named_inv toLower ROSTER_GROUP s" "oc_type c = ROSTER_GROUP"
    "fresh_item c (dropOld (findGroup toLower s (m_name c)) s)"
  shows "fst (updateGroup toLower c s) \<and> named_inv toLower ROSTER_GROUP (snd (updateGroup toLower c s))
    \<and> findGroup toLower (snd (updateGroup toLower c s)) n
      = (if toLower n = toLower (m_name c) then copyOContact c else findGroup toLower s n)"
proof -
  let ?old = "findGroup toLower s (m_name c)" let ?d = "dropOld ?old s"
  have look: "findGroup toLower = lookupNamed toLower ROSTER_GROUP"
    by (simp add: fun_eq_iff findGroup_def lookupNamed_def)
  have d: "named_inv toLower ROSTER_GROUP ?d \<and> (\<forall>m. findGroup toLower ?d m
      = (if toLower m = toLower (m_name c) then dummyItem else findGroup toLower s m))"
  proof (cases "isValid ?old")
    case True
    have "?old \<in> set (cm_list s)"
      using True firstItem_cases [of "\<lambda>x. oc_type x = ROSTER_GROUP \<and> toLower (m_name x) = toLower (m_name c)" s]
      by (auto simp: findGroup_def)
    note ok = list_inv_member [OF conjunct1 [OF assms(1) [unfolded named_inv_def]] this]
    have "list_inv ?d"
      using True assms(1) list_inv_remove [of s, OF _ ok] by (simp add: named_inv_def dropOld_def)
    moreover have "cm_list ?d = filter (\<lambda>x. \<not> oc_eq x ?old) (cm_list s)" using True by (simp add: dropOld_def)
    ultimately show ?thesis using named_drop [of toLower ROSTER_GROUP s "m_name c" ?d] assms(1) True
      by (simp add: look)
  next
    case False
    then have "findGroup toLower s m = dummyItem" if "toLower m = toLower (m_name c)" for m
      using groups.lookup_dummy [OF assms(1)] that by (simp add: findGroup_def)
    with False assms(1) show ?thesis by (auto simp: dropOld_def)
  qed
  then have free: "\<not> isValid (findGroup toLower ?d (m_name c))" by simp
  have nc: "\<not> cmContains ?d c" using assms(3) cmContains_idkey by (auto simp: fresh_item_def)
  let ?s' = "snd (updateGroup toLower c s)"
  have s': "?s' = cmEmit (GroupUpdated c) (cmAppend c (addID c ?d))" using nc by (simp add: operations_eq)
  have "fst (updateGroup toLower c s)" using nc by (simp add: updateGroup_def dropOld_def Let_def)
  moreover have "list_inv ?s'" using d assms(3) by (simp add: s' named_inv_def fresh_item_def list_inv_add)
  moreover have "cm_list ?s' = cm_list ?d @ [copyOContact c]" by (simp add: s')
  ultimately show ?thesis
    using named_add [of toLower ROSTER_GROUP ?d c ?s' n] d free assms(2,3) by (simp add: look)
qed

theorem updateGroup_replaces_witness:
  "let c = (itemWithId ROSTER_GROUP 7)\<lparr>m_name := qstr ''Buddies''\<rparr>
   in findGroup id (snd (updateGroup id c mkContactManager)) (qstr ''Buddies'') = copyOContact c"
  using updateGroup_replaces [of id mkContactManager "(itemWithId ROSTER_GROUP 7)\<lparr>m_name := qstr ''Buddies''\<rparr>"
      "qstr ''Buddies''"]
  by (simp add: empty_manager_named fresh_item_def item_ok_def itemWithId_def ROSTER_GROUP_def oc_type_def
      dummyItem_def findGroup_def firstItem_def isValid_def dropOld_def)

text \<open>
  C16: \<^verbatim>\<open>updateContact\<close> loses an item when a contact is in two groups.  It looks for the item to
  replace by name only, so an update of the second one with new TLVs removes the first one and
  then finds the second still there, changes nothing and reports a failure.
\<close>

theorem updateContact_loses_other_group:
  assumes "list_inv s" "findContact s (m_name b) = a" "a \<in> set (cm_list s)" "b \<in> set (cm_list s)" "a \<noteq> b"
  shows "\<not> fst (updateContact (b\<lparr>m_tlvList := ts\<rparr>) s)
    \<and> cm_list (snd (updateContact (b\<lparr>m_tlvList := ts\<rparr>) s)) = filter (\<lambda>x. x \<noteq> a) (cm_list s)"
proof -
  let ?b = "b\<lparr>m_tlvList := ts\<rparr>"
  note ok = list_inv_member [OF assms(1)]
  have eq: "oc_eq x a \<longleftrightarrow> x = a" if "x \<in> set (cm_list s)" for x
    using assms(1) that assms(3) oc_eq_idkey [OF ok(1) [OF assms(3)]] oc_eq_refl [OF ok(1) [OF assms(3)]]
    by (auto simp: list_inv_def distinct_map dest: inj_onD)
  have list: "cm_list (dropOld a s) = filter (\<lambda>x. x \<noteq> a) (cm_list s)"
    using item_ok_isValid [OF ok(1) [OF assms(3)]] eq by (auto simp: dropOld_def intro: filter_cong)
  have "oc_eq b ?b = oc_eq b b" by (simp add: oc_eq_def oc_gid_def oc_bid_def oc_type_def)
  then have "cmContains (dropOld a s) ?b"
    using oc_eq_refl [OF ok(1) [OF assms(4)]] assms(4,5) list by (auto simp: cmContains_def list_ex_iff)
  then have "updateContact ?b s = (False, dropOld a s)"
    using assms(2) by (simp add: updateContact_def dropOld_def Let_def)
  with list show ?thesis by simp
qed

theorem updateContact_loses_other_group_witness:
  "let a = (itemWithId ROSTER_CONTACT 1)\<lparr>m_gid := 1\<rparr>; b = (itemWithId ROSTER_CONTACT 2)\<lparr>m_gid := 2\<rparr>;
       s = mkContactManager\<lparr>cm_list := [a, b], itemIdSet := {1, 2}\<rparr>
   in cm_list (snd (updateContact (b\<lparr>m_tlvList := [mkTLV 0x131 1 [65]]\<rparr>) s)) = [b]"
proof -
  let ?a = "(itemWithId ROSTER_CONTACT 1)\<lparr>m_gid := 1\<rparr>" and ?b = "(itemWithId ROSTER_CONTACT 2)\<lparr>m_gid := 2\<rparr>"
  let ?s = "mkContactManager\<lparr>cm_list := [?a, ?b], itemIdSet := {1, 2}\<rparr>"
  note defs = itemWithId_def ROSTER_CONTACT_def ROSTER_GROUP_def oc_type_def oc_bid_def dummyItem_def
    mkContactManager_def
  have "list_inv ?s" by (simp add: list_inv_def item_ok_def idkey_def id_used_def defs)
  moreover have "findContact ?s (m_name ?b) = ?a" by (simp add: findContact_def firstItem_def defs)
  ultimately show ?thesis
    using updateContact_loses_other_group [of ?s ?b ?a "[mkTLV 0x131 1 [65]]"] by (simp add: defs)
qed

end
