(* ===== verification/Oscar_Rate.thy ===== *)
theory Oscar_Rate
  imports Oscar_Transfer
begin

text \<open>
  Rate limiting: \<^verbatim>\<open>rateclass.cpp\<close>.  A class has a moving average of the time between its
  packets, a queue and a single-shot timer.  The clock stands still while an event is
  handled: \<open>now\<close> is its reading in milliseconds and \<open>rc_started\<close> the reading at the last
  restart of \<^verbatim>\<open>m_packetTimer\<close>.  A pending \<^verbatim>\<open>QTimer::singleShot\<close> is the time it was set and
  its interval; Qt's coarse timers keep an interval to within five per cent, so that it may fire
  up to a twentieth of it early, and any timer may fire late.
  \<^verbatim>\<open>dataReady\<close> is a direct call of the manager, which writes the transfer to the stream, so an
  operation returns the transfers it emits, in order.  A division by a zero window size is
  \<open>None\<close>.
\<close>

subsection \<open>State\<close>

record rateInfo =
  ri_classId :: u16
  ri_windowSize :: u32
  ri_initialLevel :: u32
  ri_clearLevel :: u32
  ri_alertLevel :: u32
  ri_limitLevel :: u32
  ri_disconnectLevel :: u32
  ri_currentLevel :: u32
  ri_maxLevel :: u32
  ri_lastTime :: u32
  ri_currentState :: u8

record rateClass =
  m_rateInfo :: rateInfo
  m_members :: "(int \<times> int) list"
  m_packetQueue :: "anyTransfer list"
  rc_started :: nat
  m_waitingToSend :: bool
  rc_shots :: "(nat \<times> nat) list"

definition RATE_SAFETY_TIME :: u32 where "RATE_SAFETY_TIME = 50"

text \<open>The constructor leaves the rate information uninitialised.\<close>

definition mkRateClass :: "rateInfo \<Rightarrow> nat \<Rightarrow> rateClass" where
  "mkRateClass ri now = \<lparr>m_rateInfo = ri, m_members = [], m_packetQueue = [], rc_started = now,
     m_waitingToSend = False, rc_shots = []\<rparr>"

definition rateClassId :: "rateClass \<Rightarrow> u16" where "rateClassId rc = ri_classId (m_rateInfo rc)"

definition setRateInfo :: "rateInfo \<Rightarrow> rateClass \<Rightarrow> rateClass" where
  "setRateInfo ri rc = rc\<lparr>m_rateInfo := ri\<rparr>"

definition addMember :: "u16 \<Rightarrow> u16 \<Rightarrow> rateClass \<Rightarrow> rateClass" where
  "addMember family subtype rc = rc\<lparr>m_members := m_members rc @ [(uint family, uint subtype)]\<rparr>"

definition addMemberSnac :: "snac \<Rightarrow> rateClass \<Rightarrow> rateClass" where
  "addMemberSnac s rc = addMember (snac_family s) (snac_subtype s) rc"

definition isMember :: "u16 \<Rightarrow> u16 \<Rightarrow> rateClass \<Rightarrow> bool" where
  "isMember family subtype rc \<longleftrightarrow> list_ex (\<lambda>(f, s). f = uint family \<and> s = uint subtype) (m_members rc)"

definition isMemberSnac :: "snac \<Rightarrow> rateClass \<Rightarrow> bool" where
  "isMemberSnac s rc \<longleftrightarrow> list_ex (\<lambda>(f, t). f = uint (snac_family s) \<and> t = uint (snac_subtype s)) (m_members rc)"

definition dequeue :: "rateClass \<Rightarrow> rateClass" where
  "dequeue rc = rc\<lparr>m_packetQueue := tl (m_packetQueue rc)\<rparr>"

definition queueIsEmpty :: "rateClass \<Rightarrow> bool" where
  "queueIsEmpty rc \<longleftrightarrow> m_packetQueue rc = []"

definition dumpQueue :: "rateClass \<Rightarrow> rateClass" where
  "dumpQueue rc = rc\<lparr>m_packetQueue := []\<rparr>"

subsection \<open>Levels\<close>

text \<open>\<^verbatim>\<open>QTime::elapsed\<close> wraps to zero a day after the last restart.\<close>

definition elapsed :: "nat \<Rightarrow> rateClass \<Rightarrow> u32" where
  "elapsed now rc = of_nat ((now - rc_started rc) mod 86400000)"

definition calcNewLevel :: "u32 \<Rightarrow> rateClass \<Rightarrow> u32 option" where
  "calcNewLevel timeDifference rc =
     (let ri = m_rateInfo rc
      in if ri_windowSize ri = 0 then None
         else
           let newLevel = ((ri_windowSize ri - 1) * ri_currentLevel ri + timeDifference) div ri_windowSize ri
           in Some (if newLevel > ri_initialLevel ri then ri_initialLevel ri else newLevel))"

definition timeToInitialLevel :: "nat \<Rightarrow> rateClass \<Rightarrow> int option" where
  "timeToInitialLevel now rc =
     (case calcNewLevel (elapsed now rc) rc of
        None \<Rightarrow> None
      | Some newLevel \<Rightarrow>
          let ri = m_rateInfo rc
          in Some (if newLevel < ri_initialLevel ri
                   then sint (ri_initialLevel ri * ri_windowSize ri - (ri_windowSize ri - 1) * ri_currentLevel ri)
                   else 0))"

definition timeToNextSend :: "nat \<Rightarrow> rateClass \<Rightarrow> int option" where
  "timeToNextSend now rc =
     (let ri = m_rateInfo rc; windowSize = ri_windowSize ri
      in case calcNewLevel (elapsed now rc) rc of
           None \<Rightarrow> None
         | Some newLevel \<Rightarrow>
             let maxPacket = ri_alertLevel ri + RATE_SAFETY_TIME
             in Some (if newLevel < maxPacket \<or> newLevel < ri_disconnectLevel ri
                      then sint (windowSize * maxPacket - (windowSize - 1) * ri_currentLevel ri)
                      else 0))"

definition updateRateInfo :: "nat \<Rightarrow> rateClass \<Rightarrow> rateClass option" where
  "updateRateInfo now rc =
     (case calcNewLevel (elapsed now rc) rc of
        None \<Rightarrow> None
      | Some newLevel \<Rightarrow> Some (rc\<lparr>m_rateInfo := (m_rateInfo rc)\<lparr>ri_currentLevel := newLevel\<rparr>, rc_started := now\<rparr>))"

lemma updateRateInfo_queue:
  "updateRateInfo now rc = Some rc' \<Longrightarrow> m_packetQueue rc' = m_packetQueue rc \<and> m_waitingToSend rc' = m_waitingToSend rc
    \<and> rc_shots rc' = rc_shots rc \<and> m_members rc' = m_members rc \<and> rc_started rc' = now"
  by (auto simp: updateRateInfo_def split: option.splits)

subsection \<open>Sending\<close>

text \<open>
  \<^verbatim>\<open>slotSend\<close> calls \<^verbatim>\<open>setupTimer\<close> while the queue is not empty, and \<^verbatim>\<open>setupTimer\<close> calls
  \<^verbatim>\<open>slotSend\<close> when there is nothing to wait for.
\<close>

definition sendFirst :: "nat \<Rightarrow> rateClass \<Rightarrow> rateClass option" where
  "sendFirst now rc =
     (case updateRateInfo now (dequeue rc) of
        None \<Rightarrow> None
      | Some rc \<Rightarrow> Some (rc\<lparr>m_waitingToSend := False\<rparr>))"

lemma sendFirst_queue:
  "sendFirst now rc = Some rc' \<Longrightarrow> m_packetQueue rc' = tl (m_packetQueue rc) \<and> \<not> m_waitingToSend rc'
    \<and> rc_shots rc' = rc_shots rc \<and> m_members rc' = m_members rc \<and> rc_started rc' = now"
  by (auto simp: sendFirst_def dequeue_def dest: updateRateInfo_queue split: option.splits)

function slotSend :: "nat \<Rightarrow> rateClass \<Rightarrow> (anyTransfer list \<times> rateClass) option"
and setupTimer :: "nat \<Rightarrow> rateClass \<Rightarrow> (anyTransfer list \<times> rateClass) option" where
  "slotSend now rc =
     (if m_packetQueue rc = [] then Some ([], rc)
      else case sendFirst now rc of
             None \<Rightarrow> None
           | Some rc' \<Rightarrow>
               if m_packetQueue rc' \<noteq> []
               then (case setupTimer now rc' of
                       None \<Rightarrow> None
                     | Some (sent, rc'') \<Rightarrow> Some (hd (m_packetQueue rc) # sent, rc''))
               else Some ([hd (m_packetQueue rc)], rc'))"
| "setupTimer now rc =
     (if m_waitingToSend rc then Some ([], rc)
      else
        let rc = rc\<lparr>m_waitingToSend := True\<rparr>
        in case timeToNextSend now rc of
             None \<Rightarrow> None
           | Some ttns \<Rightarrow>
               if ttns \<le> 0 then slotSend now rc
               else Some ([], rc\<lparr>rc_shots := rc_shots rc @ [(now, nat ttns)]\<rparr>))"
  by pat_completeness auto
termination
  by (relation "measure (\<lambda>x. case x of Inl (now, rc) \<Rightarrow> 2 * length (m_packetQueue rc)
        | Inr (now, rc) \<Rightarrow> 2 * length (m_packetQueue rc) + 1)")
    (auto dest!: sendFirst_queue simp: neq_Nil_conv)

declare slotSend.simps [simp del] setupTimer.simps [simp del]

definition enqueue :: "nat \<Rightarrow> anyTransfer \<Rightarrow> rateClass \<Rightarrow> (anyTransfer list \<times> rateClass) option" where
  "enqueue now t rc = setupTimer now (rc\<lparr>m_packetQueue := m_packetQueue rc @ [t]\<rparr>)"

text \<open>The event loop fires a single-shot timer, not before the earliest time Qt's accuracy allows.\<close>

definition earliest :: "nat \<times> nat \<Rightarrow> nat" where
  "earliest shot = (case shot of (start, interval) \<Rightarrow> start + (interval - interval div 20))"

definition fireTimer :: "nat \<Rightarrow> rateClass \<Rightarrow> (anyTransfer list \<times> rateClass) option" where
  "fireTimer now rc = slotSend now (rc\<lparr>rc_shots := tl (rc_shots rc)\<rparr>)"

subsection \<open>The queue as a port\<close>

text \<open>
  What the manager relies on: a port takes transfers and events and emits transfers, and
  what it has emitted followed by what it holds is what it has taken.
\<close>

locale fifo_port =
  fixes push :: "nat \<Rightarrow> 'a \<Rightarrow> 's \<Rightarrow> ('a list \<times> 's) option"
    and fire :: "nat \<Rightarrow> 's \<Rightarrow> ('a list \<times> 's) option"
    and held :: "'s \<Rightarrow> 'a list"
  assumes push_conserves: "push now x s = Some (sent, s') \<Longrightarrow> sent @ held s' = held s @ [x]"
    and fire_conserves: "fire now s = Some (sent, s') \<Longrightarrow> sent @ held s' = held s"
begin

inductive run :: "'s \<Rightarrow> 's \<Rightarrow> 'a list \<Rightarrow> 'a list \<Rightarrow> bool" where
  run_init: "run s s [] []"
| run_push: "run s0 s ins outs \<Longrightarrow> push now x s = Some (sent, s') \<Longrightarrow> run s0 s' (ins @ [x]) (outs @ sent)"
| run_fire: "run s0 s ins outs \<Longrightarrow> fire now s = Some (sent, s') \<Longrightarrow> run s0 s' ins (outs @ sent)"

lemma run_conserves: "run s0 s ins outs \<Longrightarrow> outs @ held s = held s0 @ ins"
proof (induction rule: run.induct)
  case (run_push s0 s ins outs now x sent s')
  then show ?case using push_conserves [OF run_push.hyps(2)] by (metis append.assoc)
next
  case (run_fire s0 s ins outs now sent s')
  then show ?case using fire_conserves [OF run_fire.hyps(2)] by (metis append.assoc)
qed simp

end

lemma send_conserves:
  "slotSend now rc = Some (sent, rc') \<Longrightarrow> sent @ m_packetQueue rc' = m_packetQueue rc"
  "setupTimer now rc = Some (sent, rc') \<Longrightarrow> sent @ m_packetQueue rc' = m_packetQueue rc"
proof (induction now rc and now rc arbitrary: sent rc' and sent rc' rule: slotSend_setupTimer.induct)
  case (1 now rc)
  show ?case
  proof (cases "m_packetQueue rc = []")
    case True
    with 1(2) show ?thesis by (auto simp: slotSend.simps)
  next
    case False
    with 1(2) obtain rc1 where s: "sendFirst now rc = Some rc1" by (subst (asm) slotSend.simps) (auto split: option.splits)
    note q = sendFirst_queue [OF s]
    show ?thesis
    proof (cases "m_packetQueue rc1 = []")
      case True
      with 1(2) False s q show ?thesis by (subst (asm) slotSend.simps) (auto simp: neq_Nil_conv)
    next
      case False
      with 1(2) \<open>m_packetQueue rc \<noteq> []\<close> s obtain sent1 where t: "setupTimer now rc1 = Some (sent1, rc')"
          "sent = hd (m_packetQueue rc) # sent1"
        by (subst (asm) slotSend.simps) (auto split: option.splits)
      from 1(1) [OF \<open>m_packetQueue rc \<noteq> []\<close> s False t(1)] q t(2) \<open>m_packetQueue rc \<noteq> []\<close>
      show ?thesis by simp
    qed
  qed
next
  case (2 now rc)
  from 2(2) show ?case
    by (subst (asm) setupTimer.simps)
      (auto simp: Let_def split: if_splits option.splits dest!: 2(1) [OF _ refl])
qed

interpretation rate_port: fifo_port enqueue fireTimer m_packetQueue
  by unfold_locales (auto simp: enqueue_def fireTimer_def dest!: send_conserves)

subsection \<open>The timer\<close>

text \<open>Exactly one timer is pending while there is something to send, none otherwise.\<close>

definition timer_inv :: "rateClass \<Rightarrow> bool" where
  "timer_inv rc \<longleftrightarrow> (m_waitingToSend rc \<longleftrightarrow> m_packetQueue rc \<noteq> [])
     \<and> length (rc_shots rc) = (if m_waitingToSend rc then 1 else 0)"

lemma send_timer_inv:
  "slotSend now rc = Some (sent, rc') \<Longrightarrow> m_packetQueue rc \<noteq> [] \<Longrightarrow> rc_shots rc = [] \<Longrightarrow> timer_inv rc'"
  "setupTimer now rc = Some (sent, rc') \<Longrightarrow> m_packetQueue rc \<noteq> [] \<Longrightarrow> rc_shots rc = []
    \<Longrightarrow> \<not> m_waitingToSend rc \<Longrightarrow> timer_inv rc'"
proof (induction now rc and now rc arbitrary: sent rc' and sent rc' rule: slotSend_setupTimer.induct)
  case (1 now rc)
  from 1(2,3) obtain rc1 where s: "sendFirst now rc = Some rc1" by (subst (asm) slotSend.simps) (auto split: option.splits)
  note q = sendFirst_queue [OF s]
  show ?case
  proof (cases "m_packetQueue rc1 = []")
    case True
    with 1(2-4) s q have "rc' = rc1" by (subst (asm) slotSend.simps) auto
    with True q 1(4) show ?thesis by (simp add: timer_inv_def)
  next
    case False
    with 1(2,3) s obtain sent1 where t: "setupTimer now rc1 = Some (sent1, rc')"
      by (subst (asm) slotSend.simps) (auto split: option.splits)
    from 1(1) [OF 1(3) s False t] False q 1(4) show ?thesis by simp
  qed
next
  case (2 now rc)
  from 2(2-5) show ?case
    by (subst (asm) setupTimer.simps)
      (auto simp: Let_def timer_inv_def split: if_splits option.splits dest!: 2(1) [OF _ refl])
qed

lemma timer_inv_enqueue:
  assumes "timer_inv rc" "enqueue now t rc = Some (sent, rc')"
  shows "timer_inv rc'"
proof (cases "m_waitingToSend rc")
  case True
  with assms show ?thesis by (auto simp: enqueue_def setupTimer.simps timer_inv_def)
next
  case False
  with assms send_timer_inv(2) [of now "rc\<lparr>m_packetQueue := m_packetQueue rc @ [t]\<rparr>" sent rc'] show ?thesis
    by (auto simp: enqueue_def timer_inv_def)
qed

lemma timer_inv_fire:
  assumes "timer_inv rc" "fireTimer now rc = Some (sent, rc')" "rc_shots rc \<noteq> []"
  shows "timer_inv rc'"
  using assms send_timer_inv(1) [of now "rc\<lparr>rc_shots := tl (rc_shots rc)\<rparr>" sent rc']
  by (cases "rc_shots rc") (auto simp: fireTimer_def timer_inv_def split: if_splits)

subsection \<open>The level\<close>

definition safe_level :: "rateInfo \<Rightarrow> nat" where
  "safe_level ri = unat (ri_alertLevel ri) + 50"

text \<open>Parameters of a class for which the 32-bit arithmetic does not overflow and a twentieth of the
  longest wait is less than the window times the safety time.\<close>

definition sane :: "rateInfo \<Rightarrow> bool" where
  "sane ri \<longleftrightarrow> 0 < unat (ri_windowSize ri) \<and> unat (ri_windowSize ri) * unat (ri_initialLevel ri) < 2 ^ 31
     \<and> safe_level ri \<le> unat (ri_initialLevel ri) \<and> unat (ri_disconnectLevel ri) \<le> safe_level ri
     \<and> unat (ri_currentLevel ri) \<le> unat (ri_initialLevel ri)
     \<and> unat (ri_alertLevel ri) \<le> 950 * unat (ri_windowSize ri)"

definition spent :: "rateInfo \<Rightarrow> nat" where
  "spent ri = (unat (ri_windowSize ri) - 1) * unat (ri_currentLevel ri)"

lemma unat_mult_u32: "unat x * unat y < 2 ^ 32 \<Longrightarrow> unat (x * y :: u32) = unat x * unat y"
  by (simp add: unat_word_ariths)

lemma unat_add_u32: "unat x + unat y < 2 ^ 32 \<Longrightarrow> unat (x + y :: u32) = unat x + unat y"
  by (simp add: unat_word_ariths)

lemma unat_diff_u32: "unat y \<le> unat x \<Longrightarrow> unat (x - y :: u32) = unat x - unat y"
  by (simp add: unat_sub word_le_nat_alt)

lemma sint_small_u32: "unat (x :: u32) < 2 ^ 31 \<Longrightarrow> sint x = int (unat x)"
proof -
  assume "unat x < 2 ^ 31"
  then have "int (unat x) < int (2 ^ 31)" by (simp only: of_nat_less_iff)
  then have "int (unat x) < 2 ^ 31" by (simp only: of_nat_power of_nat_numeral)
  then have "signed_take_bit 31 (int (unat x)) = int (unat x)" by (intro signed_take_bit_int_eq_self order_trans [OF _ of_nat_0_le_iff]) simp_all
  moreover have "sint x = signed_take_bit 31 (uint x)" by (simp only: sint_uint) simp
  ultimately show ?thesis by (simp only: uint_nat)
qed

lemma sane_bounds:
  assumes "sane ri"
  shows "spent ri < 2 ^ 31" "unat (ri_windowSize ri) * safe_level ri < 2 ^ 31" "safe_level ri < 2 ^ 31"
    "unat (ri_alertLevel ri + RATE_SAFETY_TIME) = safe_level ri"
    "unat ((ri_windowSize ri - 1) * ri_currentLevel ri) = spent ri"
    "unat (ri_windowSize ri * (ri_alertLevel ri + RATE_SAFETY_TIME)) = unat (ri_windowSize ri) * safe_level ri"
proof -
  let ?W = "unat (ri_windowSize ri)" and ?I = "unat (ri_initialLevel ri)" and ?C = "unat (ri_currentLevel ri)"
  from assms have W: "0 < ?W" "?W * ?I < 2 ^ 31" "safe_level ri \<le> ?I" "?C \<le> ?I" by (simp_all add: sane_def)
  have "spent ri \<le> ?W * ?I" unfolding spent_def using W(4) by (intro mult_le_mono) auto
  then show s: "spent ri < 2 ^ 31" using W(2) by (rule le_less_trans)
  have "?W * safe_level ri \<le> ?W * ?I" using W(3) by simp
  then show m: "?W * safe_level ri < 2 ^ 31" using W(2) by (rule le_less_trans)
  have "safe_level ri \<le> ?W * safe_level ri" using W(1) by simp
  then show l: "safe_level ri < 2 ^ 31" using m by (rule le_less_trans)
  have r: "unat RATE_SAFETY_TIME = 50" by (simp add: RATE_SAFETY_TIME_def)
  have "unat (ri_alertLevel ri) + unat RATE_SAFETY_TIME < 2 ^ 32" unfolding r using l by (simp add: safe_level_def)
  from unat_add_u32 [OF this] show a: "unat (ri_alertLevel ri + RATE_SAFETY_TIME) = safe_level ri"
    unfolding r safe_level_def .
  have "ri_windowSize ri \<noteq> 0" using W(1) by auto
  then have w1: "unat (ri_windowSize ri - 1) = ?W - 1" by (rule unat_minus_one)
  have "unat (ri_windowSize ri - 1) * ?C < 2 ^ 32" unfolding w1 using s unfolding spent_def by (rule less_trans) simp
  from unat_mult_u32 [OF this] show "unat ((ri_windowSize ri - 1) * ri_currentLevel ri) = spent ri"
    unfolding w1 spent_def .
  have "?W * unat (ri_alertLevel ri + RATE_SAFETY_TIME) < 2 ^ 32" unfolding a using m by (rule less_trans) simp
  from unat_mult_u32 [OF this]
  show "unat (ri_windowSize ri * (ri_alertLevel ri + RATE_SAFETY_TIME)) = ?W * safe_level ri" unfolding a .
qed

definition dayMs :: nat where "dayMs = 86400000"

lemma unat_elapsed: "unat (elapsed now rc) = (now - rc_started rc) mod dayMs"
  by (simp add: elapsed_def dayMs_def) (subst unat_of_nat_u32, simp_all add: less_trans [OF mod_less_divisor])

lemma calcNewLevel_sane:
  assumes "sane (m_rateInfo rc)" "unat e < dayMs"
  obtains l where "calcNewLevel e rc = Some l"
    "unat l = min (unat (ri_initialLevel (m_rateInfo rc)))
      ((spent (m_rateInfo rc) + unat e) div unat (ri_windowSize (m_rateInfo rc)))"
proof -
  let ?ri = "m_rateInfo rc"
  note b = sane_bounds [OF assms(1)]
  have W: "ri_windowSize ?ri \<noteq> 0" using assms(1) by (auto simp: sane_def)
  define x where "x = (ri_windowSize ?ri - 1) * ri_currentLevel ?ri"
  have "spent ?ri + unat e < 2 ^ 32" using b(1) assms(2) unfolding dayMs_def by simp
  then have "unat (x + e) = spent ?ri + unat e" using unat_add_u32 [of x e] by (simp only: b(5) x_def)
  then have n: "unat ((x + e) div ri_windowSize ?ri) = (spent ?ri + unat e) div unat (ri_windowSize ?ri)"
    by (simp only: unat_div_distrib)
  have min: "unat (if a > (c :: u32) then c else a) = min (unat c) (unat a)" for a c
    by (simp add: word_less_nat_alt min_def)
  have "calcNewLevel e rc = Some (if (x + e) div ri_windowSize ?ri > ri_initialLevel ?ri
      then ri_initialLevel ?ri else (x + e) div ri_windowSize ?ri)"
    unfolding calcNewLevel_def Let_def x_def using W by (simp only: if_False)
  then show thesis by (rule that) (simp only: min n)
qed

lemma timeToNextSend_sane:
  assumes "sane (m_rateInfo rc)"
  obtains (now) "timeToNextSend now rc = Some 0"
      "safe_level (m_rateInfo rc) * unat (ri_windowSize (m_rateInfo rc))
        \<le> spent (m_rateInfo rc) + unat (elapsed now rc)"
  | (wait) n where "timeToNextSend now rc = Some (int n)" "0 < n"
      "safe_level (m_rateInfo rc) * unat (ri_windowSize (m_rateInfo rc)) = spent (m_rateInfo rc) + n"
proof -
  let ?ri = "m_rateInfo rc" let ?W = "unat (ri_windowSize ?ri)"
  note b = sane_bounds [OF assms]
  have W: "0 < ?W" "safe_level ?ri \<le> unat (ri_initialLevel ?ri)" "unat (ri_disconnectLevel ?ri) \<le> safe_level ?ri"
    using assms by (simp_all add: sane_def)
  have e: "unat (elapsed now rc) < dayMs" by (simp add: unat_elapsed dayMs_def)
  obtain l where l: "calcNewLevel (elapsed now rc) rc = Some l"
    "unat l = min (unat (ri_initialLevel ?ri)) ((spent ?ri + unat (elapsed now rc)) div ?W)"
    by (rule calcNewLevel_sane [OF assms e])
  have low: "l < ri_alertLevel ?ri + RATE_SAFETY_TIME \<or> l < ri_disconnectLevel ?ri \<longleftrightarrow> unat l < safe_level ?ri"
    using W(3) by (auto simp: word_less_nat_alt b(4))
  show thesis
  proof (cases "unat l < safe_level ?ri")
    case False
    then have "safe_level ?ri \<le> (spent ?ri + unat (elapsed now rc)) div ?W" using l(2) by simp
    then have "safe_level ?ri * ?W \<le> spent ?ri + unat (elapsed now rc)"
      using W(1) by (simp add: less_eq_div_iff_mult_less_eq)
    with False l(1) low show thesis by (intro now) (simp_all add: timeToNextSend_def Let_def)
  next
    case True
    then have "(spent ?ri + unat (elapsed now rc)) div ?W < safe_level ?ri" using l(2) W(2) by simp
    then have lt: "spent ?ri + unat (elapsed now rc) < safe_level ?ri * ?W"
      using W(1) by (simp add: div_less_iff_less_mult)
    define n where "n = safe_level ?ri * ?W - spent ?ri"
    let ?w = "ri_windowSize ?ri * (ri_alertLevel ?ri + RATE_SAFETY_TIME)
        - (ri_windowSize ?ri - 1) * ri_currentLevel ?ri"
    have "spent ?ri \<le> ?W * safe_level ?ri" using lt by (simp add: mult.commute)
    then have "unat ?w = n"
      using unat_diff_u32 [of "(ri_windowSize ?ri - 1) * ri_currentLevel ?ri"
          "ri_windowSize ?ri * (ri_alertLevel ?ri + RATE_SAFETY_TIME)"]
      by (simp only: b(5,6) n_def mult.commute [of ?W])
    moreover have "n < 2 ^ 31" using b(2) by (simp add: n_def mult.commute)
    ultimately have "sint ?w = int n" using sint_small_u32 [of ?w] by (simp only:)
    with True l(1) low have "timeToNextSend now rc = Some (int n)" by (simp add: timeToNextSend_def Let_def)
    with lt show thesis by (intro wait [of n]) (simp_all add: n_def)
  qed
qed

definition level_ok :: "nat \<Rightarrow> rateClass \<Rightarrow> bool" where
  "level_ok now rc \<longleftrightarrow> sane (m_rateInfo rc) \<and> unat (ri_alertLevel (m_rateInfo rc)) \<le> unat (ri_currentLevel (m_rateInfo rc))
     \<and> rc_started rc \<le> now"

definition needed_wait :: "rateInfo \<Rightarrow> nat" where
  "needed_wait ri = safe_level ri * unat (ri_windowSize ri) - spent ri"

text \<open>A pending timer was set in the current day of the packet timer, for the time needed.\<close>

definition due_ok :: "nat \<Rightarrow> rateClass \<Rightarrow> bool" where
  "due_ok now rc \<longleftrightarrow> (\<forall>(ts, n) \<in> set (rc_shots rc). rc_started rc \<le> ts \<and> ts \<le> now
     \<and> (ts - rc_started rc) div dayMs = (now - rc_started rc) div dayMs
     \<and> n = needed_wait (m_rateInfo rc))"

lemma sendFirst_level:
  assumes "sane (m_rateInfo rc)" "sendFirst now rc = Some rc'"
    "unat (ri_alertLevel (m_rateInfo rc)) * unat (ri_windowSize (m_rateInfo rc))
       \<le> spent (m_rateInfo rc) + unat (elapsed now rc)"
  shows "level_ok now rc' \<and> ri_alertLevel (m_rateInfo rc') = ri_alertLevel (m_rateInfo rc)"
proof -
  let ?ri = "m_rateInfo rc"
  have W: "0 < unat (ri_windowSize ?ri)" "safe_level ?ri \<le> unat (ri_initialLevel ?ri)"
    using assms(1) by (simp_all add: sane_def)
  have el: "elapsed now (dequeue rc) = elapsed now rc" "m_rateInfo (dequeue rc) = ?ri"
    by (simp_all add: elapsed_def dequeue_def)
  have e: "unat (elapsed now rc) < dayMs" by (simp add: unat_elapsed dayMs_def)
  obtain l where l: "calcNewLevel (elapsed now rc) (dequeue rc) = Some l"
    "unat l = min (unat (ri_initialLevel ?ri)) ((spent ?ri + unat (elapsed now rc)) div unat (ri_windowSize ?ri))"
    using calcNewLevel_sane [of "dequeue rc" "elapsed now rc"] assms(1) e unfolding el by blast
  from assms(2) l(1) have ri: "m_rateInfo rc' = ?ri\<lparr>ri_currentLevel := l\<rparr>" "rc_started rc' = now"
    by (auto simp: sendFirst_def updateRateInfo_def el)
  have "unat (ri_alertLevel ?ri) \<le> (spent ?ri + unat (elapsed now rc)) div unat (ri_windowSize ?ri)"
    using assms(3) W(1) by (simp add: less_eq_div_iff_mult_less_eq)
  with W(2) l(2) assms(1) show ?thesis by (simp add: level_ok_def ri sane_def safe_level_def)
qed

lemma send_level:
  "slotSend now rc = Some (sent, rc') \<Longrightarrow> m_packetQueue rc \<noteq> [] \<Longrightarrow> rc_shots rc = [] \<Longrightarrow> sane (m_rateInfo rc)
    \<Longrightarrow> unat (ri_alertLevel (m_rateInfo rc)) * unat (ri_windowSize (m_rateInfo rc))
         \<le> spent (m_rateInfo rc) + unat (elapsed now rc)
    \<Longrightarrow> level_ok now rc' \<and> due_ok now rc' \<and> ri_alertLevel (m_rateInfo rc') = ri_alertLevel (m_rateInfo rc)"
  "setupTimer now rc = Some (sent, rc') \<Longrightarrow> m_packetQueue rc \<noteq> [] \<Longrightarrow> rc_shots rc = [] \<Longrightarrow> level_ok now rc
    \<Longrightarrow> \<not> m_waitingToSend rc
    \<Longrightarrow> level_ok now rc' \<and> due_ok now rc' \<and> ri_alertLevel (m_rateInfo rc') = ri_alertLevel (m_rateInfo rc)"
proof (induction now rc and now rc arbitrary: sent rc' and sent rc' rule: slotSend_setupTimer.induct)
  case (1 now rc)
  from 1(2,3) obtain rc1 where s: "sendFirst now rc = Some rc1" by (subst (asm) slotSend.simps) (auto split: option.splits)
  note q = sendFirst_queue [OF s] and l = sendFirst_level [OF 1(5) s 1(6)]
  show ?case
  proof (cases "m_packetQueue rc1 = []")
    case True
    with 1(2,3) s have "rc' = rc1" by (subst (asm) slotSend.simps) auto
    with l q 1(4) show ?thesis by (simp add: due_ok_def)
  next
    case False
    with 1(2,3) s obtain sent1 where t: "setupTimer now rc1 = Some (sent1, rc')"
      by (subst (asm) slotSend.simps) (auto split: option.splits)
    from 1(1) [OF 1(3) s False t] False q l 1(4) show ?thesis by simp
  qed
next
  case (2 now rc)
  let ?rc = "rc\<lparr>m_waitingToSend := True\<rparr>"
  from 2(5) have sane: "sane (m_rateInfo ?rc)" by (simp add: level_ok_def)
  show ?case
  proof -
    from timeToNextSend_sane [OF sane, of now] consider
      (immediate) "timeToNextSend now ?rc = Some 0"
        "safe_level (m_rateInfo ?rc) * unat (ri_windowSize (m_rateInfo ?rc)) \<le> spent (m_rateInfo ?rc) + unat (elapsed now ?rc)"
    | (wait) n where "timeToNextSend now ?rc = Some (int n)" "0 < n"
        "safe_level (m_rateInfo ?rc) * unat (ri_windowSize (m_rateInfo ?rc)) = spent (m_rateInfo ?rc) + n"
      by blast
    then show ?thesis
    proof cases
    case immediate
    with 2(2,6) have t: "slotSend now ?rc = Some (sent, rc')"
      by (subst (asm) setupTimer.simps) (simp add: Let_def)
    have e: "elapsed now ?rc = elapsed now rc" by (simp add: elapsed_def)
    have "unat (ri_alertLevel (m_rateInfo rc)) * unat (ri_windowSize (m_rateInfo rc))
        \<le> safe_level (m_rateInfo rc) * unat (ri_windowSize (m_rateInfo rc))"
      by (rule mult_le_mono1) (simp add: safe_level_def)
    also have "\<dots> \<le> spent (m_rateInfo rc) + unat (elapsed now rc)" using immediate(2) by (simp add: e)
    finally have "unat (ri_alertLevel (m_rateInfo rc)) * unat (ri_windowSize (m_rateInfo rc))
        \<le> spent (m_rateInfo rc) + unat (elapsed now rc)" .
    with 2(1) [OF 2(6) refl immediate(1) _ t] 2(3-5) sane show ?thesis by (simp add: e)
    next
    case (wait n)
    with 2(2,6) have "rc' = ?rc\<lparr>rc_shots := rc_shots rc @ [(now, n)]\<rparr>"
      by (subst (asm) setupTimer.simps) (simp add: Let_def)
    with 2(4,5) wait(3) show ?thesis by (auto simp: level_ok_def due_ok_def needed_wait_def)
    qed
  qed
qed

subsection \<open>Runs of a class\<close>

text \<open>
  What happens to a class after its parameters have arrived: transfers are queued, due timers
  fire, and time passes.  \<open>ins\<close> and \<open>outs\<close> are what was queued and what was sent so far.
  A day boundary of the packet timer is not crossed while a timer is pending.
\<close>

inductive rate_run :: "rateClass \<Rightarrow> nat \<Rightarrow> rateClass \<Rightarrow> nat \<Rightarrow> anyTransfer list \<Rightarrow> anyTransfer list \<Rightarrow> bool"
  for rc0 t0 where
  rr_init: "rate_run rc0 t0 rc0 t0 [] []"
| rr_enqueue: "rate_run rc0 t0 rc now ins outs \<Longrightarrow> enqueue now t rc = Some (sent, rc')
    \<Longrightarrow> rate_run rc0 t0 rc' now (ins @ [t]) (outs @ sent)"
| rr_fire: "rate_run rc0 t0 rc now ins outs \<Longrightarrow> rc_shots rc = shot # rest \<Longrightarrow> earliest shot \<le> now
    \<Longrightarrow> fireTimer now rc = Some (sent, rc') \<Longrightarrow> rate_run rc0 t0 rc' now ins (outs @ sent)"
| rr_tick: "rate_run rc0 t0 rc now ins outs \<Longrightarrow> now \<le> now'
    \<Longrightarrow> rc_shots rc = [] \<or> (now - rc_started rc) div dayMs = (now' - rc_started rc) div dayMs
    \<Longrightarrow> rate_run rc0 t0 rc now' ins outs"

lemma rate_run_port: "rate_run rc0 t0 rc now ins outs \<Longrightarrow> rate_port.run rc0 rc ins outs"
  by (induction rule: rate_run.induct) (auto intro: rate_port.run.intros)

lemma rate_run_timer: "rate_run (mkRateClass ri t0) t0 rc now ins outs \<Longrightarrow> timer_inv rc"
proof (induction rule: rate_run.induct)
  case rr_init
  show ?case by (simp add: timer_inv_def mkRateClass_def)
qed (auto intro: timer_inv_enqueue timer_inv_fire)

text \<open>
  C16: a rate class sends its transfers in the order they were queued, each once, and never
  forgets one: what was sent followed by what waits is what was queued, and as long as
  something waits exactly one timer is pending that will send it.
\<close>

theorem rate_class_is_fifo:
  assumes "rate_run (mkRateClass ri t0) t0 rc now ins outs"
  shows "outs @ m_packetQueue rc = ins \<and> length (rc_shots rc) = (if m_packetQueue rc = [] then 0 else 1)"
proof -
  have "outs @ m_packetQueue rc = ins"
    using rate_port.run_conserves [OF rate_run_port [OF assms]] by (simp add: mkRateClass_def)
  with rate_run_timer [OF assms] show ?thesis by (auto simp: timer_inv_def)
qed

text \<open>A class as the server announces one, and its first packet.\<close>

definition sampleRate :: rateInfo where
  "sampleRate = \<lparr>ri_classId = 1, ri_windowSize = 80, ri_initialLevel = 6000, ri_clearLevel = 2500,
     ri_alertLevel = 2000, ri_limitLevel = 1500, ri_disconnectLevel = 800, ri_currentLevel = 6000,
     ri_maxLevel = 6000, ri_lastTime = 0, ri_currentState = 0\<rparr>"

lemma sampleRate_enqueue:
  "enqueue 40 t (mkRateClass sampleRate 0) = Some ([t], (mkRateClass sampleRate 0)
     \<lparr>m_rateInfo := sampleRate\<lparr>ri_currentLevel := 5925\<rparr>, rc_started := 40\<rparr>)"
  by (simp add: enqueue_def setupTimer.simps slotSend.simps sendFirst_def updateRateInfo_def dequeue_def
      timeToNextSend_def calcNewLevel_def elapsed_def mkRateClass_def sampleRate_def RATE_SAFETY_TIME_def)

lemma sampleRate_run:
  "rate_run (mkRateClass sampleRate 0) 0 ((mkRateClass sampleRate 0)
     \<lparr>m_rateInfo := sampleRate\<lparr>ri_currentLevel := 5925\<rparr>, rc_started := 40\<rparr>) 40 ([] @ [t]) ([] @ [t])"
proof (rule rr_enqueue [OF _ sampleRate_enqueue])
  show "rate_run (mkRateClass sampleRate 0) 0 (mkRateClass sampleRate 0) 40 [] []"
    by (rule rr_tick [OF rr_init]) (simp_all add: mkRateClass_def)
qed

theorem rate_class_is_fifo_witness:
  "let rc = snd (the (enqueue 40 (RawTransfer (mkTransfer emptyBuffer)) (mkRateClass sampleRate 0)))
   in [RawTransfer (mkTransfer emptyBuffer)] @ m_packetQueue rc = [RawTransfer (mkTransfer emptyBuffer)]
     \<and> length (rc_shots rc) = (if m_packetQueue rc = [] then 0 else 1)"
  unfolding sampleRate_enqueue option.sel snd_conv Let_def
  by (rule rate_class_is_fifo [OF sampleRate_run [simplified append.simps]])

lemma due_ok_tick:
  assumes "due_ok now rc" "now \<le> now'"
    "rc_shots rc = [] \<or> (now - rc_started rc) div dayMs = (now' - rc_started rc) div dayMs"
  shows "due_ok now' rc"
proof (cases "rc_shots rc = []")
  case False
  then have "(now - rc_started rc) div dayMs = (now' - rc_started rc) div dayMs" using assms(3) by simp
  then show ?thesis using assms(1,2) by (auto simp: due_ok_def)
qed (simp add: due_ok_def)

lemma same_day:
  assumes "(a :: nat) div d = b div d" "b \<le> a"
  shows "a mod d = b mod d + (a - b)"
proof -
  define k where "k = d * (b div d)"
  have "a mod d = a - k" unfolding k_def assms(1) [symmetric] by (rule minus_mult_div_eq_mod [symmetric])
  moreover have "b mod d = b - k" unfolding k_def by (rule minus_mult_div_eq_mod [symmetric])
  moreover have "k \<le> b" unfolding k_def by (rule times_div_less_eq_dividend)
  ultimately show ?thesis using assms(2) by simp
qed

text \<open>A timer that fires early has still waited long enough for the alert level: the safety time covers
  the twentieth of the wait that may be missing.\<close>

lemma early_enough:
  assumes "sane ri" "unat (ri_alertLevel ri) \<le> unat (ri_currentLevel ri)"
  shows "unat (ri_alertLevel ri) * unat (ri_windowSize ri)
    \<le> spent ri + (needed_wait ri - needed_wait ri div 20)"
proof -
  let ?W = "unat (ri_windowSize ri)" and ?A = "unat (ri_alertLevel ri)" and ?n = "needed_wait ri"
  have W: "0 < ?W" "?A \<le> 950 * ?W" using assms(1) by (simp_all add: sane_def)
  define a where "a = ?A * ?W"
  have sp: "(?W - 1) * ?A \<le> spent ri" unfolding spent_def using assms(2) by (rule mult_le_mono2)
  have "a = ?A + (?W - 1) * ?A" unfolding a_def using W(1) by (metis mult.commute mult_eq_if neq0_conv)
  with sp have al: "a \<le> ?A + spent ri" by (simp only: add_le_cancel_left)
  have n: "?n = (a + 50 * ?W) - spent ri"
    unfolding needed_wait_def safe_level_def a_def by (simp only: add_mult_distrib)
  have "?n \<le> ?A + 50 * ?W" using al unfolding n by linarith
  then have "?n div 20 \<le> 50 * ?W" using W(2) by linarith
  with n have "a \<le> spent ri + (?n - ?n div 20)" by linarith
  then show ?thesis unfolding a_def .
qed

lemma fired_elapsed:
  assumes "due_ok now rc" "level_ok now rc" "rc_shots rc = shot # rest" "earliest shot \<le> now"
  shows "unat (ri_alertLevel (m_rateInfo rc)) * unat (ri_windowSize (m_rateInfo rc))
    \<le> spent (m_rateInfo rc) + unat (elapsed now rc)"
proof -
  obtain ts n where shot: "shot = (ts, n)" by fastforce
  with assms(1,3) have ts: "rc_started rc \<le> ts" "ts \<le> now"
    "(ts - rc_started rc) div dayMs = (now - rc_started rc) div dayMs" "n = needed_wait (m_rateInfo rc)"
    by (auto simp: due_ok_def)
  have "now - ts \<le> (now - rc_started rc) mod dayMs"
    using same_day [OF ts(3) [symmetric]] ts(1,2) by simp
  moreover have "n - n div 20 \<le> now - ts" using assms(4) by (simp add: shot earliest_def)
  ultimately have "n - n div 20 \<le> unat (elapsed now rc)" by (simp add: unat_elapsed)
  with early_enough [of "m_rateInfo rc"] assms(2) ts(4) show ?thesis by (simp add: level_ok_def)
qed

lemma rate_run_level:
  assumes "rate_run rc0 t0 rc now ins outs" "rc0 = mkRateClass ri t0" "level_ok t0 rc0"
  shows "level_ok now rc \<and> due_ok now rc \<and> ri_alertLevel (m_rateInfo rc) = ri_alertLevel ri"
  using assms
proof (induction rule: rate_run.induct)
  case rr_init
  then show ?case by (simp add: due_ok_def mkRateClass_def)
next
  case (rr_enqueue rc now ins outs t sent rc')
  let ?rc = "rc\<lparr>m_packetQueue := m_packetQueue rc @ [t]\<rparr>"
  have tm: "timer_inv rc" using rr_enqueue rate_run_timer by blast
  have "level_ok now rc" using rr_enqueue by simp
  then have l: "level_ok now ?rc" by (simp add: level_ok_def)
  show ?case
  proof (cases "m_waitingToSend rc")
    case True
    with rr_enqueue have "rc' = ?rc" by (simp add: enqueue_def setupTimer.simps)
    with l rr_enqueue show ?thesis by (simp add: due_ok_def)
  next
    case False
    with tm send_level(2) [of now ?rc sent rc'] l rr_enqueue show ?thesis
      by (simp add: enqueue_def timer_inv_def)
  qed
next
  case (rr_fire rc now ins outs shot rest sent rc')
  let ?rc = "rc\<lparr>rc_shots := tl (rc_shots rc)\<rparr>"
  have tm: "timer_inv rc" using rr_fire rate_run_timer by blast
  have "elapsed now ?rc = elapsed now rc" by (simp add: elapsed_def)
  with fired_elapsed [OF _ _ rr_fire.hyps(2,3)] rr_fire tm send_level(1) [of now ?rc sent rc'] show ?case
    by (auto simp: fireTimer_def timer_inv_def level_ok_def split: if_splits)
next
  case (rr_tick rc now ins outs now')
  then show ?case using due_ok_tick [of now rc now'] by (auto simp: level_ok_def)
qed



end
