(* ===== verification/Oscar_Connection.thy ===== *)
theory Oscar_Connection
  imports Oscar_Rate Oscar_Stream "HOL-Library.Multiset"
begin

text \<open>
  A connection: its sequence numbers, its rate class manager and the stream it writes to
  (\<^verbatim>\<open>connection.cpp\<close>, \<^verbatim>\<open>rateclassmanager.cpp\<close>, the keep-alive of
  \<^verbatim>\<open>oscarclientstream.cpp\<close>), and the life of a task (\<^verbatim>\<open>tasks/task.cpp\<close>).
  \<open>cn_written\<close> is the list of transfers handed to \<^verbatim>\<open>CoreProtocol::outgoingTransfer\<close>; the
  values of \<^verbatim>\<open>qrand\<close> and the clock are arguments.
\<close>

subsection \<open>State\<close>

record messageInfo =
  mi_id :: u32
  mi_contact :: qstring

definition messageInfoIsValid :: "messageInfo \<Rightarrow> bool" where
  "messageInfoIsValid m \<longleftrightarrow> mi_id m > 0 \<and> mi_contact m \<noteq> []"

record connection =
  cn_snacSequence :: u16
  cn_flapSequence :: u16
  familyList :: "int list"
  classList :: "rateClass list"
  cn_messageInfo :: "u32 \<rightharpoonup> messageInfo"
  cn_clientStream :: bool
  cn_loggedIn :: bool
  cn_written :: "anyTransfer list"

subsection \<open>Sequence numbers\<close>

definition flapSequence :: "connection \<Rightarrow> u16 \<times> connection" where
  "flapSequence c =
     (let c = c\<lparr>cn_flapSequence := cn_flapSequence c + 1\<rparr>;
          c = (if cn_flapSequence c \<ge> 0x8000 then c\<lparr>cn_flapSequence := 1\<rparr> else c)
      in (cn_flapSequence c, c))"

definition snacSequence :: "connection \<Rightarrow> u32 \<times> connection" where
  "snacSequence c =
     (let c = c\<lparr>cn_snacSequence := cn_snacSequence c + 1\<rparr>;
          c = (if cn_snacSequence c = 0x0000 then c\<lparr>cn_snacSequence := cn_snacSequence c + 1\<rparr> else c)
      in (ucast (cn_snacSequence c), c))"

text \<open>\<^verbatim>\<open>for ( i = n; i >>= 3; s += i ) {}\<close>\<close>

function shiftSum :: "u32 \<Rightarrow> u32 \<Rightarrow> u32" where
  "shiftSum i s = (let i = drop_bit 3 i in if i \<noteq> 0 then shiftSum i (s + i) else s)"
  by pat_completeness auto
termination
proof (relation "measure (\<lambda>(i, s). unat i)")
  fix i s x :: u32
  assume "x = drop_bit 3 i" "x \<noteq> 0"
  then have "unat x = unat i div 8" by (simp add: drop_bit_eq_div unat_div_distrib)
  moreover have "unat x \<noteq> 0" using \<open>x \<noteq> 0\<close> by (simp add: unat_eq_0)
  ultimately show "((x, s + x), (i, s)) \<in> measure (\<lambda>(i, s). unat i)" by simp
qed simp

declare shiftSum.simps [simp del]

definition generateInitialFlapSequence :: "nat \<Rightarrow> u16" where
  "generateInitialFlapSequence qrand =
     (let n = of_nat (qrand mod 0x8000) :: u32;
          s = shiftSum n 0
      in ucast (((((0 - s) XOR ucast (ucast n :: u8)) AND 7) XOR n) + 2))"

definition initSequence :: "nat \<Rightarrow> nat \<Rightarrow> u16 list \<Rightarrow> connection \<Rightarrow> connection" where
  "initSequence random qrand startFlapSequenceList c =
     (let c = c\<lparr>cn_snacSequence := of_nat random AND 0xFFFF\<rparr>
      in if startFlapSequenceList = []
         then c\<lparr>cn_flapSequence := generateInitialFlapSequence qrand\<rparr>
         else c\<lparr>cn_flapSequence := startFlapSequenceList ! (qrand mod length startFlapSequenceList) - 1\<rparr>)"

definition mkConnection :: "nat \<Rightarrow> nat \<Rightarrow> u16 list \<Rightarrow> connection" where
  "mkConnection random qrand startFlapSequenceList =
     initSequence random qrand startFlapSequenceList
       \<lparr>cn_snacSequence = 0, cn_flapSequence = 0, familyList = [], classList = [],
        cn_messageInfo = Map.empty, cn_clientStream = True, cn_loggedIn = False, cn_written = []\<rparr>"

subsection \<open>Families and message ids\<close>

definition isSupported :: "int \<Rightarrow> connection \<Rightarrow> bool" where
  "isSupported family c \<longleftrightarrow> family \<in> set (familyList c)"

definition addToSupportedFamilies :: "int list \<Rightarrow> connection \<Rightarrow> connection" where
  "addToSupportedFamilies l c = c\<lparr>familyList := familyList c @ l\<rparr>"

definition addToSupportedFamily :: "int \<Rightarrow> connection \<Rightarrow> connection" where
  "addToSupportedFamily f c = c\<lparr>familyList := familyList c @ [f]\<rparr>"

definition addMessageInfo :: "u32 \<Rightarrow> messageInfo \<Rightarrow> connection \<Rightarrow> connection" where
  "addMessageInfo seq m c = c\<lparr>cn_messageInfo := (cn_messageInfo c)(seq \<mapsto> m)\<rparr>"

text \<open>\<^verbatim>\<open>QHash::take\<close> of an absent key is a default-constructed value.\<close>

definition takeMessageInfo :: "u32 \<Rightarrow> connection \<Rightarrow> messageInfo \<times> connection" where
  "takeMessageInfo seq c =
     ((case cn_messageInfo c seq of Some m \<Rightarrow> m | None \<Rightarrow> \<lparr>mi_id = 0, mi_contact = []\<rparr>),
      c\<lparr>cn_messageInfo := (cn_messageInfo c)(seq := None)\<rparr>)"

subsection \<open>Sending\<close>

definition forcedSend :: "anyTransfer \<Rightarrow> connection \<Rightarrow> connection" where
  "forcedSend t c = (if \<not> cn_clientStream c then c else c\<lparr>cn_written := cn_written c @ [t]\<rparr>)"

primrec withFlapSequence :: "u16 \<Rightarrow> anyTransfer \<Rightarrow> anyTransfer" where
  "withFlapSequence seq (RawTransfer t) = RawTransfer t"
| "withFlapSequence seq (FlapTransfer t) = FlapTransfer (setFlapSequence seq t)"
| "withFlapSequence seq (SnacTransfer t) = SnacTransfer (setFlapSequence seq t)"

definition transferReady :: "anyTransfer \<Rightarrow> connection \<Rightarrow> connection" where
  "transferReady t c =
     (case t of
        RawTransfer _ \<Rightarrow> forcedSend t c
      | _ \<Rightarrow> (let (seq, c) = flapSequence c in forcedSend (withFlapSequence seq t) c))"

definition registerClass :: "rateClass \<Rightarrow> connection \<Rightarrow> connection" where
  "registerClass rc c = c\<lparr>classList := classList c @ [rc]\<rparr>"

text \<open>The position of the first class that has the SNAC as a member.\<close>

fun findRateClass :: "u16 \<Rightarrow> u16 \<Rightarrow> rateClass list \<Rightarrow> nat option" where
  "findRateClass family subtype [] = None"
| "findRateClass family subtype (rc # rcs) =
     (if isMember family subtype rc then Some 0 else map_option Suc (findRateClass family subtype rcs))"

definition canSend :: "nat \<Rightarrow> anyTransfer \<Rightarrow> connection \<Rightarrow> bool option" where
  "canSend now t c =
     (case t of
        SnacTransfer st \<Rightarrow>
          (case findRateClass (m_snacService st) (m_snacSubtype st) (classList c) of
             Some i \<Rightarrow> map_option (\<lambda>w. w = 0) (timeToNextSend now (classList c ! i))
           | None \<Rightarrow> Some True)
      | _ \<Rightarrow> Some True)"

definition deliver :: "nat \<Rightarrow> (anyTransfer list \<times> rateClass) option \<Rightarrow> connection \<Rightarrow> connection option" where
  "deliver i r c = (case r of
       None \<Rightarrow> None
     | Some (sent, rc) \<Rightarrow> Some (fold transferReady sent (c\<lparr>classList := (classList c)[i := rc]\<rparr>)))"

definition queueTransfer :: "nat \<Rightarrow> anyTransfer \<Rightarrow> connection \<Rightarrow> connection option" where
  "queueTransfer now t c =
     (case t of
        SnacTransfer st \<Rightarrow>
          (case findRateClass (m_snacService st) (m_snacSubtype st) (classList c) of
             Some i \<Rightarrow> deliver i (enqueue now t (classList c ! i)) c
           | None \<Rightarrow> Some (transferReady t c))
      | _ \<Rightarrow> Some (transferReady t c))"

definition send :: "nat \<Rightarrow> anyTransfer \<Rightarrow> connection \<Rightarrow> connection option" where
  "send now t c = (if \<not> cn_clientStream c then Some c else queueTransfer now t c)"

definition classTimer :: "nat \<Rightarrow> nat \<Rightarrow> connection \<Rightarrow> connection option" where
  "classTimer now i c = deliver i (fireTimer now (classList c ! i)) c"

fun updateAll :: "nat \<Rightarrow> rateClass list \<Rightarrow> rateClass list option" where
  "updateAll now [] = Some []"
| "updateAll now (rc # rcs) =
     (case updateRateInfo now rc of
        None \<Rightarrow> None
      | Some rc \<Rightarrow> map_option (\<lambda>rcs. rc # rcs) (updateAll now rcs))"

definition recalcRateLevels :: "nat \<Rightarrow> connection \<Rightarrow> connection option" where
  "recalcRateLevels now c = map_option (\<lambda>l. c\<lparr>classList := l\<rparr>) (updateAll now (classList c))"

definition managerTimeToInitialLevel :: "nat \<Rightarrow> snac \<Rightarrow> connection \<Rightarrow> int option" where
  "managerTimeToInitialLevel now s c =
     (case findRateClass (snac_family s) (snac_subtype s) (classList c) of
        Some i \<Rightarrow> timeToInitialLevel now (classList c ! i)
      | None \<Rightarrow> Some 0)"

definition doNoop :: "bool \<Rightarrow> connection \<Rightarrow> connection" where
  "doNoop socketOpen c =
     (if \<not> socketOpen then c
      else
        let (seq, c) = flapSequence c;
            f = \<lparr>flap_channel = 0x05, flap_sequence = seq, flap_length = 0\<rparr>;
            t = FlapTransfer (mkFlapTransfer f emptyBuffer)
        in c\<lparr>cn_written := cn_written c @ [t]\<rparr>)"

definition resetConnection :: "connection \<Rightarrow> connection" where
  "resetConnection c = c\<lparr>familyList := [], classList := [], cn_messageInfo := Map.empty\<rparr>"

definition loggedIn :: "connection \<Rightarrow> connection" where
  "loggedIn c = c\<lparr>cn_loggedIn := True\<rparr>"

subsection \<open>The initial sequence number\<close>

text \<open>The sum of a number and all its right shifts by a multiple of three bits.\<close>

fun octShifts :: "nat \<Rightarrow> nat" where
  "octShifts n = (if n = 0 then 0 else n + octShifts (n div 8))"

declare octShifts.simps [simp del]

lemma octShifts_step: "octShifts n = n + octShifts (n div 8)"
  by (subst octShifts.simps) (simp add: octShifts.simps [of 0])

lemma shiftSum_octShifts: "shiftSum i s = s + of_nat (octShifts (unat i div 8))"
proof (induction i s rule: shiftSum.induct)
  case (1 i s)
  let ?j = "drop_bit 3 i"
  have j: "unat ?j = unat i div 8" by (simp add: drop_bit_eq_div unat_div_distrib)
  show ?case
  proof (cases "?j = 0")
    case True
    then have "unat i div 8 = 0" using j by simp
    with True show ?thesis by (simp add: shiftSum.simps [of i] octShifts.simps)
  next
    case False
    have "shiftSum i s = shiftSum ?j (s + ?j)" using False by (simp add: shiftSum.simps [of i] Let_def)
    also have "\<dots> = s + ?j + of_nat (octShifts (unat i div 8 div 8))" using 1 [OF refl False] j by simp
    also have "?j = of_nat (unat i div 8)" by (simp flip: j)
    finally show ?thesis using octShifts_step [of "unat i div 8"] by (simp add: add.assoc)
  qed
qed

lemma low_bits_mask: "(7 :: u32) = mask 3"
  by (simp add: mask_eq_exp_minus_1)

lemma initial_low:
  fixes n s :: u32
  defines "x \<equiv> ((s XOR ucast (ucast n :: u8)) AND 7) XOR n"
  shows "x AND 7 = s AND 7" "drop_bit 3 x = drop_bit 3 n"
  unfolding x_def low_bits_mask by (rule bit_word_eqI, auto simp: bit_simps)+

lemma unat_and_7: "unat (x AND 7 :: u32) = unat x mod 8"
proof -
  have "x AND 7 = take_bit 3 x" by (simp add: low_bits_mask take_bit_eq_mask)
  then have "unat (x AND 7) = take_bit 3 (unat x)" by (simp only: unsigned_take_bit_eq)
  then show ?thesis by (simp add: take_bit_eq_mod)
qed

lemma uint_uminus_u32: "uint (- of_nat f :: u32) = (- int f) mod 4294967296"
proof -
  have e: "(- of_nat f :: u32) = word_of_int (- int f)" by simp
  have "uint (word_of_int (- int f) :: u32) = take_bit LENGTH(32) (- int f)" by (rule uint_word_of_int_eq)
  also have "\<dots> = (- int f) mod 4294967296" by (simp add: take_bit_eq_mod)
  finally show ?thesis unfolding e .
qed
lemma uminus_mod_8: "unat (- of_nat f :: u32) mod 8 = nat ((- int f) mod 8)"
proof -
  have "int (unat (- of_nat f :: u32)) mod 8 = ((- int f) mod 4294967296) mod 8"
    using uint_uminus_u32 [of f] by (simp only: uint_nat)
  also have "\<dots> = (- int f) mod 8" by (rule mod_mod_cancel) simp
  finally have "int (unat (- of_nat f :: u32) mod 8) = (- int f) mod 8" by (simp only: of_nat_mod of_nat_numeral)
  then show ?thesis by (metis nat_int)
qed

text \<open>
  The initial FLAP sequence number passes the check that Miranda's formula is made for: less
  two, it and all its right shifts by multiples of three bits add up to a multiple of eight.
  It lies between 2 and \<^verbatim>\<open>0x8001\<close> and differs from the random number only in its last octal
  digit.
\<close>

theorem initial_flap_sequence:
  "\<exists>m < 0x8000. unat (generateInitialFlapSequence r) = m + 2 \<and> octShifts m mod 8 = 0
     \<and> m div 8 = r mod 0x8000 div 8"
proof -
  let ?n = "of_nat (r mod 0x8000) :: u32"
  let ?q = "r mod 0x8000 div 8"
  have n: "unat ?n = r mod 0x8000" by (rule unat_of_nat_u32) (simp add: less_trans [OF mod_less_divisor])
  let ?s = "0 - shiftSum ?n 0"
  have s: "?s = - of_nat (octShifts ?q)" by (simp add: shiftSum_octShifts n)
  define x where "x = ((?s XOR ucast (ucast ?n :: u8)) AND 7) XOR ?n"
  have low: "unat x mod 8 = nat ((- int (octShifts ?q)) mod 8)"
  proof -
    have "unat x mod 8 = unat (x AND 7)" by (simp only: unat_and_7)
    also have "x AND 7 = ?s AND 7" unfolding x_def by (rule initial_low(1))
    also have "unat (?s AND 7) = nat ((- int (octShifts ?q)) mod 8)" unfolding s unat_and_7 by (rule uminus_mod_8)
    finally show ?thesis .
  qed
  have "unat (drop_bit 3 x) = unat (drop_bit 3 ?n)" using initial_low(2) [of ?s ?n] by (simp only: x_def)
  then have high: "unat x div 8 = ?q" by (simp add: drop_bit_eq_div unat_div_distrib n)
  have "?q < 0x1000" by (simp add: less_mult_imp_div_less)
  then have x: "unat x < 0x8000" using high by simp
  have "unat (x + 2) = unat x + 2" using x by (simp add: unat_word_ariths)
  then have "unat (ucast (x + 2) :: u16) = unat x + 2" using x
    by (simp only: unsigned_ucast_eq) (simp add: take_bit_eq_mod)
  moreover have "generateInitialFlapSequence r = ucast (x + 2)"
    unfolding generateInitialFlapSequence_def Let_def x_def by (rule refl)
  ultimately have "unat (generateInitialFlapSequence r) = unat x + 2" by (simp only:)
  moreover have "octShifts (unat x) mod 8 = 0"
  proof -
    have "octShifts (unat x) mod 8 = (unat x mod 8 + octShifts ?q) mod 8"
      by (subst octShifts_step) (simp add: high mod_add_left_eq)
    also have "int \<dots> = ((- int (octShifts ?q)) mod 8 + int (octShifts ?q)) mod 8"
      by (simp add: low zmod_int)
    also have "\<dots> = 0" by (simp add: mod_add_left_eq)
    finally show ?thesis by simp
  qed
  ultimately show ?thesis using x high by (intro exI [of _ "unat x"] conjI)
qed

subsection \<open>Request ids\<close>

fun snacIds :: "nat \<Rightarrow> connection \<Rightarrow> u32 list" where
  "snacIds 0 c = []"
| "snacIds (Suc n) c = (let (i, c) = snacSequence c in i # snacIds n c)"

lemma snacSequence_value:
  "unat (cn_snacSequence (snd (snacSequence c))) = unat (cn_snacSequence c) mod 65535 + 1"
  "unat (fst (snacSequence c)) = unat (cn_snacSequence c) mod 65535 + 1"
proof -
  let ?s = "cn_snacSequence c"
  have b: "unat ?s < 65536" using unsigned_less [of ?s, where ?'a = nat] by simp
  have inc: "unat (?s + 1) = (unat ?s + 1) mod 65536" by (simp add: unat_word_ariths)
  have z: "?s + 1 = 0 \<longleftrightarrow> unat ?s = 65535" using b inc by (auto simp: word_unat_eq_iff mod_if split: if_splits)
  show 1: "unat (cn_snacSequence (snd (snacSequence c))) = unat ?s mod 65535 + 1"
    using b inc z by (cases "?s + 1 = 0") (auto simp: snacSequence_def Let_def mod_if)
  have "fst (snacSequence c) = ucast (cn_snacSequence (snd (snacSequence c)))"
    by (simp add: snacSequence_def Let_def)
  then show "unat (fst (snacSequence c)) = unat ?s mod 65535 + 1" using 1 by simp
qed

lemma snacIds_value:
  "map unat (snacIds n c) = map (\<lambda>k. (unat (cn_snacSequence c) + k) mod 65535 + 1) [0..<n]"
proof (induction n arbitrary: c)
  case 0
  show ?case by simp
next
  case (Suc n)
  obtain i c' where ic: "snacSequence c = (i, c')" by (cases "snacSequence c")
  with snacSequence_value [of c] have i: "unat i = unat (cn_snacSequence c) mod 65535 + 1"
    "unat (cn_snacSequence c') = unat (cn_snacSequence c) mod 65535 + 1" by simp_all
  have "(unat (cn_snacSequence c') + k) mod 65535 = (unat (cn_snacSequence c) + Suc k) mod 65535" for k
    unfolding i(2) by (metis add_Suc_right add_Suc_shift mod_add_left_eq plus_1_eq_Suc add.commute)
  then show ?case using Suc [of c'] i(1)
    by (simp add: ic upt_conv_Cons map_Suc_upt [symmetric] del: upt_Suc)
qed

text \<open>
  C40: the request ids of a connection are never 0 and repeat only after 65535 requests: any
  shorter run of consecutive ids is free of duplicates.
\<close>

theorem snac_ids_distinct:
  assumes "n \<le> 65535"
  shows "distinct (snacIds n c) \<and> 0 \<notin> set (snacIds n c)"
proof -
  let ?s = "unat (cn_snacSequence c)"
  have "inj_on (\<lambda>k. (?s + k) mod 65535 + 1) {0..<n}"
  proof (rule inj_onI)
    fix j k assume jk: "j \<in> {0..<n}" "k \<in> {0..<n}" "(?s + j) mod 65535 + 1 = (?s + k) mod 65535 + 1"
    then have "(?s + j) mod 65535 = (?s + k) mod 65535" by simp
    then have "j mod 65535 = k mod 65535" by (simp add: nat_mod_eq_iff)
    with jk assms show "j = k" by simp
  qed
  then have "distinct (map unat (snacIds n c))" by (simp add: snacIds_value distinct_map)
  moreover have "0 \<notin> set (map unat (snacIds n c))" by (auto simp: snacIds_value)
  ultimately show ?thesis by (force simp: distinct_map)
qed

theorem snac_ids_distinct_witness:
  "distinct (snacIds 3 (mkConnection 0xFFFE 0 [])) \<and> 0 \<notin> set (snacIds 3 (mkConnection 0xFFFE 0 []))"
  by (rule snac_ids_distinct) simp

subsection \<open>What is written\<close>

definition nextFlap :: "u16 \<Rightarrow> u16" where
  "nextFlap s = (if s + 1 \<ge> 0x8000 then 1 else s + 1)"

fun flapSeqs :: "anyTransfer list \<Rightarrow> u16 list" where
  "flapSeqs [] = []"
| "flapSeqs (RawTransfer t # ts) = flapSeqs ts"
| "flapSeqs (FlapTransfer t # ts) = m_flapSequence t # flapSeqs ts"
| "flapSeqs (SnacTransfer t # ts) = m_flapSequence t # flapSeqs ts"

fun chain :: "u16 \<Rightarrow> u16 list \<Rightarrow> bool" where
  "chain s [] = True"
| "chain s (x # xs) = (x = nextFlap s \<and> chain x xs)"

lemma flapSeqs_append [simp]: "flapSeqs (xs @ ys) = flapSeqs xs @ flapSeqs ys"
  by (induction xs rule: flapSeqs.induct) simp_all

lemma chain_append: "chain s (xs @ [x]) \<longleftrightarrow> chain s xs \<and> x = nextFlap (last (s # xs))"
  by (induction xs arbitrary: s) auto

lemma flapSequence_eq: "flapSequence c = (nextFlap (cn_flapSequence c), c\<lparr>cn_flapSequence := nextFlap (cn_flapSequence c)\<rparr>)"
  by (simp add: flapSequence_def nextFlap_def Let_def)

text \<open>The numbers written so far follow on from \<open>s0\<close> and the connection is at the last one.\<close>

definition seq_inv :: "u16 \<Rightarrow> connection \<Rightarrow> bool" where
  "seq_inv s0 c \<longleftrightarrow> cn_clientStream c \<and> chain s0 (flapSeqs (cn_written c))
     \<and> cn_flapSequence c = last (s0 # flapSeqs (cn_written c))"

lemma seq_inv_append:
  assumes "seq_inv s0 c" "cn_written c' = cn_written c @ [t]" "cn_clientStream c'"
    "flapSeqs [t] = [] \<and> cn_flapSequence c' = cn_flapSequence c
     \<or> flapSeqs [t] = [nextFlap (cn_flapSequence c)] \<and> cn_flapSequence c' = nextFlap (cn_flapSequence c)"
  shows "seq_inv s0 c'"
  using assms by (auto simp: seq_inv_def chain_append)

lemma seq_inv_transferReady: "seq_inv s0 c \<Longrightarrow> seq_inv s0 (transferReady t c)"
  by (rule seq_inv_append [where t = "withFlapSequence (nextFlap (cn_flapSequence c)) t"])
    (auto simp: seq_inv_def transferReady_def flapSequence_eq forcedSend_def setFlapSequence_def
      split: anyTransfer.splits)

lemma seq_inv_fold: "seq_inv s0 c \<Longrightarrow> seq_inv s0 (fold transferReady ts c)"
  by (induction ts arbitrary: c) (simp_all add: seq_inv_transferReady)

lemma seq_inv_deliver: "deliver i r c = Some c' \<Longrightarrow> seq_inv s0 c \<Longrightarrow> seq_inv s0 c'"
  by (auto simp: deliver_def seq_inv_def [of s0 "c\<lparr>classList := _\<rparr>"] seq_inv_def [of s0 c] split: option.splits
      intro!: seq_inv_fold)

text \<open>The transfers that wait in the rate classes.\<close>

definition waiting :: "connection \<Rightarrow> anyTransfer multiset" where
  "waiting c = (\<Sum>rc \<leftarrow> classList c. mset (m_packetQueue rc))"

text \<open>
  The life of a connection to the server: classes are registered, transfers are sent, class
  timers fire, the levels are recalculated, the keep-alive is written, and the connection is reset,
  on its own or when it is closed, which deletes the classes with what waits in them.  \<open>ins\<close>
  collects what was handed over for writing and \<open>dumped\<close> what was deleted.
\<close>

inductive cn_run :: "connection \<Rightarrow> connection \<Rightarrow> anyTransfer list \<Rightarrow> anyTransfer multiset \<Rightarrow> bool" for c0 where
  cn_init: "cn_run c0 c0 [] {#}"
| cn_register: "cn_run c0 c ins dumped \<Longrightarrow> m_packetQueue rc = [] \<Longrightarrow> cn_run c0 (registerClass rc c) ins dumped"
| cn_send: "cn_run c0 c ins dumped \<Longrightarrow> send now t c = Some c' \<Longrightarrow> cn_run c0 c' (ins @ [t]) dumped"
| cn_timer: "cn_run c0 c ins dumped \<Longrightarrow> i < length (classList c) \<Longrightarrow> classTimer now i c = Some c'
    \<Longrightarrow> cn_run c0 c' ins dumped"
| cn_recalc: "cn_run c0 c ins dumped \<Longrightarrow> recalcRateLevels now c = Some c' \<Longrightarrow> cn_run c0 c' ins dumped"
| cn_noop: "cn_run c0 c ins dumped \<Longrightarrow> cn_run c0 (doNoop True c)
    (ins @ [FlapTransfer (mkFlapTransfer \<lparr>flap_channel = 0x05, flap_sequence = 0, flap_length = 0\<rparr> emptyBuffer)]) dumped"
| cn_info: "cn_run c0 c ins dumped \<Longrightarrow> cn_run c0 (addMessageInfo k m c) ins dumped"
| cn_take: "cn_run c0 c ins dumped \<Longrightarrow> cn_run c0 (snd (takeMessageInfo k c)) ins dumped"
| cn_family: "cn_run c0 c ins dumped \<Longrightarrow> cn_run c0 (addToSupportedFamilies fs c) ins dumped"
| cn_login: "cn_run c0 c ins dumped \<Longrightarrow> cn_run c0 (loggedIn c) ins dumped"
| cn_reset: "cn_run c0 c ins dumped \<Longrightarrow> cn_run c0 (resetConnection c) ins (dumped + waiting c)"

lemma queueTransfer_cases:
  assumes "queueTransfer now t c = Some c'"
  obtains (direct) "c' = transferReady t c"
  | (queued) i where "i < length (classList c)" "deliver i (enqueue now t (classList c ! i)) c = Some c'"
proof -
  have index: "findRateClass f u rcs = Some i \<Longrightarrow> i < length rcs" for f u rcs i
    by (induction rcs arbitrary: i) (auto split: if_splits)
  show thesis
  proof (cases t)
    case (SnacTransfer st)
    with assms show thesis
      using direct queued [OF index]
      by (cases "findRateClass (m_snacService st) (m_snacSubtype st) (classList c)")
        (auto simp: queueTransfer_def)
  qed (use assms direct in \<open>auto simp: queueTransfer_def\<close>)
qed

lemmas connection_defs = registerClass_def addMessageInfo_def takeMessageInfo_def addToSupportedFamilies_def
  loggedIn_def resetConnection_def

lemma seq_inv_run: "cn_run c0 c ins dumped \<Longrightarrow> seq_inv s0 c0 \<Longrightarrow> seq_inv s0 c"
proof (induction rule: cn_run.induct)
  case (cn_send c ins dumped now t c')
  then have "queueTransfer now t c = Some c'" by (simp add: send_def seq_inv_def)
  then show ?case using cn_send by (cases rule: queueTransfer_cases) (auto intro: seq_inv_transferReady seq_inv_deliver)
next
  case (cn_timer c ins dumped i now c')
  then show ?case by (auto simp: classTimer_def intro: seq_inv_deliver)
next
  case (cn_noop c ins dumped)
  then have "seq_inv s0 c" by simp
  then show ?case
    by (rule seq_inv_append [where t = "FlapTransfer (mkFlapTransfer
        \<lparr>flap_channel = 0x05, flap_sequence = nextFlap (cn_flapSequence c), flap_length = 0\<rparr> emptyBuffer)"])
      (use cn_noop in \<open>auto simp: doNoop_def flapSequence_eq seq_inv_def mkFlapTransfer_def\<close>)
next
  case (cn_recalc c ins dumped now c')
  then show ?case by (auto simp: recalcRateLevels_def seq_inv_def)
qed (simp_all add: connection_defs seq_inv_def)

text \<open>
  The FLAP frames a connection writes are numbered without a gap, whatever was queued for
  rate limiting, whichever timer sent it and wherever the keep-alives fall: each number is the
  previous one plus one, and 1 after \<^verbatim>\<open>0x7FFF\<close>.
\<close>

theorem flap_sequences_consecutive:
  assumes "cn_run (mkConnection random qrand starts) c ins dumped"
  shows "chain (cn_flapSequence (mkConnection random qrand starts)) (flapSeqs (cn_written c))"
proof -
  have "seq_inv (cn_flapSequence (mkConnection random qrand starts)) (mkConnection random qrand starts)"
    by (simp add: seq_inv_def mkConnection_def initSequence_def Let_def)
  with seq_inv_run [OF assms] show ?thesis by (simp add: seq_inv_def)
qed

theorem flap_sequences_consecutive_witness:
  "chain 4 (flapSeqs (cn_written (doNoop True (doNoop True (mkConnection 0 0 [5])))))"
proof -
  have "chain (cn_flapSequence (mkConnection 0 0 [5])) (flapSeqs (cn_written (doNoop True (doNoop True (mkConnection 0 0 [5])))))"
    by (rule flap_sequences_consecutive) (rule cn_noop, rule cn_noop, rule cn_init)
  moreover have "cn_flapSequence (mkConnection 0 0 [5]) = 4" by (simp add: mkConnection_def initSequence_def)
  ultimately show ?thesis by (simp only:)
qed

subsection \<open>Nothing is lost\<close>

definition withoutSeq :: "anyTransfer \<Rightarrow> anyTransfer" where
  "withoutSeq = withFlapSequence 0"

lemma withoutSeq_idem [simp]: "withoutSeq (withFlapSequence s t) = withoutSeq t"
  by (cases t) (simp_all add: withoutSeq_def setFlapSequence_def)

lemma transferReady_written:
  "cn_clientStream c \<Longrightarrow> map withoutSeq (cn_written (transferReady t c)) = map withoutSeq (cn_written c) @ [withoutSeq t]
    \<and> classList (transferReady t c) = classList c \<and> cn_clientStream (transferReady t c)"
proof -
  assume "cn_clientStream c"
  then have "\<exists>s. cn_written (transferReady t c) = cn_written c @ [withFlapSequence s t]
      \<and> classList (transferReady t c) = classList c \<and> cn_clientStream (transferReady t c)"
    by (cases t) (simp_all add: transferReady_def forcedSend_def flapSequence_eq, blast+)
  then show ?thesis by auto
qed

lemma fold_transferReady_written:
  "cn_clientStream c \<Longrightarrow> map withoutSeq (cn_written (fold transferReady ts c)) = map withoutSeq (cn_written c) @ map withoutSeq ts
    \<and> classList (fold transferReady ts c) = classList c \<and> cn_clientStream (fold transferReady ts c)"
  by (induction ts arbitrary: c) (use transferReady_written in simp_all)

lemma updateAll_queues: "updateAll now rcs = Some rcs' \<Longrightarrow> map m_packetQueue rcs' = map m_packetQueue rcs"
  by (induction rcs arbitrary: rcs') (auto dest: updateRateInfo_queue split: option.splits)

lemma waiting_map: "waiting c = \<Sum>\<^sub># (mset (map (\<lambda>q. mset q) (map m_packetQueue (classList c))))"
  by (simp add: waiting_def comp_def sum_mset_sum_list [symmetric])

definition balance :: "connection \<Rightarrow> anyTransfer multiset" where
  "balance c = mset (map withoutSeq (cn_written c)) + image_mset withoutSeq (waiting c)"

lemma waiting_update:
  "i < length (classList c) \<Longrightarrow> waiting (c\<lparr>classList := (classList c)[i := rc]\<rparr>) + mset (m_packetQueue (classList c ! i))
    = waiting c + mset (m_packetQueue rc)"
proof -
  have "i < length l \<Longrightarrow> (\<Sum>rc \<leftarrow> l[i := rc]. mset (m_packetQueue rc)) + mset (m_packetQueue (l ! i))
      = (\<Sum>rc \<leftarrow> l. mset (m_packetQueue rc)) + mset (m_packetQueue rc)" for l
    by (induction l arbitrary: i) (auto split: nat.splits simp: ac_simps)
  then show "i < length (classList c) \<Longrightarrow> ?thesis" by (simp add: waiting_def)
qed

lemma deliver_balance:
  assumes "deliver i r c = Some c'" "i < length (classList c)" "cn_clientStream c"
    "\<And>sent rc. r = Some (sent, rc) \<Longrightarrow> mset sent + mset (m_packetQueue rc) = mset (m_packetQueue (classList c ! i)) + M"
  shows "balance c' = balance c + image_mset withoutSeq M \<and> cn_clientStream c'"
proof -
  from assms(1) obtain sent rc where r: "r = Some (sent, rc)"
    and c': "c' = fold transferReady sent (c\<lparr>classList := (classList c)[i := rc]\<rparr>)"
    by (auto simp: deliver_def split: option.splits)
  let ?c = "c\<lparr>classList := (classList c)[i := rc]\<rparr>"
  have f: "map withoutSeq (cn_written c') = map withoutSeq (cn_written c) @ map withoutSeq sent"
      "classList c' = classList ?c" "cn_clientStream c'"
    using fold_transferReady_written [of ?c sent] assms(3) by (simp_all add: c')
  have w: "waiting c' + mset (m_packetQueue (classList c ! i)) = waiting c + mset (m_packetQueue rc)"
    using waiting_update [OF assms(2), of rc] f(2) by (simp add: waiting_def)
  have "mset sent + waiting c' + mset (m_packetQueue (classList c ! i))
      = waiting c + M + mset (m_packetQueue (classList c ! i))"
    using w assms(4) [OF r] by (metis (no_types, lifting) add.assoc add.commute)
  then have "mset sent + waiting c' = waiting c + M" by simp
  then have "image_mset withoutSeq (mset sent) + image_mset withoutSeq (waiting c')
      = image_mset withoutSeq (waiting c) + image_mset withoutSeq M"
    by (metis image_mset_union)
  with f show ?thesis by (simp add: balance_def add.assoc)
qed

lemma balance_run:
  "cn_run c0 c ins dumped \<Longrightarrow> cn_clientStream c0 \<Longrightarrow>
     balance c + image_mset withoutSeq dumped = balance c0 + mset (map withoutSeq ins) \<and> cn_clientStream c"
proof (induction rule: cn_run.induct)
  case (cn_send c ins dumped now t c')
  then have q: "queueTransfer now t c = Some c'" by (simp add: send_def)
  from q show ?case
  proof (cases rule: queueTransfer_cases)
    case direct
    with cn_send transferReady_written [of c t] show ?thesis by (simp add: balance_def waiting_def ac_simps)
  next
    case (queued i)
    have "mset sent + mset (m_packetQueue rc) = mset (m_packetQueue (classList c ! i)) + {#t#}"
      if "enqueue now t (classList c ! i) = Some (sent, rc)" for sent rc
      using rate_port.push_conserves [OF that] by (metis mset.simps mset_append)
    with deliver_balance [OF queued(2,1)] cn_send show ?thesis by (simp add: ac_simps)
  qed
next
  case (cn_timer c ins dumped i now c')
  have "mset sent + mset (m_packetQueue rc) = mset (m_packetQueue (classList c ! i)) + {#}"
    if "fireTimer now (classList c ! i) = Some (sent, rc)" for sent rc
    using rate_port.fire_conserves [OF that] by (metis add.right_neutral mset_append)
  with deliver_balance [of i _ c c' "{#}"] cn_timer show ?case by (auto simp: classTimer_def)
next
  case (cn_noop c ins dumped)
  then show ?case
    by (simp add: doNoop_def flapSequence_eq balance_def waiting_def withoutSeq_def mkFlapTransfer_def
        setFlapSequence_def ac_simps)
next
  case (cn_recalc c ins dumped now c')
  then obtain l where l: "updateAll now (classList c) = Some l" "c' = c\<lparr>classList := l\<rparr>"
    by (auto simp: recalcRateLevels_def)
  then have "balance c' = balance c" by (simp add: balance_def waiting_map updateAll_queues)
  with cn_recalc l(2) show ?case by simp
next
  case (cn_reset c ins dumped)
  have "balance (resetConnection c) + image_mset withoutSeq (waiting c) = balance c"
    by (simp add: balance_def resetConnection_def waiting_def)
  with cn_reset show ?case by (simp add: resetConnection_def ac_simps)
qed (simp_all add: connection_defs balance_def waiting_def)

lemma balance_initial:
  assumes "cn_run (mkConnection random qrand starts) c ins dumped"
  shows "balance c + image_mset withoutSeq dumped = mset (map withoutSeq ins)"
proof -
  let ?c0 = "mkConnection random qrand starts"
  have "cn_clientStream ?c0" "balance ?c0 = {#}"
    by (simp_all add: balance_def waiting_def mkConnection_def initSequence_def Let_def)
  with balance_run [OF assms] show ?thesis by simp
qed

text \<open>
  C13: a connection duplicates nothing and loses only what waits when it is reset or closed.  At any
  time the transfers written, those waiting in the rate classes and those that waited there at a
  reset are together, up to the sequence number, exactly those handed over.
\<close>

theorem nothing_lost:
  assumes "cn_run (mkConnection random qrand starts) c ins dumped"
  shows "mset (map withoutSeq (cn_written c)) + image_mset withoutSeq (waiting c) + image_mset withoutSeq dumped
    = mset (map withoutSeq ins)"
  using balance_initial [OF assms] by (simp add: balance_def)

text \<open>A SNAC of a rate-limited class, sent at once.\<close>

lemma sample_send_run:
  "\<exists>c. cn_run (mkConnection 0 0 [5]) c [SnacTransfer (mkSnacTransferWith emptyBuffer 2 0 0 4 6 0 1)] {#}
     \<and> length (cn_written c) = 1"
proof -
  let ?t = "SnacTransfer (mkSnacTransferWith emptyBuffer 2 0 0 4 6 0 1)"
  let ?rc = "addMember 4 6 (mkRateClass sampleRate 0)"
  let ?c = "registerClass ?rc (mkConnection 0 0 [5])"
  have cl: "classList ?c = [?rc]" "cn_clientStream ?c" "cn_written ?c = []"
    by (simp_all add: registerClass_def mkConnection_def initSequence_def)
  have "enqueue 40 ?t ?rc = Some ([?t], ?rc\<lparr>m_rateInfo := sampleRate\<lparr>ri_currentLevel := 5925\<rparr>, rc_started := 40\<rparr>)"
    by (simp add: enqueue_def setupTimer.simps slotSend.simps sendFirst_def updateRateInfo_def dequeue_def
      timeToNextSend_def calcNewLevel_def elapsed_def mkRateClass_def sampleRate_def RATE_SAFETY_TIME_def addMember_def)
  then have "\<exists>c'. send 40 ?t ?c = Some c' \<and> length (cn_written c') = 1"
    using cl by (simp add: send_def queueTransfer_def isMember_def addMember_def mkRateClass_def deliver_def
        transferReady_def flapSequence_eq forcedSend_def mkSnacTransferWith_def mkFlapTransferWith_def
        flapTransfer.defs snacTransfer.defs)
  then obtain c' where "send 40 ?t ?c = Some c'" "length (cn_written c') = 1" by blast
  moreover have "cn_run (mkConnection 0 0 [5]) ?c [] {#}"
    by (rule cn_register [OF cn_init]) (simp add: addMember_def mkRateClass_def)
  ultimately show ?thesis using cn_send [of "mkConnection 0 0 [5]" ?c "[]" "{#}" 40 ?t c'] by auto
qed

text \<open>A SNAC that waits for its class when the connection is closed.\<close>

lemma sample_dump_run:
  "\<exists>c. cn_run (mkConnection 0 0 [5]) c [SnacTransfer (mkSnacTransferWith emptyBuffer 2 0 0 4 6 0 1)]
     {#SnacTransfer (mkSnacTransferWith emptyBuffer 2 0 0 4 6 0 1)#} \<and> cn_written c = []"
proof -
  let ?t = "SnacTransfer (mkSnacTransferWith emptyBuffer 2 0 0 4 6 0 1)"
  let ?rc = "addMember 4 6 (mkRateClass (sampleRate\<lparr>ri_currentLevel := 2000\<rparr>) 0)"
  let ?c = "registerClass ?rc (mkConnection 0 0 [5])"
  have cl: "classList ?c = [?rc]" "cn_clientStream ?c" "cn_written ?c = []"
    by (simp_all add: registerClass_def mkConnection_def initSequence_def)
  have "enqueue 40 ?t ?rc = Some ([], ?rc\<lparr>m_packetQueue := [?t], m_waitingToSend := True, rc_shots := [(40, 6000)]\<rparr>)"
    by (simp add: enqueue_def setupTimer.simps timeToNextSend_def calcNewLevel_def elapsed_def mkRateClass_def
        sampleRate_def RATE_SAFETY_TIME_def addMember_def)
  then have "\<exists>c'. send 40 ?t ?c = Some c' \<and> cn_written c' = [] \<and> waiting c' = {#?t#}"
    using cl by (simp add: send_def queueTransfer_def isMember_def addMember_def mkRateClass_def deliver_def
        waiting_def mkSnacTransferWith_def mkFlapTransferWith_def flapTransfer.defs snacTransfer.defs)
  then obtain c' where c': "send 40 ?t ?c = Some c'" "cn_written c' = []" "waiting c' = {#?t#}" by blast
  have "cn_run (mkConnection 0 0 [5]) ?c [] {#}"
    by (rule cn_register [OF cn_init]) (simp add: addMember_def mkRateClass_def)
  from cn_reset [OF cn_send [OF this c'(1)]] c'(2,3) show ?thesis
    by (intro exI [of _ "resetConnection c'"]) (simp add: resetConnection_def)
qed

theorem nothing_lost_witness:
  "\<exists>c. cn_written c = [] \<and> mset (map withoutSeq (cn_written c)) + image_mset withoutSeq (waiting c)
     + image_mset withoutSeq {#SnacTransfer (mkSnacTransferWith emptyBuffer 2 0 0 4 6 0 1)#}
     = mset (map withoutSeq [SnacTransfer (mkSnacTransferWith emptyBuffer 2 0 0 4 6 0 1)])"
proof -
  obtain c where c: "cn_run (mkConnection 0 0 [5]) c [SnacTransfer (mkSnacTransferWith emptyBuffer 2 0 0 4 6 0 1)]
      {#SnacTransfer (mkSnacTransferWith emptyBuffer 2 0 0 4 6 0 1)#}" "cn_written c = []"
    using sample_dump_run by blast
  from nothing_lost [OF c(1)] c(2) show ?thesis by (intro exI [of _ c] conjI)
qed

end
