(* ===== verification/Oscar_Task.thy ===== *)
theory Oscar_Task
  imports Kopete_Prelude
begin

text \<open>
  The life of a task (\<^verbatim>\<open>tasks/task.cpp\<close>).  The slots connected to \<^verbatim>\<open>finished()\<close> run inside
  \<^verbatim>\<open>done()\<close> and may call the task again: their effect is the argument \<open>slots\<close>.
  \<open>tk_finished\<close> counts the emissions, \<open>tk_deletes\<close> the calls of \<^verbatim>\<open>SafeDelete::deleteSingle\<close>
  and \<open>tk_shots\<close> the pending single-shot timers of \<^verbatim>\<open>onDisconnect\<close>.
\<close>

record task =
  tk_id :: u32
  tk_success :: bool
  tk_statusCode :: int
  tk_statusString :: qstring
  tk_insignificant :: bool
  tk_deleteme :: bool
  tk_autoDelete :: bool
  tk_done :: bool
  tk_finished :: nat
  tk_deletes :: nat
  tk_shots :: nat

text \<open>\<^verbatim>\<open>statusCode\<close> is not initialised.\<close>

definition initTask :: "int \<Rightarrow> task" where
  "initTask code = \<lparr>tk_id = 0, tk_success = False, tk_statusCode = code, tk_statusString = [],
     tk_insignificant = False, tk_deleteme = False, tk_autoDelete = False, tk_done = False,
     tk_finished = 0, tk_deletes = 0, tk_shots = 0\<rparr>"

definition deleteSingle :: "task \<Rightarrow> task" where
  "deleteSingle d = d\<lparr>tk_deletes := tk_deletes d + 1\<rparr>"

definition goTask :: "bool \<Rightarrow> task \<Rightarrow> task" where
  "goTask autoDelete d = d\<lparr>tk_autoDelete := autoDelete\<rparr>"

definition setTaskId :: "u32 \<Rightarrow> task \<Rightarrow> task" where
  "setTaskId i d = d\<lparr>tk_id := i\<rparr>"

definition safeDelete :: "task \<Rightarrow> task" where
  "safeDelete d =
     (if tk_deleteme d then d
      else
        let d = d\<lparr>tk_deleteme := True\<rparr>
        in if \<not> tk_insignificant d then deleteSingle d else d)"

definition taskDone :: "(task \<Rightarrow> task) \<Rightarrow> task \<Rightarrow> task" where
  "taskDone slots d =
     (if tk_done d \<or> tk_insignificant d then d
      else
        let d = d\<lparr>tk_done := True\<rparr>;
            d = (if tk_deleteme d \<or> tk_autoDelete d then d\<lparr>tk_deleteme := True\<rparr> else d);
            d = d\<lparr>tk_insignificant := True\<rparr>;
            d = slots (d\<lparr>tk_finished := tk_finished d + 1\<rparr>);
            d = d\<lparr>tk_insignificant := False\<rparr>
        in if tk_deleteme d then deleteSingle d else d)"

definition setSuccess :: "(task \<Rightarrow> task) \<Rightarrow> int \<Rightarrow> qstring \<Rightarrow> task \<Rightarrow> task" where
  "setSuccess slots code str d =
     (if \<not> tk_done d
      then taskDone slots (d\<lparr>tk_success := True, tk_statusCode := code, tk_statusString := str\<rparr>)
      else d)"

definition setError :: "(task \<Rightarrow> task) \<Rightarrow> int \<Rightarrow> qstring \<Rightarrow> task \<Rightarrow> task" where
  "setError slots code str d =
     (if \<not> tk_done d
      then taskDone slots (d\<lparr>tk_success := False, tk_statusCode := code, tk_statusString := str\<rparr>)
      else d)"

text \<open>\<^verbatim>\<open>ErrDisc\<close> is 0 in the enumeration of \<^verbatim>\<open>task.h\<close>; the text is translated.\<close>

definition onDisconnect :: "qstring \<Rightarrow> task \<Rightarrow> task" where
  "onDisconnect disconnected d =
     (if \<not> tk_done d
      then d\<lparr>tk_success := False, tk_statusCode := 0, tk_statusString := disconnected, tk_shots := tk_shots d + 1\<rparr>
      else d)"

text \<open>The event loop calls \<^verbatim>\<open>done()\<close> for a pending timer.\<close>

definition taskShot :: "(task \<Rightarrow> task) \<Rightarrow> task \<Rightarrow> task" where
  "taskShot slots d = (if tk_shots d = 0 then d else taskDone slots (d\<lparr>tk_shots := tk_shots d - 1\<rparr>))"

subsection \<open>Sequences of calls\<close>

datatype taskOp =
    OpGo bool | OpSafeDelete | OpDone | OpSuccess int qstring | OpError int qstring | OpDisconnect qstring | OpShot

primrec runOp :: "(task \<Rightarrow> task) \<Rightarrow> taskOp \<Rightarrow> task \<Rightarrow> task" where
  "runOp slots (OpGo a) d = goTask a d"
| "runOp slots OpSafeDelete d = safeDelete d"
| "runOp slots OpDone d = taskDone slots d"
| "runOp slots (OpSuccess c s) d = setSuccess slots c s d"
| "runOp slots (OpError c s) d = setError slots c s d"
| "runOp slots (OpDisconnect s) d = onDisconnect s d"
| "runOp slots OpShot d = taskShot slots d"

text \<open>
  Slots that call the task back.  While they run \<^verbatim>\<open>done\<close> is set, so a nested call emits
  nothing and the slots of nested calls do not matter.
\<close>

definition slotCalls :: "taskOp list \<Rightarrow> task \<Rightarrow> task" where
  "slotCalls ops = fold (runOp (\<lambda>d. d)) ops"

lemma runOp_done:
  "tk_done d \<Longrightarrow> tk_done (runOp slots op d) \<and> tk_finished (runOp slots op d) = tk_finished d
    \<and> tk_success (runOp slots op d) = tk_success d \<and> tk_statusCode (runOp slots op d) = tk_statusCode d
    \<and> tk_statusString (runOp slots op d) = tk_statusString d \<and> tk_insignificant (runOp slots op d) = tk_insignificant d
    \<and> (tk_insignificant d \<longrightarrow> tk_deletes (runOp slots op d) = tk_deletes d)
    \<and> (tk_deleteme d \<longrightarrow> tk_deleteme (runOp slots op d) \<and> tk_deletes (runOp slots op d) = tk_deletes d)"
  by (cases op) (simp_all add: goTask_def safeDelete_def taskDone_def setSuccess_def setError_def
      onDisconnect_def taskShot_def deleteSingle_def Let_def)

lemma fold_runOp_done:
  "tk_done d \<Longrightarrow> tk_done (fold (runOp slots) ops d) \<and> tk_finished (fold (runOp slots) ops d) = tk_finished d
    \<and> tk_success (fold (runOp slots) ops d) = tk_success d \<and> tk_statusCode (fold (runOp slots) ops d) = tk_statusCode d
    \<and> tk_statusString (fold (runOp slots) ops d) = tk_statusString d
    \<and> tk_insignificant (fold (runOp slots) ops d) = tk_insignificant d
    \<and> (tk_insignificant d \<longrightarrow> tk_deletes (fold (runOp slots) ops d) = tk_deletes d)"
proof (induction ops arbitrary: d)
  case (Cons op ops)
  note r = runOp_done [OF Cons.prems, of slots op]
  then have "tk_done (runOp slots op d)" by blast
  from Cons.IH [OF this] r show ?case by simp
qed simp

text \<open>Before \<^verbatim>\<open>done()\<close> nothing is emitted and no callback runs; afterwards one emission happened.\<close>

definition task_inv :: "task \<Rightarrow> bool" where
  "task_inv d \<longleftrightarrow> \<not> tk_insignificant d \<and> tk_finished d = (if tk_done d then 1 else 0)"

lemma taskDone_emits:
  assumes "task_inv d" "\<not> tk_done d"
  shows "task_inv (taskDone (slotCalls ops) d) \<and> tk_done (taskDone (slotCalls ops) d)
    \<and> tk_finished (taskDone (slotCalls ops) d) = 1
    \<and> tk_success (taskDone (slotCalls ops) d) = tk_success d \<and> tk_statusCode (taskDone (slotCalls ops) d) = tk_statusCode d"
proof -
  define e where "e = (if tk_deleteme d \<or> tk_autoDelete d then d\<lparr>tk_done := True, tk_deleteme := True\<rparr> else d\<lparr>tk_done := True\<rparr>)
    \<lparr>tk_insignificant := True, tk_finished := tk_finished d + 1\<rparr>"
  have e: "tk_done e" "tk_insignificant e" "tk_finished e = 1" "tk_success e = tk_success d" "tk_statusCode e = tk_statusCode d"
    using assms by (simp_all add: e_def task_inv_def)
  let ?f = "slotCalls ops e"
  note f = fold_runOp_done [OF e(1), of "\<lambda>d. d" ops, folded slotCalls_def]
  have "taskDone (slotCalls ops) d = (if tk_deleteme ?f then deleteSingle (?f\<lparr>tk_insignificant := False\<rparr>)
      else ?f\<lparr>tk_insignificant := False\<rparr>)"
    using assms by (simp add: taskDone_def task_inv_def e_def Let_def)
  with f e show ?thesis by (simp add: task_inv_def deleteSingle_def)
qed

lemma task_inv_simps [simp]:
  "task_inv (d\<lparr>tk_autoDelete := a\<rparr>) = task_inv d" "task_inv (d\<lparr>tk_deleteme := a\<rparr>) = task_inv d"
  "task_inv (d\<lparr>tk_deletes := n\<rparr>) = task_inv d" "task_inv (d\<lparr>tk_shots := n\<rparr>) = task_inv d"
  "task_inv (d\<lparr>tk_success := a, tk_statusCode := c, tk_statusString := s\<rparr>) = task_inv d"
  by (simp_all add: task_inv_def)

lemma task_inv_taskDone: "task_inv d \<Longrightarrow> task_inv (taskDone (slotCalls ops) d)"
  using taskDone_emits [of d ops] by (cases "tk_done d") (auto simp: taskDone_def)

lemma task_inv_runOp: "task_inv d \<Longrightarrow> task_inv (runOp (slotCalls ops) op d)"
  by (cases op) (auto simp: goTask_def safeDelete_def setSuccess_def setError_def onDisconnect_def taskShot_def
      deleteSingle_def Let_def intro: task_inv_taskDone)

lemma task_inv_fold: "task_inv d \<Longrightarrow> task_inv (fold (runOp (slotCalls ops)) calls d)"
  by (induction calls arbitrary: d) (simp_all add: task_inv_runOp)

text \<open>
  A task finishes once.  Whatever calls it gets, and whatever the slots of \<^verbatim>\<open>finished()\<close> call
  back, the signal is emitted at most once, exactly when the task is done, and a task that is
  done keeps its result and status whatever is called afterwards.
\<close>

theorem task_finishes_once:
  "tk_finished (fold (runOp (slotCalls ops)) calls (initTask code))
     = (if tk_done (fold (runOp (slotCalls ops)) calls (initTask code)) then 1 else 0)
   \<and> (let d = fold (runOp (slotCalls ops)) calls (initTask code)
      in tk_done (setSuccess (slotCalls ops) c s d) \<and> tk_finished (setSuccess (slotCalls ops) c s d) = 1
         \<and> (if tk_done d then setSuccess (slotCalls ops) c s d = d \<and> setError (slotCalls ops) c s d = d
             else tk_success (setSuccess (slotCalls ops) c s d) \<and> tk_statusCode (setSuccess (slotCalls ops) c s d) = c))"
proof -
  let ?d = "fold (runOp (slotCalls ops)) calls (initTask code)"
  have inv: "task_inv ?d" by (rule task_inv_fold) (simp add: initTask_def task_inv_def)
  show ?thesis
  proof (cases "tk_done ?d")
    case True
    with inv show ?thesis by (simp add: task_inv_def setSuccess_def setError_def)
  next
    case False
    let ?e = "?d\<lparr>tk_success := True, tk_statusCode := c, tk_statusString := s\<rparr>"
    have "task_inv ?e" "\<not> tk_done ?e" using inv False by simp_all
    from taskDone_emits [OF this, of ops] False inv show ?thesis
      by (simp add: setSuccess_def task_inv_def)
  qed
qed

end
