(* ===== verification/Oscar_SSI.thy ===== *)
theory Oscar_SSI
  imports Oscar_ContactManager Oscar_Connection Oscar_Task
begin

text \<open>
  The task that edits the server-side list (\<^verbatim>\<open>tasks/ssimodifytask.cpp\<close>).  Its state holds the
  items of the operation, the base class's state, the contact manager and the connection it
  draws request ids from; \<open>st_sent\<close> is what it passed to \<^verbatim>\<open>Connection::send\<close>.  The Qt
  conversions and the slots of \<^verbatim>\<open>finished()\<close> are the record \<open>env\<close>.  A result \<open>None\<close> is a
  read outside an array.
\<close>

subsection \<open>State\<close>

datatype ssi_op = NoType | AddOp | RemoveOp | RenameOp | ChangeOp

datatype ssi_subject = NoSubject | ContactSubject | GroupSubject | VisibilitySubject | InvisibilitySubject

record env =
  env_toLower :: "qstring \<Rightarrow> qstring"
  env_fromUtf8 :: "bytes \<Rightarrow> qstring"
  env_toUtf8 :: "qstring \<Rightarrow> bytes"
  env_slots :: "task \<Rightarrow> task"

record ssiTask =
  st_old :: ocontact
  st_new :: ocontact
  st_groupItem :: ocontact
  st_op :: ssi_op
  st_subject :: ssi_subject
  st_id :: u32
  st_static :: bool
  st_task :: task
  st_manager :: contactManager
  st_conn :: connection
  st_sent :: "snacTransfer list"

definition mkSsiTask :: "int \<Rightarrow> bool \<Rightarrow> contactManager \<Rightarrow> connection \<Rightarrow> ssiTask" where
  "mkSsiTask code staticTask manager conn =
     \<lparr>st_old = dummyItem, st_new = dummyItem, st_groupItem = dummyItem, st_op = NoType,
      st_subject = NoSubject, st_id = 0, st_static = staticTask, st_task = initTask code,
      st_manager = manager, st_conn = conn, st_sent = []\<rparr>"

abbreviation with_manager :: "(contactManager \<Rightarrow> contactManager) \<Rightarrow> ssiTask \<Rightarrow> ssiTask" where
  "with_manager f s \<equiv> s\<lparr>st_manager := f (st_manager s)\<rparr>"

definition ssiSuccess :: "env \<Rightarrow> ssiTask \<Rightarrow> ssiTask" where
  "ssiSuccess env s = s\<lparr>st_task := setSuccess (env_slots env) 0 [] (st_task s)\<rparr>"

subsection \<open>Scheduling an operation\<close>

text \<open>The result is the return value and the new state.\<close>

definition ssiAddContact :: "env \<Rightarrow> qstring \<Rightarrow> qstring \<Rightarrow> bool \<Rightarrow> ssiTask \<Rightarrow> (bool \<times> ssiTask) option" where
  "ssiAddContact env contact grp requiresAuth s =
     (let s = s\<lparr>st_op := AddOp, st_subject := ContactSubject\<rparr>;
          uin = normalize (env_toLower env) contact;
          groupItem = findGroup (env_toLower env) (st_manager s) grp
      in if \<not> isValid groupItem then Some (False, s)
         else
           let tlvList = (if requiresAuth then [mkTLV 0x0066 0 []] else []);
               (i, m) = nextContactId (st_manager s);
               s = s\<lparr>st_manager := m\<rparr>
           in case mkOContact (env_fromUtf8 env) uin (uint (oc_gid groupItem)) (uint i)
                     (uint ROSTER_CONTACT) tlvList 0 of
                None \<Rightarrow> None
              | Some it \<Rightarrow> Some (True, s\<lparr>st_new := it\<rparr>))"

definition ssiRemoveContact :: "env \<Rightarrow> qstring \<Rightarrow> ssiTask \<Rightarrow> bool \<times> ssiTask" where
  "ssiRemoveContact env contact s =
     (True, s\<lparr>st_op := RemoveOp, st_subject := ContactSubject,
        st_old := findContact (st_manager s) (normalize (env_toLower env) contact)\<rparr>)"

definition ssiChangeGroup :: "env \<Rightarrow> qstring \<Rightarrow> qstring \<Rightarrow> ssiTask \<Rightarrow> (bool \<times> ssiTask) option" where
  "ssiChangeGroup env contact grp s =
     (let s = s\<lparr>st_op := ChangeOp, st_subject := GroupSubject,
            st_old := findContact (st_manager s) (normalize (env_toLower env) contact)\<rparr>
      in if \<not> isValid (st_old s) then Some (False, s)
         else
           let oldGroupItem = findGroup (env_toLower env) (st_manager s) grp
           in if oc_gid (st_old s) = oc_gid oldGroupItem then Some (False, s)
              else
                let s = s\<lparr>st_groupItem := findGroup (env_toLower env) (st_manager s) grp\<rparr>
                in if \<not> isValid (st_groupItem s) then Some (False, s)
                   else (case mkOContact (env_fromUtf8 env) (m_name (st_old s)) (uint (oc_gid (st_groupItem s)))
                                (uint (oc_bid (st_old s))) (uint ROSTER_CONTACT) (m_tlvList (st_old s)) 0 of
                           None \<Rightarrow> None
                         | Some it \<Rightarrow> Some (True, s\<lparr>st_new := it\<rparr>)))"

definition ssiAddGroup :: "env \<Rightarrow> qstring \<Rightarrow> ssiTask \<Rightarrow> (bool \<times> ssiTask) option" where
  "ssiAddGroup env groupName s =
     (let s = s\<lparr>st_op := AddOp, st_subject := GroupSubject,
            st_new := findGroup (env_toLower env) (st_manager s) groupName\<rparr>;
          (i, m) = nextGroupId (st_manager s);
          s = s\<lparr>st_manager := m\<rparr>
      in case mkOContact (env_fromUtf8 env) groupName (uint i) 0 (uint ROSTER_GROUP) [] 0 of
           None \<Rightarrow> None
         | Some it \<Rightarrow> Some (True, s\<lparr>st_new := it\<rparr>))"

definition ssiRemoveGroup :: "env \<Rightarrow> qstring \<Rightarrow> ssiTask \<Rightarrow> bool \<times> ssiTask" where
  "ssiRemoveGroup env groupName s =
     (True, s\<lparr>st_op := RemoveOp, st_subject := GroupSubject,
        st_old := findGroup (env_toLower env) (st_manager s) groupName\<rparr>)"

definition ssiRenameGroup :: "env \<Rightarrow> qstring \<Rightarrow> qstring \<Rightarrow> ssiTask \<Rightarrow> (bool \<times> ssiTask) option" where
  "ssiRenameGroup env oldName newName s =
     (let s = s\<lparr>st_op := RenameOp, st_subject := GroupSubject\<rparr>
      in if oldName = newName then Some (False, s)
         else
           let s = s\<lparr>st_old := findGroup (env_toLower env) (st_manager s) oldName\<rparr>
           in case mkOContact (env_fromUtf8 env) newName (uint (oc_gid (st_old s))) (uint (oc_bid (st_old s)))
                     (uint ROSTER_GROUP) (m_tlvList (st_old s)) 0 of
                None \<Rightarrow> None
              | Some it \<Rightarrow> Some (True, s\<lparr>st_new := it\<rparr>))"

definition ssiAddItem :: "ocontact \<Rightarrow> ssiTask \<Rightarrow> bool \<times> ssiTask" where
  "ssiAddItem item s = (True, s\<lparr>st_op := AddOp, st_subject := NoSubject, st_new := item\<rparr>)"

definition ssiRemoveItem :: "ocontact \<Rightarrow> ssiTask \<Rightarrow> bool \<times> ssiTask" where
  "ssiRemoveItem item s = (True, s\<lparr>st_op := RemoveOp, st_subject := NoSubject, st_old := item\<rparr>)"

definition ssiModifyItem :: "ocontact \<Rightarrow> ocontact \<Rightarrow> ssiTask \<Rightarrow> bool \<times> ssiTask" where
  "ssiModifyItem old new s =
     (if \<not> hasItem (st_manager s) old then (False, s)
      else if oc_type old \<noteq> oc_type new then (False, s)
      else (True, s\<lparr>st_old := old, st_new := new, st_op := ChangeOp, st_subject := NoSubject\<rparr>))"

definition ssiModifyContact :: "ocontact \<Rightarrow> ocontact \<Rightarrow> ssiTask \<Rightarrow> bool \<times> ssiTask" where
  "ssiModifyContact old new s =
     (let (ok, s) = ssiModifyItem old new s
      in if \<not> ok then (False, s) else (True, s\<lparr>st_subject := ContactSubject\<rparr>))"

subsection \<open>Items on the wire\<close>

definition addItemToBuffer :: "env \<Rightarrow> ocontact \<Rightarrow> buffer \<Rightarrow> buffer" where
  "addItemToBuffer env item b =
     (let b = addBSTR (env_toUtf8 env (m_name item)) b;
          b = addWord (oc_gid item) b;
          b = addWord (oc_bid item) b;
          b = addWord (oc_type item) b;
          b = addWord (tlvListLength item) b
      in fold addTLV (m_tlvList item) b)"

text \<open>The loop \<^verbatim>\<open>for ( int i = 0; i < tlvLength; )\<close>.\<close>

function itemTLVs :: "nat \<Rightarrow> nat \<Rightarrow> buffer \<Rightarrow> tlv list \<times> buffer" where
  "itemTLVs i tlvLength b =
     (if i < tlvLength
      then (let (t, b) = getTLV b;
                (ts, b) = itemTLVs (i + 4 + unat (tlv_length t)) tlvLength b
            in (t # ts, b))
      else ([], b))"
  by pat_completeness auto
termination
  by (relation "measure (\<lambda>(i, n, b). n - i)") auto

declare itemTLVs.simps [simp del]

definition getItemFromBuffer :: "env \<Rightarrow> buffer \<Rightarrow> (ocontact \<times> buffer) option" where
  "getItemFromBuffer env b =
     (let (name, b) = getBSTR b;
          itemName = env_fromUtf8 env name;
          (groupId, b) = getWord b;
          (itemId, b) = getWord b;
          (itemType, b) = getWord b;
          (tlvLength, b) = getWord b;
          (tlvList, b) = itemTLVs 0 (unat tlvLength) b;
          itemName = (if itemType = ROSTER_CONTACT then normalize (env_toLower env) itemName else itemName)
      in map_option (\<lambda>c. (c, b))
           (mkOContact (env_fromUtf8 env) itemName (uint groupId) (uint itemId) (uint itemType) tlvList 0))"

subsection \<open>Sending the update\<close>

definition ssiSnacSequence :: "ssiTask \<Rightarrow> u32 \<times> ssiTask" where
  "ssiSnacSequence s = (let (i, c) = snacSequence (st_conn s) in (i, s\<lparr>st_conn := c\<rparr>))"

definition sendSsi :: "u16 \<Rightarrow> u16 \<Rightarrow> u32 \<Rightarrow> buffer \<Rightarrow> ssiTask \<Rightarrow> ssiTask" where
  "sendSsi flapLength subtype i b s =
     (let f = \<lparr>flap_channel = 0x02, flap_sequence = 0, flap_length = flapLength\<rparr>;
          n = \<lparr>snac_family = 0x0013, snac_subtype = subtype, snac_flags = 0x0000, snac_id = i\<rparr>
      in s\<lparr>st_sent := st_sent s @ [mkSnacTransfer f n b]\<rparr>)"

definition sendEditStart :: "ssiTask \<Rightarrow> ssiTask" where
  "sendEditStart s = (let (i, s) = ssiSnacSequence s in sendSsi 10 0x0011 i emptyBuffer s)"

definition sendEditEnd :: "ssiTask \<Rightarrow> ssiTask" where
  "sendEditEnd s = (let (i, s) = ssiSnacSequence s in sendSsi 10 0x0012 i emptyBuffer s)"

text \<open>The loop over the ids of \<^verbatim>\<open>0x00C8\<close>.\<close>

function idsWithout :: "u16 \<Rightarrow> buffer \<Rightarrow> buffer \<Rightarrow> buffer" where
  "idsWithout bid tlvBuffer newTLVData =
     (if mReadPos tlvBuffer < length (mBuffer tlvBuffer)
      then (let (i, tlvBuffer) = getWord tlvBuffer
            in idsWithout bid tlvBuffer (if i \<noteq> bid then addWord i newTLVData else newTLVData))
      else newTLVData)"
  by pat_completeness auto
termination
  by (relation "measure (\<lambda>(i, b, n). length (mBuffer b) - mReadPos b)")
    (auto simp: getWord_def getByte_def Let_def split: if_splits)

declare idsWithout.simps [simp del]

definition oldGroupWithout :: "env \<Rightarrow> ocontact \<Rightarrow> ocontact \<Rightarrow> ocontact option" where
  "oldGroupWithout env oldItem oldGroupItem =
     (let list = m_tlvList oldGroupItem;
          oldIds = findTLV list 0x00C8
      in if tlv_type oldIds = 0x00C8
         then (case qba_chars (unat (tlv_length oldIds)) (tlv_data oldIds) of
                 None \<Rightarrow> None
               | Some d \<Rightarrow>
                   let newTLVData = idsWithout (oc_bid oldItem) (mkBuffer d) emptyBuffer;
                       newGroupTLV = mkTLV 0x00C8 (of_nat (bufLength newTLVData)) (mBuffer newTLVData)
                   in setTLVList (env_fromUtf8 env) (filter (\<lambda>x. \<not> tlv_eq x oldIds) list @ [newGroupTLV]) oldGroupItem)
         else Some oldGroupItem)"

text \<open>\<open>oldIds\<close> is the id list of the other group: \<^verbatim>\<open>list2.removeAll( oldIds )\<close>.\<close>

definition newGroupWith :: "env \<Rightarrow> tlv \<Rightarrow> ocontact \<Rightarrow> ocontact \<Rightarrow> ocontact option" where
  "newGroupWith env oldIds item groupItem =
     (let list2 = m_tlvList groupItem;
          oldIds2 = findTLV list2 0x00C8
      in if tlv_type oldIds2 = 0x00C8
         then (case qba_chars (unat (tlv_length oldIds2)) (tlv_data oldIds2) of
                 None \<Rightarrow> None
               | Some d \<Rightarrow>
                   let tlvBuffer = addWord (oc_bid item) (mkBuffer d);
                       newGroupTLV = mkTLV 0x00C8 (of_nat (bufLength tlvBuffer)) (mBuffer tlvBuffer)
                   in setTLVList (env_fromUtf8 env) (filter (\<lambda>x. \<not> tlv_eq x oldIds) list2 @ [newGroupTLV]) groupItem)
         else Some groupItem)"

definition changeGroupOnServer :: "env \<Rightarrow> ssiTask \<Rightarrow> ssiTask option" where
  "changeGroupOnServer env s =
     (let s = sendEditStart s;
          (i, s) = ssiSnacSequence s;
          b1 = addBSTR (env_toUtf8 env (m_name (st_old s))) emptyBuffer;
          b1 = addWord (oc_gid (st_old s)) b1;
          b1 = addWord (oc_bid (st_old s)) b1;
          b1 = addWord (oc_type (st_old s)) b1;
          b1 = addWord 0 b1;
          s = sendSsi 0 0x000A i b1 s;
          (i, s) = ssiSnacSequence s;
          s = s\<lparr>st_id := i\<rparr>;
          s = sendSsi 0 0x0008 (st_id s) (addItemToBuffer env (st_new s) emptyBuffer) s;
          oldGroup = findGroupById (st_manager s) (uint (oc_gid (st_old s)));
          oldIds = findTLV (m_tlvList oldGroup) 0x00C8
      in case oldGroupWithout env (st_old s) oldGroup of
           None \<Rightarrow> None
         | Some oldGroupItem \<Rightarrow>
             (case newGroupWith env oldIds (st_new s) (st_groupItem s) of
                None \<Rightarrow> None
              | Some groupItem \<Rightarrow>
                  let s = s\<lparr>st_groupItem := groupItem\<rparr>;
                      (i, s) = ssiSnacSequence s;
                      b3 = addItemToBuffer env oldGroupItem emptyBuffer;
                      b3 = addItemToBuffer env (st_groupItem s) b3;
                      s = sendSsi 0 0x0009 i b3 s
                  in Some (sendEditEnd s)))"

definition sendOneUpdate :: "env \<Rightarrow> u16 \<Rightarrow> ocontact \<Rightarrow> ssiTask \<Rightarrow> ssiTask" where
  "sendOneUpdate env subtype item s =
     (let s = sendEditStart s;
          (i, s) = ssiSnacSequence s;
          s = s\<lparr>st_id := i\<rparr>;
          s = sendSsi 0 subtype (st_id s) (addString (oc_toByteArray (env_toUtf8 env) item) emptyBuffer) s
      in sendEditEnd s)"

definition sendContactUpdate :: "env \<Rightarrow> ssiTask \<Rightarrow> ssiTask option" where
  "sendContactUpdate env s =
     (case (if st_subject s = GroupSubject \<and> st_op s = ChangeOp then changeGroupOnServer env s else Some s) of
        None \<Rightarrow> None
      | Some s \<Rightarrow>
          let s = (if st_op s = AddOp then sendOneUpdate env 0x0008 (st_new s) s else s);
              s = (if st_op s = RemoveOp then sendOneUpdate env 0x000A (st_old s) s else s);
              s = (if st_op s = RenameOp \<or> (st_op s = ChangeOp \<and> st_subject s \<noteq> GroupSubject)
                   then sendOneUpdate env 0x0009 (st_new s) s else s)
          in Some s)"

definition ssiGo :: "env \<Rightarrow> bool \<Rightarrow> ssiTask \<Rightarrow> ssiTask option" where
  "ssiGo env autoDelete s = sendContactUpdate env (s\<lparr>st_task := goTask autoDelete (st_task s)\<rparr>)"

subsection \<open>The answers\<close>

definition updateContactManager :: "env \<Rightarrow> ssiTask \<Rightarrow> ssiTask" where
  "updateContactManager env s =
     (let old = st_old s; new = st_new s; low = env_toLower env
      in if isValid old \<and> isValid new
         then ssiSuccess env
           (case st_subject s of
              ContactSubject \<Rightarrow>
                with_manager (\<lambda>m. snd (newContact new (snd (removeContactByName (m_name old) m)))) s
            | GroupSubject \<Rightarrow>
                (if st_op s = RenameOp then with_manager (\<lambda>m. snd (updateGroup low new m)) s
                 else if st_op s = ChangeOp then with_manager (\<lambda>m. snd (updateContact new m)) s else s)
            | _ \<Rightarrow> with_manager (\<lambda>m. snd (newItem new (snd (removeItem old m)))) s)
         else if isValid old \<and> \<not> isValid new
         then ssiSuccess env
           (case st_subject s of
              GroupSubject \<Rightarrow> with_manager (\<lambda>m. snd (removeGroupByName low (m_name old) m)) s
            | ContactSubject \<Rightarrow> with_manager (\<lambda>m. snd (removeContactByName (m_name old) m)) s
            | _ \<Rightarrow> with_manager (\<lambda>m. snd (removeItem old m)) s)
         else if isValid new \<and> \<not> isValid old
         then ssiSuccess env
           (case st_subject s of
              GroupSubject \<Rightarrow> with_manager (\<lambda>m. snd (newGroup low new m)) s
            | ContactSubject \<Rightarrow> with_manager (\<lambda>m. snd (newContact new m)) s
            | _ \<Rightarrow> with_manager (\<lambda>m. snd (newItem new m)) s)
         else ssiSuccess env s)"

definition freeIdOnError :: "ssiTask \<Rightarrow> ssiTask" where
  "freeIdOnError s =
     (if isValid (st_old s) \<and> isValid (st_new s)
      then (case st_subject s of
              GroupSubject \<Rightarrow>
                if oc_gid (st_old s) \<noteq> oc_gid (st_new s) then with_manager (removeID (st_new s)) s else s
            | _ \<Rightarrow> if oc_bid (st_old s) \<noteq> oc_bid (st_new s) then with_manager (removeID (st_new s)) s else s)
      else if isValid (st_new s) \<and> \<not> isValid (st_old s) then with_manager (removeID (st_new s)) s
      else s)"

definition ackItem :: "env \<Rightarrow> u16 \<Rightarrow> ssiTask \<Rightarrow> ssiTask option" where
  "ackItem env ackCode s =
     (let s = (if ackCode \<noteq> 0x0000 then freeIdOnError s else s)
      in if ackCode = 0x0000 then Some (updateContactManager env s)
         else if ackCode = 0x000E
         then (let groupItem = findGroupById (st_manager s) (uint (oc_gid (st_new s)));
                   groupName = m_name groupItem
               in case ssiAddContact env (m_name (st_new s)) groupName True s of
                    None \<Rightarrow> None
                  | Some (_, s) \<Rightarrow> ssiGo env False s)
         else Some (ssiSuccess env s))"

fun ackLoop :: "env \<Rightarrow> nat \<Rightarrow> buffer \<Rightarrow> ssiTask \<Rightarrow> ssiTask option" where
  "ackLoop env 0 b s = Some s"
| "ackLoop env (Suc n) b s =
     (let (ackCode, b) = getWord b
      in case ackItem env ackCode s of None \<Rightarrow> None | Some s \<Rightarrow> ackLoop env n b s)"

definition handleContactAck :: "env \<Rightarrow> buffer \<Rightarrow> ssiTask \<Rightarrow> ssiTask option" where
  "handleContactAck env b s = ackLoop env (nat (bytesAvailable b div 2)) b s"

subsection \<open>Requests of the server\<close>

text \<open>A read leaves the array alone and moves the position forward.\<close>

definition reads :: "buffer \<Rightarrow> buffer \<Rightarrow> bool" where
  "reads b b' \<longleftrightarrow> mBuffer b' = mBuffer b \<and> mReadPos b \<le> mReadPos b'"

lemma reads_refl: "reads b b"
  by (simp add: reads_def)

lemma reads_trans: "reads a b \<Longrightarrow> reads b c \<Longrightarrow> reads a c"
  by (simp add: reads_def)

lemma reads_getByte: "reads b (snd (getByte b))"
  by (simp add: reads_def getByte_def)

lemma reads_getWord: "reads b (snd (getWord b))"
  using reads_trans [OF reads_getByte reads_getByte, of b] by (simp add: getWord_def split_def Let_def)

lemma reads_getN: "reads b (snd (getN getByte n b))"
proof (induction n arbitrary: b)
  case (Suc n)
  show ?case using reads_trans [OF reads_getByte Suc, of b] by (simp add: split_def Let_def)
qed (simp add: reads_refl)

lemma reads_getBlock: "reads b (snd (getBlock len b))"
  by (simp add: getBlock_def reads_getN Let_def)

lemma reads_getBSTR: "reads b (snd (getBSTR b))"
  using reads_trans [OF reads_getWord reads_getBlock, of b] by (simp add: getBSTR_def split_def Let_def)

lemma reads_getTLV: "reads b (snd (getTLV b))"
  using reads_trans [OF reads_trans [OF reads_getWord reads_getWord] reads_getBlock]
    reads_trans [OF reads_getWord reads_getWord]
  by (simp add: getTLV_def Let_def split_def reads_refl)

lemma reads_itemTLVs: "reads b (snd (itemTLVs i n b))"
proof (induction i n b rule: itemTLVs.induct)
  case (1 i n b)
  show ?case
  proof (cases "i < n")
    case True
    from reads_trans [OF reads_getTLV 1 [OF True refl prod.collapse]] True show ?thesis
      by (simp add: itemTLVs.simps [of i] split_def Let_def)
  qed (simp add: itemTLVs.simps [of i] reads_refl)
qed

lemma getBSTR_progress: "mReadPos b < length (mBuffer b) \<Longrightarrow> mReadPos b < mReadPos (snd (getBSTR b))"
proof -
  assume "mReadPos b < length (mBuffer b)"
  then have "mReadPos b < mReadPos (snd (getWord b))"
    by (simp add: getWord_def getByte_def Let_def)
  also have "\<dots> \<le> mReadPos (snd (getBSTR b))"
    using reads_getBlock [of "snd (getWord b)"] by (simp add: getBSTR_def split_def reads_def Let_def)
  finally show ?thesis .
qed

lemma getItemFromBuffer_progress:
  assumes "getItemFromBuffer env b = Some (item, b')" "mReadPos b < length (mBuffer b)"
  shows "mBuffer b' = mBuffer b \<and> mReadPos b < mReadPos b'"
proof -
  obtain name b0 where 0: "getBSTR b = (name, b0)" by (cases "getBSTR b")
  obtain g b1 where 1: "getWord b0 = (g, b1)" by (cases "getWord b0")
  obtain i b2 where 2: "getWord b1 = (i, b2)" by (cases "getWord b1")
  obtain ty b3 where 3: "getWord b2 = (ty, b3)" by (cases "getWord b2")
  obtain n b4 where 4: "getWord b3 = (n, b4)" by (cases "getWord b3")
  obtain ts b5 where 5: "itemTLVs 0 (unat n) b4 = (ts, b5)" by (cases "itemTLVs 0 (unat n) b4")
  have "b' = b5" using assms(1) by (auto simp: getItemFromBuffer_def 0 1 2 3 4 5 Let_def)
  moreover have "reads b b0" "reads b0 b1" "reads b1 b2" "reads b2 b3" "reads b3 b4" "reads b4 b5"
    using reads_getBSTR [of b] reads_getWord [of b0] reads_getWord [of b1] reads_getWord [of b2]
      reads_getWord [of b3] reads_itemTLVs [of b4 0 "unat n"] 0 1 2 3 4 5 by simp_all
  moreover have "mReadPos b < mReadPos b0" using getBSTR_progress [OF assms(2)] 0 by simp
  ultimately show ?thesis by (simp add: reads_def)
qed

function handleItems ::
  "env \<Rightarrow> (ocontact \<Rightarrow> contactManager \<Rightarrow> contactManager) \<Rightarrow> buffer \<Rightarrow> contactManager \<Rightarrow> contactManager option" where
  "handleItems env act b m =
     (if mReadPos b < length (mBuffer b)
      then (case getItemFromBuffer env b of
              None \<Rightarrow> None
            | Some (item, b') \<Rightarrow> handleItems env act b' (act item m))
      else Some m)"
  by pat_completeness auto
termination
  by (relation "measure (\<lambda>(env, act, b, m). length (mBuffer b) - mReadPos b)")
    (auto dest!: getItemFromBuffer_progress)

declare handleItems.simps [simp del]

definition addServerItem :: "env \<Rightarrow> ocontact \<Rightarrow> contactManager \<Rightarrow> contactManager" where
  "addServerItem env item m =
     (if oc_type item = ROSTER_GROUP then snd (newGroup (env_toLower env) item m)
      else if oc_type item = ROSTER_CONTACT then snd (newContact item m)
      else snd (newItem item m))"

definition updateServerItem :: "env \<Rightarrow> ocontact \<Rightarrow> contactManager \<Rightarrow> contactManager" where
  "updateServerItem env item m =
     (if oc_type item = ROSTER_GROUP then snd (updateGroup (env_toLower env) item m)
      else if oc_type item = ROSTER_CONTACT then snd (updateContact item m)
      else snd (updateItem item m))"

definition removeServerItem :: "ocontact \<Rightarrow> contactManager \<Rightarrow> contactManager" where
  "removeServerItem item m =
     (if oc_type item = ROSTER_GROUP then snd (removeGroup item m)
      else if oc_type item = ROSTER_CONTACT then snd (removeContact item m)
      else snd (removeItem item m))"

definition handleContactAdd :: "env \<Rightarrow> buffer \<Rightarrow> ssiTask \<Rightarrow> ssiTask option" where
  "handleContactAdd env b s =
     map_option (\<lambda>m. s\<lparr>st_manager := m\<rparr>) (handleItems env (addServerItem env) b (st_manager s))"

definition handleContactUpdate :: "env \<Rightarrow> buffer \<Rightarrow> ssiTask \<Rightarrow> ssiTask option" where
  "handleContactUpdate env b s =
     map_option (\<lambda>m. s\<lparr>st_manager := m\<rparr>) (handleItems env (updateServerItem env) b (st_manager s))"

definition handleContactRemove :: "env \<Rightarrow> buffer \<Rightarrow> ssiTask \<Rightarrow> ssiTask option" where
  "handleContactRemove env b s =
     map_option (\<lambda>m. s\<lparr>st_manager := m\<rparr>) (handleItems env removeServerItem b (st_manager s))"

definition forMe :: "anyTransfer \<Rightarrow> ssiTask \<Rightarrow> bool" where
  "forMe transfer s \<longleftrightarrow>
     (case transfer of
        SnacTransfer st \<Rightarrow>
          m_snacService st = 0x0013
          \<and> (if st_static s
             then m_snacSubtype st = 0x0008 \<or> m_snacSubtype st = 0x0009 \<or> m_snacSubtype st = 0x000A
             else m_snacSubtype st = 0x000E \<and> st_id s = m_snacReqId st)
      | _ \<Rightarrow> False)"

definition takeTransfer :: "env \<Rightarrow> anyTransfer \<Rightarrow> ssiTask \<Rightarrow> (bool \<times> ssiTask) option" where
  "takeTransfer env transfer s =
     (if forMe transfer s
      then map_option (Pair True)
        (case transfer of
           SnacTransfer st \<Rightarrow>
             if m_snacSubtype st = 0x0008 then handleContactAdd env (m_buffer st) s
             else if m_snacSubtype st = 0x0009 then handleContactUpdate env (m_buffer st) s
             else if m_snacSubtype st = 0x000A then handleContactRemove env (m_buffer st) s
             else if m_snacSubtype st = 0x000E then handleContactAck env (m_buffer st) s
             else Some s
         | _ \<Rightarrow> Some s)
      else Some (False, s))"

subsection \<open>Items survive the wire\<close>

definition item_wire :: "env \<Rightarrow> ocontact \<Rightarrow> bytes" where
  "item_wire env c =
     (let name = env_toUtf8 env (m_name c)
      in enc16 (of_nat (strlen name)) @ cstr name @ enc16 (oc_gid c) @ enc16 (oc_bid c) @ enc16 (oc_type c)
         @ enc16 (tlvListLength c) @ concat (map (\<lambda>t. enc_tlv (tlv_type t) (tlv_data t)) (m_tlvList c)))"

text \<open>
  An item that can be sent: its name survives the conversions, its TLVs are well formed and
  their length is the recorded one and fits 16 bits.
\<close>

definition item_sendable :: "env \<Rightarrow> ocontact \<Rightarrow> bool" where
  "item_sendable env c \<longleftrightarrow> item_ok c \<and> str_ok 65536 (env_toUtf8 env (m_name c))
     \<and> env_fromUtf8 env (env_toUtf8 env (m_name c)) = m_name c
     \<and> (if oc_type c = ROSTER_CONTACT then normalize (env_toLower env) (m_name c) = m_name c else True)
     \<and> list_all tlv_ok (m_tlvList c) \<and> m_tlvLength c = tlv_bytes (m_tlvList c) \<and> tlv_bytes (m_tlvList c) < 65536"

text \<open>The item the receiver builds: what is not on the wire follows from the TLVs or is empty.\<close>

definition received_item :: "env \<Rightarrow> ocontact \<Rightarrow> ocontact" where
  "received_item env c = c
     \<lparr>m_waitingAuth := tlv_bool (findTLV (m_tlvList c) 0x0066),
      m_alias := (let t = findTLV (m_tlvList c) 0x0131 in if tlv_bool t then env_fromUtf8 env (tlv_data t) else []),
      m_metaInfoId := tlv_data (findTLV (m_tlvList c) 0x015C), m_hash := [], m_caps := 0\<rparr>"

lemma addItemToBuffer_eq: "addItemToBuffer env c b = addString (item_wire env c) b"
  by (simp add: addItemToBuffer_def Let_def tlv_codec.fold_put buf_simps item_wire_def)

lemma itemTLVs_enc:
  assumes "list_all tlv_ok ts" "length (mBuffer b) < 4294967296"
    "unread b = concat (map (\<lambda>t. enc_tlv (tlv_type t) (tlv_data t)) ts) @ rest"
    "int n = int i + tlv_bytes ts"
  shows "itemTLVs i n b = (ts, advance (length (concat (map (\<lambda>t. enc_tlv (tlv_type t) (tlv_data t)) ts))) b)"
  using assms
proof (induction ts arbitrary: b i)
  case Nil
  then show ?case by (simp add: itemTLVs.simps [of i] tlv_bytes_def)
next
  case (Cons t ts)
  let ?e = "\<lambda>t. enc_tlv (tlv_type t) (tlv_data t)"
  have t: "tlv_ok t" "getTLV b = (t, advance (length (?e t)) b)"
    using Cons.prems tlv_codec.get_enc [of t b "concat (map ?e ts) @ rest"] by simp_all
  have cons: "tlv_bytes (t # ts) = 4 + int (unat (tlv_length t)) + tlv_bytes ts" by (simp add: tlv_bytes_def)
  have "0 \<le> tlv_bytes ts" unfolding tlv_bytes_def by (rule sum_list_nonneg) auto
  then have lt: "i < n" using Cons.prems(4) unfolding cons by linarith
  have "int n = int (i + 4 + unat (tlv_length t)) + tlv_bytes ts"
    using Cons.prems(4) unfolding cons of_nat_add by linarith
  then have "itemTLVs (i + 4 + unat (tlv_length t)) n (advance (length (?e t)) b)
      = (ts, advance (length (concat (map ?e ts))) (advance (length (?e t)) b))"
    using Cons.prems by (intro Cons.IH) simp_all
  with lt t(2) show ?case by (subst itemTLVs.simps) (simp add: add.commute)
qed

lemma mkOContact_sendable:
  assumes "item_sendable env c"
  shows "mkOContact (env_fromUtf8 env) (m_name c) (m_gid c) (m_bid c) (m_type c) (m_tlvList c) 0
    = Some (received_item env c)"
proof -
  from assms have tl: "list_all tlv_ok (m_tlvList c)" "m_tlvLength c = tlv_bytes (m_tlvList c)"
    by (simp_all add: item_sendable_def)
  let ?c = "dummyItem\<lparr>m_name := m_name c, m_gid := m_gid c, m_bid := m_bid c, m_type := m_type c,
    m_tlvLength := tlv_bytes (m_tlvList c), m_tlvList := m_tlvList c\<rparr>"
  have "mkOContact (env_fromUtf8 env) (m_name c) (m_gid c) (m_bid c) (m_type c) (m_tlvList c) 0
      = checkTLVs (env_fromUtf8 env) ?c"
    by (cases "m_tlvList c") (simp_all add: mkOContact_def refreshTLVLength_eq tlv_bytes_def Let_def dummyItem_def)
  also have "\<dots> = Some (received_item env c)"
    using checkTLVs_ok [of ?c "env_fromUtf8 env"] tl
    by (simp add: received_item_def dummyItem_def Let_def)
  finally show ?thesis .
qed

lemma getItemFromBuffer_enc:
  assumes "item_sendable env c" "length (mBuffer b) < 4294967296" "unread b = item_wire env c @ rest"
  shows "getItemFromBuffer env b = Some (received_item env c, advance (length (item_wire env c)) b)"
proof -
  let ?name = "env_toUtf8 env (m_name c)"
  let ?ts = "concat (map (\<lambda>t. enc_tlv (tlv_type t) (tlv_data t)) (m_tlvList c))"
  from assms(1) have ok: "item_ok c" "str_ok 65536 ?name" "env_fromUtf8 env ?name = m_name c"
    "list_all tlv_ok (m_tlvList c)" "m_tlvLength c = tlv_bytes (m_tlvList c)" "tlv_bytes (m_tlvList c) < 65536"
    by (simp_all add: item_sendable_def)
  note str = str_ok_simps [OF ok(2)]
  have ids: "uint (oc_gid c) = m_gid c" "uint (oc_bid c) = m_bid c" "uint (oc_type c) = m_type c"
    using ok(1) by (simp_all add: item_ok_def oc_gid_def oc_bid_def oc_type_def uint_word_of_int)
  have "0 \<le> tlv_bytes (m_tlvList c)" unfolding tlv_bytes_def by (rule sum_list_nonneg) auto
  then have tlen: "int (unat (tlvListLength c)) = tlv_bytes (m_tlvList c)"
    using ok(5,6) by (simp add: tlvListLength_def uint_word_of_int)
  have u: "unread b = (enc16 (of_nat (strlen ?name)) @ cstr ?name) @ enc16 (oc_gid c) @ enc16 (oc_bid c)
      @ enc16 (oc_type c) @ enc16 (tlvListLength c) @ ?ts @ rest"
    using assms(3) by (simp add: item_wire_def Let_def)
  define n where "n = 2 + length ?name"
  have 0: "getBSTR b = (?name, advance n b)" unfolding n_def by (rule getBSTR_enc [OF ok(2) assms(2) u])
  have 1: "getWord (advance n b) = (oc_gid c, advance (n + 2) b)"
    using u getWord_enc [of "advance n b" "oc_gid c"] by (simp add: str n_def)
  have 2: "getWord (advance (n + 2) b) = (oc_bid c, advance (n + 4) b)"
    using u getWord_enc [of "advance (n + 2) b" "oc_bid c"] by (simp add: str n_def)
  have 3: "getWord (advance (n + 4) b) = (oc_type c, advance (n + 6) b)"
    using u getWord_enc [of "advance (n + 4) b" "oc_type c"] by (simp add: str n_def)
  have 4: "getWord (advance (n + 6) b) = (tlvListLength c, advance (n + 8) b)"
    using u getWord_enc [of "advance (n + 6) b" "tlvListLength c"] by (simp add: str n_def)
  have 5: "itemTLVs 0 (unat (tlvListLength c)) (advance (n + 8) b) = (m_tlvList c, advance (length ?ts) (advance (n + 8) b))"
    using u ok(4) assms(2) tlen by (intro itemTLVs_enc [where rest = rest]) (simp_all add: str n_def)
  have "oc_type c = ROSTER_CONTACT \<Longrightarrow> normalize (env_toLower env) (m_name c) = m_name c"
    using assms(1) by (simp add: item_sendable_def)
  moreover have "length (item_wire env c) = n + 8 + length ?ts" by (simp add: item_wire_def Let_def str n_def)
  ultimately show ?thesis
    by (simp add: getItemFromBuffer_def 0 1 2 3 4 5 ok(3) ids mkOContact_sendable [OF assms(1)] Let_def
        ac_simps del: add_2_eq_Suc add_2_eq_Suc')
qed

lemma handleItems_enc:
  assumes "list_all (item_sendable env) cs" "length (mBuffer b) < 4294967296"
    "unread b = concat (map (item_wire env) cs)" "mReadPos b \<le> length (mBuffer b)"
  shows "handleItems env act b m = Some (fold act (map (received_item env) cs) m)"
  using assms
proof (induction cs arbitrary: b m)
  case Nil
  then have "\<not> mReadPos b < length (mBuffer b)" by (simp add: unread_def)
  then show ?case by (simp add: handleItems.simps [of env act b])
next
  case (Cons c cs)
  have w: "item_wire env c \<noteq> []" by (simp add: item_wire_def Let_def enc16_def)
  with Cons.prems(3) have "unread b \<noteq> []" by simp
  then have lt: "mReadPos b < length (mBuffer b)" by (simp add: unread_nonempty)
  have get: "getItemFromBuffer env b = Some (received_item env c, advance (length (item_wire env c)) b)"
    using Cons.prems by (intro getItemFromBuffer_enc) simp_all
  have "length (unread b) = length (mBuffer b) - mReadPos b" by (simp add: unread_def)
  with Cons.prems(3) lt have "mReadPos b + length (item_wire env c) \<le> length (mBuffer b)" by simp
  then have "handleItems env act (advance (length (item_wire env c)) b) (act (received_item env c) m)
      = Some (fold act (map (received_item env) cs) (act (received_item env c) m))"
    using Cons.prems by (intro Cons.IH) simp_all
  with lt get show ?case by (simp add: handleItems.simps [of env act b])
qed

text \<open>
  C19: the items \<^verbatim>\<open>addItemToBuffer\<close> puts into a packet are the items the receiving side adds,
  updates or removes, one after the other, with names, ids, types and TLVs intact.
\<close>

theorem ssi_items_roundtrip:
  assumes "list_all (item_sendable env) cs" "length (mBuffer (fold (addItemToBuffer env) cs emptyBuffer)) < 4294967296"
    "b = mkBuffer (mBuffer (fold (addItemToBuffer env) cs emptyBuffer))"
  shows "handleContactAdd env b s = Some (s\<lparr>st_manager := fold (addServerItem env) (map (received_item env) cs) (st_manager s)\<rparr>)
    \<and> handleContactUpdate env b s = Some (s\<lparr>st_manager := fold (updateServerItem env) (map (received_item env) cs) (st_manager s)\<rparr>)
    \<and> handleContactRemove env b s = Some (s\<lparr>st_manager := fold removeServerItem (map (received_item env) cs) (st_manager s)\<rparr>)"
proof -
  have "fold (addItemToBuffer env) cs b0 = addString (concat (map (item_wire env) cs)) b0" for b0
    by (induction cs arbitrary: b0) (simp_all add: addItemToBuffer_eq)
  then have "mBuffer (fold (addItemToBuffer env) cs emptyBuffer) = concat (map (item_wire env) cs)"
    by (simp add: emptyBuffer_def)
  then have "handleItems env act b m = Some (fold act (map (received_item env) cs) m)" for act m
    using assms by (intro handleItems_enc) (simp_all add: mkBuffer_def unread_def)
  then show ?thesis by (simp add: handleContactAdd_def handleContactUpdate_def handleContactRemove_def)
qed

text \<open>Conversions that are exact on ASCII text, and a contact with an alias.\<close>

definition asciiEnv :: env where
  "asciiEnv = \<lparr>env_toLower = (\<lambda>n. n), env_fromUtf8 = map ucast, env_toUtf8 = map ucast, env_slots = (\<lambda>d. d)\<rparr>"

definition sampleContact :: ocontact where
  "sampleContact = (itemWithId ROSTER_CONTACT 7)\<lparr>m_name := [0x62, 0x6F, 0x62], m_gid := 3,
     m_tlvList := [mkTLV 0x131 1 [0x42]], m_tlvLength := 5\<rparr>"

lemma sampleContact_sendable: "item_sendable asciiEnv sampleContact"
  by (simp add: item_sendable_def sampleContact_def asciiEnv_def itemWithId_def dummyItem_def item_ok_def
      ROSTER_CONTACT_def oc_type_def str_ok_def normalize_def tlv_ok_def tlv_bool_def mkTLV_def tlv_bytes_def
      unsigned_ucast_eq)

theorem ssi_items_roundtrip_witness:
  "let b = mkBuffer (mBuffer (fold (addItemToBuffer asciiEnv) [sampleContact] emptyBuffer));
       s = mkSsiTask 0 True mkContactManager (mkConnection 0 0 [])
   in handleContactAdd asciiEnv b s = Some (s\<lparr>st_manager := addServerItem asciiEnv
     (received_item asciiEnv sampleContact) (st_manager s)\<rparr>)"
proof -
  have "length (mBuffer (fold (addItemToBuffer asciiEnv) [sampleContact] emptyBuffer)) < 4294967296"
    by (simp add: addItemToBuffer_eq item_wire_def emptyBuffer_def sampleContact_def asciiEnv_def itemWithId_def
        dummyItem_def enc_tlv_def mkTLV_def cstr_def)
  from conjunct1 [OF ssi_items_roundtrip [OF _ this refl]] sampleContact_sendable show ?thesis
    by (simp add: Let_def)
qed

subsection \<open>Brackets and acknowledgements\<close>

lemma ssiSnacSequence_value:
  "unat (fst (ssiSnacSequence s)) = unat (cn_snacSequence (st_conn s)) mod 65535 + 1"
  "unat (cn_snacSequence (st_conn (snd (ssiSnacSequence s)))) = unat (cn_snacSequence (st_conn s)) mod 65535 + 1"
  using snacSequence_value [of "st_conn s"] by (simp_all add: ssiSnacSequence_def split_def Let_def)

lemma three_ids_distinct:
  fixes a b c :: u32
  assumes "unat a = n mod 65535 + 1" "unat b = (n mod 65535 + 1) mod 65535 + 1"
    "unat c = ((n mod 65535 + 1) mod 65535 + 1) mod 65535 + 1"
  shows "a \<noteq> b \<and> b \<noteq> c \<and> a \<noteq> c"
proof -
  define k where "k = n mod 65535"
  have k: "k < 65535" by (simp add: k_def)
  have "unat a \<noteq> unat b \<and> unat b \<noteq> unat c \<and> unat a \<noteq> unat c"
  proof (cases "k < 65533")
    case True
    with assms show ?thesis by (simp add: k_def [symmetric])
  next
    case False
    with k have "k = 65533 \<or> k = 65534" by linarith
    with assms show ?thesis by (auto simp: k_def [symmetric])
  qed
  then show ?thesis by auto
qed

lemma sendOneUpdate_keeps: "st_op (sendOneUpdate env sub item s) = st_op s"
  by (simp add: sendOneUpdate_def sendEditStart_def sendEditEnd_def ssiSnacSequence_def sendSsi_def split_def Let_def)

lemma sendContactUpdate_eq:
  assumes "st_op s = AddOp \<or> st_op s = RemoveOp \<or> st_op s = RenameOp \<or> (st_op s = ChangeOp \<and> st_subject s \<noteq> GroupSubject)"
  shows "sendContactUpdate env s = Some (sendOneUpdate env
    (if st_op s = AddOp then 0x0008 else if st_op s = RemoveOp then 0x000A else 0x0009)
    (if st_op s = RemoveOp then st_old s else st_new s) s)"
  using assms by (cases "st_op s") (simp_all add: sendContactUpdate_def sendOneUpdate_keeps Let_def)

text \<open>
  An addition, a removal or a change of one item is sent as three SNACs, the second between
  an edit start and an edit end, with three different request ids, and afterwards the task takes
  exactly the acknowledgement that carries the id of the second.
\<close>

theorem update_is_bracketed:
  assumes "st_op s = AddOp \<or> st_op s = RemoveOp \<or> st_op s = RenameOp \<or> (st_op s = ChangeOp \<and> st_subject s \<noteq> GroupSubject)"
    "\<not> st_static s"
  shows "\<exists>s' x y z. sendContactUpdate env s = Some s' \<and> st_sent s' = st_sent s @ [x, y, z]
    \<and> map m_snacSubtype [x, y, z] = [0x0011, (if st_op s = AddOp then 0x0008 else if st_op s = RemoveOp then 0x000A else 0x0009), 0x0012]
    \<and> mBuffer (m_buffer y) = oc_toByteArray (env_toUtf8 env) (if st_op s = RemoveOp then st_old s else st_new s)
    \<and> m_snacReqId x \<noteq> m_snacReqId y \<and> m_snacReqId y \<noteq> m_snacReqId z \<and> m_snacReqId x \<noteq> m_snacReqId z
    \<and> (forMe (SnacTransfer t) s' \<longleftrightarrow> m_snacService t = 0x0013 \<and> m_snacSubtype t = 0x000E \<and> m_snacReqId t = m_snacReqId y)"
proof -
  let ?item = "if st_op s = RemoveOp then st_old s else st_new s"
  let ?sub = "if st_op s = AddOp then 0x0008 else if st_op s = RemoveOp then 0x000A else (0x0009 :: u16)"
  obtain i s1 where 1: "ssiSnacSequence s = (i, s1)" by (cases "ssiSnacSequence s")
  obtain j s2 where 2: "ssiSnacSequence (sendSsi 10 0x0011 i emptyBuffer s1) = (j, s2)"
    by (cases "ssiSnacSequence (sendSsi 10 0x0011 i emptyBuffer s1)")
  let ?b = "addString (oc_toByteArray (env_toUtf8 env) ?item) emptyBuffer"
  let ?s3 = "sendSsi 0 ?sub j ?b (s2\<lparr>st_id := j\<rparr>)"
  obtain k s4 where 3: "ssiSnacSequence ?s3 = (k, s4)" by (cases "ssiSnacSequence ?s3")
  have keep: "ssiSnacSequence u = (n, u') \<Longrightarrow> st_sent u' = st_sent u \<and> st_op u' = st_op u \<and> st_subject u' = st_subject u
      \<and> st_old u' = st_old u \<and> st_new u' = st_new u \<and> st_static u' = st_static u \<and> st_id u' = st_id u" for u n u'
    by (auto simp: ssiSnacSequence_def split_def Let_def)
  note k1 = keep [OF 1] and k2 = keep [OF 2] and k3 = keep [OF 3]
  have conn: "st_conn (sendSsi l t' i' b' u) = st_conn u" for l t' i' b' u by (simp add: sendSsi_def)
  have op: "st_op (sendSsi l t' i' b' u) = st_op u" "st_subject (sendSsi l t' i' b' u) = st_subject u"
    "st_static (sendSsi l t' i' b' u) = st_static u" "st_id (sendSsi l t' i' b' u) = st_id u" for l t' i' b' u
    by (simp_all add: sendSsi_def)
  let ?s5 = "sendSsi 10 0x0012 k emptyBuffer s4"
  have one: "sendOneUpdate env ?sub ?item s = ?s5"
    by (simp add: sendOneUpdate_def sendEditStart_def sendEditEnd_def 1 2 3 Let_def)
  have "sendContactUpdate env s = Some (sendOneUpdate env ?sub ?item s)"
    using assms(1) by (rule sendContactUpdate_eq)
  moreover have "i \<noteq> j \<and> j \<noteq> k \<and> i \<noteq> k"
  proof (rule three_ids_distinct)
    show "unat i = unat (cn_snacSequence (st_conn s)) mod 65535 + 1"
      using ssiSnacSequence_value(1) [of s] 1 by simp
    have c1: "unat (cn_snacSequence (st_conn s1)) = unat (cn_snacSequence (st_conn s)) mod 65535 + 1"
      using ssiSnacSequence_value(2) [of s] 1 by simp
    show "unat j = (unat (cn_snacSequence (st_conn s)) mod 65535 + 1) mod 65535 + 1"
      using ssiSnacSequence_value(1) [of "sendSsi 10 0x0011 i emptyBuffer s1"] 2 c1 by (simp add: conn)
    have c2: "unat (cn_snacSequence (st_conn s2)) = (unat (cn_snacSequence (st_conn s)) mod 65535 + 1) mod 65535 + 1"
      using ssiSnacSequence_value(2) [of "sendSsi 10 0x0011 i emptyBuffer s1"] 2 c1 by (simp add: conn)
    show "unat k = ((unat (cn_snacSequence (st_conn s)) mod 65535 + 1) mod 65535 + 1) mod 65535 + 1"
      using ssiSnacSequence_value(1) [of ?s3] 3 c2 by (simp add: conn)
  qed
  moreover
  let ?x = "mkSnacTransfer \<lparr>flap_channel = 0x02, flap_sequence = 0, flap_length = 10\<rparr>
    \<lparr>snac_family = 0x0013, snac_subtype = 0x0011, snac_flags = 0x0000, snac_id = i\<rparr> emptyBuffer"
  let ?y = "mkSnacTransfer \<lparr>flap_channel = 0x02, flap_sequence = 0, flap_length = 0\<rparr>
    \<lparr>snac_family = 0x0013, snac_subtype = ?sub, snac_flags = 0x0000, snac_id = j\<rparr> ?b"
  let ?z = "mkSnacTransfer \<lparr>flap_channel = 0x02, flap_sequence = 0, flap_length = 10\<rparr>
    \<lparr>snac_family = 0x0013, snac_subtype = 0x0012, snac_flags = 0x0000, snac_id = k\<rparr> emptyBuffer"
  have "st_sent ?s5 = st_sent s @ [?x, ?y, ?z]" using k1 k2 k3 by (simp add: sendSsi_def)
  moreover have id: "st_id ?s5 = j" and st: "\<not> st_static ?s5" using k1 k2 k3 assms(2) by (simp_all add: op)
  moreover have sel: "m_snacSubtype (mkSnacTransfer f n b) = snac_subtype n" "m_snacReqId (mkSnacTransfer f n b) = snac_id n"
    "m_buffer (mkSnacTransfer f n b) = b" for f n b
    by (simp_all add: mkSnacTransfer_def mkFlapTransfer_def flapTransfer.defs snacTransfer.defs)
  moreover have "map m_snacSubtype [?x, ?y, ?z] = [0x0011, ?sub, 0x0012]" by (simp only: list.map sel snac.simps)
  moreover have "m_snacReqId ?x = i" "m_snacReqId ?y = j" "m_snacReqId ?z = k" by (simp_all only: sel snac.simps)
  moreover have "mBuffer (m_buffer ?y) = oc_toByteArray (env_toUtf8 env) ?item"
    by (simp only: sel) (simp add: emptyBuffer_def)
  moreover have "forMe (SnacTransfer t) ?s5 \<longleftrightarrow> m_snacService t = 0x0013 \<and> m_snacSubtype t = 0x000E \<and> m_snacReqId t = j"
    using id st by (auto simp: forMe_def)
  ultimately show ?thesis unfolding one
    by (intro exI [of _ ?s5] exI [of _ ?x] exI [of _ ?y] exI [of _ ?z]) (simp only: simp_thms)
qed

theorem update_is_bracketed_witness:
  "let s = snd (ssiRemoveItem sampleContact (mkSsiTask 0 False mkContactManager (mkConnection 0 0 [])))
   in \<exists>s' x y z. sendContactUpdate asciiEnv s = Some s' \<and> st_sent s' = [x, y, z]"
  using update_is_bracketed [of "snd (ssiRemoveItem sampleContact (mkSsiTask 0 False mkContactManager (mkConnection 0 0 [])))"
      asciiEnv]
  by (simp add: ssiRemoveItem_def mkSsiTask_def) blast

subsection \<open>Adding a contact\<close>

lemma mkOContact_ok:
  assumes "list_all tlv_ok ts"
  shows "\<exists>c. mkOContact fromUtf8 name g b ty ts 0 = Some c \<and> m_name c = name \<and> m_gid c = g \<and> m_bid c = b
    \<and> m_type c = ty \<and> m_tlvList c = ts"
proof -
  let ?c = "dummyItem\<lparr>m_name := name, m_gid := g, m_bid := b, m_type := ty, m_tlvLength := 0, m_tlvList := ts\<rparr>"
  let ?d = "if m_tlvLength ?c = 0 \<and> m_tlvList ?c \<noteq> [] then refreshTLVLength ?c else ?c"
  have d: "m_tlvList ?d = ts" "m_name ?d = name" "m_gid ?d = g" "m_bid ?d = b" "m_type ?d = ty"
    by (simp_all add: refreshTLVLength_def)
  have "mkOContact fromUtf8 name g b ty ts 0 = checkTLVs fromUtf8 ?d" by (simp add: mkOContact_def Let_def)
  with checkTLVs_ok [of ?d fromUtf8] assms d show ?thesis by simp
qed

lemma nextContactId_split:
  assumes "ids_inv m" "fst (nextContactId m) \<noteq> 0xFFFF"
  obtains i where "nextContactId m = (i, m\<lparr>itemIdSet := insert i (itemIdSet m), nextContactIdM := i + 1\<rparr>)"
    "i < 0x8000" "0 < i" "i \<notin> itemIdSet m"
proof -
  let ?i = "fst (nextContactId m)"
  have "nextContactId m = (?i, m\<lparr>itemIdSet := insert ?i (itemIdSet m), nextContactIdM := ?i + 1\<rparr>)"
    using assms(2) by (auto simp: nextContactId_def Let_def)
  with contact_ids.alloc_ok [OF assms(1,2)] show thesis by (intro that) auto
qed

lemma ssiAddContact_new:
  assumes "nextContactId m = (i, m')" "isValid (findGroup (env_toLower env) m grp)"
  obtains item where "ssiAddContact env contact grp auth (mkSsiTask code False m conn)
      = Some (True, (mkSsiTask code False m conn)\<lparr>st_op := AddOp, st_subject := ContactSubject, st_manager := m', st_new := item\<rparr>)"
    "m_name item = normalize (env_toLower env) contact" "oc_gid item = oc_gid (findGroup (env_toLower env) m grp)"
    "oc_bid item = i" "oc_type item = ROSTER_CONTACT" "item_ok item"
proof -
  let ?ts = "if auth then [mkTLV 0x0066 0 []] else []" and ?g = "findGroup (env_toLower env) m grp"
  have "list_all tlv_ok ?ts" by (simp add: tlv_ok_def tlv_bool_def mkTLV_def)
  from mkOContact_ok [OF this] obtain item where
    "mkOContact (env_fromUtf8 env) (normalize (env_toLower env) contact) (uint (oc_gid ?g)) (uint i) (uint ROSTER_CONTACT) ?ts 0
      = Some item" and sel: "m_name item = normalize (env_toLower env) contact" "m_gid item = uint (oc_gid ?g)"
    "m_bid item = uint i" "m_type item = uint ROSTER_CONTACT" by blast
  then have "ssiAddContact env contact grp auth (mkSsiTask code False m conn)
      = Some (True, (mkSsiTask code False m conn)\<lparr>st_op := AddOp, st_subject := ContactSubject, st_manager := m', st_new := item\<rparr>)"
    using assms by (simp add: ssiAddContact_def mkSsiTask_def Let_def)
  moreover have "item_ok item"
    using sel unsigned_less [of "oc_gid ?g", where ?'a = int] unsigned_less [of i, where ?'a = int]
    by (simp add: item_ok_def ROSTER_CONTACT_def)
  ultimately show thesis using sel
    by (intro that) (simp_all add: oc_gid_def oc_bid_def oc_type_def)
qed

text \<open>
  A contact added to an existing group and acknowledged by the server is in the list: it is
  found under its normalised name, in the group asked for, with the id reserved for it, and the
  lookup of every other name is unchanged.
\<close>

theorem added_contact_acknowledged:
  assumes "named_inv (\<lambda>n. n) ROSTER_CONTACT m" "ids_inv m" "fst (nextContactId m) \<noteq> 0xFFFF"
    "isValid (findGroup (env_toLower env) m grp)" "\<not> isValid (findContact m (normalize (env_toLower env) contact))"
  shows "\<exists>s1 s2 item. ssiAddContact env contact grp auth (mkSsiTask code False m conn) = Some (True, s1)
    \<and> ackItem env 0 s1 = Some s2 \<and> oc_gid item = oc_gid (findGroup (env_toLower env) m grp)
    \<and> oc_bid item = fst (nextContactId m)
    \<and> findContact (st_manager s2) = (findContact m)(normalize (env_toLower env) contact := item)"
proof -
  from nextContactId_split [OF assms(2,3)] obtain i where
    i: "nextContactId m = (i, m\<lparr>itemIdSet := insert i (itemIdSet m), nextContactIdM := i + 1\<rparr>)" "i \<notin> itemIdSet m" .
  let ?m = "m\<lparr>itemIdSet := insert i (itemIdSet m), nextContactIdM := i + 1\<rparr>"
  from ssiAddContact_new [OF i(1) assms(4)] obtain item where
    add: "ssiAddContact env contact grp auth (mkSsiTask code False m conn)
      = Some (True, (mkSsiTask code False m conn)\<lparr>st_op := AddOp, st_subject := ContactSubject, st_manager := ?m, st_new := item\<rparr>)"
    and it: "m_name item = normalize (env_toLower env) contact" "oc_gid item = oc_gid (findGroup (env_toLower env) m grp)"
    "oc_bid item = i" "oc_type item = ROSTER_CONTACT" "item_ok item" by blast
  let ?s1 = "(mkSsiTask code False m conn)\<lparr>st_op := AddOp, st_subject := ContactSubject, st_manager := ?m, st_new := item\<rparr>"
  have "named_inv (\<lambda>n. n) ROSTER_CONTACT ?m"
    using assms(1) by (auto simp: named_inv_def names_unique_def list_inv_def id_used_def)
  moreover have "fresh_item item ?m"
    using assms(1) i(2) it(3-5)
    by (auto simp: fresh_item_def named_inv_def list_inv_def id_used_def idkey_def ROSTER_CONTACT_def ROSTER_GROUP_def
        split: if_splits)
  moreover have look: "findContact ?m = findContact m" by (simp add: fun_eq_iff findContact_def firstItem_def)
  ultimately have "\<forall>k. findContact (snd (newContact item ?m)) k = (if k = m_name item then copyOContact item else findContact m k)"
    using contacts.add_spec [of ?m item] assms(5) it by simp
  moreover have "ackItem env 0 ?s1 = Some (ssiSuccess env (?s1\<lparr>st_manager := snd (newContact item ?m)\<rparr>))"
    using item_ok_isValid [OF it(5)] by (simp add: ackItem_def updateContactManager_def mkSsiTask_def Let_def)
  ultimately show ?thesis
    by (intro exI [of _ ?s1] exI [of _ "ssiSuccess env (?s1\<lparr>st_manager := snd (newContact item ?m)\<rparr>)"]
        exI [of _ "copyOContact item"]) (use add it i(1) in \<open>auto simp: ssiSuccess_def\<close>)
qed

text \<open>
  A contact the server refuses leaves no trace: the list and the ids in use are as before the
  operation and the next contact is given the same id again.  The code for a contact that
  requires authorization is not a refusal, it starts a second attempt.
\<close>

theorem refused_contact_frees_id:
  assumes "ids_inv m" "fst (nextContactId m) \<noteq> 0xFFFF" "isValid (findGroup (env_toLower env) m grp)"
    "ackCode \<noteq> 0" "ackCode \<noteq> 0x000E"
  shows "\<exists>s1 s2. ssiAddContact env contact grp auth (mkSsiTask code False m conn) = Some (True, s1)
    \<and> ackItem env ackCode s1 = Some s2 \<and> cm_list (st_manager s2) = cm_list m
    \<and> itemIdSet (st_manager s2) = itemIdSet m \<and> groupIdSet (st_manager s2) = groupIdSet m
    \<and> fst (nextContactId (st_manager s2)) = fst (nextContactId m)"
proof -
  from nextContactId_split [OF assms(1,2)] obtain i where
    i: "nextContactId m = (i, m\<lparr>itemIdSet := insert i (itemIdSet m), nextContactIdM := i + 1\<rparr>)"
      "i < 0x8000" "0 < i" "i \<notin> itemIdSet m" .
  let ?m = "m\<lparr>itemIdSet := insert i (itemIdSet m), nextContactIdM := i + 1\<rparr>"
  from ssiAddContact_new [OF i(1) assms(3)] obtain item where
    add: "ssiAddContact env contact grp auth (mkSsiTask code False m conn)
      = Some (True, (mkSsiTask code False m conn)\<lparr>st_op := AddOp, st_subject := ContactSubject, st_manager := ?m, st_new := item\<rparr>)"
    and it: "oc_bid item = i" "oc_type item = ROSTER_CONTACT" "item_ok item" by blast
  let ?s1 = "(mkSsiTask code False m conn)\<lparr>st_op := AddOp, st_subject := ContactSubject, st_manager := ?m, st_new := item\<rparr>"
  have "i < i + 1" using unat_inc [OF i(2)] by (simp add: word_less_nat_alt)
  then have rm: "removeID item ?m = m\<lparr>nextContactIdM := i\<rparr>"
    using it i(4) by (simp add: removeID_def ROSTER_CONTACT_def ROSTER_GROUP_def Let_def)
  let ?s2 = "ssiSuccess env (?s1\<lparr>st_manager := m\<lparr>nextContactIdM := i\<rparr>\<rparr>)"
  have "ackItem env ackCode ?s1 = Some ?s2"
    using item_ok_isValid [OF it(3)] assms(4,5) rm
    by (simp add: ackItem_def freeIdOnError_def mkSsiTask_def Let_def)
  moreover have "fst (nextContactId (m\<lparr>nextContactIdM := i\<rparr>)) = i"
    using i(2-4) by (simp add: nextContactId_def findFreeId.simps [of _ i] Let_def) (auto simp: word_less_nat_alt)
  ultimately show ?thesis
    by (intro exI [of _ ?s1] exI [of _ ?s2]) (use add i(1) in \<open>simp add: ssiSuccess_def\<close>)
qed

text \<open>A list with one group.\<close>

definition oneGroup :: contactManager where
  "oneGroup = mkContactManager\<lparr>cm_list := [(itemWithId ROSTER_GROUP 1)\<lparr>m_name := [0x47]\<rparr>], groupIdSet := {1}\<rparr>"

lemma oneGroup_simps:
  "named_inv (\<lambda>n. n) ROSTER_CONTACT oneGroup" "ids_inv oneGroup" "fst (nextContactId oneGroup) = 1"
  "isValid (findGroup (env_toLower asciiEnv) oneGroup [0x47])" "findContact oneGroup n = dummyItem"
proof -
  note defs = oneGroup_def mkContactManager_def itemWithId_def dummyItem_def ROSTER_GROUP_def ROSTER_CONTACT_def
    oc_type_def oc_gid_def
  show "named_inv (\<lambda>n. n) ROSTER_CONTACT oneGroup"
    by (simp add: named_inv_def names_unique_def list_inv_def item_ok_def idkey_def id_used_def defs)
  show "ids_inv oneGroup" by (simp add: ids_inv_def next_inv_def oneGroup_def mkContactManager_def)
  show "fst (nextContactId oneGroup) = 1"
    by (simp add: nextContactId_def findFreeId.simps oneGroup_def mkContactManager_def)
  show "isValid (findGroup (env_toLower asciiEnv) oneGroup [0x47])"
    by (simp add: findGroup_def firstItem_def asciiEnv_def isValid_def defs)
  show "findContact oneGroup n = dummyItem" by (simp add: findContact_def firstItem_def defs)
qed

theorem added_contact_acknowledged_witness:
  "\<exists>s1 s2 item. ssiAddContact asciiEnv [0x62, 0x20, 0x6F] [0x47] False (mkSsiTask 0 False oneGroup (mkConnection 0 0 [])) = Some (True, s1)
    \<and> ackItem asciiEnv 0 s1 = Some s2 \<and> oc_bid item = 1 \<and> findContact (st_manager s2) [0x62, 0x6F] = item"
proof -
  have n: "normalize (env_toLower asciiEnv) [0x62, 0x20, 0x6F] = [0x62, 0x6F]"
    by (simp add: normalize_def asciiEnv_def)
  have "fst (nextContactId oneGroup) \<noteq> 0xFFFF" "\<not> isValid (findContact oneGroup [0x62, 0x6F])"
    by (simp_all add: oneGroup_simps)
  from added_contact_acknowledged [OF oneGroup_simps(1,2) this(1) oneGroup_simps(4), of "[0x62, 0x20, 0x6F]" False 0
      "mkConnection 0 0 []"] this(2)
  show ?thesis by (auto simp: n oneGroup_simps)
qed

theorem refused_contact_frees_id_witness:
  "\<exists>s1 s2. ssiAddContact asciiEnv [0x62] [0x47] False (mkSsiTask 0 False oneGroup (mkConnection 0 0 [])) = Some (True, s1)
    \<and> ackItem asciiEnv 0x000C s1 = Some s2 \<and> fst (nextContactId (st_manager s2)) = 1"
proof -
  have "fst (nextContactId oneGroup) \<noteq> 0xFFFF" by (simp add: oneGroup_simps)
  from refused_contact_frees_id [OF oneGroup_simps(2) this oneGroup_simps(4), of "0x000C" "[0x62]" False 0
      "mkConnection 0 0 []"]
  show ?thesis by (auto simp: oneGroup_simps)
qed

subsection \<open>Moving a contact\<close>

lemma idsWithout_enc:
  "unread b = concat (map enc16 ids) \<Longrightarrow> mReadPos b \<le> length (mBuffer b)
    \<Longrightarrow> idsWithout bid b out = addString (concat (map enc16 (filter (\<lambda>i. i \<noteq> bid) ids))) out"
proof (induction ids arbitrary: b out)
  case Nil
  then show ?case by (simp add: idsWithout.simps [of bid b] unread_def)
next
  case (Cons i ids)
  have "unread b \<noteq> []" using Cons.prems(1) by (simp add: enc16_def)
  then have lt: "mReadPos b < length (mBuffer b)" by (simp add: unread_nonempty)
  have get: "getWord b = (i, advance 2 b)" using Cons.prems(1) by (intro getWord_enc) simp
  have "length (unread b) = length (mBuffer b) - mReadPos b" by (simp add: unread_def)
  with Cons.prems(1) lt have "mReadPos b + 2 \<le> length (mBuffer b)" by simp
  then have "idsWithout bid (advance 2 b) o' = addString (concat (map enc16 (filter (\<lambda>i. i \<noteq> bid) ids))) o'" for o'
    using Cons.prems by (intro Cons.IH) simp_all
  with lt get show ?case by (simp add: idsWithout.simps [of bid b] buf_simps)
qed

text \<open>
  Moving a contact takes its id, and only its id, out of the id list of the old group; the
  group's other TLVs are untouched and the new list's length is right.
\<close>

theorem old_group_loses_id:
  assumes "tlvs_ok (m_tlvList g)" "findTLV (m_tlvList g) 0x00C8 = mkTLV 0x00C8 n (concat (map enc16 ids))"
  shows "\<exists>g'. oldGroupWithout env item g = Some g' \<and> tlvs_ok (m_tlvList g')
    \<and> tlv_data (findTLV (m_tlvList g') 0x00C8) = concat (map enc16 (filter (\<lambda>i. i \<noteq> oc_bid item) ids))
    \<and> (\<forall>ty. findTLV (m_tlvList g') ty = (if ty = 0x00C8 then findTLV (m_tlvList g') 0x00C8 else findTLV (m_tlvList g) ty))"
proof -
  let ?list = "m_tlvList g" and ?t = "mkTLV 0x00C8 n (concat (map enc16 ids))"
  let ?d = "concat (map enc16 (filter (\<lambda>i. i \<noteq> oc_bid item) ids))"
  let ?new = "mkTLV 0x00C8 (of_nat (length ?d)) ?d"
  from assms(1) have ok: "list_all tlv_ok ?list" "distinct (map tlv_type ?list)" by (simp_all add: tlvs_ok_def)
  have b: "tlv_bool (findTLV ?list 0x00C8)" by (simp add: assms(2) tlv_bool_def mkTLV_def)
  from findTLV_ok [OF ok(1) b] have t: "tlv_ok ?t" "?t \<in> set ?list" unfolding assms(2) by simp_all
  have n: "unat n = length (concat (map enc16 ids))" using unat_tlv_length [OF t(1)] by (simp add: mkTLV_def)
  have len: "length (concat (map enc16 l)) = 2 * length l" for l by (induction l) simp_all
  have "length ?d \<le> length (concat (map enc16 ids))" by (simp only: len) simp
  then have "length ?d < 65536" using t(1) by (simp add: tlv_ok_def mkTLV_def)
  then have new: "tlv_ok ?new" by (simp add: tlv_ok_def mkTLV_def tlv_bool_def)
  have ids: "idsWithout (oc_bid item) (mkBuffer (concat (map enc16 ids))) emptyBuffer = addString ?d emptyBuffer"
    by (rule idsWithout_enc) (simp_all add: mkBuffer_def unread_def)
  have filt: "filter (\<lambda>x. \<not> tlv_eq x ?t) ?list = filter (\<lambda>x. tlv_type x \<noteq> 0x00C8) ?list"
    using filter_tlv_eq [OF ok(2) t(2)] by (simp add: mkTLV_def)
  let ?list' = "filter (\<lambda>x. tlv_type x \<noteq> 0x00C8) ?list @ [?new]"
  have ok': "tlvs_ok ?list'"
    using ok new by (auto simp: tlvs_ok_def list_all_iff distinct_map_filter mkTLV_def)
  have "oldGroupWithout env item g = setTLVList (env_fromUtf8 env) ?list' g"
  proof -
    have sel: "tlv_type ?t = 0x00C8" "tlv_length ?t = n" "tlv_data ?t = concat (map enc16 ids)"
      by (simp_all add: mkTLV_def)
    have buf: "mBuffer emptyBuffer = []" by (simp add: emptyBuffer_def)
    show ?thesis by (simp add: oldGroupWithout_def assms(2) Let_def sel n filt ids bufLength_def buf)
  qed
  moreover obtain g' where g': "setTLVList (env_fromUtf8 env) ?list' g = Some g'" "m_tlvList g' = ?list'"
    using checkTLVs_ok [of "g\<lparr>m_tlvList := ?list', m_tlvLength := tlv_bytes ?list'\<rparr>" "env_fromUtf8 env"] ok'
    by (simp add: setTLVList_def refreshTLVLength_eq tlvs_ok_def)
  moreover have "findTLV ?list' 0x00C8 = ?new" by (simp add: findTLV_append mkTLV_def word_uint_eq_iff)
  moreover have "findTLV ?list' ty = findTLV ?list ty" if "ty \<noteq> 0x00C8" for ty
  proof (cases "\<exists>x \<in> set ?list. uint (tlv_type x) = ty")
    case True
    with that show ?thesis by (auto simp: findTLV_append findTLV_filter)
  next
    case False
    with that show ?thesis by (auto simp: findTLV_append findTLV_none mkTLV_def)
  qed
  ultimately show ?thesis using ok' by (intro exI [of _ g']) (auto simp: mkTLV_def)
qed

text \<open>
  Moving a contact leaves a stale id list in the new group.  \<^verbatim>\<open>changeGroupOnServer\<close> means to
  replace the group's list of ids, but removes the list of the old group from it, which is
  another length unless both groups have as many members.  The group then has two such lists
  and the first, without the moved contact, is the one that is found.
\<close>

theorem new_group_keeps_stale_ids:
  assumes "tlvs_ok (m_tlvList g)" "findTLV (m_tlvList g) 0x00C8 = ids2" "tlv_bool ids2" "length (tlv_data ids2) < 65534"
    "oldIds = emptyTLV \<or> tlv_length oldIds \<noteq> tlv_length ids2 \<and> tlv_type oldIds = 0x00C8"
  shows "\<exists>g' new. newGroupWith env oldIds item g = Some g' \<and> m_tlvList g' = m_tlvList g @ [new]
    \<and> tlv_type new = 0x00C8 \<and> tlv_data new = tlv_data ids2 @ enc16 (oc_bid item)
    \<and> findTLV (m_tlvList g') 0x00C8 = ids2"
proof -
  from assms(1) have ok: "list_all tlv_ok (m_tlvList g)" "distinct (map tlv_type (m_tlvList g))"
    by (simp_all add: tlvs_ok_def)
  from findTLV_ok [OF ok(1)] assms(2,3) have i: "tlv_ok ids2" "ids2 \<in> set (m_tlvList g)" "uint (tlv_type ids2) = 0x00C8"
    by auto
  then have ty: "tlv_type ids2 = 0x00C8" by (simp add: word_uint_eq_iff)
  have inj: "inj_on tlv_type (set (m_tlvList g))" using ok(2) by (simp add: distinct_map)
  have only: "x = ids2" if "x \<in> set (m_tlvList g)" "tlv_type x = 0x00C8" for x
    by (rule inj_onD [OF inj]) (use that i(2) ty in auto)
  have "\<not> tlv_eq x oldIds" if "x \<in> set (m_tlvList g)" for x
    using assms(5) only [OF that] ok(1) that
    by (auto simp: tlv_eq_def emptyTLV_def list_all_iff tlv_ok_def tlv_bool_def)
  then have filt: "filter (\<lambda>x. \<not> tlv_eq x oldIds) (m_tlvList g) = m_tlvList g" by (simp add: filter_id_conv)
  let ?d = "tlv_data ids2 @ enc16 (oc_bid item)"
  let ?new = "mkTLV 0x00C8 (of_nat (length ?d)) ?d"
  have "newGroupWith env oldIds item g = setTLVList (env_fromUtf8 env) (m_tlvList g @ [?new]) g"
    using unat_tlv_length [OF i(1)] by (simp add: newGroupWith_def assms(2) ty filt buf_simps bufLength_def mkBuffer_def Let_def)
  moreover have "tlv_ok ?new" using assms(4) by (simp add: tlv_ok_def mkTLV_def tlv_bool_def)
  then obtain g' where "setTLVList (env_fromUtf8 env) (m_tlvList g @ [?new]) g = Some g'" "m_tlvList g' = m_tlvList g @ [?new]"
    using checkTLVs_ok [of "g\<lparr>m_tlvList := m_tlvList g @ [?new], m_tlvLength := tlv_bytes (m_tlvList g @ [?new])\<rparr>"
        "env_fromUtf8 env"] ok(1)
    by (simp add: setTLVList_def refreshTLVLength_eq)
  moreover have "findTLV (m_tlvList g @ [?new]) 0x00C8 = ids2"
    using i(2,3) assms(2) by (auto simp: findTLV_append)
  ultimately show ?thesis by (intro exI [of _ g'] exI [of _ ?new]) (simp add: mkTLV_def)
qed

definition groupWithIds :: "u16 list \<Rightarrow> ocontact" where
  "groupWithIds ids =
     (let d = concat (map enc16 ids)
      in (itemWithId ROSTER_GROUP 0)\<lparr>m_name := [0x67], m_gid := 3,
           m_tlvList := [mkTLV 0x00C8 (of_nat (2 * length ids)) d], m_tlvLength := 4 + 2 * int (length ids)\<rparr>)"

theorem old_group_loses_id_witness:
  "\<exists>g'. oldGroupWithout asciiEnv sampleContact (groupWithIds [5, 7, 9]) = Some g' \<and> tlvs_ok (m_tlvList g')
    \<and> tlv_data (findTLV (m_tlvList g') 0x00C8) = concat (map enc16 (filter (\<lambda>i. i \<noteq> oc_bid sampleContact) [5, 7, 9]))
    \<and> (\<forall>ty. findTLV (m_tlvList g') ty = (if ty = 0x00C8 then findTLV (m_tlvList g') 0x00C8
          else findTLV (m_tlvList (groupWithIds [5, 7, 9])) ty))"
  by (rule old_group_loses_id [where n = 6])
    (simp_all add: groupWithIds_def Let_def tlvs_ok_def tlv_ok_def tlv_bool_def mkTLV_def enc16_def)

theorem new_group_keeps_stale_ids_witness:
  "\<exists>g' new. newGroupWith asciiEnv (mkTLV 0x00C8 4 (concat (map enc16 [1, 7]))) sampleContact (groupWithIds [5]) = Some g'
    \<and> m_tlvList g' = m_tlvList (groupWithIds [5]) @ [new]
    \<and> tlv_type new = 0x00C8 \<and> tlv_data new = tlv_data (mkTLV 0x00C8 2 (enc16 5)) @ enc16 (oc_bid sampleContact)
    \<and> findTLV (m_tlvList g') 0x00C8 = mkTLV 0x00C8 2 (enc16 5)"
  by (rule new_group_keeps_stale_ids)
    (simp_all add: groupWithIds_def Let_def tlvs_ok_def tlv_ok_def tlv_bool_def mkTLV_def enc16_def)

end
