(* ===== verification/Kopete_OnlineStatus.thy ===== *)
theory Kopete_OnlineStatus
  imports Kopete_Prelude
begin

text \<open>
  The presence values of \<^verbatim>\<open>libkopete\<close>: \<^verbatim>\<open>kopeteonlinestatus.cpp\<close> (the global status types, the
  comparison operators, the names under which a status is stored on disk) and the registry of
  \<^verbatim>\<open>kopeteonlinestatusmanager.cpp\<close> with its search for the status of a protocol that serves a
  category.  Icons and their cache are left out.  Translated strings come from KDE, so \<^verbatim>\<open>i18n\<close>
  is an argument; a pointer to a protocol is a number, the null pointer \<open>None\<close>.
\<close>

subsection \<open>Status types\<close>

datatype StatusType = Unknown | Offline | Connecting | Invisible | Away | Busy | Online

fun statusValue :: "StatusType \<Rightarrow> nat" where
  "statusValue Unknown = 0"
| "statusValue Offline = 10"
| "statusValue Connecting = 20"
| "statusValue Invisible = 30"
| "statusValue Away = 40"
| "statusValue Busy = 45"
| "statusValue Online = 50"

lemma statusValue_inject [simp]: "statusValue s = statusValue t \<longleftrightarrow> s = t"
  by (cases s; cases t) simp_all

instantiation StatusType :: linorder
begin

definition less_eq_StatusType :: "StatusType \<Rightarrow> StatusType \<Rightarrow> bool" where
  "less_eq_StatusType s t = (statusValue s \<le> statusValue t)"

definition less_StatusType :: "StatusType \<Rightarrow> StatusType \<Rightarrow> bool" where
  "less_StatusType s t = (statusValue s < statusValue t)"

instance
  by standard (auto simp: less_eq_StatusType_def less_StatusType_def)

end

lemma Unknown_least [simp]: "Unknown \<le> s" "\<not> s < Unknown"
  by (simp_all add: less_eq_StatusType_def less_StatusType_def)

definition statusNames :: "(StatusType \<times> qstring) list" where
  "statusNames =
     [(Unknown, qstr ''Unknown''), (Offline, qstr ''Offline''), (Connecting, qstr ''Connecting''),
      (Invisible, qstr ''Invisible''), (Online, qstr ''Online''), (Away, qstr ''Away''), (Busy, qstr ''Busy'')]"

definition statusTypeToString :: "StatusType \<Rightarrow> qstring" where
  "statusTypeToString statusType =
     (case find (\<lambda>e. fst e = statusType) statusNames of
        Some e \<Rightarrow> snd e
      | None \<Rightarrow> snd (statusNames ! 0))"

definition statusStringToType :: "qstring \<Rightarrow> StatusType" where
  "statusStringToType string =
     (case find (\<lambda>e. snd e = string) statusNames of
        Some e \<Rightarrow> fst e
      | None \<Rightarrow> Unknown)"

subsection \<open>Online statuses\<close>

type_synonym protocolPtr = "nat option"

record onlineStatus =
  os_status :: StatusType
  os_weight :: u32
  os_protocol :: protocolPtr
  os_internalStatus :: u32
  os_overlayIcons :: "qstring list"
  os_description :: qstring
  os_caption :: qstring
  os_categories :: u32
  os_options :: u32

definition mkOnlineStatus ::
  "StatusType \<Rightarrow> u32 \<Rightarrow> protocolPtr \<Rightarrow> u32 \<Rightarrow> qstring list \<Rightarrow> qstring \<Rightarrow> onlineStatus" where
  "mkOnlineStatus status weight protocol internalStatus overlayIcons description =
     \<lparr>os_status = status, os_weight = weight, os_protocol = protocol, os_internalStatus = internalStatus,
      os_overlayIcons = overlayIcons, os_description = description, os_caption = [],
      os_categories = 0, os_options = 0\<rparr>"

definition builtinStatus :: "(qstring \<Rightarrow> qstring) \<Rightarrow> StatusType \<Rightarrow> onlineStatus" where
  "builtinStatus i18n status =
     (let d = mkOnlineStatus status 0 None 0 [] []
      in case status of
           Online \<Rightarrow> d\<lparr>os_description := i18n (qstr ''Online'')\<rparr>
         | Away \<Rightarrow> d\<lparr>os_description := i18n (qstr ''Away'')\<rparr>
         | Connecting \<Rightarrow> d\<lparr>os_description := i18n (qstr ''Connecting'')\<rparr>
         | Invisible \<Rightarrow> d\<lparr>os_description := i18n (qstr ''Invisible'')\<rparr>
         | Offline \<Rightarrow> d\<lparr>os_description := i18n (qstr ''Offline'')\<rparr>
         | _ \<Rightarrow> d\<lparr>os_description := i18n (qstr ''Unknown''), os_overlayIcons := [qstr ''status_unknown'']\<rparr>)"

definition emptyStatus :: onlineStatus where
  "emptyStatus = mkOnlineStatus Unknown 0 None 0 [qstr ''status_unknown''] []"

definition os_eq :: "onlineStatus \<Rightarrow> onlineStatus \<Rightarrow> bool" where
  "os_eq d other \<longleftrightarrow>
     os_internalStatus d = os_internalStatus other \<and> os_protocol d = os_protocol other
     \<and> os_weight d = os_weight other \<and> os_overlayIcons d = os_overlayIcons other
     \<and> os_description d = os_description other"

definition os_greater :: "onlineStatus \<Rightarrow> onlineStatus \<Rightarrow> bool" where
  "os_greater d other =
     (if os_status d = os_status other then os_weight d > os_weight other
      else os_status d > os_status other)"

definition os_less :: "onlineStatus \<Rightarrow> onlineStatus \<Rightarrow> bool" where
  "os_less d other =
     (if os_status d = os_status other then os_weight d < os_weight other
      else os_status d < os_status other)"

definition isDefinitelyOnline :: "onlineStatus \<Rightarrow> bool" where
  "isDefinitelyOnline d \<longleftrightarrow>
     \<not> (os_status d = Offline \<or> os_status d = Connecting \<or> os_status d = Unknown)"

subsection \<open>The registry\<close>

text \<open>
  \<^verbatim>\<open>QMap<OnlineStatus, QMapDummyValue>\<close> is a list of keys in the order of \<open>os_less\<close>.  Inserting
  a key that is neither less nor greater than a present one replaces its value and keeps the
  present key.
\<close>

type_synonym statusRegistry = "protocolPtr \<Rightarrow> onlineStatus list"

fun statusMapInsert :: "onlineStatus \<Rightarrow> onlineStatus list \<Rightarrow> onlineStatus list" where
  "statusMapInsert s [] = [s]"
| "statusMapInsert s (x # xs) =
     (if os_less s x then s # x # xs
      else if os_less x s then x # statusMapInsert s xs
      else x # xs)"

definition registerOnlineStatus :: "onlineStatus \<Rightarrow> statusRegistry \<Rightarrow> statusRegistry" where
  "registerOnlineStatus status r = r(os_protocol status := statusMapInsert status (r (os_protocol status)))"

definition mkRegisteredStatus ::
  "StatusType \<Rightarrow> u32 \<Rightarrow> protocolPtr \<Rightarrow> u32 \<Rightarrow> qstring list \<Rightarrow> qstring \<Rightarrow> qstring \<Rightarrow> u32 \<Rightarrow> u32
    \<Rightarrow> statusRegistry \<Rightarrow> onlineStatus \<times> statusRegistry" where
  "mkRegisteredStatus status weight protocol internalStatus overlayIcons description caption categories options r =
     (let d = (mkOnlineStatus status weight protocol internalStatus overlayIcons description)
            \<lparr>os_caption := caption, os_categories := categories, os_options := options\<rparr>
      in (d, registerOnlineStatus d r))"

definition registeredStatusList :: "protocolPtr \<Rightarrow> statusRegistry \<Rightarrow> onlineStatus list" where
  "registeredStatusList protocol r = r protocol"

function categoryNumber :: "u32 \<Rightarrow> int \<Rightarrow> int" where
  "categoryNumber category categ_nb =
     (if category \<noteq> 0 then categoryNumber (drop_bit 1 category) (categ_nb + 1) else categ_nb)"
  by pat_completeness auto
termination
proof (relation "measure (\<lambda>(c, n). unat c)")
  fix category :: u32 and categ_nb :: int
  assume "category \<noteq> 0"
  then have "unat category div 2 < unat category" by (simp add: unat_gt_0)
  then show "((drop_bit 1 category, categ_nb + 1), category, categ_nb) \<in> measure (\<lambda>(c, n). unat c)"
    by (simp add: drop_bit_Suc unat_div_distrib)
qed simp

declare categoryNumber.simps [simp del]

function searchCategory :: "onlineStatus list \<Rightarrow> nat \<Rightarrow> onlineStatus option" where
  "searchCategory protocolMap categ_nb =
     (case find (\<lambda>s. os_categories s AND push_bit categ_nb 1 \<noteq> 0) protocolMap of
        Some s \<Rightarrow> Some s
      | None \<Rightarrow> if categ_nb div 2 > 0 then searchCategory protocolMap (categ_nb div 2) else None)"
  by pat_completeness auto
termination by (relation "measure snd") auto

declare searchCategory.simps [simp del]

text \<open>
  \<open>None\<close> stands for undefined behaviour: the shift by a negative number that a search without a
  category runs into, and the null protocol whose name the warning prints.
\<close>

definition onlineStatusFor :: "protocolPtr \<Rightarrow> u32 \<Rightarrow> statusRegistry \<Rightarrow> onlineStatus option" where
  "onlineStatusFor protocol category r =
     (let categ_nb = categoryNumber category (- 1)
      in if categ_nb < 0 then None
         else case searchCategory (r protocol) (nat categ_nb) of
                Some s \<Rightarrow> Some s
              | None \<Rightarrow> (case protocol of None \<Rightarrow> None | Some _ \<Rightarrow> Some emptyStatus))"

subsection \<open>Comparing statuses\<close>

definition os_rank :: "onlineStatus \<Rightarrow> nat" where
  "os_rank d = statusValue (os_status d) * 4294967296 + unat (os_weight d)"

lemma os_rank_less: "x < y \<Longrightarrow> x * 4294967296 + unat (v :: u32) < y * 4294967296 + unat (w :: u32)"
proof -
  assume "x < y"
  then have "Suc x \<le> y" by simp
  then have "Suc x * 4294967296 \<le> y * 4294967296" by (rule mult_le_mono1)
  with unat_u32_less [of v] show ?thesis by simp
qed

lemma os_less_rank: "os_less a b \<longleftrightarrow> os_rank a < os_rank b"
proof (cases "os_status a = os_status b")
  case True
  then show ?thesis by (simp add: os_less_def os_rank_def word_less_nat_alt)
next
  case False
  then have "statusValue (os_status a) < statusValue (os_status b) \<or> statusValue (os_status b) < statusValue (os_status a)"
    by (simp add: linorder_neq_iff [symmetric])
  then show ?thesis
  proof
    assume lt: "statusValue (os_status a) < statusValue (os_status b)"
    show ?thesis using False lt os_rank_less [OF lt] by (simp add: os_less_def os_rank_def less_StatusType_def)
  next
    assume gt: "statusValue (os_status b) < statusValue (os_status a)"
    show ?thesis using False gt os_rank_less [OF gt, of "os_weight b" "os_weight a"]
      by (simp add: os_less_def os_rank_def less_StatusType_def)
  qed
qed

lemma os_rank_eq: "os_rank a = os_rank b \<longleftrightarrow> os_status a = os_status b \<and> os_weight a = os_weight b"
proof (cases "os_status a = os_status b")
  case True
  then show ?thesis by (simp add: os_rank_def word_unat_eq_iff)
next
  case False
  then have "os_less a b \<or> os_less b a" by (auto simp: os_less_def)
  then show ?thesis using False by (auto simp: os_less_rank)
qed

lemma os_greater_less: "os_greater a b \<longleftrightarrow> os_less b a"
  by (simp add: os_greater_def os_less_def eq_commute)

lemma os_greater_rank: "os_greater a b \<longleftrightarrow> os_rank b < os_rank a"
  by (simp add: os_greater_less os_less_rank)

text \<open>
  \<^verbatim>\<open>operator<\<close> and \<^verbatim>\<open>operator>\<close> are converse, and order statuses by type and then by weight:
  a strict weak order, as \<^verbatim>\<open>QMap\<close> needs it, under which the statuses that are definitely online
  lie above all others.
\<close>

theorem status_order:
  "(os_greater a b \<longleftrightarrow> os_less b a) \<and> \<not> (os_less a b \<and> os_less b a)
    \<and> (os_less a b \<and> os_less b c \<longrightarrow> os_less a c)
    \<and> (\<not> os_less a b \<and> \<not> os_less b a \<longleftrightarrow> os_status a = os_status b \<and> os_weight a = os_weight b)
    \<and> (isDefinitelyOnline a \<and> \<not> isDefinitelyOnline b \<longrightarrow> os_less b a)"
proof -
  have "os_status b < os_status a" if "isDefinitelyOnline a" "\<not> isDefinitelyOnline b"
    using that by (cases "os_status a"; cases "os_status b")
      (simp_all add: isDefinitelyOnline_def less_StatusType_def)
  then show ?thesis
    by (auto simp: os_greater_less os_less_rank os_rank_eq [symmetric])
      (auto simp: os_less_rank [symmetric] os_less_def)
qed

theorem status_order_witness:
  "let a = builtinStatus id Online; b = builtinStatus id Offline; c = emptyStatus in
    (os_greater a b \<longleftrightarrow> os_less b a) \<and> \<not> (os_less a b \<and> os_less b a)
    \<and> (os_less a b \<and> os_less b c \<longrightarrow> os_less a c)
    \<and> (\<not> os_less a b \<and> \<not> os_less b a \<longleftrightarrow> os_status a = os_status b \<and> os_weight a = os_weight b)
    \<and> (isDefinitelyOnline a \<and> \<not> isDefinitelyOnline b \<longrightarrow> os_less b a)"
  unfolding Let_def by (rule status_order)

text \<open>
  A status type written to disk by name is read back as the same type, and every other
  string is read as \<open>Unknown\<close>.
\<close>

theorem status_names_roundtrip:
  "statusStringToType (statusTypeToString t) = t
    \<and> (statusTypeToString (statusStringToType n) = n \<or> n \<notin> snd ` set statusNames \<and> statusStringToType n = Unknown)"
proof
  show "statusStringToType (statusTypeToString t) = t"
    by (cases t) (simp_all add: statusStringToType_def statusTypeToString_def statusNames_def qstr_def)
  show "statusTypeToString (statusStringToType n) = n \<or> n \<notin> snd ` set statusNames \<and> statusStringToType n = Unknown"
    by (auto simp: statusStringToType_def statusTypeToString_def statusNames_def)
qed

text \<open>
  Two built-in statuses compare equal exactly when their types agree, with one exception: the
  constructor has no case for \<open>Busy\<close>, so that the built-in busy status is the unknown one for
  \<^verbatim>\<open>operator==\<close>, although it is greater.
\<close>

theorem builtin_busy_is_unknown:
  assumes "distinct (map (\<lambda>s. i18n (qstr s)) [''Online'', ''Away'', ''Connecting'', ''Invisible'', ''Offline''])"
  shows "(os_eq (builtinStatus i18n s) (builtinStatus i18n t) \<longleftrightarrow> s = t \<or> {s, t} = {Busy, Unknown})
    \<and> os_greater (builtinStatus i18n Busy) (builtinStatus i18n Unknown)"
proof
  show "os_eq (builtinStatus i18n s) (builtinStatus i18n t) \<longleftrightarrow> s = t \<or> {s, t} = {Busy, Unknown}"
    using assms
    by (cases s; cases t)
      (simp_all add: builtinStatus_def mkOnlineStatus_def os_eq_def Let_def doubleton_eq_iff, auto)
  show "os_greater (builtinStatus i18n Busy) (builtinStatus i18n Unknown)"
    by (simp add: builtinStatus_def mkOnlineStatus_def os_greater_def Let_def less_StatusType_def)
qed

theorem builtin_busy_is_unknown_witness:
  "(os_eq (builtinStatus id Busy) (builtinStatus id Unknown) \<longleftrightarrow> Busy = Unknown \<or> {Busy, Unknown} = {Busy, Unknown})
    \<and> os_greater (builtinStatus id Busy) (builtinStatus id Unknown)"
  by (rule builtin_busy_is_unknown) (simp add: qstr_def)

subsection \<open>The registry\<close>

abbreviation sorted_map :: "onlineStatus list \<Rightarrow> bool" where
  "sorted_map \<equiv> sorted_wrt (\<lambda>a b. os_rank a < os_rank b)"

lemma statusMapInsert_set:
  "sorted_map m \<Longrightarrow> x \<in> set (statusMapInsert s m) \<longleftrightarrow> x \<in> set m \<or> x = s \<and> os_rank s \<notin> os_rank ` set m"
  by (induction m) (auto simp: os_less_rank)

lemma statusMapInsert_sorted: "sorted_map m \<Longrightarrow> sorted_map (statusMapInsert s m)"
  by (induction m) (auto simp: os_less_rank statusMapInsert_set)

lemma register_at:
  "registerOnlineStatus s r p = (if os_protocol s = p then statusMapInsert s (r p) else r p)"
  by (auto simp: registerOnlineStatus_def)

lemma registered_sorted: "sorted_map (fold registerOnlineStatus ss (\<lambda>_. []) p)"
  by (induction ss rule: rev_induct) (simp_all add: register_at statusMapInsert_sorted)

text \<open>
  What a protocol has registered are its statuses in increasing order, but of several with
  the same type and weight only the first; a later one is never found, whatever its category.
\<close>

theorem first_registration_wins:
  "sorted_wrt os_less (registeredStatusList p (fold registerOnlineStatus ss (\<lambda>_. [])))
    \<and> (x \<in> set (registeredStatusList p (fold registerOnlineStatus ss (\<lambda>_. []))) \<longleftrightarrow>
        (\<exists>us vs. ss = us @ x # vs \<and> os_protocol x = p
          \<and> \<not> (\<exists>u \<in> set us. os_protocol u = p \<and> os_status u = os_status x \<and> os_weight u = os_weight x)))"
proof
  show "sorted_wrt os_less (registeredStatusList p (fold registerOnlineStatus ss (\<lambda>_. [])))"
    using registered_sorted by (simp add: registeredStatusList_def os_less_rank [abs_def])
next
  let ?m = "\<lambda>ss. fold registerOnlineStatus ss (\<lambda>_. []) p"
  let ?first = "\<lambda>ss x. \<exists>us vs. ss = us @ x # vs \<and> os_protocol x = p
      \<and> \<not> (\<exists>u \<in> set us. os_protocol u = p \<and> os_rank u = os_rank x)"
  have ranks: "os_rank ` set (?m ss) = os_rank ` {u \<in> set ss. os_protocol u = p}" for ss
  proof (induction ss rule: rev_induct)
    case (snoc s ss)
    have "x \<in> set (statusMapInsert s (?m ss)) \<longleftrightarrow> x \<in> set (?m ss) \<or> x = s \<and> os_rank s \<notin> os_rank ` set (?m ss)" for x
      by (rule statusMapInsert_set [OF registered_sorted])
    then have "os_rank ` set (statusMapInsert s (?m ss)) = insert (os_rank s) (os_rank ` set (?m ss))" by auto
    moreover have "{u \<in> set (ss @ [s]). os_protocol u = p}
        = (if os_protocol s = p then insert s else id) {u \<in> set ss. os_protocol u = p}" by auto
    ultimately show ?case using snoc by (simp add: register_at [of s _ p])
  qed simp
  have "x \<in> set (?m ss) \<longleftrightarrow> ?first ss x" for x
  proof (induction ss rule: rev_induct)
    case (snoc s ss)
    have mem: "os_rank s \<in> os_rank ` A \<longleftrightarrow> (\<exists>u \<in> A. os_rank u = os_rank s)" for A by (metis imageE imageI)
    have step: "?first (ss @ [s]) x \<longleftrightarrow> ?first ss x \<or> x = s \<and> os_protocol s = p \<and> os_rank s \<notin> os_rank ` set (?m ss)"
    proof -
      have "ss @ [s] = us @ x # vs \<longleftrightarrow> us = ss \<and> x = s \<and> vs = [] \<or> (\<exists>vs'. vs = vs' @ [s] \<and> ss = us @ x # vs')" for us vs
        by (cases vs rule: rev_cases) auto
      then have "?first (ss @ [s]) x \<longleftrightarrow> (\<exists>us vs. (us = ss \<and> x = s \<and> vs = [] \<or> (\<exists>vs'. vs = vs' @ [s] \<and> ss = us @ x # vs'))
          \<and> os_protocol x = p \<and> \<not> (\<exists>u \<in> set us. os_protocol u = p \<and> os_rank u = os_rank x))" by (simp only:)
      also have "\<dots> \<longleftrightarrow> ?first ss x \<or> x = s \<and> os_protocol s = p \<and> \<not> (\<exists>u \<in> set ss. os_protocol u = p \<and> os_rank u = os_rank s)"
        by (simp only: conj_disj_distribR ex_disj_distrib) auto
      also have "\<dots> \<longleftrightarrow> ?first ss x \<or> x = s \<and> os_protocol s = p \<and> os_rank s \<notin> os_rank ` set (?m ss)"
        unfolding ranks mem by auto
      finally show ?thesis .
    qed
    have "x \<in> set (?m (ss @ [s])) \<longleftrightarrow> x \<in> set (?m ss) \<or> x = s \<and> os_protocol s = p \<and> os_rank s \<notin> os_rank ` set (?m ss)"
      by (auto simp: register_at [of s _ p] statusMapInsert_set [OF registered_sorted])
    then show ?case unfolding step snoc .
  qed simp
  then show "x \<in> set (registeredStatusList p (fold registerOnlineStatus ss (\<lambda>_. []))) \<longleftrightarrow>
        (\<exists>us vs. ss = us @ x # vs \<and> os_protocol x = p
          \<and> \<not> (\<exists>u \<in> set us. os_protocol u = p \<and> os_status u = os_status x \<and> os_weight u = os_weight x))"
    by (simp add: registeredStatusList_def os_rank_eq)
qed

lemma categoryNumber_single: "n < 32 \<Longrightarrow> categoryNumber (push_bit n 1) k = k + int n + 1"
proof (induction n arbitrary: k)
  case 0
  then show ?case by (simp add: categoryNumber.simps [of 1] categoryNumber.simps [of 0])
next
  case (Suc n)
  have "bit (push_bit (Suc n) 1 :: u32) (Suc n)" using Suc.prems by (simp add: bit_simps)
  then have "(push_bit (Suc n) 1 :: u32) \<noteq> 0" by (metis bit_0_eq bot_apply bot_bool_def)
  moreover have "drop_bit 1 (push_bit (Suc n) 1 :: u32) = push_bit n 1"
    using Suc.prems by (intro bit_word_eqI) (auto simp: bit_simps)
  ultimately show ?case using Suc by (simp add: categoryNumber.simps [of "push_bit (Suc n) 1"] del: push_bit_Suc push_bit_of_1)
qed

lemma and_single_bit: "n < 32 \<Longrightarrow> (c :: u32) AND push_bit n 1 \<noteq> 0 \<longleftrightarrow> bit c n"
  by (simp add: and_exp_eq_0_iff_not_bit)

abbreviation serves :: "nat \<Rightarrow> onlineStatus \<Rightarrow> bool" where
  "serves k s \<equiv> bit (os_categories s) k"

lemma find_first_sorted:
  "sorted_map m \<Longrightarrow> find P m = Some s \<Longrightarrow> s \<in> set m \<and> P s \<and> (\<forall>x \<in> set m. os_less x s \<longrightarrow> \<not> P x)"
  by (induction m) (auto simp: os_less_rank split: if_splits)

lemma searchCategory_spec:
  assumes "sorted_map m" "n < 32"
  shows "case searchCategory m n of
      None \<Rightarrow> \<forall>i x. (0 < n div 2 ^ i \<or> i = 0) \<and> x \<in> set m \<longrightarrow> \<not> serves (n div 2 ^ i) x
    | Some s \<Rightarrow> s \<in> set m \<and> (\<exists>i. (0 < n div 2 ^ i \<or> i = 0) \<and> serves (n div 2 ^ i) s
        \<and> (\<forall>j < i. \<forall>x \<in> set m. \<not> serves (n div 2 ^ j) x)
        \<and> (\<forall>x \<in> set m. os_less x s \<longrightarrow> \<not> serves (n div 2 ^ i) x))"
  using assms(2)
proof (induction n rule: less_induct)
  case (less n)
  let ?find = "find (\<lambda>s. os_categories s AND push_bit n 1 \<noteq> 0) m"
  have eq: "?find = find (serves n) m" using less.prems by (simp add: and_single_bit del: push_bit_of_1)
  have half: "n div 2 div 2 ^ i = n div 2 ^ Suc i" for i by (simp add: div_mult2_eq)
  show ?case
  proof (cases "find (serves n) m")
    case (Some s)
    from find_first_sorted [OF assms(1) this] show ?thesis
      using Some eq by (simp add: searchCategory.simps [of m n]) (intro exI [of _ 0], simp)
  next
    case None
    then have none: "\<not> serves n x" if "x \<in> set m" for x using that by (simp add: find_None_iff)
    show ?thesis
    proof (cases "0 < n div 2")
      case True
      then have lt: "n div 2 < n" "n div 2 < 32" using less.prems by simp_all
      have IH: "case searchCategory m (n div 2) of
          None \<Rightarrow> \<forall>i x. (0 < n div 2 ^ Suc i \<or> i = 0) \<and> x \<in> set m \<longrightarrow> \<not> serves (n div 2 ^ Suc i) x
        | Some s \<Rightarrow> s \<in> set m \<and> (\<exists>i. (0 < n div 2 ^ Suc i \<or> i = 0) \<and> serves (n div 2 ^ Suc i) s
            \<and> (\<forall>j < i. \<forall>x \<in> set m. \<not> serves (n div 2 ^ Suc j) x)
            \<and> (\<forall>x \<in> set m. os_less x s \<longrightarrow> \<not> serves (n div 2 ^ Suc i) x))"
        using less.IH [OF lt] unfolding half .
      have step: "searchCategory m n = searchCategory m (n div 2)"
        using None eq True by (simp add: searchCategory.simps [of m n])
      show ?thesis
      proof (cases "searchCategory m (n div 2)")
        case None
        with IH have low: "\<not> serves (n div 2 ^ Suc i) x" if "0 < n div 2 ^ Suc i" "x \<in> set m" for i x
          using that by simp
        have "\<not> serves (n div 2 ^ i) x" if "0 < n div 2 ^ i \<or> i = 0" "x \<in> set m" for i x
          using that none low by (cases i) auto
        with None step show ?thesis by simp
      next
        case (Some s)
        with IH obtain i where i: "s \<in> set m" "0 < n div 2 ^ Suc i \<or> i = 0" "serves (n div 2 ^ Suc i) s"
          "\<forall>j < i. \<forall>x \<in> set m. \<not> serves (n div 2 ^ Suc j) x"
          "\<forall>x \<in> set m. os_less x s \<longrightarrow> \<not> serves (n div 2 ^ Suc i) x" by auto
        have "0 < n div 2 ^ Suc i" using i(2) True by auto
        moreover have "\<forall>j < Suc i. \<forall>x \<in> set m. \<not> serves (n div 2 ^ j) x"
        proof (intro allI impI ballI)
          fix j x assume "j < Suc i" "x \<in> set m"
          then show "\<not> serves (n div 2 ^ j) x" using i(4) none by (cases j) auto
        qed
        ultimately show ?thesis using Some step i(1,3,5) by (auto simp del: power_Suc intro!: exI [of _ "Suc i"])
      qed
    next
      case False
      then have step: "searchCategory m n = None" using None eq by (simp add: searchCategory.simps [of m n])
      have "\<not> serves (n div 2 ^ i) x" if "0 < n div 2 ^ i \<or> i = 0" "x \<in> set m" for i x
        using that none False by (cases i) (simp_all add: half [symmetric] del: power_Suc)
      with step show ?thesis by simp
    qed
  qed
qed

text \<open>
  The status of a protocol for a category is the least of its registered statuses in the
  nearest category on the way to the root of the tree of categories that has any, and the empty
  status when no category on the way has one.  The way never reaches \<open>Offline\<close>, category 0.
\<close>

theorem nearest_category_found:
  assumes "n < 32" "r = fold registerOnlineStatus ss (\<lambda>_. [])"
  shows "\<exists>s. onlineStatusFor (Some p) (push_bit n 1) r = Some s
    \<and> (s = emptyStatus \<and> (\<forall>i x. (0 < n div 2 ^ i \<or> i = 0) \<and> x \<in> set (r (Some p)) \<longrightarrow> \<not> bit (os_categories x) (n div 2 ^ i))
      \<or> s \<in> set (r (Some p)) \<and> (\<exists>i. (0 < n div 2 ^ i \<or> i = 0) \<and> bit (os_categories s) (n div 2 ^ i)
          \<and> (\<forall>j < i. \<forall>x \<in> set (r (Some p)). \<not> bit (os_categories x) (n div 2 ^ j))
          \<and> (\<forall>x \<in> set (r (Some p)). os_less x s \<longrightarrow> \<not> bit (os_categories x) (n div 2 ^ i))))"
proof -
  have sorted: "sorted_map (r (Some p))" unfolding assms(2) by (rule registered_sorted)
  have nr: "categoryNumber (push_bit n 1) (- 1) = int n" using categoryNumber_single [OF assms(1)] by simp
  show ?thesis
    using searchCategory_spec [OF sorted assms(1)]
    by (cases "searchCategory (r (Some p)) n") (simp_all add: onlineStatusFor_def nr del: push_bit_of_1)
qed

definition awayOnly :: onlineStatus where
  "awayOnly = (mkOnlineStatus Away 0 (Some 7) 1 [] [])\<lparr>os_categories := push_bit 2 1\<rparr>"

theorem nearest_category_found_witness:
  "let r = fold registerOnlineStatus [awayOnly] (\<lambda>_. []) in
   \<exists>s. onlineStatusFor (Some 7) (push_bit 9 1) r = Some s
    \<and> (s = emptyStatus \<and> (\<forall>i x. (0 < (9::nat) div 2 ^ i \<or> i = 0) \<and> x \<in> set (r (Some 7)) \<longrightarrow> \<not> bit (os_categories x) (9 div 2 ^ i))
      \<or> s \<in> set (r (Some 7)) \<and> (\<exists>i. (0 < (9::nat) div 2 ^ i \<or> i = 0) \<and> bit (os_categories s) (9 div 2 ^ i)
          \<and> (\<forall>j < i. \<forall>x \<in> set (r (Some 7)). \<not> bit (os_categories x) (9 div 2 ^ j))
          \<and> (\<forall>x \<in> set (r (Some 7)). os_less x s \<longrightarrow> \<not> bit (os_categories x) (9 div 2 ^ i))))"
  unfolding Let_def by (rule nearest_category_found [OF _ refl]) simp

end
