(* ===== verification/Kopete_Contact.thy ===== *)
theory Kopete_Contact
  imports Kopete_OnlineStatus
begin

text \<open>
  Contacts of \<^verbatim>\<open>libkopete\<close>: the properties of a contact (\<^verbatim>\<open>kopetepropertycontainer.cpp\<close>), its
  presence, the name it is shown under and the signals it emits (\<^verbatim>\<open>kopetecontact.cpp\<close>).

  Contacts and accounts are shared by pointer, so the operations work on a store of objects.
  A contact has an account: \<^verbatim>\<open>Contact::onlineStatus\<close>, which all of the code calls, dereferences
  it.  What a protocol overrides (\<^verbatim>\<open>isReachable\<close>, \<^verbatim>\<open>manager(CannotCreate)\<close>), the clock and the
  translated strings are data of the store.  Signals are recorded in the order of their emission.
\<close>

type_synonym contactPtr = nat
type_synonym accountPtr = nat
type_synonym metaPtr = nat

subsection \<open>The objects\<close>

datatype variant = VString qstring | VBool bool | VTime nat | VPicture nat

datatype NameType = NickName | CustomName | FormattedName | ContactId

datatype contactEvent =
    PropertyChanged string "variant option" "variant option"
  | OnlineStatusChanged onlineStatus onlineStatus
  | CanAcceptFilesChanged
  | StatusMessageChanged
  | IdleStateChanged
  | DisplayNameChanged qstring qstring

record account =
  ac_accountId :: qstring
  ac_protocolId :: qstring
  ac_connected :: bool
  ac_priority :: u32
  ac_offlineStatus :: onlineStatus
  ac_myself :: contactPtr
  ac_suppressStatusNotification :: bool
  ac_isAway :: bool

record contact =
  c_contactId :: qstring
  c_account :: accountPtr
  c_metaContact :: "metaPtr option"
  c_onlineStatus :: onlineStatus
  c_fileCapable :: bool
  c_idleTime :: nat
  c_idleElapsed :: nat
  c_statusTitle :: qstring
  c_statusMessage :: qstring
  c_preferredNameType :: NameType
  c_oldName :: qstring
  c_properties :: "(string \<times> variant) list"
  c_isReachable :: "bool option"
  c_manager :: bool
  c_events :: "contactEvent list"

record objects =
  ob_contact :: "contactPtr \<Rightarrow> contact"
  ob_account :: "accountPtr \<Rightarrow> account"
  ob_now :: nat
  ob_dateString :: "nat \<Rightarrow> qstring"
  ob_firstLast :: "qstring \<Rightarrow> qstring \<Rightarrow> qstring"

abbreviation with_contact :: "contactPtr \<Rightarrow> (contact \<Rightarrow> contact) \<Rightarrow> objects \<Rightarrow> objects" where
  "with_contact p f ob \<equiv> ob\<lparr>ob_contact := (ob_contact ob)(p := f (ob_contact ob p))\<rparr>"

definition emit_contact :: "contactEvent \<Rightarrow> contact \<Rightarrow> contact" where
  "emit_contact e c = c\<lparr>c_events := c_events c @ [e]\<rparr>"

subsection \<open>Names\<close>

definition nameTypeFromString :: "qstring \<Rightarrow> NameType" where
  "nameTypeFromString nameType =
     (if nameType = qstr ''nickName'' then NickName
      else if nameType = qstr ''customName'' then CustomName
      else if nameType = qstr ''formattedName'' then FormattedName
      else if nameType = qstr ''contactId'' then ContactId
      else CustomName)"

fun nameTypeToString :: "NameType \<Rightarrow> qstring" where
  "nameTypeToString NickName = qstr ''nickName''"
| "nameTypeToString FormattedName = qstr ''formattedName''"
| "nameTypeToString ContactId = qstr ''contactId''"
| "nameTypeToString CustomName = qstr ''customName''"

fun variantString :: "(nat \<Rightarrow> qstring) \<Rightarrow> variant \<Rightarrow> qstring" where
  "variantString date (VString s) = s"
| "variantString date (VBool b) = (if b then qstr ''true'' else qstr ''false'')"
| "variantString date (VTime t) = date t"
| "variantString date (VPicture n) = []"

text \<open>Pictures do not convert to strings.\<close>

fun canConvertToString :: "variant \<Rightarrow> bool" where
  "canConvertToString (VPicture n) = False"
| "canConvertToString v = True"

definition hasProperty :: "contact \<Rightarrow> string \<Rightarrow> bool" where
  "hasProperty c key \<longleftrightarrow> map_of (c_properties c) key \<noteq> None"

definition propertyString :: "objects \<Rightarrow> contact \<Rightarrow> string \<Rightarrow> qstring" where
  "propertyString ob c key =
     (case map_of (c_properties c) key of Some v \<Rightarrow> variantString (ob_dateString ob) v | None \<Rightarrow> [])"

definition formattedName :: "objects \<Rightarrow> contact \<Rightarrow> qstring" where
  "formattedName ob c =
     (if hasProperty c ''fullName'' then propertyString ob c ''fullName''
      else if hasProperty c ''firstName''
      then (if hasProperty c ''lastName''
            then ob_firstLast ob (propertyString ob c ''lastName'') (propertyString ob c ''firstName'')
            else propertyString ob c ''firstName'')
      else if hasProperty c ''lastName'' then propertyString ob c ''lastName'' else [])"

definition nickName :: "objects \<Rightarrow> contact \<Rightarrow> qstring" where
  "nickName ob c =
     (let nick = propertyString ob c ''nickName'' in if nick \<noteq> [] then nick else c_contactId c)"

definition customName :: "objects \<Rightarrow> contact \<Rightarrow> qstring" where
  "customName ob c =
     (let name = propertyString ob c ''customName'' in if name \<noteq> [] then name else nickName ob c)"

definition contactDisplayName :: "objects \<Rightarrow> contact \<Rightarrow> qstring" where
  "contactDisplayName ob c =
     (let name = (case c_preferredNameType c of
                    NickName \<Rightarrow> nickName ob c
                  | FormattedName \<Rightarrow> formattedName ob c
                  | ContactId \<Rightarrow> c_contactId c
                  | CustomName \<Rightarrow> customName ob c)
      in if name = [] then c_contactId c else name)"

text \<open>The contact's own slot, connected in its constructor.\<close>

definition nameKeys :: "string list" where
  "nameKeys = [''customName'', ''fullName'', ''firstName'', ''lastName'', ''nickName'']"

definition contactSlotPropertyChanged :: "objects \<Rightarrow> string \<Rightarrow> contact \<Rightarrow> contact" where
  "contactSlotPropertyChanged ob key c =
     (if key \<notin> set nameKeys then c
      else let oldName = c_oldName c; newName = contactDisplayName ob c
           in if oldName \<noteq> newName then emit_contact (DisplayNameChanged oldName newName) (c\<lparr>c_oldName := newName\<rparr>)
              else c)"

definition removeProperty :: "objects \<Rightarrow> string \<Rightarrow> contact \<Rightarrow> contact" where
  "removeProperty ob key c =
     (case map_of (c_properties c) key of
        Some oldValue \<Rightarrow>
          contactSlotPropertyChanged ob key
            (emit_contact (PropertyChanged key (Some oldValue) None)
              (c\<lparr>c_properties := filter (\<lambda>e. fst e \<noteq> key) (c_properties c)\<rparr>))
      | None \<Rightarrow> c)"

definition setProperty :: "objects \<Rightarrow> string \<Rightarrow> variant \<Rightarrow> contact \<Rightarrow> contact" where
  "setProperty ob key value c =
     (if canConvertToString value \<and> variantString (ob_dateString ob) value = [] then removeProperty ob key c
      else let oldValue = map_of (c_properties c) key
           in if oldValue \<noteq> Some value
              then contactSlotPropertyChanged ob key
                     (emit_contact (PropertyChanged key oldValue (Some value))
                       (c\<lparr>c_properties := (key, value) # filter (\<lambda>e. fst e \<noteq> key) (c_properties c)\<rparr>))
              else c)"

definition setPreferredNameType :: "objects \<Rightarrow> NameType \<Rightarrow> contact \<Rightarrow> contact" where
  "setPreferredNameType ob ty c =
     (if c_preferredNameType c \<noteq> ty
      then let oldName = contactDisplayName ob c;
               c = c\<lparr>c_preferredNameType := ty\<rparr>;
               newName = contactDisplayName ob c
           in if oldName \<noteq> newName then emit_contact (DisplayNameChanged oldName newName) (c\<lparr>c_oldName := newName\<rparr>)
              else c
      else c)"

definition setNickName :: "objects \<Rightarrow> qstring \<Rightarrow> contact \<Rightarrow> contact" where
  "setNickName ob name = setProperty ob ''nickName'' (VString name)"

definition setCustomName :: "objects \<Rightarrow> qstring \<Rightarrow> contact \<Rightarrow> contact" where
  "setCustomName ob name = setProperty ob ''customName'' (VString name)"

definition setPhoto :: "objects \<Rightarrow> qstring \<Rightarrow> contact \<Rightarrow> contact" where
  "setPhoto ob photoPath = setProperty ob ''photo'' (VString photoPath)"

subsection \<open>Presence\<close>

definition onlineStatusOf :: "objects \<Rightarrow> contactPtr \<Rightarrow> onlineStatus" where
  "onlineStatusOf ob p =
     (let c = ob_contact ob p; a = ob_account ob (c_account c)
      in if p = ac_myself a \<or> ac_connected a then c_onlineStatus c else ac_offlineStatus a)"

definition contactIsOnline :: "objects \<Rightarrow> contactPtr \<Rightarrow> bool" where
  "contactIsOnline ob p = isDefinitelyOnline (onlineStatusOf ob p)"

definition contactCanAcceptFiles :: "objects \<Rightarrow> contactPtr \<Rightarrow> bool" where
  "contactCanAcceptFiles ob p \<longleftrightarrow> contactIsOnline ob p \<and> c_fileCapable (ob_contact ob p)"

text \<open>\<open>None\<close> when the protocol does not override \<^verbatim>\<open>isReachable\<close>.\<close>

definition contactIsReachable :: "objects \<Rightarrow> contactPtr \<Rightarrow> bool" where
  "contactIsReachable ob p =
     (case c_isReachable (ob_contact ob p) of
        Some b \<Rightarrow> b
      | None \<Rightarrow> os_status (onlineStatusOf ob p) \<noteq> Offline)"

definition setFileCapable :: "bool \<Rightarrow> contact \<Rightarrow> contact" where
  "setFileCapable filecap c =
     (if c_fileCapable c \<noteq> filecap then emit_contact CanAcceptFilesChanged (c\<lparr>c_fileCapable := filecap\<rparr>) else c)"

definition contactIdleTime :: "contact \<Rightarrow> nat" where
  "contactIdleTime c = (if c_idleTime c = 0 then 0 else c_idleTime c + c_idleElapsed c div 1000)"

definition setIdleTime :: "nat \<Rightarrow> contact \<Rightarrow> contact" where
  "setIdleTime t c =
     (let idleChanged = (c_idleTime c \<noteq> t);
          c = c\<lparr>c_idleTime := t\<rparr>;
          c = (if t > 0 then c\<lparr>c_idleElapsed := 0\<rparr> else c)
      in if idleChanged then emit_contact IdleStateChanged c else c)"

definition setPresenceTimes :: "objects \<Rightarrow> onlineStatus \<Rightarrow> onlineStatus \<Rightarrow> contact \<Rightarrow> contact" where
  "setPresenceTimes ob oldStatus status c =
     (if os_status oldStatus = Offline \<and> os_status status \<noteq> Unknown \<and> os_status status \<noteq> Offline
      then removeProperty ob ''lastSeen''
             (if \<not> hasProperty c ''onlineSince'' then setProperty ob ''onlineSince'' (VTime (ob_now ob)) c else c)
      else if os_status oldStatus \<noteq> Offline \<and> os_status oldStatus \<noteq> Unknown \<and> os_status status = Offline
      then setProperty ob ''lastSeen'' (VTime (ob_now ob)) (removeProperty ob ''onlineSince'' c)
      else c)"

definition setContactOnlineStatus :: "contactPtr \<Rightarrow> onlineStatus \<Rightarrow> objects \<Rightarrow> objects" where
  "setContactOnlineStatus p status ob =
     (if os_eq status (c_onlineStatus (ob_contact ob p)) then ob
      else
        let oldCanAcceptFiles = contactCanAcceptFiles ob p;
            oldStatus = c_onlineStatus (ob_contact ob p);
            ob = with_contact p (\<lambda>c. c\<lparr>c_onlineStatus := status\<rparr>) ob;
            ob = with_contact p (setPresenceTimes ob oldStatus status) ob;
            a = ob_account ob (c_account (ob_contact ob p));
            ob = (if p = ac_myself a \<or> ac_connected a
                  then with_contact p (emit_contact (OnlineStatusChanged status oldStatus)) ob else ob)
        in if oldCanAcceptFiles \<noteq> contactCanAcceptFiles ob p
           then with_contact p (emit_contact CanAcceptFilesChanged) ob else ob)"

definition slotAccountIsConnectedChanged :: "contactPtr \<Rightarrow> objects \<Rightarrow> objects" where
  "slotAccountIsConnectedChanged p ob =
     (let c = ob_contact ob p; a = ob_account ob (c_account c)
      in if p = ac_myself a then ob
         else if ac_connected a
         then with_contact p (emit_contact (OnlineStatusChanged (c_onlineStatus c) (ac_offlineStatus a))) ob
         else with_contact p (emit_contact (OnlineStatusChanged (ac_offlineStatus a) (c_onlineStatus c))) ob)"

definition setStatusMessage :: "objects \<Rightarrow> qstring \<Rightarrow> qstring \<Rightarrow> contact \<Rightarrow> contact" where
  "setStatusMessage ob title message c =
     (let emitUpdate = \<not> (c_statusTitle c = title \<and> c_statusMessage c = message);
          c = c\<lparr>c_statusTitle := title, c_statusMessage := message\<rparr>;
          c = (if title \<noteq> [] then setProperty ob ''statusTitle'' (VString title) c
               else removeProperty ob ''statusTitle'' c);
          c = (if message \<noteq> [] then setProperty ob ''statusMessage'' (VString message) c
               else removeProperty ob ''statusMessage'' c)
      in if emitUpdate then emit_contact StatusMessageChanged c else c)"

subsection \<open>Shown names\<close>

text \<open>
  What a listener shows: it starts with the name it finds and follows the signals, and is lost
  (\<open>None\<close>) when a signal names another old name than the one shown.
\<close>

fun showName :: "contactEvent \<Rightarrow> qstring option \<Rightarrow> qstring option" where
  "showName (DisplayNameChanged old new) shown = (if shown = Some old then Some new else None)"
| "showName _ shown = shown"

datatype nameOp = SetProp string variant | RemoveProp string | SetType NameType | SetMessage qstring qstring

fun nameStep :: "objects \<Rightarrow> nameOp \<Rightarrow> contact \<Rightarrow> contact" where
  "nameStep ob (SetProp key v) c = setProperty ob key v c"
| "nameStep ob (RemoveProp key) c = removeProperty ob key c"
| "nameStep ob (SetType ty) c = setPreferredNameType ob ty c"
| "nameStep ob (SetMessage title message) c = setStatusMessage ob title message c"

definition follows :: "objects \<Rightarrow> contact \<Rightarrow> contact \<Rightarrow> bool" where
  "follows ob c c' \<longleftrightarrow> c_contactId c' = c_contactId c \<and> c_oldName c' = contactDisplayName ob c'
     \<and> (\<exists>es. c_events c' = c_events c @ es \<and> fold showName es (Some (contactDisplayName ob c)) = Some (contactDisplayName ob c'))"

lemma follows_refl: "c_oldName c = contactDisplayName ob c \<Longrightarrow> follows ob c c"
  by (simp add: follows_def)

lemma follows_oldName: "follows ob c c' \<Longrightarrow> c_oldName c' = contactDisplayName ob c'"
  by (simp add: follows_def)

lemma follows_trans: "follows ob a b \<Longrightarrow> follows ob b c \<Longrightarrow> follows ob a c"
  by (auto simp: follows_def)

lemma displayName_cong:
  assumes "c_contactId c' = c_contactId c" "c_preferredNameType c' = c_preferredNameType c"
    "\<And>k. k \<in> set nameKeys \<Longrightarrow> map_of (c_properties c') k = map_of (c_properties c) k"
  shows "contactDisplayName ob c' = contactDisplayName ob c"
proof -
  have maps: "map_of (c_properties c') ''customName'' = map_of (c_properties c) ''customName''"
    "map_of (c_properties c') ''fullName'' = map_of (c_properties c) ''fullName''"
    "map_of (c_properties c') ''firstName'' = map_of (c_properties c) ''firstName''"
    "map_of (c_properties c') ''lastName'' = map_of (c_properties c) ''lastName''"
    "map_of (c_properties c') ''nickName'' = map_of (c_properties c) ''nickName''"
    by (simp_all add: assms(3) nameKeys_def)
  have nick: "nickName ob c' = nickName ob c" by (simp add: nickName_def propertyString_def Let_def assms(1) maps)
  then have "customName ob c' = customName ob c" by (simp add: customName_def propertyString_def Let_def maps)
  moreover have "formattedName ob c' = formattedName ob c"
    by (simp add: formattedName_def propertyString_def hasProperty_def maps)
  ultimately show ?thesis
    using nick by (cases "c_preferredNameType c") (simp_all add: contactDisplayName_def Let_def assms(1,2))
qed

lemma map_of_without: "map_of (filter (\<lambda>e. fst e \<noteq> key) ps) k = (if k = key then None else map_of ps k)"
  by (induction ps) auto

text \<open>Changing one property and telling the contact's own slot.\<close>

lemma follows_change:
  assumes "c_oldName c = contactDisplayName ob c" "\<And>k. k \<noteq> key \<Longrightarrow> map_of ps k = map_of (c_properties c) k"
  shows "follows ob c (contactSlotPropertyChanged ob key (emit_contact (PropertyChanged key x y) (c\<lparr>c_properties := ps\<rparr>)))"
proof (cases "key \<in> set nameKeys")
  case True
  let ?d = "emit_contact (PropertyChanged key x y) (c\<lparr>c_properties := ps\<rparr>)"
  have "contactDisplayName ob (emit_contact e (d\<lparr>c_oldName := n\<rparr>)) = contactDisplayName ob d" for e d n
    by (rule displayName_cong) (simp_all add: emit_contact_def)
  with True assms(1) show ?thesis
    by (simp add: contactSlotPropertyChanged_def Let_def follows_def) (simp add: emit_contact_def)
next
  case False
  then have "contactDisplayName ob (emit_contact (PropertyChanged key x y) (c\<lparr>c_properties := ps\<rparr>)) = contactDisplayName ob c"
    using assms(2) by (intro displayName_cong) (simp_all add: emit_contact_def, metis)
  with False assms(1) show ?thesis
    by (simp add: contactSlotPropertyChanged_def follows_def) (simp add: emit_contact_def)
qed

lemma follows_removeProperty: "c_oldName c = contactDisplayName ob c \<Longrightarrow> follows ob c (removeProperty ob key c)"
  by (auto simp: removeProperty_def map_of_without intro!: follows_change follows_refl split: option.split)

lemma follows_setProperty: "c_oldName c = contactDisplayName ob c \<Longrightarrow> follows ob c (setProperty ob key v c)"
  by (auto simp: setProperty_def map_of_without Let_def intro!: follows_change follows_refl follows_removeProperty)

lemma follows_setType: "c_oldName c = contactDisplayName ob c \<Longrightarrow> follows ob c (setPreferredNameType ob ty c)"
proof -
  assume old: "c_oldName c = contactDisplayName ob c"
  have "contactDisplayName ob (emit_contact e (d\<lparr>c_oldName := n\<rparr>)) = contactDisplayName ob d" for e d n
    by (rule displayName_cong) (simp_all add: emit_contact_def)
  with old show ?thesis
    by (simp add: setPreferredNameType_def Let_def follows_def) (simp add: emit_contact_def)
qed

lemma follows_silent:
  assumes "c_oldName c = contactDisplayName ob c" "c_contactId c' = c_contactId c" "c_oldName c' = c_oldName c"
    "c_preferredNameType c' = c_preferredNameType c" "c_properties c' = c_properties c"
    "c_events c' = c_events c @ es" "\<And>n. fold showName es n = n"
  shows "follows ob c c'"
proof -
  have "contactDisplayName ob c' = contactDisplayName ob c" by (rule displayName_cong) (simp_all add: assms)
  with assms show ?thesis by (simp add: follows_def)
qed

lemma follows_setStatusMessage:
  assumes "c_oldName c = contactDisplayName ob c"
  shows "follows ob c (setStatusMessage ob title message c)"
proof -
  let ?c1 = "c\<lparr>c_statusTitle := title, c_statusMessage := message\<rparr>"
  let ?set = "\<lambda>key s. if s \<noteq> [] then setProperty ob key (VString s) else removeProperty ob key"
  have step: "follows ob c (?set key s d)" if "follows ob c d" for key s d
    using that by (auto intro: follows_trans follows_setProperty follows_removeProperty dest: follows_oldName)
  have "follows ob c ?c1" by (rule follows_silent [where es = "[]"]) (simp_all add: assms)
  then have both: "follows ob c (?set ''statusMessage'' message (?set ''statusTitle'' title ?c1))" by (intro step)
  have "follows ob c (emit_contact StatusMessageChanged d)" if "follows ob c d" for d
    by (rule follows_trans [OF that], rule follows_silent [where es = "[StatusMessageChanged]"])
      (use that in \<open>simp_all add: emit_contact_def follows_def\<close>)
  with both show ?thesis by (auto simp: setStatusMessage_def Let_def split: if_splits)
qed

text \<open>
  Whoever follows the \<^verbatim>\<open>displayNameChanged\<close> signals of a contact shows its name: through any
  changes of its properties and of the kind of name preferred, each signal starts from the name
  last announced and the last one leads to the current name.  The name is never empty.
\<close>

theorem name_listeners_up_to_date:
  assumes "c_oldName c = contactDisplayName ob c"
  shows "\<exists>es. c_events (fold (nameStep ob) ops c) = c_events c @ es
    \<and> fold showName es (Some (contactDisplayName ob c)) = Some (contactDisplayName ob (fold (nameStep ob) ops c))
    \<and> (c_contactId c \<noteq> [] \<longrightarrow> contactDisplayName ob (fold (nameStep ob) ops c) \<noteq> [])"
proof -
  have "follows ob c (fold (nameStep ob) ops c)"
  proof (induction ops rule: rev_induct)
    case Nil
    then show ?case using assms by (simp add: follows_refl)
  next
    case (snoc op ops)
    let ?d = "fold (nameStep ob) ops c"
    have "follows ob ?d (nameStep ob op ?d)" using follows_oldName [OF snoc]
      by (cases op) (simp_all add: follows_setProperty follows_removeProperty follows_setType follows_setStatusMessage)
    with snoc show ?case by (auto intro: follows_trans)
  qed
  then show ?thesis by (auto simp: follows_def contactDisplayName_def Let_def)
qed

definition sampleAccount :: account where
  "sampleAccount = \<lparr>ac_accountId = qstr ''me'', ac_protocolId = qstr ''ICQProtocol'', ac_connected = True, ac_priority = 1,
     ac_offlineStatus = builtinStatus id Offline, ac_myself = 0, ac_suppressStatusNotification = False, ac_isAway = False\<rparr>"

definition newContactObject :: "qstring \<Rightarrow> accountPtr \<Rightarrow> metaPtr \<Rightarrow> onlineStatus \<Rightarrow> contact" where
  "newContactObject contactId acc parent status =
     \<lparr>c_contactId = contactId, c_account = acc, c_metaContact = Some parent, c_onlineStatus = status, c_fileCapable = False,
      c_idleTime = 0, c_idleElapsed = 0, c_statusTitle = [], c_statusMessage = [], c_preferredNameType = CustomName,
      c_oldName = contactId, c_properties = [], c_isReachable = None, c_manager = False, c_events = []\<rparr>"

definition sampleObjects :: objects where
  "sampleObjects = \<lparr>ob_contact = (\<lambda>p. newContactObject (qstr ''bob'') 0 0 (builtinStatus id Online)),
     ob_account = (\<lambda>_. sampleAccount), ob_now = 5, ob_dateString = (\<lambda>_. qstr ''now''), ob_firstLast = (\<lambda>l f. f @ [0x20] @ l)\<rparr>"

theorem name_listeners_up_to_date_witness:
  "let c = ob_contact sampleObjects 1; ops = [SetProp ''nickName'' (VString (qstr ''Bobby'')), SetType ContactId] in
   \<exists>es. c_events (fold (nameStep sampleObjects) ops c) = c_events c @ es
    \<and> fold showName es (Some (contactDisplayName sampleObjects c)) = Some (contactDisplayName sampleObjects (fold (nameStep sampleObjects) ops c))
    \<and> (c_contactId c \<noteq> [] \<longrightarrow> contactDisplayName sampleObjects (fold (nameStep sampleObjects) ops c) \<noteq> [])"
  unfolding Let_def
  by (rule name_listeners_up_to_date)
    (simp add: sampleObjects_def newContactObject_def contactDisplayName_def customName_def nickName_def propertyString_def qstr_def)

subsection \<open>Presence times\<close>

lemma properties_emit [simp]: "c_properties (emit_contact e c) = c_properties c"
  by (simp add: emit_contact_def)

lemma properties_slot [simp]: "c_properties (contactSlotPropertyChanged ob key c) = c_properties c"
  by (simp add: contactSlotPropertyChanged_def Let_def)

lemma map_of_removeProperty:
  "map_of (c_properties (removeProperty ob key c)) k = (if k = key then None else map_of (c_properties c) k)"
  by (simp add: removeProperty_def map_of_without split: option.split)

lemma map_of_setProperty:
  "map_of (c_properties (setProperty ob key v c)) k
    = (if k = key then (if canConvertToString v \<and> variantString (ob_dateString ob) v = [] then None else Some v)
       else map_of (c_properties c) k)"
  by (simp add: setProperty_def map_of_without map_of_removeProperty Let_def)

text \<open>What the operations on one contact read of the store does not include the contacts.\<close>

lemma store_free [simp]:
  "propertyString (ob\<lparr>ob_contact := f\<rparr>) = propertyString ob"
  "nickName (ob\<lparr>ob_contact := f\<rparr>) = nickName ob"
  "customName (ob\<lparr>ob_contact := f\<rparr>) = customName ob"
  "formattedName (ob\<lparr>ob_contact := f\<rparr>) = formattedName ob"
  "contactDisplayName (ob\<lparr>ob_contact := f\<rparr>) = contactDisplayName ob"
  "contactSlotPropertyChanged (ob\<lparr>ob_contact := f\<rparr>) = contactSlotPropertyChanged ob"
  "removeProperty (ob\<lparr>ob_contact := f\<rparr>) = removeProperty ob"
  "setProperty (ob\<lparr>ob_contact := f\<rparr>) = setProperty ob"
  "setPresenceTimes (ob\<lparr>ob_contact := f\<rparr>) = setPresenceTimes ob"
proof -
  show p: "propertyString (ob\<lparr>ob_contact := f\<rparr>) = propertyString ob"
    by (intro ext) (simp add: propertyString_def split: option.split)
  show n: "nickName (ob\<lparr>ob_contact := f\<rparr>) = nickName ob" by (intro ext) (simp add: nickName_def p Let_def)
  show c: "customName (ob\<lparr>ob_contact := f\<rparr>) = customName ob" by (intro ext) (simp add: customName_def p n Let_def)
  show d: "formattedName (ob\<lparr>ob_contact := f\<rparr>) = formattedName ob" by (intro ext) (simp add: formattedName_def p)
  show e: "contactDisplayName (ob\<lparr>ob_contact := f\<rparr>) = contactDisplayName ob"
    by (intro ext) (simp add: contactDisplayName_def n c d Let_def split: NameType.split)
  show g: "contactSlotPropertyChanged (ob\<lparr>ob_contact := f\<rparr>) = contactSlotPropertyChanged ob"
    by (intro ext) (simp add: contactSlotPropertyChanged_def e Let_def)
  show r: "removeProperty (ob\<lparr>ob_contact := f\<rparr>) = removeProperty ob" by (intro ext) (simp add: removeProperty_def g split: option.split)
  show s: "setProperty (ob\<lparr>ob_contact := f\<rparr>) = setProperty ob" by (intro ext) (simp add: setProperty_def g r Let_def)
  show "setPresenceTimes (ob\<lparr>ob_contact := f\<rparr>) = setPresenceTimes ob"
    by (intro ext) (simp add: setPresenceTimes_def r s)
qed

lemma properties_setContactOnlineStatus:
  "\<not> os_eq status (c_onlineStatus (ob_contact ob p)) \<Longrightarrow>
   c_properties (ob_contact (setContactOnlineStatus p status ob) p)
     = c_properties (setPresenceTimes ob (c_onlineStatus (ob_contact ob p)) status
         ((ob_contact ob p)\<lparr>c_onlineStatus := status\<rparr>))"
  by (simp add: setContactOnlineStatus_def Let_def)

text \<open>
  The times a contact came online and was last seen: coming online from \<open>Offline\<close> records the
  one and drops the other, going offline does the opposite, and they are never both present.  But
  a change from or to \<open>Unknown\<close> touches neither, so that a contact that passes through \<open>Unknown\<close>
  keeps the times of an earlier session.
\<close>

theorem presence_times:
  assumes "\<not> os_eq status (c_onlineStatus (ob_contact ob p))" "ob_dateString ob (ob_now ob) \<noteq> []"
  shows "let c = ob_contact ob p; old = os_status (c_onlineStatus c); new = os_status status;
      c' = ob_contact (setContactOnlineStatus p status ob) p
    in (old = Offline \<and> new \<notin> {Unknown, Offline} \<longrightarrow> hasProperty c' ''onlineSince'' \<and> \<not> hasProperty c' ''lastSeen'')
      \<and> (old \<notin> {Unknown, Offline} \<and> new = Offline \<longrightarrow>
           map_of (c_properties c') ''lastSeen'' = Some (VTime (ob_now ob)) \<and> \<not> hasProperty c' ''onlineSince'')
      \<and> (old = Unknown \<or> new = Unknown \<longrightarrow> c_properties c' = c_properties c)
      \<and> (hasProperty c' ''onlineSince'' \<and> hasProperty c' ''lastSeen'' \<longrightarrow>
           hasProperty c ''onlineSince'' \<and> hasProperty c ''lastSeen'')"
proof -
  have now: "\<not> (canConvertToString (VTime (ob_now ob)) \<and> variantString (ob_dateString ob) (VTime (ob_now ob)) = [])"
    using assms(2) by simp
  show ?thesis
    unfolding Let_def hasProperty_def properties_setContactOnlineStatus [OF assms(1)] setPresenceTimes_def
    by (auto simp: map_of_setProperty map_of_removeProperty hasProperty_def now assms(2))
qed

theorem presence_times_witness:
  "let ob = sampleObjects; status = builtinStatus id Offline in
    \<exists>c'. ob_contact (setContactOnlineStatus 1 status ob) 1 = c'
      \<and> map_of (c_properties c') ''lastSeen'' = Some (VTime 5) \<and> \<not> hasProperty c' ''onlineSince''"
proof -
  have "\<not> os_eq (builtinStatus id Offline) (c_onlineStatus (ob_contact sampleObjects 1))"
    "ob_dateString sampleObjects (ob_now sampleObjects) \<noteq> []"
    by (simp_all add: sampleObjects_def newContactObject_def os_eq_def builtinStatus_def mkOnlineStatus_def Let_def qstr_def)
  from presence_times [OF this] show ?thesis
    by (simp add: Let_def sampleObjects_def newContactObject_def builtinStatus_def mkOnlineStatus_def)
qed

end
