(* ===== verification/Kopete_MetaContact.thy ===== *)
theory Kopete_MetaContact
  imports Kopete_Contact
begin

text \<open>
  Meta contacts of \<^verbatim>\<open>libkopete\<close> (\<^verbatim>\<open>kopetemetacontact.cpp\<close>): the presence computed from the
  contacts, the contact a message goes to, the name and photo shown, the groups, and the decision
  to notify the user.  The operations that reach other meta contacts through the contact list are
  in the theory of the contact list.

  \<^verbatim>\<open>displayName()\<close> is a \<^verbatim>\<open>const\<close> method that stores the contact it takes the name from, so it
  returns the name and the new state.  The signals of a meta contact are recorded in the order of
  emission, with \<^verbatim>\<open>persistentDataChanged\<close> right after each signal that is connected to it.  The
  address book is gone from the sources, so a name taken from it is empty.
\<close>

subsection \<open>The state of a meta contact\<close>

datatype PropertySource = SourceContact | SourceKABC | SourceCustom

datatype GroupType = NormalType | TemporaryType | TopLevelType | OfflineType

text \<open>The three special groups are single objects; the others are of the normal type.\<close>

datatype groupPtr = TopLevelGroup | TemporaryGroup | OfflineGroup | UserGroup nat

fun groupType :: "groupPtr \<Rightarrow> GroupType" where
  "groupType TopLevelGroup = TopLevelType"
| "groupType TemporaryGroup = TemporaryType"
| "groupType OfflineGroup = OfflineType"
| "groupType (UserGroup n) = NormalType"

datatype IconState = IconNone | IconOpen | IconClosed | IconOnline | IconAway | IconOffline | IconUnknown

datatype syncMode = SyncDisplayName | SyncMovedBetweenGroup

datatype ChangeType = noChange | noEvent | signedIn | changedStatus | signedOut

datatype metaEvent =
    McContactAdded contactPtr
  | McContactRemoved contactPtr
  | McContactStatusChanged contactPtr onlineStatus
  | McOnlineStatusChanged StatusType
  | McDisplayNameChanged qstring qstring
  | McPhotoChanged
  | McStatusMessageChanged
  | McAddedToGroup groupPtr
  | McRemovedFromGroup groupPtr
  | McMovedToGroup groupPtr groupPtr
  | McPersistentDataChanged
  | McSync contactPtr syncMode
  | McNotify ChangeType contactPtr
  | McKabcWrite

record picture =
  pic_path :: qstring
  pic_image :: "nat option"

record metaContact =
  mc_contacts :: "contactPtr list"
  mc_photoSource :: PropertySource
  mc_displayNameSource :: PropertySource
  mc_displayNameSourceContact :: "contactPtr option"
  mc_photoSourceContact :: "contactPtr option"
  mc_kabcId :: qstring
  mc_displayName :: qstring
  mc_groups :: "groupPtr list"
  mc_temporary :: bool
  mc_onlineStatus :: StatusType
  mc_photoSyncedWithKABC :: bool
  mc_notifyOnlineStatus :: onlineStatus
  mc_nameSourceIds :: "qstring option \<times> qstring option \<times> qstring"
  mc_photoSourceIds :: "qstring option \<times> qstring option \<times> qstring"
  mc_customPicture :: picture
  mc_contactPicture :: picture
  mc_kabcPicture :: picture
  mc_statusMessage :: qstring
  mc_statusTitle :: qstring
  mc_useCustomIcon :: bool
  mc_icons :: "(IconState \<times> qstring) list"
  mc_loading :: bool
  mc_events :: "metaEvent list"

definition nullPicture :: picture where
  "nullPicture = \<lparr>pic_path = [], pic_image = None\<rparr>"

definition pictureIsNull :: "picture \<Rightarrow> bool" where
  "pictureIsNull pic \<longleftrightarrow> pic_path pic = [] \<and> pic_image pic = None"

text \<open>The signals connected to \<^verbatim>\<open>persistentDataChanged\<close> in the constructor.\<close>

fun isPersistent :: "metaEvent \<Rightarrow> bool" where
  "isPersistent (McDisplayNameChanged old new) = True"
| "isPersistent (McMovedToGroup from to) = True"
| "isPersistent (McRemovedFromGroup g) = True"
| "isPersistent (McAddedToGroup g) = True"
| "isPersistent (McContactAdded c) = True"
| "isPersistent (McContactRemoved c) = True"
| "isPersistent _ = False"

definition emit :: "metaEvent \<Rightarrow> metaContact \<Rightarrow> metaContact" where
  "emit e mc = mc\<lparr>mc_events := mc_events mc @ (if isPersistent e then [e, McPersistentDataChanged] else [e])\<rparr>"

definition syncAll :: "syncMode \<Rightarrow> metaContact \<Rightarrow> metaContact" where
  "syncAll mode mc = fold (\<lambda>c. emit (McSync c mode)) (mc_contacts mc) mc"

subsection \<open>Names\<close>

definition nameFromKABC :: "qstring \<Rightarrow> qstring" where
  "nameFromKABC kabcid = []"

definition nameFromContact :: "objects \<Rightarrow> contactPtr option \<Rightarrow> qstring" where
  "nameFromContact ob c =
     (case c of
        None \<Rightarrow> []
      | Some c \<Rightarrow> filter (\<lambda>u. u \<noteq> 0x0A) (contactDisplayName ob (ob_contact ob c)))"

definition kabcId :: "objects \<Rightarrow> metaContact \<Rightarrow> qstring" where
  "kabcId ob mc =
     (if mc_kabcId mc = []
      then (case mc_contacts mc of
              [] \<Rightarrow> []
            | c # _ \<Rightarrow> (let a = ob_account ob (c_account (ob_contact ob c))
                       in ac_protocolId a @ qstr '':'' @ ac_accountId a @ qstr '':'' @ c_contactId (ob_contact ob c)))
      else mc_kabcId mc)"

definition metaDisplayName :: "objects \<Rightarrow> metaContact \<Rightarrow> qstring \<times> metaContact" where
  "metaDisplayName ob mc =
     (if mc_displayNameSource mc = SourceKABC
      then (if kabcId ob mc \<noteq> [] then (nameFromKABC (kabcId ob mc), mc) else (mc_displayName mc, mc))
      else if mc_displayNameSource mc = SourceContact \<or> mc_displayName mc = []
      then
        let mc = (if mc_displayNameSourceContact mc = None
                  then (case mc_contacts mc of c # _ \<Rightarrow> mc\<lparr>mc_displayNameSourceContact := Some c\<rparr> | [] \<Rightarrow> mc)
                  else mc)
        in if mc_displayNameSourceContact mc \<noteq> None
           then (nameFromContact ob (mc_displayNameSourceContact mc), mc)
           else (mc_displayName mc, mc)
      else (mc_displayName mc, mc))"

definition setDisplayNameSource :: "objects \<Rightarrow> PropertySource \<Rightarrow> metaContact \<Rightarrow> metaContact" where
  "setDisplayNameSource ob source mc =
     (let (oldName, mc) = metaDisplayName ob mc;
          mc = mc\<lparr>mc_displayNameSource := source\<rparr>;
          (newName, mc) = metaDisplayName ob mc
      in if oldName \<noteq> newName then syncAll SyncDisplayName (emit (McDisplayNameChanged oldName newName) mc) else mc)"

definition setDisplayNameSourceContact :: "objects \<Rightarrow> contactPtr option \<Rightarrow> metaContact \<Rightarrow> metaContact" where
  "setDisplayNameSourceContact ob contact mc =
     (let old = mc_displayNameSourceContact mc;
          mc = mc\<lparr>mc_displayNameSourceContact := contact\<rparr>
      in if contact \<noteq> None \<and> mc_displayNameSource mc = SourceContact
         then syncAll SyncDisplayName
                (emit (McDisplayNameChanged (nameFromContact ob old) (nameFromContact ob contact)) mc)
         else mc)"

definition slotContactDisplayNameChanged ::
  "objects \<Rightarrow> contactPtr \<Rightarrow> qstring \<Rightarrow> qstring \<Rightarrow> metaContact \<Rightarrow> metaContact" where
  "slotContactDisplayNameChanged ob subcontact oldName newName mc =
     (if mc_displayNameSource mc = SourceContact
         \<or> (mc_displayName mc = [] \<and> mc_displayNameSource mc = SourceCustom)
      then (if mc_displayNameSourceContact mc = Some subcontact
            then syncAll SyncDisplayName (emit (McDisplayNameChanged oldName newName) mc)
            else let (name, mc) = metaDisplayName ob mc
                 in if name = [] then setDisplayNameSourceContact ob (Some subcontact) mc else mc)
      else mc)"

subsection \<open>Photos\<close>

definition metaPicture :: "metaContact \<Rightarrow> picture" where
  "metaPicture mc =
     (if mc_photoSource mc = SourceKABC then mc_kabcPicture mc
      else if mc_photoSource mc = SourceContact then mc_contactPicture mc
      else mc_customPicture mc)"

definition setPhotoSource :: "PropertySource \<Rightarrow> metaContact \<Rightarrow> metaContact" where
  "setPhotoSource source mc =
     (let oldSource = mc_photoSource mc; mc = mc\<lparr>mc_photoSource := source\<rparr>
      in if source \<noteq> oldSource then emit McPhotoChanged mc else mc)"

definition contactPhoto :: "objects \<Rightarrow> contactPtr \<Rightarrow> picture" where
  "contactPhoto ob contact =
     (case map_of (c_properties (ob_contact ob contact)) ''photo'' of
        Some (VPicture n) \<Rightarrow> \<lparr>pic_path = [], pic_image = Some n\<rparr>
      | Some v \<Rightarrow> \<lparr>pic_path = variantString (ob_dateString ob) v, pic_image = None\<rparr>
      | None \<Rightarrow> nullPicture)"

definition setPhotoSourceContact :: "objects \<Rightarrow> contactPtr option \<Rightarrow> metaContact \<Rightarrow> metaContact" where
  "setPhotoSourceContact ob contact mc =
     (let mc = mc\<lparr>mc_photoSourceContact := contact\<rparr>;
          mc = mc\<lparr>mc_contactPicture := (case contact of Some c \<Rightarrow> contactPhoto ob c | None \<Rightarrow> nullPicture)\<rparr>
      in if mc_photoSource mc = SourceContact then emit McPhotoChanged mc else mc)"

definition setPhotoFile :: "qstring \<Rightarrow> metaContact \<Rightarrow> metaContact" where
  "setPhotoFile localFile mc =
     (let mc = mc\<lparr>mc_customPicture := \<lparr>pic_path = localFile, pic_image = None\<rparr>\<rparr>
      in if mc_photoSource mc = SourceCustom then emit McPhotoChanged mc else mc)"

subsection \<open>Presence\<close>

definition mostSignificantStatus :: "objects \<Rightarrow> contactPtr list \<Rightarrow> onlineStatus" where
  "mostSignificantStatus ob cs =
     fold (\<lambda>c best. if os_greater (onlineStatusOf ob c) best then onlineStatusOf ob c else best) cs emptyStatus"

definition updateOnlineStatus :: "objects \<Rightarrow> metaContact \<Rightarrow> metaContact" where
  "updateOnlineStatus ob mc =
     (let newStatus = os_status (mostSignificantStatus ob (mc_contacts mc))
      in if newStatus \<noteq> mc_onlineStatus mc
         then emit (McOnlineStatusChanged newStatus) (mc\<lparr>mc_onlineStatus := newStatus\<rparr>)
         else mc)"

definition metaIsOnline :: "objects \<Rightarrow> metaContact \<Rightarrow> bool" where
  "metaIsOnline ob mc = list_ex (contactIsOnline ob) (mc_contacts mc)"

definition isAlwaysVisible :: "objects \<Rightarrow> metaContact \<Rightarrow> bool" where
  "isAlwaysVisible ob mc =
     list_ex (\<lambda>c. map_of (c_properties (ob_contact ob c)) ''isAlwaysVisible'' = Some (VBool True)) (mc_contacts mc)"

definition accountConnected :: "objects \<Rightarrow> contactPtr \<Rightarrow> bool" where
  "accountConnected ob c = ac_connected (ob_account ob (c_account (ob_contact ob c)))"

definition metaIsReachable :: "objects \<Rightarrow> metaContact \<Rightarrow> bool" where
  "metaIsReachable ob mc \<longleftrightarrow>
     metaIsOnline ob mc \<or> list_ex (\<lambda>c. accountConnected ob c \<and> contactIsReachable ob c) (mc_contacts mc)"

definition metaCanAcceptFiles :: "objects \<Rightarrow> metaContact \<Rightarrow> bool" where
  "metaCanAcceptFiles ob mc \<longleftrightarrow> metaIsOnline ob mc \<and> list_ex (contactCanAcceptFiles ob) (mc_contacts mc)"

text \<open>The contact whose \<^verbatim>\<open>sendFile\<close> is called.\<close>

definition sendFileTo :: "objects \<Rightarrow> metaContact \<Rightarrow> contactPtr option" where
  "sendFileTo ob mc =
     (case mc_contacts mc of
        [] \<Rightarrow> None
      | first # _ \<Rightarrow>
          if \<not> metaCanAcceptFiles ob mc then None
          else Some (fold (\<lambda>curr contact.
                 if os_greater (onlineStatusOf ob curr) (onlineStatusOf ob contact) \<and> contactCanAcceptFiles ob curr
                 then curr else contact) (mc_contacts mc) first))"

definition metaIdleTime :: "objects \<Rightarrow> metaContact \<Rightarrow> u32" where
  "metaIdleTime ob mc =
     of_nat (fold (\<lambda>c time. let i = contactIdleTime (ob_contact ob c)
                           in if (contactIsOnline ob c \<and> i < time) \<or> time = 0 then i else time)
              (mc_contacts mc) 0)"

definition priorityOf :: "objects \<Rightarrow> contactPtr \<Rightarrow> u32" where
  "priorityOf ob c = ac_priority (ob_account ob (c_account (ob_contact ob c)))"

text \<open>One turn of the loop; the state is the contact chosen so far and \<^verbatim>\<open>hasOpenView\<close>.\<close>

definition betterContact :: "objects \<Rightarrow> contactPtr \<Rightarrow> contactPtr \<Rightarrow> bool" where
  "betterContact ob c contact =
     (let s = os_status (onlineStatusOf ob c); t = os_status (onlineStatusOf ob contact)
      in if s > t then True
         else if s = t
         then (if priorityOf ob c > priorityOf ob contact then True
               else priorityOf ob c = priorityOf ob contact
                 \<and> os_weight (onlineStatusOf ob c) > os_weight (onlineStatusOf ob contact))
         else False)"

definition preferStep :: "objects \<Rightarrow> contactPtr \<Rightarrow> contactPtr option \<times> bool \<Rightarrow> contactPtr option \<times> bool" where
  "preferStep ob c st =
     (case st of (contact, hasOpenView) \<Rightarrow>
        let reachable = (\<lambda>st. if \<not> accountConnected ob c \<or> \<not> contactIsReachable ob c then st
                              else (case fst st of
                                      None \<Rightarrow> (Some c, snd st)
                                    | Some d \<Rightarrow> if betterContact ob c d then (Some c, snd st) else st))
        in if c_manager (ob_contact ob c)
           then (if \<not> hasOpenView
                 then (if contactIsReachable ob c then (Some c, True) else reachable (Some c, True))
                 else reachable st)
           else if hasOpenView \<and> (case contact of Some d \<Rightarrow> contactIsReachable ob d | None \<Rightarrow> False) then st
           else reachable st)"

definition preferredContact :: "objects \<Rightarrow> metaContact \<Rightarrow> contactPtr option" where
  "preferredContact ob mc = fst (fold (preferStep ob) (mc_contacts mc) (None, False))"

definition metaIcon :: "IconState \<Rightarrow> metaContact \<Rightarrow> qstring" where
  "metaIcon state mc =
     (case map_of (mc_icons mc) state of
        Some i \<Rightarrow> i
      | None \<Rightarrow> (case map_of (mc_icons mc) IconNone of Some i \<Rightarrow> i | None \<Rightarrow> []))"

definition statusIcon :: "metaContact \<Rightarrow> qstring" where
  "statusIcon mc =
     (let custom = (\<lambda>state name. if mc_useCustomIcon mc then metaIcon state mc else qstr name)
      in case mc_onlineStatus mc of
           Online \<Rightarrow> custom IconOnline ''user-online''
         | Away \<Rightarrow> custom IconAway ''user-away''
         | Busy \<Rightarrow> custom IconAway ''user-busy''
         | Unknown \<Rightarrow> custom IconUnknown (if mc_contacts mc = [] then ''metacontact_unknown'' else ''user-offline'')
         | _ \<Rightarrow> custom IconOffline ''user-offline'')"

definition statusString :: "(qstring \<Rightarrow> qstring) \<Rightarrow> metaContact \<Rightarrow> qstring" where
  "statusString i18n mc =
     i18n (qstr (case mc_onlineStatus mc of
        Online \<Rightarrow> ''Online'' | Away \<Rightarrow> ''Away'' | Busy \<Rightarrow> ''Busy'' | Offline \<Rightarrow> ''Offline''
      | _ \<Rightarrow> ''Status not available''))"

text \<open>A null string is \<open>None\<close>.\<close>

definition metaFindContact ::
  "objects \<Rightarrow> qstring option \<Rightarrow> qstring option \<Rightarrow> qstring \<Rightarrow> metaContact \<Rightarrow> contactPtr option" where
  "metaFindContact ob protocolId accountId contactId mc =
     find (\<lambda>c. c_contactId (ob_contact ob c) = contactId
       \<and> (case protocolId of None \<Rightarrow> True
          | Some p \<Rightarrow> ac_protocolId (ob_account ob (c_account (ob_contact ob c))) = p)
       \<and> (case accountId of None \<Rightarrow> True
          | Some a \<Rightarrow> ac_accountId (ob_account ob (c_account (ob_contact ob c))) = a)) (mc_contacts mc)"

subsection \<open>Adding a contact\<close>

definition addContact :: "objects \<Rightarrow> contactPtr \<Rightarrow> metaContact \<Rightarrow> metaContact" where
  "addContact ob c mc =
     (if c \<in> set (mc_contacts mc) then mc
      else
        let (oldDisplayName, mc) = metaDisplayName ob mc;
            mc = mc\<lparr>mc_contacts := mc_contacts mc @ [c]\<rparr>;
            mc = emit (McContactAdded c) mc;
            mc = updateOnlineStatus ob mc
        in if length (mc_contacts mc) = 1
           then
             let (newDisplayName, mc) = metaDisplayName ob mc;
                 mc = (if oldDisplayName \<noteq> newDisplayName
                       then syncAll SyncDisplayName (emit (McDisplayNameChanged oldDisplayName newDisplayName) mc)
                       else mc)
             in if pictureIsNull (metaPicture mc)
                then setPhotoSource SourceContact (setPhotoSourceContact ob (Some c) mc)
                else mc
           else mc)"

subsection \<open>Notification\<close>

definition changeType :: "onlineStatus \<Rightarrow> onlineStatus \<Rightarrow> ChangeType" where
  "changeType old new =
     (if os_status old = Unknown \<or> os_status new = Unknown then noEvent
      else if os_status old = Offline
      then (if os_status new \<noteq> Offline then signedIn else noChange)
      else if isDefinitelyOnline old
      then (if os_status new = Offline then signedOut
            else if os_greater old new \<or> os_less old new then changedStatus else noChange)
      else if \<not> os_eq old new then noEvent else noChange)"

definition onlineStatusNotification :: "objects \<Rightarrow> bool \<Rightarrow> contactPtr \<Rightarrow> metaContact \<Rightarrow> metaContact" where
  "onlineStatusNotification ob enableEventsWhileAway c mc =
     (let newNotify = (case preferredContact ob mc of Some pc \<Rightarrow> onlineStatusOf ob pc | None \<Rightarrow> onlineStatusOf ob c);
          a = ob_account ob (c_account (ob_contact ob c));
          me = os_status (onlineStatusOf ob (ac_myself a));
          mc = (if \<not> ac_suppressStatusNotification a \<and> ac_connected a \<and> me \<noteq> Connecting \<and> me \<noteq> Busy
                  \<and> (enableEventsWhileAway \<or> \<not> ac_isAway a)
                then (let t = changeType (mc_notifyOnlineStatus mc) newNotify
                      in if t = noEvent \<or> t = noChange then mc else emit (McNotify t c) mc)
                else mc)
      in mc\<lparr>mc_notifyOnlineStatus := newNotify\<rparr>)"

definition slotContactStatusChanged ::
  "objects \<Rightarrow> bool \<Rightarrow> contactPtr \<Rightarrow> onlineStatus \<Rightarrow> metaContact \<Rightarrow> metaContact" where
  "slotContactStatusChanged ob enableEventsWhileAway c status mc =
     (let mc = emit (McContactStatusChanged c status) (updateOnlineStatus ob mc)
      in if c \<noteq> ac_myself (ob_account ob (c_account (ob_contact ob c)))
         then onlineStatusNotification ob enableEventsWhileAway c mc else mc)"

definition metaSlotPropertyChanged ::
  "objects \<Rightarrow> contactPtr \<Rightarrow> string \<Rightarrow> variant option \<Rightarrow> variant option \<Rightarrow> metaContact \<Rightarrow> metaContact" where
  "metaSlotPropertyChanged ob subcontact key oldValue newValue mc =
     (let str = (\<lambda>v. case v of Some v \<Rightarrow> variantString (ob_dateString ob) v | None \<Rightarrow> []);
          mc = (if mc_photoSource mc = SourceContact \<and> key = ''photo''
                then (if mc_photoSourceContact mc \<noteq> Some subcontact
                      then (if pictureIsNull (metaPicture mc) then setPhotoSourceContact ob (Some subcontact) mc else mc)
                      else setPhotoSourceContact ob (Some subcontact) mc)
                else mc);
          mc = (if (key = ''statusMessage'' \<or> key = ''statusTitle'') \<and> oldValue \<noteq> newValue
                then
                  let allOffline = \<not> metaIsOnline ob mc;
                      statusText =
                        (if str newValue = [] \<or> (\<not> contactIsOnline ob subcontact \<and> \<not> allOffline)
                         then (case find (\<lambda>c. (allOffline \<or> contactIsOnline ob c)
                                 \<and> propertyString ob (ob_contact ob c) key \<noteq> []) (mc_contacts mc) of
                                 Some c \<Rightarrow> propertyString ob (ob_contact ob c) key
                               | None \<Rightarrow> [])
                         else str newValue);
                      mc = (if key = ''statusMessage'' then mc\<lparr>mc_statusMessage := statusText\<rparr>
                            else mc\<lparr>mc_statusTitle := statusText\<rparr>)
                  in emit McStatusMessageChanged mc
                else mc)
      in if key = ''isAlwaysVisible'' \<and> oldValue \<noteq> newValue
         then emit (McOnlineStatusChanged (mc_onlineStatus mc)) mc else mc)"

definition setKabcId :: "qstring \<Rightarrow> metaContact \<Rightarrow> metaContact" where
  "setKabcId newKabcId mc =
     (if newKabcId = mc_kabcId mc then mc
      else
        let mc = mc\<lparr>mc_kabcId := newKabcId\<rparr>
        in if mc_loading mc then mc
           else emit McPersistentDataChanged (emit (McOnlineStatusChanged (mc_onlineStatus mc)) (emit McKabcWrite mc)))"

subsection \<open>Groups\<close>

text \<open>Null pointers to groups are \<open>None\<close>.\<close>

definition addToGroup :: "groupPtr option \<Rightarrow> metaContact \<Rightarrow> metaContact" where
  "addToGroup to mc =
     (case to of
        None \<Rightarrow> mc
      | Some to \<Rightarrow>
          if to \<in> set (mc_groups mc) then mc
          else if mc_temporary mc \<and> groupType to \<noteq> TemporaryType then mc
          else
            let mc = (if TopLevelGroup \<in> set (mc_groups mc)
                      then emit (McRemovedFromGroup TopLevelGroup) (mc\<lparr>mc_groups := removeAll TopLevelGroup (mc_groups mc)\<rparr>)
                      else mc);
                mc = mc\<lparr>mc_groups := mc_groups mc @ [to]\<rparr>
            in emit (McAddedToGroup to) (syncAll SyncMovedBetweenGroup mc))"

definition removeFromGroup :: "groupPtr option \<Rightarrow> metaContact \<Rightarrow> metaContact" where
  "removeFromGroup grp mc =
     (case grp of
        None \<Rightarrow> mc
      | Some g \<Rightarrow>
          if g \<notin> set (mc_groups mc) \<or> (mc_temporary mc \<and> groupType g = TemporaryType) then mc
          else
            let mc = mc\<lparr>mc_groups := removeAll g (mc_groups mc)\<rparr>;
                mc = (if mc_groups mc = []
                      then emit (McAddedToGroup TopLevelGroup) (mc\<lparr>mc_groups := mc_groups mc @ [TopLevelGroup]\<rparr>)
                      else mc)
            in emit (McRemovedFromGroup g) (syncAll SyncMovedBetweenGroup mc))"

definition moveToGroup :: "groupPtr option \<Rightarrow> groupPtr option \<Rightarrow> metaContact \<Rightarrow> metaContact" where
  "moveToGroup from to mc =
     (if (case from of None \<Rightarrow> True | Some f \<Rightarrow> f \<notin> set (mc_groups mc)) then addToGroup to mc
      else if from = to then mc
      else if (case to of None \<Rightarrow> True | Some t \<Rightarrow> t \<in> set (mc_groups mc)) then removeFromGroup from mc
      else if groupType (the to) = OfflineType then mc
      else if mc_temporary mc \<and> groupType (the to) \<noteq> TemporaryType then mc
      else
        let mc = mc\<lparr>mc_groups := removeAll (the from) (mc_groups mc) @ [the to]\<rparr>
        in emit (McMovedToGroup (the from) (the to)) (syncAll SyncMovedBetweenGroup mc))"

definition setTemporary :: "bool \<Rightarrow> groupPtr option \<Rightarrow> metaContact \<Rightarrow> metaContact" where
  "setTemporary isTemporary grp mc =
     (let mc = mc\<lparr>mc_temporary := isTemporary\<rparr>
      in if mc_temporary mc
         then (let mc = addToGroup (Some TemporaryGroup) mc
               in fold (\<lambda>g mc. if g \<noteq> TemporaryGroup then removeFromGroup (Some g) mc else mc) (mc_groups mc) mc)
         else moveToGroup (Some TemporaryGroup) (Some (case grp of Some g \<Rightarrow> g | None \<Rightarrow> TopLevelGroup)) mc)"

text \<open>\<^verbatim>\<open>d->onlineStatus\<close> starts as \<open>Offline\<close>.\<close>

definition mkMetaContact :: metaContact where
  "mkMetaContact =
     addToGroup (Some TopLevelGroup)
       \<lparr>mc_contacts = [], mc_photoSource = SourceCustom, mc_displayNameSource = SourceCustom,
        mc_displayNameSourceContact = None, mc_photoSourceContact = None, mc_kabcId = [], mc_displayName = [],
        mc_groups = [], mc_temporary = False, mc_onlineStatus = Offline, mc_photoSyncedWithKABC = False,
        mc_notifyOnlineStatus = emptyStatus, mc_nameSourceIds = (None, None, []), mc_photoSourceIds = (None, None, []),
        mc_customPicture = nullPicture, mc_contactPicture = nullPicture, mc_kabcPicture = nullPicture,
        mc_statusMessage = [], mc_statusTitle = [], mc_useCustomIcon = False, mc_icons = [], mc_loading = False,
        mc_events = []\<rparr>"

definition slotAllPluginsLoaded :: "objects \<Rightarrow> metaContact \<Rightarrow> metaContact" where
  "slotAllPluginsLoaded ob mc =
     (let at = (\<lambda>(p, a, c). metaFindContact ob p a c mc);
          mc = setDisplayNameSourceContact ob (at (mc_nameSourceIds mc)) mc
      in setPhotoSourceContact ob (at (mc_photoSourceIds mc)) mc)"

subsection \<open>The presence shown\<close>

lemma mostSignificant_append:
  "mostSignificantStatus ob (cs @ [c])
    = (if os_rank (mostSignificantStatus ob cs) < os_rank (onlineStatusOf ob c) then onlineStatusOf ob c
       else mostSignificantStatus ob cs)"
  by (simp add: mostSignificantStatus_def os_greater_rank)

lemma os_rank_status: "os_rank a \<le> os_rank b \<Longrightarrow> os_status a \<le> os_status b"
  using os_rank_less [of "statusValue (os_status b)" "statusValue (os_status a)"]
  by (fastforce simp: os_rank_def less_eq_StatusType_def not_le [symmetric])

lemma mostSignificant_max:
  "os_status (mostSignificantStatus ob cs) = Max (insert Unknown ((\<lambda>c. os_status (onlineStatusOf ob c)) ` set cs))"
proof (induction cs rule: rev_induct)
  case Nil
  then show ?case by (simp add: mostSignificantStatus_def emptyStatus_def mkOnlineStatus_def)
next
  case (snoc c cs)
  let ?m = "mostSignificantStatus ob cs" and ?s = "onlineStatusOf ob c"
  have "Max (insert Unknown ((\<lambda>c. os_status (onlineStatusOf ob c)) ` set (cs @ [c]))) = max (os_status ?s) (os_status ?m)"
    by (simp add: snoc insert_commute [of Unknown])
  moreover have "max (os_status ?s) (os_status ?m) = os_status (mostSignificantStatus ob (cs @ [c]))"
    using os_rank_status [of ?m ?s] os_rank_status [of ?s ?m]
    by (simp add: mostSignificant_append max_def) (metis less_le_not_le nle_le order_antisym)
  ultimately show ?case by simp
qed

text \<open>
  The status of a meta contact is the greatest of its contacts' status types, \<open>Unknown\<close> when
  it has none, and a change of it, and nothing else, is signalled.
\<close>

theorem status_is_most_significant:
  "let new = Max (insert Unknown ((\<lambda>c. os_status (onlineStatusOf ob c)) ` set (mc_contacts mc))) in
    mc_onlineStatus (updateOnlineStatus ob mc) = new
    \<and> mc_events (updateOnlineStatus ob mc)
      = mc_events mc @ (if new = mc_onlineStatus mc then [] else [McOnlineStatusChanged new])"
  by (simp add: updateOnlineStatus_def mostSignificant_max emit_def Let_def)

subsection \<open>The preferred contact\<close>

definition eligible :: "objects \<Rightarrow> contactPtr \<Rightarrow> bool" where
  "eligible ob c \<longleftrightarrow> accountConnected ob c \<and> contactIsReachable ob c"

definition preferRank :: "objects \<Rightarrow> contactPtr \<Rightarrow> nat \<times> nat" where
  "preferRank ob c = (statusValue (os_status (onlineStatusOf ob c)),
     unat (priorityOf ob c) * 4294967296 + unat (os_weight (onlineStatusOf ob c)))"

definition rank_less :: "nat \<times> nat \<Rightarrow> nat \<times> nat \<Rightarrow> bool" where
  "rank_less a b \<longleftrightarrow> fst a < fst b \<or> fst a = fst b \<and> snd a < snd b"

lemma betterContact_rank: "betterContact ob c d \<longleftrightarrow> rank_less (preferRank ob d) (preferRank ob c)"
proof -
  let ?p = "priorityOf ob" and ?w = "\<lambda>c. os_weight (onlineStatusOf ob c)"
  have "unat (?p d) * 4294967296 + unat (?w d) < unat (?p c) * 4294967296 + unat (?w c)
      \<longleftrightarrow> ?p c > ?p d \<or> ?p c = ?p d \<and> ?w c > ?w d"
    using os_rank_less [of "unat (?p d)" "unat (?p c)" "?w d" "?w c"]
      os_rank_less [of "unat (?p c)" "unat (?p d)" "?w c" "?w d"]
    by (cases "?p c" "?p d" rule: linorder_cases) (auto simp: word_less_nat_alt)
  then show ?thesis
    by (auto simp: betterContact_def Let_def rank_less_def preferRank_def less_StatusType_def)
qed

lemma not_better_trans: "\<not> betterContact ob a b \<Longrightarrow> betterContact ob c b \<Longrightarrow> \<not> betterContact ob a c"
  by (auto simp: betterContact_rank rank_less_def)

lemma not_better_self [simp]: "\<not> betterContact ob c c"
  by (simp add: betterContact_rank rank_less_def)

definition bestOf :: "objects \<Rightarrow> contactPtr list \<Rightarrow> contactPtr option \<Rightarrow> bool" where
  "bestOf ob cs r \<longleftrightarrow>
     (case r of
        None \<Rightarrow> \<forall>c \<in> set cs. \<not> eligible ob c
      | Some d \<Rightarrow> d \<in> set cs \<and> eligible ob d \<and> (\<forall>c \<in> set cs. eligible ob c \<longrightarrow> \<not> betterContact ob c d))"

lemma prefer_without_views:
  "(\<And>c. c \<in> set cs \<Longrightarrow> \<not> c_manager (ob_contact ob c))
    \<Longrightarrow> \<exists>r. fold (preferStep ob) cs (None, False) = (r, False) \<and> bestOf ob cs r"
proof (induction cs rule: rev_induct)
  case Nil
  then show ?case by (simp add: bestOf_def)
next
  case (snoc c cs)
  then obtain r where r: "fold (preferStep ob) cs (None, False) = (r, False)" "bestOf ob cs r" by auto
  have m: "\<not> c_manager (ob_contact ob c)" using snoc.prems by simp
  show ?case
  proof (cases "eligible ob c")
    case False
    then have "preferStep ob c (r, False) = (r, False)" using m by (auto simp: preferStep_def eligible_def Let_def)
    with r False show ?thesis by (auto simp: bestOf_def split: option.splits)
  next
    case True
    then have "preferStep ob c (r, False)
        = (case r of None \<Rightarrow> Some c | Some d \<Rightarrow> if betterContact ob c d then Some c else Some d, False)"
      using m by (auto simp: preferStep_def eligible_def Let_def split: option.split)
    with r True show ?thesis
      by (auto simp: bestOf_def split: option.splits if_splits dest: not_better_trans)
  qed
qed

lemma fold_inv: "P s \<Longrightarrow> (\<And>x s. x \<in> set xs \<Longrightarrow> P s \<Longrightarrow> P (f x s)) \<Longrightarrow> P (fold f xs s)"
  by (induction xs arbitrary: s) auto

lemma prefer_keeps_view:
  assumes "c_manager (ob_contact ob v)" "contactIsReachable ob v"
  shows "\<exists>d. fold (preferStep ob) vs (Some v, True) = (Some d, True) \<and> d \<in> insert v (set vs)
    \<and> c_manager (ob_contact ob d) \<and> contactIsReachable ob d"
  by (rule fold_inv [where P = "\<lambda>st. \<exists>d. st = (Some d, True) \<and> d \<in> insert v (set vs)
        \<and> c_manager (ob_contact ob d) \<and> contactIsReachable ob d"])
    (use assms in \<open>auto simp: preferStep_def Let_def\<close>)

lemma prefer_unreachable:
  assumes "\<And>c. c \<in> set vs \<Longrightarrow> \<not> eligible ob c" "\<not> contactIsReachable ob v"
  shows "fold (preferStep ob) vs (Some v, True) = (Some v, True)"
  by (rule fold_inv [where P = "\<lambda>st. st = (Some v, True)"])
    (use assms in \<open>auto simp: preferStep_def Let_def eligible_def\<close>)

text \<open>
  The preferred contact.  When no contact has an open view, it is a reachable contact of a
  connected account that no other such contact beats by status, then priority, then weight, and
  there is none exactly when no contact is reachable.  When the first contact with a view is
  reachable, the preferred one has a view and is reachable.  But when it is not reachable, and no
  contact is, the unreachable contact is returned.
\<close>

theorem preferred_contact:
  assumes "mc_contacts mc = us @ vs" "list_all (\<lambda>c. \<not> c_manager (ob_contact ob c)) us"
    "vs = [] \<or> c_manager (ob_contact ob (hd vs))"
  shows "(vs = [] \<longrightarrow>
      (case preferredContact ob mc of
         None \<Rightarrow> \<forall>c \<in> set us. \<not> (accountConnected ob c \<and> contactIsReachable ob c)
       | Some d \<Rightarrow> d \<in> set us \<and> accountConnected ob d \<and> contactIsReachable ob d
           \<and> (\<forall>c \<in> set us. accountConnected ob c \<and> contactIsReachable ob c \<longrightarrow> \<not> betterContact ob c d)))
    \<and> (vs \<noteq> [] \<and> contactIsReachable ob (hd vs) \<longrightarrow>
         (\<exists>d. preferredContact ob mc = Some d \<and> d \<in> set vs \<and> c_manager (ob_contact ob d) \<and> contactIsReachable ob d))
    \<and> (vs \<noteq> [] \<and> list_all (\<lambda>c. \<not> contactIsReachable ob c) (mc_contacts mc) \<longrightarrow> preferredContact ob mc = Some (hd vs))"
proof -
  from assms(2) obtain r where r: "fold (preferStep ob) us (None, False) = (r, False)" "bestOf ob us r"
    using prefer_without_views [of us ob] by (auto simp: list_all_iff)
  have "preferredContact ob mc = r" if "vs = []"
    using that r(1) assms(1) by (simp add: preferredContact_def)
  moreover have "preferredContact ob mc = fst (fold (preferStep ob) (tl vs) (preferStep ob (hd vs) (r, False)))" if "vs \<noteq> []"
    using that r(1) assms(1) by (cases vs) (simp_all add: preferredContact_def)
  moreover have "preferStep ob (hd vs) (r, False) = (Some (hd vs), True)" if "vs \<noteq> []"
    using that assms(3) by (simp add: preferStep_def Let_def)
  moreover have "\<exists>d. fold (preferStep ob) (tl vs) (Some (hd vs), True) = (Some d, True) \<and> d \<in> set vs
      \<and> c_manager (ob_contact ob d) \<and> contactIsReachable ob d" if "vs \<noteq> []" "contactIsReachable ob (hd vs)"
    using prefer_keeps_view [of ob "hd vs" "tl vs"] that assms(3) by (cases vs) auto
  moreover have "fold (preferStep ob) (tl vs) (Some (hd vs), True) = (Some (hd vs), True)"
    if "vs \<noteq> []" "list_all (\<lambda>c. \<not> contactIsReachable ob c) (mc_contacts mc)"
    using prefer_unreachable [of "tl vs" ob "hd vs"] that assms(1)
    by (cases vs) (auto simp: eligible_def list_all_iff)
  ultimately show ?thesis
    using r(2) by (auto simp: bestOf_def eligible_def split: option.splits)
qed

theorem preferred_contact_witness:
  "let ob = with_contact 2 (\<lambda>c. c\<lparr>c_manager := True, c_isReachable := Some False\<rparr>) sampleObjects;
       mc = mkMetaContact\<lparr>mc_contacts := [2]\<rparr>
   in preferredContact ob mc = Some 2"
proof -
  let ?ob = "with_contact 2 (\<lambda>c. c\<lparr>c_manager := True, c_isReachable := Some False\<rparr>) sampleObjects"
  let ?mc = "mkMetaContact\<lparr>mc_contacts := [2]\<rparr>"
  have "mc_contacts ?mc = [] @ [2]" "list_all (\<lambda>c. \<not> c_manager (ob_contact ?ob c)) []"
    "[2] = [] \<or> c_manager (ob_contact ?ob (hd [2]))" by simp_all
  from preferred_contact [OF this] show ?thesis by (simp add: contactIsReachable_def Let_def)
qed

subsection \<open>Group membership\<close>

datatype groupOp =
    AddTo "groupPtr option"
  | RemoveFrom "groupPtr option"
  | MoveTo "groupPtr option" "groupPtr option"
  | SetTemporary bool "groupPtr option"

fun groupStep :: "groupOp \<Rightarrow> metaContact \<Rightarrow> metaContact" where
  "groupStep (AddTo to) mc = addToGroup to mc"
| "groupStep (RemoveFrom g) mc = removeFromGroup g mc"
| "groupStep (MoveTo from to) mc = moveToGroup from to mc"
| "groupStep (SetTemporary b g) mc = setTemporary b g mc"

definition groups_ok :: "metaContact \<Rightarrow> bool" where
  "groups_ok mc \<longleftrightarrow> mc_groups mc \<noteq> [] \<and> distinct (mc_groups mc)
     \<and> (mc_temporary mc \<longrightarrow> mc_groups mc = [TemporaryGroup])"

lemma emit_simps [simp]:
  "mc_groups (emit e mc) = mc_groups mc" "mc_temporary (emit e mc) = mc_temporary mc"
  "mc_contacts (emit e mc) = mc_contacts mc" "mc_onlineStatus (emit e mc) = mc_onlineStatus mc"
  by (simp_all add: emit_def)

lemma syncAll_simps [simp]:
  "mc_groups (syncAll m mc) = mc_groups mc" "mc_temporary (syncAll m mc) = mc_temporary mc"
  "mc_contacts (syncAll m mc) = mc_contacts mc" "mc_onlineStatus (syncAll m mc) = mc_onlineStatus mc"
proof -
  have "mc_groups (fold (\<lambda>c. emit (McSync c m)) cs mc) = mc_groups mc
      \<and> mc_temporary (fold (\<lambda>c. emit (McSync c m)) cs mc) = mc_temporary mc
      \<and> mc_contacts (fold (\<lambda>c. emit (McSync c m)) cs mc) = mc_contacts mc
      \<and> mc_onlineStatus (fold (\<lambda>c. emit (McSync c m)) cs mc) = mc_onlineStatus mc" for cs
    by (induction cs arbitrary: mc) simp_all
  then show "mc_groups (syncAll m mc) = mc_groups mc" "mc_temporary (syncAll m mc) = mc_temporary mc"
    "mc_contacts (syncAll m mc) = mc_contacts mc" "mc_onlineStatus (syncAll m mc) = mc_onlineStatus mc"
    by (simp_all add: syncAll_def)
qed

lemma addToGroup_groups:
  "mc_groups (addToGroup to mc)
    = (case to of None \<Rightarrow> mc_groups mc
       | Some g \<Rightarrow> if g \<in> set (mc_groups mc) \<or> (mc_temporary mc \<and> g \<noteq> TemporaryGroup) then mc_groups mc
                  else removeAll TopLevelGroup (mc_groups mc) @ [g])"
  "mc_temporary (addToGroup to mc) = mc_temporary mc"
  by (cases to; cases "the to"; auto simp: addToGroup_def Let_def)+

lemma removeFromGroup_groups:
  "mc_groups (removeFromGroup grp mc)
    = (case grp of None \<Rightarrow> mc_groups mc
       | Some g \<Rightarrow> if g \<notin> set (mc_groups mc) \<or> (mc_temporary mc \<and> g = TemporaryGroup) then mc_groups mc
                  else if removeAll g (mc_groups mc) = [] then [TopLevelGroup] else removeAll g (mc_groups mc))"
  "mc_temporary (removeFromGroup grp mc) = mc_temporary mc"
  by (cases grp; cases "the grp"; auto simp: removeFromGroup_def Let_def)+

lemma addToGroup_ok [inv_intros]: "groups_ok mc \<Longrightarrow> groups_ok (addToGroup to mc)"
  by (auto simp: groups_ok_def addToGroup_groups distinct_removeAll split: option.split)

lemma removeFromGroup_ok [inv_intros]: "groups_ok mc \<Longrightarrow> groups_ok (removeFromGroup g mc)"
  by (auto simp: groups_ok_def removeFromGroup_groups distinct_removeAll split: option.split)

lemma moveToGroup_ok [inv_intros]:
  assumes "groups_ok mc" shows "groups_ok (moveToGroup from to mc)"
proof -
  have "groups_ok (mc\<lparr>mc_groups := removeAll f (mc_groups mc) @ [t]\<rparr>)"
    if "f \<in> set (mc_groups mc)" "f \<noteq> t" "t \<notin> set (mc_groups mc)" "\<not> (mc_temporary mc \<and> groupType t \<noteq> TemporaryType)" for f t
    using assms that by (cases t) (auto simp: groups_ok_def distinct_removeAll)
  then have move: "groups_ok (emit e (syncAll m (mc\<lparr>mc_groups := removeAll f (mc_groups mc) @ [t]\<rparr>)))"
    if "f \<in> set (mc_groups mc)" "f \<noteq> t" "t \<notin> set (mc_groups mc)" "\<not> (mc_temporary mc \<and> groupType t \<noteq> TemporaryType)" for f t e m
    using that by (simp add: groups_ok_def)
  show ?thesis
  proof (cases "from")
    case None
    then show ?thesis by (simp add: moveToGroup_def addToGroup_ok assms)
  next
    case (Some f)
    then show ?thesis
      by (cases to) (simp_all add: moveToGroup_def addToGroup_ok removeFromGroup_ok assms move Let_def)
  qed
qed

lemma filter_one: "distinct xs \<Longrightarrow> x \<in> set xs \<Longrightarrow> filter (\<lambda>y. y = x) xs = [x]"
  by (induction xs) (auto simp: filter_empty_conv)

text \<open>Making a contact temporary takes it out of every other group.\<close>

lemma leave_others:
  assumes "mc_temporary mc" "TemporaryGroup \<in> set (mc_groups mc)" "distinct (mc_groups mc)"
  shows "mc_groups (fold (\<lambda>g mc. if g \<noteq> TemporaryGroup then removeFromGroup (Some g) mc else mc) gs mc)
      = filter (\<lambda>g. g = TemporaryGroup \<or> g \<notin> set gs) (mc_groups mc)
    \<and> mc_temporary (fold (\<lambda>g mc. if g \<noteq> TemporaryGroup then removeFromGroup (Some g) mc else mc) gs mc)"
proof (induction gs rule: rev_induct)
  case (snoc g gs)
  let ?m = "fold (\<lambda>g mc. if g \<noteq> TemporaryGroup then removeFromGroup (Some g) mc else mc) gs mc"
  have "TemporaryGroup \<in> set (mc_groups ?m)" using snoc assms(2) by simp
  then have "TemporaryGroup \<in> set (removeAll g (mc_groups ?m))" if "g \<noteq> TemporaryGroup"
    using that by simp
  then have ne: "removeAll g (mc_groups ?m) \<noteq> []" if "g \<noteq> TemporaryGroup" using that by (metis empty_iff empty_set)
  show ?case
  proof (cases "g = TemporaryGroup")
    case True
    with snoc show ?thesis by (auto intro!: filter_cong)
  next
    case False
    have "removeAll g (filter (\<lambda>g. g = TemporaryGroup \<or> g \<notin> set gs) l)
        = filter (\<lambda>h. h = TemporaryGroup \<or> h \<notin> set (gs @ [g])) l" for l
      using False by (induction l) auto
    moreover have "mc_groups (removeFromGroup (Some g) ?m) = removeAll g (mc_groups ?m)"
      using ne [OF False] False by (auto simp: removeFromGroup_groups removeAll_id)
    ultimately show ?thesis using snoc False by (simp add: removeFromGroup_groups(2))
  qed
qed (use assms(1) in simp)

lemma setTemporary_ok [inv_intros]:
  assumes "groups_ok mc" shows "groups_ok (setTemporary b grp mc)"
proof (cases b)
  case True
  let ?m = "addToGroup (Some TemporaryGroup) (mc\<lparr>mc_temporary := True\<rparr>)"
  have "mc_temporary ?m" "TemporaryGroup \<in> set (mc_groups ?m)" "distinct (mc_groups ?m)"
    using assms by (auto simp: addToGroup_groups groups_ok_def distinct_removeAll)
  from leave_others [OF this, of "mc_groups ?m"] this(2,3)
  have "mc_groups (setTemporary b grp mc) = filter (\<lambda>g. g = TemporaryGroup) (mc_groups ?m)"
    "mc_temporary (setTemporary b grp mc)"
    using True by (simp_all add: setTemporary_def Let_def cong: conj_cong)
      (auto intro!: filter_cong)
  moreover have "filter (\<lambda>g. g = TemporaryGroup) (mc_groups ?m) = [TemporaryGroup]"
    using \<open>TemporaryGroup \<in> set (mc_groups ?m)\<close> \<open>distinct (mc_groups ?m)\<close>
    by (intro filter_one)
  ultimately show ?thesis by (simp add: groups_ok_def)
next
  case False
  have "groups_ok (mc\<lparr>mc_temporary := False\<rparr>)" using assms by (simp add: groups_ok_def)
  with False show ?thesis by (simp add: setTemporary_def Let_def moveToGroup_ok)
qed

lemma groups_ok_reached: "groups_ok (fold groupStep ops mkMetaContact)"
proof (rule fold_inv)
  show "groups_ok mkMetaContact" by (simp add: groups_ok_def mkMetaContact_def addToGroup_groups)
next
  fix op mc assume "groups_ok mc"
  then show "groups_ok (groupStep op mc)" by (cases op) (simp_all add: inv_intros)
qed

text \<open>
  C39: through any sequence of adding, moving, removing and making temporary, a meta contact is in
  at least one group, in none twice, and a temporary one only in the group of temporary contacts.
\<close>

theorem group_membership:
  "let mc = fold groupStep ops mkMetaContact in
    mc_groups mc \<noteq> [] \<and> distinct (mc_groups mc) \<and> (mc_temporary mc \<longrightarrow> mc_groups mc = [TemporaryGroup])"
  using groups_ok_reached [of ops] by (simp add: groups_ok_def Let_def)

theorem group_membership_witness:
  "let mc = fold groupStep [MoveTo (Some TopLevelGroup) (Some (UserGroup 1)), SetTemporary True None] mkMetaContact in
    mc_groups mc \<noteq> [] \<and> distinct (mc_groups mc) \<and> (mc_temporary mc \<longrightarrow> mc_groups mc = [TemporaryGroup])"
  by (rule group_membership)

text \<open>What a listener to the three group signals believes the groups to be.\<close>

fun showGroup :: "metaEvent \<Rightarrow> groupPtr set \<Rightarrow> groupPtr set" where
  "showGroup (McAddedToGroup g) S = insert g S"
| "showGroup (McRemovedFromGroup g) S = S - {g}"
| "showGroup (McMovedToGroup from to) S = insert to (S - {from})"
| "showGroup _ S = S"

definition tells :: "metaContact \<Rightarrow> metaContact \<Rightarrow> groupPtr set \<Rightarrow> bool" where
  "tells mc mc' S \<longleftrightarrow> (\<exists>es. mc_events mc' = mc_events mc @ es \<and> fold showGroup es (set (mc_groups mc)) = S)"

lemma syncAll_events: "mc_events (syncAll m mc) = mc_events mc @ map (\<lambda>c. McSync c m) (mc_contacts mc)"
proof -
  have "mc_events (fold (\<lambda>c. emit (McSync c m)) cs mc) = mc_events mc @ map (\<lambda>c. McSync c m) cs" for cs
    by (induction cs arbitrary: mc) (simp_all add: emit_def)
  then show ?thesis by (simp add: syncAll_def)
qed

lemma show_syncs [simp]: "fold showGroup (map (\<lambda>c. McSync c m) cs) S = S"
  by (induction cs) simp_all

lemma tells_refl: "tells mc mc (set (mc_groups mc))"
  by (simp add: tells_def)

lemma tells_trans: "tells a b (set (mc_groups b)) \<Longrightarrow> tells b c S \<Longrightarrow> tells a c S"
  by (auto simp: tells_def)

lemma addToGroup_tells: "tells mc (addToGroup to mc) (set (mc_groups (addToGroup to mc)))"
  by (cases to) (auto simp: tells_def addToGroup_def Let_def syncAll_events emit_def)

lemma removeFromGroup_tells:
  assumes "g \<noteq> TopLevelGroup \<or> mc_groups mc \<noteq> [TopLevelGroup]" "distinct (mc_groups mc)"
  shows "tells mc (removeFromGroup (Some g) mc) (set (mc_groups (removeFromGroup (Some g) mc)))"
proof -
  have "removeAll g (mc_groups mc) \<noteq> []" if "g \<in> set (mc_groups mc)" "g = TopLevelGroup"
  proof
    assume "removeAll g (mc_groups mc) = []"
    then have "set (mc_groups mc) \<subseteq> {g}" by (metis Diff_eq_empty_iff empty_set set_removeAll)
    then have "mc_groups mc = [g]" using that(1) assms(2)
      by (cases "mc_groups mc") (auto simp: subset_singleton_iff)
    with assms(1) that(2) show False by simp
  qed
  moreover have "x = g" if "removeAll g (mc_groups mc) = []" "x \<in> set (mc_groups mc)" for x
  proof -
    from that(1) have "x \<notin> set (removeAll g (mc_groups mc))" by simp
    with that(2) show ?thesis by simp
  qed
  ultimately show ?thesis
    by (auto simp: tells_def removeFromGroup_def Let_def syncAll_events emit_def)
qed

lemma moveToGroup_tells:
  assumes "\<not> (from = Some TopLevelGroup \<and> to = None \<and> mc_groups mc = [TopLevelGroup])" "distinct (mc_groups mc)"
  shows "tells mc (moveToGroup from to mc) (set (mc_groups (moveToGroup from to mc)))"
proof (cases "from")
  case None
  then show ?thesis by (simp add: moveToGroup_def addToGroup_tells)
next
  case (Some f)
  have "f \<noteq> TopLevelGroup \<or> mc_groups mc \<noteq> [TopLevelGroup]"
    if "from \<noteq> to" "case to of None \<Rightarrow> True | Some t \<Rightarrow> t \<in> set (mc_groups mc)"
    using assms(1) that Some by (auto split: option.splits)
  then have rem: "tells mc (removeFromGroup from mc) (set (mc_groups (removeFromGroup from mc)))"
    if "from \<noteq> to" "case to of None \<Rightarrow> True | Some t \<Rightarrow> t \<in> set (mc_groups mc)"
    using that Some removeFromGroup_tells assms(2) by auto
  show ?thesis
  proof (cases to)
    case None
    with rem Some show ?thesis by (simp add: moveToGroup_def addToGroup_tells)
  next
    case to: (Some t)
    have "tells mc (emit (McMovedToGroup f t) (syncAll SyncMovedBetweenGroup (mc\<lparr>mc_groups := removeAll f (mc_groups mc) @ [t]\<rparr>)))
        (insert t (set (mc_groups mc) - {f}))"
      by (simp add: tells_def syncAll_events emit_def)
    with rem Some to show ?thesis
      by (simp add: moveToGroup_def addToGroup_tells tells_refl Let_def)
  qed
qed

lemma leave_others_tells:
  assumes "mc_temporary mc" "TemporaryGroup \<in> set (mc_groups mc)" "distinct (mc_groups mc)"
  shows "tells mc (fold (\<lambda>g mc. if g \<noteq> TemporaryGroup then removeFromGroup (Some g) mc else mc) gs mc)
      (set (mc_groups (fold (\<lambda>g mc. if g \<noteq> TemporaryGroup then removeFromGroup (Some g) mc else mc) gs mc)))"
proof (induction gs rule: rev_induct)
  case (snoc g gs)
  let ?m = "fold (\<lambda>g mc. if g \<noteq> TemporaryGroup then removeFromGroup (Some g) mc else mc) gs mc"
  have "TemporaryGroup \<in> set (mc_groups ?m)" "distinct (mc_groups ?m)"
    using leave_others [OF assms, of gs] assms by simp_all
  then have "tells ?m (removeFromGroup (Some g) ?m) (set (mc_groups (removeFromGroup (Some g) ?m)))"
    by (intro removeFromGroup_tells) auto
  with snoc show ?case by (auto intro: tells_trans)
qed (simp add: tells_refl)

lemma setTemporary_tells:
  assumes "groups_ok mc"
  shows "tells mc (setTemporary b grp mc) (set (mc_groups (setTemporary b grp mc)))"
proof (cases b)
  case True
  let ?t = "mc\<lparr>mc_temporary := True\<rparr>" and ?m = "addToGroup (Some TemporaryGroup) (mc\<lparr>mc_temporary := True\<rparr>)"
  have "tells ?t ?m (set (mc_groups ?m))" by (rule addToGroup_tells)
  then have "tells mc ?m (set (mc_groups ?m))" by (simp add: tells_def)
  moreover have "mc_temporary ?m" "TemporaryGroup \<in> set (mc_groups ?m)" "distinct (mc_groups ?m)"
    using assms by (auto simp: addToGroup_groups groups_ok_def distinct_removeAll)
  ultimately show ?thesis
    using True leave_others_tells [of ?m "mc_groups ?m"]
    by (simp add: setTemporary_def Let_def tells_trans [of mc ?m])
next
  case False
  let ?t = "mc\<lparr>mc_temporary := False\<rparr>" and ?g = "Some (case grp of None \<Rightarrow> TopLevelGroup | Some g \<Rightarrow> g)"
  have "tells ?t (moveToGroup (Some TemporaryGroup) ?g ?t) (set (mc_groups (moveToGroup (Some TemporaryGroup) ?g ?t)))"
    using assms by (intro moveToGroup_tells) (simp_all add: groups_ok_def)
  then show ?thesis using False by (simp add: setTemporary_def Let_def tells_def)
qed

text \<open>
  A listener to the group signals of a meta contact knows its groups, with one exception.
  Removing a contact that is in the top level group only leaves it there, but the signal of the
  removal comes after the signal of the addition: the listener believes it in no group at all.
\<close>

theorem group_signals:
  assumes "mc = fold groupStep ops mkMetaContact"
  shows "let misled = mc_groups mc = [TopLevelGroup] \<and> op \<in> {RemoveFrom (Some TopLevelGroup), MoveTo (Some TopLevelGroup) None}
    in (misled \<longrightarrow> mc_groups (groupStep op mc) = [TopLevelGroup])
      \<and> (\<exists>es. mc_events (groupStep op mc) = mc_events mc @ es
        \<and> fold showGroup es (set (mc_groups mc)) = (if misled then {} else set (mc_groups (groupStep op mc))))"
proof -
  have ok: "groups_ok mc" unfolding assms by (rule groups_ok_reached)
  then have d: "distinct (mc_groups mc)" by (simp add: groups_ok_def)
  have "removeFromGroup (Some TopLevelGroup) mc
      = emit (McRemovedFromGroup TopLevelGroup) (syncAll SyncMovedBetweenGroup
          (emit (McAddedToGroup TopLevelGroup) (mc\<lparr>mc_groups := [TopLevelGroup]\<rparr>)))" if "mc_groups mc = [TopLevelGroup]"
    using that ok by (simp add: removeFromGroup_def groups_ok_def Let_def)
  moreover have "moveToGroup (Some TopLevelGroup) None mc = removeFromGroup (Some TopLevelGroup) mc"
    if "mc_groups mc = [TopLevelGroup]" using that by (simp add: moveToGroup_def)
  ultimately have misled: "mc_groups (groupStep op mc) = [TopLevelGroup] \<and> tells mc (groupStep op mc) {}"
    if "mc_groups mc = [TopLevelGroup]" "op \<in> {RemoveFrom (Some TopLevelGroup), MoveTo (Some TopLevelGroup) None}"
    using that by (auto simp: tells_def syncAll_events emit_def)
  have "tells mc (groupStep op mc) (set (mc_groups (groupStep op mc)))"
    if "\<not> (mc_groups mc = [TopLevelGroup] \<and> op \<in> {RemoveFrom (Some TopLevelGroup), MoveTo (Some TopLevelGroup) None})"
  proof (cases op)
    case (RemoveFrom g)
    show ?thesis
    proof (cases g)
      case None
      then show ?thesis using RemoveFrom by (simp add: removeFromGroup_def tells_refl)
    next
      case (Some h)
      then show ?thesis using RemoveFrom that removeFromGroup_tells [of h mc] d by auto
    qed
  qed (use that d ok in \<open>auto simp: addToGroup_tells moveToGroup_tells setTemporary_tells\<close>)
  with misled show ?thesis by (auto simp: tells_def Let_def)
qed

theorem group_signals_witness:
  "\<exists>es. mc_events (groupStep (RemoveFrom (Some TopLevelGroup)) mkMetaContact) = mc_events mkMetaContact @ es
     \<and> fold showGroup es (set (mc_groups mkMetaContact)) = {}"
proof -
  have "mkMetaContact = fold groupStep [] mkMetaContact" by simp
  from group_signals [OF this, of "RemoveFrom (Some TopLevelGroup)"] show ?thesis
    by (simp add: Let_def) (simp add: mkMetaContact_def addToGroup_groups)
qed

end
