(* ===== verification/Kopete_ContactList.thy ===== *)
theory Kopete_ContactList
  imports Kopete_MetaContact
begin

text \<open>
  The contact list of \<^verbatim>\<open>libkopete\<close> (\<^verbatim>\<open>kopetecontactlist.cpp\<close>, \<^verbatim>\<open>kopetegroup.cpp\<close>) and the operations
  that reach from one meta contact to another: moving a contact (\<^verbatim>\<open>Contact::setMetaContact\<close>),
  removing one (\<^verbatim>\<open>MetaContact::removeContact\<close>) and naming a meta contact
  (\<^verbatim>\<open>MetaContact::setDisplayName\<close>, which merges another of the same name into it).

  These three call one another, so they take fuel, and \<open>None\<close> means that it ran out; that they
  always end is one of the theorems.  Objects scheduled with \<^verbatim>\<open>deleteLater\<close> stay in the store until
  the event loop destroys them, which is an operation of its own.
\<close>

subsection \<open>The state\<close>

datatype listEvent =
    MetaContactAdded metaPtr
  | MetaContactRemoved metaPtr
  | GroupAdded groupPtr
  | GroupRemoved groupPtr
  | MetaContactSelected bool
  | SelectionChanged
  | DeleteContactCalled contactPtr
  | DeleteContactFailed contactPtr
  | MetaDeleteLater metaPtr
  | GroupDeleteLater groupPtr
  | KabcWrite metaPtr
  | ContactSync contactPtr
  | ContactDeleted contactPtr

record world =
  w_objects :: objects
  w_meta :: "metaPtr \<Rightarrow> metaContact"
  w_contacts :: "metaPtr list"
  w_groups :: "groupPtr list"
  w_groupName :: "groupPtr \<Rightarrow> qstring"
  w_groupId :: "groupPtr \<Rightarrow> u32"
  w_uniqueGroupId :: u32
  w_nextGroup :: nat
  w_selectedMetaContacts :: "metaPtr list"
  w_selectedGroups :: "groupPtr list"
  w_events :: "listEvent list"

abbreviation with_meta :: "metaPtr \<Rightarrow> (metaContact \<Rightarrow> metaContact) \<Rightarrow> world \<Rightarrow> world" where
  "with_meta m f w \<equiv> w\<lparr>w_meta := (w_meta w)(m := f (w_meta w m))\<rparr>"

abbreviation contactOf :: "world \<Rightarrow> contactPtr \<Rightarrow> contact" where
  "contactOf w c \<equiv> ob_contact (w_objects w) c"

abbreviation contactsOf :: "world \<Rightarrow> metaPtr \<Rightarrow> contactPtr list" where
  "contactsOf w m \<equiv> mc_contacts (w_meta w m)"

definition announce :: "listEvent \<Rightarrow> world \<Rightarrow> world" where
  "announce e w = w\<lparr>w_events := w_events w @ [e]\<rparr>"

definition setMetaPointer :: "contactPtr \<Rightarrow> metaPtr option \<Rightarrow> world \<Rightarrow> world" where
  "setMetaPointer c m w =
     w\<lparr>w_objects := with_contact c (\<lambda>x. x\<lparr>c_metaContact := m\<rparr>) (w_objects w)\<rparr>"

subsection \<open>The contact list\<close>

definition setSelectedItems :: "metaPtr list \<Rightarrow> groupPtr list \<Rightarrow> world \<Rightarrow> world" where
  "setSelectedItems metaContacts gs w =
     announce SelectionChanged
       (announce (MetaContactSelected (gs = [] \<and> length metaContacts = 1))
         (w\<lparr>w_selectedMetaContacts := metaContacts, w_selectedGroups := gs\<rparr>))"

definition addMetaContact :: "metaPtr \<Rightarrow> world \<Rightarrow> world" where
  "addMetaContact mc w =
     (if mc \<in> set (w_contacts w) then w
      else announce (MetaContactAdded mc) (w\<lparr>w_contacts := w_contacts w @ [mc]\<rparr>))"

definition addMetaContacts :: "metaPtr list \<Rightarrow> world \<Rightarrow> world" where
  "addMetaContacts metaContacts = fold addMetaContact metaContacts"

text \<open>The default of a delete task: with the account offline it fails.\<close>

definition startDeleteTask :: "contactPtr \<Rightarrow> world \<Rightarrow> world" where
  "startDeleteTask c w =
     (if \<not> accountConnected (w_objects w) c then announce (DeleteContactFailed c) w
      else announce (DeleteContactCalled c) w)"

definition removeMetaContact :: "metaPtr \<Rightarrow> world \<Rightarrow> world" where
  "removeMetaContact m w =
     (if m \<notin> set (w_contacts w) then w
      else
        let w = (if m \<in> set (w_selectedMetaContacts w)
                 then (let w = w\<lparr>w_selectedMetaContacts := removeAll m (w_selectedMetaContacts w)\<rparr>
                       in setSelectedItems (w_selectedMetaContacts w) (w_selectedGroups w) w)
                 else w);
            w = fold startDeleteTask (contactsOf w m) w;
            w = w\<lparr>w_contacts := removeAll m (w_contacts w)\<rparr>
        in announce (MetaDeleteLater m) (announce (MetaContactRemoved m) w))"

definition addGroup :: "groupPtr \<Rightarrow> world \<Rightarrow> world" where
  "addGroup g w =
     (if g \<notin> set (w_groups w) then announce (GroupAdded g) (w\<lparr>w_groups := w_groups w @ [g]\<rparr>) else w)"

definition addGroups :: "groupPtr list \<Rightarrow> world \<Rightarrow> world" where
  "addGroups gs = fold addGroup gs"

definition groupMembers :: "groupPtr \<Rightarrow> world \<Rightarrow> metaPtr list" where
  "groupMembers g w = filter (\<lambda>mc. g \<in> set (mc_groups (w_meta w mc))) (w_contacts w)"

definition onlineMembers :: "groupPtr \<Rightarrow> world \<Rightarrow> metaPtr list" where
  "onlineMembers g w =
     filter (\<lambda>mc. metaIsReachable (w_objects w) (w_meta w mc) \<and> metaIsOnline (w_objects w) (w_meta w mc))
       (groupMembers g w)"

text \<open>The test reads the groups of the member when its turn comes.\<close>

definition leaveGroup :: "groupPtr \<Rightarrow> metaPtr \<Rightarrow> world \<Rightarrow> world" where
  "leaveGroup g m w =
     (let mcGroups = mc_groups (w_meta w m)
      in if (length mcGroups = 1 \<and> g \<in> set mcGroups) \<or> mcGroups = [] then removeMetaContact m w
         else with_meta m (removeFromGroup (Some g)) w)"

definition listRemoveGroup :: "groupPtr \<Rightarrow> world \<Rightarrow> world" where
  "listRemoveGroup g w =
     (if g = TopLevelGroup then w
      else
        let w = (if g \<in> set (w_selectedGroups w)
                 then (let w = w\<lparr>w_selectedGroups := removeAll g (w_selectedGroups w)\<rparr>
                       in setSelectedItems (w_selectedMetaContacts w) (w_selectedGroups w) w)
                 else w);
            w = fold (leaveGroup g) (groupMembers g w) w;
            w = w\<lparr>w_groups := removeAll g (w_groups w)\<rparr>
        in announce (GroupDeleteLater g) (announce (GroupRemoved g) w))"

text \<open>A group gets its number when it is first asked for it.\<close>

definition groupId :: "groupPtr \<Rightarrow> world \<Rightarrow> u32 \<times> world" where
  "groupId g w =
     (if w_groupId w g = 0
      then (let i = w_uniqueGroupId w + 1
            in (i, w\<lparr>w_uniqueGroupId := i, w_groupId := (w_groupId w)(g := i)\<rparr>))
      else (w_groupId w g, w))"

fun findGroupIn :: "u32 \<Rightarrow> groupPtr list \<Rightarrow> world \<Rightarrow> groupPtr option \<times> world" where
  "findGroupIn i [] w = (None, w)"
| "findGroupIn i (g # gs) w = (let (j, w) = groupId g w in if j = i then (Some g, w) else findGroupIn i gs w)"

definition groupById :: "u32 \<Rightarrow> world \<Rightarrow> groupPtr option \<times> world" where
  "groupById i w =
     (let (top, w) = groupId TopLevelGroup w
      in if i = top then (Some TopLevelGroup, w) else findGroupIn i (w_groups w) w)"

definition findGroupNamed :: "qstring \<Rightarrow> GroupType \<Rightarrow> world \<Rightarrow> groupPtr \<times> world" where
  "findGroupNamed displayName ty w =
     (case ty of
        TemporaryType \<Rightarrow> (TemporaryGroup, w)
      | TopLevelType \<Rightarrow> (TopLevelGroup, w)
      | OfflineType \<Rightarrow> (OfflineGroup, w)
      | NormalType \<Rightarrow>
          (case find (\<lambda>g. groupType g = ty \<and> w_groupName w g = displayName) (w_groups w) of
             Some g \<Rightarrow> (g, w)
           | None \<Rightarrow>
               let g = UserGroup (w_nextGroup w);
                   w = w\<lparr>w_nextGroup := w_nextGroup w + 1, w_groupName := (w_groupName w)(g := displayName),
                          w_groupId := (w_groupId w)(g := 0)\<rparr>
               in (g, addGroup g w)))"

text \<open>Finding by name stores the contact a name is taken from, as every \<^verbatim>\<open>displayName()\<close> does.\<close>

fun findByDisplayName :: "qstring \<Rightarrow> metaPtr list \<Rightarrow> world \<Rightarrow> metaPtr option \<times> world" where
  "findByDisplayName name [] w = (None, w)"
| "findByDisplayName name (m # ms) w =
     (let (n, mc) = metaDisplayName (w_objects w) (w_meta w m); w = with_meta m (\<lambda>_. mc) w
      in if n = name then (Some m, w) else findByDisplayName name ms w)"

definition findMetaContactByDisplayName :: "qstring \<Rightarrow> world \<Rightarrow> metaPtr option \<times> world" where
  "findMetaContactByDisplayName displayName w = findByDisplayName displayName (w_contacts w) w"

subsection \<open>Between meta contacts\<close>

text \<open>The other meta contact that \<^verbatim>\<open>setDisplayName\<close> merges.\<close>

definition sameName :: "metaPtr \<Rightarrow> qstring \<Rightarrow> world \<Rightarrow> metaPtr option" where
  "sameName this name w =
     (if \<not> mc_temporary (w_meta w this) \<and> name \<noteq> []
      then find (\<lambda>m. \<not> mc_temporary (w_meta w m) \<and> m \<noteq> this \<and> mc_displayName (w_meta w m) = name) (w_contacts w)
      else None)"

definition forgetContact :: "objects \<Rightarrow> contactPtr \<Rightarrow> metaContact \<Rightarrow> metaContact" where
  "forgetContact ob c mc =
     (let mc = mc\<lparr>mc_contacts := removeAll c (mc_contacts mc)\<rparr>;
          mc = (if mc_displayNameSourceContact mc = Some c then setDisplayNameSourceContact ob None mc else mc)
      in if mc_photoSourceContact mc = Some c then setPhotoSourceContact ob None mc else mc)"

definition removePrepare :: "contactPtr \<Rightarrow> metaPtr \<Rightarrow> world \<Rightarrow> bool \<times> bool \<times> qstring \<times> world" where
  "removePrepare c m w =
     (let mc = w_meta w m; ob = w_objects w;
          wasTrackingName = (mc_displayNameSourceContact mc = None \<and> mc_displayNameSource mc = SourceContact);
          wasTrackingPhoto = (mc_photoSourceContact mc = None \<and> mc_photoSource mc = SourceContact);
          (currDisplayName, mc) = metaDisplayName ob mc
      in (wasTrackingName, wasTrackingPhoto, currDisplayName, with_meta m (\<lambda>_. forgetContact ob c mc) w))"

definition removeFinish :: "contactPtr \<Rightarrow> bool \<Rightarrow> bool \<Rightarrow> metaPtr \<Rightarrow> world \<Rightarrow> world" where
  "removeFinish c deleted wasTrackingPhoto m w =
     (let ob = w_objects w;
          w = (if wasTrackingPhoto
               then with_meta m (\<lambda>mc. case mc_contacts mc of
                      [] \<Rightarrow> setPhotoSource SourceCustom mc
                    | first # _ \<Rightarrow> setPhotoSourceContact ob (Some first) mc) w
               else w);
          w = (if \<not> deleted then announce (KabcWrite m) w else w)
      in with_meta m (\<lambda>mc. updateOnlineStatus ob (emit (McContactRemoved c) mc)) w)"

text \<open>
  The four functions, each as a body over the calls it makes, and their composition: one unit of
  fuel for each call on the stack.
\<close>

datatype call =
    RemoveContact contactPtr bool metaPtr
  | SetDisplayName qstring metaPtr
  | MergeAll metaPtr metaPtr
  | SetMetaContact contactPtr "metaPtr option"

type_synonym caller = "call \<Rightarrow> world \<Rightarrow> world option"

definition removeContactBody :: "caller \<Rightarrow> contactPtr \<Rightarrow> bool \<Rightarrow> metaPtr \<Rightarrow> world \<Rightarrow> world option" where
  "removeContactBody rec c deleted m w =
     (if c \<notin> set (contactsOf w m) then Some (with_meta m (updateOnlineStatus (w_objects w)) w)
      else
        let (wasTrackingName, wasTrackingPhoto, currDisplayName, w) = removePrepare c m w
        in map_option (removeFinish c deleted wasTrackingPhoto m)
             (if wasTrackingName
              then (case contactsOf w m of
                      [] \<Rightarrow> rec (SetDisplayName currDisplayName m)
                             (with_meta m (setDisplayNameSource (w_objects w) SourceCustom) w)
                    | first # _ \<Rightarrow> Some (with_meta m (setDisplayNameSourceContact (w_objects w) (Some first)) w))
              else Some w))"

definition changeDisplayName :: "qstring \<Rightarrow> metaContact \<Rightarrow> metaContact" where
  "changeDisplayName name mc =
     (let old = mc_displayName mc
      in syncAll SyncDisplayName (emit (McDisplayNameChanged old name) (mc\<lparr>mc_displayName := name\<rparr>)))"

definition setDisplayNameBody :: "caller \<Rightarrow> qstring \<Rightarrow> metaPtr \<Rightarrow> world \<Rightarrow> world option" where
  "setDisplayNameBody rec name m w =
     (if name = mc_displayName (w_meta w m) then Some w
      else if mc_loading (w_meta w m) then Some (with_meta m (\<lambda>mc. mc\<lparr>mc_displayName := name\<rparr>) w)
      else
        map_option (with_meta m (changeDisplayName name))
          (case sameName m name w of None \<Rightarrow> Some w | Some other \<Rightarrow> rec (MergeAll other m) w))"

text \<open>One turn of \<^verbatim>\<open>while (!m->d->contacts.isEmpty())\<close>.\<close>

definition mergeAllBody :: "caller \<Rightarrow> metaPtr \<Rightarrow> metaPtr \<Rightarrow> world \<Rightarrow> world option" where
  "mergeAllBody rec other m w =
     (case contactsOf w other of
        [] \<Rightarrow> Some w
      | c # _ \<Rightarrow> (case rec (SetMetaContact c (Some m)) w of
                   None \<Rightarrow> None
                 | Some w \<Rightarrow> rec (MergeAll other m) w))"

definition attachTo :: "contactPtr \<Rightarrow> metaPtr option \<Rightarrow> world \<Rightarrow> world" where
  "attachTo c m w =
     (let w = setMetaPointer c m w
      in announce (ContactSync c)
           (case m of
              None \<Rightarrow> w
            | Some m \<Rightarrow> announce (KabcWrite m) (with_meta m (addContact (w_objects w) c) w)))"

definition setMetaContactBody :: "caller \<Rightarrow> contactPtr \<Rightarrow> metaPtr option \<Rightarrow> world \<Rightarrow> world option" where
  "setMetaContactBody rec c m w =
     (let old = c_metaContact (contactOf w c)
      in if old = m then Some w
         else
           map_option (attachTo c m)
             (case old of
                None \<Rightarrow> Some w
              | Some old \<Rightarrow>
                  map_option (\<lambda>w. if contactsOf w old = [] then removeMetaContact old w else setMetaPointer c m w)
                    (rec (RemoveContact c False old) w)))"

primrec runCall :: "nat \<Rightarrow> caller" where
  "runCall 0 call = (\<lambda>w. None)"
| "runCall (Suc n) call =
     (case call of
        RemoveContact c deleted m \<Rightarrow> removeContactBody (runCall n) c deleted m
      | SetDisplayName name m \<Rightarrow> setDisplayNameBody (runCall n) name m
      | MergeAll other m \<Rightarrow> mergeAllBody (runCall n) other m
      | SetMetaContact c m \<Rightarrow> setMetaContactBody (runCall n) c m)"

definition mergeMetaContacts :: "nat \<Rightarrow> metaPtr list \<Rightarrow> metaPtr \<Rightarrow> world \<Rightarrow> world option" where
  "mergeMetaContacts n src dst w =
     fold (\<lambda>mc w. case w of
         None \<Rightarrow> None
       | Some w \<Rightarrow> fold (\<lambda>c w. case w of None \<Rightarrow> None | Some w \<Rightarrow> runCall n (SetMetaContact c (Some dst)) w)
                     (contactsOf w mc) (Some w)) src (Some w)"

text \<open>The event loop destroys a contact, which its meta contact hears, or a meta contact.\<close>

definition contactDestroyed :: "nat \<Rightarrow> contactPtr \<Rightarrow> world \<Rightarrow> world option" where
  "contactDestroyed n c w =
     (case c_metaContact (contactOf w c) of
        None \<Rightarrow> Some w
      | Some m \<Rightarrow> map_option (setMetaPointer c None) (runCall n (RemoveContact c True m) w))"

definition metaContactDestroyed :: "metaPtr \<Rightarrow> world \<Rightarrow> world" where
  "metaContactDestroyed mc w =
     w\<lparr>w_objects := (w_objects w)\<lparr>ob_contact := (\<lambda>c. let x = contactOf w c
        in if c_metaContact x = Some mc then x\<lparr>c_metaContact := None\<rparr> else x)\<rparr>\<rparr>"

definition slotAddContact :: "contactPtr \<Rightarrow> world \<Rightarrow> world" where
  "slotAddContact c w =
     (case c_metaContact (contactOf w c) of
        None \<Rightarrow> w
      | Some m \<Rightarrow> addMetaContact m (with_meta m (setTemporary False None) w))"

subsection \<open>What the operations leave alone\<close>

named_theorems frame_simps \<open>fields of a meta contact that an operation does not change\<close>

lemma emit_frame [frame_simps]:
  "mc_contacts (emit e mc) = mc_contacts mc" "mc_displayNameSource (emit e mc) = mc_displayNameSource mc"
  "mc_contacts (syncAll md mc) = mc_contacts mc"
  by (simp_all add: emit_def)

lemma syncAll_source [frame_simps]: "mc_displayNameSource (syncAll md mc) = mc_displayNameSource mc"
proof -
  have "mc_displayNameSource (fold (\<lambda>c. emit (McSync c md)) cs mc) = mc_displayNameSource mc" for cs
    by (induction cs arbitrary: mc) (simp_all add: frame_simps)
  then show ?thesis by (simp add: syncAll_def)
qed

lemma displayName_frame [frame_simps]:
  "mc_contacts (snd (metaDisplayName ob mc)) = mc_contacts mc"
  "mc_displayNameSource (snd (metaDisplayName ob mc)) = mc_displayNameSource mc"
  by (auto simp: metaDisplayName_def Let_def split: list.split)

lemma setDisplayNameSource_frame [frame_simps]:
  "mc_contacts (setDisplayNameSource ob src mc) = mc_contacts mc"
  "mc_displayNameSource (setDisplayNameSource ob src mc) = src"
  by (simp_all add: setDisplayNameSource_def Let_def case_prod_unfold frame_simps)

lemma sourceContact_frame [frame_simps]:
  "mc_contacts (setDisplayNameSourceContact ob c mc) = mc_contacts mc"
  "mc_displayNameSource (setDisplayNameSourceContact ob c mc) = mc_displayNameSource mc"
  by (simp_all add: setDisplayNameSourceContact_def Let_def frame_simps)

lemma photo_frame [frame_simps]:
  "mc_contacts (setPhotoSource src mc) = mc_contacts mc"
  "mc_displayNameSource (setPhotoSource src mc) = mc_displayNameSource mc"
  "mc_contacts (setPhotoSourceContact ob c mc) = mc_contacts mc"
  "mc_displayNameSource (setPhotoSourceContact ob c mc) = mc_displayNameSource mc"
  by (simp_all add: setPhotoSource_def setPhotoSourceContact_def Let_def frame_simps)

lemma updateOnlineStatus_frame [frame_simps]:
  "mc_contacts (updateOnlineStatus ob mc) = mc_contacts mc"
  "mc_displayNameSource (updateOnlineStatus ob mc) = mc_displayNameSource mc"
  by (simp_all add: updateOnlineStatus_def Let_def frame_simps)

lemma addContact_frame [frame_simps]:
  "mc_contacts (addContact ob c mc) = (if c \<in> set (mc_contacts mc) then mc_contacts mc else mc_contacts mc @ [c])"
  "mc_displayNameSource (addContact ob c mc) = mc_displayNameSource mc"
  by (simp_all add: addContact_def Let_def case_prod_unfold frame_simps)

lemma changeDisplayName_frame [frame_simps]:
  "mc_contacts (changeDisplayName name mc) = mc_contacts mc"
  "mc_displayNameSource (changeDisplayName name mc) = mc_displayNameSource mc"
  by (simp_all add: changeDisplayName_def frame_simps)

lemma forgetContact_frame [frame_simps]:
  "mc_contacts (forgetContact ob c mc) = removeAll c (mc_contacts mc)"
  "mc_displayNameSource (forgetContact ob c mc) = mc_displayNameSource mc"
  by (simp_all add: forgetContact_def Let_def frame_simps)

subsection \<open>Every contact in one meta contact\<close>

text \<open>The contacts in \<open>X\<close> are on their way from one meta contact to another.\<close>

definition owned :: "contactPtr set \<Rightarrow> world \<Rightarrow> bool" where
  "owned X w \<longleftrightarrow> (\<forall>m. distinct (contactsOf w m))
     \<and> (\<forall>c m. c \<in> set (contactsOf w m) \<longleftrightarrow> c \<notin> X \<and> c_metaContact (contactOf w c) = Some m)"

definition tracking :: "world \<Rightarrow> metaPtr set" where
  "tracking w = {m. mc_displayNameSource (w_meta w m) = SourceContact}"

text \<open>Worlds that agree in what ownership and termination depend on.\<close>

definition same_shape :: "world \<Rightarrow> world \<Rightarrow> bool" where
  "same_shape w w' \<longleftrightarrow> (\<forall>m. contactsOf w' m = contactsOf w m)
     \<and> (\<forall>c. c_metaContact (contactOf w' c) = c_metaContact (contactOf w c)) \<and> tracking w' = tracking w"

lemma same_shape_refl [simp]: "same_shape w w"
  by (simp add: same_shape_def)

lemma same_shape_trans: "same_shape a b \<Longrightarrow> same_shape b c \<Longrightarrow> same_shape a c"
  by (simp add: same_shape_def)

lemma same_shape_owned: "same_shape w w' \<Longrightarrow> owned X w' \<longleftrightarrow> owned X w"
  by (simp add: same_shape_def owned_def)

lemma same_shape_announce [simp]: "same_shape w (announce e w')  \<longleftrightarrow> same_shape w w'"
  by (simp add: same_shape_def announce_def tracking_def)

lemma same_shape_with_meta:
  "mc_contacts (f (w_meta w m)) = contactsOf w m
    \<Longrightarrow> mc_displayNameSource (f (w_meta w m)) = mc_displayNameSource (w_meta w m)
    \<Longrightarrow> same_shape w (with_meta m f w)"
  by (auto simp: same_shape_def tracking_def)

lemma startDeleteTask_shape: "same_shape w (startDeleteTask c w)"
  by (simp add: startDeleteTask_def)

lemma fold_shape: "(\<And>x w. same_shape w (f x w)) \<Longrightarrow> same_shape w (fold f xs w)"
  by (induction xs arbitrary: w) (auto intro: same_shape_trans)

lemma same_shape_fields [simp]:
  "same_shape w (w'\<lparr>w_contacts := l\<rparr>) \<longleftrightarrow> same_shape w w'"
  "same_shape w (w'\<lparr>w_selectedMetaContacts := l\<rparr>) \<longleftrightarrow> same_shape w w'"
  "same_shape w (w'\<lparr>w_selectedGroups := gs\<rparr>) \<longleftrightarrow> same_shape w w'"
  by (simp_all add: same_shape_def tracking_def)

lemma removeMetaContact_shape: "same_shape w (removeMetaContact m w)"
proof -
  have sel: "same_shape w (setSelectedItems ms gs w)" for ms gs w
    by (simp add: setSelectedItems_def)
  have "same_shape w (fold startDeleteTask cs w')" if "same_shape w w'" for cs w'
    using that fold_shape [of startDeleteTask, OF startDeleteTask_shape] same_shape_trans by blast
  then show ?thesis
    using sel by (simp add: removeMetaContact_def Let_def) (simp add: setSelectedItems_def)
qed

lemma removeFinish_shape: "same_shape w (removeFinish c d p m w)"
proof -
  let ?w1 = "if p then with_meta m (\<lambda>mc. case mc_contacts mc of [] \<Rightarrow> setPhotoSource SourceCustom mc
      | first # _ \<Rightarrow> setPhotoSourceContact (w_objects w) (Some first) mc) w else w"
  have 1: "same_shape w ?w1"
    by (auto intro!: same_shape_with_meta simp: frame_simps split: list.split)
  have 2: "same_shape w (if \<not> d then announce (KabcWrite m) ?w1 else ?w1)" using 1 by simp
  have "same_shape v (with_meta m (\<lambda>mc. updateOnlineStatus ob (emit (McContactRemoved c) mc)) v)" for v ob
    by (rule same_shape_with_meta) (simp_all add: frame_simps)
  then show ?thesis unfolding removeFinish_def Let_def by (rule same_shape_trans [OF 2])
qed

text \<open>Taking a contact out of one meta contact.\<close>

definition taken :: "contactPtr \<Rightarrow> metaPtr \<Rightarrow> world \<Rightarrow> world \<Rightarrow> bool" where
  "taken c m w w' \<longleftrightarrow> (\<forall>x. contactsOf w' x = (if x = m then removeAll c (contactsOf w m) else contactsOf w x))
     \<and> (\<forall>x. c_metaContact (contactOf w' x) = c_metaContact (contactOf w x))"

lemma owned_taken: "taken c m w w' \<Longrightarrow> owned X w \<Longrightarrow> c \<in> set (contactsOf w m) \<Longrightarrow> owned (insert c X) w'"
  by (auto simp: owned_def taken_def distinct_removeAll)

lemma taken_shape: "taken c m w w' \<Longrightarrow> same_shape w' w'' \<Longrightarrow> taken c m w w''"
  by (simp add: taken_def same_shape_def)

lemma removePrepare_taken:
  assumes "removePrepare c m w = (tn, tp, name, w')"
  shows "taken c m w w'" "tracking w' = tracking w" "tn \<Longrightarrow> m \<in> tracking w"
proof -
  have w': "w' = with_meta m (\<lambda>_. forgetContact (w_objects w) c (snd (metaDisplayName (w_objects w) (w_meta w m)))) w"
    using assms by (simp add: removePrepare_def Let_def case_prod_unfold)
  show "taken c m w w'" "tracking w' = tracking w"
    by (auto simp: w' taken_def tracking_def frame_simps)
  show "tn \<Longrightarrow> m \<in> tracking w"
    using assms by (auto simp: removePrepare_def Let_def case_prod_unfold tracking_def)
qed

lemma owned_setMetaPointer: "owned X w \<Longrightarrow> c \<in> X \<Longrightarrow> owned X (setMetaPointer c m w)"
  by (auto simp: owned_def setMetaPointer_def)

lemma setMetaPointer_simps [simp]:
  "w_meta (setMetaPointer c m w) = w_meta w" "tracking (setMetaPointer c m w) = tracking w"
  "c_metaContact (contactOf (setMetaPointer c m w) c) = m"
  by (simp_all add: setMetaPointer_def tracking_def)

lemma attachTo_owned:
  assumes "owned (insert c X) w" "c \<notin> X"
  shows "owned X (attachTo c m w)" "tracking (attachTo c m w) = tracking w"
    "c_metaContact (contactOf (attachTo c m w) c) = m"
    "Some x \<noteq> m \<Longrightarrow> contactsOf (attachTo c m w) x = contactsOf w x"
  using assms
  by (auto simp: attachTo_def owned_def setMetaPointer_def announce_def tracking_def Let_def frame_simps
      split: option.split)

definition ok_call :: "contactPtr set \<Rightarrow> call \<Rightarrow> bool" where
  "ok_call X call \<longleftrightarrow> (case call of SetMetaContact c m \<Rightarrow> c \<notin> X | _ \<Rightarrow> True)"

definition post :: "contactPtr set \<Rightarrow> call \<Rightarrow> world \<Rightarrow> world \<Rightarrow> bool" where
  "post X call w w' \<longleftrightarrow> tracking w' \<subseteq> tracking w \<and>
     (case call of
        RemoveContact c d m \<Rightarrow>
          owned (if c \<in> set (contactsOf w m) then insert c X else X) w'
          \<and> (tracking w' = tracking w \<longrightarrow> contactsOf w' m = removeAll c (contactsOf w m))
      | SetDisplayName name m \<Rightarrow> owned X w'
      | MergeAll other m \<Rightarrow> owned X w'
      | SetMetaContact c m \<Rightarrow>
          owned X w' \<and> c_metaContact (contactOf w' c) = m
          \<and> (\<forall>old. c_metaContact (contactOf w c) = Some old \<and> Some old \<noteq> m \<and> tracking w' = tracking w
               \<longrightarrow> contactsOf w' old = removeAll c (contactsOf w old)))"

definition good :: "caller \<Rightarrow> bool" where
  "good rec \<longleftrightarrow> (\<forall>call w w' X. rec call w = Some w' \<longrightarrow> owned X w \<longrightarrow> ok_call X call \<longrightarrow> post X call w w')"

lemma goodD: "good rec \<Longrightarrow> rec call w = Some w' \<Longrightarrow> owned X w \<Longrightarrow> ok_call X call \<Longrightarrow> post X call w w'"
  by (auto simp: good_def)

lemma good_removeContact:
  assumes "good rec" "removeContactBody rec c d m w = Some w'" "owned X w"
  shows "post X (RemoveContact c d m) w w'"
proof (cases "c \<in> set (contactsOf w m)")
  case False
  then have "w' = with_meta m (updateOnlineStatus (w_objects w)) w"
    using assms(2) by (simp add: removeContactBody_def)
  then have sh: "same_shape w w'" by (auto intro!: same_shape_with_meta simp: frame_simps)
  then have "tracking w' = tracking w" "contactsOf w' m = contactsOf w m" by (simp_all add: same_shape_def)
  with False assms(3) same_shape_owned [OF sh, of X] show ?thesis by (simp add: post_def)
next
  case True
  obtain tn tp name w1 where prep: "removePrepare c m w = (tn, tp, name, w1)" by (metis prod_cases4)
  note w1 = removePrepare_taken [OF prep]
  have own1: "owned (insert c X) w1" by (rule owned_taken [OF w1(1) assms(3) True])
  obtain w2 where w2: "(if tn
        then (case contactsOf w1 m of
                [] \<Rightarrow> rec (SetDisplayName name m) (with_meta m (setDisplayNameSource (w_objects w1) SourceCustom) w1)
              | first # _ \<Rightarrow> Some (with_meta m (setDisplayNameSourceContact (w_objects w1) (Some first)) w1))
        else Some w1) = Some w2" "w' = removeFinish c d tp m w2"
    using assms(2) True prep by (auto simp: removeContactBody_def)
  have step: "owned (insert c X) w2 \<and> (tracking w2 \<subset> tracking w \<or> tracking w2 = tracking w \<and> contactsOf w2 m = removeAll c (contactsOf w m))"
  proof (cases tn)
    case False
    with w2(1) own1 w1(1,2) show ?thesis by (auto simp: taken_def)
  next
    case tn: True
    show ?thesis
    proof (cases "contactsOf w1 m")
      case (Cons first rest)
      have "same_shape w1 (with_meta m (setDisplayNameSourceContact (w_objects w1) (Some first)) w1)"
        by (rule same_shape_with_meta) (simp_all add: frame_simps)
      then have sh: "same_shape w1 w2" using Cons tn w2(1) by simp
      then have "tracking w2 = tracking w1" "contactsOf w2 m = contactsOf w1 m" by (simp_all add: same_shape_def)
      with own1 w1(1,2) same_shape_owned [OF sh, of "insert c X"] show ?thesis by (simp add: taken_def)
    next
      case Nil
      let ?v = "with_meta m (setDisplayNameSource (w_objects w1) SourceCustom) w1"
      have own: "owned (insert c X) ?v" using own1 by (auto simp: owned_def frame_simps)
      have "tracking ?v = tracking w - {m}" using w1(2) by (auto simp: tracking_def frame_simps)
      then have less: "tracking ?v \<subset> tracking w" using w1(3) tn by auto
      have "post (insert c X) (SetDisplayName name m) ?v w2"
        using w2(1) tn Nil own by (intro goodD [OF assms(1)]) (simp_all add: ok_call_def)
      with less show ?thesis by (auto simp: post_def)
    qed
  qed
  moreover have sh: "same_shape w2 w'" unfolding w2(2) by (rule removeFinish_shape)
  then have "tracking w' = tracking w2" "contactsOf w' m = contactsOf w2 m" by (simp_all add: same_shape_def)
  moreover have "owned (insert c X) w' \<longleftrightarrow> owned (insert c X) w2" by (rule same_shape_owned [OF sh])
  ultimately show ?thesis using True by (auto simp: post_def)
qed

lemma good_setDisplayName:
  assumes "good rec" "setDisplayNameBody rec name m w = Some w'" "owned X w"
  shows "post X (SetDisplayName name m) w w'"
proof -
  have field: "owned X (with_meta m f v)" "tracking (with_meta m f v) = tracking v"
    if "owned X v" "\<And>mc. mc_contacts (f mc) = mc_contacts mc" "\<And>mc. mc_displayNameSource (f mc) = mc_displayNameSource mc" for f v
    using that by (auto simp: owned_def tracking_def)
  have "owned X v \<and> tracking v \<subseteq> tracking w"
    if "(case sameName m name w of None \<Rightarrow> Some w | Some other \<Rightarrow> rec (MergeAll other m) w) = Some v" for v
    using that assms(3) goodD [OF assms(1), of "MergeAll _ m" w v X] by (auto simp: ok_call_def post_def split: option.splits)
  with assms(2,3) field show ?thesis
    by (auto simp: setDisplayNameBody_def post_def frame_simps split: if_splits)
qed

lemma good_mergeAll:
  assumes "good rec" "mergeAllBody rec other m w = Some w'" "owned X w"
  shows "post X (MergeAll other m) w w'"
proof (cases "contactsOf w other")
  case Nil
  with assms(2,3) show ?thesis by (simp add: mergeAllBody_def post_def)
next
  case (Cons c cs)
  then obtain w1 where w1: "rec (SetMetaContact c (Some m)) w = Some w1" "rec (MergeAll other m) w1 = Some w'"
    using assms(2) by (auto simp: mergeAllBody_def split: option.splits)
  have "c \<notin> X" using assms(3) Cons unfolding owned_def by (metis list.set_intros(1))
  then have "post X (SetMetaContact c (Some m)) w w1"
    by (intro goodD [OF assms(1) w1(1) assms(3)]) (simp add: ok_call_def)
  then have 1: "owned X w1" "tracking w1 \<subseteq> tracking w" by (simp_all add: post_def)
  have "post X (MergeAll other m) w1 w'" by (rule goodD [OF assms(1) w1(2) 1(1)]) (simp add: ok_call_def)
  with 1(2) show ?thesis by (auto simp: post_def)
qed

lemma good_setMetaContact:
  assumes "good rec" "setMetaContactBody rec c m w = Some w'" "owned X w" "c \<notin> X"
  shows "post X (SetMetaContact c m) w w'"
proof (cases "c_metaContact (contactOf w c) = m")
  case True
  with assms(2,3) show ?thesis by (auto simp: setMetaContactBody_def post_def)
next
  case False
  show ?thesis
  proof (cases "c_metaContact (contactOf w c)")
    case None
    have "owned (insert c X) w" using assms(3,4) None by (auto simp: owned_def)
    note att = attachTo_owned [OF this assms(4), where m = m]
    have "w' = attachTo c m w" using assms(2) None False by (simp add: setMetaContactBody_def)
    with att(1-3) None show ?thesis by (simp add: post_def)
  next
    case (Some old)
    have mem: "c \<in> set (contactsOf w old)" using assms(3,4) Some by (simp add: owned_def)
    obtain w1 where w1: "rec (RemoveContact c False old) w = Some w1"
      "w' = attachTo c m (if contactsOf w1 old = [] then removeMetaContact old w1 else setMetaPointer c m w1)"
      using assms(2) Some False by (auto simp: setMetaContactBody_def)
    have "post X (RemoveContact c False old) w w1" by (rule goodD [OF assms(1) w1(1) assms(3)]) (simp add: ok_call_def)
    then have p1: "owned (insert c X) w1" "tracking w1 \<subseteq> tracking w"
      "tracking w1 = tracking w \<Longrightarrow> contactsOf w1 old = removeAll c (contactsOf w old)"
      using mem by (simp_all add: post_def)
    let ?w2 = "if contactsOf w1 old = [] then removeMetaContact old w1 else setMetaPointer c m w1"
    have sh: "same_shape w1 (removeMetaContact old w1)" by (rule removeMetaContact_shape)
    have own2: "owned (insert c X) ?w2"
      using p1(1) same_shape_owned [OF sh, of "insert c X"] owned_setMetaPointer [OF p1(1), of c m] by simp
    have shape2: "tracking ?w2 = tracking w1" "contactsOf ?w2 old = contactsOf w1 old"
      using sh by (simp_all add: same_shape_def)
    note att = attachTo_owned [OF own2 assms(4), where m = m]
    have "contactsOf w' old = removeAll c (contactsOf w old)" if "Some old \<noteq> m" "tracking w' = tracking w"
      using that att(2) att(4) [OF that(1)] shape2 p1(3) w1(2) by simp
    with att(1-3) shape2(1) p1(2) w1(2) Some show ?thesis by (simp add: post_def)
  qed
qed

lemma good_run: "good (runCall n)"
proof (induction n)
  case 0
  then show ?case by (simp add: good_def)
next
  case (Suc n)
  show ?case unfolding good_def
  proof (intro allI impI)
    fix call w w' X
    assume "runCall (Suc n) call w = Some w'" "owned X w" "ok_call X call"
    then show "post X call w w'"
      by (cases call) (simp_all add: ok_call_def good_removeContact [OF Suc] good_setDisplayName [OF Suc] good_mergeAll [OF Suc]
          good_setMetaContact [OF Suc])
  qed
qed

subsection \<open>The operations end\<close>

lemma run_mono: "runCall n call w = Some w' \<Longrightarrow> runCall (n + k) call w = Some w'"
proof (induction n arbitrary: call w w')
  case (Suc n)
  show ?case
  proof (cases call)
    case (RemoveContact c d m)
    with Suc.prems show ?thesis
      by (auto simp: removeContactBody_def Suc.IH split: if_splits prod.splits list.splits)
  next
    case (SetDisplayName name m)
    with Suc.prems show ?thesis
      by (auto simp: setDisplayNameBody_def Suc.IH split: if_splits option.splits)
  next
    case (MergeAll other m)
    with Suc.prems show ?thesis
      by (auto simp: mergeAllBody_def Suc.IH split: list.splits option.splits)
  next
    case (SetMetaContact c m)
    show ?thesis
    proof (cases "c_metaContact (contactOf w c)")
      case None
      with Suc.prems SetMetaContact show ?thesis by (auto simp: setMetaContactBody_def split: if_splits)
    next
      case (Some old)
      show ?thesis
      proof (cases "runCall n (RemoveContact c False old) w")
        case None
        with Suc.prems SetMetaContact Some show ?thesis
          by (auto simp: setMetaContactBody_def Let_def split: if_splits)
      next
        case removed: (Some v)
        with Suc.prems SetMetaContact Some Suc.IH [OF removed] show ?thesis
          by (auto simp: setMetaContactBody_def Let_def split: if_splits)
      qed
    qed
  qed
qed simp

lemma run_mono': "runCall n call w = Some w' \<Longrightarrow> n \<le> k \<Longrightarrow> runCall k call w = Some w'"
  using run_mono [of n call w w' "k - n"] by simp

definition ends :: "call \<Rightarrow> world \<Rightarrow> bool" where
  "ends call w \<longleftrightarrow> (\<exists>n w'. runCall n call w = Some w')"

lemma endsI: "runCall n call w \<noteq> None \<Longrightarrow> ends call w"
  by (auto simp: ends_def)

lemma removeContact_ends:
  assumes "owned X w"
    "\<And>v name. owned (insert c X) v \<Longrightarrow> tracking v \<subset> tracking w \<Longrightarrow> ends (SetDisplayName name m) v"
  shows "ends (RemoveContact c d m) w"
proof (cases "c \<in> set (contactsOf w m)")
  case False
  then show ?thesis by (intro endsI [of 1]) (simp add: removeContactBody_def)
next
  case True
  obtain tn tp name w1 where prep: "removePrepare c m w = (tn, tp, name, w1)" by (metis prod_cases4)
  note w1 = removePrepare_taken [OF prep]
  show ?thesis
  proof (cases "tn \<and> contactsOf w1 m = []")
    case False
    then show ?thesis using True prep
      by (intro endsI [of 1]) (auto simp: removeContactBody_def split: list.split)
  next
    case nested: True
    let ?v = "with_meta m (setDisplayNameSource (w_objects w1) SourceCustom) w1"
    have "owned (insert c X) w1" by (rule owned_taken [OF w1(1) assms(1) True])
    then have "owned (insert c X) ?v" by (auto simp: owned_def frame_simps)
    moreover have "tracking ?v = tracking w - {m}" using w1(2) by (auto simp: tracking_def frame_simps)
    then have "tracking ?v \<subset> tracking w" using w1(3) nested by auto
    ultimately have "ends (SetDisplayName name m) ?v" by (rule assms(2))
    then obtain n v' where "runCall n (SetDisplayName name m) ?v = Some v'" by (auto simp: ends_def)
    with nested True prep show ?thesis by (intro endsI [of "Suc n"]) (simp add: removeContactBody_def)
  qed
qed

lemma setMetaContact_ends:
  assumes "owned X w" "c \<notin> X"
    "\<And>Y v name old. owned Y v \<Longrightarrow> tracking v \<subset> tracking w \<Longrightarrow> ends (SetDisplayName name old) v"
  shows "ends (SetMetaContact c m) w"
proof (cases "c_metaContact (contactOf w c)")
  case None
  then show ?thesis by (intro endsI [of 1]) (auto simp: setMetaContactBody_def)
next
  case (Some old)
  have "ends (RemoveContact c False old) w"
    using assms(3) by (intro removeContact_ends [OF assms(1)]) blast
  then obtain n w' where "runCall n (RemoveContact c False old) w = Some w'" by (auto simp: ends_def)
  with Some show ?thesis by (cases "Some old = m") (auto simp: setMetaContactBody_def intro!: endsI [of "Suc n"])
qed

lemma mergeAll_ends:
  assumes "owned X w" "other \<noteq> m" "finite (tracking w)"
    "\<And>Y v name old. owned Y v \<Longrightarrow> tracking v \<subset> tracking w \<Longrightarrow> ends (SetDisplayName name old) v"
    "\<And>v. owned X v \<Longrightarrow> tracking v \<subset> tracking w \<Longrightarrow> ends (MergeAll other m) v"
  shows "ends (MergeAll other m) w"
  using assms
proof (induction "length (contactsOf w other)" arbitrary: w rule: less_induct)
  case less
  show ?case
  proof (cases "contactsOf w other")
    case Nil
    then show ?thesis by (intro endsI [of 1]) (simp add: mergeAllBody_def)
  next
    case (Cons c cs)
    then have mem: "c \<in> set (contactsOf w other)" by simp
    then have c: "c \<notin> X" "c_metaContact (contactOf w c) = Some other" using less.prems(1) by (simp_all add: owned_def)
    have "ends (SetMetaContact c (Some m)) w"
      by (rule setMetaContact_ends [OF less.prems(1) c(1)]) (rule less.prems(4))
    then obtain n w1 where n: "runCall n (SetMetaContact c (Some m)) w = Some w1" by (auto simp: ends_def)
    have "post X (SetMetaContact c (Some m)) w w1"
      by (rule goodD [OF good_run n less.prems(1)]) (simp add: ok_call_def c)
    then have p: "owned X w1" "tracking w1 \<subseteq> tracking w"
      "tracking w1 = tracking w \<Longrightarrow> contactsOf w1 other = removeAll c (contactsOf w other)"
      using c(2) less.prems(2) by (simp_all add: post_def)
    have "ends (MergeAll other m) w1"
    proof (cases "tracking w1 = tracking w")
      case True
      then have "length (contactsOf w1 other) < length (contactsOf w other)"
        using p(3) mem by (simp add: length_removeAll_less)
      then show ?thesis
        by (rule less.hyps) (use True p(1) less.prems in auto)
    next
      case False
      with p(2) have "tracking w1 \<subset> tracking w" by blast
      with p(1) less.prems(5) show ?thesis by blast
    qed
    then obtain k w2 where k: "runCall k (MergeAll other m) w1 = Some w2" by (auto simp: ends_def)
    have "runCall (n + k) (SetMetaContact c (Some m)) w = Some w1" "runCall (n + k) (MergeAll other m) w1 = Some w2"
      using run_mono' [OF n] run_mono' [OF k] by simp_all
    with Cons show ?thesis by (intro endsI [of "Suc (n + k)"]) (simp add: mergeAllBody_def)
  qed
qed

lemma sameName_other: "sameName m name w = Some other \<Longrightarrow> other \<noteq> m"
  by (auto simp: sameName_def find_Some_iff split: if_splits)

lemma merge_and_name_end:
  "finite (tracking w) \<Longrightarrow> owned X w
    \<Longrightarrow> (\<forall>other m. other \<noteq> m \<longrightarrow> ends (MergeAll other m) w) \<and> (\<forall>name m. ends (SetDisplayName name m) w)"
proof (induction "card (tracking w)" arbitrary: w X rule: less_induct)
  case less
  have smaller: "(\<forall>other m. other \<noteq> m \<longrightarrow> ends (MergeAll other m) v) \<and> (\<forall>name m. ends (SetDisplayName name m) v)"
    if "owned Y v" "tracking v \<subset> tracking w" for Y v
    using less.hyps [of v Y] that less.prems(1) psubset_card_mono [OF less.prems(1) that(2)]
    by (meson finite_subset psubset_imp_subset)
  have merge: "ends (MergeAll other m) w" if "other \<noteq> m" for other m
    using that smaller by (intro mergeAll_ends [OF less.prems(2) that less.prems(1)]) blast+
  have "ends (SetDisplayName name m) w" for name m
  proof (cases "sameName m name w")
    case None
    then show ?thesis by (intro endsI [of 1]) (simp add: setDisplayNameBody_def)
  next
    case (Some other)
    from merge [OF sameName_other [OF Some]] obtain n w' where "runCall n (MergeAll other m) w = Some w'"
      by (auto simp: ends_def)
    with Some show ?thesis by (intro endsI [of "Suc n"]) (simp add: setDisplayNameBody_def)
  qed
  with merge show ?case by blast
qed

text \<open>
  C21: moving a contact and naming a meta contact always end, although both may set off a chain of
  merges: with enough fuel there is a result, and more fuel does not change it.  Each nested
  merge takes one more meta contact off taking its name from a contact.
\<close>

theorem moves_and_names_end:
  assumes "owned {} w" "finite (tracking w)"
  shows "(\<exists>n w'. \<forall>k \<ge> n. runCall k (SetMetaContact c m) w = Some w')
    \<and> (\<exists>n w'. \<forall>k \<ge> n. runCall k (SetDisplayName name x) w = Some w')
    \<and> (\<exists>n w'. \<forall>k \<ge> n. runCall k (RemoveContact c d x) w = Some w')"
proof -
  have name: "ends (SetDisplayName name x) v" if "owned Y v" "tracking v \<subseteq> tracking w" for Y v name x
    using merge_and_name_end [of v Y] that finite_subset [OF that(2) assms(2)] by blast
  have "ends (SetMetaContact c m) w" by (rule setMetaContact_ends [OF assms(1)]) (use name in auto)
  moreover have "ends (RemoveContact c d x) w" by (rule removeContact_ends [OF assms(1)]) (use name in auto)
  moreover have "\<exists>n w'. \<forall>k \<ge> n. runCall k call w = Some w'" if "ends call w" for call
  proof -
    from that obtain n w' where "runCall n call w = Some w'" by (auto simp: ends_def)
    then have "\<forall>k \<ge> n. runCall k call w = Some w'" using run_mono' by blast
    then show ?thesis by blast
  qed
  ultimately show ?thesis using name [OF assms(1)] by simp
qed

text \<open>
  C3: moving a contact keeps every contact in the one meta contact it points to and in none
  twice, whatever merges it sets off, and leaves the moved contact in its new meta contact.
\<close>

theorem contacts_stay_owned:
  assumes "owned {} w" "runCall n (SetMetaContact c m) w = Some w'"
  shows "owned {} w' \<and> c_metaContact (contactOf w' c) = m \<and> (\<forall>x. m = Some x \<longrightarrow> c \<in> set (contactsOf w' x))"
proof -
  have "post {} (SetMetaContact c m) w w'"
    by (rule goodD [OF good_run assms(2,1)]) (simp add: ok_call_def)
  then have "owned {} w'" "c_metaContact (contactOf w' c) = m" by (simp_all add: post_def)
  then show ?thesis by (simp add: owned_def)
qed

text \<open>
  Two meta contacts: number 0 with the contacts 1 and 2, named after contact 1, and number 1 with
  contact 3, which the user has given the name of contact 2.
\<close>

definition bobContact :: "qstring \<Rightarrow> metaPtr option \<Rightarrow> contact" where
  "bobContact name m = (newContactObject name 0 0 emptyStatus)\<lparr>c_metaContact := m\<rparr>"

definition bobWorld :: world where
  "bobWorld =
     \<lparr>w_objects = sampleObjects\<lparr>ob_contact := (\<lambda>p.
          if p = 1 then bobContact [0x41] (Some 0)
          else if p = 2 then bobContact [0x42] (Some 0)
          else if p = 3 then bobContact [0x43] (Some 1)
          else bobContact [] None)\<rparr>,
      w_meta = (\<lambda>m. if m = 0 then mkMetaContact\<lparr>mc_contacts := [1, 2], mc_displayNameSource := SourceContact,
                                   mc_displayNameSourceContact := Some 1\<rparr>
                   else if m = 1 then mkMetaContact\<lparr>mc_contacts := [3], mc_displayName := [0x42]\<rparr>
                   else mkMetaContact),
      w_contacts = [0, 1], w_groups = [], w_groupName = (\<lambda>_. []), w_groupId = (\<lambda>_. 0), w_uniqueGroupId = 0,
      w_nextGroup = 0, w_selectedMetaContacts = [], w_selectedGroups = [], w_events = []\<rparr>"

lemma bobWorld_owned: "owned {} bobWorld"
  by (auto simp: owned_def bobWorld_def bobContact_def newContactObject_def mkMetaContact_def addToGroup_def emit_def syncAll_def)

lemma bobWorld_tracking: "tracking bobWorld = {0}"
  by (auto simp: tracking_def bobWorld_def mkMetaContact_def addToGroup_def emit_def syncAll_def)

theorem moves_and_names_end_witness:
  "(\<exists>n w'. \<forall>k \<ge> n. runCall k (SetMetaContact 1 (Some 1)) bobWorld = Some w')
    \<and> (\<exists>n w'. \<forall>k \<ge> n. runCall k (SetDisplayName [0x42] 0) bobWorld = Some w')
    \<and> (\<exists>n w'. \<forall>k \<ge> n. runCall k (RemoveContact 1 False 0) bobWorld = Some w')"
  by (rule moves_and_names_end) (simp_all add: bobWorld_owned bobWorld_tracking)

theorem contacts_stay_owned_witness:
  "\<exists>w'. owned {} w' \<and> c_metaContact (contactOf w' 1) = Some 1 \<and> (\<forall>x. Some 1 = Some x \<longrightarrow> 1 \<in> set (contactsOf w' x))"
proof -
  have "ends (SetDisplayName nm old) v" if "owned Y v" "tracking v \<subset> tracking bobWorld" for Y v nm old
  proof -
    have "finite (tracking v)" using that(2) unfolding bobWorld_tracking by (metis finite.emptyI finite.insertI finite_subset psubset_imp_subset)
    from merge_and_name_end [OF this that(1)] show ?thesis by blast
  qed
  then have "ends (SetMetaContact 1 (Some 1)) bobWorld" by (intro setMetaContact_ends [OF bobWorld_owned]) auto
  then obtain n w' where "runCall n (SetMetaContact 1 (Some 1)) bobWorld = Some w'" by (auto simp: ends_def)
  from contacts_stay_owned [OF bobWorld_owned this] show ?thesis by blast
qed

subsection \<open>Merging\<close>

text \<open>What a move does not change of any meta contact, and of the names of the contacts.\<close>

definition quiet :: "metaContact \<Rightarrow> qstring \<times> PropertySource \<times> bool \<times> bool" where
  "quiet mc = (mc_displayName mc, mc_displayNameSource mc, mc_temporary mc, mc_loading mc)"

named_theorems quiet_simps \<open>operations that keep the quiet fields\<close>

lemma quiet_emit [quiet_simps]: "quiet (emit e mc) = quiet mc"
  by (simp add: emit_def quiet_def)

lemma quiet_syncAll [quiet_simps]: "quiet (syncAll md mc) = quiet mc"
proof -
  have "quiet (fold (\<lambda>c. emit (McSync c md)) cs mc) = quiet mc" for cs
    by (induction cs arbitrary: mc) (simp_all add: quiet_simps)
  then show ?thesis by (simp add: syncAll_def)
qed

lemma quiet_fields [quiet_simps]:
  "quiet (mc\<lparr>mc_contacts := cs\<rparr>) = quiet mc" "quiet (mc\<lparr>mc_displayNameSourceContact := c\<rparr>) = quiet mc"
  "quiet (mc\<lparr>mc_photoSource := src\<rparr>) = quiet mc" "quiet (mc\<lparr>mc_photoSourceContact := c\<rparr>) = quiet mc"
  "quiet (mc\<lparr>mc_contactPicture := pic\<rparr>) = quiet mc" "quiet (mc\<lparr>mc_onlineStatus := st\<rparr>) = quiet mc"
  by (simp_all add: quiet_def)

lemma quiet_ops [quiet_simps]:
  "quiet (snd (metaDisplayName ob mc)) = quiet mc"
  "quiet (setDisplayNameSourceContact ob c mc) = quiet mc"
  "quiet (setPhotoSource src mc) = quiet mc"
  "quiet (setPhotoSourceContact ob c mc) = quiet mc"
  "quiet (updateOnlineStatus ob mc) = quiet mc"
proof -
  show "quiet (snd (metaDisplayName ob mc)) = quiet mc"
    by (auto simp: metaDisplayName_def Let_def quiet_simps split: list.split)
qed (simp_all add: setDisplayNameSourceContact_def setPhotoSource_def setPhotoSourceContact_def updateOnlineStatus_def
  Let_def quiet_simps)

lemma quiet_addContact [quiet_simps]: "quiet (addContact ob c mc) = quiet mc"
  by (simp add: addContact_def Let_def case_prod_unfold quiet_simps)

lemma quiet_forgetContact [quiet_simps]: "quiet (forgetContact ob c mc) = quiet mc"
  by (simp add: forgetContact_def Let_def quiet_simps)

definition contactNames :: "world \<Rightarrow> contactPtr \<Rightarrow> qstring" where
  "contactNames w c = nameFromContact (w_objects w) (Some c)"

lemma contactNames_pointer [simp]: "contactNames (setMetaPointer c m w) = contactNames w"
proof
  fix x
  have "contactDisplayName ob (y\<lparr>c_metaContact := m\<rparr>) = contactDisplayName ob y" for ob y
    by (rule displayName_cong) simp_all
  then show "contactNames (setMetaPointer c m w) x = contactNames w x"
    by (simp add: contactNames_def nameFromContact_def setMetaPointer_def)
qed

text \<open>Steps that keep the quiet fields and the names and only add to the events.\<close>

definition calm :: "world \<Rightarrow> world \<Rightarrow> bool" where
  "calm w w' \<longleftrightarrow> (\<forall>x. quiet (w_meta w' x) = quiet (w_meta w x)) \<and> contactNames w' = contactNames w
     \<and> set (w_events w) \<subseteq> set (w_events w')"

lemma calm_refl [simp]: "calm w w"
  by (simp add: calm_def)

lemma calm_trans: "calm a b \<Longrightarrow> calm b c \<Longrightarrow> calm a c"
  by (auto simp: calm_def)

lemma calm_announce [simp]: "calm w w' \<Longrightarrow> calm w (announce e w')"
  by (auto simp: calm_def announce_def contactNames_def [abs_def])

lemma calm_with_meta: "quiet (f (w_meta w m)) = quiet (w_meta w m) \<Longrightarrow> calm w (with_meta m f w)"
  by (simp add: calm_def contactNames_def [abs_def])

lemma calm_setMetaPointer: "calm w (setMetaPointer c m w)"
  by (simp add: calm_def) (simp add: setMetaPointer_def)

lemma calm_fields [simp]:
  "calm w w' \<Longrightarrow> calm w (w'\<lparr>w_contacts := l\<rparr>)" "calm w w' \<Longrightarrow> calm w (w'\<lparr>w_selectedMetaContacts := l\<rparr>)"
  "calm w w' \<Longrightarrow> calm w (w'\<lparr>w_selectedGroups := gs\<rparr>)"
  by (simp_all add: calm_def contactNames_def [abs_def])

lemma calm_deleteTasks: "calm w w' \<Longrightarrow> calm w (fold startDeleteTask cs w')"
  by (induction cs arbitrary: w') (simp_all add: startDeleteTask_def)

lemma calm_removeMetaContact: "calm w (removeMetaContact m w)"
  by (simp add: removeMetaContact_def setSelectedItems_def Let_def calm_deleteTasks)

lemma removeMetaContact_list: "w_contacts (removeMetaContact m w) = removeAll m (w_contacts w)"
proof -
  have "w_contacts (fold startDeleteTask cs v) = w_contacts v" for cs v
    by (induction cs arbitrary: v) (simp_all add: startDeleteTask_def announce_def)
  then show ?thesis by (simp add: removeMetaContact_def setSelectedItems_def announce_def Let_def removeAll_id)
qed

lemma removeMetaContact_deletes:
  "m \<in> set (w_contacts w) \<Longrightarrow> MetaDeleteLater m \<in> set (w_events (removeMetaContact m w))"
  by (simp add: removeMetaContact_def announce_def Let_def)

lemma calm_removeFinish: "calm w (removeFinish c d p m w)"
proof -
  let ?w1 = "if p then with_meta m (\<lambda>mc. case mc_contacts mc of [] \<Rightarrow> setPhotoSource SourceCustom mc
      | first # _ \<Rightarrow> setPhotoSourceContact (w_objects w) (Some first) mc) w else w"
  have 1: "calm w ?w1" by (auto intro!: calm_with_meta simp: quiet_simps split: list.split)
  have 2: "calm w (if \<not> d then announce (KabcWrite m) ?w1 else ?w1)" using 1 by simp
  have "calm v (with_meta m (\<lambda>mc. updateOnlineStatus ob (emit (McContactRemoved c) mc)) v)" for v ob
    by (rule calm_with_meta) (simp add: quiet_simps)
  then show ?thesis unfolding removeFinish_def Let_def by (rule calm_trans [OF 2])
qed

lemma calm_attachTo: "calm w (attachTo c m w)"
proof -
  have "calm v (with_meta x (addContact ob c) v)" for v x ob
    by (rule calm_with_meta) (simp add: quiet_simps)
  then have "calm w (with_meta x (addContact ob c) (setMetaPointer c m w))" for x ob
    by (rule calm_trans [OF calm_setMetaPointer])
  then show ?thesis
    unfolding attachTo_def Let_def by (cases m) (simp_all only: option.case calm_announce calm_setMetaPointer)
qed

lemma removePrepare_calm: "removePrepare c m w = (tn, tp, name, w') \<Longrightarrow> calm w w' \<and> w_contacts w' = w_contacts w"
  by (auto simp: removePrepare_def Let_def case_prod_unfold quiet_simps intro!: calm_with_meta)

lemma attachTo_list: "w_contacts (attachTo c m w) = w_contacts w"
  by (simp add: attachTo_def setMetaPointer_def announce_def Let_def split: option.split)

lemma attachTo_new: "x \<notin> set (contactsOf w m) \<Longrightarrow> contactsOf (attachTo x (Some m) w) m = contactsOf w m @ [x]"
  by (simp add: attachTo_def setMetaPointer_def announce_def Let_def frame_simps)

text \<open>The contact a name is taken from.\<close>

lemma nameSource_emit [frame_simps]:
  "mc_displayNameSourceContact (emit e mc) = mc_displayNameSourceContact mc"
  by (simp add: emit_def)

lemma nameSource_syncAll [frame_simps]:
  "mc_displayNameSourceContact (syncAll md mc) = mc_displayNameSourceContact mc"
proof -
  have "mc_displayNameSourceContact (fold (\<lambda>c. emit (McSync c md)) cs mc) = mc_displayNameSourceContact mc" for cs
    by (induction cs arbitrary: mc) (simp_all add: frame_simps)
  then show ?thesis by (simp add: syncAll_def)
qed

lemma nameSource_ops [frame_simps]:
  "mc_displayNameSourceContact (setDisplayNameSourceContact ob c mc) = c"
  "mc_displayNameSourceContact (setPhotoSource src mc) = mc_displayNameSourceContact mc"
  "mc_displayNameSourceContact (setPhotoSourceContact ob c mc) = mc_displayNameSourceContact mc"
  "mc_displayNameSourceContact (updateOnlineStatus ob mc) = mc_displayNameSourceContact mc"
  by (simp_all add: setDisplayNameSourceContact_def setPhotoSource_def setPhotoSourceContact_def updateOnlineStatus_def
      Let_def frame_simps)

lemma nameSource_display:
  "mc_displayNameSourceContact mc \<noteq> None
    \<Longrightarrow> mc_displayNameSourceContact (snd (metaDisplayName ob mc)) = mc_displayNameSourceContact mc"
  by (auto simp: metaDisplayName_def Let_def)

lemma nameSource_forget:
  "mc_displayNameSourceContact (forgetContact ob c mc)
    = (if mc_displayNameSourceContact mc = Some c then None else mc_displayNameSourceContact mc)"
  by (simp add: forgetContact_def Let_def frame_simps)

lemma nameSource_removeFinish:
  "mc_displayNameSourceContact (w_meta (removeFinish c d p m w) x) = mc_displayNameSourceContact (w_meta w x)"
  by (auto simp: removeFinish_def Let_def announce_def frame_simps split: list.split)

lemma w_meta_removeMetaContact: "w_meta (removeMetaContact m w) = w_meta w"
proof -
  have "w_meta (fold startDeleteTask cs v) = w_meta v" for cs v
    by (induction cs arbitrary: v) (simp_all add: startDeleteTask_def announce_def)
  then show ?thesis by (simp add: removeMetaContact_def setSelectedItems_def announce_def Let_def)
qed

text \<open>A move out of a meta contact that does not look for a new contact to be named after.\<close>

lemma move_plain:
  assumes "owned X w" "c \<notin> X" "c_metaContact (contactOf w c) = Some old" "old \<noteq> m"
    "mc_displayNameSourceContact (w_meta w old) \<noteq> None \<or> mc_displayNameSource (w_meta w old) \<noteq> SourceContact"
  shows "\<exists>w'. runCall (Suc (Suc n)) (SetMetaContact c (Some m)) w = Some w' \<and> owned X w' \<and> calm w w'
    \<and> (\<forall>x. contactsOf w' x = (if x = old then removeAll c (contactsOf w old)
           else if x = m then contactsOf w m @ [c] else contactsOf w x))
    \<and> w_contacts w' = (if removeAll c (contactsOf w old) = [] then removeAll old (w_contacts w) else w_contacts w)
    \<and> (removeAll c (contactsOf w old) = [] \<and> old \<in> set (w_contacts w) \<longrightarrow> MetaDeleteLater old \<in> set (w_events w'))
    \<and> (mc_displayNameSourceContact (w_meta w old) = Some c \<longrightarrow> mc_displayNameSourceContact (w_meta w' old) = None)"
proof -
  have mem: "c \<in> set (contactsOf w old)" using assms(1-3) by (simp add: owned_def)
  have new: "c \<notin> set (contactsOf w m)" using assms(1,3,4) by (simp add: owned_def)
  obtain tp name w1 where prep: "removePrepare c old w = (False, tp, name, w1)"
    using assms(5) by (auto simp: removePrepare_def Let_def case_prod_unfold)
  note w1 = removePrepare_taken [OF prep] removePrepare_calm [OF prep]
  let ?w2 = "removeFinish c False tp old w1"
  have run2: "runCall (Suc n) (RemoveContact c False old) w = Some ?w2"
    using mem prep by (simp add: removeContactBody_def)
  have c2: "contactsOf ?w2 x = (if x = old then removeAll c (contactsOf w old) else contactsOf w x)" for x
    using removeFinish_shape [of w1 c False tp old] w1(1) by (simp add: same_shape_def taken_def)
  have list2: "w_contacts ?w2 = w_contacts w"
    using w1(4) by (simp add: removeFinish_def announce_def Let_def)
  let ?w3 = "if contactsOf ?w2 old = [] then removeMetaContact old ?w2 else setMetaPointer c (Some m) ?w2"
  let ?w' = "attachTo c (Some m) ?w3"
  have runCall: "runCall (Suc (Suc n)) (SetMetaContact c (Some m)) w = Some ?w'"
    using assms(3,4) run2 by (simp add: setMetaContactBody_def)
  have c3: "contactsOf ?w3 x = (if x = old then removeAll c (contactsOf w old) else contactsOf w x)" for x
    using c2 removeMetaContact_shape [of ?w2 old] by (simp add: same_shape_def)
  have "post X (SetMetaContact c (Some m)) w ?w'"
    by (rule goodD [OF good_run runCall assms(1)]) (simp add: ok_call_def assms(2))
  then have own: "owned X ?w'" by (simp add: post_def)
  have "calm w ?w2" using w1(4) calm_removeFinish calm_trans by blast
  then have "calm w ?w3" using calm_removeMetaContact calm_setMetaPointer calm_trans by presburger
  then have calm: "calm w ?w'" using calm_attachTo calm_trans by blast
  have contacts: "contactsOf ?w' x = (if x = old then removeAll c (contactsOf w old)
      else if x = m then contactsOf w m @ [c] else contactsOf w x)" for x
  proof (cases "x = m")
    case True
    have "c \<notin> set (contactsOf ?w3 m)" using c3 new assms(4) by simp
    then show ?thesis using True attachTo_new [of c ?w3 m] c3 assms(4) by simp
  next
    case False
    then have "contactsOf ?w' x = contactsOf ?w3 x"
      by (simp add: attachTo_def setMetaPointer_def announce_def Let_def)
    with False c3 show ?thesis by simp
  qed
  have ptr: "w_contacts (setMetaPointer c (Some m) ?w2) = w_contacts ?w2" by (simp add: setMetaPointer_def)
  have "w_contacts ?w' = (if removeAll c (contactsOf w old) = [] then removeAll old (w_contacts w) else w_contacts w)"
    using c2 list2 ptr by (simp add: attachTo_list removeMetaContact_list)
  moreover have "MetaDeleteLater old \<in> set (w_events ?w')" if "removeAll c (contactsOf w old) = []" "old \<in> set (w_contacts w)"
  proof -
    have "MetaDeleteLater old \<in> set (w_events ?w3)" using that c2 list2 removeMetaContact_deletes [of old ?w2] by simp
    then show ?thesis using calm_attachTo [of ?w3 c "Some m"] by (auto simp: calm_def)
  qed
  moreover have "mc_displayNameSourceContact (w_meta ?w' old) = None" if "mc_displayNameSourceContact (w_meta w old) = Some c"
  proof -
    have "mc_displayNameSourceContact (w_meta w1 old) = None"
      using prep that by (auto simp: removePrepare_def Let_def case_prod_unfold nameSource_forget nameSource_display)
    then have "mc_displayNameSourceContact (w_meta ?w3 old) = None"
      by (simp add: nameSource_removeFinish w_meta_removeMetaContact)
    then show ?thesis using assms(4) by (simp add: attachTo_def announce_def Let_def)
  qed
  ultimately show ?thesis using runCall own calm contacts by (intro exI [of _ ?w']) simp
qed

lemma merge_plain:
  assumes "owned X v" "other \<noteq> m" "mc_displayNameSource (w_meta v other) \<noteq> SourceContact"
  shows "\<exists>k v'. runCall k (MergeAll other m) v = Some v' \<and> owned X v' \<and> calm v v' \<and> contactsOf v' other = []
    \<and> contactsOf v' m = contactsOf v m @ contactsOf v other
    \<and> (contactsOf v other = [] \<longrightarrow> v' = v)
    \<and> (contactsOf v other \<noteq> [] \<longrightarrow> w_contacts v' = removeAll other (w_contacts v)
         \<and> (other \<in> set (w_contacts v) \<longrightarrow> MetaDeleteLater other \<in> set (w_events v')))"
  using assms
proof (induction "contactsOf v other" arbitrary: v)
  case Nil
  have "runCall 1 (MergeAll other m) v = Some v" using Nil.hyps [symmetric] by (simp add: mergeAllBody_def)
  with Nil show ?case by (intro exI [of _ 1] exI [of _ v]) simp
next
  case (Cons c cs)
  have mem: "c \<in> set (contactsOf v other)" using Cons.hyps(2) [symmetric] by simp
  then have c: "c \<notin> X" "c_metaContact (contactOf v c) = Some other" using Cons.prems(1) by (simp_all add: owned_def)
  have "distinct (c # cs)" using Cons.prems(1) unfolding Cons.hyps(2) owned_def by blast
  then have rest: "removeAll c (contactsOf v other) = cs" using Cons.hyps(2) [symmetric] by (simp add: removeAll_id)
  obtain v1 where v1: "runCall (Suc (Suc 0)) (SetMetaContact c (Some m)) v = Some v1" "owned X v1" "calm v v1"
    and all: "\<forall>x. contactsOf v1 x = (if x = other then cs else if x = m then contactsOf v m @ [c] else contactsOf v x)"
    and list: "w_contacts v1 = (if cs = [] then removeAll other (w_contacts v) else w_contacts v)"
      "cs = [] \<and> other \<in> set (w_contacts v) \<longrightarrow> MetaDeleteLater other \<in> set (w_events v1)"
    using move_plain [OF Cons.prems(1) c Cons.prems(2) disjI2 [OF Cons.prems(3)], of 0, unfolded rest] by blast
  have v1c: "contactsOf v1 other = cs" "contactsOf v1 m = contactsOf v m @ [c]" using all Cons.prems(2) by simp_all
  have "mc_displayNameSource (w_meta v1 other) \<noteq> SourceContact"
    using v1(3) Cons.prems(3) by (simp add: calm_def quiet_def)
  from Cons.hyps(1) [OF v1c(1) [symmetric] v1(2) Cons.prems(2) this] obtain k v' where
    v': "runCall k (MergeAll other m) v1 = Some v'" "owned X v'" "calm v1 v'" "contactsOf v' other = []"
    "contactsOf v' m = contactsOf v m @ [c] @ cs" "cs = [] \<longrightarrow> v' = v1"
    "cs \<noteq> [] \<longrightarrow> w_contacts v' = removeAll other (w_contacts v1)
       \<and> (other \<in> set (w_contacts v1) \<longrightarrow> MetaDeleteLater other \<in> set (w_events v'))"
    using v1c by auto
  have "runCall (2 + k) (SetMetaContact c (Some m)) v = Some v1" by (rule run_mono' [OF v1(1)]) simp
  moreover have "runCall (2 + k) (MergeAll other m) v1 = Some v'" by (rule run_mono' [OF v'(1)]) simp
  ultimately have "runCall (Suc (2 + k)) (MergeAll other m) v = Some v'"
    using Cons.hyps(2) [symmetric] by (simp add: mergeAllBody_def)
  moreover have "w_contacts v' = removeAll other (w_contacts v)
      \<and> (other \<in> set (w_contacts v) \<longrightarrow> MetaDeleteLater other \<in> set (w_events v'))"
    using list v'(6,7) by (cases "cs = []") auto
  ultimately show ?case
    using v'(2,4,5) calm_trans [OF v1(3) v'(3)] Cons.hyps(2) [symmetric]
    by (intro exI [of _ "Suc (2 + k)"] exI [of _ v']) simp
qed

lemma setDisplayNameSource_fields:
  "mc_displayName (setDisplayNameSource ob src mc) = mc_displayName mc"
  "mc_temporary (setDisplayNameSource ob src mc) = mc_temporary mc"
  "mc_loading (setDisplayNameSource ob src mc) = mc_loading mc"
proof -
  have drop: "quiet x = quiet y \<Longrightarrow> quiet (snd (metaDisplayName ob (x\<lparr>mc_displayNameSource := src\<rparr>)))
      = quiet (y\<lparr>mc_displayNameSource := src\<rparr>)" for x y
    by (simp add: quiet_simps) (simp add: quiet_def)
  have "quiet (setDisplayNameSource ob src mc) = quiet (mc\<lparr>mc_displayNameSource := src\<rparr>)"
    by (simp add: setDisplayNameSource_def Let_def case_prod_unfold quiet_simps(1,2) drop [OF quiet_ops(1)])
  then show "mc_displayName (setDisplayNameSource ob src mc) = mc_displayName mc"
    "mc_temporary (setDisplayNameSource ob src mc) = mc_temporary mc"
    "mc_loading (setDisplayNameSource ob src mc) = mc_loading mc"
    by (simp_all add: quiet_def)
qed

lemma find_unique:
  assumes "x \<in> set xs" "P x" "\<And>y. y \<in> set xs \<Longrightarrow> P y \<Longrightarrow> y = x"
  shows "find P xs = Some x"
proof (cases "find P xs")
  case None
  with assms(1,2) show ?thesis by (simp add: find_None_iff)
next
  case (Some y)
  then have "y \<in> set xs" "P y" by (auto simp: find_Some_iff in_set_conv_nth)
  then have "y = x" by (rule assms(3))
  with Some show ?thesis by simp
qed

text \<open>
  C32: merging can lose a contact.  Meta contact \<open>src\<close>, named after its first contact, is merged
  into \<open>dst\<close>, which the user has given the name of the second one.  When the first contact has
  left, \<open>src\<close> has none to take its name from; when the second leaves, \<open>src\<close> saves that contact's
  name as its own, and so merges \<open>dst\<close> into itself.  The second contact then ends up in \<open>dst\<close>,
  which is off the contact list and about to be deleted.
\<close>

theorem merging_can_lose_a_contact:
  assumes "owned {} w" "contactsOf w src = [a, b]" "src \<noteq> dst" "dst \<in> set (w_contacts w)"
    "mc_displayNameSource (w_meta w src) = SourceContact" "mc_displayNameSourceContact (w_meta w src) = Some a"
    "\<not> mc_temporary (w_meta w src)" "\<not> mc_loading (w_meta w src)"
    "name = nameFromContact (w_objects w) (Some b)" "name \<noteq> []" "mc_displayName (w_meta w src) \<noteq> name"
    "mc_displayName (w_meta w dst) = name" "mc_displayNameSource (w_meta w dst) \<noteq> SourceContact"
    "\<not> mc_temporary (w_meta w dst)"
    "\<forall>x \<in> set (w_contacts w). mc_displayName (w_meta w x) = name \<longrightarrow> x = dst"
  shows "\<exists>n w'. (\<forall>k \<ge> n. mergeMetaContacts k [src] dst w = Some w')
    \<and> dst \<notin> set (w_contacts w') \<and> MetaDeleteLater dst \<in> set (w_events w')
    \<and> contactsOf w' src = contactsOf w dst @ [a] \<and> contactsOf w' dst = [b]"
proof -
  have "distinct [a, b]" using assms(1) unfolding assms(2) [symmetric] owned_def by blast
  then have ab: "a \<noteq> b" by simp
  have pa: "c_metaContact (contactOf w a) = Some src"
    using assms(1,2) unfolding owned_def by (metis list.set_intros(1))
  obtain w1 where w1: "runCall (Suc (Suc 0)) (SetMetaContact a (Some dst)) w = Some w1" "owned {} w1" "calm w w1"
    and all1: "\<forall>x. contactsOf w1 x = (if x = src then [b] else if x = dst then contactsOf w dst @ [a] else contactsOf w x)"
    and list1: "w_contacts w1 = w_contacts w" and none: "mc_displayNameSourceContact (w_meta w1 src) = None"
    using move_plain [OF assms(1) _ pa assms(3), of 0] assms(6) ab by (auto simp: assms(2) simp del: runCall.simps(2))
  let ?ob = "w_objects w1"
  have bname: "nameFromContact ?ob (Some b) = name"
    using w1(3) assms(9) by (simp add: calm_def contactNames_def [symmetric])
  have pb: "c_metaContact (contactOf w1 b) = Some src" and srcb: "contactsOf w1 src = [b]"
    using w1(2) all1 unfolding owned_def by (metis list.set_intros(1), simp)
  have q1: "quiet (w_meta w1 x) = quiet (w_meta w x)" for x using w1(3) by (simp add: calm_def)
  then have src1: "mc_displayNameSource (w_meta w1 src) = SourceContact" using assms(5) by (simp add: quiet_def)
  obtain tp w2 where prep: "removePrepare b src w1 = (True, tp, name, w2)"
    using none src1 srcb bname by (simp add: removePrepare_def metaDisplayName_def Let_def)
  note w2 = removePrepare_taken [OF prep] removePrepare_calm [OF prep]
  have own2: "owned {b} w2" using owned_taken [OF w2(1) w1(2)] srcb by simp
  let ?v = "with_meta src (setDisplayNameSource (w_objects w2) SourceCustom) w2"
  have ownv: "owned {b} ?v" using own2 by (auto simp: owned_def frame_simps)
  have q2: "quiet (w_meta w2 x) = quiet (w_meta w x)" for x using w2(4) q1 by (simp add: calm_def)
  have cv: "contactsOf ?v x = (if x = src then [] else contactsOf w1 x)" for x
    using w2(1) srcb by (simp add: taken_def frame_simps)
  have fv: "mc_displayName (w_meta ?v x) = mc_displayName (w_meta w x)" "mc_temporary (w_meta ?v x) = mc_temporary (w_meta w x)"
    "mc_loading (w_meta ?v x) = mc_loading (w_meta w x)" for x
    using q2 [of x] by (cases "x = src"; simp add: quiet_def setDisplayNameSource_fields)+
  have lv: "w_contacts ?v = w_contacts w" using w2(4) list1 by simp
  have same: "sameName src name ?v = Some dst"
  proof -
    have "find (\<lambda>m. \<not> mc_temporary (w_meta ?v m) \<and> m \<noteq> src \<and> mc_displayName (w_meta ?v m) = name) (w_contacts ?v) = Some dst"
      unfolding lv fv 
    proof (rule find_unique)
      show "dst \<in> set (w_contacts w)" by (rule assms(4))
      show "\<not> mc_temporary (w_meta w dst) \<and> dst \<noteq> src \<and> mc_displayName (w_meta w dst) = name"
        using assms(3,12,14) by blast
      fix y assume "y \<in> set (w_contacts w)" "\<not> mc_temporary (w_meta w y) \<and> y \<noteq> src \<and> mc_displayName (w_meta w y) = name"
      with assms(15) show "y = dst" by blast
    qed
    then show ?thesis using assms(7,10) unfolding sameName_def fv by simp
  qed
  have "mc_displayNameSource (w_meta ?v dst) \<noteq> SourceContact"
    using assms(3,13) q2 [of dst] by (simp add: quiet_def)
  note merge = merge_plain [OF ownv assms(3) [symmetric] this]
  have cvd: "contactsOf ?v dst = contactsOf w dst @ [a]" "contactsOf ?v src = []"
    unfolding cv using all1 assms(3) by simp_all
  obtain k v1 where v1: "runCall k (MergeAll dst src) ?v = Some v1" "contactsOf v1 dst = []"
    "contactsOf v1 src = contactsOf w dst @ [a]" "dst \<notin> set (w_contacts v1)" "MetaDeleteLater dst \<in> set (w_events v1)"
    using merge unfolding cvd lv using assms(4) by auto
  let ?v2 = "with_meta src (changeDisplayName name) v1"
  have "runCall (Suc k) (SetDisplayName name src) ?v = setDisplayNameBody (runCall k) name src ?v" by simp
  also have "\<dots> = Some ?v2"
    unfolding setDisplayNameBody_def same fv option.case v1(1) using assms(8,11) by simp
  finally have name: "runCall (Suc k) (SetDisplayName name src) ?v = Some ?v2" .
  let ?w3 = "removeFinish b False tp src ?v2"
  have c2: "contactsOf w2 src = []" using w2(1) srcb by (simp add: taken_def)
  have remove: "runCall (Suc (Suc k)) (RemoveContact b False src) w1 = Some ?w3"
  proof -
    have "runCall (Suc (Suc k)) (RemoveContact b False src) w1 = removeContactBody (runCall (Suc k)) b False src w1" by simp
    also have "\<dots> = Some ?w3" unfolding removeContactBody_def prep by (simp add: srcb c2 name del: runCall.simps(2))
    finally show ?thesis .
  qed
  have c3: "contactsOf ?w3 x = contactsOf v1 x" for x
    using removeFinish_shape [of ?v2 b False tp src] by (simp add: same_shape_def frame_simps)
  have e3: "w_contacts ?w3 = w_contacts v1" by (simp add: removeFinish_def announce_def Let_def)
  let ?w4 = "setMetaPointer b (Some dst) ?w3" let ?w' = "attachTo b (Some dst) ?w4"
  have second: "runCall (Suc (Suc (Suc k))) (SetMetaContact b (Some dst)) w1 = Some ?w'"
  proof -
    have "runCall (Suc (Suc (Suc k))) (SetMetaContact b (Some dst)) w1 = setMetaContactBody (runCall (Suc (Suc k))) b (Some dst) w1" by simp
    also have "\<dots> = Some ?w'" unfolding setMetaContactBody_def pb
      using assms(3) c3 v1(3) by (simp add: remove del: runCall.simps(2))
    finally show ?thesis .
  qed
  have "mergeMetaContacts j [src] dst w = Some ?w'" if "Suc (Suc (Suc k)) \<le> j" for j
  proof -
    have "runCall j (SetMetaContact a (Some dst)) w = Some w1" by (rule run_mono' [OF w1(1)]) (use that in simp)
    moreover have "runCall j (SetMetaContact b (Some dst)) w1 = Some ?w'" by (rule run_mono' [OF second that])
    ultimately show ?thesis by (simp add: mergeMetaContacts_def assms(2))
  qed
  moreover have "w_contacts ?w' = w_contacts v1" using e3 by (simp add: attachTo_list) (simp add: setMetaPointer_def)
  moreover have "MetaDeleteLater dst \<in> set (w_events ?w')"
  proof -
    have "calm ?v2 ?w'" by (rule calm_trans [OF calm_trans [OF calm_removeFinish calm_setMetaPointer] calm_attachTo])
    then have "set (w_events ?v2) \<subseteq> set (w_events ?w')" unfolding calm_def by blast
    then show ?thesis using v1(5) by auto
  qed
  moreover have "contactsOf ?w4 dst = []" using c3 v1(2) by simp
  then have "contactsOf ?w' dst = [b]" using attachTo_new [of b ?w4 dst] by simp
  moreover have "contactsOf ?w' src = contactsOf w dst @ [a]"
    using c3 v1(3) assms(3) by (simp add: attachTo_def announce_def Let_def)
  ultimately show ?thesis using v1(4) by (intro exI [of _ "Suc (Suc (Suc k))"] exI [of _ ?w']) simp
qed

theorem merging_can_lose_a_contact_witness:
  "\<exists>n w'. (\<forall>k \<ge> n. mergeMetaContacts k [0] 1 bobWorld = Some w')
    \<and> 1 \<notin> set (w_contacts w') \<and> MetaDeleteLater 1 \<in> set (w_events w')
    \<and> contactsOf w' 0 = contactsOf bobWorld 1 @ [1] \<and> contactsOf w' 1 = [2]"
  by (rule merging_can_lose_a_contact [where name = "[0x42]"])
    (simp_all add: bobWorld_owned,
      simp_all add: bobWorld_def mkMetaContact_def addToGroup_def emit_def syncAll_def nameFromContact_def
        contactDisplayName_def customName_def nickName_def propertyString_def bobContact_def newContactObject_def)

subsection \<open>Removing a group\<close>

lemma removeMetaContact_meta [simp]: "w_meta (removeMetaContact m w) = w_meta w"
  by (rule w_meta_removeMetaContact)

lemma leaveGroup_other: "x \<noteq> m \<Longrightarrow> w_meta (leaveGroup g m w) x = w_meta w x"
  by (simp add: leaveGroup_def Let_def)

lemma leaveGroup_effect:
  assumes "groups_ok (w_meta w m)" "g \<in> set (mc_groups (w_meta w m))" "g \<noteq> TopLevelGroup"
  shows "set (w_contacts (leaveGroup g m w)) = (if mc_groups (w_meta w m) = [g] then set (w_contacts w) - {m} else set (w_contacts w))"
    "mc_groups (w_meta w m) \<noteq> [g] \<Longrightarrow> g \<notin> set (mc_groups (w_meta (leaveGroup g m w) m)) \<and> groups_ok (w_meta (leaveGroup g m w) m)"
proof -
  have one: "length (mc_groups (w_meta w m)) = 1 \<longleftrightarrow> mc_groups (w_meta w m) = [g]"
    using assms(2) by (auto simp: length_Suc_conv)
  then show "set (w_contacts (leaveGroup g m w)) = (if mc_groups (w_meta w m) = [g] then set (w_contacts w) - {m} else set (w_contacts w))"
    using assms(1) by (auto simp: leaveGroup_def Let_def removeMetaContact_list groups_ok_def)
  assume more: "mc_groups (w_meta w m) \<noteq> [g]"
  then have "w_meta (leaveGroup g m w) m = removeFromGroup (Some g) (w_meta w m)"
    using one assms(1) by (auto simp: leaveGroup_def Let_def groups_ok_def)
  moreover have "\<not> (mc_temporary (w_meta w m) \<and> g = TemporaryGroup)" using more assms(1) by (auto simp: groups_ok_def)
  ultimately show "g \<notin> set (mc_groups (w_meta (leaveGroup g m w) m)) \<and> groups_ok (w_meta (leaveGroup g m w) m)"
    using assms by (auto simp: removeFromGroup_groups intro: removeFromGroup_ok)
qed

lemma leave_all:
  assumes "distinct ms" "\<forall>m \<in> set ms. groups_ok (w_meta w m) \<and> g \<in> set (mc_groups (w_meta w m))" "g \<noteq> TopLevelGroup"
  shows "set (w_contacts (fold (leaveGroup g) ms w)) = set (w_contacts w) - {m \<in> set ms. mc_groups (w_meta w m) = [g]}"
    "m \<notin> set ms \<Longrightarrow> w_meta (fold (leaveGroup g) ms w) m = w_meta w m"
    "m \<in> set ms \<Longrightarrow> mc_groups (w_meta w m) \<noteq> [g] \<Longrightarrow> g \<notin> set (mc_groups (w_meta (fold (leaveGroup g) ms w) m))
       \<and> groups_ok (w_meta (fold (leaveGroup g) ms w) m)"
proof -
  have "set (w_contacts (fold (leaveGroup g) ms w)) = set (w_contacts w) - {m \<in> set ms. mc_groups (w_meta w m) = [g]}
      \<and> (\<forall>m. m \<notin> set ms \<longrightarrow> w_meta (fold (leaveGroup g) ms w) m = w_meta w m)
      \<and> (\<forall>m \<in> set ms. mc_groups (w_meta w m) \<noteq> [g] \<longrightarrow> g \<notin> set (mc_groups (w_meta (fold (leaveGroup g) ms w) m))
           \<and> groups_ok (w_meta (fold (leaveGroup g) ms w) m))"
    using assms(1,2)
  proof (induction ms arbitrary: w)
    case (Cons a ms)
    let ?v = "leaveGroup g a w" let ?u = "fold (leaveGroup g) ms ?v"
    have ok: "groups_ok (w_meta w a)" "g \<in> set (mc_groups (w_meta w a))" using Cons.prems(2) by simp_all
    note here = leaveGroup_effect [OF ok assms(3)]
    have dist: "a \<notin> set ms" "distinct ms" using Cons.prems(1) by simp_all
    have same: "w_meta ?v x = w_meta w x" if "x \<noteq> a" for x by (rule leaveGroup_other [OF that])
    have keep: "w_meta ?v x = w_meta w x" if "x \<in> set ms" for x by (rule same) (use that dist(1) in blast)
    have pre: "\<forall>x \<in> set ms. groups_ok (w_meta ?v x) \<and> g \<in> set (mc_groups (w_meta ?v x))"
      using Cons.prems(2) by (simp add: keep)
    note IH = Cons.IH [OF dist(2) pre]
    have IH1: "set (w_contacts ?u) = set (w_contacts ?v) - {x \<in> set ms. mc_groups (w_meta ?v x) = [g]}"
      and IH2: "\<And>x. x \<notin> set ms \<Longrightarrow> w_meta ?u x = w_meta ?v x"
      and IH3: "\<And>x. x \<in> set ms \<Longrightarrow> mc_groups (w_meta ?v x) \<noteq> [g] \<Longrightarrow> g \<notin> set (mc_groups (w_meta ?u x)) \<and> groups_ok (w_meta ?u x)"
      using IH by blast+
    have gone: "{x \<in> set ms. mc_groups (w_meta ?v x) = [g]} = {x \<in> set ms. mc_groups (w_meta w x) = [g]}"
      using keep by (intro Collect_cong) (metis (no_types))
    have "set (w_contacts ?u) = set (w_contacts w) - {x \<in> set (a # ms). mc_groups (w_meta w x) = [g]}"
      unfolding IH1 gone here(1) using dist(1) by (cases "mc_groups (w_meta w a) = [g]") auto
    moreover have "w_meta ?u x = w_meta w x" if "x \<notin> set (a # ms)" for x
      using IH2 same that by simp
    moreover have "g \<notin> set (mc_groups (w_meta ?u x)) \<and> groups_ok (w_meta ?u x)"
      if "x \<in> set (a # ms)" "mc_groups (w_meta w x) \<noteq> [g]" for x
    proof (cases "x = a")
      case True
      with here(2) that(2) IH2 [OF dist(1)] show ?thesis by simp
    next
      case False
      with that have "x \<in> set ms" by simp
      with IH3 keep that(2) show ?thesis by simp
    qed
    ultimately show ?case unfolding fold_simps by blast
  qed simp
  then show "set (w_contacts (fold (leaveGroup g) ms w)) = set (w_contacts w) - {m \<in> set ms. mc_groups (w_meta w m) = [g]}"
    "m \<notin> set ms \<Longrightarrow> w_meta (fold (leaveGroup g) ms w) m = w_meta w m"
    "m \<in> set ms \<Longrightarrow> mc_groups (w_meta w m) \<noteq> [g] \<Longrightarrow> g \<notin> set (mc_groups (w_meta (fold (leaveGroup g) ms w) m))
       \<and> groups_ok (w_meta (fold (leaveGroup g) ms w) m)"
    by blast+
qed

text \<open>
  Removing a group removes the meta contacts that are in no other group and takes the others
  out of it; every other meta contact keeps its groups, and all still have one.
\<close>

theorem removed_group_is_empty:
  assumes "\<forall>m \<in> set (w_contacts w). groups_ok (w_meta w m)" "distinct (w_contacts w)" "g \<noteq> TopLevelGroup"
  shows "groupMembers g (listRemoveGroup g w) = [] \<and> g \<notin> set (w_groups (listRemoveGroup g w))
    \<and> set (w_contacts (listRemoveGroup g w)) = {m \<in> set (w_contacts w). mc_groups (w_meta w m) \<noteq> [g]}
    \<and> (\<forall>m \<in> set (w_contacts (listRemoveGroup g w)). groups_ok (w_meta (listRemoveGroup g w) m)
         \<and> (g \<notin> set (mc_groups (w_meta w m)) \<longrightarrow> w_meta (listRemoveGroup g w) m = w_meta w m))"
proof -
  let ?sel = "w\<lparr>w_selectedGroups := removeAll g (w_selectedGroups w)\<rparr>"
  obtain w1 where w1_def: "w1 = (if g \<in> set (w_selectedGroups w)
      then setSelectedItems (w_selectedMetaContacts ?sel) (w_selectedGroups ?sel) ?sel else w)" by blast
  let ?members = "filter (\<lambda>m. g \<in> set (mc_groups (w_meta w m))) (w_contacts w)"
  have w1: "w_contacts w1 = w_contacts w" "w_meta w1 = w_meta w"
    by (simp_all add: w1_def setSelectedItems_def announce_def)
  then have members: "groupMembers g w1 = ?members" by (simp add: groupMembers_def)
  let ?w2 = "fold (leaveGroup g) ?members w1"
  have removed: "w_contacts (listRemoveGroup g w) = w_contacts ?w2" "w_meta (listRemoveGroup g w) = w_meta ?w2"
    "g \<notin> set (w_groups (listRemoveGroup g w))"
    unfolding listRemoveGroup_def Let_def w1_def [symmetric] members using assms(3) by (simp_all add: announce_def)
  have pre: "\<forall>m \<in> set ?members. groups_ok (w_meta w1 m) \<and> g \<in> set (mc_groups (w_meta w1 m))"
    unfolding w1 using assms(1) by simp
  have "distinct ?members" using assms(2) by simp
  note effect = leave_all [OF this pre assms(3), unfolded w1]
  have left: "set (w_contacts ?w2) = {m \<in> set (w_contacts w). mc_groups (w_meta w m) \<noteq> [g]}"
    using effect(1) by auto
  have each: "g \<notin> set (mc_groups (w_meta ?w2 m))" "groups_ok (w_meta ?w2 m)"
    "g \<notin> set (mc_groups (w_meta w m)) \<Longrightarrow> w_meta ?w2 m = w_meta w m"
    if "m \<in> set (w_contacts w)" "mc_groups (w_meta w m) \<noteq> [g]" for m
  proof -
    have "(g \<notin> set (mc_groups (w_meta ?w2 m)) \<and> groups_ok (w_meta ?w2 m))
        \<and> (g \<notin> set (mc_groups (w_meta w m)) \<longrightarrow> w_meta ?w2 m = w_meta w m)"
    proof (cases "m \<in> set ?members")
      case True
      with effect(3) [OF True that(2)] show ?thesis by simp
    next
      case False
      with effect(2) [OF False] that assms(1) show ?thesis by simp
    qed
    then show "g \<notin> set (mc_groups (w_meta ?w2 m))" "groups_ok (w_meta ?w2 m)"
      "g \<notin> set (mc_groups (w_meta w m)) \<Longrightarrow> w_meta ?w2 m = w_meta w m" by blast+
  qed
  have "groupMembers g (listRemoveGroup g w) = []"
    unfolding groupMembers_def removed filter_empty_conv left using each(1) by blast
  then show ?thesis unfolding removed(1,2) left using removed(3) each(2,3) by blast
qed

theorem removed_group_is_empty_witness:
  "let w = bobWorld\<lparr>w_meta := (w_meta bobWorld)(0 := addToGroup (Some (UserGroup 4)) mkMetaContact)\<rparr>; g = UserGroup 4 in
    groupMembers g (listRemoveGroup g w) = [] \<and> g \<notin> set (w_groups (listRemoveGroup g w))
    \<and> set (w_contacts (listRemoveGroup g w)) = {m \<in> set (w_contacts w). mc_groups (w_meta w m) \<noteq> [g]}
    \<and> (\<forall>m \<in> set (w_contacts (listRemoveGroup g w)). groups_ok (w_meta (listRemoveGroup g w) m)
         \<and> (g \<notin> set (mc_groups (w_meta w m)) \<longrightarrow> w_meta (listRemoveGroup g w) m = w_meta w m))"
  unfolding Let_def
  by (rule removed_group_is_empty)
    (simp_all add: bobWorld_def groups_ok_def mkMetaContact_def addToGroup_groups addToGroup_groups(2))

subsection \<open>Saving the list\<close>

text \<open>
  The part of the private data that decides when the list is written: \<open>sv_timer\<close> is the interval the
  single-shot save timer was last started with, None when it is stopped; \<open>sv_current\<close> the data the
  list holds and \<open>sv_stored\<close> what the storage holds.  \<open>ok\<close> is whether the storage is valid after
  it has saved.
\<close>

record 'a saver =
  sv_loaded :: bool
  sv_terminated :: bool
  sv_timer :: "nat option"
  sv_current :: 'a
  sv_stored :: 'a

definition newSaver :: "'a \<Rightarrow> 'a \<Rightarrow> 'a saver" where
  "newSaver blank file =
     \<lparr>sv_loaded = False, sv_terminated = False, sv_timer = None, sv_current = blank, sv_stored = file\<rparr>"

definition slotSaveLater :: "'a saver \<Rightarrow> 'a saver" where
  "slotSaveLater s = (if sv_terminated s then s else s\<lparr>sv_timer := Some 17100\<rparr>)"

definition saveList :: "bool \<Rightarrow> 'a saver \<Rightarrow> 'a saver" where
  "saveList ok s =
     (if sv_terminated s then s
      else if \<not> sv_loaded s then s
      else if \<not> ok then s\<lparr>sv_timer := Some 60000\<rparr>
      else s\<lparr>sv_stored := sv_current s, sv_timer := None\<rparr>)"

definition shutdownList :: "bool \<Rightarrow> 'a saver \<Rightarrow> 'a saver" where
  "shutdownList ok s =
     (if \<not> sv_terminated s then (saveList ok s)\<lparr>sv_terminated := True, sv_timer := None\<rparr> else s)"

text \<open>A change of the list is announced by one of the signals connected to \<open>slotSaveLater\<close>.\<close>

definition changeList :: "('a \<Rightarrow> 'a) \<Rightarrow> 'a saver \<Rightarrow> 'a saver" where
  "changeList f s = slotSaveLater (s\<lparr>sv_current := f (sv_current s)\<rparr>)"

text \<open>\<open>adds\<close> are the additions for the groups and meta contacts read, None when the storage is not valid.\<close>

definition loadList :: "('a \<Rightarrow> 'a) list option \<Rightarrow> 'a saver \<Rightarrow> 'a saver" where
  "loadList adds s =
     (let s = s\<lparr>sv_loaded := False\<rparr>;
          s = (case adds of None \<Rightarrow> s | Some fs \<Rightarrow> fold changeList fs s)
      in s\<lparr>sv_loaded := True\<rparr>)"

text \<open>The single-shot timer is stopped when it fires.\<close>

definition saveTimeout :: "bool \<Rightarrow> 'a saver \<Rightarrow> 'a saver" where
  "saveTimeout ok s = (if sv_timer s = None then s else saveList ok (s\<lparr>sv_timer := None\<rparr>))"

datatype 'a saverOp =
  LoadOp "('a \<Rightarrow> 'a) list option"
| ChangeOp "'a \<Rightarrow> 'a"
| SaveOp bool
| TimeoutOp bool
| ShutdownOp bool

fun saverStep :: "'a saverOp \<Rightarrow> 'a saver \<Rightarrow> 'a saver" where
  "saverStep (LoadOp adds) s = loadList adds s"
| "saverStep (ChangeOp f) s = changeList f s"
| "saverStep (SaveOp ok) s = saveList ok s"
| "saverStep (TimeoutOp ok) s = saveTimeout ok s"
| "saverStep (ShutdownOp ok) s = shutdownList ok s"

text \<open>While the list is not shut down, an unsaved change has a save scheduled within a minute.\<close>

definition scheduled :: "'a saver \<Rightarrow> bool" where
  "scheduled s \<longleftrightarrow> sv_stored s = sv_current s \<or> (\<exists>t \<le> 60000. sv_timer s = Some t)"

definition saver_ok :: "'a saver \<Rightarrow> bool" where
  "saver_ok s \<longleftrightarrow> sv_loaded s \<and> (sv_terminated s \<or> scheduled s)"

named_theorems saver_defs \<open>the operations on the saver\<close>

lemmas [saver_defs] = slotSaveLater_def saveList_def shutdownList_def changeList_def saveTimeout_def scheduled_def saver_ok_def

lemma fold_changeList:
  "sv_loaded (fold changeList fs s) = sv_loaded s \<and> sv_terminated (fold changeList fs s) = sv_terminated s
    \<and> (sv_terminated s \<or> scheduled s \<longrightarrow> sv_terminated s \<or> scheduled (fold changeList fs s))"
proof (induction fs arbitrary: s)
  case (Cons f fs)
  have "sv_loaded (changeList f s) = sv_loaded s" "sv_terminated (changeList f s) = sv_terminated s"
    "sv_terminated s \<or> scheduled (changeList f s)"
    by (auto simp: saver_defs)
  with Cons.IH [of "changeList f s"] show ?case by simp
qed simp

lemma saver_ok_load: "saver_ok s \<Longrightarrow> saver_ok (loadList adds s)"
proof (cases adds)
  case (Some fs)
  assume "saver_ok s"
  then have "sv_terminated s \<or> scheduled (s\<lparr>sv_loaded := False\<rparr>)" by (auto simp: saver_ok_def scheduled_def)
  with fold_changeList [of fs "s\<lparr>sv_loaded := False\<rparr>"] show ?thesis
    by (auto simp: loadList_def Some saver_ok_def scheduled_def)
qed (simp add: loadList_def saver_defs)

lemma saver_ok_step: "saver_ok s \<Longrightarrow> saver_ok (saverStep oper s)"
  by (cases oper) (simp_all add: saver_ok_load, auto simp: saver_defs)

lemma saver_ok_run: "saver_ok s \<Longrightarrow> saver_ok (fold saverStep ops s)"
  by (induction ops arbitrary: s) (simp_all add: saver_ok_step)

lemma retries:
  assumes "sv_loaded s" "\<not> sv_terminated s" "sv_timer s \<noteq> None"
  shows "fold saverStep (replicate k (TimeoutOp False) @ [TimeoutOp True]) s
    = s\<lparr>sv_stored := sv_current s, sv_timer := None\<rparr>"
  using assms
proof (induction k arbitrary: s)
  case (Suc k)
  have "saveTimeout False s = s\<lparr>sv_timer := Some 60000\<rparr>" using Suc.prems by (auto simp: saver_defs)
  then have "fold saverStep (replicate (Suc k) (TimeoutOp False) @ [TimeoutOp True]) s
      = fold saverStep (replicate k (TimeoutOp False) @ [TimeoutOp True]) (s\<lparr>sv_timer := Some 60000\<rparr>)" by simp
  also have "\<dots> = (s\<lparr>sv_timer := Some 60000\<rparr>)
      \<lparr>sv_stored := sv_current (s\<lparr>sv_timer := Some 60000\<rparr>), sv_timer := None\<rparr>"
    by (rule Suc.IH) (use Suc.prems in simp_all)
  finally show ?case by simp
qed (auto simp: saver_defs)

lemma terminated_changes:
  "sv_terminated s \<Longrightarrow> sv_terminated (fold changeList fs s) \<and> sv_stored (fold changeList fs s) = sv_stored s"
  by (induction fs arbitrary: s) (simp_all add: changeList_def slotSaveLater_def)

lemma terminated_step:
  assumes "sv_terminated s"
  shows "sv_terminated (saverStep oper s) \<and> sv_stored (saverStep oper s) = sv_stored s"
proof (cases oper)
  case (LoadOp adds)
  then show ?thesis using assms terminated_changes [of "s\<lparr>sv_loaded := False\<rparr>"]
    by (cases adds) (simp_all add: loadList_def)
qed (use assms in \<open>simp_all add: saver_defs\<close>)

text \<open>
  C12: changes reach the disk.  From a loaded list with a save scheduled for what is not stored,
  whatever changes, saves, failed saves, timeouts and reloads follow, the list is shut down or
  stores what it holds or has a save scheduled within a minute; then, however many attempts fail,
  the first that works stores what the list holds and stops the timer.  A shutdown saves a last
  time, and nothing is written after it.
\<close>

theorem changes_reach_disk:
  assumes "sv_loaded s" "scheduled s" "s' = fold saverStep ops s"
  shows "(\<not> sv_terminated s' \<longrightarrow> scheduled s'
      \<and> (sv_stored s' \<noteq> sv_current s' \<longrightarrow> (\<forall>k. fold saverStep (replicate k (TimeoutOp False) @ [TimeoutOp True]) s'
            = s'\<lparr>sv_stored := sv_current s', sv_timer := None\<rparr>))
      \<and> sv_stored (shutdownList True s') = sv_current s')
    \<and> (sv_terminated s' \<longrightarrow> (\<forall>more. sv_stored (fold saverStep more s') = sv_stored s'))"
proof -
  have ok: "saver_ok s'" unfolding assms(3) by (rule saver_ok_run) (simp add: saver_ok_def assms(1,2))
  have never: "sv_stored (fold saverStep more v) = sv_stored v" if "sv_terminated v" for more v
    using that
  proof (induction more arbitrary: v)
    case (Cons oper more)
    from terminated_step [OF Cons.prems] Cons.IH show ?case by simp
  qed simp
  have "sv_stored (shutdownList True s') = sv_current s'" if "\<not> sv_terminated s'"
    using ok that by (simp add: shutdownList_def saveList_def saver_ok_def)
  moreover have "sv_timer s' \<noteq> None" if "\<not> sv_terminated s'" "sv_stored s' \<noteq> sv_current s'"
    using ok that by (auto simp: saver_ok_def scheduled_def)
  moreover have "sv_loaded s'" using ok by (simp add: saver_ok_def)
  ultimately show ?thesis using ok never retries [of s'] unfolding saver_ok_def by blast
qed

theorem changes_reach_disk_witness:
  "\<exists>s'. \<not> sv_terminated s' \<and> sv_stored s' = [1::nat] \<and> sv_current s' = [2, 1]
     \<and> fold saverStep [TimeoutOp False, TimeoutOp False, TimeoutOp True] s' = s'\<lparr>sv_stored := [2, 1], sv_timer := None\<rparr>"
proof -
  let ?s = "loadList (Some [Cons 1]) (newSaver [] [1 :: nat])"
  let ?s' = "fold saverStep [ChangeOp (Cons 2), SaveOp False] ?s"
  have s': "\<not> sv_terminated ?s'" "sv_stored ?s' = [1]" "sv_current ?s' = [2, 1]"
    by (simp_all add: loadList_def newSaver_def saver_defs)
  have "fold saverStep (replicate 2 (TimeoutOp False) @ [TimeoutOp True]) ?s' = ?s'\<lparr>sv_stored := sv_current ?s', sv_timer := None\<rparr>"
    using changes_reach_disk [of ?s ?s' "[ChangeOp (Cons 2), SaveOp False]"] s'
    by (simp add: loadList_def newSaver_def saver_defs del: fold_simps replicate_Suc)
  moreover have "replicate 2 (TimeoutOp False) @ [TimeoutOp True] = [TimeoutOp False, TimeoutOp False, TimeoutOp True :: nat list saverOp]"
    by (simp add: numeral_2_eq_2)
  ultimately show ?thesis using s' by metis
qed

end
