(* ===== verification/Kopete_Account.thy ===== *)
theory Kopete_Account
  imports Kopete_Contact
begin

text \<open>
  Accounts of \<^verbatim>\<open>libkopete\<close> (\<^verbatim>\<open>kopeteaccount.cpp\<close>): the contacts registered with an account, what it does
  when its own status changes, the attempts to connect again after a lost connection, and the
  suspension of the account while the computer sleeps.

  What a protocol does when it is asked for a status is its own: the request is recorded, and
  where the code runs on after it the change of the account the protocol makes meanwhile is an
  argument.  The clock is the one of the store of contacts; translated strings and settings are
  arguments.
\<close>

subsection \<open>State\<close>

datatype disconnectReason =
  OtherClient | BadPassword | BadUserName | InvalidHost | Manual | ConnectionReset | UnknownReason

fun reasonValue :: "disconnectReason \<Rightarrow> int" where
  "reasonValue OtherClient = - 4"
| "reasonValue BadPassword = - 3"
| "reasonValue BadUserName = - 2"
| "reasonValue InvalidHost = - 1"
| "reasonValue Manual = 0"
| "reasonValue ConnectionReset = 1"
| "reasonValue UnknownReason = 99"

datatype networkStatus = NetUnknown | NetUnconnected | NetConnected | NetConnecting | NetDisconnecting

record statusMessage =
  sm_title :: qstring
  sm_message :: qstring

definition noMessage :: statusMessage where
  "noMessage = \<lparr>sm_title = [], sm_message = []\<rparr>"

datatype accountEvent =
    RequestStatus onlineStatus statusMessage
  | RequestMessage statusMessage
  | RequestDisconnect
  | IsConnectedChanged
  | ColorChanged "qstring option"
  | ConnectionLostNotice
  | ConfigWritten string
  | ConfigDeleted string

record kaccount =
  ka_protocol :: nat
  ka_id :: qstring
  ka_accountLabel :: "qstring option"
  ka_excludeconnect :: bool
  ka_priority :: u32
  ka_color :: "qstring option"
  ka_contacts :: "(qstring \<times> contactPtr) list"
  ka_connectionTry :: u32
  ka_identity :: "nat option"
  ka_myself :: "contactPtr option"
  ka_suppressTimer :: "nat option"
  ka_reconnectTimer :: "u32 option"
  ka_reconnectOnNetworkIsOnline :: bool
  ka_suppressStatusNotification :: bool
  ka_restoreStatus :: onlineStatus
  ka_restoreMessage :: statusMessage
  ka_lastLoginTime :: nat
  ka_suspended :: bool
  ka_suspendStatus :: onlineStatus
  ka_events :: "accountEvent list"

record kaccountEnv =
  ae_i18n :: "qstring \<Rightarrow> qstring"
  ae_reconnectOnDisconnect :: bool
  ae_network :: networkStatus

definition emitAccount :: "accountEvent \<Rightarrow> kaccount \<Rightarrow> kaccount" where
  "emitAccount e a = a\<lparr>ka_events := ka_events a @ [e]\<rparr>"

definition newKAccount :: "kaccountEnv \<Rightarrow> nat \<Rightarrow> qstring \<Rightarrow> bool \<Rightarrow> qstring option \<Rightarrow> u32 \<Rightarrow> kaccount" where
  "newKAccount en protocol accountId exclude color priority =
     \<lparr>ka_protocol = protocol, ka_id = accountId, ka_accountLabel = None, ka_excludeconnect = exclude,
      ka_priority = priority, ka_color = color, ka_contacts = [], ka_connectionTry = 0, ka_identity = None,
      ka_myself = None, ka_suppressTimer = None, ka_reconnectTimer = None,
      ka_reconnectOnNetworkIsOnline = False, ka_suppressStatusNotification = False,
      ka_restoreStatus = builtinStatus (ae_i18n en) Online, ka_restoreMessage = noMessage,
      ka_lastLoginTime = 0, ka_suspended = False, ka_suspendStatus = builtinStatus (ae_i18n en) Offline,
      ka_events = []\<rparr>"

subsection \<open>Settings\<close>

definition setColor :: "qstring option \<Rightarrow> kaccount \<Rightarrow> kaccount" where
  "setColor color a =
     emitAccount (ColorChanged color)
       (emitAccount (if color \<noteq> None then ConfigWritten ''Color'' else ConfigDeleted ''Color'') (a\<lparr>ka_color := color\<rparr>))"

definition setPriority :: "u32 \<Rightarrow> kaccount \<Rightarrow> kaccount" where
  "setPriority p a = emitAccount (ConfigWritten ''Priority'') (a\<lparr>ka_priority := p\<rparr>)"

text \<open>\<open>None\<close> is the null string.\<close>

definition setAccountLabel :: "qstring option \<Rightarrow> kaccount \<Rightarrow> kaccount" where
  "setAccountLabel label a = a\<lparr>ka_accountLabel := label\<rparr>"

definition accountLabel :: "kaccount \<Rightarrow> qstring" where
  "accountLabel a = (case ka_accountLabel a of None \<Rightarrow> ka_id a | Some l \<Rightarrow> l)"

definition setExcludeConnect :: "bool \<Rightarrow> kaccount \<Rightarrow> kaccount" where
  "setExcludeConnect b a = emitAccount (ConfigWritten ''ExcludeConnect'') (a\<lparr>ka_excludeconnect := b\<rparr>)"

subsection \<open>Contacts\<close>

text \<open>The hash of contacts is a list of its entries; a key occurs once.\<close>

definition registerContact :: "objects \<Rightarrow> contactPtr \<Rightarrow> kaccount \<Rightarrow> bool \<times> kaccount" where
  "registerContact ob p a =
     (let i = c_contactId (ob_contact ob p)
      in if i \<in> fst ` set (ka_contacts a) then (False, a)
         else (True, a\<lparr>ka_contacts := ka_contacts a @ [(i, p)]\<rparr>))"

definition accountContactDestroyed :: "objects \<Rightarrow> contactPtr \<Rightarrow> kaccount \<Rightarrow> kaccount" where
  "accountContactDestroyed ob p a =
     a\<lparr>ka_contacts := filter (\<lambda>(i, q). i \<noteq> c_contactId (ob_contact ob p)) (ka_contacts a)\<rparr>"

definition setAllContactsStatus :: "onlineStatus \<Rightarrow> kaccount \<times> objects \<Rightarrow> kaccount \<times> objects" where
  "setAllContactsStatus status = (\<lambda>(a, ob).
     (a\<lparr>ka_suppressStatusNotification := True, ka_suppressTimer := Some 20000\<rparr>,
      fold (\<lambda>(i, p). setContactOnlineStatus p status) (ka_contacts a) ob))"

subsection \<open>The account's own status\<close>

definition kaccountConnected :: "objects \<Rightarrow> kaccount \<Rightarrow> bool" where
  "kaccountConnected ob a = (case ka_myself a of None \<Rightarrow> False | Some p \<Rightarrow> contactIsOnline ob p)"

definition accountIsAway :: "objects \<Rightarrow> kaccount \<Rightarrow> bool" where
  "accountIsAway ob a =
     (case ka_myself a of None \<Rightarrow> False
      | Some p \<Rightarrow> os_status (onlineStatusOf ob p) = Away \<or> os_status (onlineStatusOf ob p) = Busy)"

definition accountIsBusy :: "objects \<Rightarrow> kaccount \<Rightarrow> bool" where
  "accountIsBusy ob a =
     (case ka_myself a of None \<Rightarrow> False | Some p \<Rightarrow> os_status (onlineStatusOf ob p) = Busy)"

definition setMyself :: "objects \<Rightarrow> contactPtr \<Rightarrow> kaccount \<Rightarrow> kaccount" where
  "setMyself ob p a =
     (let a = a\<lparr>ka_myself := Some p\<rparr>
      in if kaccountConnected ob a then emitAccount IsConnectedChanged a else a)"

text \<open>The message that goes with the status is taken from the properties of the account's contact.\<close>

definition ownMessage :: "objects \<Rightarrow> kaccount \<Rightarrow> statusMessage" where
  "ownMessage ob a =
     (case ka_myself a of None \<Rightarrow> ka_restoreMessage a
      | Some p \<Rightarrow> \<lparr>sm_title = propertyString ob (ob_contact ob p) ''statusTitle'',
                  sm_message = propertyString ob (ob_contact ob p) ''statusMessage''\<rparr>)"

definition accountStatusChanged ::
  "kaccountEnv \<Rightarrow> onlineStatus \<Rightarrow> onlineStatus \<Rightarrow> kaccount \<times> objects \<Rightarrow> kaccount \<times> objects" where
  "accountStatusChanged en newStatus oldStatus = (\<lambda>(a, ob).
     let wasOffline = \<not> isDefinitelyOnline oldStatus;
         isOffline = \<not> isDefinitelyOnline newStatus;
         a = a\<lparr>ka_suspended := False\<rparr>;
         a = (if wasOffline \<and> \<not> isOffline then a\<lparr>ka_lastLoginTime := ob_now ob\<rparr> else a);
         (a, ob) = (if \<not> wasOffline \<and> isOffline
                    then setAllContactsStatus (builtinStatus (ae_i18n en) Offline) (a, ob) else (a, ob));
         a = (if wasOffline \<or> os_status newStatus = Offline
              then a\<lparr>ka_suppressStatusNotification := True, ka_suppressTimer := Some 20000\<rparr> else a);
         a = (if \<not> isOffline then a\<lparr>ka_restoreStatus := newStatus, ka_restoreMessage := ownMessage ob a\<rparr> else a);
         a = (if wasOffline \<noteq> isOffline then emitAccount IsConnectedChanged a else a)
     in (a, ob))"

text \<open>A change of the properties of the account's contact; the values are texts.\<close>

definition slotContactPropertyChanged :: "objects \<Rightarrow> string \<Rightarrow> qstring \<Rightarrow> qstring \<Rightarrow> kaccount \<Rightarrow> kaccount" where
  "slotContactPropertyChanged ob key old newVal a =
     (if key = ''statusTitle'' \<and> old \<noteq> newVal \<and> kaccountConnected ob a
      then a\<lparr>ka_restoreMessage := (ka_restoreMessage a)\<lparr>sm_title := newVal\<rparr>\<rparr>
      else if key = ''statusMessage'' \<and> old \<noteq> newVal \<and> kaccountConnected ob a
      then a\<lparr>ka_restoreMessage := (ka_restoreMessage a)\<lparr>sm_message := newVal\<rparr>\<rparr>
      else a)"

definition slotStopSuppression :: "objects \<Rightarrow> kaccount \<Rightarrow> kaccount" where
  "slotStopSuppression ob a =
     (let a = a\<lparr>ka_suppressStatusNotification := False\<rparr>
      in if kaccountConnected ob a then a\<lparr>ka_connectionTry := 0\<rparr> else a)"

subsection \<open>Connecting again\<close>

definition reconnect :: "objects \<Rightarrow> kaccount \<Rightarrow> kaccount" where
  "reconnect ob a =
     (if kaccountConnected ob a then a else emitAccount (RequestStatus (ka_restoreStatus a) (ka_restoreMessage a)) a)"

text \<open>\<open>meanwhile\<close> is what the protocol does to the account before its \<^verbatim>\<open>setOnlineStatus\<close> returns.\<close>

definition networkingStatusChanged ::
  "kaccountEnv \<Rightarrow> objects \<Rightarrow> networkStatus \<Rightarrow> (kaccount \<Rightarrow> kaccount) \<Rightarrow> kaccount \<Rightarrow> kaccount" where
  "networkingStatusChanged en ob status meanwhile a =
     (case status of
        NetConnected \<Rightarrow> if ka_reconnectOnNetworkIsOnline a \<and> \<not> ka_excludeconnect a then reconnect ob a else a
      | NetUnknown \<Rightarrow> a
      | NetConnecting \<Rightarrow> a
      | _ \<Rightarrow> let a = meanwhile (emitAccount (RequestStatus (builtinStatus (ae_i18n en) Offline) noMessage) a)
             in if ae_reconnectOnDisconnect en then a\<lparr>ka_reconnectOnNetworkIsOnline := True\<rparr> else a)"

definition disconnected :: "kaccountEnv \<Rightarrow> disconnectReason \<Rightarrow> kaccount \<Rightarrow> kaccount" where
  "disconnected en reason a =
     (let networkAvailable = (ae_network en = NetUnknown \<or> ae_network en = NetConnected);
          a = (if reason = BadPassword then a\<lparr>ka_reconnectTimer := Some 0\<rparr>
               else if ae_reconnectOnDisconnect en \<and> reasonValue reason > reasonValue Manual
               then (if reason = ConnectionReset \<and> \<not> networkAvailable
                     then a\<lparr>ka_reconnectOnNetworkIsOnline := True, ka_reconnectTimer := None\<rparr>
                     else if ka_reconnectTimer a \<noteq> None then a
                     else let tries = ka_connectionTry a + 1; a = a\<lparr>ka_connectionTry := tries\<rparr>
                          in if tries < 3 then a\<lparr>ka_reconnectTimer := Some 10000\<rparr>
                             else if tries \<le> 10 then a\<lparr>ka_reconnectTimer := Some ((2 * (tries - 2) - 1) * 60000)\<rparr>
                             else a)
               else a\<lparr>ka_reconnectOnNetworkIsOnline := False, ka_reconnectTimer := None\<rparr>)
      in if reason = OtherClient then emitAccount ConnectionLostNotice a else a)"

text \<open>The timer fires once.\<close>

definition reconnectTimeout :: "objects \<Rightarrow> kaccount \<Rightarrow> kaccount" where
  "reconnectTimeout ob a = reconnect ob (a\<lparr>ka_reconnectTimer := None\<rparr>)"

subsection \<open>Suspension\<close>

definition suspend ::
  "kaccountEnv \<Rightarrow> objects \<Rightarrow> statusMessage \<Rightarrow> (kaccount \<Rightarrow> kaccount) \<Rightarrow> contactPtr \<Rightarrow> kaccount \<Rightarrow> bool \<times> kaccount" where
  "suspend en ob reason meanwhile self a =
     (if ka_suspended a then (False, a)
      else let a = a\<lparr>ka_suspendStatus := onlineStatusOf ob self\<rparr>;
               a = (if os_status (onlineStatusOf ob self) = Connecting then a\<lparr>ka_suspendStatus := ka_restoreStatus a\<rparr> else a);
               a = meanwhile (emitAccount (RequestStatus (builtinStatus (ae_i18n en) Offline) reason) a)
           in (True, a\<lparr>ka_suspended := True\<rparr>))"

definition resume :: "kaccountEnv \<Rightarrow> kaccount \<Rightarrow> bool \<times> kaccount" where
  "resume en a =
     (if \<not> ka_suspended a then (False, a)
      else (True, if \<not> os_eq (ka_suspendStatus a) (builtinStatus (ae_i18n en) Offline)
                  then emitAccount (RequestStatus (ka_suspendStatus a) (ka_restoreMessage a)) a else a))"

subsection \<open>The attempts\<close>

text \<open>
  A run of connections that fail: each time the account hears that it is disconnected, waits for
  its timer and asks for the status again.  The value is the list of the waits, and the account.
\<close>

fun failing :: "kaccountEnv \<Rightarrow> objects \<Rightarrow> disconnectReason list \<Rightarrow> kaccount \<Rightarrow> u32 list \<times> kaccount" where
  "failing en ob [] a = ([], a)"
| "failing en ob (r # rs) a =
     (let a = disconnected en r a
      in case ka_reconnectTimer a of
           None \<Rightarrow> ([], a)
         | Some t \<Rightarrow> (let (ts, b) = failing en ob rs (reconnectTimeout ob a) in (t # ts, b)))"

definition retried :: "kaccountEnv \<Rightarrow> disconnectReason \<Rightarrow> bool" where
  "retried en r \<longleftrightarrow> ae_reconnectOnDisconnect en
     \<and> (r = UnknownReason \<or> r = ConnectionReset \<and> (ae_network en = NetUnknown \<or> ae_network en = NetConnected))"

abbreviation asks :: "kaccount \<Rightarrow> accountEvent" where
  "asks a \<equiv> RequestStatus (ka_restoreStatus a) (ka_restoreMessage a)"

definition waitFor :: "u32 \<Rightarrow> u32 option" where
  "waitFor c = (if c < 3 then Some 10000 else if c \<le> 10 then Some ((2 * (c - 2) - 1) * 60000) else None)"

lemma wait_next:
  assumes "ka_reconnectTimer a = None"
  shows "(let b = a\<lparr>ka_connectionTry := c\<rparr>
       in if c < 3 then b\<lparr>ka_reconnectTimer := Some 10000\<rparr>
          else if c \<le> 10 then b\<lparr>ka_reconnectTimer := Some ((2 * (c - 2) - 1) * 60000)\<rparr> else b)
    = a\<lparr>ka_connectionTry := c, ka_reconnectTimer := waitFor c\<rparr>"
proof -
  have "a\<lparr>ka_connectionTry := c\<rparr> = a\<lparr>ka_connectionTry := c, ka_reconnectTimer := None\<rparr>" using assms by simp
  then show ?thesis by (simp only: waitFor_def Let_def if_distrib [of "\<lambda>w. a\<lparr>ka_connectionTry := c, ka_reconnectTimer := w\<rparr>"]) 
qed

lemma disconnected_retried:
  assumes r: "retried en r" and t: "ka_reconnectTimer a = None"
  shows "disconnected en r a
    = a\<lparr>ka_connectionTry := ka_connectionTry a + 1, ka_reconnectTimer := waitFor (ka_connectionTry a + 1)\<rparr>"
proof -
  have *: "(r = BadPassword) = False" "(r = OtherClient) = False" "(reasonValue Manual < reasonValue r) = True"
    "(r = ConnectionReset \<and> \<not> (ae_network en = NetUnknown \<or> ae_network en = NetConnected)) = False"
    "ae_reconnectOnDisconnect en = True"
    using r by (auto simp: retried_def)
  show ?thesis
    by (simp only: disconnected_def * t simp_thms if_True if_False
        Let_def [of "ae_network en = NetUnknown \<or> ae_network en = NetConnected"] Let_def [of "ka_connectionTry a + 1"] wait_next [OF t]
        Let_def [of "a\<lparr>ka_connectionTry := ka_connectionTry a + 1, ka_reconnectTimer := waitFor (ka_connectionTry a + 1)\<rparr>"])
qed

lemma waitFor_first:
  assumes "n < 10"
  shows "waitFor (of_nat (Suc n)) = Some (if n < 2 then 10000 else (2 * of_nat n - 3) * 60000)"
    "unat (if n < 2 then 10000 else (2 * of_nat n - 3) * 60000 :: u32) = (if n < 2 then 10000 else (2 * n - 3) * 60000)"
proof -
  have "list_all (\<lambda>n. waitFor (of_nat (Suc n)) = Some (if n < 2 then 10000 else (2 * of_nat n - 3) * 60000)) [0..<10]"
    by (simp add: upt_rec waitFor_def)
  then show "waitFor (of_nat (Suc n)) = Some (if n < 2 then 10000 else (2 * of_nat n - 3) * 60000)"
    using assms by (simp add: list_all_iff)
  have "list_all (\<lambda>n. unat (if n < 2 then 10000 else (2 * of_nat n - 3) * 60000 :: u32)
      = (if n < 2 then 10000 else (2 * n - 3) * 60000)) [0..<10]"
    by (simp add: upt_rec)
  from this [unfolded list_all_iff]
  show "unat (if n < 2 then 10000 else (2 * of_nat n - 3) * 60000 :: u32) = (if n < 2 then 10000 else (2 * n - 3) * 60000)"
    by (rule bspec) (use assms in simp)
qed

lemma failing_step:
  assumes "retried en r" "ka_reconnectTimer a = None" "\<not> kaccountConnected ob a"
    and w: "waitFor (ka_connectionTry a + 1) = Some t"
  shows "failing en ob (r # rs) a
    = (let (ts, b) = failing en ob rs (a\<lparr>ka_connectionTry := ka_connectionTry a + 1, ka_events := ka_events a @ [asks a]\<rparr>)
       in (t # ts, b))"
proof -
  have "disconnected en r a = a\<lparr>ka_connectionTry := ka_connectionTry a + 1, ka_reconnectTimer := Some t\<rparr>"
    using w disconnected_retried [OF assms(1,2)] by simp
  moreover have "reconnectTimeout ob (a\<lparr>ka_connectionTry := ka_connectionTry a + 1, ka_reconnectTimer := Some t\<rparr>)
      = a\<lparr>ka_connectionTry := ka_connectionTry a + 1, ka_events := ka_events a @ [asks a]\<rparr>"
    using assms(2,3) by (simp add: reconnectTimeout_def reconnect_def emitAccount_def kaccountConnected_def)
  ultimately show ?thesis by simp
qed

lemma failing_stop:
  assumes "retried en r" "ka_reconnectTimer a = None" "waitFor (ka_connectionTry a + 1) = None"
  shows "failing en ob (r # rs) a = ([], a\<lparr>ka_connectionTry := ka_connectionTry a + 1\<rparr>)"
  using disconnected_retried [OF assms(1,2)] assms(2,3) by simp

lemma failing_from:
  assumes "\<forall>r \<in> set rs. retried en r" "ka_reconnectTimer a = None" "\<not> kaccountConnected ob a"
    and "ka_connectionTry a = of_nat n" "n \<le> 10"
  shows "map unat (fst (failing en ob rs a))
      = take (length rs) (map (\<lambda>i. if i < 2 then 10000 else (2 * i - 3) * 60000) [n..<10])
    \<and> ka_events (snd (failing en ob rs a)) = ka_events a @ replicate (min (length rs) (10 - n)) (asks a)
    \<and> ka_reconnectTimer (snd (failing en ob rs a)) = None"
  using assms
proof (induction rs arbitrary: a n)
  case (Cons r rs)
  show ?case
  proof (cases "n < 10")
    case True
    let ?t = "if n < 2 then 10000 else (2 * of_nat n - 3) * 60000 :: u32"
    let ?b = "a\<lparr>ka_connectionTry := ka_connectionTry a + 1, ka_events := ka_events a @ [asks a]\<rparr>"
    have w: "waitFor (ka_connectionTry a + 1) = Some ?t"
      using waitFor_first(1) [OF True] Cons.prems(4) by (simp add: add.commute)
    have step: "failing en ob (r # rs) a = (let (ts, b) = failing en ob rs ?b in (?t # ts, b))"
      using failing_step [OF _ _ _ w] Cons.prems by simp
    have u: "unat ?t = (if n < 2 then 10000 else (2 * n - 3) * 60000)" by (rule waitFor_first(2) [OF True])
    have "[n..<10] = n # [Suc n..<10]" using True by (rule upt_conv_Cons)
    moreover have "min (length (r # rs)) (10 - n) = Suc (min (length rs) (10 - Suc n))" using True by simp
    moreover have "kaccountConnected ob ?b = kaccountConnected ob a" by (simp add: kaccountConnected_def)
    moreover have "ka_connectionTry ?b = of_nat (Suc n)" using Cons.prems(4) by (simp add: add.commute)
    ultimately show ?thesis using Cons.IH [of ?b "Suc n"] Cons.prems True step u by (simp add: split_beta Let_def)
  next
    case False
    then have "n = 10" using Cons.prems(5) by simp
    then show ?thesis using failing_stop [of en r a ob rs] Cons.prems by (simp add: waitFor_def)
  qed
qed simp

text \<open>
  C23: An account that cannot connect waits 10 seconds before its first two new attempts, then
  1, 3, 5, up to 15 minutes before the following eight, and then stops: however often the connection
  is lost, it asks its protocol for the status it had, with its message, at most ten times, and no
  timer is left.
\<close>

theorem reconnect_waits:
  assumes "\<forall>r \<in> set rs. retried en r" "ka_reconnectTimer a = None" "\<not> kaccountConnected ob a"
    "ka_connectionTry a = 0"
  shows "map unat (fst (failing en ob rs a))
      = take (length rs) ([10000, 10000] @ map (\<lambda>i. (2 * i + 1) * 60000) [0..<8])
    \<and> ka_events (snd (failing en ob rs a))
      = ka_events a @ replicate (min (length rs) 10) (RequestStatus (ka_restoreStatus a) (ka_restoreMessage a))
    \<and> ka_reconnectTimer (snd (failing en ob rs a)) = None"
  using failing_from [of rs en a ob 0] assms by (simp add: upt_rec)

definition sampleKEnv :: kaccountEnv where
  "sampleKEnv = \<lparr>ae_i18n = id, ae_reconnectOnDisconnect = True, ae_network = NetConnected\<rparr>"

definition sampleKAccount :: kaccount where
  "sampleKAccount = newKAccount sampleKEnv 1 (qstr ''me'') False None 0"

theorem reconnect_waits_witness:
  "map unat (fst (failing sampleKEnv sampleObjects (replicate 12 UnknownReason) sampleKAccount))
      = take (length (replicate 12 UnknownReason)) ([10000, 10000] @ map (\<lambda>i. (2 * i + 1) * 60000) [0..<8])
    \<and> ka_events (snd (failing sampleKEnv sampleObjects (replicate 12 UnknownReason) sampleKAccount))
      = ka_events sampleKAccount @ replicate (min (length (replicate 12 UnknownReason)) 10)
          (RequestStatus (ka_restoreStatus sampleKAccount) (ka_restoreMessage sampleKAccount))
    \<and> ka_reconnectTimer (snd (failing sampleKEnv sampleObjects (replicate 12 UnknownReason) sampleKAccount)) = None"
  by (rule reconnect_waits) (simp_all add: retried_def sampleKEnv_def sampleKAccount_def newKAccount_def kaccountConnected_def)

subsection \<open>Going offline\<close>

lemma setContactOnlineStatus_other:
  "q \<noteq> p \<Longrightarrow> ob_contact (setContactOnlineStatus p status ob) q = ob_contact ob q"
  by (simp add: setContactOnlineStatus_def Let_def)

lemma status_of_property_changes [simp]:
  "c_onlineStatus (emit_contact e c) = c_onlineStatus c"
  "c_onlineStatus (contactSlotPropertyChanged ob key c) = c_onlineStatus c"
  "c_onlineStatus (removeProperty ob key c) = c_onlineStatus c"
  "c_onlineStatus (setProperty ob key v c) = c_onlineStatus c"
  "c_onlineStatus (setPresenceTimes ob old new c) = c_onlineStatus c"
proof -
  show e: "c_onlineStatus (emit_contact e c) = c_onlineStatus c" for e c by (simp add: emit_contact_def)
  show s: "c_onlineStatus (contactSlotPropertyChanged ob key c) = c_onlineStatus c" for key c
    by (simp add: contactSlotPropertyChanged_def e Let_def)
  show r: "c_onlineStatus (removeProperty ob key c) = c_onlineStatus c" for key c
    by (simp add: removeProperty_def e s split: option.split)
  show p: "c_onlineStatus (setProperty ob key v c) = c_onlineStatus c" for key v c
    by (simp add: setProperty_def e s r Let_def)
  show "c_onlineStatus (setPresenceTimes ob old new c) = c_onlineStatus c"
    by (simp add: setPresenceTimes_def r p)
qed

lemma status_setContactOnlineStatus:
  "c_onlineStatus (ob_contact (setContactOnlineStatus p status ob) p)
    = (if os_eq status (c_onlineStatus (ob_contact ob p)) then c_onlineStatus (ob_contact ob p) else status)"
  by (simp add: setContactOnlineStatus_def Let_def)

lemma os_eq_set: "os_eq status (c_onlineStatus (ob_contact (setContactOnlineStatus p status ob) p))"
  by (simp add: status_setContactOnlineStatus) (simp add: os_eq_def)

lemma setContactOnlineStatus_frame [simp]:
  "ob_account (setContactOnlineStatus p status ob) = ob_account ob"
  "ob_now (setContactOnlineStatus p status ob) = ob_now ob"
  by (simp_all add: setContactOnlineStatus_def Let_def)

lemma fold_setContactOnlineStatus:
  "os_eq status (c_onlineStatus (ob_contact ob q)) \<or> q \<in> snd ` set cs
    \<Longrightarrow> os_eq status (c_onlineStatus (ob_contact (fold (\<lambda>(i, p). setContactOnlineStatus p status) cs ob) q))"
  "q \<notin> snd ` set cs \<Longrightarrow> ob_contact (fold (\<lambda>(i, p). setContactOnlineStatus p status) cs ob) q = ob_contact ob q"
proof (induction cs arbitrary: ob)
  case (Cons x cs)
  obtain i p where x: "x = (i, p)" by (cases x)
  { case 1
    show ?case
    proof (cases "q = p")
      case True
      then show ?thesis using Cons.IH(1) [of "setContactOnlineStatus p status ob"] x os_eq_set by simp
    next
      case False
      then show ?thesis
        using 1 Cons.IH(1) [of "setContactOnlineStatus p status ob"] x setContactOnlineStatus_other [OF False] by auto
    qed }
  { case 2
    then show ?case using Cons.IH(2) [of "setContactOnlineStatus p status ob"] x setContactOnlineStatus_other [of q p status ob] by simp }
qed auto

lemma setAllContactsStatus_snd:
  "snd (setAllContactsStatus status (a, ob)) = fold (\<lambda>(i, p). setContactOnlineStatus p status) (ka_contacts a) ob"
  by (simp add: setAllContactsStatus_def)

lemma accountStatusChanged_snd:
  "snd (accountStatusChanged en newStatus oldStatus (a, ob))
    = (if isDefinitelyOnline oldStatus \<and> \<not> isDefinitelyOnline newStatus
       then fold (\<lambda>(i, p). setContactOnlineStatus p (builtinStatus (ae_i18n en) Offline)) (ka_contacts a) ob else ob)"
  by (simp add: accountStatusChanged_def setAllContactsStatus_def Let_def)

text \<open>
  When the account goes from online to offline or connecting, every contact registered with it
  gets a status equal to the built-in offline status, whatever its status was; no other contact is
  touched; and the notifications of these changes are held back for twenty seconds.  Any other
  change of the account touches no contact.
\<close>

theorem offline_takes_contacts:
  "let (b, ob') = accountStatusChanged en newStatus oldStatus (a, ob);
       goes = isDefinitelyOnline oldStatus \<and> \<not> isDefinitelyOnline newStatus
   in (goes \<longrightarrow> (\<forall>(i, p) \<in> set (ka_contacts a).
                  os_eq (builtinStatus (ae_i18n en) Offline) (c_onlineStatus (ob_contact ob' p)))
               \<and> ka_suppressStatusNotification b \<and> ka_suppressTimer b = Some 20000)
    \<and> (\<forall>p. \<not> goes \<or> p \<notin> snd ` set (ka_contacts a) \<longrightarrow> ob_contact ob' p = ob_contact ob p)"
proof -
  let ?r = "accountStatusChanged en newStatus oldStatus (a, ob)"
  have "isDefinitelyOnline oldStatus \<and> \<not> isDefinitelyOnline newStatus
    \<longrightarrow> ka_suppressStatusNotification (fst ?r) \<and> ka_suppressTimer (fst ?r) = Some 20000"
    by (simp add: accountStatusChanged_def setAllContactsStatus_def emitAccount_def Let_def)
  moreover have "os_eq (builtinStatus (ae_i18n en) Offline) (c_onlineStatus (ob_contact (snd ?r) p))"
    if "isDefinitelyOnline oldStatus \<and> \<not> isDefinitelyOnline newStatus" "(i, p) \<in> set (ka_contacts a)" for i p
    using that fold_setContactOnlineStatus(1) [of _ ob p "ka_contacts a"]
    by (force simp: accountStatusChanged_snd)
  moreover have "ob_contact (snd ?r) p = ob_contact ob p"
    if "\<not> (isDefinitelyOnline oldStatus \<and> \<not> isDefinitelyOnline newStatus) \<or> p \<notin> snd ` set (ka_contacts a)" for p
    using that fold_setContactOnlineStatus(2) [of p "ka_contacts a"] by (auto simp: accountStatusChanged_snd)
  ultimately show ?thesis by (fastforce simp: split_beta Let_def)
qed

theorem offline_takes_contacts_witness:
  "let a = snd (registerContact sampleObjects 1 sampleKAccount);
       r = accountStatusChanged sampleKEnv (builtinStatus id Offline) (builtinStatus id Online) (a, sampleObjects)
   in os_eq (builtinStatus id Offline) (c_onlineStatus (ob_contact (snd r) 1)) \<and> ob_contact (snd r) 2 = ob_contact sampleObjects 2"
  using offline_takes_contacts [of sampleKEnv "builtinStatus id Offline" "builtinStatus id Online"
      "snd (registerContact sampleObjects 1 sampleKAccount)" sampleObjects]
  by (simp add: Let_def split_beta isDefinitelyOnline_def builtinStatus_def mkOnlineStatus_def registerContact_def
      sampleKAccount_def newKAccount_def sampleKEnv_def)

subsection \<open>Suspension\<close>

lemma status_change_forgets_suspension:
  "\<not> ka_suspended (fst (accountStatusChanged en newStatus oldStatus (a, ob)))"
  by (simp add: accountStatusChanged_def setAllContactsStatus_def emitAccount_def Let_def split: if_split)

lemma suspend_suspends:
  assumes "\<not> ka_suspended a"
  shows "suspend en ob reason meanwhile self a
    = (True, (meanwhile (emitAccount (RequestStatus (builtinStatus (ae_i18n en) Offline) reason)
         (a\<lparr>ka_suspendStatus := if os_status (onlineStatusOf ob self) = Connecting then ka_restoreStatus a
                               else onlineStatusOf ob self\<rparr>)))\<lparr>ka_suspended := True\<rparr>)"
  using assms by (simp add: suspend_def Let_def)

lemma accountStatusChanged_suspendStatus [simp]:
  "ka_suspendStatus (fst (accountStatusChanged en newStatus oldStatus (a, ob))) = ka_suspendStatus a"
  by (simp add: accountStatusChanged_def setAllContactsStatus_def emitAccount_def Let_def split: if_split)

lemma restoreMessage_offline [simp]:
  "\<not> isDefinitelyOnline newStatus
    \<Longrightarrow> ka_restoreMessage (fst (accountStatusChanged en newStatus oldStatus (a, ob))) = ka_restoreMessage a"
  by (simp add: accountStatusChanged_def setAllContactsStatus_def emitAccount_def Let_def)

text \<open>
  An account that is put to sleep and goes offline before its protocol returns is asked, when it
  wakes up, for the status it had before (for the status it was connecting to, if it was
  connecting), with the message it had, unless it was offline.  An account whose
  change to offline is heard only afterwards has forgotten that it sleeps: waking it up does nothing.
\<close>

theorem sleep_and_wake:
  assumes "\<not> ka_suspended a" "\<not> isDefinitelyOnline off"
  shows "(let before = (if os_status (onlineStatusOf ob self) = Connecting then ka_restoreStatus a else onlineStatusOf ob self);
              change = (\<lambda>b. fst (accountStatusChanged en off (onlineStatusOf ob self) (b, ob)));
              now = snd (suspend en ob reason change self a);
              later = change (snd (suspend en ob reason id self a))
          in resume en now
             = (True, if os_eq before (builtinStatus (ae_i18n en) Offline) then now
                      else emitAccount (RequestStatus before (ka_restoreMessage a)) now)
           \<and> resume en later = (False, later))"
  using assms by (simp add: suspend_suspends [OF assms(1)] resume_def emitAccount_def status_change_forgets_suspension Let_def)

theorem sleep_and_wake_witness:
  "let before = (if os_status (onlineStatusOf sampleObjects 1) = Connecting then ka_restoreStatus sampleKAccount
                 else onlineStatusOf sampleObjects 1);
       change = (\<lambda>b. fst (accountStatusChanged sampleKEnv (builtinStatus id Offline) (onlineStatusOf sampleObjects 1) (b, sampleObjects)));
       now = snd (suspend sampleKEnv sampleObjects noMessage change 1 sampleKAccount);
       later = change (snd (suspend sampleKEnv sampleObjects noMessage id 1 sampleKAccount))
   in resume sampleKEnv now
       = (True, if os_eq before (builtinStatus (ae_i18n sampleKEnv) Offline) then now
                else emitAccount (RequestStatus before (ka_restoreMessage sampleKAccount)) now)
     \<and> resume sampleKEnv later = (False, later)"
  by (rule sleep_and_wake)
    (simp_all add: sampleKAccount_def newKAccount_def builtinStatus_def mkOnlineStatus_def isDefinitelyOnline_def)

subsection \<open>The contacts of an account\<close>

text \<open>
  The entries of the hash agree with the contacts, and no two of them have the same number.
\<close>

definition contacts_ok :: "objects \<Rightarrow> kaccount \<Rightarrow> bool" where
  "contacts_ok ob a \<longleftrightarrow> distinct (map fst (ka_contacts a)) \<and> (\<forall>(i, p) \<in> set (ka_contacts a). i = c_contactId (ob_contact ob p))"

lemma contacts_ok_register: "contacts_ok ob a \<Longrightarrow> contacts_ok ob (snd (registerContact ob p a))"
  by (auto simp: contacts_ok_def registerContact_def Let_def image_iff)

lemma contacts_ok_destroyed: "contacts_ok ob a \<Longrightarrow> contacts_ok ob (accountContactDestroyed ob p a)"
  by (auto simp: contacts_ok_def accountContactDestroyed_def distinct_map_filter)

end
