(* ===== verification/Kopete_AddContact.thy ===== *)
theory Kopete_AddContact
  imports Kopete_ContactList Kopete_Account
begin

text \<open>
  Adding contacts to an account, as a new meta contact or to one that is there (the two
  \<^verbatim>\<open>Account::addContact\<close> of \<^verbatim>\<open>kopeteaccount.cpp\<close>), and taking the contacts of an account that is
  removed off the contact list (\<^verbatim>\<open>AccountManager::removeAccountInternal\<close>).

  The contact itself is made by the protocol: \<open>createContact\<close> is a parameter.  The new meta
  contact is an address that is not in use.  The calls between meta contacts have the fuel of
  \<^verbatim>\<open>Kopete_ContactList\<close>; \<open>None\<close> is no fuel or a null pointer.  The message boxes are left out.
\<close>

subsection \<open>Adding\<close>

datatype addMode = ChangeKABC | DontChangeKABC | Temporary

record contactMaker =
  cm_canAddMyself :: bool
  cm_createContact :: "qstring \<Rightarrow> metaPtr \<Rightarrow> kaccount \<times> world \<Rightarrow> bool \<times> kaccount \<times> world"

definition addsMyself :: "contactMaker \<Rightarrow> qstring \<Rightarrow> kaccount \<Rightarrow> world \<Rightarrow> bool option" where
  "addsMyself cm contactId a w =
     (if cm_canAddMyself cm then Some False
      else case ka_myself a of None \<Rightarrow> None | Some self \<Rightarrow> Some (contactId = c_contactId (contactOf w self)))"

definition knownContact :: "qstring \<Rightarrow> kaccount \<Rightarrow> contactPtr option" where
  "knownContact contactId a = map_of (ka_contacts a) contactId"

definition listedMeta :: "contactPtr option \<Rightarrow> world \<Rightarrow> metaPtr option" where
  "listedMeta c w = (case c of None \<Rightarrow> None | Some c \<Rightarrow> c_metaContact (contactOf w c))"

text \<open>
  \<^verbatim>\<open>delete\<close> of a meta contact: its contacts hear that it is destroyed, and then they are deleted
  themselves, because it is their parent object; the account with which one is registered forgets it.
\<close>

definition contactDeleted :: "contactPtr \<Rightarrow> kaccount \<times> world \<Rightarrow> kaccount \<times> world" where
  "contactDeleted c = (\<lambda>(a, w).
     (if c \<in> snd ` set (ka_contacts a) then accountContactDestroyed (w_objects w) c a else a, announce (ContactDeleted c) w))"

definition deleteMetaContact :: "metaPtr \<Rightarrow> kaccount \<times> world \<Rightarrow> kaccount \<times> world" where
  "deleteMetaContact m = (\<lambda>(a, w). fold contactDeleted (contactsOf w m) (a, metaContactDestroyed m w))"

text \<open>The new meta contact, named before it is made temporary and before it has a contact.\<close>

definition newParent ::
  "nat \<Rightarrow> qstring \<Rightarrow> groupPtr \<Rightarrow> bool \<Rightarrow> metaPtr \<Rightarrow> world \<Rightarrow> world option" where
  "newParent n displayName grp isTemporary m w =
     (let w = with_meta m (\<lambda>_. mkMetaContact) w
      in map_option (\<lambda>w. with_meta m (if isTemporary then setTemporary True None else addToGroup (Some grp)) w)
           (if displayName \<noteq> [] then runCall n (SetDisplayName displayName m) w else Some w))"

definition accountAddContact ::
  "nat \<Rightarrow> contactMaker \<Rightarrow> qstring \<Rightarrow> qstring \<Rightarrow> groupPtr option \<Rightarrow> addMode \<Rightarrow> metaPtr \<Rightarrow> kaccount \<times> world
    \<Rightarrow> (metaPtr option \<times> kaccount \<times> world) option" where
  "accountAddContact n cm contactId displayName grp mode m = (\<lambda>(a, w).
     case addsMyself cm contactId a w of
       None \<Rightarrow> None
     | Some True \<Rightarrow> Some (None, a, w)
     | Some False \<Rightarrow>
         let isTemporary = (mode = Temporary);
             c = knownContact contactId a;
             grp = (case grp of None \<Rightarrow> TopLevelGroup | Some g \<Rightarrow> g)
         in case listedMeta c w of
              Some mc \<Rightarrow>
                Some (Some mc, a,
                  if mc_temporary (w_meta w mc) \<and> \<not> isTemporary
                  then addMetaContact mc (with_meta mc (setTemporary False (Some grp)) w) else w)
            | None \<Rightarrow>
                (case newParent n displayName grp isTemporary m w of
                   None \<Rightarrow> None
                 | Some w \<Rightarrow>
                     (case c of
                        Some c \<Rightarrow>
                          map_option (\<lambda>w. (Some m, a, addMetaContact m (if mode = ChangeKABC then announce (KabcWrite m) w else w)))
                            (runCall n (SetMetaContact c (Some m)) w)
                      | None \<Rightarrow>
                          let (success, a, w) = cm_createContact cm contactId m (a, w)
                          in if \<not> success then Some (None, deleteMetaContact m (a, w))
                             else Some (Some m, a, addMetaContact m w))))"

definition accountAddContactTo ::
  "nat \<Rightarrow> contactMaker \<Rightarrow> qstring \<Rightarrow> metaPtr \<Rightarrow> addMode \<Rightarrow> kaccount \<times> world \<Rightarrow> (bool \<times> kaccount \<times> world) option" where
  "accountAddContactTo n cm contactId parent mode = (\<lambda>(a, w).
     case addsMyself cm contactId a w of
       None \<Rightarrow> None
     | Some True \<Rightarrow> Some (False, a, w)
     | Some False \<Rightarrow>
         let isTemporary = mc_temporary (w_meta w parent);
             c = knownContact contactId a
         in case (c, listedMeta c w) of
              (Some c, Some mc) \<Rightarrow>
                if mc_temporary (w_meta w mc) \<and> \<not> isTemporary
                then map_option (\<lambda>w. (True, a, w)) (runCall n (SetMetaContact c (Some parent)) w)
                else Some (False, a, w)
            | _ \<Rightarrow>
                let (success, a, w) = cm_createContact cm contactId parent (a, w)
                in Some (success, a, if success \<and> mode = ChangeKABC then announce (KabcWrite parent) w else w))"

subsection \<open>Removing an account from the contact list\<close>

definition removeAccountContact :: "nat \<Rightarrow> contactPtr \<Rightarrow> world \<Rightarrow> world option" where
  "removeAccountContact n c w =
     (case c_metaContact (contactOf w c) of
        None \<Rightarrow> None
      | Some mc \<Rightarrow>
          (case runCall n (RemoveContact c False mc) w of
             None \<Rightarrow> None
           | Some w \<Rightarrow>
               if contactsOf w mc \<noteq> [] then Some w
               else case mc_groups (w_meta w mc) of
                      [] \<Rightarrow> None
                    | g # _ \<Rightarrow>
                        let members = groupMembers g w; w = removeMetaContact mc w
                        in Some (if length members = 1 \<and> mc \<in> set members then listRemoveGroup g w else w)))"

definition removeAccountContacts :: "nat \<Rightarrow> kaccount \<Rightarrow> world \<Rightarrow> world option" where
  "removeAccountContacts n a w =
     fold (\<lambda>(i, c) r. case r of None \<Rightarrow> None | Some w \<Rightarrow> removeAccountContact n c w) (ka_contacts a) (Some w)"

subsection \<open>A new meta contact\<close>

lemma addToGroup_contacts [simp]: "mc_contacts (addToGroup to mc) = mc_contacts mc"
  by (auto simp: addToGroup_def Let_def split: option.split)

lemma removeFromGroup_contacts [simp]: "mc_contacts (removeFromGroup g mc) = mc_contacts mc"
  by (auto simp: removeFromGroup_def Let_def split: option.split)

lemma setTemporary_parent:
  "mc_contacts (setTemporary True None mc) = mc_contacts mc" "mc_temporary (setTemporary True None mc)"
proof -
  have *: "mc_contacts (fold (\<lambda>g mc. if g \<noteq> TemporaryGroup then removeFromGroup (Some g) mc else mc) gs mc) = mc_contacts mc
      \<and> mc_temporary (fold (\<lambda>g mc. if g \<noteq> TemporaryGroup then removeFromGroup (Some g) mc else mc) gs mc) = mc_temporary mc"
    for gs and mc :: metaContact
    by (induction gs arbitrary: mc) (simp_all add: removeFromGroup_groups(2))
  show "mc_contacts (setTemporary True None mc) = mc_contacts mc" "mc_temporary (setTemporary True None mc)"
    by (simp_all add: setTemporary_def Let_def * addToGroup_groups(2))
qed

lemma mkMetaContact_fields:
  "mc_contacts mkMetaContact = []" "\<not> mc_temporary mkMetaContact" "\<not> mc_loading mkMetaContact" "mc_displayName mkMetaContact = []"
  by (simp_all add: mkMetaContact_def addToGroup_def emit_def syncAll_def)

text \<open>Naming the new meta contact takes the contacts of the one that has the name.\<close>

lemma newParent_takes_over:
  assumes own: "owned {} w" and fresh: "contactsOf w m = []" "m \<noteq> other" and name: "displayName \<noteq> []"
    and other: "other \<in> set (w_contacts w)" "\<not> mc_temporary (w_meta w other)" "mc_displayName (w_meta w other) = displayName"
      "mc_displayNameSource (w_meta w other) \<noteq> SourceContact" "contactsOf w other \<noteq> []"
    and only: "\<forall>x \<in> set (w_contacts w). mc_displayName (w_meta w x) = displayName \<longrightarrow> x = other"
  shows "\<exists>n v. (\<forall>k \<ge> n. newParent k displayName grp t m w = Some v) \<and> owned {} v
    \<and> contactsOf v m = contactsOf w other \<and> mc_temporary (w_meta v m) = t \<and> other \<notin> set (w_contacts v)"
proof -
  let ?v = "with_meta m (\<lambda>_. mkMetaContact) w"
  have same: "contactsOf ?v x = contactsOf w x" for x using fresh(1) by (simp add: mkMetaContact_fields)
  then have ownv: "owned {} ?v" using own by (simp add: owned_def)
  have src: "mc_displayNameSource (w_meta ?v other) \<noteq> SourceContact" using other(4) fresh(2) by simp
  obtain k u where u: "runCall k (MergeAll other m) ?v = Some u" "owned {} u" "calm ?v u"
    "contactsOf u m = contactsOf w other" "w_contacts u = removeAll other (w_contacts w)"
  proof -
    have "w_contacts ?v = w_contacts w" by simp
    then show ?thesis
      using merge_plain [OF ownv fresh(2) [symmetric] src, unfolded same fresh(1) append.simps] other(5) that by metis
  qed
  have "sameName m displayName ?v = Some other"
  proof -
    have "find (\<lambda>x. \<not> mc_temporary (w_meta ?v x) \<and> x \<noteq> m \<and> mc_displayName (w_meta ?v x) = displayName) (w_contacts ?v) = Some other"
    proof (rule find_unique)
      show "other \<in> set (w_contacts ?v)" using other(1) by simp
      show "\<not> mc_temporary (w_meta ?v other) \<and> other \<noteq> m \<and> mc_displayName (w_meta ?v other) = displayName"
        using other(2,3) fresh(2) by simp
      fix y
      assume "y \<in> set (w_contacts ?v)" "\<not> mc_temporary (w_meta ?v y) \<and> y \<noteq> m \<and> mc_displayName (w_meta ?v y) = displayName"
      then have "y \<in> set (w_contacts w)" "mc_displayName (w_meta w y) = displayName" by (simp_all split: if_splits)
      with only show "y = other" by blast
    qed
    then show ?thesis using name by (simp add: sameName_def mkMetaContact_fields)
  qed
  then have run: "runCall (Suc k) (SetDisplayName displayName m) ?v = Some (with_meta m (changeDisplayName displayName) u)"
    using name u(1) by (simp add: setDisplayNameBody_def mkMetaContact_fields del: fun_upd_apply) (simp add: mkMetaContact_fields)
  let ?g = "if t then setTemporary True None else addToGroup (Some grp)"
  let ?r = "with_meta m ?g (with_meta m (changeDisplayName displayName) u)"
  have tu: "\<not> mc_temporary (w_meta u m)" using u(3) mkMetaContact_fields(2) by (auto simp: calm_def quiet_def)
  have q: "mc_temporary (changeDisplayName displayName (w_meta u m)) = mc_temporary (w_meta u m)"
    by (simp add: changeDisplayName_def)
  have "mc_temporary (w_meta ?r m) = t"
    using tu q by (cases t) (simp_all add: setTemporary_parent addToGroup_groups(2))
  moreover have c: "contactsOf ?r x = contactsOf u x" for x
    by (cases t) (simp_all add: setTemporary_parent frame_simps)
  then have "owned {} ?r" using u(2) by (simp add: owned_def)
  moreover have "newParent j displayName grp t m w = Some ?r" if "Suc k \<le> j" for j
    using run_mono' [OF run that] name by (simp only: newParent_def Let_def simp_thms if_True option.map)
  ultimately show ?thesis using u(4,5) c [of m] by (intro exI [of _ "Suc k"] exI [of _ ?r]) simp
qed

lemma contactDeleted_world:
  "w_events (snd (fold contactDeleted cs (a, w))) = w_events w @ map ContactDeleted cs"
  "w_contacts (snd (fold contactDeleted cs (a, w))) = w_contacts w"
  by (induction cs arbitrary: a w) (simp_all add: contactDeleted_def announce_def)

lemma deleteMetaContact_world:
  "w_events (snd (deleteMetaContact m (a, w))) = w_events w @ map ContactDeleted (contactsOf w m)"
  "w_contacts (snd (deleteMetaContact m (a, w))) = w_contacts w"
  by (simp_all add: deleteMetaContact_def contactDeleted_world metaContactDestroyed_def)

text \<open>
  What a protocol promises of \<^verbatim>\<open>createContact\<close>: it creates contacts in the meta contact it is given and registers
  them; it takes none out, lists no meta contact and makes none permanent.
\<close>

definition createsIn :: "contactMaker \<Rightarrow> qstring \<Rightarrow> metaPtr \<Rightarrow> kaccount \<Rightarrow> bool" where
  "createsIn cm contactId m a \<longleftrightarrow>
     (\<forall>w. let (ok, b, v) = cm_createContact cm contactId m (a, w)
          in set (contactsOf w m) \<subseteq> set (contactsOf v m) \<and> w_contacts v = w_contacts w
             \<and> mc_temporary (w_meta v m) = mc_temporary (w_meta w m))"

text \<open>
  C18: A contact is added under a name that a meta contact of the list already has.  The new meta contact
  takes over the contacts of that one, which leaves the list.  When the protocol then fails to
  create the contact, the new meta contact is deleted, and with it all the contacts it took over, whose
  parent object it is: they are gone from the program.  When the protocol succeeds for a
  temporary contact, they are in a temporary meta contact, which is not saved.
\<close>

theorem adding_can_delete_contacts:
  assumes "owned {} w" "contactsOf w m = []" "m \<noteq> other" "displayName \<noteq> []"
    and "other \<in> set (w_contacts w)" "\<not> mc_temporary (w_meta w other)" "mc_displayName (w_meta w other) = displayName"
      "mc_displayNameSource (w_meta w other) \<noteq> SourceContact" "contactsOf w other \<noteq> []"
    and "\<forall>x \<in> set (w_contacts w). mc_displayName (w_meta w x) = displayName \<longrightarrow> x = other"
    and self: "addsMyself cm contactId a w = Some False" and new: "knownContact contactId a = None"
    and make: "createsIn cm contactId m a"
  shows "\<exists>n r b w'. (\<forall>k \<ge> n. accountAddContact k cm contactId displayName grp mode m (a, w) = Some (r, b, w'))
    \<and> other \<notin> set (w_contacts w')
    \<and> (case r of
         None \<Rightarrow> \<forall>c \<in> set (contactsOf w other). ContactDeleted c \<in> set (w_events w')
       | Some x \<Rightarrow> x = m \<and> set (contactsOf w other) \<subseteq> set (contactsOf w' m)
                   \<and> mc_temporary (w_meta w' m) = (mode = Temporary))"
proof -
  let ?g = "case grp of None \<Rightarrow> TopLevelGroup | Some g \<Rightarrow> g" and ?t = "mode = Temporary"
  obtain n v where v: "\<forall>k \<ge> n. newParent k displayName ?g ?t m w = Some v" "owned {} v"
    "contactsOf v m = contactsOf w other" "mc_temporary (w_meta v m) = ?t" "other \<notin> set (w_contacts v)"
    using newParent_takes_over [OF assms(1-10), of ?g ?t] by auto
  obtain ok b u where made: "cm_createContact cm contactId m (a, v) = (ok, b, u)" by (metis prod_cases3)
  have u: "set (contactsOf v m) \<subseteq> set (contactsOf u m)" "w_contacts u = w_contacts v"
    "mc_temporary (w_meta u m) = mc_temporary (w_meta v m)"
    using make [unfolded createsIn_def, rule_format, of v] by (simp_all add: made)
  have run: "accountAddContact k cm contactId displayName grp mode m (a, w)
      = (if ok then Some (Some m, b, addMetaContact m u) else Some (None, deleteMetaContact m (b, u)))"
    if "n \<le> k" for k
    using v(1) that self new made by (simp add: accountAddContact_def listedMeta_def Let_def)
  have "w_contacts (addMetaContact m u) = (if m \<in> set (w_contacts u) then w_contacts u else w_contacts u @ [m])"
    "w_meta (addMetaContact m u) = w_meta u"
    by (simp_all add: addMetaContact_def announce_def)
  note added = this
  show ?thesis
  proof (cases ok)
    case True
    have "other \<notin> set (w_contacts (addMetaContact m u))" using v(5) u(2) assms(3) added(1) by auto
    then show ?thesis
      using True run u v(3,4) added(2)
      by (intro exI [of _ n] exI [of _ "Some m"] exI [of _ b] exI [of _ "addMetaContact m u"]) simp
  next
    case False
    let ?d = "deleteMetaContact m (b, u)"
    have "\<forall>c \<in> set (contactsOf w other). ContactDeleted c \<in> set (w_events (snd ?d))"
      using u(1) v(3) by (auto simp: deleteMetaContact_world)
    moreover have "other \<notin> set (w_contacts (snd ?d))" using v(5) u(2) by (simp add: deleteMetaContact_world)
    ultimately show ?thesis
      using False run by (intro exI [of _ n] exI [of _ None] exI [of _ "fst ?d"] exI [of _ "snd ?d"]) simp
  qed
qed

text \<open>A protocol that makes the contact at address \<open>9\<close>, and then says that it failed, or not.\<close>

definition sampleMaker :: "bool \<Rightarrow> contactMaker" where
  "sampleMaker ok =
     \<lparr>cm_canAddMyself = True,
      cm_createContact = (\<lambda>i m (a, w).
        (ok, a\<lparr>ka_contacts := ka_contacts a @ [(i, 9)]\<rparr>,
         with_meta m (\<lambda>mc. mc\<lparr>mc_contacts := mc_contacts mc @ [9]\<rparr>)
           (w\<lparr>w_objects := with_contact 9 (\<lambda>_. newContactObject i 0 m (builtinStatus id Online)) (w_objects w)\<rparr>)))\<rparr>"

theorem adding_can_delete_contacts_witness:
  "\<exists>n r b w'. (\<forall>k \<ge> n. accountAddContact k (sampleMaker False) (qstr ''eve'') [0x42] None ChangeKABC 5 (sampleKAccount, bobWorld)
        = Some (r, b, w'))
    \<and> 1 \<notin> set (w_contacts w')
    \<and> (case r of
         None \<Rightarrow> \<forall>c \<in> set (contactsOf bobWorld 1). ContactDeleted c \<in> set (w_events w')
       | Some x \<Rightarrow> x = 5 \<and> set (contactsOf bobWorld 1) \<subseteq> set (contactsOf w' 5)
                   \<and> mc_temporary (w_meta w' 5) = (ChangeKABC = Temporary))"
proof -
  have m: "mc_displayNameSource mkMetaContact = SourceCustom"
    by (simp add: mkMetaContact_def addToGroup_def emit_def syncAll_def)
  show ?thesis
    by (rule adding_can_delete_contacts)
      (simp_all add: bobWorld_owned, simp_all add: bobWorld_def mkMetaContact_fields m addsMyself_def sampleMaker_def createsIn_def
        knownContact_def sampleKAccount_def newKAccount_def subset_insertI)
qed

end
