(* ===== verification/Kopete_Identity.thy ===== *)
theory Kopete_Identity
  imports Kopete_Account Kopete_MetaContact "HOL-Library.AList" "HOL-Library.Multiset"
begin

text \<open>
  Identities of \<^verbatim>\<open>libkopete\<close>: the accounts that appear as one person, with the presence of the
  most significant of them (\<^verbatim>\<open>kopeteidentity.cpp\<close>), the list of identities with its default, their
  storage (\<^verbatim>\<open>kopeteidentitymanager.cpp\<close>), and the choice of the identity of an account
  (\<^verbatim>\<open>Account::setIdentity\<close>).

  Accounts and identities are shared by pointer, so the operations work on one state for all of
  them.  What the code leaves undefined (an identity that is not there) is \<open>None\<close>.  Random
  identifiers and translated strings are data of the state.  The properties of an identity and the
  text of its tool tip are left out.
\<close>

subsection \<open>State\<close>

type_synonym identityPtr = nat

record identity =
  id_id :: qstring
  id_label :: qstring
  id_accounts :: "accountPtr list"
  id_onlineStatus :: StatusType
  id_statusMessage :: statusMessage
  id_listens :: "contactPtr list"

datatype worldEvent =
    IdentityChanged identityPtr
  | IdentityStatusChanged identityPtr
  | ToolTipChanged identityPtr
  | IdentityRegistered identityPtr
  | IdentityUnregistered identityPtr
  | IdentityDeleted identityPtr
  | DefaultIdentityChanged "identityPtr option"
  | AccountRegistered accountPtr
  | AccountUnregistered accountPtr
  | AccountDeleteLater accountPtr
  | AccountStatusChanged accountPtr onlineStatus onlineStatus
  | GlobalStatusChanged u32 statusMessage

record accountWorld =
  aw_objects :: objects
  aw_registry :: statusRegistry
  aw_i18n :: "qstring \<Rightarrow> qstring"
  aw_account :: "accountPtr \<Rightarrow> kaccount"
  aw_identity :: "identityPtr \<Rightarrow> identity"
  aw_identities :: "identityPtr list"
  aw_defaultIdentity :: "identityPtr option"
  aw_freshIdentity :: identityPtr
  aw_randomId :: "nat \<Rightarrow> qstring"
  aw_storedIdentities :: "(qstring \<times> qstring) list"
  aw_storedDefault :: qstring
  aw_worldEvents :: "worldEvent list"

abbreviation with_account :: "accountPtr \<Rightarrow> (kaccount \<Rightarrow> kaccount) \<Rightarrow> 'a accountWorld_scheme \<Rightarrow> 'a accountWorld_scheme" where
  "with_account p f w \<equiv> w\<lparr>aw_account := (aw_account w)(p := f (aw_account w p))\<rparr>"

abbreviation with_identity :: "identityPtr \<Rightarrow> (identity \<Rightarrow> identity) \<Rightarrow> 'a accountWorld_scheme \<Rightarrow> 'a accountWorld_scheme" where
  "with_identity i f w \<equiv> w\<lparr>aw_identity := (aw_identity w)(i := f (aw_identity w i))\<rparr>"

definition tell :: "worldEvent \<Rightarrow> 'a accountWorld_scheme \<Rightarrow> 'a accountWorld_scheme" where
  "tell e w = w\<lparr>aw_worldEvents := aw_worldEvents w @ [e]\<rparr>"

definition requestStatus ::
  "accountPtr \<Rightarrow> onlineStatus \<Rightarrow> statusMessage \<Rightarrow> 'a accountWorld_scheme \<Rightarrow> 'a accountWorld_scheme" where
  "requestStatus p s msg w = with_account p (emitAccount (RequestStatus s msg)) w"

definition ownContact :: "'a accountWorld_scheme \<Rightarrow> accountPtr \<Rightarrow> contactPtr option" where
  "ownContact w p = ka_myself (aw_account w p)"

subsection \<open>One identity\<close>

definition identityRecord :: "qstring \<Rightarrow> qstring \<Rightarrow> identity" where
  "identityRecord i l =
     \<lparr>id_id = i, id_label = l, id_accounts = [], id_onlineStatus = Unknown, id_statusMessage = noMessage,
      id_listens = []\<rparr>"

definition newIdentity :: "qstring \<Rightarrow> qstring \<Rightarrow> 'a accountWorld_scheme \<Rightarrow> identityPtr \<times> 'a accountWorld_scheme" where
  "newIdentity i l w =
     (let p = aw_freshIdentity w in (p, with_identity p (\<lambda>_. identityRecord i l) (w\<lparr>aw_freshIdentity := Suc p\<rparr>)))"

definition newIdentityLabelled :: "qstring \<Rightarrow> 'a accountWorld_scheme \<Rightarrow> identityPtr \<times> 'a accountWorld_scheme" where
  "newIdentityLabelled l w = newIdentity (aw_randomId w (aw_freshIdentity w)) l w"

definition setLabel :: "identityPtr \<Rightarrow> qstring \<Rightarrow> 'a accountWorld_scheme \<Rightarrow> 'a accountWorld_scheme" where
  "setLabel i l w = tell (IdentityChanged i) (with_identity i (\<lambda>d. d\<lparr>id_label := l\<rparr>) w)"

definition identityExcludeConnect :: "identityPtr \<Rightarrow> bool" where
  "identityExcludeConnect i = False"

text \<open>The status of the category is looked up before the account is asked whether it takes part.\<close>

fun setStatusOfAccounts ::
  "u32 \<Rightarrow> statusMessage \<Rightarrow> accountPtr list \<Rightarrow> 'a accountWorld_scheme \<Rightarrow> 'a accountWorld_scheme option" where
  "setStatusOfAccounts category msg [] w = Some w"
| "setStatusOfAccounts category msg (p # ps) w =
     (case onlineStatusFor (Some (ka_protocol (aw_account w p))) category (aw_registry w) of
        None \<Rightarrow> None
      | Some s \<Rightarrow> setStatusOfAccounts category msg ps
                   (if \<not> ka_excludeconnect (aw_account w p) then requestStatus p s msg w else w))"

definition identitySetOnlineStatus ::
  "u32 \<Rightarrow> statusMessage \<Rightarrow> identityPtr \<Rightarrow> 'a accountWorld_scheme \<Rightarrow> 'a accountWorld_scheme option" where
  "identitySetOnlineStatus category msg i w =
     (let w = with_identity i (\<lambda>d. d\<lparr>id_statusMessage := msg\<rparr>) w
      in setStatusOfAccounts category msg (id_accounts (aw_identity w i)) w)"

definition identitySetStatusMessage ::
  "statusMessage \<Rightarrow> identityPtr \<Rightarrow> 'a accountWorld_scheme \<Rightarrow> 'a accountWorld_scheme" where
  "identitySetStatusMessage msg i w =
     (let w = with_identity i (\<lambda>d. d\<lparr>id_statusMessage := msg\<rparr>) w
      in fold (\<lambda>p w. if \<not> ka_excludeconnect (aw_account w p)
                     then (case ownContact w p of
                             None \<Rightarrow> w
                           | Some self \<Rightarrow> requestStatus p (onlineStatusOf (aw_objects w) self) msg w)
                     else w) (id_accounts (aw_identity w i)) w)"

definition identityMostSignificant :: "'a accountWorld_scheme \<Rightarrow> accountPtr list \<Rightarrow> onlineStatus" where
  "identityMostSignificant w ps =
     fold (\<lambda>p best. case ownContact w p of
                      None \<Rightarrow> best
                    | Some self \<Rightarrow> if os_greater (onlineStatusOf (aw_objects w) self) best
                                  then onlineStatusOf (aw_objects w) self else best) ps emptyStatus"

definition identityUpdateOnlineStatus :: "identityPtr \<Rightarrow> 'a accountWorld_scheme \<Rightarrow> 'a accountWorld_scheme" where
  "identityUpdateOnlineStatus i w =
     (let newStatus = os_status (identityMostSignificant w (id_accounts (aw_identity w i)));
          w = (if newStatus \<noteq> id_onlineStatus (aw_identity w i)
               then tell (IdentityStatusChanged i) (with_identity i (\<lambda>d. d\<lparr>id_onlineStatus := newStatus\<rparr>) w) else w)
      in tell (ToolTipChanged i) w)"

text \<open>
  The identity listens to the own contact that the account has when it is added.  Removing the
  account does not end this: \<^verbatim>\<open>disconnect(account)\<close> ends the connections of the signals of the
  identity, and there are none to the account.
\<close>

definition identityAddAccount :: "identityPtr \<Rightarrow> accountPtr \<Rightarrow> 'a accountWorld_scheme \<Rightarrow> 'a accountWorld_scheme" where
  "identityAddAccount i p w =
     (if p \<in> set (id_accounts (aw_identity w i)) then w
      else
        let w = with_identity i (\<lambda>d. d\<lparr>id_accounts := id_accounts d @ [p]\<rparr>) w;
            w = (case ownContact w p of
                   None \<Rightarrow> w
                 | Some self \<Rightarrow> with_identity i (\<lambda>d. d\<lparr>id_listens := id_listens d @ [self]\<rparr>) w)
        in tell (ToolTipChanged i) (tell (IdentityChanged i) (identityUpdateOnlineStatus i w)))"

definition identityRemoveAccount :: "identityPtr \<Rightarrow> accountPtr \<Rightarrow> 'a accountWorld_scheme \<Rightarrow> 'a accountWorld_scheme" where
  "identityRemoveAccount i p w =
     (if p \<notin> set (id_accounts (aw_identity w i)) then w
      else
        let w = with_identity i (\<lambda>d. d\<lparr>id_accounts := removeAll p (id_accounts d)\<rparr>) w
        in tell (ToolTipChanged i) (tell (IdentityChanged i) (identityUpdateOnlineStatus i w)))"

text \<open>\<open>None\<close>: the code reads the identity it is given before it asks whether there is one.\<close>

definition setIdentity ::
  "accountPtr \<Rightarrow> identityPtr option \<Rightarrow> 'a accountWorld_scheme \<Rightarrow> (bool \<times> 'a accountWorld_scheme) option" where
  "setIdentity p ident w =
     (if ka_identity (aw_account w p) = ident then Some (False, w)
      else
        let w = (case ka_identity (aw_account w p) of None \<Rightarrow> w | Some old \<Rightarrow> identityRemoveAccount old p w)
        in case ident of
             None \<Rightarrow> None
           | Some i \<Rightarrow> let w = identityAddAccount i p w
                       in Some (True, with_account p (emitAccount (ConfigWritten ''Identity''))
                                        (with_account p (\<lambda>a. a\<lparr>ka_identity := Some i\<rparr>) w)))"

text \<open>A contact of an account has told that its status changed: each identity that listens is asked.\<close>

definition hearOwnStatus :: "contactPtr \<Rightarrow> identityPtr \<Rightarrow> 'a accountWorld_scheme \<Rightarrow> 'a accountWorld_scheme" where
  "hearOwnStatus self i w =
     fold (\<lambda>q w. if q = self then identityUpdateOnlineStatus i w else w) (id_listens (aw_identity w i)) w"

subsection \<open>The identities\<close>

definition managerSetOnlineStatus ::
  "u32 \<Rightarrow> statusMessage \<Rightarrow> 'a accountWorld_scheme \<Rightarrow> 'a accountWorld_scheme option" where
  "managerSetOnlineStatus category msg w =
     fold (\<lambda>i r. case r of
                   None \<Rightarrow> None
                 | Some w \<Rightarrow> if \<not> identityExcludeConnect i then identitySetOnlineStatus category msg i w else Some w)
       (aw_identities w) (Some w)"

definition findIdentity :: "qstring \<Rightarrow> 'a accountWorld_scheme \<Rightarrow> identityPtr option" where
  "findIdentity i w = find (\<lambda>p. id_id (aw_identity w p) = i) (aw_identities w)"

definition registerIdentity ::
  "identityPtr option \<Rightarrow> 'a accountWorld_scheme \<Rightarrow> identityPtr option \<times> 'a accountWorld_scheme" where
  "registerIdentity ident w =
     (case ident of
        None \<Rightarrow> (None, w)
      | Some i \<Rightarrow>
          if i \<in> set (aw_identities w) then (Some i, w)
          else if \<exists>j \<in> set (aw_identities w). id_id (aw_identity w i) = id_id (aw_identity w j)
          then (None, tell (IdentityDeleted i) w)
          else (Some i, tell (IdentityRegistered i) (w\<lparr>aw_identities := aw_identities w @ [i]\<rparr>)))"

definition unregisterIdentity :: "identityPtr \<Rightarrow> 'a accountWorld_scheme \<Rightarrow> 'a accountWorld_scheme" where
  "unregisterIdentity i w = tell (IdentityUnregistered i) (w\<lparr>aw_identities := removeAll i (aw_identities w)\<rparr>)"

text \<open>The configuration: one group for each stored identity, with its identifier and its label.\<close>

definition storeIdentity :: "identity \<Rightarrow> (qstring \<times> qstring) list \<Rightarrow> (qstring \<times> qstring) list" where
  "storeIdentity d gs = AList.update (id_id d) (id_label d) gs"

definition saveIdentities :: "'a accountWorld_scheme \<Rightarrow> 'a accountWorld_scheme option" where
  "saveIdentities w =
     (case aw_defaultIdentity w of
        None \<Rightarrow> None
      | Some d \<Rightarrow>
          Some (w\<lparr>aw_storedDefault := id_id (aw_identity w d),
                  aw_storedIdentities := fold (\<lambda>i. storeIdentity (aw_identity w i)) (aw_identities w) (aw_storedIdentities w)\<rparr>))"

definition setDefaultIdentity :: "identityPtr \<Rightarrow> 'a accountWorld_scheme \<Rightarrow> 'a accountWorld_scheme option" where
  "setDefaultIdentity i w =
     (if aw_defaultIdentity w = Some i then Some w
      else if i \<notin> set (aw_identities w) then Some w
      else map_option (tell (DefaultIdentityChanged (Some i))) (saveIdentities (w\<lparr>aw_defaultIdentity := Some i\<rparr>)))"

definition defaultLabel :: qstring where
  "defaultLabel = qstr ''Default Identity''"

definition defaultIdentity ::
  "'a accountWorld_scheme \<Rightarrow> (identityPtr option \<times> 'a accountWorld_scheme) option" where
  "defaultIdentity w =
     (let ident = (case aw_defaultIdentity w of None \<Rightarrow> None | Some d \<Rightarrow> findIdentity (id_id (aw_identity w d)) w)
      in if ident \<noteq> None then Some (ident, w)
         else if aw_defaultIdentity w = None
         then (let (i, w) = newIdentityLabelled (aw_i18n w defaultLabel) w;
                   (ident, w) = registerIdentity (Some i) w;
                   w = tell (DefaultIdentityChanged ident) w
               in case ident of
                    None \<Rightarrow> Some (None, w)
                  | Some i \<Rightarrow> map_option (\<lambda>w. (Some i, w)) (setDefaultIdentity i w))
         else (case aw_identities w of
                 [] \<Rightarrow> None
               | i # _ \<Rightarrow> map_option (\<lambda>w. (Some i, w)) (setDefaultIdentity i w)))"

text \<open>Deleting the identity clears the pointers of its accounts and takes it off the list once more.\<close>

definition deleteIdentity :: "identityPtr \<Rightarrow> 'a accountWorld_scheme \<Rightarrow> 'a accountWorld_scheme" where
  "deleteIdentity i w =
     (let w = unregisterIdentity i w
      in tell (IdentityDeleted i)
           (w\<lparr>aw_account := (\<lambda>p. let a = aw_account w p in if ka_identity a = Some i then a\<lparr>ka_identity := None\<rparr> else a)\<rparr>))"

definition removeIdentity :: "identityPtr \<Rightarrow> 'a accountWorld_scheme \<Rightarrow> 'a accountWorld_scheme" where
  "removeIdentity i w =
     (let w = w\<lparr>aw_identities := removeAll i (aw_identities w),
                aw_storedIdentities := AList.delete (id_id (aw_identity w i)) (aw_storedIdentities w)\<rparr>;
          w = (if aw_defaultIdentity w = Some i then w\<lparr>aw_defaultIdentity := None\<rparr> else w)
      in deleteIdentity i w)"

definition loadIdentity :: "qstring \<times> qstring \<Rightarrow> 'a accountWorld_scheme \<Rightarrow> 'a accountWorld_scheme" where
  "loadIdentity g w = (let (i, w) = newIdentity (fst g) (snd g) w in snd (registerIdentity (Some i) w))"

text \<open>\<open>groups\<close> are the groups of the configuration in the order in which it lists them.\<close>

definition loadIdentities ::
  "(qstring \<times> qstring) list \<Rightarrow> 'a accountWorld_scheme \<Rightarrow> (identityPtr option \<times> 'a accountWorld_scheme) option" where
  "loadIdentities groups w =
     (let w = fold loadIdentity groups w;
          w = (case findIdentity (aw_storedDefault w) w of
                 None \<Rightarrow> w
               | Some d \<Rightarrow> w\<lparr>aw_defaultIdentity := Some d\<rparr>)
      in defaultIdentity w)"

subsection \<open>Registries\<close>

text \<open>
  The managers of identities and of accounts keep a list of objects with a key, to which an object is
  added when it is acceptable and no object with its key is there, and from which objects are taken.
\<close>

locale key_registry =
  fixes elems :: "'w \<Rightarrow> 'p list" and key :: "'w \<Rightarrow> 'p \<Rightarrow> 'k" and acceptable :: "'w \<Rightarrow> 'p \<Rightarrow> bool"
    and enter :: "'p \<Rightarrow> 'w \<Rightarrow> 'w" and leave :: "'p \<Rightarrow> 'w \<Rightarrow> 'w"
  assumes enter_new: "acceptable w p \<Longrightarrow> key w p \<notin> key w ` set (elems w)
      \<Longrightarrow> mset (elems (enter p w)) = mset (p # elems w)"
    and enter_old: "\<not> acceptable w p \<or> key w p \<in> key w ` set (elems w) \<Longrightarrow> elems (enter p w) = elems w"
    and enter_key: "key (enter p w) = key w" "acceptable (enter p w) = acceptable w"
    and leave_elems: "mset (elems (leave p w)) = mset (removeAll p (elems w))"
    and leave_key: "key (leave p w) = key w"
begin

definition unique :: "'w \<Rightarrow> bool" where
  "unique w \<longleftrightarrow> distinct (map (key w) (elems w))"

lemma set_enter:
  "set (elems (enter p w))
    = (if acceptable w p \<and> key w p \<notin> key w ` set (elems w) then insert p (set (elems w)) else set (elems w))"
proof (cases "acceptable w p \<and> key w p \<notin> key w ` set (elems w)")
  case True
  then have "set (elems (enter p w)) = set (p # elems w)" by (intro mset_eq_setD enter_new) auto
  with True show ?thesis by simp
next
  case False
  then have "elems (enter p w) = elems w" by (intro enter_old) auto
  with False show ?thesis by auto
qed

lemma set_leave: "set (elems (leave p w)) = set (elems w) - {p}"
  using leave_elems [THEN mset_eq_setD] by simp

lemma unique_cong:
  assumes "mset (elems w') = mset (elems w)" "key w' = key w"
  shows "unique w' \<longleftrightarrow> unique w"
proof -
  have "mset (map (key w) (elems w')) = mset (map (key w) (elems w))" using assms(1) by simp
  from mset_eq_imp_distinct_iff [OF this] show ?thesis using assms(2) by (simp add: unique_def)
qed

lemma unique_enter:
  assumes "unique w"
  shows "unique (enter p w)"
proof (cases "acceptable w p \<and> key w p \<notin> key w ` set (elems w)")
  case True
  then have "mset (map (key w) (elems (enter p w))) = mset (map (key w) (p # elems w))"
    by (simp add: enter_new)
  then have "distinct (map (key w) (elems (enter p w))) \<longleftrightarrow> distinct (map (key w) (p # elems w))"
    by (rule mset_eq_imp_distinct_iff)
  with True assms show ?thesis by (simp add: unique_def enter_key)
next
  case False
  with assms show ?thesis by (auto simp: unique_def enter_old enter_key)
qed

lemma unique_leave:
  assumes "unique w"
  shows "unique (leave p w)"
proof -
  have "mset (map (key w) (elems (leave p w))) = mset (map (key w) (removeAll p (elems w)))"
    by (simp add: leave_elems)
  then have "distinct (map (key w) (elems (leave p w))) \<longleftrightarrow> distinct (map (key w) (removeAll p (elems w)))"
    by (rule mset_eq_imp_distinct_iff)
  with assms show ?thesis by (simp add: unique_def leave_key distinct_map_filter removeAll_filter_not_eq)
qed

text \<open>A search by key finds what is there, and nothing else.\<close>

lemma found_by_key:
  assumes "unique w"
  shows "find (\<lambda>p. key w p = k) (elems w) = Some p \<longleftrightarrow> p \<in> set (elems w) \<and> key w p = k"
proof
  assume "find (\<lambda>p. key w p = k) (elems w) = Some p"
  then show "p \<in> set (elems w) \<and> key w p = k" by (auto simp: find_Some_iff)
next
  assume p: "p \<in> set (elems w) \<and> key w p = k"
  then obtain q where q: "find (\<lambda>p. key w p = k) (elems w) = Some q"
    by (cases "find (\<lambda>p. key w p = k) (elems w)") (auto simp: find_None_iff)
  then have "q \<in> set (elems w)" "key w q = k" by (auto simp: find_Some_iff)
  with p assms have "q = p" by (auto simp: unique_def distinct_map inj_on_def)
  with q show "find (\<lambda>p. key w p = k) (elems w) = Some p" by simp
qed

text \<open>What is there after objects were entered: of each key the first that was acceptable.\<close>

lemma unique_entered: "unique w \<Longrightarrow> unique (fold enter ps w)"
  by (induction ps arbitrary: w) (simp_all add: unique_enter)

lemma key_entered: "key (fold enter ps w) = key w" "acceptable (fold enter ps w) = acceptable w"
  by (induction ps arbitrary: w) (simp_all add: enter_key)

lemma set_entered:
  "key w ` set (elems (fold enter ps w)) = key w ` set (elems w) \<union> key w ` {p \<in> set ps. acceptable w p}"
proof (induction ps arbitrary: w)
  case (Cons p ps)
  have "key w ` set (elems (fold enter (p # ps) w))
      = key w ` set (elems (enter p w)) \<union> key w ` {q \<in> set ps. acceptable w q}"
    using Cons [of "enter p w"] by (simp add: enter_key)
  then show ?case by (auto simp: set_enter split: if_splits)
qed auto

end

abbreviation identityId :: "'a accountWorld_scheme \<Rightarrow> identityPtr \<Rightarrow> qstring" where
  "identityId w i \<equiv> id_id (aw_identity w i)"

interpretation identities: key_registry
  "aw_identities :: 'a accountWorld_scheme \<Rightarrow> identityPtr list" identityId "\<lambda>_ _. True"
  "\<lambda>i w. snd (registerIdentity (Some i) w)" unregisterIdentity
  by unfold_locales (auto simp: registerIdentity_def unregisterIdentity_def tell_def)

subsection \<open>The presence of an identity\<close>

lemma identityMostSignificant_contacts:
  "identityMostSignificant w ps = mostSignificantStatus (aw_objects w) (List.map_filter (ownContact w) ps)"
proof -
  have "fold (\<lambda>p best. case ownContact w p of
               None \<Rightarrow> best
             | Some self \<Rightarrow> if os_greater (onlineStatusOf (aw_objects w) self) best
                           then onlineStatusOf (aw_objects w) self else best) ps b
      = fold (\<lambda>c best. if os_greater (onlineStatusOf (aw_objects w) c) best then onlineStatusOf (aw_objects w) c else best)
          (List.map_filter (ownContact w) ps) b" for b
    by (induction ps arbitrary: b) (simp_all add: map_filter_simps split: option.split)
  then show ?thesis by (simp add: identityMostSignificant_def mostSignificantStatus_def)
qed

definition bestStatus :: "'a accountWorld_scheme \<Rightarrow> accountPtr list \<Rightarrow> StatusType" where
  "bestStatus w ps = Max (insert Unknown ((\<lambda>c. os_status (onlineStatusOf (aw_objects w) c)) ` {c. \<exists>p \<in> set ps. ownContact w p = Some c}))"

lemma identityMostSignificant_best: "os_status (identityMostSignificant w ps) = bestStatus w ps"
proof -
  have "set (List.map_filter (ownContact w) ps) = {c. \<exists>p \<in> set ps. ownContact w p = Some c}"
    by (force simp: List.map_filter_def)
  then show ?thesis by (simp add: identityMostSignificant_contacts mostSignificant_max bestStatus_def)
qed

text \<open>The own contact of an account gets a status; when it differs, the identities hear of it.\<close>

definition ownStatusChanged :: "contactPtr \<Rightarrow> onlineStatus \<Rightarrow> 'a accountWorld_scheme \<Rightarrow> 'a accountWorld_scheme" where
  "ownStatusChanged self s w =
     (if os_eq s (c_onlineStatus (ob_contact (aw_objects w) self)) then w
      else fold (hearOwnStatus self) (aw_identities w) (w\<lparr>aw_objects := setContactOnlineStatus self s (aw_objects w)\<rparr>))"

inductive identity_step :: "'a accountWorld_scheme \<Rightarrow> 'a accountWorld_scheme \<Rightarrow> bool" where
  choose: "i \<in> set (aw_identities w) \<Longrightarrow> setIdentity p (Some i) w = Some (b, w') \<Longrightarrow> identity_step w w'"
| status: "identity_step w (ownStatusChanged self s w)"
| create: "newIdentityLabelled l w = (i, w') \<Longrightarrow> identity_step w (snd (registerIdentity (Some i) w'))"
| remove: "identity_step w (removeIdentity i w)"

definition identities_ok :: "'a accountWorld_scheme \<Rightarrow> bool" where
  "identities_ok w \<longleftrightarrow>
     (\<forall>i \<in> set (aw_identities w). i < aw_freshIdentity w
        \<and> distinct (id_accounts (aw_identity w i))
        \<and> (\<forall>p. p \<in> set (id_accounts (aw_identity w i)) \<longleftrightarrow> ka_identity (aw_account w p) = Some i)
        \<and> id_onlineStatus (aw_identity w i) = bestStatus w (id_accounts (aw_identity w i))
        \<and> (\<forall>p c. p \<in> set (id_accounts (aw_identity w i)) \<longrightarrow> ownContact w p = Some c \<longrightarrow> c \<in> set (id_listens (aw_identity w i))))
     \<and> (\<forall>p i. ka_identity (aw_account w p) = Some i \<longrightarrow> i \<in> set (aw_identities w))"

text \<open>What bringing the presence up to date changes.\<close>

lemma identityUpdateOnlineStatus_frame [simp]:
  "aw_objects (identityUpdateOnlineStatus i w) = aw_objects w"
  "aw_account (identityUpdateOnlineStatus i w) = aw_account w"
  "aw_identities (identityUpdateOnlineStatus i w) = aw_identities w"
  "aw_freshIdentity (identityUpdateOnlineStatus i w) = aw_freshIdentity w"
  "aw_defaultIdentity (identityUpdateOnlineStatus i w) = aw_defaultIdentity w"
  "aw_identity (identityUpdateOnlineStatus i w)
    = (aw_identity w)(i := (aw_identity w i)\<lparr>id_onlineStatus := bestStatus w (id_accounts (aw_identity w i))\<rparr>)"
  by (auto simp: identityUpdateOnlineStatus_def tell_def identityMostSignificant_best Let_def)

lemma tell_frame [simp]:
  "aw_objects (tell e w) = aw_objects w" "aw_account (tell e w) = aw_account w"
  "aw_identity (tell e w) = aw_identity w" "aw_identities (tell e w) = aw_identities w"
  "aw_freshIdentity (tell e w) = aw_freshIdentity w" "aw_defaultIdentity (tell e w) = aw_defaultIdentity w"
  "aw_storedIdentities (tell e w) = aw_storedIdentities w" "aw_storedDefault (tell e w) = aw_storedDefault w"
  "aw_i18n (tell e w) = aw_i18n w" "aw_randomId (tell e w) = aw_randomId w" "aw_registry (tell e w) = aw_registry w"
  by (simp_all add: tell_def)

lemma bestStatus_cong:
  assumes "\<And>p. p \<in> set ps \<Longrightarrow> ownContact w p = ownContact w' p"
    and "\<And>p c. p \<in> set ps \<Longrightarrow> ownContact w' p = Some c
      \<Longrightarrow> onlineStatusOf (aw_objects w) c = onlineStatusOf (aw_objects w') c"
  shows "bestStatus w ps = bestStatus w' ps"
proof -
  have c: "{c. \<exists>p \<in> set ps. ownContact w p = Some c} = {c. \<exists>p \<in> set ps. ownContact w' p = Some c}"
    using assms(1) by auto
  have "(\<lambda>c. os_status (onlineStatusOf (aw_objects w) c)) ` {c. \<exists>p \<in> set ps. ownContact w' p = Some c}
      = (\<lambda>c. os_status (onlineStatusOf (aw_objects w') c)) ` {c. \<exists>p \<in> set ps. ownContact w' p = Some c}"
    using assms(2) by (intro image_cong) auto
  with c show ?thesis by (simp add: bestStatus_def)
qed

lemma ownContact_frame [simp]:
  "ownContact (w\<lparr>aw_identity := f\<rparr>) = ownContact w" "ownContact (tell e w) = ownContact w"
  "ownContact (w\<lparr>aw_objects := ob\<rparr>) = ownContact w" "ownContact (identityUpdateOnlineStatus i w) = ownContact w"
  by (auto simp: ownContact_def fun_eq_iff)

lemma bestStatus_frame [simp]:
  "bestStatus (w\<lparr>aw_identity := f\<rparr>) = bestStatus w" "bestStatus (tell e w) = bestStatus w"
  "bestStatus (identityUpdateOnlineStatus i w) = bestStatus w"
  by (auto simp: bestStatus_def fun_eq_iff)

lemma identityAddAccount_frame [simp]:
  "aw_objects (identityAddAccount i p w) = aw_objects w" "aw_account (identityAddAccount i p w) = aw_account w"
  "aw_identities (identityAddAccount i p w) = aw_identities w"
  "aw_freshIdentity (identityAddAccount i p w) = aw_freshIdentity w"
  "bestStatus (identityAddAccount i p w) = bestStatus w" "ownContact (identityAddAccount i p w) = ownContact w"
  by (auto simp: identityAddAccount_def Let_def bestStatus_def ownContact_def fun_eq_iff split: option.split)

lemma identityRemoveAccount_frame [simp]:
  "aw_objects (identityRemoveAccount i p w) = aw_objects w" "aw_account (identityRemoveAccount i p w) = aw_account w"
  "aw_identities (identityRemoveAccount i p w) = aw_identities w"
  "aw_freshIdentity (identityRemoveAccount i p w) = aw_freshIdentity w"
  "bestStatus (identityRemoveAccount i p w) = bestStatus w" "ownContact (identityRemoveAccount i p w) = ownContact w"
  by (auto simp: identityRemoveAccount_def Let_def bestStatus_def ownContact_def fun_eq_iff)

lemma identityAddAccount_identity:
  "p \<notin> set (id_accounts (aw_identity w i)) \<Longrightarrow>
    aw_identity (identityAddAccount i p w) = (aw_identity w)
      (i := (aw_identity w i)\<lparr>id_accounts := id_accounts (aw_identity w i) @ [p],
           id_listens := id_listens (aw_identity w i) @ (case ownContact w p of None \<Rightarrow> [] | Some self \<Rightarrow> [self]),
           id_onlineStatus := bestStatus w (id_accounts (aw_identity w i) @ [p])\<rparr>)"
  by (auto simp: identityAddAccount_def Let_def fun_eq_iff split: option.split)

lemma identityRemoveAccount_identity:
  "p \<in> set (id_accounts (aw_identity w i)) \<Longrightarrow>
    aw_identity (identityRemoveAccount i p w) = (aw_identity w)
      (i := (aw_identity w i)\<lparr>id_accounts := removeAll p (id_accounts (aw_identity w i)),
           id_onlineStatus := bestStatus w (removeAll p (id_accounts (aw_identity w i)))\<rparr>)"
  by (auto simp: identityRemoveAccount_def Let_def fun_eq_iff)

lemma setIdentity_result:
  assumes ok: "identities_ok w" and i: "i \<in> set (aw_identities w)" and new: "ka_identity (aw_account w p) \<noteq> Some i"
    and r: "setIdentity p (Some i) w = Some (b, w')"
  shows "aw_identities w' = aw_identities w" "aw_freshIdentity w' = aw_freshIdentity w"
    "ka_identity (aw_account w' q) = (if q = p then Some i else ka_identity (aw_account w q))"
    "ownContact w' = ownContact w" "aw_objects w' = aw_objects w"
    "aw_identity w' j =
      (if j = i then (aw_identity w i)\<lparr>id_accounts := id_accounts (aw_identity w i) @ [p],
           id_listens := id_listens (aw_identity w i) @ (case ownContact w p of None \<Rightarrow> [] | Some self \<Rightarrow> [self]),
           id_onlineStatus := bestStatus w (id_accounts (aw_identity w i) @ [p])\<rparr>
       else if ka_identity (aw_account w p) = Some j
       then (aw_identity w j)\<lparr>id_accounts := removeAll p (id_accounts (aw_identity w j)),
           id_onlineStatus := bestStatus w (removeAll p (id_accounts (aw_identity w j)))\<rparr>
       else aw_identity w j)"
proof -
  define w1 where "w1 = (case ka_identity (aw_account w p) of None \<Rightarrow> w | Some old \<Rightarrow> identityRemoveAccount old p w)"
  have w': "w' = with_account p (emitAccount (ConfigWritten ''Identity''))
                   (with_account p (\<lambda>a. a\<lparr>ka_identity := Some i\<rparr>) (identityAddAccount i p w1))"
    using r new by (auto simp: setIdentity_def w1_def Let_def)
  have f1: "aw_objects w1 = aw_objects w" "aw_account w1 = aw_account w" "aw_identities w1 = aw_identities w"
    "aw_freshIdentity w1 = aw_freshIdentity w" "bestStatus w1 = bestStatus w" "ownContact w1 = ownContact w"
    by (auto simp: w1_def split: option.split)
  have i1: "aw_identity w1 j = (if ka_identity (aw_account w p) = Some j
      then (aw_identity w j)\<lparr>id_accounts := removeAll p (id_accounts (aw_identity w j)),
           id_onlineStatus := bestStatus w (removeAll p (id_accounts (aw_identity w j)))\<rparr>
      else aw_identity w j)" for j
  proof (cases "ka_identity (aw_account w p)")
    case (Some old)
    then have "p \<in> set (id_accounts (aw_identity w old))" using ok by (auto simp: identities_ok_def)
    with Some show ?thesis by (simp add: w1_def identityRemoveAccount_identity)
  qed (simp add: w1_def)
  have "p \<notin> set (id_accounts (aw_identity w1 i))" using ok i new by (auto simp: i1 identities_ok_def)
  then have i2: "aw_identity w' j = ((aw_identity w1)
      (i := (aw_identity w1 i)\<lparr>id_accounts := id_accounts (aw_identity w1 i) @ [p],
           id_listens := id_listens (aw_identity w1 i) @ (case ownContact w1 p of None \<Rightarrow> [] | Some self \<Rightarrow> [self]),
           id_onlineStatus := bestStatus w1 (id_accounts (aw_identity w1 i) @ [p])\<rparr>)) j"
    by (simp add: w' identityAddAccount_identity)
  show "aw_identity w' j =
      (if j = i then (aw_identity w i)\<lparr>id_accounts := id_accounts (aw_identity w i) @ [p],
           id_listens := id_listens (aw_identity w i) @ (case ownContact w p of None \<Rightarrow> [] | Some self \<Rightarrow> [self]),
           id_onlineStatus := bestStatus w (id_accounts (aw_identity w i) @ [p])\<rparr>
       else if ka_identity (aw_account w p) = Some j
       then (aw_identity w j)\<lparr>id_accounts := removeAll p (id_accounts (aw_identity w j)),
           id_onlineStatus := bestStatus w (removeAll p (id_accounts (aw_identity w j)))\<rparr>
       else aw_identity w j)"
    using new by (simp add: i2 i1 f1)
  show "aw_identities w' = aw_identities w" "aw_freshIdentity w' = aw_freshIdentity w" "aw_objects w' = aw_objects w"
    "ka_identity (aw_account w' q) = (if q = p then Some i else ka_identity (aw_account w q))"
    "ownContact w' = ownContact w"
    by (auto simp: w' f1 emitAccount_def ownContact_def fun_eq_iff)
qed

lemma bestStatus_same:
  "ownContact w = ownContact w' \<Longrightarrow> aw_objects w = aw_objects w' \<Longrightarrow> bestStatus w = bestStatus w'"
  by (auto simp: bestStatus_def fun_eq_iff)

lemma identities_ok_choose:
  assumes ok: "identities_ok w" and i: "i \<in> set (aw_identities w)" and r: "setIdentity p (Some i) w = Some (b, w')"
  shows "identities_ok w'"
proof (cases "ka_identity (aw_account w p) = Some i")
  case True
  with r ok show ?thesis by (simp add: setIdentity_def)
next
  case False
  note res = setIdentity_result [OF ok i False r]
  have best: "bestStatus w' = bestStatus w" by (rule bestStatus_same) (simp_all add: res)
  have p: "p \<notin> set (id_accounts (aw_identity w i))" using ok i False by (auto simp: identities_ok_def)
  have "j < aw_freshIdentity w
      \<and> distinct (id_accounts (aw_identity w' j))
      \<and> (\<forall>q. q \<in> set (id_accounts (aw_identity w' j)) \<longleftrightarrow> (if q = p then Some i else ka_identity (aw_account w q)) = Some j)
      \<and> id_onlineStatus (aw_identity w' j) = bestStatus w (id_accounts (aw_identity w' j))
      \<and> (\<forall>q c. q \<in> set (id_accounts (aw_identity w' j)) \<longrightarrow> ownContact w q = Some c \<longrightarrow> c \<in> set (id_listens (aw_identity w' j)))"
    if j: "j \<in> set (aw_identities w)" for j
  proof (cases "j = i")
    case True
    then show ?thesis using ok i p unfolding identities_ok_def by (auto simp: res(6))
  next
    case jn: False
    show ?thesis
    proof (cases "ka_identity (aw_account w p) = Some j")
      case True
      then show ?thesis using ok j jn unfolding identities_ok_def by (auto simp: res(6) distinct_removeAll)
    next
      case False
      then have "aw_identity w' j = aw_identity w j" using jn by (simp add: res(6))
      then show ?thesis using ok j jn False unfolding identities_ok_def by auto
    qed
  qed
  moreover have "\<forall>q j. (if q = p then Some i else ka_identity (aw_account w q)) = Some j \<longrightarrow> j \<in> set (aw_identities w)"
    using ok i by (auto simp: identities_ok_def)
  ultimately show ?thesis by (simp add: identities_ok_def res(1-5) best)
qed

lemma hearOwnStatus_frame [simp]:
  "aw_objects (hearOwnStatus c i w) = aw_objects w" "aw_account (hearOwnStatus c i w) = aw_account w"
  "aw_identities (hearOwnStatus c i w) = aw_identities w" "aw_freshIdentity (hearOwnStatus c i w) = aw_freshIdentity w"
  "bestStatus (hearOwnStatus c i w) = bestStatus w" "ownContact (hearOwnStatus c i w) = ownContact w"
proof -
  have "aw_objects (fold (\<lambda>q w. if q = c then identityUpdateOnlineStatus i w else w) qs w) = aw_objects w
    \<and> aw_account (fold (\<lambda>q w. if q = c then identityUpdateOnlineStatus i w else w) qs w) = aw_account w
    \<and> aw_identities (fold (\<lambda>q w. if q = c then identityUpdateOnlineStatus i w else w) qs w) = aw_identities w
    \<and> aw_freshIdentity (fold (\<lambda>q w. if q = c then identityUpdateOnlineStatus i w else w) qs w) = aw_freshIdentity w"
    for qs by (induction qs arbitrary: w) simp_all
  then show "aw_objects (hearOwnStatus c i w) = aw_objects w" "aw_account (hearOwnStatus c i w) = aw_account w"
    "aw_identities (hearOwnStatus c i w) = aw_identities w" "aw_freshIdentity (hearOwnStatus c i w) = aw_freshIdentity w"
    "bestStatus (hearOwnStatus c i w) = bestStatus w" "ownContact (hearOwnStatus c i w) = ownContact w"
    by (auto simp: hearOwnStatus_def bestStatus_def ownContact_def fun_eq_iff)
qed

lemma hearOwnStatus_identity:
  "aw_identity (hearOwnStatus c i w)
    = (if c \<in> set (id_listens (aw_identity w i))
       then (aw_identity w)(i := (aw_identity w i)\<lparr>id_onlineStatus := bestStatus w (id_accounts (aw_identity w i))\<rparr>)
       else aw_identity w)"
proof -
  have "aw_identity (fold (\<lambda>q w. if q = c then identityUpdateOnlineStatus i w else w) qs w)
    = (if c \<in> set qs
       then (aw_identity w)(i := (aw_identity w i)\<lparr>id_onlineStatus := bestStatus w (id_accounts (aw_identity w i))\<rparr>)
       else aw_identity w)" for qs
    by (induction qs arbitrary: w) auto
  then show ?thesis by (simp add: hearOwnStatus_def)
qed

lemma fold_hearOwnStatus:
  "aw_objects (fold (hearOwnStatus c) is w) = aw_objects w" "aw_account (fold (hearOwnStatus c) is w) = aw_account w"
  "aw_identities (fold (hearOwnStatus c) is w) = aw_identities w"
  "aw_freshIdentity (fold (hearOwnStatus c) is w) = aw_freshIdentity w"
  "bestStatus (fold (hearOwnStatus c) is w) = bestStatus w" "ownContact (fold (hearOwnStatus c) is w) = ownContact w"
  "aw_identity (fold (hearOwnStatus c) is w) j
    = (if j \<in> set is \<and> c \<in> set (id_listens (aw_identity w j))
       then (aw_identity w j)\<lparr>id_onlineStatus := bestStatus w (id_accounts (aw_identity w j))\<rparr> else aw_identity w j)"
  by (induction "is" arbitrary: w) (auto simp: hearOwnStatus_identity)

lemma onlineStatusOf_other:
  "q \<noteq> p \<Longrightarrow> onlineStatusOf (setContactOnlineStatus p s ob) q = onlineStatusOf ob q"
  by (simp add: onlineStatusOf_def setContactOnlineStatus_other)

lemma identities_ok_status:
  assumes "identities_ok w"
  shows "identities_ok (ownStatusChanged c s w)"
proof (cases "os_eq s (c_onlineStatus (ob_contact (aw_objects w) c))")
  case False
  let ?w = "w\<lparr>aw_objects := setContactOnlineStatus c s (aw_objects w)\<rparr>"
  have same: "bestStatus ?w (id_accounts (aw_identity w j)) = bestStatus w (id_accounts (aw_identity w j))"
    if "j \<in> set (aw_identities w)" "c \<notin> set (id_listens (aw_identity w j))" for j
  proof (rule bestStatus_cong)
    fix p d
    assume "p \<in> set (id_accounts (aw_identity w j))" "ownContact w p = Some d"
    with that assms have "d \<noteq> c" by (auto simp: identities_ok_def)
    then show "onlineStatusOf (aw_objects ?w) d = onlineStatusOf (aw_objects w) d" by (simp add: onlineStatusOf_other)
  qed simp
  show ?thesis
    using assms same False
    by (simp add: identities_ok_def ownStatusChanged_def fold_hearOwnStatus)
qed (use assms in \<open>simp add: ownStatusChanged_def\<close>)

lemma identities_ok_create:
  assumes ok: "identities_ok w" and n: "newIdentityLabelled l w = (i, w')"
  shows "identities_ok (snd (registerIdentity (Some i) w'))"
proof -
  let ?n = "aw_freshIdentity w"
  have i: "i = ?n" and w': "w' = with_identity ?n (\<lambda>_. identityRecord (aw_randomId w ?n) l) (w\<lparr>aw_freshIdentity := Suc ?n\<rparr>)"
    using n by (auto simp: newIdentityLabelled_def newIdentity_def Let_def)
  have fresh: "?n \<notin> set (aw_identities w)" and none: "ka_identity (aw_account w p) \<noteq> Some ?n" for p
    using ok by (auto simp: identities_ok_def)
  have best: "bestStatus (snd (registerIdentity (Some i) w')) = bestStatus w" "ownContact (snd (registerIdentity (Some i) w')) = ownContact w"
    by (auto simp: registerIdentity_def w' bestStatus_def ownContact_def fun_eq_iff)
  have old: "j < Suc ?n \<and> j \<noteq> ?n" if "j \<in> set (aw_identities w)" for j
    using that ok by (auto simp: identities_ok_def)
  have empty: "bestStatus w [] = Unknown" by (simp add: bestStatus_def)
  have "identities_ok (snd (registerIdentity (Some i) w'))"
    if "set (aw_identities (snd (registerIdentity (Some i) w'))) \<subseteq> insert ?n (set (aw_identities w))"
      "set (aw_identities w) \<subseteq> set (aw_identities (snd (registerIdentity (Some i) w')))"
  proof -
    have [simp]: "aw_freshIdentity (snd (registerIdentity (Some i) w')) = Suc ?n"
      "aw_account (snd (registerIdentity (Some i) w')) = aw_account w"
      "aw_identity (snd (registerIdentity (Some i) w')) = (aw_identity w)(?n := identityRecord (aw_randomId w ?n) l)"
      by (auto simp: registerIdentity_def w')
    show ?thesis
      unfolding identities_ok_def best
      using that ok old none empty
      by (auto simp: identities_ok_def identityRecord_def) 
  qed
  moreover have "set (aw_identities (snd (registerIdentity (Some i) w'))) \<subseteq> insert ?n (set (aw_identities w))"
    "set (aw_identities w) \<subseteq> set (aw_identities (snd (registerIdentity (Some i) w')))"
    by (auto simp: registerIdentity_def w' i)
  ultimately show ?thesis by blast
qed

lemma removeIdentity_frame:
  "aw_identities (removeIdentity i w) = removeAll i (aw_identities w)"
  "aw_freshIdentity (removeIdentity i w) = aw_freshIdentity w"
  "aw_identity (removeIdentity i w) = aw_identity w"
  "ka_identity (aw_account (removeIdentity i w) p)
    = (if ka_identity (aw_account w p) = Some i then None else ka_identity (aw_account w p))"
  "bestStatus (removeIdentity i w) = bestStatus w" "ownContact (removeIdentity i w) = ownContact w"
  "aw_defaultIdentity (removeIdentity i w) = (if aw_defaultIdentity w = Some i then None else aw_defaultIdentity w)"
  by (auto simp: removeIdentity_def deleteIdentity_def unregisterIdentity_def bestStatus_def ownContact_def fun_eq_iff Let_def)

lemma identities_ok_remove: "identities_ok w \<Longrightarrow> identities_ok (removeIdentity i w)"
  by (auto simp: identities_ok_def removeIdentity_frame)

lemma identities_ok_steps: "identity_step\<^sup>*\<^sup>* w w' \<Longrightarrow> identities_ok w \<Longrightarrow> identities_ok w'"
proof (induction rule: rtranclp_induct)
  case (step v v')
  from step(2) step(3) [OF step(4)] show ?case
    by cases (auto intro: identities_ok_choose identities_ok_status identities_ok_create identities_ok_remove)
qed

text \<open>
  C11: However identities are created and removed, accounts move between them and the accounts' own
  statuses change: an identity lists an account, once, just when the account points to it; every
  pointer is to an identity of the manager; and the presence of each identity is that of the most
  present of its accounts (unknown, when it has none).
\<close>

theorem identity_shows_its_accounts:
  assumes "identity_step\<^sup>*\<^sup>* w w'" "aw_identities w = []" "\<forall>p. ka_identity (aw_account w p) = None"
  shows "(\<forall>i \<in> set (aw_identities w').
        distinct (id_accounts (aw_identity w' i))
      \<and> (\<forall>p. p \<in> set (id_accounts (aw_identity w' i)) \<longleftrightarrow> ka_identity (aw_account w' p) = Some i)
      \<and> id_onlineStatus (aw_identity w' i)
        = Max (insert Unknown ((\<lambda>c. os_status (onlineStatusOf (aw_objects w') c))
             ` {c. \<exists>p \<in> set (id_accounts (aw_identity w' i)). ownContact w' p = Some c})))
    \<and> (\<forall>p i. ka_identity (aw_account w' p) = Some i \<longrightarrow> i \<in> set (aw_identities w'))"
proof -
  have "identities_ok w" using assms(2,3) by (simp add: identities_ok_def)
  with identities_ok_steps [OF assms(1)] show ?thesis by (auto simp: identities_ok_def bestStatus_def)
qed

definition sampleWorld :: accountWorld where
  "sampleWorld =
     \<lparr>aw_objects = sampleObjects, aw_registry = (\<lambda>_. []), aw_i18n = id,
      aw_account = (\<lambda>p. sampleKAccount\<lparr>ka_myself := Some p\<rparr>), aw_identity = (\<lambda>_. identityRecord [] []), aw_identities = [],
      aw_defaultIdentity = None, aw_freshIdentity = 0, aw_randomId = (\<lambda>n. replicate n 0x61), aw_storedIdentities = [],
      aw_storedDefault = [], aw_worldEvents = []\<rparr>"

definition sampleCreated :: accountWorld where
  "sampleCreated = snd (registerIdentity (Some 0) (snd (newIdentityLabelled (qstr ''Home'') sampleWorld)))"

definition sampleChosen :: accountWorld where
  "sampleChosen = ownStatusChanged 5 (builtinStatus id Away) (snd (the (setIdentity 5 (Some 0) sampleCreated)))"

lemma sample_steps: "identity_step\<^sup>*\<^sup>* sampleWorld sampleChosen"
proof -
  have a: "identity_step sampleWorld sampleCreated"
    unfolding sampleCreated_def
    by (rule identity_step.create [where l = "qstr ''Home''"])
      (simp add: newIdentityLabelled_def newIdentity_def Let_def sampleWorld_def)
  have "0 \<in> set (aw_identities sampleCreated)"
    by (simp add: sampleCreated_def sampleWorld_def newIdentityLabelled_def newIdentity_def registerIdentity_def Let_def)
  moreover have "\<exists>b. setIdentity 5 (Some 0) sampleCreated = Some (b, snd (the (setIdentity 5 (Some 0) sampleCreated)))"
    by (auto simp: setIdentity_def Let_def)
  ultimately have b: "identity_step sampleCreated (snd (the (setIdentity 5 (Some 0) sampleCreated)))"
    by (auto intro: identity_step.choose)
  have "identity_step (snd (the (setIdentity 5 (Some 0) sampleCreated))) sampleChosen"
    unfolding sampleChosen_def by (rule identity_step.status)
  with a b show ?thesis by (meson rtranclp.rtrancl_refl rtranclp.rtrancl_into_rtrancl)
qed

lemma sample_fields:
  "aw_identities sampleChosen = [0]" "ka_identity (aw_account sampleChosen 5) = Some 0"
  by (simp_all add: sampleChosen_def ownStatusChanged_def fold_hearOwnStatus setIdentity_def sampleCreated_def Let_def
      newIdentityLabelled_def newIdentity_def registerIdentity_def sampleWorld_def emitAccount_def sampleKAccount_def newKAccount_def
      split: if_split)

theorem identity_shows_its_accounts_witness:
  "5 \<in> set (id_accounts (aw_identity sampleChosen 0))
    \<and> id_onlineStatus (aw_identity sampleChosen 0)
      = Max (insert Unknown ((\<lambda>c. os_status (onlineStatusOf (aw_objects sampleChosen) c))
           ` {c. \<exists>p \<in> set (id_accounts (aw_identity sampleChosen 0)). ownContact sampleChosen p = Some c}))"
proof -
  have "aw_identities sampleWorld = []" "\<forall>p. ka_identity (aw_account sampleWorld p) = None"
    by (simp_all add: sampleWorld_def sampleKAccount_def newKAccount_def)
  note t = identity_shows_its_accounts [OF sample_steps this]
  show ?thesis using t sample_fields by auto
qed

subsection \<open>Storing the identities\<close>

abbreviation entryOf :: "'a accountWorld_scheme \<Rightarrow> identityPtr \<Rightarrow> qstring \<times> qstring" where
  "entryOf w i \<equiv> (id_id (aw_identity w i), id_label (aw_identity w i))"

lemma map_of_storeIdentity: "map_of (storeIdentity d gs) = (map_of gs)(id_id d \<mapsto> id_label d)"
  by (simp add: storeIdentity_def update_conv')

lemma map_of_stored:
  "distinct (map fst (map (entryOf w) is)) \<Longrightarrow>
    map_of (fold (\<lambda>i. storeIdentity (aw_identity w i)) is gs) = map_of gs ++ map_of (map (entryOf w) is)"
proof (induction "is" arbitrary: gs)
  case (Cons i "is")
  have "map_of (fold (\<lambda>i. storeIdentity (aw_identity w i)) is (storeIdentity (aw_identity w i) gs))
      = map_of (storeIdentity (aw_identity w i) gs) ++ map_of (map (entryOf w) is)"
    using Cons by simp
  moreover have "map_of (map (entryOf w) is) (identityId w i) = None"
    using Cons.prems by (auto simp: map_of_eq_None_iff)
  ultimately show ?case
    by (auto simp: map_of_storeIdentity map_add_def fun_eq_iff split: option.split)
qed simp

lemma distinct_stored:
  "distinct (map fst gs) \<Longrightarrow> distinct (map fst (fold (\<lambda>i. storeIdentity (aw_identity w i)) is gs))"
  by (induction "is" arbitrary: gs) (simp_all add: storeIdentity_def distinct_update)

lemma stored_entries:
  assumes "distinct (map (identityId w) is)" "distinct (map fst gs)" "fst ` set gs \<subseteq> identityId w ` set is"
  shows "mset (fold (\<lambda>i. storeIdentity (aw_identity w i)) is gs) = mset (map (entryOf w) is)"
proof -
  let ?s = "fold (\<lambda>i. storeIdentity (aw_identity w i)) is gs"
  have d: "distinct (map fst (map (entryOf w) is))" using assms(1) by (simp add: comp_def)
  have "map_of gs k = None" if "map_of (map (entryOf w) is) k = None" for k
    using that assms(3) by (simp add: map_of_eq_None_iff image_image) blast
  then have "map_of gs ++ map_of (map (entryOf w) is) = map_of (map (entryOf w) is)"
    by (auto simp: map_add_def fun_eq_iff split: option.split)
  then have "map_of ?s = map_of (map (entryOf w) is)" by (simp only: map_of_stored [OF d])
  then have "set ?s = set (map (entryOf w) is)"
    using set_map_of_compr [OF distinct_stored [OF assms(2), of w "is"]] set_map_of_compr [OF d] by simp
  moreover have "distinct ?s" "distinct (map (entryOf w) is)"
    using distinct_stored [OF assms(2), of w "is"] d distinct_map by blast+
  ultimately show ?thesis by (simp only: set_eq_iff_mset_eq_distinct)
qed

text \<open>The identities as the configuration sees them.\<close>

definition entries :: "'a accountWorld_scheme \<Rightarrow> (qstring \<times> qstring) list" where
  "entries w = map (entryOf w) (aw_identities w)"

lemma fst_entries: "map fst (entries w) = map (identityId w) (aw_identities w)"
  by (simp add: entries_def)

lemma ids_entries: "identityId w ` set (aw_identities w) = fst ` set (entries w)"
  by (simp add: entries_def image_image)

lemma loadIdentity_new:
  assumes "\<forall>i \<in> set (aw_identities w). i < aw_freshIdentity w" "fst g \<notin> fst ` set (entries w)"
  shows "entries (loadIdentity g w) = entries w @ [g]"
    "\<forall>i \<in> set (aw_identities (loadIdentity g w)). i < aw_freshIdentity (loadIdentity g w)"
    "aw_storedDefault (loadIdentity g w) = aw_storedDefault w"
proof -
  have "aw_freshIdentity w \<notin> set (aw_identities w)" using assms(1) by auto
  moreover have "fst g \<noteq> identityId w i" if "i \<in> set (aw_identities w)" for i using assms(2) that by (auto simp flip: ids_entries)
  ultimately have *: "loadIdentity g w = tell (IdentityRegistered (aw_freshIdentity w))
      (w\<lparr>aw_freshIdentity := Suc (aw_freshIdentity w),
         aw_identity := (aw_identity w)(aw_freshIdentity w := identityRecord (fst g) (snd g)),
         aw_identities := aw_identities w @ [aw_freshIdentity w]\<rparr>)"
    by (auto simp: loadIdentity_def newIdentity_def registerIdentity_def identityRecord_def Let_def)
  show "entries (loadIdentity g w) = entries w @ [g]"
    using assms(1) by (auto simp: * entries_def identityRecord_def)
  show "\<forall>i \<in> set (aw_identities (loadIdentity g w)). i < aw_freshIdentity (loadIdentity g w)"
    "aw_storedDefault (loadIdentity g w) = aw_storedDefault w"
    using assms(1) by (auto simp: * less_Suc_eq)
qed

lemma fold_loadIdentity:
  "\<forall>i \<in> set (aw_identities w). i < aw_freshIdentity w \<Longrightarrow> distinct (map fst (entries w @ gs))
    \<Longrightarrow> entries (fold loadIdentity gs w) = entries w @ gs \<and> aw_storedDefault (fold loadIdentity gs w) = aw_storedDefault w"
proof (induction gs arbitrary: w)
  case (Cons g gs)
  have new: "fst g \<notin> fst ` set (entries w)" using Cons.prems(2) by auto
  note l = loadIdentity_new [OF Cons.prems(1) new]
  have "distinct (map fst (entries (loadIdentity g w) @ gs))" using Cons.prems(2) by (simp add: l(1))
  from Cons.IH [OF l(2) this] show ?case by (simp add: l(1,3))
qed simp

text \<open>
  C27: Saving the identities and starting again restores them: in whatever order the configuration
  lists its groups, the identities have the same identifiers and labels, none is lost or created,
  and the default identity is the one it was.  (The configuration holds groups of present identities
  only, once each; removing an identity removes its group.)
\<close>

theorem identities_survive_restart:
  assumes ids: "distinct (map fst (entries w))" and d: "aw_defaultIdentity w = Some d" "d \<in> set (aw_identities w)"
    and st: "distinct (map fst (aw_storedIdentities w))" "fst ` set (aw_storedIdentities w) \<subseteq> fst ` set (entries w)"
    and v: "saveIdentities w = Some v" and s: "aw_identities s = []" "aw_storedDefault s = aw_storedDefault v"
    and gs: "mset groups = mset (aw_storedIdentities v)"
  shows "\<exists>d' s'. loadIdentities groups s = Some (Some d', s') \<and> identityId s' d' = identityId w d
    \<and> mset (entries s') = mset (entries w)"
proof -
  have sd: "aw_storedDefault s = identityId w d"
    using v s(2) d by (auto simp: saveIdentities_def)
  have "mset (aw_storedIdentities v) = mset (entries w)"
    using v d(1) stored_entries [of w "aw_identities w" "aw_storedIdentities w"] ids st
    by (auto simp: saveIdentities_def fst_entries ids_entries simp flip: entries_def)
  with gs have m: "mset groups = mset (entries w)" by simp
  then have "mset (map fst groups) = mset (map fst (entries w))" by simp
  with ids have dg: "distinct (map fst groups)" using mset_eq_imp_distinct_iff by blast
  define t where "t = fold loadIdentity groups s"
  have l: "entries t = groups" "aw_storedDefault t = aw_storedDefault s"
    using fold_loadIdentity [of s groups] s(1) dg by (simp_all add: t_def entries_def [of s])
  have "entryOf w d \<in> set (entries w)" using d(2) by (simp add: entries_def)
  then have "entryOf w d \<in> set (entries t)" using mset_eq_setD [OF m] l(1) by simp
  then have "identityId w d \<in> identityId t ` set (aw_identities t)" unfolding ids_entries by (metis fst_conv image_eqI)
  then obtain d' where d': "findIdentity (identityId w d) t = Some d'"
    by (cases "findIdentity (identityId w d) t") (auto simp: findIdentity_def find_None_iff)
  then have id: "identityId t d' = identityId w d" by (auto simp: findIdentity_def find_Some_iff)
  let ?t = "t\<lparr>aw_defaultIdentity := Some d'\<rparr>"
  have "findIdentity (identityId ?t d') ?t = Some d'" using d' id by (simp add: findIdentity_def)
  then have "loadIdentities groups s = Some (Some d', ?t)"
    using l(2) sd d' by (simp add: loadIdentities_def defaultIdentity_def Let_def flip: t_def)
  moreover have "entries ?t = groups" using l(1) by (simp add: entries_def)
  ultimately show ?thesis using id m by auto
qed

definition sampleDefault :: accountWorld where
  "sampleDefault = snd (the (defaultIdentity sampleWorld))"

lemma sampleDefault_fields:
  "aw_identities sampleDefault = [0]" "aw_defaultIdentity sampleDefault = Some 0"
  "aw_identity sampleDefault = (\<lambda>_. identityRecord [] [])(0 := identityRecord [] defaultLabel)"
  "aw_storedIdentities sampleDefault = [([], defaultLabel)]"
  by (simp_all add: sampleDefault_def defaultIdentity_def sampleWorld_def newIdentityLabelled_def newIdentity_def registerIdentity_def
      setDefaultIdentity_def saveIdentities_def storeIdentity_def identityRecord_def Let_def)

theorem identities_survive_restart_witness:
  "\<exists>d' s'. loadIdentities [([], defaultLabel)] sampleWorld = Some (Some d', s')
    \<and> identityId s' d' = identityId sampleDefault 0 \<and> mset (entries s') = mset (entries sampleDefault)"
proof -
  have "saveIdentities sampleDefault = Some (sampleDefault\<lparr>aw_storedDefault := []\<rparr>)"
    by (simp add: saveIdentities_def sampleDefault_fields storeIdentity_def identityRecord_def)
  then show ?thesis
    by (rule identities_survive_restart [rotated 5])
      (simp_all add: entries_def sampleDefault_fields sampleWorld_def identityRecord_def)
qed

subsection \<open>The default identity\<close>

text \<open>
  When the default identity is removed the pointer to it is cleared, so a new identity is created
  at the next question, however many identities there are; the branch that takes
  the first of them is not reached.
\<close>

lemma default_after_removal:
  assumes "identities_ok w" "aw_defaultIdentity w = Some d"
    and "aw_randomId w (aw_freshIdentity w) \<notin> identityId w ` (set (aw_identities w) - {d})"
  shows "\<exists>w'. defaultIdentity (removeIdentity d w) = Some (Some (aw_freshIdentity w), w')
    \<and> aw_identities w' = removeAll d (aw_identities w) @ [aw_freshIdentity w]"
proof -
  have "aw_freshIdentity w \<notin> set (aw_identities w)" using assms(1) by (auto simp: identities_ok_def)
  moreover have "aw_randomId (removeIdentity d w) = aw_randomId w"
    by (simp add: removeIdentity_def deleteIdentity_def unregisterIdentity_def Let_def)
  ultimately show ?thesis
    using assms(2,3)
    by (auto simp: defaultIdentity_def removeIdentity_frame newIdentityLabelled_def newIdentity_def registerIdentity_def
        setDefaultIdentity_def saveIdentities_def identityRecord_def Let_def)
qed

text \<open>Without a default identity, saving reads through the null pointer.\<close>

lemma save_without_default: "saveIdentities (removeIdentity d w) = None" if "aw_defaultIdentity w = Some d"
  using that by (simp add: saveIdentities_def removeIdentity_frame)

end
