(* ===== verification/Kopete_AccountManager.thy ===== *)
theory Kopete_AccountManager
  imports Kopete_Identity
begin

text \<open>
  The manager of the accounts of \<^verbatim>\<open>libkopete\<close> (\<^verbatim>\<open>kopeteaccountmanager.cpp\<close>) and the global status that it
  shares with \<^verbatim>\<open>kopetestatusmanager.cpp\<close>: which accounts there are, which of them are asked when the
  user chooses a status, and what happens when the computer sleeps or loses the network.

  The state extends that of the identities.  \<^verbatim>\<open>std::sort\<close>, what the protocols do meanwhile and the
  answers of their virtual functions are arguments; \<open>None\<close> is what the code leaves undefined, and
  \<^verbatim>\<open>std::sort\<close> is undefined when the comparison is not a strict weak ordering of the accounts.
\<close>

subsection \<open>State\<close>

text \<open>A status that the user can choose, at the top level of the tree of statuses.\<close>

record topStatus =
  ts_isGroup :: bool
  ts_category :: u32
  ts_title :: qstring
  ts_message :: qstring

record managerWorld = accountWorld +
  am_accounts :: "accountPtr list"
  am_accountsToBeRemoved :: "accountPtr list"
  am_removals :: nat
  am_disconnecting :: "accountPtr list"
  am_suspended :: bool
  am_suspendedStatusMessage :: statusMessage
  am_suspendedStatusCategory :: u32
  am_globalCategory :: u32
  am_globalMessage :: statusMessage
  am_statuses :: "topStatus list"
  am_network :: networkStatus
  am_pluginId :: "nat \<Rightarrow> qstring"
  am_configuredIdentity :: "accountPtr \<Rightarrow> qstring"
  am_storedAccounts :: "(accountPtr \<times> qstring \<times> qstring) list"

definition offlineCategory :: u32 where "offlineCategory = 1"

definition connectIfOffline :: u32 where "connectIfOffline = 1"

definition managerEnv :: "bool \<Rightarrow> 'a managerWorld_scheme \<Rightarrow> kaccountEnv" where
  "managerEnv reconnects w = \<lparr>ae_i18n = aw_i18n w, ae_reconnectOnDisconnect = reconnects, ae_network = am_network w\<rparr>"

definition isConnectedAccount :: "'a accountWorld_scheme \<Rightarrow> accountPtr \<Rightarrow> bool" where
  "isConnectedAccount w p = kaccountConnected (aw_objects w) (aw_account w p)"

definition accountIdOf :: "'a accountWorld_scheme \<Rightarrow> accountPtr \<Rightarrow> qstring" where
  "accountIdOf w p = ka_id (aw_account w p)"

definition protocolOf :: "'a accountWorld_scheme \<Rightarrow> accountPtr \<Rightarrow> nat" where
  "protocolOf w p = ka_protocol (aw_account w p)"

subsection \<open>The global status\<close>

definition setGlobalStatus :: "u32 \<Rightarrow> statusMessage \<Rightarrow> 'a managerWorld_scheme \<Rightarrow> 'a managerWorld_scheme" where
  "setGlobalStatus category msg w =
     tell (GlobalStatusChanged category msg) (w\<lparr>am_globalCategory := category, am_globalMessage := msg\<rparr>)"

definition setGlobalStatusMessage :: "statusMessage \<Rightarrow> 'a managerWorld_scheme \<Rightarrow> 'a managerWorld_scheme" where
  "setGlobalStatusMessage msg w =
     (let w = w\<lparr>am_globalMessage := msg\<rparr>;
          w = fold (\<lambda>p w. case ownContact w p of
                            None \<Rightarrow> w
                          | Some self \<Rightarrow>
                              if isConnectedAccount w p \<and> os_status (onlineStatusOf (aw_objects w) self) \<noteq> Invisible
                              then requestStatus p (onlineStatusOf (aw_objects w) self) msg w else w)
                (am_accounts w) w
      in tell (GlobalStatusChanged (am_globalCategory w) msg) w)"

definition globalAway :: "'a managerWorld_scheme \<Rightarrow> bool" where
  "globalAway w \<longleftrightarrow> am_globalCategory w = 4 \<or> am_globalCategory w = 512 \<or> am_globalCategory w = 32
     \<or> am_globalCategory w = offlineCategory"

subsection \<open>The accounts\<close>

definition compareAccountsByPriority :: "'a accountWorld_scheme \<Rightarrow> accountPtr \<Rightarrow> accountPtr \<Rightarrow> int" where
  "compareAccountsByPriority w a b =
     (let priority1 = ka_priority (aw_account w a); priority2 = ka_priority (aw_account w b)
      in if a = b then 0 else if priority1 > priority2 then 1 else - 1)"

text \<open>
  \<^verbatim>\<open>std::sort\<close> takes the number for a truth value.  What it does is defined only for a comparison that
  orders the elements strictly and weakly.
\<close>

type_synonym sorting = "(accountPtr \<Rightarrow> accountPtr \<Rightarrow> bool) \<Rightarrow> accountPtr list \<Rightarrow> accountPtr list"

definition strictWeakOrder :: "('b \<Rightarrow> 'b \<Rightarrow> bool) \<Rightarrow> 'b list \<Rightarrow> bool" where
  "strictWeakOrder cmp xs \<longleftrightarrow>
     list_all (\<lambda>x. \<not> cmp x x) xs
     \<and> list_all (\<lambda>x. list_all (\<lambda>y. list_all (\<lambda>z. cmp x y \<and> cmp y z \<longrightarrow> cmp x z) xs) xs) xs
     \<and> list_all (\<lambda>x. list_all (\<lambda>y. list_all (\<lambda>z. cmp x z \<longrightarrow> cmp x y \<or> cmp y z) xs) xs) xs"

definition sortAccounts :: "sorting \<Rightarrow> 'a managerWorld_scheme \<Rightarrow> 'a managerWorld_scheme option" where
  "sortAccounts srt w =
     (let cmp = (\<lambda>a b. compareAccountsByPriority w a b \<noteq> 0)
      in if strictWeakOrder cmp (am_accounts w) then Some (w\<lparr>am_accounts := srt cmp (am_accounts w)\<rparr>) else None)"

definition isAnyAccountConnected :: "'a managerWorld_scheme \<Rightarrow> bool" where
  "isAnyAccountConnected w = list_ex (isConnectedAccount w) (am_accounts w)"

definition sameAccount :: "'a accountWorld_scheme \<Rightarrow> accountPtr \<Rightarrow> accountPtr \<Rightarrow> bool" where
  "sameAccount w p q \<longleftrightarrow> protocolOf w p = protocolOf w q \<and> accountIdOf w p = accountIdOf w q"

definition giveIdentity :: "accountPtr \<Rightarrow> 'a managerWorld_scheme \<Rightarrow> 'a managerWorld_scheme option" where
  "giveIdentity p w =
     (if ka_identity (aw_account w p) \<noteq> None then Some w
      else
        case (case findIdentity (am_configuredIdentity w p) w of
                Some i \<Rightarrow> Some (Some i, w)
              | None \<Rightarrow> defaultIdentity w) of
          None \<Rightarrow> None
        | Some (ident, w) \<Rightarrow> map_option snd (setIdentity p ident w))"

definition registerAccount ::
  "sorting \<Rightarrow> accountPtr option \<Rightarrow> 'a managerWorld_scheme \<Rightarrow> (accountPtr option \<times> 'a managerWorld_scheme) option" where
  "registerAccount srt acc w =
     (case acc of
        None \<Rightarrow> Some (None, w)
      | Some p \<Rightarrow>
          if p \<in> set (am_accounts w) then Some (Some p, w)
          else if accountIdOf w p = [] then Some (None, tell (AccountDeleteLater p) w)
          else if \<exists>q \<in> set (am_accounts w). sameAccount w p q then Some (None, tell (AccountDeleteLater p) w)
          else
            map_option (\<lambda>w. (Some p, tell (AccountRegistered p) w))
              (Option.bind (sortAccounts srt (w\<lparr>am_accounts := am_accounts w @ [p]\<rparr>)) (giveIdentity p)))"

definition unregisterAccount :: "accountPtr \<Rightarrow> 'a managerWorld_scheme \<Rightarrow> 'a managerWorld_scheme" where
  "unregisterAccount p w = tell (AccountUnregistered p) (w\<lparr>am_accounts := removeAll p (am_accounts w)\<rparr>)"

definition accountsOf :: "nat \<Rightarrow> 'a managerWorld_scheme \<Rightarrow> accountPtr list" where
  "accountsOf protocol w = filter (\<lambda>p. protocolOf w p = protocol) (am_accounts w)"

definition findAccount :: "qstring \<Rightarrow> qstring \<Rightarrow> 'a managerWorld_scheme \<Rightarrow> accountPtr option" where
  "findAccount protocolId accountId w =
     find (\<lambda>p. am_pluginId w (protocolOf w p) = protocolId \<and> accountIdOf w p = accountId) (am_accounts w)"

text \<open>The seven colours in turn; the first is no colour.\<close>

definition colorNames :: "qstring option list" where
  "colorNames = [None, Some (qstr ''red''), Some (qstr ''green''), Some (qstr ''blue''), Some (qstr ''yellow''),
     Some (qstr ''magenta''), Some (qstr ''cyan'')]"

definition guessColor :: "nat \<Rightarrow> 'a managerWorld_scheme \<Rightarrow> qstring option" where
  "guessColor protocol w =
     (let protocolCount = length (filter (\<lambda>p. am_pluginId w (protocolOf w p) = am_pluginId w protocol) (am_accounts w))
      in colorNames ! (protocolCount mod 7))"

definition saveAccounts :: "sorting \<Rightarrow> 'a managerWorld_scheme \<Rightarrow> 'a managerWorld_scheme option" where
  "saveAccounts srt w =
     map_option
       (\<lambda>w. w\<lparr>am_storedAccounts := fold (\<lambda>p. AList.update p (am_pluginId w (protocolOf w p), accountIdOf w p))
               (am_accounts w) (am_storedAccounts w)\<rparr>)
       (sortAccounts srt w)"

definition managerStatusChanged ::
  "objects \<Rightarrow> contactPtr \<Rightarrow> onlineStatus \<Rightarrow> onlineStatus \<Rightarrow> 'a managerWorld_scheme \<Rightarrow> 'a managerWorld_scheme" where
  "managerStatusChanged ob c oldStatus newStatus w =
     tell (AccountStatusChanged (c_account (ob_contact ob c)) oldStatus newStatus) w"

subsection \<open>Removing an account\<close>

text \<open>\<open>agrees\<close> is the answer of the protocol.  A removal that is due is a timer of length zero.\<close>

definition removeAccount :: "bool \<Rightarrow> accountPtr \<Rightarrow> 'a managerWorld_scheme \<Rightarrow> 'a managerWorld_scheme" where
  "removeAccount agrees p w =
     (if \<not> agrees then w
      else if \<not> isConnectedAccount w p
      then w\<lparr>am_accountsToBeRemoved := am_accountsToBeRemoved w @ [p], am_removals := Suc (am_removals w)\<rparr>
      else with_account p (emitAccount RequestDisconnect) (w\<lparr>am_disconnecting := am_disconnecting w @ [p]\<rparr>))"

definition removeAccountConnectedChanged :: "accountPtr \<Rightarrow> 'a managerWorld_scheme \<Rightarrow> 'a managerWorld_scheme" where
  "removeAccountConnectedChanged p w =
     (if \<not> isConnectedAccount w p
      then w\<lparr>am_disconnecting := removeAll p (am_disconnecting w),
             am_accountsToBeRemoved := am_accountsToBeRemoved w @ [p], am_removals := Suc (am_removals w)\<rparr>
      else w)"

subsection \<open>Choosing a status\<close>

definition takesPart :: "u32 \<Rightarrow> u32 \<Rightarrow> bool \<Rightarrow> 'a managerWorld_scheme \<Rightarrow> accountPtr \<Rightarrow> bool" where
  "takesPart category flags onlyConnected w p \<longleftrightarrow>
     (if category AND offlineCategory \<noteq> 0 then True
      else if onlyConnected
      then isConnectedAccount w p
        \<or> (flags AND connectIfOffline \<noteq> 0 \<or> am_globalCategory w = offlineCategory) \<and> \<not> ka_excludeconnect (aw_account w p)
      else \<not> ka_excludeconnect (aw_account w p))"

fun askAccounts ::
  "u32 \<Rightarrow> statusMessage \<Rightarrow> u32 \<Rightarrow> bool \<Rightarrow> accountPtr list \<Rightarrow> 'a managerWorld_scheme \<Rightarrow> 'a managerWorld_scheme option" where
  "askAccounts category msg flags onlyConnected [] w = Some w"
| "askAccounts category msg flags onlyConnected (p # ps) w =
     (case onlineStatusFor (Some (protocolOf w p)) category (aw_registry w) of
        None \<Rightarrow> None
      | Some s \<Rightarrow> askAccounts category msg flags onlyConnected ps
                   (if takesPart category flags onlyConnected w p then requestStatus p s msg w else w))"

definition setOnlineStatusAll ::
  "u32 \<Rightarrow> statusMessage \<Rightarrow> u32 \<Rightarrow> bool \<Rightarrow> 'a managerWorld_scheme \<Rightarrow> 'a managerWorld_scheme option" where
  "setOnlineStatusAll category msg flags forced w =
     (let onlyChangeConnectedAccounts = (\<not> forced \<and> isAnyAccountConnected w);
          w = w\<lparr>am_suspended := False\<rparr>
      in map_option (setGlobalStatus category msg)
           (askAccounts category msg flags onlyChangeConnectedAccounts (am_accounts w) w))"

definition setStatusMessageAll :: "qstring \<Rightarrow> 'a managerWorld_scheme \<Rightarrow> 'a managerWorld_scheme" where
  "setStatusMessageAll text' w =
     fold (\<lambda>p. with_account p (emitAccount (RequestMessage \<lparr>sm_title = [], sm_message = text'\<rparr>))) (am_accounts w) w"

subsection \<open>Sleep and network\<close>

definition offlineMessage :: "'a managerWorld_scheme \<Rightarrow> statusMessage" where
  "offlineMessage w =
     (case find (\<lambda>t. \<not> ts_isGroup t \<and> ts_category t = offlineCategory) (am_statuses w) of
        None \<Rightarrow> \<lparr>sm_title = aw_i18n w (qstr ''Offline''), sm_message = []\<rparr>
      | Some t \<Rightarrow> \<lparr>sm_title = ts_title t, sm_message = ts_message t\<rparr>)"

text \<open>\<open>meanwhile\<close>: what the protocols do to their accounts before \<^verbatim>\<open>setOnlineStatus\<close> returns.\<close>

fun suspendAccounts ::
  "(accountPtr \<Rightarrow> kaccount \<Rightarrow> kaccount) \<Rightarrow> statusMessage \<Rightarrow> accountPtr list \<Rightarrow> 'a managerWorld_scheme
    \<Rightarrow> 'a managerWorld_scheme option" where
  "suspendAccounts meanwhile msg [] w = Some w"
| "suspendAccounts meanwhile msg (p # ps) w =
     (if ka_suspended (aw_account w p) then suspendAccounts meanwhile msg ps w
      else case ownContact w p of
             None \<Rightarrow> None
           | Some self \<Rightarrow>
               suspendAccounts meanwhile msg ps
                 (with_account p (\<lambda>a. snd (suspend (managerEnv True w) (aw_objects w) msg (meanwhile p) self a)) w))"

definition suspendAll ::
  "(accountPtr \<Rightarrow> kaccount \<Rightarrow> kaccount) \<Rightarrow> 'a managerWorld_scheme \<Rightarrow> 'a managerWorld_scheme option" where
  "suspendAll meanwhile w =
     (if am_suspended w then Some w
      else
        let w = w\<lparr>am_suspended := True, am_suspendedStatusMessage := am_globalMessage w,
                  am_suspendedStatusCategory := am_globalCategory w\<rparr>
        in map_option (setGlobalStatus offlineCategory (offlineMessage w))
             (suspendAccounts meanwhile (offlineMessage w) (am_accounts w) w))"

definition resumeAll :: "'a managerWorld_scheme \<Rightarrow> bool \<times> 'a managerWorld_scheme" where
  "resumeAll w =
     (let networkAvailable = (am_network w = NetUnknown \<or> am_network w = NetConnected)
      in if \<not> am_suspended w \<or> \<not> networkAvailable then (False, w)
         else
           let w = fold (\<lambda>p. with_account p (\<lambda>a. snd (resume (managerEnv True w) a))) (am_accounts w) w;
               w = setGlobalStatus (am_suspendedStatusCategory w) (am_suspendedStatusMessage w) w
           in (True, w\<lparr>am_suspended := False\<rparr>))"

definition networkConnected :: "'a managerWorld_scheme \<Rightarrow> 'a managerWorld_scheme option" where
  "networkConnected w =
     (let (resumed, w) = resumeAll w
      in if \<not> resumed then setOnlineStatusAll (am_globalCategory w) (am_globalMessage w) 0 True w else Some w)"

definition networkDisconnected ::
  "(accountPtr \<Rightarrow> kaccount \<Rightarrow> kaccount) \<Rightarrow> 'a managerWorld_scheme \<Rightarrow> 'a managerWorld_scheme option" where
  "networkDisconnected meanwhile w = suspendAll meanwhile w"

subsection \<open>The registry of accounts\<close>

text \<open>Taken for a truth value, the comparison holds both ways between any two accounts.\<close>

lemma compare_ignores_priority: "compareAccountsByPriority w a b \<noteq> 0 \<longleftrightarrow> a \<noteq> b"
  by (simp add: compareAccountsByPriority_def Let_def)

text \<open>The part of the registration that decides: the account is appended, or not.\<close>

definition admitAccount :: "accountPtr \<Rightarrow> 'a managerWorld_scheme \<Rightarrow> 'a managerWorld_scheme" where
  "admitAccount p w =
     (if p \<in> set (am_accounts w) \<or> accountIdOf w p = [] \<or> (\<exists>q \<in> set (am_accounts w). sameAccount w p q) then w
      else w\<lparr>am_accounts := am_accounts w @ [p]\<rparr>)"

definition accountKey :: "'a accountWorld_scheme \<Rightarrow> accountPtr \<Rightarrow> nat \<times> qstring" where
  "accountKey w p = (protocolOf w p, accountIdOf w p)"

lemma accountKey_same: "sameAccount w p q \<longleftrightarrow> accountKey w p = accountKey w q"
  by (simp add: sameAccount_def accountKey_def)

interpretation accounts: key_registry
  "am_accounts :: 'a managerWorld_scheme \<Rightarrow> accountPtr list" accountKey "\<lambda>w p. accountIdOf w p \<noteq> []" admitAccount unregisterAccount
  by unfold_locales
    (auto simp: admitAccount_def unregisterAccount_def accountKey_same accountKey_def protocolOf_def accountIdOf_def fun_eq_iff tell_def)

lemma registry_frame [simp]:
  "am_accounts (tell e w) = am_accounts w" "am_pluginId (tell e w) = am_pluginId w"
  "am_accounts (identityAddAccount i p w) = am_accounts w" "am_pluginId (identityAddAccount i p w) = am_pluginId w"
  "am_accounts (identityRemoveAccount i p w) = am_accounts w" "am_pluginId (identityRemoveAccount i p w) = am_pluginId w"
  by (auto simp: tell_def identityAddAccount_def identityRemoveAccount_def identityUpdateOnlineStatus_def Let_def split: option.split)

text \<open>Choosing identities changes neither the accounts of the manager nor their numbers.\<close>

definition same_accounts :: "'a managerWorld_scheme \<Rightarrow> 'a managerWorld_scheme \<Rightarrow> bool" where
  "same_accounts w w' \<longleftrightarrow> am_accounts w' = am_accounts w \<and> accountKey w' = accountKey w \<and> am_pluginId w' = am_pluginId w"

lemma same_accounts_refl [simp]: "same_accounts w w"
  by (simp add: same_accounts_def)

lemma same_accounts_trans: "same_accounts a b \<Longrightarrow> same_accounts b c \<Longrightarrow> same_accounts a c"
  by (simp add: same_accounts_def)

lemma same_accounts_setIdentity:
  assumes "setIdentity p i w = Some (b, w')"
  shows "same_accounts w w'"
  using assms
  by (auto simp: setIdentity_def same_accounts_def accountKey_def protocolOf_def accountIdOf_def emitAccount_def Let_def fun_eq_iff
      split: if_splits option.splits)

lemma same_accounts_setDefault: "setDefaultIdentity i w = Some w' \<Longrightarrow> same_accounts w w'"
  by (auto simp: setDefaultIdentity_def saveIdentities_def same_accounts_def accountKey_def protocolOf_def accountIdOf_def fun_eq_iff
      split: if_splits option.splits)

lemma same_accounts_fields [simp]:
  "same_accounts w (tell e w') \<longleftrightarrow> same_accounts w w'" "same_accounts (tell e w) w' \<longleftrightarrow> same_accounts w w'"
  "same_accounts w (w'\<lparr>aw_identities := x\<rparr>) \<longleftrightarrow> same_accounts w w'"
  "same_accounts w (w'\<lparr>aw_identity := y\<rparr>) \<longleftrightarrow> same_accounts w w'"
  "same_accounts w (w'\<lparr>aw_freshIdentity := n\<rparr>) \<longleftrightarrow> same_accounts w w'"
  by (simp_all add: same_accounts_def accountKey_def protocolOf_def accountIdOf_def fun_eq_iff)

lemma same_accounts_default:
  assumes "defaultIdentity w = Some (r, w')"
  shows "same_accounts w w'"
proof -
  have "same_accounts w (snd (registerIdentity (Some i) (snd (newIdentityLabelled l w))))" for i l
    by (simp add: registerIdentity_def newIdentityLabelled_def newIdentity_def Let_def)
  then have reg: "same_accounts w v" if "registerIdentity (Some i) u = (x, v)" "newIdentityLabelled l w = (j, u)" for i l u v x j
    using that by (metis snd_conv)
  show ?thesis
    using assms
    by (auto simp: defaultIdentity_def Let_def split: if_splits option.splits list.splits prod.splits
        dest!: reg same_accounts_setDefault intro: same_accounts_trans)
qed

lemma same_accounts_giveIdentity:
  assumes "giveIdentity p w = Some w'"
  shows "same_accounts w w'"
  using assms
  by (auto simp: giveIdentity_def split: if_splits option.splits prod.splits
      dest!: same_accounts_default same_accounts_setIdentity intro: same_accounts_trans)

lemma accountKey_frame [simp]:
  "accountKey (w\<lparr>am_accounts := x\<rparr>) = accountKey w" "accountKey (tell e w) = accountKey w"
  by (auto simp: accountKey_def protocolOf_def accountIdOf_def fun_eq_iff)

text \<open>A registration that returns left the account in the list that the decision gives, rearranged.\<close>

lemma registerAccount_admits:
  assumes srt: "\<And>c xs. mset (srt c xs) = mset xs" and r: "registerAccount srt (Some p) w = Some (r, w')"
  shows "mset (am_accounts w') = mset (am_accounts (admitAccount p w))" "accountKey w' = accountKey w" "am_pluginId w' = am_pluginId w"
proof -
  note key = accountKey_frame
  consider (no) "p \<in> set (am_accounts w) \<or> accountIdOf w p = [] \<or> (\<exists>q \<in> set (am_accounts w). sameAccount w p q)"
    | (new) "p \<notin> set (am_accounts w)" "accountIdOf w p \<noteq> []" "\<not> (\<exists>q \<in> set (am_accounts w). sameAccount w p q)"
    by blast
  then have "mset (am_accounts w') = mset (am_accounts (admitAccount p w)) \<and> accountKey w' = accountKey w \<and> am_pluginId w' = am_pluginId w"
  proof cases
    case no
    then show ?thesis using r by (auto simp: registerAccount_def admitAccount_def key split: if_splits)
  next
    case new
    then obtain u v where v: "sortAccounts srt (w\<lparr>am_accounts := am_accounts w @ [p]\<rparr>) = Some u" "giveIdentity p u = Some v"
      "w' = tell (AccountRegistered p) v"
      using r by (auto simp: registerAccount_def bind_eq_Some_conv)
    from same_accounts_giveIdentity [OF v(2)] v(1) show ?thesis
      using new by (auto simp: v(3) same_accounts_def sortAccounts_def srt admitAccount_def key Let_def split: if_splits)
  qed
  then show "mset (am_accounts w') = mset (am_accounts (admitAccount p w))" "accountKey w' = accountKey w" "am_pluginId w' = am_pluginId w"
    by simp_all
qed

inductive account_step :: "sorting \<Rightarrow> 'a managerWorld_scheme \<Rightarrow> 'a managerWorld_scheme \<Rightarrow> bool" for srt where
  register: "registerAccount srt (Some p) w = Some (r, w') \<Longrightarrow> account_step srt w w'"
| unregister: "account_step srt w (unregisterAccount p w)"
| store: "saveAccounts srt w = Some w' \<Longrightarrow> account_step srt w w'"

definition accounts_ok :: "'a managerWorld_scheme \<Rightarrow> bool" where
  "accounts_ok w \<longleftrightarrow> accounts.unique w \<and> (\<forall>p \<in> set (am_accounts w). accountIdOf w p \<noteq> [])"

lemma accountIdOf_key: "accountIdOf w p = snd (accountKey w p)"
  by (simp add: accountKey_def)

lemma accounts_ok_step:
  assumes srt: "\<And>c xs. mset (srt c xs) = mset xs" and step: "account_step srt w w'" and ok: "accounts_ok w"
  shows "accounts_ok w' \<and> am_pluginId w' = am_pluginId w"
  using step
proof cases
  case (register p r)
  note r = registerAccount_admits [OF srt register]
  have "accounts.unique w" using ok by (simp add: accounts_ok_def)
  then have "accounts.unique (admitAccount p w)" by (rule accounts.unique_enter)
  then have "accounts.unique w'"
    using accounts.unique_cong [of w' "admitAccount p w"] r accounts.enter_key(1) [of p w] by simp
  moreover have "\<forall>q \<in> set (am_accounts w'). accountIdOf w' q \<noteq> []"
    using mset_eq_setD [OF r(1)] accounts.set_enter [of p w] ok r(2) by (auto simp: accounts_ok_def accountIdOf_key)
  ultimately show ?thesis using r(3) by (simp add: accounts_ok_def)
next
  case (unregister p)
  have "accountIdOf w' = accountIdOf w" by (simp add: unregister unregisterAccount_def accountIdOf_def fun_eq_iff)
  then show ?thesis
    using ok accounts.unique_leave [of w p] accounts.set_leave [of p w]
    by (auto simp: unregister accounts_ok_def) (simp add: unregisterAccount_def)
next
  case store
  have k: "mset (am_accounts w') = mset (am_accounts w)" "accountKey w' = accountKey w"
    using store
    by (auto simp: saveAccounts_def sortAccounts_def srt accountKey_def protocolOf_def accountIdOf_def fun_eq_iff Let_def split: if_splits)
  moreover have "am_pluginId w' = am_pluginId w"
    using store by (auto simp: saveAccounts_def sortAccounts_def Let_def split: if_splits)
  ultimately show ?thesis
    using ok accounts.unique_cong [OF k] mset_eq_setD [OF k(1)] by (auto simp: accounts_ok_def accountIdOf_key)
qed

text \<open>Within the contract of \<^verbatim>\<open>std::sort\<close> there is at most one account to arrange.\<close>

lemma strictWeakOrder_unequal: "strictWeakOrder (\<lambda>a b. a \<noteq> b) xs \<longleftrightarrow> (\<forall>x \<in> set xs. \<forall>y \<in> set xs. x = y)"
proof
  assume "strictWeakOrder (\<lambda>a b. a \<noteq> b) xs"
  then have "\<forall>x \<in> set xs. \<forall>y \<in> set xs. \<forall>z \<in> set xs. x \<noteq> y \<and> y \<noteq> z \<longrightarrow> x \<noteq> z"
    unfolding strictWeakOrder_def list_all_iff by (elim conjE)
  then show "\<forall>x \<in> set xs. \<forall>y \<in> set xs. x = y" by metis
next
  assume same: "\<forall>x \<in> set xs. \<forall>y \<in> set xs. x = y"
  show "strictWeakOrder (\<lambda>a b. a \<noteq> b) xs"
    unfolding strictWeakOrder_def list_all_iff by (intro conjI ballI) (use same in simp_all)
qed

lemma sortAccounts_defined:
  "sortAccounts srt w
    = (if \<forall>x \<in> set (am_accounts w). \<forall>y \<in> set (am_accounts w). x = y
       then Some (w\<lparr>am_accounts := srt (\<lambda>a b. a \<noteq> b) (am_accounts w)\<rparr>) else None)"
  by (simp only: sortAccounts_def compare_ignores_priority Let_def strictWeakOrder_unequal)

lemma registerAccount_first:
  assumes "registerAccount srt (Some p) w = Some (r, w')" "admitAccount p w \<noteq> w"
  shows "am_accounts w = []"
proof (rule ccontr)
  assume "am_accounts w \<noteq> []"
  then obtain q where q: "q \<in> set (am_accounts w)" by (cases "am_accounts w") auto
  have new: "p \<notin> set (am_accounts w)" "accountIdOf w p \<noteq> []" "\<not> (\<exists>q \<in> set (am_accounts w). sameAccount w p q)"
    using assms(2) by (auto simp: admitAccount_def split: if_splits)
  then have "p \<noteq> q" using q by auto
  then have "sortAccounts srt (w\<lparr>am_accounts := am_accounts w @ [p]\<rparr>) = None" using q by (auto simp: sortAccounts_defined)
  then show False using assms(1) new by (simp add: registerAccount_def)
qed

lemma one_account_step:
  assumes srt: "\<And>c xs. mset (srt c xs) = mset xs" and step: "account_step srt w w'" and one: "length (am_accounts w) \<le> 1"
  shows "length (am_accounts w') \<le> 1"
  using step
proof cases
  case (register p r)
  have "length (am_accounts w') = length (am_accounts (admitAccount p w))"
    using registerAccount_admits(1) [OF srt register] by (rule mset_eq_length)
  moreover have "length (am_accounts (admitAccount p w)) \<le> 1"
  proof (cases "admitAccount p w = w")
    case False
    from registerAccount_first [OF register this] show ?thesis by (simp add: admitAccount_def)
  qed (use one in simp)
  ultimately show ?thesis by simp
next
  case (unregister p)
  have "am_accounts w' = removeAll p (am_accounts w)" by (simp add: unregister unregisterAccount_def tell_def)
  then have "length (am_accounts w') \<le> length (am_accounts w)" by (simp only: removeAll_filter_not_eq length_filter_le)
  with one show ?thesis by simp
next
  case store
  then have "mset (am_accounts w') = mset (am_accounts w)"
    by (auto simp: saveAccounts_def sortAccounts_defined srt split: if_splits)
  then have "length (am_accounts w') = length (am_accounts w)" by (rule mset_eq_length)
  with one show ?thesis by simp
qed

text \<open>
  C22: The comparison by priority, taken for a truth value, holds both ways between any two accounts, so that
  \<^verbatim>\<open>std::sort\<close> is defined for at most one.  In every run of registrations, removals and savings that stays
  defined the manager has at most one account, with a number, which a search by protocol and number
  finds; and once it has one, to register another account is undefined exactly when that has a number
  and the search does not find its protocol and number already there.
\<close>

theorem second_account_undefined:
  assumes "\<forall>c xs. mset (srt c xs) = mset xs" "(account_step srt)\<^sup>*\<^sup>* w w'" "am_accounts w = []" "inj (am_pluginId w)"
  shows "length (am_accounts w') \<le> 1
    \<and> (\<forall>pr i p. findAccount (am_pluginId w' pr) i w' = Some p
         \<longleftrightarrow> am_accounts w' = [p] \<and> protocolOf w' p = pr \<and> accountIdOf w' p = i \<and> i \<noteq> [])
    \<and> (\<forall>q p. am_accounts w' = [q] \<and> p \<noteq> q \<longrightarrow>
         (registerAccount srt (Some p) w' = None
            \<longleftrightarrow> accountIdOf w' p \<noteq> [] \<and> findAccount (am_pluginId w' (protocolOf w' p)) (accountIdOf w' p) w' = None))"
proof -
  have "accounts_ok w' \<and> am_pluginId w' = am_pluginId w \<and> length (am_accounts w') \<le> 1"
    using assms(2)
  proof (induction rule: rtranclp_induct)
    case base
    then show ?case using assms(3) by (simp add: accounts_ok_def accounts.unique_def)
  next
    case (step u v)
    then show ?case using accounts_ok_step [of srt u v] one_account_step [of srt u v] assms(1) by simp
  qed
  then have ok: "accounts.unique w'" "\<forall>p \<in> set (am_accounts w'). accountIdOf w' p \<noteq> []" "inj (am_pluginId w')"
    and one: "length (am_accounts w') \<le> 1"
    using assms(4) by (simp_all add: accounts_ok_def)
  have "findAccount (am_pluginId w' pr) i w' = find (\<lambda>p. accountKey w' p = (pr, i)) (am_accounts w')" for pr i
    using ok(3) by (simp add: findAccount_def accountKey_def inj_eq)
  then have found: "findAccount (am_pluginId w' pr) i w' = Some p
      \<longleftrightarrow> am_accounts w' = [p] \<and> protocolOf w' p = pr \<and> accountIdOf w' p = i \<and> i \<noteq> []" for pr i p
    using accounts.found_by_key [OF ok(1)] ok(2) one by (cases "am_accounts w'") (auto simp: accountKey_def)
  have "registerAccount srt (Some p) w' = None
      \<longleftrightarrow> accountIdOf w' p \<noteq> [] \<and> findAccount (am_pluginId w' (protocolOf w' p)) (accountIdOf w' p) w' = None"
    if "am_accounts w' = [q]" "p \<noteq> q" for p q
    using that ok(3) by (auto simp: registerAccount_def sortAccounts_defined findAccount_def sameAccount_def inj_eq)
  with one found show ?thesis by blast
qed

definition sampleManager :: managerWorld where
  "sampleManager = accountWorld.extend sampleWorld
     \<lparr>am_accounts = [], am_accountsToBeRemoved = [], am_removals = 0, am_disconnecting = [], am_suspended = False,
      am_suspendedStatusMessage = noMessage, am_suspendedStatusCategory = 0, am_globalCategory = 2,
      am_globalMessage = noMessage, am_statuses = [], am_network = NetConnected, am_pluginId = (\<lambda>n. replicate n 0x61),
      am_configuredIdentity = (\<lambda>_. qstr ''none''), am_storedAccounts = []\<rparr>"

definition sampleRegistered :: managerWorld where
  "sampleRegistered = snd (the (registerAccount (\<lambda>_ xs. xs) (Some 5) sampleManager))"

lemma sample_registered: "registerAccount (\<lambda>_ xs. xs) (Some 5) sampleManager = Some (Some 5, sampleRegistered)"
  by (simp add: sampleRegistered_def registerAccount_def sampleManager_def sampleWorld_def accountWorld.defs managerWorld.defs
      accountIdOf_def sampleKAccount_def newKAccount_def qstr_def sortAccounts_defined giveIdentity_def findIdentity_def
      defaultIdentity_def newIdentityLabelled_def newIdentity_def registerIdentity_def setDefaultIdentity_def saveIdentities_def
      setIdentity_def Let_def)

theorem second_account_undefined_witness:
  "length (am_accounts sampleRegistered) \<le> 1
    \<and> (findAccount (am_pluginId sampleRegistered 1) (qstr ''me'') sampleRegistered = Some 5
       \<longleftrightarrow> am_accounts sampleRegistered = [5] \<and> protocolOf sampleRegistered 5 = 1
          \<and> accountIdOf sampleRegistered 5 = qstr ''me'' \<and> qstr ''me'' \<noteq> [])"
proof -
  have "(account_step (\<lambda>_ xs. xs))\<^sup>*\<^sup>* sampleManager sampleRegistered"
    by (rule r_into_rtranclp) (rule account_step.register [OF sample_registered])
  moreover have "inj (am_pluginId sampleManager)" "am_accounts sampleManager = []"
    by (auto simp: sampleManager_def accountWorld.defs sampleWorld_def inj_def)
  ultimately show ?thesis using second_account_undefined [of "\<lambda>_ xs. xs" sampleManager sampleRegistered] by simp
qed

subsection \<open>Who is asked\<close>

lemma categoryNumber_le: "k \<le> categoryNumber c k"
proof (induction c k rule: categoryNumber.induct)
  case (1 c k)
  then show ?case by (cases "c = 0") (auto simp: categoryNumber.simps [of c k] categoryNumber.simps [of 0 k])
qed

lemma status_found: "category \<noteq> 0 \<Longrightarrow> \<exists>s. onlineStatusFor (Some p) category r = Some s"
  using categoryNumber_le [of 0 "drop_bit 1 category"]
  by (simp add: onlineStatusFor_def categoryNumber.simps [of category] Let_def split: option.split)

lemma requestStatus_frame [simp]:
  "takesPart category flags only (requestStatus p s msg w) = takesPart category flags only w"
  "protocolOf (requestStatus p s msg w) = protocolOf w" "aw_registry (requestStatus p s msg w) = aw_registry w"
  "am_accounts (requestStatus p s msg w) = am_accounts w" "am_suspended (requestStatus p s msg w) = am_suspended w"
  by (auto simp: requestStatus_def takesPart_def isConnectedAccount_def kaccountConnected_def protocolOf_def emitAccount_def
      fun_eq_iff split: option.split)

lemma requestStatus_events:
  "ka_events (aw_account (requestStatus p s msg w) q)
    = ka_events (aw_account w q) @ (if q = p then [RequestStatus s msg] else [])"
  by (simp add: requestStatus_def emitAccount_def)

abbreviation askedFor :: "u32 \<Rightarrow> 'a accountWorld_scheme \<Rightarrow> accountPtr \<Rightarrow> onlineStatus" where
  "askedFor category w p \<equiv> the (onlineStatusFor (Some (protocolOf w p)) category (aw_registry w))"

lemma askAccounts_events:
  assumes "category \<noteq> 0" "distinct ps"
  shows "\<exists>v. askAccounts category msg flags only ps w = Some v \<and> am_suspended v = am_suspended w
    \<and> (\<forall>q. ka_events (aw_account v q) = ka_events (aw_account w q)
         @ (if q \<in> set ps \<and> takesPart category flags only w q then [RequestStatus (askedFor category w q) msg] else []))"
  using assms(2)
proof (induction ps arbitrary: w)
  case (Cons p ps)
  obtain s where s: "onlineStatusFor (Some (protocolOf w p)) category (aw_registry w) = Some s"
    using status_found [OF assms(1)] by blast
  let ?w = "if takesPart category flags only w p then requestStatus p s msg w else w"
  obtain v where v: "askAccounts category msg flags only ps ?w = Some v" "am_suspended v = am_suspended ?w"
    "\<forall>q. ka_events (aw_account v q) = ka_events (aw_account ?w q)
       @ (if q \<in> set ps \<and> takesPart category flags only ?w q then [RequestStatus (askedFor category ?w q) msg] else [])"
    using Cons.IH [of ?w] Cons.prems by auto
  have "ka_events (aw_account v q) = ka_events (aw_account w q)
      @ (if q \<in> set (p # ps) \<and> takesPart category flags only w q then [RequestStatus (askedFor category w q) msg] else [])" for q
    using v(3) Cons.prems s by (simp add: requestStatus_events)
  with v(1,2) s show ?case by (intro exI [of _ v]) (simp add: requestStatus_frame(5))
qed simp

text \<open>
  C29: The user chooses a status: the manager ends a suspension, remembers the status as the global one, and
  asks exactly these accounts for the status that their protocol has for the category, once each.
  When the category is offline: all of them.  Otherwise, when an account is connected and the choice is not forced:
  the connected ones, and, when asked to connect or when the global status was offline, those that are
  not excluded.  Otherwise: those that are not excluded.
\<close>

theorem status_choice_asks:
  assumes "category \<noteq> 0" "distinct (am_accounts w)"
  shows "\<exists>w'. setOnlineStatusAll category msg flags forced w = Some w' \<and> \<not> am_suspended w'
    \<and> am_globalCategory w' = category \<and> am_globalMessage w' = msg
    \<and> (\<forall>p. ka_events (aw_account w' p) = ka_events (aw_account w p)
         @ (if p \<in> set (am_accounts w)
               \<and> (if category AND 1 \<noteq> 0 then True
                  else if \<not> forced \<and> (\<exists>q \<in> set (am_accounts w). isConnectedAccount w q)
                  then isConnectedAccount w p
                    \<or> (flags AND 1 \<noteq> 0 \<or> am_globalCategory w = 1) \<and> \<not> ka_excludeconnect (aw_account w p)
                  else \<not> ka_excludeconnect (aw_account w p))
            then [RequestStatus (the (onlineStatusFor (Some (protocolOf w p)) category (aw_registry w))) msg] else []))"
proof -
  let ?o = "\<not> forced \<and> isAnyAccountConnected w" and ?w = "w\<lparr>am_suspended := False\<rparr>"
  have t: "takesPart category flags ?o ?w p \<longleftrightarrow>
      (if category AND 1 \<noteq> 0 then True
       else if \<not> forced \<and> (\<exists>q \<in> set (am_accounts w). isConnectedAccount w q)
       then isConnectedAccount w p
         \<or> (flags AND 1 \<noteq> 0 \<or> am_globalCategory w = 1) \<and> \<not> ka_excludeconnect (aw_account w p)
       else \<not> ka_excludeconnect (aw_account w p))" for p
    by (simp add: takesPart_def isAnyAccountConnected_def list_ex_iff offlineCategory_def connectIfOffline_def isConnectedAccount_def)
  have p: "protocolOf ?w = protocolOf w" by (simp add: protocolOf_def fun_eq_iff)
  obtain v where v: "askAccounts category msg flags ?o (am_accounts w) ?w = Some v" "am_suspended v = am_suspended ?w"
    "\<forall>q. ka_events (aw_account v q) = ka_events (aw_account ?w q)
       @ (if q \<in> set (am_accounts w) \<and> takesPart category flags ?o ?w q then [RequestStatus (askedFor category ?w q) msg] else [])"
    using askAccounts_events [OF assms] by blast
  have "setOnlineStatusAll category msg flags forced w = Some (setGlobalStatus category msg v)"
    using v(1) by (simp add: setOnlineStatusAll_def)
  then show ?thesis
    using v(2,3) unfolding t p by (intro exI [of _ "setGlobalStatus category msg v"]) (simp add: setGlobalStatus_def tell_def)
qed

theorem status_choice_asks_witness:
  "\<exists>w'. setOnlineStatusAll 1 noMessage 0 False sampleRegistered = Some w' \<and> \<not> am_suspended w'
    \<and> am_globalCategory w' = 1 \<and> am_globalMessage w' = noMessage
    \<and> (\<forall>p. ka_events (aw_account w' p) = ka_events (aw_account sampleRegistered p)
         @ (if p \<in> set (am_accounts sampleRegistered)
               \<and> (if 1 AND 1 \<noteq> (0 :: u32) then True
                  else if \<not> False \<and> (\<exists>q \<in> set (am_accounts sampleRegistered). isConnectedAccount sampleRegistered q)
                  then isConnectedAccount sampleRegistered p
                    \<or> (0 AND 1 \<noteq> (0 :: u32) \<or> am_globalCategory sampleRegistered = 1) \<and> \<not> ka_excludeconnect (aw_account sampleRegistered p)
                  else \<not> ka_excludeconnect (aw_account sampleRegistered p))
            then [RequestStatus (the (onlineStatusFor (Some (protocolOf sampleRegistered p)) 1 (aw_registry sampleRegistered))) noMessage]
            else []))"
proof -
  have "distinct (am_accounts sampleRegistered)"
    using registerAccount_admits(1) [OF _ sample_registered]
    by (simp add: admitAccount_def sampleManager_def accountWorld.defs sampleWorld_def split: if_splits)
  then show ?thesis by (intro status_choice_asks) simp_all
qed

subsection \<open>Sleep\<close>

definition asleep ::
  "(accountPtr \<Rightarrow> kaccount \<Rightarrow> kaccount) \<Rightarrow> statusMessage \<Rightarrow> 'a managerWorld_scheme \<Rightarrow> accountPtr \<Rightarrow> kaccount" where
  "asleep meanwhile msg w q =
     snd (suspend (managerEnv True w) (aw_objects w) msg (meanwhile q) (the (ownContact w q)) (aw_account w q))"

lemma suspendAccounts_each:
  assumes "distinct ps" "\<forall>p \<in> set ps. ownContact w p \<noteq> None"
  shows "\<exists>f. suspendAccounts meanwhile msg ps w = Some (w\<lparr>aw_account := f\<rparr>)
    \<and> (\<forall>q. f q = (if q \<in> set ps then asleep meanwhile msg w q else aw_account w q))"
  using assms
proof (induction ps arbitrary: w)
  case Nil
  then show ?case by (intro exI [of _ "aw_account w"]) simp
next
  case (Cons p ps)
  obtain self where self: "ownContact w p = Some self" using Cons.prems(2) by auto
  define w1 where "w1 = with_account p (\<lambda>_. asleep meanwhile msg w p) w"
  have other: "ownContact w1 q = ownContact w q" "aw_account w1 q = aw_account w q" if "q \<noteq> p" for q
    using that by (simp_all add: w1_def ownContact_def)
  have asleep: "asleep meanwhile msg w1 q = asleep meanwhile msg w q" if "q \<noteq> p" for q
    using other [OF that] by (simp add: asleep_def) (simp add: w1_def managerEnv_def)
  have "\<forall>q \<in> set ps. ownContact w1 q \<noteq> None" using Cons.prems other by fastforce
  with Cons.IH [of w1] Cons.prems(1) obtain f where f: "suspendAccounts meanwhile msg ps w1 = Some (w1\<lparr>aw_account := f\<rparr>)"
    "\<forall>q. f q = (if q \<in> set ps then asleep meanwhile msg w1 q else aw_account w1 q)" by auto
  have "w1 = w" if "ka_suspended (aw_account w p)" using that by (simp add: w1_def asleep_def suspend_def)
  then have "suspendAccounts meanwhile msg (p # ps) w = suspendAccounts meanwhile msg ps w1"
    using self by (cases "ka_suspended (aw_account w p)") (simp_all add: w1_def asleep_def)
  moreover have "w1\<lparr>aw_account := f\<rparr> = w\<lparr>aw_account := f\<rparr>" by (simp add: w1_def)
  ultimately have "suspendAccounts meanwhile msg (p # ps) w = Some (w\<lparr>aw_account := f\<rparr>)" using f(1) by (simp only:)
  moreover have "f q = (if q \<in> set (p # ps) then asleep meanwhile msg w q else aw_account w q)" for q
    using f(2) Cons.prems(1) asleep other by (cases "q = p") (auto simp: w1_def)
  ultimately show ?case by blast
qed

lemma resume_each:
  "distinct ps \<Longrightarrow> \<exists>g. fold (\<lambda>p. with_account p f) ps w = w\<lparr>aw_account := g\<rparr>
    \<and> (\<forall>q. g q = (if q \<in> set ps then f (aw_account w q) else aw_account w q))"
proof (induction ps arbitrary: w)
  case Nil
  then show ?case by (intro exI [of _ "aw_account w"]) simp
next
  case (Cons p ps)
  define w1 where "w1 = with_account p f w"
  from Cons obtain g where g: "fold (\<lambda>p. with_account p f) ps w1 = w1\<lparr>aw_account := g\<rparr>"
    "\<forall>q. g q = (if q \<in> set ps then f (aw_account w1 q) else aw_account w1 q)" by fastforce
  have "fold (\<lambda>p. with_account p f) (p # ps) w = w1\<lparr>aw_account := g\<rparr>"
    unfolding g(1) [symmetric] by (simp only: fold.simps comp_apply w1_def)
  also have "\<dots> = w\<lparr>aw_account := g\<rparr>" by (simp add: w1_def)
  finally have "fold (\<lambda>p. with_account p f) (p # ps) w = w\<lparr>aw_account := g\<rparr>" .
  moreover have "g q = (if q \<in> set (p # ps) then f (aw_account w q) else aw_account w q)" for q
    using g(2) Cons.prems by (auto simp: w1_def)
  ultimately show ?case by blast
qed

text \<open>
  After the manager has put the accounts to sleep, changes of the accounts' own statuses are heard: the
  account, its new status and its old one.
\<close>

definition accountHears :: "accountPtr \<times> onlineStatus \<times> onlineStatus \<Rightarrow> 'a managerWorld_scheme \<Rightarrow> 'a managerWorld_scheme" where
  "accountHears = (\<lambda>(p, newStatus, oldStatus) w.
     let (a, ob) = accountStatusChanged (managerEnv True w) newStatus oldStatus (aw_account w p, aw_objects w)
     in w\<lparr>aw_account := (aw_account w)(p := a), aw_objects := ob\<rparr>)"

lemma accountHears_account:
  "aw_account (accountHears (p, n, old) w) q
    = (if q = p then fst (accountStatusChanged (managerEnv True w) n old (aw_account w p, aw_objects w)) else aw_account w q)"
  by (simp add: accountHears_def split: prod.split)

lemma accountHears_frame:
  "am_suspended (accountHears h w) = am_suspended w" "am_network (accountHears h w) = am_network w"
  "am_accounts (accountHears h w) = am_accounts w" "aw_i18n (accountHears h w) = aw_i18n w"
  "am_suspendedStatusCategory (accountHears h w) = am_suspendedStatusCategory w"
  "am_suspendedStatusMessage (accountHears h w) = am_suspendedStatusMessage w"
  by (simp_all add: accountHears_def split: prod.split)

lemma heard_frame:
  "am_suspended (fold accountHears hs w) = am_suspended w" "am_network (fold accountHears hs w) = am_network w"
  "am_accounts (fold accountHears hs w) = am_accounts w" "aw_i18n (fold accountHears hs w) = aw_i18n w"
  "am_suspendedStatusCategory (fold accountHears hs w) = am_suspendedStatusCategory w"
  "am_suspendedStatusMessage (fold accountHears hs w) = am_suspendedStatusMessage w"
  by (induction hs arbitrary: w) (simp_all add: accountHears_frame)

text \<open>An account that is heard forgets that it sleeps; the others are left alone.\<close>

lemma heard_suspended:
  "ka_suspended (aw_account (fold accountHears hs w) p) \<longleftrightarrow> p \<notin> fst ` set hs \<and> ka_suspended (aw_account w p)"
proof (induction hs arbitrary: w)
  case (Cons h hs)
  obtain q n old where h: "h = (q, n, old)" by (cases h)
  show ?case
    using Cons.IH [of "accountHears h w"]
    by (auto simp: h accountHears_account status_change_forgets_suspension)
qed simp

lemma heard_suspendStatus:
  "ka_suspendStatus (aw_account (fold accountHears hs w) p) = ka_suspendStatus (aw_account w p)"
proof (induction hs arbitrary: w)
  case (Cons h hs)
  obtain q n old where h: "h = (q, n, old)" by (cases h)
  show ?case using Cons.IH [of "accountHears h w"] by (simp add: h accountHears_account)
qed simp

text \<open>The status to which an account that sleeps goes back.\<close>

definition sleptIn :: "'a managerWorld_scheme \<Rightarrow> accountPtr \<Rightarrow> onlineStatus" where
  "sleptIn w p =
     (let status = onlineStatusOf (aw_objects w) (the (ownContact w p))
      in if ka_suspended (aw_account w p) then ka_suspendStatus (aw_account w p)
         else if os_status status = Connecting then ka_restoreStatus (aw_account w p) else status)"



end
