(* ===== verification/Kopete_AutoAway.thy ===== *)
theory Kopete_AutoAway
  imports Kopete_AccountManager
begin

text \<open>
  Going away when the user is idle: the timer that watches for idleness (\<^verbatim>\<open>kopeteidletimer.cpp\<close>) and the
  part of the status manager that it calls (\<^verbatim>\<open>kopetestatusmanager.cpp\<close>).

  The state extends that of the account manager.  The time the user is idle is an input of each
  poll; the product of two \<^verbatim>\<open>int\<close> that overflows is undefined, which is \<open>None\<close>; calls that the timer makes through the event loop are queued.  The question whether to
  go online again is only shown: \<^verbatim>\<open>askAndSetActive\<close> connects the answer to a signal that its dialog
  does not have.
\<close>

subsection \<open>The idle timer\<close>

datatype idleMember = AskAndSetActive | SetActive | SetAutoAway | OtherMember nat

type_synonym receiverPtr = nat

record timeoutReceiver =
  tr_active :: bool
  tr_msec :: int
  tr_receiver :: receiverPtr
  tr_memberActive :: idleMember
  tr_memberIdle :: idleMember

type_synonym idleCall = "receiverPtr \<times> idleMember"

text \<open>Seconds as milliseconds in an \<^verbatim>\<open>int\<close> of 32 bits.\<close>

definition milliseconds :: "int \<Rightarrow> int option" where
  "milliseconds n = (if - 2147483648 \<le> n * 1000 \<and> n * 1000 \<le> 2147483647 then Some (n * 1000) else None)"

definition registerTimeout ::
  "int \<Rightarrow> receiverPtr \<Rightarrow> idleMember \<Rightarrow> idleMember \<Rightarrow> timeoutReceiver list \<Rightarrow> timeoutReceiver list option" where
  "registerTimeout idleSeconds receiver memberActive memberIdle rs =
     map_option (\<lambda>msec. rs @ [\<lparr>tr_active = True, tr_msec = msec, tr_receiver = receiver,
                              tr_memberActive = memberActive, tr_memberIdle = memberIdle\<rparr>])
       (milliseconds idleSeconds)"

definition unregisterTimeout :: "receiverPtr \<Rightarrow> timeoutReceiver list \<Rightarrow> timeoutReceiver list" where
  "unregisterTimeout receiver rs = filter (\<lambda>r. tr_receiver r \<noteq> receiver) rs"

definition pollReceiver :: "int \<Rightarrow> timeoutReceiver \<Rightarrow> timeoutReceiver \<times> idleCall list" where
  "pollReceiver idle item =
     (let activity = (idle < 10)
      in if tr_active item \<noteq> activity \<and> (activity \<or> idle > tr_msec item)
         then (item\<lparr>tr_active := activity\<rparr>,
               [(tr_receiver item, if activity then tr_memberActive item else tr_memberIdle item)])
         else (item, []))"

definition updateIdleTime :: "int \<Rightarrow> timeoutReceiver list \<Rightarrow> (timeoutReceiver list \<times> idleCall list) option" where
  "updateIdleTime idleSeconds rs =
     map_option (\<lambda>idle. (map (fst \<circ> pollReceiver idle) rs, concat (map (snd \<circ> pollReceiver idle) rs)))
       (milliseconds idleSeconds)"

subsection \<open>The status manager\<close>

record statusWorld = managerWorld +
  sw_away :: bool
  sw_goAvailable :: bool
  sw_useCustomStatus :: bool
  sw_customMessage :: statusMessage
  sw_autoAwayAccounts :: "accountPtr list"
  sw_awayTimeout :: int
  sw_askAvailable :: bool
  sw_useAutoAway :: bool
  sw_receivers :: "timeoutReceiver list"
  sw_calls :: "idleCall list"
  sw_questions :: nat

record behaviorSettings =
  bs_autoAwayTimeout :: int
  bs_autoAwayGoAvailable :: bool
  bs_useCustomAwayMessage :: bool
  bs_customTitle :: qstring
  bs_customMessage :: qstring
  bs_useAutoAway :: bool
  bs_askAvailable :: bool

definition statusManagerPtr :: receiverPtr where "statusManagerPtr = 0"

definition onlineCategory :: u32 where "onlineCategory = 2"

definition idleCategory :: u32 where "idleCategory = 256"

definition isAwayAccount :: "'a accountWorld_scheme \<Rightarrow> accountPtr \<Rightarrow> bool" where
  "isAwayAccount w p = accountIsAway (aw_objects w) (aw_account w p)"

definition askCategory ::
  "u32 \<Rightarrow> statusMessage \<Rightarrow> accountPtr \<Rightarrow> 'a accountWorld_scheme \<Rightarrow> 'a accountWorld_scheme option" where
  "askCategory category msg p w =
     map_option (\<lambda>s. requestStatus p s msg w) (onlineStatusFor (Some (protocolOf w p)) category (aw_registry w))"

fun bringBack :: "accountPtr list \<Rightarrow> 'a managerWorld_scheme \<Rightarrow> 'a managerWorld_scheme option" where
  "bringBack [] w = Some w"
| "bringBack (p # ps) w =
     (if isConnectedAccount w p \<and> isAwayAccount w p
      then (case askCategory onlineCategory (am_globalMessage w) p w of None \<Rightarrow> None | Some w \<Rightarrow> bringBack ps w)
      else bringBack ps w)"

definition setActive :: "'a statusWorld_scheme \<Rightarrow> 'a statusWorld_scheme option" where
  "setActive w =
     (if sw_away w
      then let w = w\<lparr>sw_away := False\<rparr>
           in if sw_goAvailable w
              then map_option (\<lambda>w. w\<lparr>sw_autoAwayAccounts := []\<rparr>) (bringBack (sw_autoAwayAccounts w) w)
              else Some w
      else Some w)"

text \<open>An account without its own contact is a null pointer here.\<close>

fun sendAway :: "accountPtr list \<Rightarrow> 'a statusWorld_scheme \<Rightarrow> 'a statusWorld_scheme option" where
  "sendAway [] w = Some w"
| "sendAway (p # ps) w =
     (case ownContact w p of
        None \<Rightarrow> None
      | Some self \<Rightarrow>
          if os_status (onlineStatusOf (aw_objects w) self) = Online
          then (let w = w\<lparr>sw_autoAwayAccounts := sw_autoAwayAccounts w @ [p]\<rparr>
                in case askCategory idleCategory (if sw_useCustomStatus w then sw_customMessage w else am_globalMessage w) p w of
                     None \<Rightarrow> None
                   | Some w \<Rightarrow> sendAway ps w)
          else sendAway ps w)"

definition setAutoAway :: "'a statusWorld_scheme \<Rightarrow> 'a statusWorld_scheme option" where
  "setAutoAway w = (if \<not> sw_away w then (let w = w\<lparr>sw_away := True\<rparr> in sendAway (am_accounts w) w) else Some w)"

definition askAndSetActive :: "'a statusWorld_scheme \<Rightarrow> 'a statusWorld_scheme" where
  "askAndSetActive w = w\<lparr>sw_questions := Suc (sw_questions w)\<rparr>"

definition checkIdleTimer :: "'a statusWorld_scheme \<Rightarrow> 'a statusWorld_scheme option" where
  "checkIdleTimer w =
     (let w = w\<lparr>sw_receivers := unregisterTimeout statusManagerPtr (sw_receivers w)\<rparr>
      in if isAnyAccountConnected w \<and> sw_useAutoAway w
         then map_option (\<lambda>rs. w\<lparr>sw_receivers := rs\<rparr>)
                (registerTimeout (sw_awayTimeout w) statusManagerPtr
                   (if sw_askAvailable w then AskAndSetActive else SetActive) SetAutoAway (sw_receivers w))
         else Some w)"

definition accountUnregistered :: "accountPtr \<Rightarrow> 'a statusWorld_scheme \<Rightarrow> 'a statusWorld_scheme" where
  "accountUnregistered p w = w\<lparr>sw_autoAwayAccounts := removeAll p (sw_autoAwayAccounts w)\<rparr>"

definition loadBehaviorSettings :: "behaviorSettings \<Rightarrow> 'a statusWorld_scheme \<Rightarrow> 'a statusWorld_scheme option" where
  "loadBehaviorSettings bs w =
     checkIdleTimer
       (w\<lparr>sw_awayTimeout := bs_autoAwayTimeout bs, sw_goAvailable := bs_autoAwayGoAvailable bs,
          sw_useCustomStatus := bs_useCustomAwayMessage bs,
          sw_customMessage := \<lparr>sm_title = bs_customTitle bs, sm_message = bs_customMessage bs\<rparr>,
          sw_useAutoAway := bs_useAutoAway bs, sw_askAvailable := bs_askAvailable bs\<rparr>)"

subsection \<open>The event loop\<close>

definition pollIdle :: "int \<Rightarrow> 'a statusWorld_scheme \<Rightarrow> 'a statusWorld_scheme option" where
  "pollIdle idleSeconds w =
     map_option (\<lambda>(rs, cs). w\<lparr>sw_receivers := rs, sw_calls := sw_calls w @ cs\<rparr>) (updateIdleTime idleSeconds (sw_receivers w))"

definition callMember :: "idleCall \<Rightarrow> 'a statusWorld_scheme \<Rightarrow> 'a statusWorld_scheme option" where
  "callMember c w =
     (if fst c \<noteq> statusManagerPtr then Some w
      else case snd c of
             AskAndSetActive \<Rightarrow> Some (askAndSetActive w)
           | SetActive \<Rightarrow> setActive w
           | SetAutoAway \<Rightarrow> setAutoAway w
           | OtherMember n \<Rightarrow> Some w)"

fun runCalls :: "idleCall list \<Rightarrow> 'a statusWorld_scheme \<Rightarrow> 'a statusWorld_scheme option" where
  "runCalls [] w = Some w"
| "runCalls (c # cs) w = (case callMember c w of None \<Rightarrow> None | Some w \<Rightarrow> runCalls cs w)"

definition runEventLoop :: "'a statusWorld_scheme \<Rightarrow> 'a statusWorld_scheme option" where
  "runEventLoop w = runCalls (sw_calls w) (w\<lparr>sw_calls := []\<rparr>)"

text \<open>
  The protocol sets the status of the own contact of an account.  A status that is the one it has is
  not passed on.  The account hears of another one, and so does the manager of accounts if the
  account is registered with it; that tells the manager of the status.
\<close>

definition ownStatusHeard :: "accountPtr \<Rightarrow> onlineStatus \<Rightarrow> 'a statusWorld_scheme \<Rightarrow> 'a statusWorld_scheme option" where
  "ownStatusHeard p s w =
     (case ownContact w p of
        None \<Rightarrow> Some w
      | Some self \<Rightarrow>
          (let old = c_onlineStatus (ob_contact (aw_objects w) self)
           in if os_eq s old then Some w
              else
                let w = accountHears (p, s, old) (w\<lparr>aw_objects := setContactOnlineStatus self s (aw_objects w)\<rparr>)
                in if p \<in> set (am_accounts w) then checkIdleTimer (managerStatusChanged (aw_objects w) self s old w) else Some w))"

subsection \<open>The calls of one receiver\<close>

fun pollMany :: "int list \<Rightarrow> timeoutReceiver \<Rightarrow> idleCall list" where
  "pollMany [] item = []"
| "pollMany (n # ns) item = (let (item', cs) = pollReceiver n item in cs @ pollMany ns item')"

lemma pollReceiver_cases:
  obtains "pollReceiver n item = (item, [])"
  | "tr_active item" "10 \<le> n" "tr_msec item < n"
    "pollReceiver n item = (item\<lparr>tr_active := False\<rparr>, [(tr_receiver item, tr_memberIdle item)])"
  | "\<not> tr_active item" "n < 10"
    "pollReceiver n item = (item\<lparr>tr_active := True\<rparr>, [(tr_receiver item, tr_memberActive item)])"
  by (cases "tr_active item"; cases "n < 10"; cases "tr_msec item < n") (auto simp: pollReceiver_def Let_def)

text \<open>
  However long the user is idle at each poll, a receiver is told in turn that the user is idle and that
  the user is back, beginning with idle for a new registration: never twice the same.
\<close>

theorem idle_calls_alternate:
  "i < length (pollMany ns item) \<Longrightarrow>
    pollMany ns item ! i
      = (tr_receiver item, if even i = tr_active item then tr_memberIdle item else tr_memberActive item)"
proof (induction ns arbitrary: item i)
  case (Cons n ns)
  show ?case
  proof (rule pollReceiver_cases [of n item])
    assume "pollReceiver n item = (item, [])"
    with Cons show ?thesis by simp
  next
    assume a: "tr_active item" and p: "pollReceiver n item = (item\<lparr>tr_active := False\<rparr>, [(tr_receiver item, tr_memberIdle item)])"
    show ?thesis
    proof (cases i)
      case (Suc j)
      with Cons.prems p Cons.IH [of j "item\<lparr>tr_active := False\<rparr>"] a show ?thesis by simp
    qed (use a p in simp)
  next
    assume a: "\<not> tr_active item" and p: "pollReceiver n item = (item\<lparr>tr_active := True\<rparr>, [(tr_receiver item, tr_memberActive item)])"
    show ?thesis
    proof (cases i)
      case (Suc j)
      with Cons.prems p Cons.IH [of j "item\<lparr>tr_active := True\<rparr>"] a show ?thesis by simp
    qed (use a p in simp)
  qed
qed simp

definition awayReceiver :: timeoutReceiver where
  "awayReceiver = \<lparr>tr_active = True, tr_msec = 600000, tr_receiver = 0, tr_memberActive = SetActive, tr_memberIdle = SetAutoAway\<rparr>"

theorem idle_calls_alternate_witness:
  "pollMany [700000, 0] awayReceiver ! 1 = (tr_receiver awayReceiver, if even (1 :: nat) = tr_active awayReceiver then tr_memberIdle awayReceiver else tr_memberActive awayReceiver)"
  by (rule idle_calls_alternate) (simp add: awayReceiver_def pollReceiver_def)

subsection \<open>Away and back\<close>

abbreviation isOnlineAccount :: "'a accountWorld_scheme \<Rightarrow> accountPtr \<Rightarrow> bool" where
  "isOnlineAccount w p \<equiv> os_status (onlineStatusOf (aw_objects w) (the (ownContact w p))) = Online"

lemma askCategory_asks:
  "category \<noteq> 0 \<Longrightarrow> askCategory category msg p w = Some (requestStatus p (askedFor category w p) msg w)"
  using status_found [of category "protocolOf w p" "aw_registry w"] by (auto simp: askCategory_def)

lemma requestStatus_status [simp]:
  "aw_objects (requestStatus p s msg w) = aw_objects w" "ownContact (requestStatus p s msg w) = ownContact w"
  "isConnectedAccount (requestStatus p s msg w) = isConnectedAccount w" "isAwayAccount (requestStatus p s msg w) = isAwayAccount w"
  by (auto simp: requestStatus_def ownContact_def isConnectedAccount_def isAwayAccount_def kaccountConnected_def accountIsAway_def
      emitAccount_def fun_eq_iff split: option.split)

lemma requestStatus_manager [simp]:
  "sw_away (requestStatus p s msg v) = sw_away v" "sw_autoAwayAccounts (requestStatus p s msg v) = sw_autoAwayAccounts v"
  "sw_useCustomStatus (requestStatus p s msg v) = sw_useCustomStatus v" "sw_customMessage (requestStatus p s msg v) = sw_customMessage v"
  "am_globalMessage (requestStatus p s msg v') = am_globalMessage v'"
  by (simp_all add: requestStatus_def)

lemma bringBack_events:
  "distinct ps \<Longrightarrow> \<exists>v. bringBack ps w = Some v
    \<and> (\<forall>q. ka_events (aw_account v q) = ka_events (aw_account w q)
         @ (if q \<in> set ps \<and> isConnectedAccount w q \<and> isAwayAccount w q
            then [RequestStatus (askedFor onlineCategory w q) (am_globalMessage w)] else []))"
proof (induction ps arbitrary: w)
  case (Cons p ps)
  let ?w = "if isConnectedAccount w p \<and> isAwayAccount w p
    then requestStatus p (askedFor onlineCategory w p) (am_globalMessage w) w else w"
  have "bringBack (p # ps) w = bringBack ps ?w" by (simp add: askCategory_asks onlineCategory_def)
  moreover obtain v where "bringBack ps ?w = Some v"
    "\<forall>q. ka_events (aw_account v q) = ka_events (aw_account ?w q)
         @ (if q \<in> set ps \<and> isConnectedAccount ?w q \<and> isAwayAccount ?w q
            then [RequestStatus (askedFor onlineCategory ?w q) (am_globalMessage ?w)] else [])"
    using Cons.IH [of ?w] Cons.prems by auto
  ultimately show ?case using Cons.prems by (intro exI [of _ v]) (simp add: requestStatus_events)
qed simp

lemma bringBack_away:
  fixes w :: "'a statusWorld_scheme"
  assumes "bringBack ps w = Some v"
  shows "sw_away v = sw_away w"
  using assms
proof (induction ps arbitrary: w)
  case (Cons p ps)
  have "bringBack (p # ps) w = bringBack ps (if isConnectedAccount w p \<and> isAwayAccount w p
      then requestStatus p (askedFor onlineCategory w p) (am_globalMessage w) w else w)"
    by (simp add: askCategory_asks onlineCategory_def)
  with Cons show ?case by (auto split: if_splits)
qed simp

definition awayMessage :: "'a statusWorld_scheme \<Rightarrow> statusMessage" where
  "awayMessage w = (if sw_useCustomStatus w then sw_customMessage w else am_globalMessage w)"

lemma sendAway_events:
  assumes "distinct ps" "\<forall>p \<in> set ps. ownContact w p \<noteq> None"
  shows "\<exists>v. sendAway ps w = Some v \<and> sw_away v = sw_away w
    \<and> sw_autoAwayAccounts v = sw_autoAwayAccounts w @ filter (isOnlineAccount w) ps
    \<and> (\<forall>q. ka_events (aw_account v q) = ka_events (aw_account w q)
         @ (if q \<in> set ps \<and> isOnlineAccount w q then [RequestStatus (askedFor idleCategory w q) (awayMessage w)] else []))"
  using assms
proof (induction ps arbitrary: w)
  case (Cons p ps)
  obtain self where self: "ownContact w p = Some self" using Cons.prems(2) by auto
  define w1 where "w1 = (if isOnlineAccount w p
    then requestStatus p (askedFor idleCategory w p) (awayMessage w) (w\<lparr>sw_autoAwayAccounts := sw_autoAwayAccounts w @ [p]\<rparr>) else w)"
  have step: "sendAway (p # ps) w = sendAway ps w1"
    using self askCategory_asks [of idleCategory _ p "w\<lparr>sw_autoAwayAccounts := sw_autoAwayAccounts w @ [p]\<rparr>"]
    by (simp add: w1_def awayMessage_def idleCategory_def protocolOf_def Let_def)
  have f: "aw_objects w1 = aw_objects w" "ownContact w1 = ownContact w" "sw_away w1 = sw_away w" "awayMessage w1 = awayMessage w"
    "protocolOf w1 = protocolOf w" "aw_registry w1 = aw_registry w"
    by (auto simp: w1_def awayMessage_def ownContact_def protocolOf_def fun_eq_iff)
      (simp_all add: requestStatus_def emitAccount_def)
  have e: "ka_events (aw_account w1 q) = ka_events (aw_account w q)
      @ (if q = p \<and> isOnlineAccount w p then [RequestStatus (askedFor idleCategory w p) (awayMessage w)] else [])" for q
    by (simp add: w1_def requestStatus_events)
  have l: "sw_autoAwayAccounts w1 = sw_autoAwayAccounts w @ (if isOnlineAccount w p then [p] else [])"
    by (simp add: w1_def)
  obtain v where v: "sendAway ps w1 = Some v" "sw_away v = sw_away w1"
    "sw_autoAwayAccounts v = sw_autoAwayAccounts w1 @ filter (isOnlineAccount w1) ps"
    "\<forall>q. ka_events (aw_account v q) = ka_events (aw_account w1 q)
         @ (if q \<in> set ps \<and> isOnlineAccount w1 q then [RequestStatus (askedFor idleCategory w1 q) (awayMessage w1)] else [])"
    using Cons.IH [of w1] Cons.prems f(2) by auto
  show ?case using step v Cons.prems(1) by (intro exI [of _ v]) (simp add: f e l)
qed simp

text \<open>
  C28: When the user has been idle, exactly the accounts that were online are asked to go away, and remembered;
  when the user is back, exactly those of them that are connected and away by then are asked to go
  online again, and forgotten.  An account that the user had set away is left alone by both.
\<close>

theorem away_and_back:
  assumes "\<not> sw_away w" "sw_autoAwayAccounts w = []" "distinct (am_accounts w)" "\<forall>p \<in> set (am_accounts w). ownContact w p \<noteq> None"
    and later: "sw_away u" "sw_goAvailable u" "sw_autoAwayAccounts u = filter (isOnlineAccount w) (am_accounts w)"
  shows "\<exists>v x. setAutoAway w = Some v \<and> sw_away v \<and> sw_autoAwayAccounts v = sw_autoAwayAccounts u
    \<and> (\<forall>q. ka_events (aw_account v q) = ka_events (aw_account w q)
         @ (if q \<in> set (am_accounts w) \<and> isOnlineAccount w q then [RequestStatus (askedFor idleCategory w q) (awayMessage w)] else []))
    \<and> setActive u = Some x \<and> \<not> sw_away x \<and> sw_autoAwayAccounts x = []
    \<and> (\<forall>q. ka_events (aw_account x q) = ka_events (aw_account u q)
         @ (if q \<in> set (am_accounts w) \<and> isOnlineAccount w q \<and> isConnectedAccount u q \<and> isAwayAccount u q
            then [RequestStatus (askedFor onlineCategory u q) (am_globalMessage u)] else []))"
proof -
  let ?w = "w\<lparr>sw_away := True\<rparr>"
  have f: "ownContact ?w = ownContact w" "awayMessage ?w = awayMessage w" "protocolOf ?w = protocolOf w"
    by (simp_all add: ownContact_def awayMessage_def protocolOf_def fun_eq_iff)
  obtain v where v: "sendAway (am_accounts w) ?w = Some v" "sw_away v"
    "sw_autoAwayAccounts v = filter (isOnlineAccount w) (am_accounts w)"
    "\<forall>q. ka_events (aw_account v q) = ka_events (aw_account w q)
         @ (if q \<in> set (am_accounts w) \<and> isOnlineAccount w q then [RequestStatus (askedFor idleCategory w q) (awayMessage w)] else [])"
    using sendAway_events [OF assms(3), of ?w] assms(2,4) by (auto simp: f)
  have sv: "setAutoAway w = Some v" using assms(1) v(1) by (simp add: setAutoAway_def Let_def)
  let ?u = "u\<lparr>sw_away := False\<rparr>"
  have g: "isConnectedAccount ?u = isConnectedAccount u" "isAwayAccount ?u = isAwayAccount u" "protocolOf ?u = protocolOf u"
    by (simp_all add: isConnectedAccount_def isAwayAccount_def protocolOf_def fun_eq_iff)
  have "distinct (sw_autoAwayAccounts u)" using assms(3) later(3) by simp
  from bringBack_events [OF this, of ?u] obtain y where y: "bringBack (sw_autoAwayAccounts u) ?u = Some y"
    "\<forall>q. ka_events (aw_account y q) = ka_events (aw_account u q)
         @ (if q \<in> set (sw_autoAwayAccounts u) \<and> isConnectedAccount u q \<and> isAwayAccount u q
            then [RequestStatus (askedFor onlineCategory u q) (am_globalMessage u)] else [])"
    by (auto simp: g)
  have "\<not> sw_away y" using bringBack_away [OF y(1)] by simp
  moreover have "setActive u = Some (y\<lparr>sw_autoAwayAccounts := []\<rparr>)" using later y(1) by (simp add: setActive_def Let_def)
  ultimately show ?thesis
    using sv v y(2) later(3) by (intro exI [of _ v] exI [of _ "y\<lparr>sw_autoAwayAccounts := []\<rparr>"]) simp
qed

text \<open>When accounts are not to be brought back, the list of those that went away stays.\<close>

lemma setActive_keeps_list: "sw_away w \<Longrightarrow> \<not> sw_goAvailable w \<Longrightarrow> setActive w = Some (w\<lparr>sw_away := False\<rparr>)"
  by (simp add: setActive_def Let_def)

subsection \<open>A return that is missed\<close>

lemma poll_receiver_kept: "tr_receiver (fst (pollReceiver n item)) = tr_receiver item"
  "c \<in> set (snd (pollReceiver n item)) \<Longrightarrow> fst c = tr_receiver item"
  by (auto simp: pollReceiver_def Let_def split: if_splits)

abbreviation toManager :: "idleCall list \<Rightarrow> idleCall list" where
  "toManager cs \<equiv> filter (\<lambda>c. fst c = statusManagerPtr) cs"

text \<open>The calls of several polls, with the seconds that the user is idle at each.\<close>

fun polls :: "int list \<Rightarrow> timeoutReceiver list \<Rightarrow> idleCall list option" where
  "polls [] rs = Some []"
| "polls (n # ns) rs =
     (case updateIdleTime n rs of
        None \<Rightarrow> None
      | Some (rs', cs) \<Rightarrow> map_option (\<lambda>ds. cs @ ds) (polls ns rs'))"

text \<open>A receiver that is registered last has the calls that it would have alone.\<close>

lemma others_silent:
  assumes "\<forall>r \<in> set rs. tr_receiver r \<noteq> statusManagerPtr"
  shows "toManager (concat (map (snd \<circ> pollReceiver n) rs)) = []"
  using assms poll_receiver_kept(2) by (fastforce simp: filter_empty_conv)

lemma toManager_polls:
  assumes "\<forall>r \<in> set rs. tr_receiver r \<noteq> statusManagerPtr" "tr_receiver it = statusManagerPtr"
    "list_all (\<lambda>n. 0 \<le> n \<and> n \<le> 2147483) ns"
  shows "map_option toManager (polls ns (rs @ [it])) = Some (pollMany (map (\<lambda>n. n * 1000) ns) it)"
  using assms
proof (induction ns arbitrary: rs it)
  case (Cons n ns)
  let ?m = "n * 1000"
  have n: "milliseconds n = Some ?m" using Cons.prems(3) by (simp add: milliseconds_def)
  obtain it' cs where it': "pollReceiver ?m it = (it', cs)" by (cases "pollReceiver ?m it")
  have keep: "tr_receiver it' = statusManagerPtr" "toManager cs = cs"
    using poll_receiver_kept(1) [of ?m it] poll_receiver_kept(2) [of _ ?m it] it' Cons.prems(2) by (auto simp: filter_id_conv)
  let ?rs = "map (fst \<circ> pollReceiver ?m) rs"
  have "\<forall>r \<in> set ?rs. tr_receiver r \<noteq> statusManagerPtr" using Cons.prems(1) by (simp add: poll_receiver_kept(1))
  then have "map_option toManager (polls ns (?rs @ [it'])) = Some (pollMany (map (\<lambda>n. n * 1000) ns) it')"
    using Cons.IH keep(1) Cons.prems(3) by simp
  then show ?case
    using others_silent [OF Cons.prems(1), where n = ?m] keep(2)
    by (auto simp: updateIdleTime_def n it' comp_def)
qed simp

lemma connected_receivers: "isConnectedAccount (w\<lparr>sw_receivers := r\<rparr>) = isConnectedAccount w"
  by (simp add: isConnectedAccount_def fun_eq_iff)

lemma checkIdleTimer_frame:
  assumes "checkIdleTimer w = Some v"
  shows "aw_objects v = aw_objects w" "aw_account v = aw_account w" "am_accounts v = am_accounts w"
  using assms by (auto simp: checkIdleTimer_def Let_def split: if_splits)

lemma heard_settings:
  "am_accounts (accountHears h w) = am_accounts w" "sw_useAutoAway (accountHears h w') = sw_useAutoAway w'"
  "sw_askAvailable (accountHears h w') = sw_askAvailable w'" "sw_awayTimeout (accountHears h w') = sw_awayTimeout w'"
  "sw_receivers (accountHears h w') = sw_receivers w'"
  by (simp_all add: accountHears_def split: prod.split)

lemma heard_online:
  assumes "isDefinitelyOnline n"
  shows "aw_objects (accountHears (p, n, old) w) = aw_objects w"
    "ka_myself (aw_account (accountHears (p, n, old) w) q) = ka_myself (aw_account w q)"
  using assms
  by (simp_all add: accountHears_def accountStatusChanged_def setAllContactsStatus_def emitAccount_def Let_def)

text \<open>
  C34: Whenever the own contact of a registered account gets another status, which is what going away brings
  about, the manager registers anew with the idle timer, as if the user were there; here with an
  account connected, going away switched on, and nobody asked on coming back.  If the user is back at the next poll, the
  manager is not told, and the accounts stay away; only when the user is found idle for longer than the timeout
  once more, which asks for the away status again, does the following return reach the manager.
\<close>

theorem return_can_be_missed:
  assumes "p \<in> set (am_accounts w)" "ownContact w p = Some self" "\<not> os_eq s (c_onlineStatus (ob_contact (aw_objects w) self))"
    "sw_useAutoAway w" "\<not> sw_askAvailable w" "0 < sw_awayTimeout w" "sw_awayTimeout w < n" "n \<le> 2147483"
  shows "\<exists>v. ownStatusHeard p s w = Some v
    \<and> (isAnyAccountConnected v \<longrightarrow>
         map_option toManager (polls [0] (sw_receivers v)) = Some []
       \<and> map_option toManager (polls [n] (sw_receivers v)) = Some [(statusManagerPtr, SetAutoAway)]
       \<and> map_option toManager (polls [n, 0] (sw_receivers v)) = Some [(statusManagerPtr, SetAutoAway), (statusManagerPtr, SetActive)])"
proof -
  let ?old = "c_onlineStatus (ob_contact (aw_objects w) self)"
  define x where "x = (let w = accountHears (p, s, ?old) (w\<lparr>aw_objects := setContactOnlineStatus self s (aw_objects w)\<rparr>)
    in managerStatusChanged (aw_objects w) self s ?old w)"
  have x: "am_accounts x = am_accounts w" "sw_useAutoAway x" "\<not> sw_askAvailable x" "sw_awayTimeout x = sw_awayTimeout w"
    using assms(4,5) by (simp_all add: x_def managerStatusChanged_def tell_def heard_settings Let_def)
  have heard: "ownStatusHeard p s w = checkIdleTimer x"
    using assms(1-3) by (simp add: ownStatusHeard_def x_def heard_settings Let_def)
  let ?o = "unregisterTimeout statusManagerPtr (sw_receivers x)"
  let ?it = "\<lparr>tr_active = True, tr_msec = sw_awayTimeout w * 1000, tr_receiver = statusManagerPtr,
    tr_memberActive = SetActive, tr_memberIdle = SetAutoAway\<rparr>"
  have ms: "milliseconds (sw_awayTimeout w) = Some (sw_awayTimeout w * 1000)"
    using assms(6-8) by (simp add: milliseconds_def)
  define v where "v = x\<lparr>sw_receivers := if isAnyAccountConnected x then ?o @ [?it] else ?o\<rparr>"
  have conn: "isAnyAccountConnected (x\<lparr>sw_receivers := r\<rparr>) = isAnyAccountConnected x" for r
    by (simp add: isAnyAccountConnected_def connected_receivers)
  have v: "checkIdleTimer x = Some v"
    by (simp add: checkIdleTimer_def conn x(2-4) registerTimeout_def ms v_def Let_def)
  have o: "\<forall>r \<in> set ?o. tr_receiver r \<noteq> statusManagerPtr" by (simp add: unregisterTimeout_def)
  have n: "0 < n" "sw_awayTimeout w * 1000 < n * 1000" "\<not> n * 1000 < 10" using assms(6,7) by simp_all
  have many: "map_option toManager (polls ns (?o @ [?it])) = Some (pollMany (map (\<lambda>n. n * 1000) ns) ?it)"
    if "list_all (\<lambda>n. 0 \<le> n \<and> n \<le> 2147483) ns" for ns
    by (rule toManager_polls [OF o _ that]) simp
  have away: "pollReceiver (n * 1000) ?it = (?it\<lparr>tr_active := False\<rparr>, [(statusManagerPtr, SetAutoAway)])"
    using n by (simp add: pollReceiver_def)
  have ret: "pollReceiver 0 (?it\<lparr>tr_active := False\<rparr>) = (?it, [(statusManagerPtr, SetActive)])" "pollReceiver 0 ?it = (?it, [])"
    by (simp_all add: pollReceiver_def)
  have "isAnyAccountConnected v = isAnyAccountConnected x" by (simp add: v_def conn)
  then have rs: "sw_receivers v = ?o @ [?it]" if "isAnyAccountConnected v" using that by (simp add: v_def)
  show ?thesis
  proof (intro exI [of _ v] conjI impI)
    show "ownStatusHeard p s w = Some v" using heard v by simp
    assume "isAnyAccountConnected v"
    note rs = rs [OF this]
    show "map_option toManager (polls [0] (sw_receivers v)) = Some []"
      using many [of "[0]"] ret(2) by (simp add: rs)
    show "map_option toManager (polls [n] (sw_receivers v)) = Some [(statusManagerPtr, SetAutoAway)]"
      using many [of "[n]"] away n assms(8) by (simp add: rs)
    show "map_option toManager (polls [n, 0] (sw_receivers v)) = Some [(statusManagerPtr, SetAutoAway), (statusManagerPtr, SetActive)]"
      using many [of "[n, 0]"] away ret n assms(8) by (simp add: rs)
  qed
qed

definition sampleStatus :: statusWorld where
  "sampleStatus = managerWorld.extend (sampleManager\<lparr>am_accounts := [0]\<rparr>)
     \<lparr>sw_away = False, sw_goAvailable = True, sw_useCustomStatus = False, sw_customMessage = noMessage, sw_autoAwayAccounts = [],
      sw_awayTimeout = 600, sw_askAvailable = False, sw_useAutoAway = True, sw_receivers = [], sw_calls = [], sw_questions = 0\<rparr>"

lemma sample_status_fields:
  "am_accounts sampleStatus = [0]" "aw_objects sampleStatus = sampleObjects" "ownContact sampleStatus 0 = Some 0"
  "\<not> sw_away sampleStatus" "sw_autoAwayAccounts sampleStatus = []" "sw_useAutoAway sampleStatus" "\<not> sw_askAvailable sampleStatus"
  "sw_awayTimeout sampleStatus = 600" "sw_goAvailable sampleStatus"
  by (simp_all add: sampleStatus_def sampleManager_def sampleWorld_def managerWorld.defs accountWorld.defs statusWorld.defs ownContact_def)

theorem return_can_be_missed_witness:
  "\<exists>v. ownStatusHeard 0 (builtinStatus id Away) sampleStatus = Some v \<and> isAnyAccountConnected v
    \<and> map_option toManager (polls [0] (sw_receivers v)) = Some []
    \<and> map_option toManager (polls [700, 0] (sw_receivers v)) = Some [(statusManagerPtr, SetAutoAway), (statusManagerPtr, SetActive)]"
proof -
  have ne: "\<not> os_eq (builtinStatus id Away) (c_onlineStatus (ob_contact (aw_objects sampleStatus) 0))"
    by (simp add: sample_status_fields)
      (simp add: sampleObjects_def newContactObject_def builtinStatus_def mkOnlineStatus_def os_eq_def qstr_def)
  from return_can_be_missed [OF _ _ this, of 0 700] obtain v where
    v: "ownStatusHeard 0 (builtinStatus id Away) sampleStatus = Some v" "isAnyAccountConnected v \<longrightarrow>
         map_option toManager (polls [0] (sw_receivers v)) = Some []
       \<and> map_option toManager (polls [700] (sw_receivers v)) = Some [(statusManagerPtr, SetAutoAway)]
       \<and> map_option toManager (polls [700, 0] (sw_receivers v)) = Some [(statusManagerPtr, SetAutoAway), (statusManagerPtr, SetActive)]"
    by (auto simp: sample_status_fields)
  let ?o = "setContactOnlineStatus 0 (builtinStatus id Away) sampleObjects"
  have on: "isDefinitelyOnline (builtinStatus id Away)"
    by (simp add: isDefinitelyOnline_def builtinStatus_def mkOnlineStatus_def)
  have "aw_objects v = ?o \<and> am_accounts v = [0] \<and> ka_myself (aw_account v 0) = Some 0"
    using v(1) ne
    by (simp add: ownStatusHeard_def sample_status_fields(1,2,3) heard_settings(1) Let_def)
      (simp add: checkIdleTimer_frame managerStatusChanged_def tell_def heard_online [OF on] heard_settings(1)
        sample_status_fields(1,2) sample_status_fields(3) [unfolded ownContact_def])
  moreover have "contactIsOnline ?o 0"
    using status_setContactOnlineStatus [of 0 "builtinStatus id Away" sampleObjects]
    by (simp add: contactIsOnline_def onlineStatusOf_def)
      (simp add: sampleObjects_def newContactObject_def sampleAccount_def isDefinitelyOnline_def
        builtinStatus_def mkOnlineStatus_def os_eq_def Let_def)
  ultimately have "isAnyAccountConnected v"
    by (simp add: isAnyAccountConnected_def isConnectedAccount_def kaccountConnected_def)
  with v show ?thesis by blast
qed

theorem away_and_back_witness:
  "\<exists>v x. setAutoAway sampleStatus = Some v \<and> sw_away v \<and> sw_autoAwayAccounts v = [0]
    \<and> setActive (sampleStatus\<lparr>sw_away := True, sw_autoAwayAccounts := [0]\<rparr>) = Some x \<and> \<not> sw_away x \<and> sw_autoAwayAccounts x = []"
proof -
  have "isOnlineAccount sampleStatus 0"
    by (simp add: sample_status_fields)
      (simp add: sampleObjects_def newContactObject_def onlineStatusOf_def sampleAccount_def builtinStatus_def mkOnlineStatus_def Let_def)
  then show ?thesis
    using away_and_back [of sampleStatus "sampleStatus\<lparr>sw_away := True, sw_autoAwayAccounts := [0]\<rparr>"]
    by (auto simp: sample_status_fields)
qed

end
