(* ===== verification/Qt_String.thy ===== *)
theory Qt_String
  imports Kopete_Prelude
begin

text \<open>
  The operations of Qt's \<^verbatim>\<open>QString\<close> the sources of \<^verbatim>\<open>libkopete\<close> use, on lists of UTF-16 code
  units: blanks, words, searching, replacing and place markers; with the lemmas that say what
  a replacement does to a text made of tokens.
\<close>

subsection \<open>Blanks and words\<close>

definition qIsSpace :: "u16 \<Rightarrow> bool" where
  "qIsSpace c \<longleftrightarrow> c = 0x20 \<or> (0x09 \<le> c \<and> c \<le> 0x0D) \<or> c = 0x85 \<or> c = 0xA0 \<or> c = 0x1680
     \<or> (0x2000 \<le> c \<and> c \<le> 0x200A) \<or> c = 0x2028 \<or> c = 0x2029 \<or> c = 0x202F \<or> c = 0x205F \<or> c = 0x3000"

primrec splitSpaces :: "qstring \<Rightarrow> qstring list" where
  "splitSpaces [] = [[]]"
| "splitSpaces (c # cs) =
     (if qIsSpace c then [] # splitSpaces cs else (c # hd (splitSpaces cs)) # tl (splitSpaces cs))"

definition qwords :: "qstring \<Rightarrow> qstring list" where
  "qwords s = filter (\<lambda>w. w \<noteq> []) (splitSpaces s)"

text \<open>\<^verbatim>\<open>QStringList::join\<close>, and \<^verbatim>\<open>QString::simplified\<close>: every run of blanks is one space and there are none
  at the ends.\<close>

fun qjoin :: "qstring \<Rightarrow> qstring list \<Rightarrow> qstring" where
  "qjoin sep [] = []"
| "qjoin sep [w] = w"
| "qjoin sep (w # w' # ws) = w @ sep @ qjoin sep (w' # ws)"

definition qsimplified :: "qstring \<Rightarrow> qstring" where
  "qsimplified s = qjoin [0x20] (qwords s)"

subsection \<open>Searching and replacing\<close>

text \<open>\<^verbatim>\<open>QString::indexOf\<close> from a position that is not negative.\<close>

fun qfind :: "qstring \<Rightarrow> qstring \<Rightarrow> nat option" where
  "qfind p [] = (if p = [] then Some 0 else None)"
| "qfind p (c # s) =
     (if take (length p) (c # s) = p then Some 0 else map_option Suc (qfind p s))"

definition qindexOf :: "qstring \<Rightarrow> nat \<Rightarrow> qstring \<Rightarrow> nat option" where
  "qindexOf p from' s = (if from' \<le> length s then map_option ((+) from') (qfind p (drop from' s)) else None)"

text \<open>\<^verbatim>\<open>QString::replace\<close> of every occurrence, from the left; the needles of the sources are not empty.\<close>

fun qreplace :: "qstring \<Rightarrow> qstring \<Rightarrow> qstring \<Rightarrow> qstring" where
  "qreplace p r [] = []"
| "qreplace p r (c # s) =
     (if p \<noteq> [] \<and> take (length p) (c # s) = p then r @ qreplace p r (drop (length p - 1) s)
      else c # qreplace p r s)"

text \<open>The same for a needle of two characters.\<close>

fun replacePair :: "u16 \<Rightarrow> u16 \<Rightarrow> qstring \<Rightarrow> qstring \<Rightarrow> qstring" where
  "replacePair a b by' (x # y # s) = (if x = a \<and> y = b then by' @ replacePair a b by' s else x # replacePair a b by' (y # s))"
| "replacePair a b by' s = s"

definition digitValue :: "u16 \<Rightarrow> nat option" where
  "digitValue c = (if 0x30 \<le> c \<and> c \<le> 0x39 then Some (unat c - 48) else None)"

text \<open>\<^verbatim>\<open>QString::arg\<close>: the place markers with the lowest number are replaced.  A marker is a percent
  sign, an optional L and one or two digits.\<close>

datatype piece = Plain u16 | Marker nat qstring

fun digitsAt :: "qstring \<Rightarrow> (nat \<times> qstring \<times> qstring) option" where
  "digitsAt [] = None"
| "digitsAt (c # s) =
     (case digitValue c of
        None \<Rightarrow> None
      | Some d \<Rightarrow> (case s of
           [] \<Rightarrow> Some (d, [c], [])
         | c' # s' \<Rightarrow> (case digitValue c' of None \<Rightarrow> Some (d, [c], s) | Some d' \<Rightarrow> Some (10 * d + d', [c, c'], s'))))"

definition markerAt :: "qstring \<Rightarrow> (nat \<times> qstring \<times> qstring) option" where
  "markerAt s =
     (case s of
        [] \<Rightarrow> None
      | c # s' \<Rightarrow>
          if c = 0x4C then map_option (\<lambda>(n, text, rest). (n, c # text, rest)) (digitsAt s') else digitsAt s)"

lemma digitsAt_shorter: "digitsAt s = Some (n, text, rest) \<Longrightarrow> length rest < length s"
  by (cases s) (auto split: option.splits list.splits)

lemma markerAt_shorter: "markerAt s = Some (n, text, rest) \<Longrightarrow> length rest < length s"
  by (auto simp: markerAt_def simp del: digitsAt.simps split: list.splits if_splits dest!: digitsAt_shorter)

function pieces :: "qstring \<Rightarrow> piece list" where
  "pieces [] = []"
| "pieces (c # s) =
     (if c = 0x25
      then (case markerAt s of None \<Rightarrow> Plain c # pieces s | Some (n, text, rest) \<Rightarrow> Marker n (c # text) # pieces rest)
      else Plain c # pieces s)"
  by pat_completeness auto
termination
  by (relation "measure length") (auto dest: markerAt_shorter)

fun markerNumbers :: "piece list \<Rightarrow> nat list" where
  "markerNumbers [] = []"
| "markerNumbers (Plain c # ps) = markerNumbers ps"
| "markerNumbers (Marker n text # ps) = n # markerNumbers ps"

fun pieceText :: "nat option \<Rightarrow> qstring \<Rightarrow> piece \<Rightarrow> qstring" where
  "pieceText low a (Plain c) = [c]"
| "pieceText low a (Marker n text) = (if low = Some n then a else text)"

definition qarg :: "qstring \<Rightarrow> qstring \<Rightarrow> qstring" where
  "qarg s a =
     (let ps = pieces s; ns = markerNumbers ps
      in concat (map (pieceText (if ns = [] then None else Some (Min (set ns))) a) ps))"



text \<open>Insertion into a \<^verbatim>\<open>QMap\<close>, the list of its entries in the order of the keys.\<close>

fun qmapSet :: "nat \<Rightarrow> 'v \<Rightarrow> (nat \<times> 'v) list \<Rightarrow> (nat \<times> 'v) list" where
  "qmapSet k v [] = [(k, v)]"
| "qmapSet k v ((k', v') # xs) =
     (if k < k' then (k, v) # (k', v') # xs else if k = k' then (k, v) # xs else (k', v') # qmapSet k v xs)"

subsection \<open>What they do\<close>

lemma splitSpaces_nonempty: "splitSpaces s \<noteq> []"
  by (induction s) auto

lemma length_qjoin: "length (qjoin [b] ws) = sum_list (map length ws) + (length ws - 1)"
  by (induction "[b]" ws rule: qjoin.induct) auto

lemma splitSpaces_sum: "sum_list (map length (splitSpaces s)) + length (splitSpaces s) = Suc (length s)"
proof (induction s)
  case (Cons c s)
  then show ?case
    by (cases "splitSpaces s") (auto simp: splitSpaces_nonempty)
qed simp

lemma sum_filter_nonempty: "sum_list (map length (filter (\<lambda>w. w \<noteq> []) ws)) = sum_list (map length ws)"
  by (induction ws) auto

lemma length_qsimplified: "length (qsimplified s) \<le> length s"
proof -
  have "length (filter (\<lambda>w. w \<noteq> []) (splitSpaces s)) - 1 \<le> length (splitSpaces s) - 1"
    by (intro diff_le_mono length_filter_le)
  moreover have "length (splitSpaces s) \<noteq> 0" by (simp add: splitSpaces_nonempty)
  moreover have "length (qsimplified s) = sum_list (map length (splitSpaces s))
      + (length (filter (\<lambda>w. w \<noteq> []) (splitSpaces s)) - 1)"
    by (simp add: qsimplified_def qwords_def length_qjoin sum_filter_nonempty)
  ultimately show ?thesis
    using splitSpaces_sum [of s] by linarith
qed

text \<open>A text whose blanks are single spaces inside of it is simplified already; \<open>b\<close> says that the
  character before the text was a blank, or that there is none.\<close>

fun tidyFrom :: "bool \<Rightarrow> qstring \<Rightarrow> bool" where
  "tidyFrom b [] \<longleftrightarrow> \<not> b"
| "tidyFrom b (c # s) \<longleftrightarrow>
     (if qIsSpace c then \<not> b \<and> c = 0x20 \<and> tidyFrom True s else tidyFrom False s)"

lemma tidyFrom_word: "\<forall>c \<in> set w. \<not> qIsSpace c \<Longrightarrow> w \<noteq> [] \<Longrightarrow> tidyFrom b (w @ s) = tidyFrom False s"
proof (induction w arbitrary: b)
  case (Cons a w)
  then show ?case by (cases w) auto
qed simp

lemma qjoin_Cons: "ws \<noteq> [] \<Longrightarrow> qjoin sep (w # ws) = w @ sep @ qjoin sep ws"
  by (cases ws) auto

lemma qjoin_extend: "ws \<noteq> [] \<Longrightarrow> qjoin sep ((c # hd ws) # tl ws) = c # qjoin sep ws"
  by (cases ws; cases "tl ws") auto

lemma join_splitSpaces:
  "\<forall>c \<in> set s. qIsSpace c \<longrightarrow> c = 0x20 \<Longrightarrow> qjoin [0x20] (splitSpaces s) = s"
  by (induction s) (auto simp: splitSpaces_nonempty qjoin_Cons qjoin_extend)

lemma tidyFrom_words:
  "tidyFrom b s \<Longrightarrow> (\<forall>c \<in> set s. qIsSpace c \<longrightarrow> c = 0x20) \<and> (b \<longrightarrow> hd (splitSpaces s) \<noteq> [])
     \<and> [] \<notin> set (tl (splitSpaces s))"
  by (induction b s rule: tidyFrom.induct)
    (auto split: if_splits simp: splitSpaces_nonempty dest: list.set_sel(1),
      metis list.set_cases list.sel(1,3) splitSpaces_nonempty)

lemma qsimplified_tidy: "tidyFrom True s \<Longrightarrow> qsimplified s = s"
proof -
  assume t: "tidyFrom True s"
  have "[] \<notin> set (splitSpaces s)"
    using tidyFrom_words [OF t] splitSpaces_nonempty [of s] by (cases "splitSpaces s") auto
  then have "qwords s = splitSpaces s"
    by (auto simp: qwords_def intro: filter_True)
  with tidyFrom_words [OF t] show ?thesis
    by (simp add: qsimplified_def join_splitSpaces)
qed

text \<open>An entity begins with an ampersand, ends with a semicolon and has neither between them.\<close>

abbreviation (input) amp :: u16 where "amp \<equiv> 0x26"
abbreviation (input) semi :: u16 where "semi \<equiv> 0x3B"

definition entity :: "qstring \<Rightarrow> bool" where
  "entity t \<longleftrightarrow> (\<exists>w. t = amp # w @ [semi] \<and> amp \<notin> set w \<and> semi \<notin> set w)"

lemma entity_prefix:
  assumes "entity p" "entity t" "take (length p) (t @ rest) = p"
  shows "t = p"
proof -
  obtain w v where w: "p = amp # w @ [semi]" "semi \<notin> set w" and v: "t = amp # v @ [semi]" "semi \<notin> set v"
    using assms(1,2) by (auto simp: entity_def)
  have "takeWhile (\<lambda>c. c \<noteq> semi) (t @ rest) = amp # v"
    using v by (auto simp: takeWhile_tail)
  moreover have "takeWhile (\<lambda>c. c \<noteq> semi) (p @ drop (length p) (t @ rest)) = amp # w"
    using w by (auto simp: takeWhile_tail)
  moreover have "p @ drop (length p) (t @ rest) = t @ rest"
    using assms(3) by (metis append_take_drop_id)
  ultimately show ?thesis using w v by simp
qed

lemma qreplace_hit: "p \<noteq> [] \<Longrightarrow> qreplace p r (p @ s) = r @ qreplace p r s"
  by (cases p) auto

lemma qreplace_skip: "p = amp # q \<Longrightarrow> amp \<notin> set w \<Longrightarrow> qreplace p r (w @ s) = w @ qreplace p r s"
  by (induction w) auto

lemma qreplace_entity:
  assumes "entity p" "entity t" "t \<noteq> p"
  shows "qreplace p r (t @ s) = t @ qreplace p r s"
proof -
  obtain w where w: "t = amp # w" "amp \<notin> set w" using assms(2) by (auto simp: entity_def)
  obtain q where q: "p = amp # q" using assms(1) by (auto simp: entity_def)
  have "take (length p) (t @ s) \<noteq> p" using entity_prefix assms by blast
  then show ?thesis using w q qreplace_skip [OF q w(2), of r s] by simp
qed

lemma qreplace_tokens:
  assumes "p = amp # q" "\<And>c s. c \<in> set t \<Longrightarrow> f c \<noteq> p \<Longrightarrow> qreplace p r (f c @ s) = f c @ qreplace p r s"
  shows "qreplace p r (concat (map f t)) = concat (map (\<lambda>c. if f c = p then r else f c) t)"
  using assms(2)
proof (induction t)
  case (Cons c t)
  then have "qreplace p r (concat (map f t)) = concat (map (\<lambda>c. if f c = p then r else f c) t)" by simp
  moreover have "qreplace p r (p @ s) = r @ qreplace p r s" for s
    by (rule qreplace_hit) (simp add: assms(1))
  ultimately show ?case
    using Cons.prems [of c] by (auto simp del: qreplace.simps)
qed simp

lemma qreplace_char: "qreplace [a] r s = concat (map (\<lambda>c. if c = a then r else [c]) s)"
  by (induction s) auto

end
