(* ===== verification/Kopete_StatusItems.thy ===== *)
theory Kopete_StatusItems
  imports Qt_String
begin

text \<open>
  The tree of statuses that the user can choose from: \<^verbatim>\<open>kopetestatusitems.cpp\<close>, and the part of
  \<^verbatim>\<open>kopetestatusmanager.cpp\<close> that stores the tree as an XML document, reads it back and indexes it.

  Elements and texts of the document model of Qt are a datatype.  How Qt writes a document to a file and reads
  it back is a parameter (\<open>qdom\<close>), whose documented behaviour is the hypothesis \<open>qdomReads\<close>.  The random
  identifiers of new statuses, the translated texts and whether a file is written are arguments.
\<close>

subsection \<open>Numbers as text\<close>

fun digitsOf :: "nat \<Rightarrow> qstring" where
  "digitsOf n = (if n < 10 then [0x30 + of_nat n] else digitsOf (n div 10) @ [0x30 + of_nat (n mod 10)])"

declare digitsOf.simps [simp del]

definition isDigit :: "u16 \<Rightarrow> bool" where
  "isDigit c \<longleftrightarrow> 0x30 \<le> c \<and> c \<le> 0x39"

definition readDigits :: "qstring \<Rightarrow> nat option" where
  "readDigits s =
     (if s \<noteq> [] \<and> list_all isDigit s then Some (foldl (\<lambda>n c. 10 * n + unat (c - 0x30)) 0 s) else None)"

definition qtrimmed :: "qstring \<Rightarrow> qstring" where
  "qtrimmed s = rev (dropWhile qIsSpace (rev (dropWhile qIsSpace s)))"

text \<open>\<^verbatim>\<open>QString::toInt\<close> is zero for a text that is not a number of 32 bits.\<close>

definition toInt :: "qstring \<Rightarrow> int" where
  "toInt text' =
     (case qtrimmed text' of
        [] \<Rightarrow> 0
      | c # cs \<Rightarrow>
          if c = 0x2D then (case readDigits cs of None \<Rightarrow> 0 | Some n \<Rightarrow> if n \<le> 2147483648 then - int n else 0)
          else (case readDigits (if c = 0x2B then cs else c # cs) of
                  None \<Rightarrow> 0
                | Some n \<Rightarrow> if n \<le> 2147483647 then int n else 0))"

definition intText :: "int \<Rightarrow> qstring" where
  "intText i = (if i < 0 then 0x2D # digitsOf (nat (- i)) else digitsOf (nat i))"

subsection \<open>The tree\<close>

datatype statusItem =
    StatusGroup (si_uid: qstring) (si_title: qstring) (si_category: int) (si_childs: "statusItem list")
  | StatusLeaf (si_uid: qstring) (si_title: qstring) (si_category: int) (si_message: qstring)

fun isGroup :: "statusItem \<Rightarrow> bool" where
  "isGroup (StatusGroup u t c cs) = True"
| "isGroup (StatusLeaf u t c m) = False"

text \<open>\<^verbatim>\<open>QList::insert\<close> beyond the end is not defined; the position of a child is within it.\<close>

fun insertChild :: "nat \<Rightarrow> statusItem \<Rightarrow> statusItem \<Rightarrow> statusItem" where
  "insertChild i item (StatusGroup u t c cs) = StatusGroup u t c (take i cs @ item # drop i cs)"
| "insertChild i item (StatusLeaf u t c m) = StatusLeaf u t c m"

definition appendChild :: "statusItem \<Rightarrow> statusItem \<Rightarrow> statusItem" where
  "appendChild item g = (case g of StatusGroup u t c cs \<Rightarrow> insertChild (length cs) item g | _ \<Rightarrow> g)"

fun copyItem :: "statusItem \<Rightarrow> statusItem" where
  "copyItem (StatusGroup u t c cs) = fold appendChild (map copyItem cs) (StatusGroup u t c [])"
| "copyItem (StatusLeaf u t c m) = StatusLeaf u t c m"

subsection \<open>The document\<close>

datatype dom = Element string "string \<rightharpoonup> qstring" "dom list" | TextNode qstring

fun domText :: "dom \<Rightarrow> qstring" where
  "domText (TextNode s) = s"
| "domText (Element tag attrs ns) = concat (map domText ns)"

fun tagName :: "dom \<Rightarrow> string" where
  "tagName (TextNode s) = []"
| "tagName (Element tag attrs ns) = tag"

definition attribute :: "string \<Rightarrow> qstring \<Rightarrow> (string \<rightharpoonup> qstring) \<Rightarrow> qstring" where
  "attribute name dflt attrs = (case attrs name of Some v \<Rightarrow> v | None \<Rightarrow> dflt)"

definition textElement :: "string \<Rightarrow> qstring \<Rightarrow> dom" where
  "textElement tag s = Element tag Map.empty [TextNode s]"

fun storeStatusItem :: "statusItem \<Rightarrow> dom" where
  "storeStatusItem (StatusGroup u t c cs) =
     Element ''group'' [''uid'' \<mapsto> u, ''category'' \<mapsto> intText c] (textElement ''title'' t # map storeStatusItem cs)"
| "storeStatusItem (StatusLeaf u t c m) =
     Element ''status'' [''uid'' \<mapsto> u, ''category'' \<mapsto> intText c] [textElement ''title'' t, textElement ''message'' m]"

text \<open>The text of the last child element with the given name.\<close>

definition lastText :: "string \<Rightarrow> dom list \<Rightarrow> qstring" where
  "lastText tag ns = fold (\<lambda>n s. if tagName n = tag then domText n else s) ns []"

fun parseStatusItem :: "dom \<Rightarrow> statusItem option" where
  "parseStatusItem (TextNode s) = None"
| "parseStatusItem (Element tag attrs ns) =
     (let uid = attribute ''uid'' [] attrs; category = toInt (attribute ''category'' [0x30] attrs)
      in if tag = ''group''
         then Some (StatusGroup uid (lastText ''title'' ns) category
                (concat (map (\<lambda>n. if tagName n = ''title'' then []
                                  else if tagName n = ''group'' \<or> tagName n = ''status''
                                  then (case parseStatusItem n of Some item \<Rightarrow> [item] | None \<Rightarrow> [])
                                  else []) ns)))
         else if tag = ''status''
         then Some (StatusLeaf uid (lastText ''title'' ns) category (lastText ''message'' ns))
         else None)"

subsection \<open>Files\<close>

text \<open>
  \<^verbatim>\<open>QDomNode::save\<close> and \<^verbatim>\<open>QDomDocument::setContent\<close>, with the contents of a file of any type: what is
  written for a root element, and the root element that is read, if the file is well-formed.
\<close>

record 'f qdom =
  qd_save :: "dom \<Rightarrow> 'f"
  qd_setContent :: "'f \<Rightarrow> dom option"

text \<open>
  The characters that a document may have.  A carriage return, which is read as the end of a line, is
  left out; a surrogate stands before its partner.
\<close>

fun xmlChars :: "qstring \<Rightarrow> bool" where
  "xmlChars [] \<longleftrightarrow> True"
| "xmlChars [c] \<longleftrightarrow> c = 0x9 \<or> c = 0xA \<or> 0x20 \<le> c \<and> c < 0xD800 \<or> 0xDFFF < c \<and> c \<le> 0xFFFD"
| "xmlChars (c # d # s) \<longleftrightarrow>
     (if 0xD800 \<le> c \<and> c < 0xDC00 then 0xDC00 \<le> d \<and> d \<le> 0xDFFF \<and> xmlChars s
      else (c = 0x9 \<or> c = 0xA \<or> 0x20 \<le> c \<and> c < 0xD800 \<or> 0xDFFF < c \<and> c \<le> 0xFFFD) \<and> xmlChars (d # s))"

definition xmlSpace :: "u16 \<Rightarrow> bool" where
  "xmlSpace c \<longleftrightarrow> c = 0x20 \<or> c = 0x9 \<or> c = 0xA \<or> c = 0xD"

text \<open>A text has a character that is no space of any kind, or only spaces of XML.\<close>

definition legalText :: "qstring \<Rightarrow> bool" where
  "legalText s \<longleftrightarrow> xmlChars s \<and> (list_all xmlSpace s \<or> list_ex (\<lambda>c. \<not> qIsSpace c) s)"

definition legalValue :: "qstring \<Rightarrow> bool" where
  "legalValue s \<longleftrightarrow> xmlChars s \<and> list_all (\<lambda>c. c \<noteq> 0x9 \<and> c \<noteq> 0xA) s"

definition plainName :: "string \<Rightarrow> bool" where
  "plainName s \<longleftrightarrow> s \<noteq> [] \<and> list_all (\<lambda>c. c \<in> set ''abcdefghijklmnopqrstuvwxyz'') s"

fun isText :: "dom \<Rightarrow> bool" where
  "isText (TextNode s) \<longleftrightarrow> True"
| "isText (Element tag attrs ns) \<longleftrightarrow> False"

text \<open>An element has one text, or elements.\<close>

fun legalDom :: "dom \<Rightarrow> bool" where
  "legalDom (TextNode s) \<longleftrightarrow> legalText s"
| "legalDom (Element tag attrs ns) \<longleftrightarrow>
     plainName tag \<and> (\<forall>k v. attrs k = Some v \<longrightarrow> plainName k \<and> legalValue v)
     \<and> (length ns = 1 \<or> \<not> list_ex isText ns) \<and> list_all legalDom ns"

fun blankNode :: "dom \<Rightarrow> bool" where
  "blankNode (TextNode s) \<longleftrightarrow> list_all xmlSpace s"
| "blankNode (Element tag attrs ns) \<longleftrightarrow> False"

text \<open>The texts of nothing but spaces are stripped when a document is read.\<close>

fun stripped :: "dom \<Rightarrow> dom" where
  "stripped (TextNode s) = TextNode s"
| "stripped (Element tag attrs ns) = Element tag attrs (filter (\<lambda>n. \<not> blankNode n) (map stripped ns))"

definition qdomReads :: "'f qdom \<Rightarrow> bool" where
  "qdomReads q \<longleftrightarrow>
     (\<forall>d. legalDom d \<and> \<not> isText d \<longrightarrow> qd_setContent q (qd_save q d) = Some (stripped d))"

subsection \<open>The manager's tree\<close>

fun uidHashOf :: "statusItem \<Rightarrow> (qstring \<rightharpoonup> statusItem) \<Rightarrow> (qstring \<rightharpoonup> statusItem)" where
  "uidHashOf (StatusGroup u t c cs) m = fold uidHashOf cs m"
| "uidHashOf (StatusLeaf u t c msg) m = m(u \<mapsto> StatusLeaf u t c msg)"

record 'f statusTree =
  st_root :: statusItem
  st_uidHash :: "qstring \<rightharpoonup> statusItem"
  st_file :: "'f option"

definition itemForUid :: "qstring \<Rightarrow> 'f statusTree \<Rightarrow> statusItem option" where
  "itemForUid uid t = st_uidHash t uid"

text \<open>A file that cannot be opened or written stays as it was.\<close>

definition saveXML :: "'f qdom \<Rightarrow> bool \<Rightarrow> 'f statusTree \<Rightarrow> 'f statusTree" where
  "saveXML q written t = (if written then t\<lparr>st_file := Some (qd_save q (storeStatusItem (st_root t)))\<rparr> else t)"

definition defaultStatuses :: "(nat \<Rightarrow> qstring) \<Rightarrow> (qstring \<Rightarrow> qstring) \<Rightarrow> statusItem" where
  "defaultStatuses uid i18n =
     fold appendChild
       [StatusLeaf (uid 1) (i18n (qstr ''Online'')) 2 [],
        StatusLeaf (uid 2) (i18n (qstr ''Away'')) 4 (i18n (qstr ''I am gone right now, but I will be back later'')),
        StatusLeaf (uid 3) (i18n (qstr ''Busy'')) 32 (i18n (qstr ''Sorry, I am busy right now'')),
        StatusLeaf (uid 4) (i18n (qstr ''Invisible'')) 1024 [],
        StatusLeaf (uid 5) (i18n (qstr ''Offline'')) 1 []]
       (StatusGroup (uid 0) [] 0 [])"

definition loadXML ::
  "'f qdom \<Rightarrow> bool \<Rightarrow> (nat \<Rightarrow> qstring) \<Rightarrow> (qstring \<Rightarrow> qstring) \<Rightarrow> 'f option \<Rightarrow> 'f statusTree" where
  "loadXML q written uid i18n file =
     (let stored = (case file of
                      None \<Rightarrow> None
                    | Some f \<Rightarrow> (case qd_setContent q f of None \<Rightarrow> None | Some d \<Rightarrow> parseStatusItem d));
          usable = (case stored of Some item \<Rightarrow> if isGroup item then Some item else None | None \<Rightarrow> None);
          t = (case usable of
                 Some root \<Rightarrow> \<lparr>st_root = root, st_uidHash = Map.empty, st_file = file\<rparr>
               | None \<Rightarrow> saveXML q written \<lparr>st_root = defaultStatuses uid i18n, st_uidHash = Map.empty, st_file = file\<rparr>)
      in t\<lparr>st_uidHash := uidHashOf (st_root t) Map.empty\<rparr>)"

text \<open>The null pointer and the tree that is there are ignored; a tree is there when it is equal here.\<close>

definition setRootGroup :: "statusItem option \<Rightarrow> 'f statusTree \<Rightarrow> 'f statusTree" where
  "setRootGroup rootGroup t =
     (case rootGroup of
        None \<Rightarrow> t
      | Some g \<Rightarrow> if g = st_root t then t else t\<lparr>st_root := g, st_uidHash := uidHashOf g Map.empty\<rparr>)"

definition copyRootGroup :: "'f statusTree \<Rightarrow> statusItem" where
  "copyRootGroup t = copyItem (st_root t)"

subsection \<open>Numbers are read back\<close>

lemma digit_value: "d < 10 \<Longrightarrow> unat (0x30 + of_nat d - 0x30 :: u16) = d" "d < 10 \<Longrightarrow> isDigit (0x30 + of_nat d)"
proof -
  assume d: "d < 10"
  then show "unat (0x30 + of_nat d - 0x30 :: u16) = d" by (simp add: unat_of_nat_u16)
  have "list_all (\<lambda>d. isDigit (0x30 + of_nat d)) [0..<10]" by (simp add: upt_rec isDigit_def)
  with d show "isDigit (0x30 + of_nat d)" by (simp add: list_all_iff)
qed

lemma digitsOf_digits: "digitsOf n \<noteq> [] \<and> list_all isDigit (digitsOf n)"
proof (induction n rule: digitsOf.induct)
  case (1 n)
  then show ?case by (cases "n < 10") (simp_all add: digitsOf.simps [of n] digit_value(2))
qed

lemma digitsOf_value: "foldl (\<lambda>n c. 10 * n + unat (c - 0x30)) 0 (digitsOf n) = n"
proof (induction n rule: digitsOf.induct)
  case (1 n)
  then show ?case by (cases "n < 10") (simp_all add: digitsOf.simps [of n] unat_of_nat_u16)
qed

lemma readDigits_digitsOf: "readDigits (digitsOf n) = Some n"
  using digitsOf_digits [of n] digitsOf_value [of n] by (simp add: readDigits_def)

lemma digit_plain: "isDigit c \<Longrightarrow> \<not> qIsSpace c \<and> c \<noteq> 0x2D \<and> c \<noteq> 0x2B"
  by (auto simp: isDigit_def qIsSpace_def word_le_nat_alt)

lemma trim_number: "s \<noteq> [] \<Longrightarrow> \<not> qIsSpace (hd s) \<Longrightarrow> \<not> qIsSpace (last s) \<Longrightarrow> qtrimmed s = s"
proof -
  have *: "t \<noteq> [] \<Longrightarrow> \<not> qIsSpace (hd t) \<Longrightarrow> dropWhile qIsSpace t = t" for t by (cases t) simp_all
  assume "s \<noteq> []" "\<not> qIsSpace (hd s)" "\<not> qIsSpace (last s)"
  then show ?thesis by (simp add: qtrimmed_def * hd_rev)
qed

lemma toInt_intText:
  assumes "- 2147483648 \<le> i" "i \<le> 2147483647"
  shows "toInt (intText i) = i"
proof -
  obtain d ds where d: "digitsOf (nat \<bar>i\<bar>) = d # ds" using digitsOf_digits [of "nat \<bar>i\<bar>"] by (cases "digitsOf (nat \<bar>i\<bar>)") auto
  have all: "list_all isDigit (d # ds)" using digitsOf_digits [of "nat \<bar>i\<bar>"] d by simp
  then have pd: "\<not> qIsSpace d \<and> d \<noteq> 0x2D \<and> d \<noteq> 0x2B" using digit_plain by simp
  have "isDigit (last (d # ds))" using all by (simp add: list_all_iff)
  then have pl: "\<not> qIsSpace (last (d # ds))" using digit_plain by blast
  have r: "readDigits (d # ds) = Some (nat \<bar>i\<bar>)" using readDigits_digitsOf [of "nat \<bar>i\<bar>"] d by simp
  show ?thesis
  proof (cases "i < 0")
    case True
    have "\<not> qIsSpace 0x2D" by (simp add: qIsSpace_def)
    then have "qtrimmed (0x2D # d # ds) = 0x2D # d # ds" using pl by (intro trim_number) auto
    with True d r assms(1) show ?thesis by (simp add: toInt_def intText_def)
  next
    case False
    have "qtrimmed (d # ds) = d # ds" using pd pl by (intro trim_number) auto
    moreover have "nat i \<le> 2147483647" using assms(2) by simp
    ultimately show ?thesis using False d r pd by (simp add: toInt_def intText_def)
  qed
qed

subsection \<open>The tree is read back\<close>

text \<open>What can be stored: legal texts and categories of 32 bits.\<close>

fun legalItem :: "statusItem \<Rightarrow> bool" where
  "legalItem (StatusGroup u t c cs) \<longleftrightarrow>
     legalValue u \<and> legalText t \<and> - 2147483648 \<le> c \<and> c \<le> 2147483647 \<and> list_all legalItem cs"
| "legalItem (StatusLeaf u t c m) \<longleftrightarrow>
     legalValue u \<and> legalText t \<and> - 2147483648 \<le> c \<and> c \<le> 2147483647 \<and> legalText m"

text \<open>What comes back of a text, and of a tree: a text of nothing but spaces is empty.\<close>

definition kept :: "qstring \<Rightarrow> qstring" where
  "kept s = (if list_all xmlSpace s then [] else s)"

fun readBack :: "statusItem \<Rightarrow> statusItem" where
  "readBack (StatusGroup u t c cs) = StatusGroup u (kept t) c (map readBack cs)"
| "readBack (StatusLeaf u t c m) = StatusLeaf u (kept t) c (kept m)"

definition blank :: "qstring \<Rightarrow> bool" where
  "blank s \<longleftrightarrow> s \<noteq> [] \<and> list_all xmlSpace s"

fun hasBlank :: "statusItem \<Rightarrow> bool" where
  "hasBlank (StatusGroup u t c cs) \<longleftrightarrow> blank t \<or> list_ex hasBlank cs"
| "hasBlank (StatusLeaf u t c m) \<longleftrightarrow> blank t \<or> blank m"

lemma kept_same: "kept s = s \<longleftrightarrow> \<not> blank s"
  by (auto simp: kept_def blank_def)

lemma readBack_same: "readBack x = x \<longleftrightarrow> \<not> hasBlank x"
proof (induction x rule: readBack.induct)
  case (1 u t c cs)
  have "map readBack ys = ys \<longleftrightarrow> \<not> list_ex hasBlank ys" if "set ys \<subseteq> set cs" for ys
    using that by (induction ys) (simp_all add: 1)
  then show ?case by (simp add: kept_same)
qed (simp add: kept_same)

lemma readBack_group [simp]: "isGroup (readBack x) = isGroup x"
  by (cases x) simp_all

lemma digits_legal: "list_all isDigit s \<Longrightarrow> legalValue s"
proof -
  have d: "isDigit c \<Longrightarrow> \<not> (0xD800 \<le> c) \<and> 0x20 \<le> c \<and> c < 0xD800 \<and> c \<noteq> 0x9 \<and> c \<noteq> 0xA" for c :: u16
    by (auto simp: isDigit_def word_le_nat_alt word_less_nat_alt)
  have "xmlChars s" if "list_all isDigit s" using that
    by (induction s rule: xmlChars.induct) (auto simp: d)
  moreover have "list_all (\<lambda>c. c \<noteq> 0x9 \<and> c \<noteq> 0xA) s" if "list_all isDigit s"
    using that by (rule list.pred_mono_strong) (simp add: d)
  moreover assume "list_all isDigit s"
  ultimately show ?thesis by (simp add: legalValue_def)
qed

lemma minus_legal: "legalValue s \<Longrightarrow> legalValue (0x2D # s)"
  by (cases s) (simp_all add: legalValue_def)

lemma intText_legal: "legalValue (intText i)"
  using digitsOf_digits digits_legal minus_legal by (simp add: intText_def)

lemma tagName_store [simp]: "tagName (storeStatusItem x) = (if isGroup x then ''group'' else ''status'')"
  by (cases x) simp_all

lemma isText_store [simp]: "\<not> isText (storeStatusItem x)"
  by (cases x) simp_all

lemma tagName_stripped [simp]: "tagName (stripped d) = tagName d"
  by (cases d) simp_all

lemma blankNode_stripped [simp]: "\<not> isText d \<Longrightarrow> \<not> blankNode (stripped d)"
  by (cases d) simp_all

lemma plainNames:
  "plainName ''group''" "plainName ''status''" "plainName ''title''" "plainName ''message''" "plainName ''uid''" "plainName ''category''"
  by (simp_all add: plainName_def)

lemma store_legal: "legalItem x \<Longrightarrow> legalDom (storeStatusItem x)"
proof (induction x rule: storeStatusItem.induct)
  case (1 u t c cs)
  then have "list_all (\<lambda>y. legalDom (storeStatusItem y)) cs" by (simp add: list_all_iff)
  with 1 show ?case
    by (simp add: plainNames intText_legal textElement_def list.pred_map list_ex_iff comp_def)
next
  case (2 u t c m)
  then show ?case by (simp add: plainNames intText_legal textElement_def)
qed

lemma stripped_text: "stripped (textElement tag s) = Element tag Map.empty (if list_all xmlSpace s then [] else [TextNode s])"
  by (simp add: textElement_def)

lemma stripped_store_map: "filter (\<lambda>n. \<not> blankNode n) (map stripped (map storeStatusItem cs)) = map (stripped \<circ> storeStatusItem) cs"
  by (induction cs) simp_all

lemma lastText_stripped:
  "lastText ''title'' (stripped (textElement ''title'' t) # map (stripped \<circ> storeStatusItem) cs) = kept t"
proof -
  have "fold (\<lambda>n s. if tagName n = ''title'' then domText n else s) (map (stripped \<circ> storeStatusItem) cs) b = b" for b
    by (induction cs arbitrary: b) simp_all
  then show ?thesis by (simp add: lastText_def stripped_text kept_def)
qed

lemma parse_store: "legalItem x \<Longrightarrow> parseStatusItem (stripped (storeStatusItem x)) = Some (readBack x)"
proof (induction x rule: storeStatusItem.induct)
  case (1 u t c cs)
  have childs: "concat (map (\<lambda>n. if tagName n = ''title'' then []
                                  else if tagName n = ''group'' \<or> tagName n = ''status''
                                  then (case parseStatusItem n of Some item \<Rightarrow> [item] | None \<Rightarrow> [])
                                  else []) (map (stripped \<circ> storeStatusItem) ys)) = map readBack ys" if "set ys \<subseteq> set cs" for ys
    using that
  proof (induction ys)
    case (Cons y ys)
    then have "parseStatusItem (stripped (storeStatusItem y)) = Some (readBack y)"
      using "1.prems" by (intro "1.IH") (auto simp: list_all_iff)
    with Cons show ?case by simp
  qed simp
  have te: "stripped (textElement ''title'' t) = Element ''title'' Map.empty (if list_all xmlSpace t then [] else [TextNode t])"
    by (rule stripped_text)
  have "stripped (storeStatusItem (StatusGroup u t c cs))
      = Element ''group'' [''uid'' \<mapsto> u, ''category'' \<mapsto> intText c]
          (stripped (textElement ''title'' t) # map (stripped \<circ> storeStatusItem) cs)"
    using stripped_store_map [of cs] te by simp
  moreover have "toInt (intText c) = c" using "1.prems" by (intro toInt_intText) auto
  ultimately show ?case
    using childs [of cs] lastText_stripped [of t cs] te by (simp add: attribute_def Let_def)
next
  case (2 u t c m)
  then have "toInt (intText c) = c" by (intro toInt_intText) auto
  then show ?case by (simp add: attribute_def lastText_def stripped_text kept_def Let_def)
qed

lemma fold_appendChild: "fold appendChild xs (StatusGroup u t c cs) = StatusGroup u t c (cs @ xs)"
  by (induction xs arbitrary: cs) (simp_all add: appendChild_def)

lemma copyItem_same: "copyItem x = x"
  by (induction x rule: copyItem.induct) (simp_all add: fold_appendChild map_idI)

lemma loadXML_group: "isGroup (st_root (loadXML q written uid i18n file))"
  by (auto simp: loadXML_def saveXML_def defaultStatuses_def appendChild_def Let_def split: option.split)

lemma loadXML_hash: "st_uidHash (loadXML q written uid i18n file) = uidHashOf (st_root (loadXML q written uid i18n file)) Map.empty"
  by (simp add: loadXML_def Let_def)

text \<open>
  C30: A tree of statuses that is written is read back with every group, identifier, category, title and message
  in its place, but that a title or message of nothing but spaces comes back empty: it is the tree that
  was written exactly if it has no such text.  The index of the new tree is made from the tree that was read.
  This holds of texts with a character that is no space or with spaces of XML only, without characters that
  XML forbids, of identifiers without tabs and ends of lines, and of categories of 32 bits.  A file that
  cannot be written stays as it was, and whatever the file holds, the root of what is read is a group.
\<close>

theorem statuses_survive_restart:
  assumes "qdomReads q" "isGroup (st_root t)" "legalItem (st_root t)"
  shows "loadXML q written uid i18n (st_file (saveXML q True t))
      = \<lparr>st_root = readBack (st_root t), st_uidHash = uidHashOf (readBack (st_root t)) Map.empty, st_file = st_file (saveXML q True t)\<rparr>
    \<and> (readBack (st_root t) = st_root t \<longleftrightarrow> \<not> hasBlank (st_root t))
    \<and> saveXML q False t = t \<and> isGroup (st_root (loadXML q written uid i18n file))"
proof -
  have "qd_setContent q (qd_save q (storeStatusItem (st_root t))) = Some (stripped (storeStatusItem (st_root t)))"
    using assms(1) store_legal [OF assms(3)] by (simp add: qdomReads_def)
  then show ?thesis
    using assms(2) parse_store [OF assms(3)]
    by (intro conjI readBack_same loadXML_group) (simp_all add: loadXML_def saveXML_def Let_def)
qed

subsection \<open>The index\<close>

fun leaves :: "statusItem \<Rightarrow> statusItem list" where
  "leaves (StatusGroup u t c cs) = concat (map leaves cs)"
| "leaves (StatusLeaf u t c m) = [StatusLeaf u t c m]"

definition enterLeaf :: "statusItem \<Rightarrow> (qstring \<rightharpoonup> statusItem) \<Rightarrow> (qstring \<rightharpoonup> statusItem)" where
  "enterLeaf l m = m(si_uid l \<mapsto> l)"

lemma uidHashOf_leaves: "uidHashOf x m = fold enterLeaf (leaves x) m"
proof (induction x arbitrary: m rule: leaves.induct)
  case (1 u t c cs)
  have "fold uidHashOf ys m = fold enterLeaf (concat (map leaves ys)) m" if "set ys \<subseteq> set cs" for ys m
    using that by (induction ys arbitrary: m) (simp_all add: 1)
  then show ?case by simp
qed (simp add: enterLeaf_def)

lemma fold_index:
  assumes "distinct (map si_uid ls)"
  shows "fold enterLeaf ls m u = (case find (\<lambda>l. si_uid l = u) ls of Some l \<Rightarrow> Some l | None \<Rightarrow> m u)"
  using assms
proof (induction ls arbitrary: m)
  case (Cons l ls)
  have "find (\<lambda>x. si_uid x = u) ls = None" if "si_uid l = u"
  proof -
    have "si_uid x \<noteq> u" if "x \<in> set ls" for x
      using Cons.prems \<open>si_uid l = u\<close> imageI [OF that, of si_uid] by auto
    then show ?thesis by (auto simp: find_None_iff)
  qed
  with Cons show ?case by (auto simp: enterLeaf_def split: option.split)
qed simp

text \<open>
  In a tree that was loaded, whose statuses have different identifiers, the index finds each status
  by its identifier, finds nothing else, and no group.
\<close>

theorem statuses_indexed:
  assumes "distinct (map si_uid (leaves (st_root (loadXML q written uid i18n file))))"
  shows "itemForUid u (loadXML q written uid i18n file) = Some x \<longleftrightarrow> x \<in> set (leaves (st_root (loadXML q written uid i18n file))) \<and> si_uid x = u"
proof -
  let ?ls = "leaves (st_root (loadXML q written uid i18n file))"
  have "itemForUid u (loadXML q written uid i18n file) = find (\<lambda>l. si_uid l = u) ?ls"
    by (simp add: itemForUid_def loadXML_hash uidHashOf_leaves fold_index [OF assms] split: option.split)
  moreover have "find (\<lambda>l. si_uid l = u) ?ls = Some x \<longleftrightarrow> x \<in> set ?ls \<and> si_uid x = u"
  proof
    assume x: "x \<in> set ?ls \<and> si_uid x = u"
    then obtain y where y: "find (\<lambda>l. si_uid l = u) ?ls = Some y" by (cases "find (\<lambda>l. si_uid l = u) ?ls") (auto simp: find_None_iff)
    then have "y \<in> set ?ls" "si_uid y = u" by (auto simp: find_Some_iff)
    with x assms have "y = x" by (auto simp: distinct_map inj_on_def)
    with y show "find (\<lambda>l. si_uid l = u) ?ls = Some x" by simp
  qed (auto simp: find_Some_iff)
  ultimately show ?thesis by simp
qed

text \<open>Files that hold the document itself.\<close>

definition sampleQDom :: "dom qdom" where
  "sampleQDom = \<lparr>qd_save = id, qd_setContent = (\<lambda>d. Some (stripped d))\<rparr>"

definition sampleTree :: "dom statusTree" where
  "sampleTree = loadXML sampleQDom True (\<lambda>n. replicate n 0x61) id None"

lemma sampleTree_root:
  "st_root sampleTree = StatusGroup [] [] 0
     [StatusLeaf [0x61] (qstr ''Online'') 2 [],
      StatusLeaf [0x61, 0x61] (qstr ''Away'') 4 (qstr ''I am gone right now, but I will be back later''),
      StatusLeaf [0x61, 0x61, 0x61] (qstr ''Busy'') 32 (qstr ''Sorry, I am busy right now''),
      StatusLeaf [0x61, 0x61, 0x61, 0x61] (qstr ''Invisible'') 1024 [],
      StatusLeaf [0x61, 0x61, 0x61, 0x61, 0x61] (qstr ''Offline'') 1 []]"
  by (simp add: sampleTree_def loadXML_def saveXML_def defaultStatuses_def appendChild_def numeral_eq_Suc Let_def)

text \<open>With a message of two spaces.\<close>

definition blankTree :: "dom statusTree" where
  "blankTree = sampleTree\<lparr>st_root := StatusGroup [] [] 0 [StatusLeaf [0x61] [0x41] 2 [0x20, 0x20]]\<rparr>"

theorem statuses_survive_restart_witness:
  "loadXML sampleQDom False (\<lambda>n. []) id (st_file (saveXML sampleQDom True blankTree))
      = \<lparr>st_root = StatusGroup [] [] 0 [StatusLeaf [0x61] [0x41] 2 []],
         st_uidHash = uidHashOf (readBack (st_root blankTree)) Map.empty, st_file = st_file (saveXML sampleQDom True blankTree)\<rparr>"
proof -
  have "qdomReads sampleQDom" by (simp add: qdomReads_def sampleQDom_def)
  moreover have "legalItem (st_root blankTree)"
    by (simp add: blankTree_def legalValue_def legalText_def xmlSpace_def qIsSpace_def)
  moreover have "isGroup (st_root blankTree)" by (simp add: blankTree_def)
  moreover have "readBack (st_root blankTree) = StatusGroup [] [] 0 [StatusLeaf [0x61] [0x41] 2 []]"
    by (simp add: blankTree_def kept_def xmlSpace_def)
  ultimately show ?thesis using statuses_survive_restart [of sampleQDom blankTree False "\<lambda>n. []" id] by simp
qed

theorem statuses_indexed_witness:
  "itemForUid [0x61] sampleTree = Some (StatusLeaf [0x61] (qstr ''Online'') 2 [])
    \<longleftrightarrow> StatusLeaf [0x61] (qstr ''Online'') 2 [] \<in> set (leaves (st_root sampleTree))
      \<and> si_uid (StatusLeaf [0x61] (qstr ''Online'') 2 []) = [0x61]"
  unfolding sampleTree_def
  by (rule statuses_indexed) (simp flip: sampleTree_def, simp add: sampleTree_root)

end
