(* ===== verification/Kopete_Message.thy ===== *)
theory Kopete_Message
  imports Kopete_Contact Qt_String
begin

text \<open>
  Messages of \<^verbatim>\<open>libkopete\<close> (\<^verbatim>\<open>kopetemessage.cpp\<close>): the fields of a message and its setters, the body
  with the two cached renderings of it, the conversions between plain text and HTML, and the
  links and the style of the rendering.

  A message shares its data with its copies until it is changed; the data is then cloned by the
  copy constructor of \<^verbatim>\<open>Message::Private\<close>, here \<open>clonePrivate\<close>.  The document of the body, regular
  expressions, case folding and emoticons are Qt's and KDE's: the record \<open>richText\<close> holds them.
\<close>

subsection \<open>State\<close>

datatype direction = Inbound | Outbound | Internal

datatype messageType = TypeNormal | TypeAction | TypeFileTransferRequest | TypeVoiceClipRequest

datatype messageImportance = Low | Normal | Highlight

datatype messageState = StateUnknown | StateSending | StateSent | StateError

datatype textFormat = PlainText | RichTextFormat

record qfont =
  qf_family :: "qstring option"
  qf_italic :: bool
  qf_strikeOut :: bool
  qf_underline :: bool
  qf_bold :: bool

record fileTransferInfo =
  ft_disabled :: bool
  ft_fileName :: qstring
  ft_fileSize :: nat
  ft_filePreview :: "nat option"

record 'd message =
  m_id :: u32
  m_from :: "contactPtr option"
  m_to :: "contactPtr list"
  m_manager :: "nat option"
  m_direction :: direction
  m_format :: textFormat
  m_type :: messageType
  m_requestedPlugin :: qstring
  m_importance :: messageImportance
  m_state :: messageState
  m_delayed :: bool
  m_formattingOverride :: bool
  m_forceHtml :: bool
  m_isRightToLeft :: bool
  m_timeStamp :: nat
  m_font :: qfont
  m_classes :: "qstring list"
  m_foregroundColor :: "qstring option"
  m_backgroundColor :: "qstring option"
  m_subject :: qstring
  m_body :: 'd
  m_parsedBody :: qstring
  m_parsedBodyDirty :: bool
  m_escapedBody :: qstring
  m_escapedBodyDirty :: bool
  m_fileTransfer :: "fileTransferInfo option"

text \<open>What Qt and the emoticon theme provide; \<open>rt_rxReplace\<close> is \<^verbatim>\<open>QString::replace(QRegExp, QString)\<close>.\<close>

record 'd richText =
  rt_empty :: 'd
  rt_setPlainText :: "qstring \<Rightarrow> 'd"
  rt_setHtml :: "qstring \<Rightarrow> 'd"
  rt_toPlainText :: "'d \<Rightarrow> qstring"
  rt_toHtml :: "'d \<Rightarrow> qstring"
  rt_isRightToLeft :: "qstring \<Rightarrow> bool"
  rt_convertFromPlainText :: "qstring \<Rightarrow> qstring"
  rt_rxReplace :: "qstring \<Rightarrow> qstring \<Rightarrow> qstring \<Rightarrow> qstring"
  rt_toLower :: "qstring \<Rightarrow> qstring"
  rt_parseEmoticons :: "qstring \<Rightarrow> qstring"
  rt_defaultFont :: qfont

text \<open>\<^verbatim>\<open>Message::Private()\<close> and the constructors; \<^verbatim>\<open>nextId\<close> is an unsigned int that wraps around.\<close>

definition nextId :: "u32 \<Rightarrow> u32 \<times> u32" where
  "nextId n = (n, n + 1)"

definition newMessage ::
  "'d richText \<Rightarrow> nat \<Rightarrow> contactPtr option \<Rightarrow> contactPtr list \<Rightarrow> u32 \<Rightarrow> 'd message \<times> u32" where
  "newMessage rt now from' to' n =
     (\<lparr>m_id = n, m_from = from', m_to = to', m_manager = None, m_direction = Internal, m_format = PlainText,
       m_type = TypeNormal, m_requestedPlugin = [], m_importance = Normal, m_state = StateUnknown,
       m_delayed = False, m_formattingOverride = False, m_forceHtml = False, m_isRightToLeft = False,
       m_timeStamp = now, m_font = rt_defaultFont rt, m_classes = [], m_foregroundColor = None,
       m_backgroundColor = None, m_subject = [], m_body = rt_empty rt, m_parsedBody = [],
       m_parsedBodyDirty = True, m_escapedBody = [], m_escapedBodyDirty = True, m_fileTransfer = None\<rparr>,
      n + 1)"

text \<open>The copy constructor names every field but \<^verbatim>\<open>forceHtml\<close>, which keeps what the memory held.\<close>

definition clonePrivate :: "bool \<Rightarrow> 'd message \<Rightarrow> 'd message" where
  "clonePrivate garbage m = m\<lparr>m_forceHtml := garbage\<rparr>"

subsection \<open>Setters\<close>

definition setFormattingOverride :: "bool \<Rightarrow> 'd message \<Rightarrow> 'd message" where
  "setFormattingOverride enabled m =
     m\<lparr>m_formattingOverride := enabled, m_parsedBodyDirty := True, m_escapedBodyDirty := True\<rparr>"

definition setBackgroundOverride :: "bool \<Rightarrow> 'd message \<Rightarrow> 'd message" where
  "setBackgroundOverride enabled = setFormattingOverride enabled"

definition setForegroundOverride :: "bool \<Rightarrow> 'd message \<Rightarrow> 'd message" where
  "setForegroundOverride enabled = setFormattingOverride enabled"

definition setRichTextOverride :: "bool \<Rightarrow> 'd message \<Rightarrow> 'd message" where
  "setRichTextOverride enabled = setFormattingOverride enabled"

definition setForegroundColor :: "qstring option \<Rightarrow> 'd message \<Rightarrow> 'd message" where
  "setForegroundColor color m = m\<lparr>m_foregroundColor := color\<rparr>"

definition setBackgroundColor :: "qstring option \<Rightarrow> 'd message \<Rightarrow> 'd message" where
  "setBackgroundColor color m = m\<lparr>m_backgroundColor := color\<rparr>"

definition setFont :: "qfont \<Rightarrow> 'd message \<Rightarrow> 'd message" where
  "setFont font m = m\<lparr>m_font := font\<rparr>"

definition setImportance :: "messageImportance \<Rightarrow> 'd message \<Rightarrow> 'd message" where
  "setImportance i m = m\<lparr>m_importance := i\<rparr>"

definition setTimestamp :: "nat \<Rightarrow> 'd message \<Rightarrow> 'd message" where
  "setTimestamp t m = m\<lparr>m_timeStamp := t\<rparr>"

definition setType :: "messageType \<Rightarrow> 'd message \<Rightarrow> 'd message" where
  "setType t m = m\<lparr>m_type := t\<rparr>"

definition setRequestedPlugin :: "qstring \<Rightarrow> 'd message \<Rightarrow> 'd message" where
  "setRequestedPlugin p m = m\<lparr>m_requestedPlugin := p\<rparr>"

definition setSubject :: "qstring \<Rightarrow> 'd message \<Rightarrow> 'd message" where
  "setSubject s m = m\<lparr>m_subject := s\<rparr>"

definition setDirection :: "direction \<Rightarrow> 'd message \<Rightarrow> 'd message" where
  "setDirection dir m = m\<lparr>m_direction := dir\<rparr>"

definition setState :: "messageState \<Rightarrow> 'd message \<Rightarrow> 'd message" where
  "setState s m = m\<lparr>m_state := s\<rparr>"

definition setManager :: "nat option \<Rightarrow> 'd message \<Rightarrow> 'd message" where
  "setManager kmm m = m\<lparr>m_manager := kmm\<rparr>"

definition addClass :: "qstring \<Rightarrow> 'd message \<Rightarrow> 'd message" where
  "addClass c m = m\<lparr>m_classes := m_classes m @ [c]\<rparr>"

definition setClasses :: "qstring list \<Rightarrow> 'd message \<Rightarrow> 'd message" where
  "setClasses cs m = m\<lparr>m_classes := cs\<rparr>"

definition setDelayed :: "bool \<Rightarrow> 'd message \<Rightarrow> 'd message" where
  "setDelayed b m = m\<lparr>m_delayed := b\<rparr>"

definition fileTransferOf :: "'d message \<Rightarrow> fileTransferInfo" where
  "fileTransferOf m =
     (case m_fileTransfer m of
        None \<Rightarrow> \<lparr>ft_disabled = False, ft_fileName = [], ft_fileSize = 0, ft_filePreview = None\<rparr>
      | Some f \<Rightarrow> f)"

definition setFileTransferDisabled :: "bool \<Rightarrow> 'd message \<Rightarrow> 'd message" where
  "setFileTransferDisabled b m = m\<lparr>m_fileTransfer := Some (fileTransferOf m\<lparr>ft_disabled := b\<rparr>)\<rparr>"

definition setFileName :: "qstring \<Rightarrow> 'd message \<Rightarrow> 'd message" where
  "setFileName s m = m\<lparr>m_fileTransfer := Some (fileTransferOf m\<lparr>ft_fileName := s\<rparr>)\<rparr>"

definition setFileSize :: "nat \<Rightarrow> 'd message \<Rightarrow> 'd message" where
  "setFileSize n m = m\<lparr>m_fileTransfer := Some (fileTransferOf m\<lparr>ft_fileSize := n\<rparr>)\<rparr>"

definition setFilePreview :: "nat \<Rightarrow> 'd message \<Rightarrow> 'd message" where
  "setFilePreview p m = m\<lparr>m_fileTransfer := Some (fileTransferOf m\<lparr>ft_filePreview := Some p\<rparr>)\<rparr>"

text \<open>The getters answer the defaults for a message without a transfer.\<close>

definition fileTransferDisabled :: "'d message \<Rightarrow> bool" where
  "fileTransferDisabled m = (case m_fileTransfer m of Some f \<Rightarrow> ft_disabled f | None \<Rightarrow> False)"

definition fileName :: "'d message \<Rightarrow> qstring" where
  "fileName m = (case m_fileTransfer m of Some f \<Rightarrow> ft_fileName f | None \<Rightarrow> [])"

definition fileSize :: "'d message \<Rightarrow> nat" where
  "fileSize m = (case m_fileTransfer m of Some f \<Rightarrow> ft_fileSize f | None \<Rightarrow> 0)"

definition filePreview :: "'d message \<Rightarrow> nat option" where
  "filePreview m = (case m_fileTransfer m of Some f \<Rightarrow> ft_filePreview f | None \<Rightarrow> None)"

subsection \<open>The body\<close>

definition doSetBody :: "'d richText \<Rightarrow> qstring \<Rightarrow> textFormat \<Rightarrow> 'd message \<Rightarrow> 'd message" where
  "doSetBody rt body f m =
     (let body = qreplace [0xFFFC] [0x20] body;
          doc = (if f = PlainText then rt_setPlainText rt body else rt_setHtml rt body)
      in m\<lparr>m_body := doc, m_format := f, m_isRightToLeft := rt_isRightToLeft rt (rt_toPlainText rt doc),
           m_escapedBodyDirty := True, m_parsedBodyDirty := True\<rparr>)"

definition setPlainBody :: "'d richText \<Rightarrow> qstring \<Rightarrow> 'd message \<Rightarrow> 'd message" where
  "setPlainBody rt body = doSetBody rt body PlainText"

definition setHtmlBody :: "'d richText \<Rightarrow> qstring \<Rightarrow> 'd message \<Rightarrow> 'd message" where
  "setHtmlBody rt body = doSetBody rt body RichTextFormat"

definition setForcedHtmlBody :: "'d richText \<Rightarrow> qstring \<Rightarrow> 'd message \<Rightarrow> 'd message" where
  "setForcedHtmlBody rt body m = (setHtmlBody rt body m)\<lparr>m_forceHtml := True\<rparr>"

definition setBody :: "'d richText \<Rightarrow> 'd \<Rightarrow> 'd message \<Rightarrow> 'd message" where
  "setBody rt doc m =
     m\<lparr>m_body := doc, m_format := RichTextFormat,
       m_isRightToLeft := rt_isRightToLeft rt (rt_toPlainText rt doc),
       m_escapedBodyDirty := True, m_parsedBodyDirty := True\<rparr>"

definition plainBody :: "'d richText \<Rightarrow> 'd message \<Rightarrow> qstring" where
  "plainBody rt m = qreplace [0xFFFC] [0x20] (rt_toPlainText rt (m_body m))"

definition badStuff :: qstring where
  "badStuff = qstr ''<![^<>]*>|<head[^<>]*>.*</head[^<>]*>|</?html[^<>]*>|</?body[^<>]*>''"

text \<open>The rendering of the body, and the getter that keeps it until the body or the override changes.\<close>

definition renderEscaped :: "'d richText \<Rightarrow> 'd message \<Rightarrow> qstring" where
  "renderEscaped rt m =
     (let html = (if m_format m = PlainText \<or> (m_formattingOverride m \<and> \<not> m_forceHtml m)
                  then rt_convertFromPlainText rt (rt_toPlainText rt (m_body m))
                  else rt_toHtml rt (m_body m))
      in filter (\<lambda>c. c \<noteq> 0x0A) (rt_rxReplace rt badStuff [] html))"

definition escapedBody :: "'d richText \<Rightarrow> 'd message \<Rightarrow> qstring \<times> 'd message" where
  "escapedBody rt m =
     (if \<not> m_escapedBodyDirty m then (m_escapedBody m, m)
      else let html = renderEscaped rt m in (html, m\<lparr>m_escapedBody := html, m_escapedBodyDirty := False\<rparr>))"

subsection \<open>Links\<close>

text \<open>Regular expressions are written with a grave accent for the backslash.\<close>

definition rx :: "string \<Rightarrow> qstring" where
  "rx s = map (\<lambda>c. if c = 0x60 then 0x5C else c) (qstr s)"

text \<open>\<^verbatim>\<open>QString::arg\<close> with several arguments: the place markers in the order of their numbers.\<close>

definition qargs :: "qstring \<Rightarrow> qstring list \<Rightarrow> qstring" where
  "qargs s as =
     (let ps = pieces s; ns = remdups (sort (markerNumbers ps))
      in concat (map (\<lambda>p. case p of Plain c \<Rightarrow> [c]
                        | Marker n text' \<Rightarrow> (case map_of (zip ns as) n of None \<Rightarrow> text' | Some a \<Rightarrow> a)) ps))"

definition urlChar :: qstring where
  "urlChar = rx ''`+`-`w`./#@&;:=`?~%_,`!`$`*`(`)''"

definition rxName :: qstring where
  "rxName = rx ''[`w`+`-=_`.]+''"

definition userAndPassword :: qstring where
  "userAndPassword = qarg (rx ''(?:%1(?::%1)?`@)'') rxName"

definition urlSection :: qstring where
  "urlSection = qarg (qstr ''[%1]+'') urlChar"

definition rxDomain :: qstring where
  "rxDomain = rx ''[`-`w_]+(?:`.[`-`w_]+)+''"

definition makeRegExp :: "qstring \<Rightarrow> qstring" where
  "makeRegExp pattern = qarg (qstr ''(^|[^%1])('') urlChar @ pattern @ qarg (qstr '')([^%1]|$)'') urlChar"

definition regexpPatterns :: "qstring list" where
  "regexpPatterns =
     [qargs (makeRegExp (rx ''`w+://%1?`w%2'')) [userAndPassword, urlSection],
      qargs (makeRegExp (rx ''%1?www`.%2%3'')) [userAndPassword, rxDomain, urlSection],
      qargs (makeRegExp (qstr ''%1@%2'')) [rxName, rxDomain]]"

definition linkPlain :: "'d richText \<Rightarrow> qstring \<Rightarrow> qstring" where
  "linkPlain rt s =
     (let s = rt_rxReplace rt (regexpPatterns ! 0) (rx ''`1<a href=\"`2\" title=\"`2\">`2</a>`3'') s;
          s = rt_rxReplace rt (regexpPatterns ! 1) (rx ''`1<a href=\"http://`2\" title=\"http://`2\">`2</a>`3'') s;
          s = rt_rxReplace rt (regexpPatterns ! 2) (rx ''`1<a href=\"mailto:`2\" title=\"mailto:`2\">`2</a>`3'') s
      in rt_rxReplace rt (qstr ''(<a href=\"[^\"]+)(&nbsp;)(\")'') (rx ''`1`3'') s)"

primrec qsplitOn :: "u16 \<Rightarrow> qstring \<Rightarrow> qstring list" where
  "qsplitOn a [] = [[]]"
| "qsplitOn a (c # cs) =
     (if c = a then [] # qsplitOn a cs else (c # hd (qsplitOn a cs)) # tl (qsplitOn a cs))"

definition linkEntry :: "'d richText \<Rightarrow> qstring \<Rightarrow> qstring" where
  "linkEntry rt entry =
     (case qindexOf [0x3E] 0 entry of
        None \<Rightarrow> entry
      | Some tagclose \<Rightarrow> take (tagclose + 1) entry @ linkPlain rt (drop (tagclose + 1) entry))"

definition parseLinks :: "'d richText \<Rightarrow> qstring \<Rightarrow> textFormat \<Rightarrow> qstring" where
  "parseLinks rt message f =
     (if f = RichTextFormat
      then let entries = qsplitOn 0x3C message
           in qjoin [0x3C] (linkPlain rt (hd entries) # map (linkEntry rt) (tl entries))
      else linkPlain rt message)"

definition parsedBody :: "'d richText \<Rightarrow> 'd message \<Rightarrow> qstring \<times> 'd message" where
  "parsedBody rt m =
     (if \<not> m_parsedBodyDirty m then (m_parsedBody m, m)
      else let (html, m) = escapedBody rt m; p = rt_parseEmoticons rt (parseLinks rt html RichTextFormat)
           in (p, m\<lparr>m_parsedBody := p, m_parsedBodyDirty := False\<rparr>))"

definition getHtmlStyleAttribute :: "'d richText \<Rightarrow> 'd message \<Rightarrow> qstring" where
  "getHtmlStyleAttribute rt m =
     qstr ''style=\"''
     @ (if m_formattingOverride m then []
        else (case m_foregroundColor m of None \<Rightarrow> [] | Some c \<Rightarrow> qarg (qstr ''color: %1; '') c)
          @ (case m_backgroundColor m of None \<Rightarrow> [] | Some c \<Rightarrow> qarg (qstr ''background-color: %1; '') c)
          @ (if m_font m = rt_defaultFont rt then []
             else (case qf_family (m_font m) of
                     None \<Rightarrow> []
                   | Some family \<Rightarrow> qstr ''font-family: '' @ family @ qstr ''; '')
               @ (if qf_italic (m_font m) then qstr ''font-style: italic; '' else [])
               @ (if qf_strikeOut (m_font m) then qstr ''text-decoration: line-through; '' else [])
               @ (if qf_underline (m_font m) then qstr ''text-decoration: underline; '' else [])
               @ (if qf_bold (m_font m) then qstr ''font-weight: bold;'' else [])))
     @ qstr ''\"''"

subsection \<open>From text to HTML and back\<close>

text \<open>\<^verbatim>\<open>QString::toHtmlEscaped\<close>.\<close>

fun htmlChar :: "u16 \<Rightarrow> qstring" where
  "htmlChar c =
     (if c = 0x3C then qstr ''&lt;'' else if c = 0x3E then qstr ''&gt;''
      else if c = 0x26 then qstr ''&amp;'' else if c = 0x22 then qstr ''&quot;'' else [c])"

definition nbsps :: qstring where
  "nbsps = qstr ''&nbsp;&nbsp;&nbsp;&nbsp;''"

text \<open>The replacement of every \<^verbatim>\<open>\s\s\<close>, from the left.\<close>

fun pairBlanks :: "qstring \<Rightarrow> qstring" where
  "pairBlanks (c # d # s) =
     (if qIsSpace c \<and> qIsSpace d then qstr ''&nbsp; '' @ pairBlanks s else c # pairBlanks (d # s))"
| "pairBlanks s = s"

definition escape :: "qstring \<Rightarrow> qstring" where
  "escape s =
     pairBlanks (qreplace [0x09] nbsps (qreplace [0x0A] (qstr ''<br />'') (concat (map htmlChar s))))"

text \<open>
  What \<^verbatim>\<open>unescape\<close> puts in the place of a tag: the title of an image, a line break for the tags
  that end a line, nothing for the others.  An image whose element name is the whole tag is
  searched from its last character, as \<^verbatim>\<open>indexOf\<close> does for the position -1.
\<close>

definition attrTitle :: qstring where
  "attrTitle = qstr ''title=\"''"

definition tagText :: "(qstring \<Rightarrow> qstring) \<Rightarrow> qstring \<Rightarrow> qstring" where
  "tagText lower between =
     (let match = qsimplified between;
          elemEndPos = qindexOf [0x20] 0 match;
          elem = lower (case elemEndPos of None \<Rightarrow> match | Some e \<Rightarrow> take e match)
      in if elem = qstr ''img''
         then (case qindexOf attrTitle (case elemEndPos of None \<Rightarrow> length match - 1 | Some e \<Rightarrow> e) match of
                 None \<Rightarrow> []
               | Some titlePos \<Rightarrow>
                   (case qindexOf [0x22] (titlePos + length attrTitle) match of
                      None \<Rightarrow> []
                    | Some titleEndPos \<Rightarrow>
                        take (titleEndPos - titlePos - length attrTitle) (drop (titlePos + length attrTitle) match)))
         else if elem = qstr ''/p'' \<or> elem = qstr ''/div'' \<or> elem = qstr ''br'' then [0x0A] else [])"

text \<open>One turn of the loop; it ends without a \<^verbatim>\<open><\<close> or without a \<^verbatim>\<open>>\<close> after the first one.\<close>

definition unescapeStep :: "(qstring \<Rightarrow> qstring) \<Rightarrow> qstring \<Rightarrow> qstring option" where
  "unescapeStep lower data =
     (case dropWhile (\<lambda>c. c \<noteq> 0x3C) data of
        [] \<Rightarrow> None
      | _ # rest \<Rightarrow>
          if 0x3E \<notin> set rest then None
          else Some (takeWhile (\<lambda>c. c \<noteq> 0x3C) data @ tagText lower (takeWhile (\<lambda>c. c \<noteq> 0x3E) rest)
                     @ tl (dropWhile (\<lambda>c. c \<noteq> 0x3E) rest)))"

lemma length_tagText: "length (tagText lower s) \<le> Suc (length s)"
proof -
  have "length (take a (drop b (qsimplified s))) \<le> Suc (length s)" for a b
    using length_qsimplified [of s] by simp
  then show ?thesis
    by (auto simp: tagText_def Let_def split: option.splits)
qed

lemma unescapeStep_shorter: "unescapeStep lower data = Some data' \<Longrightarrow> length data' < length data"
proof -
  assume "unescapeStep lower data = Some data'"
  then obtain c rest where d: "dropWhile (\<lambda>c. c \<noteq> 0x3C) data = c # rest" "0x3E \<in> set rest"
    and data': "data' = takeWhile (\<lambda>c. c \<noteq> 0x3C) data @ tagText lower (takeWhile (\<lambda>c. c \<noteq> 0x3E) rest)
                     @ tl (dropWhile (\<lambda>c. c \<noteq> 0x3E) rest)"
    by (auto simp: unescapeStep_def split: list.splits if_splits)
  obtain e rest' where r: "dropWhile (\<lambda>c. c \<noteq> 0x3E) rest = e # rest'"
    using d(2) by (cases "dropWhile (\<lambda>c. c \<noteq> 0x3E) rest") (auto simp: dropWhile_eq_Nil_conv)
  have "length data = length (takeWhile (\<lambda>c. c \<noteq> 0x3C) data) + Suc (length rest)"
    by (metis d(1) length_Cons length_append takeWhile_dropWhile_id)
  moreover have "length rest = length (takeWhile (\<lambda>c. c \<noteq> 0x3E) rest) + Suc (length rest')"
    by (metis r length_Cons length_append takeWhile_dropWhile_id)
  ultimately show ?thesis
    using length_tagText [of lower "takeWhile (\<lambda>c. c \<noteq> 0x3E) rest"] by (simp add: data' r)
qed

function unescapeTags :: "(qstring \<Rightarrow> qstring) \<Rightarrow> qstring \<Rightarrow> qstring" where
  "unescapeTags lower data =
     (case unescapeStep lower data of None \<Rightarrow> data | Some data' \<Rightarrow> unescapeTags lower data')"
  by pat_completeness auto
termination
  by (relation "measure (\<lambda>(lower, data). length data)") (auto dest: unescapeStep_shorter)

declare unescapeTags.simps [simp del]

definition unescapeEntities :: "qstring \<Rightarrow> qstring" where
  "unescapeEntities data =
     (let data = qreplace nbsps [0x09] data;
          data = qreplace (qstr ''&gt;'') [0x3E] data;
          data = qreplace (qstr ''&lt;'') [0x3C] data;
          data = qreplace (qstr ''&quot;'') [0x22] data;
          data = qreplace (qstr ''&nbsp;'') [0x20] data;
          data = qreplace (qstr ''&amp;'') [0x26] data
      in qreplace (qstr ''&#160;'') [0x20] data)"

definition unescape :: "(qstring \<Rightarrow> qstring) \<Rightarrow> qstring \<Rightarrow> qstring" where
  "unescape lower xml = unescapeEntities (unescapeTags lower (qsimplified xml))"

subsection \<open>The round trip\<close>

text \<open>A text \<open>escape\<close> keeps: its blanks are line breaks, tabs and single spaces that are neither at
  the ends nor next to another space; \<open>b\<close> as in \<open>tidyFrom\<close>.\<close>

fun plainFrom :: "bool \<Rightarrow> qstring \<Rightarrow> bool" where
  "plainFrom b [] \<longleftrightarrow> \<not> b"
| "plainFrom b (c # s) \<longleftrightarrow>
     (if c = 0x0A \<or> c = 0x09 then plainFrom False s
      else if qIsSpace c then \<not> b \<and> c = 0x20 \<and> plainFrom True s else plainFrom False s)"

definition escChar :: "u16 \<Rightarrow> qstring" where
  "escChar c = (if c = 0x0A then qstr ''<br />'' else if c = 0x09 then nbsps else htmlChar c)"

lemma escChar_simps [simp]:
  "escChar 0x0A = qstr ''<br />''" "escChar 0x09 = nbsps" "escChar 0x20 = [0x20]"
  by (simp_all add: escChar_def)

lemma qIsSpace_ascii [simp]:
  "qIsSpace 0x20" "qIsSpace 0x0A" "qIsSpace 0x09"
  "\<not> qIsSpace 0x3C" "\<not> qIsSpace 0x3E" "\<not> qIsSpace 0x26" "\<not> qIsSpace 0x22" "\<not> qIsSpace 0x3B"
  by (simp_all add: qIsSpace_def)

lemma escape_tokens:
  "qreplace [0x09] nbsps (qreplace [0x0A] (qstr ''<br />'') (concat (map htmlChar s))) = concat (map escChar s)"
  unfolding qreplace_char
  by (induction s) (auto simp: qstr_def escChar_def)

lemma tidy_br: "tidyFrom b (qstr ''<br />'' @ s) = tidyFrom False s"
  by (simp add: qstr_def qIsSpace_def)

lemma tidy_nbsps: "tidyFrom b (nbsps @ s) = tidyFrom False s"
  by (simp add: nbsps_def qstr_def qIsSpace_def)

lemma tidy_htmlChar: "\<not> qIsSpace c \<Longrightarrow> tidyFrom b (htmlChar c @ s) = tidyFrom False s"
  by (auto simp: qstr_def qIsSpace_def)

lemma tidy_escaped: "plainFrom b s \<Longrightarrow> tidyFrom b (concat (map escChar s))"
proof (induction s arbitrary: b)
  case (Cons c s)
  show ?case
  proof (cases "c = 0x0A \<or> c = 0x09 \<or> \<not> qIsSpace c")
    case True
    with Cons.prems have "plainFrom False s" by (auto split: if_splits)
    then have "tidyFrom False (concat (map escChar s))" by (rule Cons.IH)
    with True show ?thesis
      by (auto simp: escChar_def [of c] tidy_br tidy_nbsps tidy_htmlChar simp del: htmlChar.simps tidyFrom.simps)
  next
    case False
    with Cons.prems have "\<not> b" "c = 0x20" "plainFrom True s" by (auto split: if_splits)
    with Cons.IH show ?thesis by auto
  qed
qed simp

lemma pairBlanks_tidy: "tidyFrom b s \<Longrightarrow> pairBlanks s = s"
proof (induction s arbitrary: b rule: pairBlanks.induct)
  case (1 c d s)
  from "1.prems" obtain b' where "tidyFrom b' (d # s)" by (auto split: if_splits)
  moreover from "1.prems" have "\<not> (qIsSpace c \<and> qIsSpace d)" by (auto split: if_splits)
  ultimately have "pairBlanks (d # s) = d # s" by (rule "1.IH"(2) [rotated])
  with \<open>\<not> (qIsSpace c \<and> qIsSpace d)\<close> show ?case by auto
qed auto

lemma escape_plain: "plainFrom b s \<Longrightarrow> escape s = concat (map escChar s)"
  unfolding escape_def escape_tokens by (rule pairBlanks_tidy [OF tidy_escaped])

text \<open>Reading the tags back.\<close>

definition untagged :: "u16 \<Rightarrow> qstring" where
  "untagged c = (if c = 0x0A then [0x0A] else escChar c)"

lemma untagged_newline [simp]: "untagged 0x0A = [0x0A]"
  by (simp add: untagged_def)

lemma no_tag: "c \<noteq> 0x0A \<Longrightarrow> 0x3C \<notin> set (escChar c)"
  by (auto simp: escChar_def nbsps_def qstr_def)

lemma unescapeStep_br:
  assumes "0x3C \<notin> set a" "lower (qstr ''br'') = qstr ''br''"
  shows "unescapeStep lower (a @ qstr ''<br />'' @ s) = Some (a @ [0x0A] @ s)"
proof -
  have "dropWhile (\<lambda>c. c \<noteq> 0x3C) (a @ qstr ''<br />'' @ s) = qstr ''<br />'' @ s"
    "takeWhile (\<lambda>c. c \<noteq> 0x3C) (a @ qstr ''<br />'' @ s) = a"
    using assms(1) by (auto simp: dropWhile_append3 takeWhile_tail qstr_def in_set_conv_decomp)
  moreover have "tagText lower (qstr ''br /'') = [0x0A]"
    using assms(2) by (simp add: tagText_def qsimplified_def qwords_def qindexOf_def qstr_def qIsSpace_def)
  ultimately show ?thesis
    by (simp add: unescapeStep_def qstr_def)
qed

lemma unescapeTags_escaped:
  assumes "lower (qstr ''br'') = qstr ''br''"
  shows "0x3C \<notin> set a \<Longrightarrow> unescapeTags lower (a @ concat (map escChar s)) = a @ concat (map untagged s)"
proof (induction s arbitrary: a)
  case Nil
  then have "dropWhile (\<lambda>c. c \<noteq> 0x3C) a = []" by (simp add: dropWhile_eq_Nil_conv) blast
  then have "unescapeStep lower a = None" by (simp only: unescapeStep_def list.case)
  then show ?case by (simp add: unescapeTags.simps)
next
  case (Cons c s)
  show ?case
  proof (cases "c = 0x0A")
    case True
    have "unescapeTags lower (a @ qstr ''<br />'' @ concat (map escChar s))
        = unescapeTags lower ((a @ [0x0A]) @ concat (map escChar s))"
      using unescapeStep_br [of a lower "concat (map escChar s)"] Cons.prems assms
      by (subst unescapeTags.simps) simp
    with True Cons.IH [of "a @ [0x0A]"] Cons.prems show ?thesis by (simp add: untagged_def [of c])
  next
    case False
    have "0x3C \<notin> set (a @ escChar c)" using no_tag [OF False] Cons.prems by auto
    from Cons.IH [OF this] False show ?thesis by (simp add: untagged_def [of c])
  qed
qed

text \<open>Reading the entities back, one replacement after the other.\<close>

lemma entities:
  "entity (qstr ''&gt;'')" "entity (qstr ''&lt;'')" "entity (qstr ''&quot;'')" "entity (qstr ''&nbsp;'')"
  "entity (qstr ''&amp;'')"
  by (simp_all add: entity_def qstr_def)

text \<open>The entities of a text; those not in \<open>ps\<close> have been read back.\<close>

definition partly :: "qstring set \<Rightarrow> u16 \<Rightarrow> qstring" where
  "partly ps c = (let t = untagged c in if t \<in> ps then t else [c])"

definition allEntities :: "qstring set" where
  "allEntities = {nbsps, qstr ''&gt;'', qstr ''&lt;'', qstr ''&quot;'', qstr ''&amp;''}"

lemma untagged_partly: "untagged = partly allEntities"
  by (rule ext) (simp add: partly_def allEntities_def untagged_def escChar_def Let_def qstr_def nbsps_def)

lemma partly_token:
  assumes "entity p" "ps \<subseteq> {t. entity t}" "qstr ''&amp;'' \<in> ps" "partly ps c \<noteq> p"
  shows "qreplace p r (partly ps c @ s) = partly ps c @ qreplace p r s"
proof -
  obtain q where q: "p = amp # q" using assms(1) by (auto simp: entity_def)
  have "partly ps c \<in> ps \<or> partly ps c = [c] \<and> c \<noteq> amp"
    using assms(3) by (auto simp: partly_def Let_def untagged_def escChar_def)
  then show ?thesis
    using assms(1,2,4) qreplace_entity [OF assms(1) _ assms(4)] qreplace_skip [OF q, of "[c]" r s] by auto
qed

lemma untagged_cases:
  "untagged c = [c] \<and> c \<noteq> amp \<or> untagged c = nbsps
     \<or> untagged c \<in> {qstr ''&gt;'', qstr ''&lt;'', qstr ''&quot;'', qstr ''&amp;''}"
  by (simp add: untagged_def escChar_def)

lemma nbsps_token:
  assumes "partly allEntities c \<noteq> nbsps"
  shows "qreplace nbsps r (partly allEntities c @ s) = partly allEntities c @ qreplace nbsps r s"
proof -
  have q: "nbsps = amp # tl nbsps" by (simp add: nbsps_def qstr_def)
  consider "partly allEntities c = [c]" "c \<noteq> amp"
    | "partly allEntities c \<in> {qstr ''&gt;'', qstr ''&lt;'', qstr ''&quot;'', qstr ''&amp;''}"
    using assms untagged_cases [of c] unfolding untagged_partly by blast
  then show ?thesis
  proof cases
    case 1
    then show ?thesis using qreplace_skip [OF q, of "[c]" r s] by simp
  next
    case 2
    then obtain w where w: "partly allEntities c = amp # w" "amp \<notin> set w"
      by (auto simp: qstr_def)
    have "take (length nbsps) (partly allEntities c @ s) \<noteq> nbsps"
      using 2 by (auto simp: nbsps_def qstr_def)
    then show ?thesis using w qreplace_skip [OF q w(2), of r s] by simp
  qed
qed

lemma read_entity:
  assumes "p = amp # q" "q \<noteq> []" "\<And>c. untagged c = p \<Longrightarrow> r = [c]"
    "\<And>c s. partly ps c \<noteq> p \<Longrightarrow> qreplace p r (partly ps c @ s) = partly ps c @ qreplace p r s"
  shows "qreplace p r (concat (map (partly ps) t)) = concat (map (partly (ps - {p})) t)"
proof -
  have "(if partly ps c = p then r else partly ps c) = partly (ps - {p}) c" for c
    using assms(1,2) assms(3) [of c] by (auto simp: partly_def Let_def split: if_splits)
  then show ?thesis
    using qreplace_tokens [OF assms(1,4)] by simp
qed

lemma untagged_entity:
  "untagged c = nbsps \<Longrightarrow> c = 0x09"
  "untagged c = qstr ''&gt;'' \<Longrightarrow> c = 0x3E" "untagged c = qstr ''&lt;'' \<Longrightarrow> c = 0x3C"
  "untagged c = qstr ''&quot;'' \<Longrightarrow> c = 0x22" "untagged c = qstr ''&nbsp;'' \<Longrightarrow> False"
  "untagged c = qstr ''&amp;'' \<Longrightarrow> c = 0x26"
  by (auto simp: untagged_def escChar_def nbsps_def qstr_def split: if_splits)

lemma entity_distinct [simp]:
  "qstr ''&gt;'' \<noteq> nbsps" "qstr ''&lt;'' \<noteq> nbsps" "qstr ''&quot;'' \<noteq> nbsps" "qstr ''&amp;'' \<noteq> nbsps"
  "qstr ''&gt;'' \<noteq> qstr ''&lt;''" "qstr ''&gt;'' \<noteq> qstr ''&quot;''" "qstr ''&gt;'' \<noteq> qstr ''&amp;''"
  "qstr ''&lt;'' \<noteq> qstr ''&quot;''" "qstr ''&lt;'' \<noteq> qstr ''&amp;''" "qstr ''&quot;'' \<noteq> qstr ''&amp;''"
  by (simp_all add: nbsps_def qstr_def)

lemmas entity_distinct' [simp] = entity_distinct [symmetric]

lemma read_nbsps:
  "qreplace nbsps [0x09] (concat (map untagged t))
     = concat (map (partly {qstr ''&gt;'', qstr ''&lt;'', qstr ''&quot;'', qstr ''&amp;''}) t)"
proof -
  have "nbsps = amp # tl nbsps" "tl nbsps \<noteq> []" by (simp_all add: nbsps_def qstr_def)
  from read_entity [OF this _ nbsps_token] show ?thesis
    using untagged_entity(1) unfolding untagged_partly by (simp add: allEntities_def insert_Diff_if)
qed

lemma read_one:
  assumes "entity p" "\<And>c. untagged c = p \<Longrightarrow> r = [c]" "ps \<subseteq> {t. entity t}" "qstr ''&amp;'' \<in> ps"
  shows "qreplace p r (concat (map (partly ps) t)) = concat (map (partly (ps - {p})) t)"
proof -
  obtain q where "p = amp # q" "q \<noteq> []" using assms(1) by (auto simp: entity_def)
  then show ?thesis by (rule read_entity [OF _ _ assms(2) partly_token [OF assms(1,3,4)]])
qed

lemma unescapeEntities_untagged:
  "unescapeEntities (concat (map untagged t)) = qreplace (qstr ''&#160;'') [0x20] t"
proof -
  have a: "qreplace (qstr ''&gt;'') [0x3E] (concat (map (partly {qstr ''&gt;'', qstr ''&lt;'', qstr ''&quot;'', qstr ''&amp;''}) t))
      = concat (map (partly {qstr ''&lt;'', qstr ''&quot;'', qstr ''&amp;''}) t)"
    using untagged_entity(2) by (subst read_one) (auto simp: entities insert_Diff_if)
  have b: "qreplace (qstr ''&lt;'') [0x3C] (concat (map (partly {qstr ''&lt;'', qstr ''&quot;'', qstr ''&amp;''}) t))
      = concat (map (partly {qstr ''&quot;'', qstr ''&amp;''}) t)"
    using untagged_entity(3) by (subst read_one) (auto simp: entities insert_Diff_if)
  have c: "qreplace (qstr ''&quot;'') [0x22] (concat (map (partly {qstr ''&quot;'', qstr ''&amp;''}) t))
      = concat (map (partly {qstr ''&amp;''}) t)"
    using untagged_entity(4) by (subst read_one) (auto simp: entities insert_Diff_if)
  have n: "qstr ''&nbsp;'' \<noteq> qstr ''&amp;''" by (simp add: qstr_def)
  have d: "qreplace (qstr ''&nbsp;'') [0x20] (concat (map (partly {qstr ''&amp;''}) t))
      = concat (map (partly {qstr ''&amp;''}) t)"
    using untagged_entity(5) n by (subst read_one) (auto simp: entities insert_Diff_if)
  have e: "qreplace (qstr ''&amp;'') [0x26] (concat (map (partly {qstr ''&amp;''}) t)) = concat (map (partly {}) t)"
    using untagged_entity(6) by (subst read_one) (auto simp: entities)
  have "concat (map (partly {}) t) = t"
    by (induction t) (auto simp: partly_def Let_def)
  then show ?thesis
    by (simp add: unescapeEntities_def Let_def read_nbsps a b c d e)
qed

lemma unescape_escape:
  assumes "plainFrom True t" "lower (qstr ''br'') = qstr ''br''"
  shows "unescape lower (escape t) = qreplace (qstr ''&#160;'') [0x20] t"
proof -
  have "qsimplified (escape t) = concat (map escChar t)"
    using escape_plain [OF assms(1)] qsimplified_tidy [OF tidy_escaped [OF assms(1)]] by simp
  then show ?thesis
    using unescapeTags_escaped [of lower "[]" t] assms(2) by (simp add: unescape_def unescapeEntities_untagged)
qed

text \<open>C10: plain text turned into HTML and back is the same text, as long as its blanks are line breaks,
  tabs and single inner spaces, but for one thing: the numeric entity of the no-break space, which
  is read after the ampersands, becomes a space even where the text itself spelled it.\<close>

theorem html_roundtrip:
  assumes "plainFrom True t" "lower (qstr ''br'') = qstr ''br''"
  shows "unescape lower (escape t) = qreplace (qstr ''&#160;'') [0x20] t"
  using assms by (rule unescape_escape)

theorem html_roundtrip_witness:
  "unescape id (escape (qstr ''if a<b && \"c\" &#160; d'')) = qstr ''if a<b && \"c\"   d''"
proof -
  have "plainFrom True (qstr ''if a<b && \"c\" &#160; d'')" by (simp add: qstr_def qIsSpace_def)
  from html_roundtrip [OF this, of id] show ?thesis by (simp add: qstr_def)
qed

text \<open>When the loop over the tags ends, no complete tag is left: no \<^verbatim>\<open>>\<close> comes after the first \<^verbatim>\<open><\<close>.\<close>

theorem tags_are_gone:
  "0x3E \<notin> set (dropWhile (\<lambda>c. c \<noteq> 0x3C) (unescapeTags lower data))"
proof (induction lower data rule: unescapeTags.induct)
  case (1 lower data)
  show ?case
  proof (cases "unescapeStep lower data")
    case None
    have "0x3E \<notin> set (dropWhile (\<lambda>c. c \<noteq> 0x3C) data)"
    proof (cases "dropWhile (\<lambda>c. c \<noteq> 0x3C) data")
      case (Cons c rest)
      then have "c = 0x3C" by (auto simp: dropWhile_eq_Cons_conv)
      with None Cons show ?thesis by (auto simp: unescapeStep_def split: if_splits)
    next
      case Nil
      show ?thesis unfolding Nil by simp
    qed
    with None show ?thesis by (simp add: unescapeTags.simps)
  next
    case (Some data')
    with 1 show ?thesis by (simp add: unescapeTags.simps [of lower data])
  qed
qed

subsection \<open>The cached renderings\<close>

datatype 'd msgOp =
    SetPlainBody qstring | SetHtmlBody qstring | SetForcedHtmlBody qstring | SetBody 'd
  | SetFormattingOverride bool | SetDirection direction | SetImportance messageImportance | SetState messageState
  | SetManager "nat option" | SetFont qfont | AddClass qstring | SetFileName qstring
  | SetForegroundColor "qstring option" | SetBackgroundColor "qstring option" | SetTimestamp nat
  | SetType messageType | SetRequestedPlugin qstring | SetSubject qstring | SetClasses "qstring list"
  | SetDelayed bool | SetFileTransferDisabled bool | SetFileSize nat | SetFilePreview nat

fun msgStep :: "'d richText \<Rightarrow> 'd msgOp \<Rightarrow> 'd message \<Rightarrow> 'd message" where
  "msgStep rt (SetPlainBody s) m = setPlainBody rt s m"
| "msgStep rt (SetHtmlBody s) m = setHtmlBody rt s m"
| "msgStep rt (SetForcedHtmlBody s) m = setForcedHtmlBody rt s m"
| "msgStep rt (SetBody doc) m = setBody rt doc m"
| "msgStep rt (SetFormattingOverride b) m = setFormattingOverride b m"
| "msgStep rt (SetDirection dir) m = setDirection dir m"
| "msgStep rt (SetImportance i) m = setImportance i m"
| "msgStep rt (SetState s) m = setState s m"
| "msgStep rt (SetManager s) m = setManager s m"
| "msgStep rt (SetFont f) m = setFont f m"
| "msgStep rt (AddClass c) m = addClass c m"
| "msgStep rt (SetFileName s) m = setFileName s m"
| "msgStep rt (SetForegroundColor c) m = setForegroundColor c m"
| "msgStep rt (SetBackgroundColor c) m = setBackgroundColor c m"
| "msgStep rt (SetTimestamp t) m = setTimestamp t m"
| "msgStep rt (SetType t) m = setType t m"
| "msgStep rt (SetRequestedPlugin s) m = setRequestedPlugin s m"
| "msgStep rt (SetSubject s) m = setSubject s m"
| "msgStep rt (SetClasses cs) m = setClasses cs m"
| "msgStep rt (SetDelayed b) m = setDelayed b m"
| "msgStep rt (SetFileTransferDisabled b) m = setFileTransferDisabled b m"
| "msgStep rt (SetFileSize k) m = setFileSize k m"
| "msgStep rt (SetFilePreview k) m = setFilePreview k m"

text \<open>
  Copies of a message share its data.  A setter of a message whose data is shared clones it first, and
  the memory of the clone holds \<open>garbage\<close> for the flag that the copy constructor leaves out; the getters
  do not clone.  The data is shared from when a copy is made until the other copies are gone or
  have cloned it.
\<close>

datatype 'd handling = Write bool "'d msgOp" | ReadEscapedBody | ReadParsedBody | Copied | CopiesGone

definition detach :: "bool \<Rightarrow> bool \<times> 'd message \<Rightarrow> 'd message" where
  "detach garbage h = (case h of (shared, m) \<Rightarrow> if shared then clonePrivate garbage m else m)"

fun handle :: "'d richText \<Rightarrow> 'd handling \<Rightarrow> bool \<times> 'd message \<Rightarrow> bool \<times> 'd message" where
  "handle rt (Write garbage op') h = (False, msgStep rt op' (detach garbage h))"
| "handle rt ReadEscapedBody (shared, m) = (shared, snd (escapedBody rt m))"
| "handle rt ReadParsedBody (shared, m) = (shared, snd (parsedBody rt m))"
| "handle rt Copied (shared, m) = (True, m)"
| "handle rt CopiesGone (shared, m) = (False, m)"

definition handleAll :: "'d richText \<Rightarrow> 'd handling list \<Rightarrow> 'd message \<Rightarrow> bool \<times> 'd message" where
  "handleAll rt hs m = fold (handle rt) hs (False, m)"

definition renderParsed :: "'d richText \<Rightarrow> 'd message \<Rightarrow> qstring" where
  "renderParsed rt m = rt_parseEmoticons rt (parseLinks rt (renderEscaped rt m) RichTextFormat)"

text \<open>\<open>forced b m\<close>: the message with the flag that its HTML is forced set to \<open>b\<close>.\<close>

abbreviation forced :: "bool \<Rightarrow> 'd message \<Rightarrow> 'd message" where
  "forced b m \<equiv> m\<lparr>m_forceHtml := b\<rparr>"

definition coherent :: "'d richText \<Rightarrow> bool \<Rightarrow> 'd message \<Rightarrow> bool" where
  "coherent rt b m \<longleftrightarrow> (m_escapedBodyDirty m \<longrightarrow> m_parsedBodyDirty m \<and> b = m_forceHtml m)
     \<and> (m_escapedBodyDirty m \<or> m_escapedBody m = renderEscaped rt (forced b m))
     \<and> (m_parsedBodyDirty m \<or> m_parsedBody m = renderParsed rt (forced b m))"

lemma renderEscaped_unforced:
  "m_format m = PlainText \<or> \<not> m_formattingOverride m \<Longrightarrow> renderEscaped rt (forced b m) = renderEscaped rt m"
  by (auto simp: renderEscaped_def)

lemma renderEscaped_cong:
  "m_format m' = m_format m \<Longrightarrow> m_formattingOverride m' = m_formattingOverride m \<Longrightarrow>
   m_forceHtml m' = m_forceHtml m \<Longrightarrow> m_body m' = m_body m \<Longrightarrow> renderEscaped rt m' = renderEscaped rt m"
  by (simp add: renderEscaped_def)

lemma escapedBody_coherent:
  assumes "coherent rt b m"
  shows "fst (escapedBody rt m) = renderEscaped rt (forced b m) \<and> coherent rt b (snd (escapedBody rt m))
     \<and> m_forceHtml (snd (escapedBody rt m)) = m_forceHtml m
     \<and> renderParsed rt (forced b (snd (escapedBody rt m))) = renderParsed rt (forced b m)"
  using assms
  by (auto simp: escapedBody_def coherent_def renderParsed_def renderEscaped_def Let_def)

lemma parsedBody_coherent:
  assumes "coherent rt b m"
  shows "fst (parsedBody rt m) = renderParsed rt (forced b m) \<and> coherent rt b (snd (parsedBody rt m))
    \<and> m_forceHtml (snd (parsedBody rt m)) = m_forceHtml m"
proof (cases "m_parsedBodyDirty m")
  case True
  obtain html m' where e: "escapedBody rt m = (html, m')" by fastforce
  from escapedBody_coherent [OF assms] e
  have "html = renderEscaped rt (forced b m)" "coherent rt b m'" "m_forceHtml m' = m_forceHtml m"
    "renderParsed rt (forced b m') = renderParsed rt (forced b m)" by auto
  moreover have "\<not> m_escapedBodyDirty m'" using e by (auto simp: escapedBody_def Let_def split: if_splits)
  ultimately show ?thesis using True e
    by (auto simp: parsedBody_def Let_def coherent_def renderParsed_def renderEscaped_def)
qed (use assms in \<open>auto simp: parsedBody_def coherent_def\<close>)

lemma coherent_dirty: "m_escapedBodyDirty m \<Longrightarrow> m_parsedBodyDirty m \<Longrightarrow> coherent rt (m_forceHtml m) m"
  by (simp add: coherent_def)

lemma coherent_cong:
  assumes "renderEscaped rt (forced b m') = renderEscaped rt (forced b m)" "m_escapedBodyDirty m' = m_escapedBodyDirty m"
    "m_escapedBody m' = m_escapedBody m" "m_parsedBodyDirty m' = m_parsedBodyDirty m"
    "m_parsedBody m' = m_parsedBody m" "m_forceHtml m' = m_forceHtml m"
  shows "coherent rt b m \<Longrightarrow> coherent rt b m'"
  using assms by (simp add: coherent_def renderParsed_def)

lemmas body_setters = setPlainBody_def setHtmlBody_def setForcedHtmlBody_def doSetBody_def setBody_def
  setFormattingOverride_def Let_def

lemmas other_setters = setDirection_def setImportance_def setState_def setManager_def setFont_def
  addClass_def setFileName_def setForegroundColor_def setBackgroundColor_def setTimestamp_def setType_def
  setRequestedPlugin_def setSubject_def setClasses_def setDelayed_def setFileTransferDisabled_def
  setFileSize_def setFilePreview_def

text \<open>A setter either leaves the cached renderings and what they depend on, or marks them both.\<close>

lemma msgStep_cases:
  "m_escapedBodyDirty (msgStep rt op' m) \<and> m_parsedBodyDirty (msgStep rt op' m)
   \<or> m_format (msgStep rt op' m) = m_format m \<and> m_formattingOverride (msgStep rt op' m) = m_formattingOverride m
     \<and> m_forceHtml (msgStep rt op' m) = m_forceHtml m \<and> m_body (msgStep rt op' m) = m_body m
     \<and> m_escapedBodyDirty (msgStep rt op' m) = m_escapedBodyDirty m \<and> m_escapedBody (msgStep rt op' m) = m_escapedBody m
     \<and> m_parsedBodyDirty (msgStep rt op' m) = m_parsedBodyDirty m \<and> m_parsedBody (msgStep rt op' m) = m_parsedBody m"
  by (cases op') (simp_all add: body_setters other_setters)

lemma msgStep_coherent:
  assumes "coherent rt b m"
  shows "coherent rt b (msgStep rt op' m) \<and> (b = m_forceHtml m \<longrightarrow> b = m_forceHtml (msgStep rt op' m))
    \<or> coherent rt (m_forceHtml (msgStep rt op' m)) (msgStep rt op' m)"
proof (cases "m_escapedBodyDirty (msgStep rt op' m) \<and> m_parsedBodyDirty (msgStep rt op' m)")
  case True
  then show ?thesis using coherent_dirty by blast
next
  case False
  then have k: "m_format (msgStep rt op' m) = m_format m" "m_formattingOverride (msgStep rt op' m) = m_formattingOverride m"
    "m_forceHtml (msgStep rt op' m) = m_forceHtml m" "m_body (msgStep rt op' m) = m_body m"
    "m_escapedBodyDirty (msgStep rt op' m) = m_escapedBodyDirty m" "m_escapedBody (msgStep rt op' m) = m_escapedBody m"
    "m_parsedBodyDirty (msgStep rt op' m) = m_parsedBodyDirty m" "m_parsedBody (msgStep rt op' m) = m_parsedBody m"
    using msgStep_cases [of rt op' m] by blast+
  have "coherent rt b (msgStep rt op' m)"
    by (rule coherent_cong [OF _ k(5-8,3) assms]) (rule renderEscaped_cong; simp add: k(1,2,4))
  with k(3) show ?thesis by simp
qed

lemma clone_coherent: "coherent rt b m \<Longrightarrow> \<exists>b'. coherent rt b' (clonePrivate g m)"
proof (cases "m_escapedBodyDirty m")
  case True
  assume "coherent rt b m"
  with True have "coherent rt g (clonePrivate g m)" by (simp add: coherent_def clonePrivate_def)
  then show ?thesis ..
next
  case False
  have "forced b (clonePrivate g m) = forced b m" by (simp add: clonePrivate_def)
  moreover assume "coherent rt b m"
  ultimately have "coherent rt b (clonePrivate g m)"
    using False by (simp add: coherent_def) (simp add: clonePrivate_def)
  then show ?thesis ..
qed

text \<open>The flag the renderings were made with is the current one, unless the data was shared.\<close>

definition cached :: "'d richText \<Rightarrow> bool \<Rightarrow> bool \<times> 'd message \<Rightarrow> bool" where
  "cached rt copied h \<longleftrightarrow> (\<exists>b. coherent rt b (snd h) \<and> (\<not> copied \<longrightarrow> \<not> fst h \<and> b = m_forceHtml (snd h)))"

lemma handle_cached: "cached rt copied h \<Longrightarrow> cached rt (copied \<or> op' = Copied) (handle rt op' h)"
proof -
  obtain shared m where h: "h = (shared, m)" by fastforce
  assume "cached rt copied h"
  then obtain b where b: "coherent rt b m" "\<not> copied \<Longrightarrow> \<not> shared \<and> b = m_forceHtml m"
    by (auto simp: cached_def h)
  show ?thesis
  proof (cases op')
    case (Write g w)
    let ?m = "detach g h"
    obtain b' where b': "coherent rt b' ?m" "\<not> copied \<Longrightarrow> b' = m_forceHtml ?m"
    proof (cases shared)
      case True
      with b(2) have "copied" by blast
      moreover obtain b' where "coherent rt b' ?m"
        using clone_coherent [OF b(1)] True by (auto simp: detach_def h)
      ultimately show thesis using that by blast
    next
      case False
      with b that [of b] show thesis by (simp add: detach_def h)
    qed
    from msgStep_coherent [OF b'(1), of w] b'(2) Write show ?thesis by (auto simp: cached_def)
  next
    case ReadEscapedBody
    with escapedBody_coherent [OF b(1)] b(2) show ?thesis by (auto simp: cached_def h)
  next
    case ReadParsedBody
    with parsedBody_coherent [OF b(1)] b(2) show ?thesis by (auto simp: cached_def h)
  qed (use b in \<open>auto simp: cached_def h\<close>)
qed

lemma handleAll_cached: "cached rt (Copied \<in> set hs) (handleAll rt hs (fst (newMessage rt now from' to' n)))"
proof -
  have "cached rt copied h \<Longrightarrow> cached rt (copied \<or> Copied \<in> set hs) (fold (handle rt) hs h)" for copied h
  proof (induction hs arbitrary: copied h)
    case (Cons op' hs)
    from Cons.IH [OF handle_cached [OF Cons.prems, of op']] show ?case by (simp add: ac_simps eq_commute)
  qed simp
  moreover have "cached rt False (False, fst (newMessage rt now from' to' n))"
    unfolding cached_def by (intro exI [of _ False]) (simp add: coherent_def newMessage_def)
  ultimately show ?thesis by (metis handleAll_def)
qed

text \<open>
  C31: whatever is set, read and copied in between, the two renderings a message answers are computed
  from its current body, format and override and from one value of the flag that its HTML is
  forced.  That is the current value if the message has never been copied; cloning shared data
  replaces the flag by garbage and keeps the renderings.  Where the flag does not matter, for plain text and
  without an override, they are the current ones in any case.
\<close>

theorem cached_bodies_are_fresh:
  "let m = snd (handleAll rt hs (fst (newMessage rt now from' to' n)))
   in \<exists>b. (Copied \<notin> set hs \<or> m_format m = PlainText \<or> \<not> m_formattingOverride m \<longrightarrow> b = m_forceHtml m)
    \<and> fst (escapedBody rt m) = renderEscaped rt (m\<lparr>m_forceHtml := b\<rparr>)
    \<and> fst (parsedBody rt m) = renderParsed rt (m\<lparr>m_forceHtml := b\<rparr>)"
proof -
  define m where "m = snd (handleAll rt hs (fst (newMessage rt now from' to' n)))"
  obtain b where b: "coherent rt b m" "Copied \<notin> set hs \<Longrightarrow> b = m_forceHtml m"
    using handleAll_cached [of rt hs now from' to' n] by (auto simp: cached_def m_def)
  let ?c = "if m_format m = PlainText \<or> \<not> m_formattingOverride m then m_forceHtml m else b"
  have "renderEscaped rt (forced ?c m) = renderEscaped rt (forced b m)"
    using renderEscaped_unforced [of m rt b] by simp
  then have "\<exists>b. (Copied \<notin> set hs \<or> m_format m = PlainText \<or> \<not> m_formattingOverride m \<longrightarrow> b = m_forceHtml m)
    \<and> fst (escapedBody rt m) = renderEscaped rt (forced b m) \<and> fst (parsedBody rt m) = renderParsed rt (forced b m)"
    using escapedBody_coherent [OF b(1)] parsedBody_coherent [OF b(1)] b(2)
    by (intro exI [of _ ?c]) (auto simp: renderParsed_def)
  then show ?thesis unfolding m_def Let_def .
qed

text \<open>Cloning the data of a message loses that its HTML is forced: with the formatting overridden,
  the copy shows the plain text where the original shows the HTML.\<close>

theorem copies_forget_forced_html:
  "let m = setFormattingOverride True (setForcedHtmlBody rt body m0);
       doc = rt_setHtml rt (qreplace [0xFFFC] [0x20] body);
       strip = (\<lambda>html. filter (\<lambda>c. c \<noteq> 0x0A) (rt_rxReplace rt badStuff [] html))
   in fst (escapedBody rt m) = strip (rt_toHtml rt doc)
    \<and> fst (escapedBody rt (clonePrivate False m)) = strip (rt_convertFromPlainText rt (rt_toPlainText rt doc))"
  by (simp add: escapedBody_def renderEscaped_def setForcedHtmlBody_def setHtmlBody_def doSetBody_def
      setFormattingOverride_def clonePrivate_def Let_def)

subsection \<open>Links and style\<close>

lemma qsplitOn_piece: "a \<notin> set p \<Longrightarrow> qsplitOn a (p @ a # s) = p # qsplitOn a s"
  by (induction p) auto

lemma qsplitOn_last: "a \<notin> set p \<Longrightarrow> qsplitOn a p = [p]"
  by (induction p) auto

lemma qsplitOn_nonempty: "qsplitOn a s \<noteq> []"
  by (induction s) auto

definition showTags :: "(qstring \<Rightarrow> qstring) \<Rightarrow> (qstring \<times> qstring) list \<Rightarrow> qstring" where
  "showTags f ts = concat (map (\<lambda>(tag, p). 0x3C # tag @ 0x3E # f p) ts)"

lemma qindexOf_after: "a \<notin> set w \<Longrightarrow> qindexOf [a] 0 (w @ a # s) = Some (length w)"
  by (induction w) (auto simp: qindexOf_def)

lemma split_showTags:
  "0x3C \<notin> set p0 \<Longrightarrow> \<forall>(tag, p) \<in> set ts. 0x3C \<notin> set tag \<and> 0x3C \<notin> set p \<Longrightarrow>
     qsplitOn 0x3C (p0 @ showTags id ts) = p0 # map (\<lambda>(tag, p). tag @ 0x3E # p) ts"
proof (induction ts arbitrary: p0)
  case (Cons t ts)
  obtain tag p where t: "t = (tag, p)" by fastforce
  have "qsplitOn 0x3C (p0 @ showTags id (t # ts)) = p0 # qsplitOn 0x3C ((tag @ 0x3E # p) @ showTags id ts)"
    using Cons.prems(1) by (simp add: t showTags_def qsplitOn_piece)
  moreover have "qsplitOn 0x3C ((tag @ 0x3E # p) @ showTags id ts)
      = (tag @ 0x3E # p) # map (\<lambda>(tag, p). tag @ 0x3E # p) ts"
    using Cons.prems(2) t by (intro Cons.IH) auto
  ultimately show ?case by (simp only: t list.map split)
qed (simp add: showTags_def qsplitOn_last)

lemma qjoin_concat: "qjoin [a] (w # ws) = w @ concat (map (\<lambda>v. a # v) ws)"
  by (induction ws arbitrary: w) auto

text \<open>Links are made in the text between the tags only; every tag of well-formed HTML is kept as it is.\<close>

theorem links_outside_tags:
  assumes "0x3C \<notin> set p0" "\<forall>(tag, p) \<in> set ts. 0x3C \<notin> set tag \<and> 0x3E \<notin> set tag \<and> 0x3C \<notin> set p"
  shows "parseLinks rt (p0 @ showTags id ts) RichTextFormat = linkPlain rt p0 @ showTags (linkPlain rt) ts"
proof -
  have "qsplitOn 0x3C (p0 @ showTags id ts) = p0 # map (\<lambda>(tag, p). tag @ 0x3E # p) ts"
    using assms by (intro split_showTags) auto
  moreover have "map (linkEntry rt) (map (\<lambda>(tag, p). tag @ 0x3E # p) ts)
      = map (\<lambda>(tag, p). tag @ 0x3E # linkPlain rt p) ts"
    using assms(2) by (auto simp: linkEntry_def qindexOf_after)
  ultimately have "parseLinks rt (p0 @ showTags id ts) RichTextFormat
      = linkPlain rt p0 @ concat (map (\<lambda>v. 0x3C # v) (map (\<lambda>(tag, p). tag @ 0x3E # linkPlain rt p) ts))"
    by (simp only: parseLinks_def Let_def if_True list.sel simp_thms qjoin_concat)
  also have "concat (map (\<lambda>v. 0x3C # v) (map (\<lambda>(tag, p). tag @ 0x3E # linkPlain rt p) ts))
      = showTags (linkPlain rt) ts"
    unfolding showTags_def map_map by (rule arg_cong [of _ _ concat]) (auto simp: fun_eq_iff)
  finally show ?thesis .
qed

definition sampleRichText :: "qstring richText" where
  "sampleRichText =
     \<lparr>rt_empty = [], rt_setPlainText = id, rt_setHtml = id, rt_toPlainText = id, rt_toHtml = id,
      rt_isRightToLeft = (\<lambda>s. False), rt_convertFromPlainText = id,
      rt_rxReplace = (\<lambda>rx after s. if rx = regexpPatterns ! 2 then s @ [0x40] else s), rt_toLower = id,
      rt_parseEmoticons = id,
      rt_defaultFont = \<lparr>qf_family = None, qf_italic = False, qf_strikeOut = False, qf_underline = False,
                        qf_bold = False\<rparr>\<rparr>"

text \<open>A message whose HTML is forced is rendered, copied and marked as sent: the rendering is kept and the
  flag is garbage.\<close>

definition copiedHandling :: "qstring handling list" where
  "copiedHandling =
     [Write True (SetForcedHtmlBody (qstr ''x'')), Write True (SetFormattingOverride True), ReadEscapedBody, Copied,
      Write False (SetState StateSent)]"

theorem cached_bodies_are_fresh_witness:
  "let m = snd (handleAll sampleRichText copiedHandling (fst (newMessage sampleRichText 0 None [] 1)))
   in \<exists>b. (Copied \<notin> set copiedHandling \<or> m_format m = PlainText \<or> \<not> m_formattingOverride m \<longrightarrow> b = m_forceHtml m)
    \<and> fst (escapedBody sampleRichText m) = renderEscaped sampleRichText (m\<lparr>m_forceHtml := b\<rparr>)
    \<and> fst (parsedBody sampleRichText m) = renderParsed sampleRichText (m\<lparr>m_forceHtml := b\<rparr>)"
  by (rule cached_bodies_are_fresh)

theorem links_outside_tags_witness:
  "parseLinks sampleRichText (qstr ''a'' @ showTags id [(qstr ''b'', qstr ''c'')]) RichTextFormat
     = linkPlain sampleRichText (qstr ''a'') @ showTags (linkPlain sampleRichText) [(qstr ''b'', qstr ''c'')]"
  by (rule links_outside_tags) (simp_all add: qstr_def)

definition quotes :: "qstring \<Rightarrow> nat" where
  "quotes s = length (filter (\<lambda>c. c = 0x22) s)"

lemma quotes_append [simp]: "quotes (s @ u) = quotes s + quotes u"
  by (simp add: quotes_def)

lemma qarg_colour:
  "qarg (qstr ''color: %1; '') c = qstr ''color: '' @ c @ qstr ''; ''"
  "qarg (qstr ''background-color: %1; '') c = qstr ''background-color: '' @ c @ qstr ''; ''"
  by (simp_all add: qarg_def qstr_def Let_def markerAt_def digitValue_def)

text \<open>The style attribute is one quoted value, unless the name of the font family has quotes itself: it
  is copied into the attribute as it is.\<close>

theorem style_attribute_quotes:
  assumes "\<forall>c. m_foregroundColor m = Some c \<or> m_backgroundColor m = Some c \<longrightarrow> quotes c = 0"
  shows "quotes (getHtmlStyleAttribute rt m)
    = 2 + (if m_formattingOverride m \<or> m_font m = rt_defaultFont rt then 0
           else case qf_family (m_font m) of None \<Rightarrow> 0 | Some family \<Rightarrow> quotes family)"
proof -
  have "quotes (case m_foregroundColor m of None \<Rightarrow> [] | Some c \<Rightarrow> qarg (qstr ''color: %1; '') c) = 0"
    "quotes (case m_backgroundColor m of None \<Rightarrow> [] | Some c \<Rightarrow> qarg (qstr ''background-color: %1; '') c) = 0"
    using assms by (auto simp: qarg_colour split: option.split) (simp_all add: quotes_def qstr_def)
  moreover have "quotes (case qf_family (m_font m) of None \<Rightarrow> []
        | Some family \<Rightarrow> qstr ''font-family: '' @ family @ qstr ''; '')
      = (case qf_family (m_font m) of None \<Rightarrow> 0 | Some family \<Rightarrow> quotes family)"
    by (simp add: quotes_def qstr_def split: option.split)
  moreover have "quotes (qstr ''style=\"'') = 1" "quotes (qstr ''\"'') = 1" "quotes [] = 0"
    "quotes (qstr ''font-style: italic; '') = 0" "quotes (qstr ''text-decoration: line-through; '') = 0"
    "quotes (qstr ''text-decoration: underline; '') = 0" "quotes (qstr ''font-weight: bold;'') = 0"
    by (simp_all add: quotes_def qstr_def)
  ultimately show ?thesis
    by (simp add: getHtmlStyleAttribute_def)
qed

theorem style_attribute_quotes_witness:
  "quotes (getHtmlStyleAttribute sampleRichText
     (setFont \<lparr>qf_family = Some (qstr ''A\" onclick=\"x''), qf_italic = False, qf_strikeOut = False,
        qf_underline = False, qf_bold = True\<rparr> (fst (newMessage sampleRichText 0 None [] 1)))) = 4"
proof -
  let ?m = "setFont \<lparr>qf_family = Some (qstr ''A\" onclick=\"x''), qf_italic = False, qf_strikeOut = False,
        qf_underline = False, qf_bold = True\<rparr> (fst (newMessage sampleRichText 0 None [] 1))"
  have "\<forall>c. m_foregroundColor ?m = Some c \<or> m_backgroundColor ?m = Some c \<longrightarrow> quotes c = 0"
    by (simp add: setFont_def newMessage_def)
  from style_attribute_quotes [OF this, of sampleRichText] show ?thesis
    by (simp add: setFont_def newMessage_def sampleRichText_def) (simp add: quotes_def qstr_def)
qed

text \<open>An incoming message from contact 1.\<close>

definition sampleMessage :: "string \<Rightarrow> qstring message" where
  "sampleMessage s =
     setDirection Inbound (setPlainBody sampleRichText (qstr s) (fst (newMessage sampleRichText 0 (Some 1) [] 1)))"

lemma sampleMessage_fields [simp]:
  "m_from (sampleMessage s) = Some 1" "m_direction (sampleMessage s) = Inbound"
  by (simp_all add: sampleMessage_def newMessage_def setDirection_def setPlainBody_def doSetBody_def Let_def)

lemma sampleMessage_body: "plainBody sampleRichText (sampleMessage s) = qreplace [0xFFFC] [0x20] (qreplace [0xFFFC] [0x20] (qstr s))"
  by (simp add: sampleMessage_def newMessage_def setDirection_def setPlainBody_def doSetBody_def plainBody_def
      sampleRichText_def Let_def)

end
