(* ===== verification/Kopete_CommandHandler.thy ===== *)
theory Kopete_CommandHandler
  imports Kopete_Message
begin

text \<open>
  Slash commands of \<^verbatim>\<open>libkopete\<close>: the registry and the dispatch of \<^verbatim>\<open>kopetecommandhandler.cpp\<close>,
  the argument checks and alias expansion of \<^verbatim>\<open>kopetecommand.cpp\<close>, and the way
  \<^verbatim>\<open>ChatSession::sendMessage\<close> (\<^verbatim>\<open>kopetechatsession.cpp\<close>) offers every message to them.

  Commands are objects with an address, of which the handler's table holds the pointers.  The
  table maps the object that registered a command to a multi hash from names to commands, here a
  list with the last insertion first; an entry with an empty list and no entry differ in no
  operation, so the \<^verbatim>\<open>operator[]\<close> that inserts one on lookup does not.  Processing a message
  calls itself through the aliases and through the slots that send messages; the definitions take
  fuel for the depth of these calls, and the theory proves how much is enough.  Qt's case
  folding, the translations, the authorisation and what a chat session knows are arguments.
\<close>

subsection \<open>State\<close>

type_synonym objPtr = nat
type_synonym cmdPtr = nat
type_synonym sessionPtr = nat
type_synonym procPtr = nat

type_synonym commandList = "(qstring \<times> cmdPtr) list"

datatype CommandType = NormalCommand | SystemAlias | UserAlias | UndefinedCommand

datatype objKind = HandlerObject | ProtocolObject | PluginObject | OtherObject

datatype slotName =
    HelpSlot | OpenLastUrlSlot | CloseSlot | PartSlot | ClearSlot | AwaySlot | AwayAllSlot | SaySlot | ExecSlot
  | PluginSlot string

datatype cmdError = ExpandsToItself | TooFew nat | TooMany nat | NotAuthorized

datatype chEvent =
    HandleCommand cmdPtr qstring sessionPtr
  | PrintError cmdError cmdPtr sessionPtr bool
  | MessageSent qstring direction sessionPtr
  | MessageSuccess sessionPtr
  | AppendMessage qstring direction sessionPtr
  | StartProcess procPtr qstring sessionPtr
  | ProcessDeleteLater procPtr
  | ViewClear sessionPtr
  | ViewClose sessionPtr
  | OpenBrowser qstring
  | SetAccountStatus sessionPtr bool "qstring option"
  | SetAllStatus bool "qstring option"
  | FrontOfEmptyList

record command =
  cm_command :: qstring
  cm_help :: "qstring option"
  cm_formatString :: qstring
  cm_minArgs :: nat
  cm_maxArgs :: int
  cm_type :: CommandType
  cm_slot :: slotName
  cm_parent :: objPtr
  cm_processing :: bool

record handler =
  ch_this :: objPtr
  ch_pluginCommands :: "(objPtr \<times> commandList) list"
  ch_command :: "cmdPtr \<Rightarrow> command"
  ch_nextCommand :: cmdPtr
  ch_nextProcess :: procPtr
  ch_processMap :: "(procPtr \<times> sessionPtr \<times> direction) list"
  ch_inCommand :: bool
  ch_events :: "chEvent list"

text \<open>What lies outside the two files.  \<open>en_order\<close> is the order in which a hash is traversed.\<close>

record chEnv =
  en_lower :: "qstring \<Rightarrow> qstring"
  en_upper :: "qstring \<Rightarrow> qstring"
  en_i18n :: "string \<Rightarrow> qstring list \<Rightarrow> qstring"
  en_order :: "commandList \<Rightarrow> commandList"
  en_authorize :: "qstring \<Rightarrow> bool"
  en_shellAccess :: bool
  en_kind :: "objPtr \<Rightarrow> objKind"
  en_protocol :: "sessionPtr \<Rightarrow> objPtr"
  en_displayName :: "sessionPtr \<Rightarrow> qstring"
  en_isAway :: "sessionPtr \<Rightarrow> bool"
  en_hasView :: "sessionPtr \<Rightarrow> bool"
  en_lastUrl :: "sessionPtr \<Rightarrow> qstring"

definition raise :: "chEvent \<Rightarrow> handler \<Rightarrow> handler" where
  "raise e h = h\<lparr>ch_events := ch_events h @ [e]\<rparr>"

definition updateCommand :: "cmdPtr \<Rightarrow> (command \<Rightarrow> command) \<Rightarrow> handler \<Rightarrow> handler" where
  "updateCommand c f h = h\<lparr>ch_command := (ch_command h)(c := f (ch_command h c))\<rparr>"

text \<open>A \<^verbatim>\<open>QMap\<close> is kept in the order of its keys.\<close>

definition pluginCommandsOf :: "objPtr \<Rightarrow> handler \<Rightarrow> commandList" where
  "pluginCommandsOf ob h = (case map_of (ch_pluginCommands h) ob of None \<Rightarrow> [] | Some l \<Rightarrow> l)"

subsection \<open>Arguments\<close>

definition quote :: u16 where
  "quote = 0x22"

text \<open>\<^verbatim>\<open>cap(0)\<close> of the minimal \<^verbatim>\<open>"(.*)"\<close>: the first quoted block with its quotes.\<close>

definition quotedBlock :: "qstring \<Rightarrow> qstring option" where
  "quotedBlock s =
     (case dropWhile (\<lambda>c. c \<noteq> quote) s of
        [] \<Rightarrow> None
      | q # rest \<Rightarrow> if quote \<in> set rest then Some (q # takeWhile (\<lambda>c. c \<noteq> quote) rest @ [q]) else None)"

text \<open>\<^verbatim>\<open>args.section(quotedArgs, 0)\<close> runs from the first section to the last: it is the whole string.\<close>

definition parseArguments :: "qstring \<Rightarrow> qstring list" where
  "parseArguments args = (case quotedBlock args of None \<Rightarrow> [] | Some b \<Rightarrow> [b]) @ qwords args"

text \<open>The fields after the first, for fields separated by spaces.\<close>

definition afterFirstWord :: "qstring \<Rightarrow> qstring" where
  "afterFirstWord s = dropWhile qIsSpace (dropWhile (\<lambda>c. \<not> qIsSpace c) s)"

text \<open>The two captures of \<^verbatim>\<open>^/([\S]+)(.*)\<close>, the second without its first character.\<close>

definition splitCommand :: "qstring \<Rightarrow> (qstring \<times> qstring) option" where
  "splitCommand msg =
     (case msg of
        [] \<Rightarrow> None
      | c # rest \<Rightarrow>
          if c = 0x2F \<and> takeWhile (\<lambda>c. \<not> qIsSpace c) rest \<noteq> []
          then Some (takeWhile (\<lambda>c. \<not> qIsSpace c) rest, drop 1 (dropWhile (\<lambda>c. \<not> qIsSpace c) rest))
          else None)"

subsection \<open>Expanding an alias\<close>

definition expandAlias :: "qstring \<Rightarrow> qstring \<Rightarrow> qstring \<Rightarrow> qstring list \<Rightarrow> qstring" where
  "expandAlias formatString nick args mArgs =
     (let formatString = replacePair 0x25 0x6E nick formatString;
          formatString = replacePair 0x25 0x73 args formatString
      in foldl qarg formatString mArgs)"

subsection \<open>The registry\<close>

definition toInsert :: "objPtr \<Rightarrow> qstring \<Rightarrow> command \<Rightarrow> handler \<Rightarrow> handler" where
  "toInsert parent name cmd h =
     (let c = ch_nextCommand h
      in h\<lparr>ch_command := (ch_command h)(c := cmd), ch_nextCommand := c + 1,
          ch_pluginCommands := qmapSet parent ((name, c) # pluginCommandsOf parent h) (ch_pluginCommands h)\<rparr>)"

definition registerCommand ::
  "chEnv \<Rightarrow> objPtr \<Rightarrow> qstring \<Rightarrow> slotName \<Rightarrow> qstring option \<Rightarrow> nat \<Rightarrow> int \<Rightarrow> handler \<Rightarrow> handler" where
  "registerCommand en parent command handlerSlot help minArgs maxArgs h =
     (let lowerCommand = en_lower en command
      in toInsert parent lowerCommand
           \<lparr>cm_command = lowerCommand, cm_help = help, cm_formatString = [], cm_minArgs = minArgs, cm_maxArgs = maxArgs,
            cm_type = NormalCommand, cm_slot = handlerSlot, cm_parent = parent, cm_processing = False\<rparr> h)"

definition registerAlias ::
  "chEnv \<Rightarrow> objPtr \<Rightarrow> qstring \<Rightarrow> qstring \<Rightarrow> qstring option \<Rightarrow> CommandType \<Rightarrow> nat \<Rightarrow> int \<Rightarrow> handler \<Rightarrow> handler" where
  "registerAlias en parent alias formatString help type minArgs maxArgs h =
     (let lowerAlias = en_lower en alias
      in toInsert parent lowerAlias
           \<lparr>cm_command = lowerAlias, cm_help = help, cm_formatString = formatString, cm_minArgs = minArgs,
            cm_maxArgs = maxArgs, cm_type = type, cm_slot = PluginSlot [], cm_parent = parent, cm_processing = False\<rparr> h)"

text \<open>\<^verbatim>\<open>unregisterCommand\<close> and \<^verbatim>\<open>unregisterAlias\<close> have the same body, which does not fold the case of the name.\<close>

definition unregisterCommand :: "objPtr \<Rightarrow> qstring \<Rightarrow> handler \<Rightarrow> handler" where
  "unregisterCommand parent command h =
     (if command \<in> fst ` set (pluginCommandsOf parent h)
      then h\<lparr>ch_pluginCommands :=
             qmapSet parent (filter (\<lambda>(k, c). k \<noteq> command) (pluginCommandsOf parent h)) (ch_pluginCommands h)\<rparr>
      else h)"

definition slotPluginLoaded :: "objPtr \<Rightarrow> handler \<Rightarrow> handler" where
  "slotPluginLoaded plugin h =
     (if plugin \<notin> fst ` set (ch_pluginCommands h)
      then h\<lparr>ch_pluginCommands := qmapSet plugin [] (ch_pluginCommands h)\<rparr> else h)"

definition slotPluginDestroyed :: "objPtr \<Rightarrow> handler \<Rightarrow> handler" where
  "slotPluginDestroyed plugin h = h\<lparr>ch_pluginCommands := filter (\<lambda>(k, l). k \<noteq> plugin) (ch_pluginCommands h)\<rparr>"

definition newCommandHandler :: "chEnv \<Rightarrow> objPtr \<Rightarrow> handler \<Rightarrow> handler" where
  "newCommandHandler en this h =
     (let h = h\<lparr>ch_this := this, ch_inCommand := False, ch_pluginCommands := qmapSet this [] (ch_pluginCommands h)\<rparr>;
          reg = (\<lambda>name slot usage minArgs maxArgs.
                   registerCommand en this (qstr name) slot (Some (en_i18n en (''USAGE: /'' @ usage) [])) minArgs maxArgs)
      in fold (\<lambda>f. f)
           [reg ''help'' HelpSlot
              ''help [<command>] - Used to list available commands, or show help for a specified command.'' 0 1,
            reg ''url'' OpenLastUrlSlot ''url - Opens last URL for current chat in default browser.'' 0 (- 1),
            reg ''close'' CloseSlot ''close - Closes the current view.'' 0 (- 1),
            reg ''part'' PartSlot ''part - Closes the current view.'' 0 (- 1),
            reg ''clear'' ClearSlot ''clear - Clears the active view's chat buffer.'' 0 (- 1),
            reg ''away'' AwaySlot ''away [<reason>] - Marks you as away/back for the current account only.'' 0 (- 1),
            reg ''awayall'' AwayAllSlot ''awayall [<reason>] - Marks you as away/back for all accounts.'' 0 (- 1),
            reg ''say'' SaySlot
              (''say <text> - Say text in this chat. This is the same as just typing a message, but is very ''
               @ ''useful for scripts.'') 1 (- 1),
            reg ''exec'' ExecSlot
              (''exec [-o] <command> - Executes the specified command and displays the output in the chat buffer. ''
               @ ''If -o is specified, the output is sent to all members of the chat.'') 1 (- 1)] h)"

definition addCommands :: "handler \<Rightarrow> CommandType \<Rightarrow> commandList \<Rightarrow> commandList \<Rightarrow> commandList" where
  "addCommands h type source target =
     fold (\<lambda>(k, c) target.
         if map_of target k = None \<and> (type = UndefinedCommand \<or> cm_type (ch_command h c) = type)
         then (k, c) # target else target) source target"

definition commands :: "chEnv \<Rightarrow> objPtr \<Rightarrow> handler \<Rightarrow> commandList" where
  "commands en protocol h =
     (let add = addCommands h; own = pluginCommandsOf protocol h; this = pluginCommandsOf (ch_this h) h;
          l = add UserAlias own [];
          l = add SystemAlias own l;
          l = add UndefinedCommand own l;
          l = fold (\<lambda>(k, cs) l. if en_kind en k = PluginObject then add UndefinedCommand cs l else l)
                (ch_pluginCommands h) l;
          l = add UserAlias this l;
          l = add SystemAlias this l
      in add UndefinedCommand this l)"

definition commandHandled :: "qstring \<Rightarrow> handler \<Rightarrow> bool" where
  "commandHandled command h = list_ex (\<lambda>(k, l). map_of l command \<noteq> None) (ch_pluginCommands h)"

definition commandHandledByProtocol :: "chEnv \<Rightarrow> qstring \<Rightarrow> objPtr option \<Rightarrow> handler \<Rightarrow> bool" where
  "commandHandledByProtocol en command protocol h =
     (case protocol of
        None \<Rightarrow> False
      | Some p \<Rightarrow> list_ex (\<lambda>(k, c). en_lower en (cm_command (ch_command h c)) = command) (commands en p h))"

subsection \<open>The built-in commands\<close>

text \<open>The message handed to \<^verbatim>\<open>ChatSession::sendMessage\<close> is first offered to the command handler.\<close>

type_synonym processor = "qstring \<Rightarrow> sessionPtr \<Rightarrow> handler \<Rightarrow> (bool \<times> handler) option"

definition sendMessage :: "processor \<Rightarrow> qstring \<Rightarrow> direction \<Rightarrow> sessionPtr \<Rightarrow> handler \<Rightarrow> handler option" where
  "sendMessage rec body dir s h =
     map_option (\<lambda>(handled, h). if \<not> handled then raise (MessageSent body dir s) h else raise (MessageSuccess s) h)
       (rec body s h)"

text \<open>Six commands to a line.\<close>

fun listCommands :: "chEnv \<Rightarrow> handler \<Rightarrow> nat \<Rightarrow> commandList \<Rightarrow> qstring" where
  "listCommands en h commandCount [] = []"
| "listCommands en h commandCount ((k, c) # l) =
     en_upper en (cm_command (ch_command h c)) @ [0x09]
     @ (if commandCount = 5 then [0x0A] @ listCommands en h 0 l else listCommands en h (commandCount + 1) l)"

text \<open>
  \<open>FrontOfEmptyList\<close> stands for undefined behaviour, \<^verbatim>\<open>front()\<close> of a list without elements: what the model
  does after this event says nothing of the program.
\<close>

definition slotHelpCommand :: "chEnv \<Rightarrow> qstring \<Rightarrow> sessionPtr \<Rightarrow> handler \<Rightarrow> handler" where
  "slotHelpCommand en args s h =
     (if args = []
      then raise (AppendMessage (en_i18n en (''Available Commands:'' @ [CHR 0x0A]) []
              @ listCommands en h 0 (en_order en (commands en (en_protocol en s) h))
              @ en_i18n en (CHR 0x0A # ''Type /help <command> for more information.'') []) Internal s) h
      else
        case parseArguments args of
          [] \<Rightarrow> raise FrontOfEmptyList h
        | a # _ \<Rightarrow>
            let command = en_lower en a;
                output = (case map_of (commands en (en_protocol en s) h) command of
                    None \<Rightarrow> en_i18n en ''There is no help available for '%1'.'' [command]
                  | Some c \<Rightarrow> (case cm_help (ch_command h c) of
                        None \<Rightarrow> en_i18n en ''There is no help available for '%1'.'' [command]
                      | Some help \<Rightarrow> help))
            in raise (AppendMessage output Internal s) h)"

definition slotExecCommand :: "processor \<Rightarrow> chEnv \<Rightarrow> qstring \<Rightarrow> sessionPtr \<Rightarrow> handler \<Rightarrow> handler option" where
  "slotExecCommand rec en args s h =
     (if args = [] then Some h
      else if en_shellAccess en
      then
        (let pid = ch_nextProcess h; h = h\<lparr>ch_nextProcess := pid + 1\<rparr>
         in case parseArguments args of
              [] \<Rightarrow> Some (raise FrontOfEmptyList h)
            | a # _ \<Rightarrow>
                (if a = qstr ''-o''
                 then Some (raise (StartProcess pid (afterFirstWord args) s)
                        (h\<lparr>ch_processMap := qmapSet pid (s, Outbound) (ch_processMap h)\<rparr>))
                 else Some (raise (StartProcess pid args s)
                        (h\<lparr>ch_processMap := qmapSet pid (s, Internal) (ch_processMap h)\<rparr>))))
      else sendMessage rec (en_i18n en ''ERROR: Shell access has been restricted on your system. The /exec command will not function.'' []) Internal s h)"

definition slotAwayCommand :: "chEnv \<Rightarrow> qstring \<Rightarrow> sessionPtr \<Rightarrow> handler \<Rightarrow> handler" where
  "slotAwayCommand en args s h =
     (let goAway = \<not> en_isAway en s
      in raise (SetAccountStatus s goAway (if args = [] then None else Some args)) h)"

definition slotAwayAllCommand :: "chEnv \<Rightarrow> qstring \<Rightarrow> sessionPtr \<Rightarrow> handler \<Rightarrow> handler" where
  "slotAwayAllCommand en args s h =
     (if en_isAway en s then raise (SetAllStatus False None) h else raise (SetAllStatus True (Some args)) h)"

definition slotOpenLastUrl :: "chEnv \<Rightarrow> sessionPtr \<Rightarrow> handler \<Rightarrow> handler" where
  "slotOpenLastUrl en s h =
     (let tempstr = en_lastUrl en s in if tempstr \<noteq> [] then raise (OpenBrowser tempstr) h else h)"

text \<open>What the emission of \<^verbatim>\<open>handleCommand\<close> calls; the slots of plugins and protocols are outside.\<close>

definition handleCommand :: "processor \<Rightarrow> chEnv \<Rightarrow> cmdPtr \<Rightarrow> qstring \<Rightarrow> sessionPtr \<Rightarrow> handler \<Rightarrow> handler option" where
  "handleCommand rec en c args s h =
     (let h' = raise (HandleCommand c args s) h
      in case cm_slot (ch_command h c) of
           HelpSlot \<Rightarrow> Some (slotHelpCommand en args s h')
         | OpenLastUrlSlot \<Rightarrow> Some (slotOpenLastUrl en s h')
         | CloseSlot \<Rightarrow> Some (if en_hasView en s then raise (ViewClose s) h' else h')
         | PartSlot \<Rightarrow> Some (if en_hasView en s then raise (ViewClose s) h' else h')
         | ClearSlot \<Rightarrow> Some (if en_hasView en s then raise (ViewClear s) h' else h')
         | AwaySlot \<Rightarrow> Some (slotAwayCommand en args s h')
         | AwayAllSlot \<Rightarrow> Some (slotAwayAllCommand en args s h')
         | SaySlot \<Rightarrow> sendMessage rec args Outbound s h'
         | ExecSlot \<Rightarrow> slotExecCommand rec en args s h'
         | PluginSlot name \<Rightarrow> Some h')"

subsection \<open>Processing a message\<close>

definition isAlias :: "command \<Rightarrow> bool" where
  "isAlias cmd \<longleftrightarrow> cm_type cmd = UserAlias \<or> cm_type cmd = SystemAlias"

definition refusal :: "chEnv \<Rightarrow> command \<Rightarrow> nat \<Rightarrow> cmdError option" where
  "refusal en cmd count =
     (if cm_processing cmd then Some ExpandsToItself
      else if count < cm_minArgs cmd then Some (TooFew (cm_minArgs cmd))
      else if cm_maxArgs cmd > - 1 \<and> int count > cm_maxArgs cmd then Some (TooMany (cm_minArgs cmd))
      else if \<not> en_authorize en (en_lower en (cm_command cmd) @ qstr ''_command'') then Some NotAuthorized
      else None)"

definition processCommand :: "processor \<Rightarrow> chEnv \<Rightarrow> cmdPtr \<Rightarrow> qstring \<Rightarrow> sessionPtr \<Rightarrow> bool \<Rightarrow> handler \<Rightarrow> handler option" where
  "processCommand rec en c args s gui h =
     (let cmd = ch_command h c; mArgs = parseArguments args
      in case refusal en cmd (length mArgs) of
           Some e \<Rightarrow> Some (raise (PrintError e c s gui) h)
         | None \<Rightarrow>
             let h = updateCommand c (\<lambda>cmd. cmd\<lparr>cm_processing := True\<rparr>) h
             in map_option (updateCommand c (\<lambda>cmd. cmd\<lparr>cm_processing := False\<rparr>))
                  (if isAlias cmd
                   then map_option snd
                          (rec (0x2F # expandAlias (cm_formatString cmd) (en_displayName en s) args mArgs) s h)
                   else handleCommand rec en c args s h))"

definition processMessageBody :: "processor \<Rightarrow> chEnv \<Rightarrow> qstring \<Rightarrow> sessionPtr \<Rightarrow> handler \<Rightarrow> (bool \<times> handler) option" where
  "processMessageBody rec en msg s h =
     (if ch_inCommand h then Some (False, h)
      else
        case splitCommand msg of
          None \<Rightarrow> Some (False, h)
        | Some (command, args) \<Rightarrow>
            (case map_of (commands en (en_protocol en s) h) command of
               None \<Rightarrow> Some (False, h)
             | Some c \<Rightarrow>
                 let h = (if \<not> isAlias (ch_command h c) then h\<lparr>ch_inCommand := True\<rparr> else h)
                 in map_option (\<lambda>h. (True, h\<lparr>ch_inCommand := False\<rparr>)) (processCommand rec en c args s False h)))"

primrec processMessage :: "nat \<Rightarrow> chEnv \<Rightarrow> processor" where
  "processMessage 0 en = (\<lambda>msg s h. None)"
| "processMessage (Suc n) en = processMessageBody (processMessage n en) en"

text \<open>The menu entry of a command; \<open>input\<close> is what the user enters, None when the dialog is cancelled.\<close>

definition slotAction :: "processor \<Rightarrow> chEnv \<Rightarrow> qstring option \<Rightarrow> cmdPtr \<Rightarrow> sessionPtr \<Rightarrow> handler \<Rightarrow> handler option" where
  "slotAction rec en input c s h =
     (if cm_minArgs (ch_command h c) > 0
      then (case input of None \<Rightarrow> Some h | Some args \<Rightarrow> processCommand rec en c args s True h)
      else processCommand rec en c [] s True h)"

subsection \<open>The output of a process\<close>

definition slotExecSendMessage :: "processor \<Rightarrow> procPtr \<Rightarrow> qstring \<Rightarrow> handler \<Rightarrow> handler option" where
  "slotExecSendMessage rec proc buffer h =
     (case map_of (ch_processMap h) proc of
        None \<Rightarrow> Some h
      | Some (s, dir) \<Rightarrow>
          if dir = Outbound then sendMessage rec buffer dir s h else Some (raise (AppendMessage buffer dir s) h))"

definition forgetProcess :: "procPtr \<Rightarrow> handler \<Rightarrow> handler" where
  "forgetProcess proc h =
     raise (ProcessDeleteLater proc) (h\<lparr>ch_processMap := filter (\<lambda>(k, v). k \<noteq> proc) (ch_processMap h)\<rparr>)"

definition slotExecFinished :: "processor \<Rightarrow> procPtr \<Rightarrow> qstring \<Rightarrow> handler \<Rightarrow> handler option" where
  "slotExecFinished rec proc buffer h =
     map_option (forgetProcess proc) (if buffer \<noteq> [] then slotExecSendMessage rec proc buffer h else Some h)"

definition slotExecError :: "processor \<Rightarrow> chEnv \<Rightarrow> bool \<Rightarrow> procPtr \<Rightarrow> qstring \<Rightarrow> handler \<Rightarrow> handler option" where
  "slotExecError rec en failedToStart proc buffer h =
     map_option (forgetProcess proc)
       (if failedToStart
        then (case map_of (ch_processMap h) proc of
                None \<Rightarrow> Some h
              | Some (s, dir) \<Rightarrow>
                  sendMessage rec (en_i18n en ''ERROR: Failed to start process from /exec command.'' []) Internal s h)
        else if buffer \<noteq> [] then slotExecSendMessage rec proc buffer h else Some h)"

subsection \<open>Every message is answered\<close>

text \<open>What processing a message leaves as it was.\<close>

definition same_commands :: "handler \<Rightarrow> handler \<Rightarrow> bool" where
  "same_commands h h' \<longleftrightarrow> ch_command h' = ch_command h \<and> ch_pluginCommands h' = ch_pluginCommands h
     \<and> ch_this h' = ch_this h"

definition cmdPtrs :: "handler \<Rightarrow> cmdPtr set" where
  "cmdPtrs h = (\<Union>l \<in> snd ` set (ch_pluginCommands h). snd ` set l)"

definition idle :: "handler \<Rightarrow> cmdPtr set" where
  "idle h = {c \<in> cmdPtrs h. \<not> cm_processing (ch_command h c)}"

lemma same_commands_refl [simp]: "same_commands h h"
  by (simp add: same_commands_def)

lemma same_commands_raise [simp]: "same_commands h (raise e h') = same_commands h h'"
  by (simp add: same_commands_def raise_def)

lemma same_commands_trans: "same_commands h h' \<Longrightarrow> same_commands h' h'' \<Longrightarrow> same_commands h h''"
  by (simp add: same_commands_def)

lemma finite_idle: "finite (idle h)"
proof -
  have "finite (cmdPtrs h)" by (simp add: cmdPtrs_def)
  then show ?thesis unfolding idle_def by (rule finite_subset [rotated]) blast
qed

lemma addCommands_ptrs: "snd ` set (addCommands h ty source target) \<subseteq> snd ` set source \<union> snd ` set target"
  unfolding addCommands_def
proof (induction source arbitrary: target)
  case (Cons a source)
  obtain k c where a: "a = (k, c)" by (cases a)
  let ?t = "if map_of target k = None \<and> (ty = UndefinedCommand \<or> cm_type (ch_command h c) = ty) then (k, c) # target else target"
  have "snd ` set ?t \<subseteq> insert c (snd ` set target)" by auto
  with Cons.IH [of ?t] have "snd ` set (fold (\<lambda>(k, c) target.
      if map_of target k = None \<and> (ty = UndefinedCommand \<or> cm_type (ch_command h c) = ty) then (k, c) # target else target)
      source ?t) \<subseteq> snd ` set source \<union> insert c (snd ` set target)" by blast
  moreover have "snd ` set (a # source) = insert c (snd ` set source)" unfolding a by simp
  ultimately show ?case unfolding a fold_simps prod.case by blast
qed simp

lemma pluginCommandsOf_ptrs: "snd ` set (pluginCommandsOf p h) \<subseteq> cmdPtrs h"
proof (cases "map_of (ch_pluginCommands h) p")
  case (Some l)
  then have "l \<in> snd ` set (ch_pluginCommands h)" by (metis map_of_SomeD image_eqI snd_conv)
  with Some show ?thesis unfolding pluginCommandsOf_def cmdPtrs_def by auto
qed (simp add: pluginCommandsOf_def)

lemma commands_ptrs: "snd ` set (commands en p h) \<subseteq> cmdPtrs h"
proof -
  have add: "snd ` set (addCommands h ty source target) \<subseteq> cmdPtrs h"
    if "snd ` set source \<subseteq> cmdPtrs h" "snd ` set target \<subseteq> cmdPtrs h" for ty source target
    using addCommands_ptrs [of h ty source target] that by blast
  have plugins: "snd ` set (fold (\<lambda>(k, cs) l. if en_kind en k = PluginObject then addCommands h UndefinedCommand cs l else l) kls l)
      \<subseteq> cmdPtrs h" if "set kls \<subseteq> set (ch_pluginCommands h)" "snd ` set l \<subseteq> cmdPtrs h" for kls l
    using that
  proof (induction kls arbitrary: l)
    case (Cons kl kls)
    obtain k cs where kl: "kl = (k, cs)" by (cases kl)
    have "snd ` set cs \<subseteq> cmdPtrs h" using Cons.prems(1) unfolding kl cmdPtrs_def by force
    then show ?case unfolding kl using Cons.prems by (simp add: Cons.IH add)
  qed simp
  note own = pluginCommandsOf_ptrs [of p h] and here = pluginCommandsOf_ptrs [of "ch_this h" h]
  show ?thesis unfolding commands_def Let_def
    by (rule add [OF here add [OF here add [OF here plugins [OF order_refl add [OF own add [OF own add [OF own]]]]]]]) simp
qed

text \<open>While a command is handled no other one is, so the messages its slot sends go out as they are.\<close>

lemma inCommand_refused: "ch_inCommand h \<Longrightarrow> 0 < n \<Longrightarrow> processMessage n en msg s h = Some (False, h)"
  by (cases n) (simp_all add: processMessageBody_def)

lemma raise_inCommand [simp]: "ch_inCommand (raise e h) = ch_inCommand h"
  by (simp add: raise_def)

lemma handleCommand_answers:
  assumes "ch_inCommand h"
  shows "\<exists>h'. (\<forall>n > 0. handleCommand (processMessage n en) en c args s h = Some h') \<and> same_commands h h'"
proof -
  have sent: "sendMessage (processMessage n en) body dir t v = Some (raise (MessageSent body dir t) v)"
    if "ch_inCommand v" "0 < n" for body dir t v n
    using inCommand_refused [OF that] by (simp add: sendMessage_def)
  have pos: "\<exists>n :: nat. 0 < n" by auto
  let ?v = "raise (HandleCommand c args s) h"
  have v: "ch_inCommand ?v" "ch_inCommand (?v\<lparr>ch_nextProcess := q\<rparr>)" for q using assms by simp_all
  have exec: "\<exists>h'. (\<forall>n > 0. slotExecCommand (processMessage n en) en args s ?v = Some h') \<and> same_commands h h'"
    by (cases "args = []"; cases "en_shellAccess en"; cases "parseArguments args"; cases "hd (parseArguments args) = qstr ''-o''")
      (simp_all add: sent [OF v(1)] slotExecCommand_def Let_def same_commands_def pos, simp_all add: raise_def)
  have aid: "same_commands h (slotHelpCommand en args s ?v)"
    by (cases "parseArguments args") (simp_all add: slotHelpCommand_def Let_def)
  show ?thesis
    by (cases "cm_slot (ch_command h c)")
      (simp_all add: handleCommand_def Let_def pos aid exec sent [OF v(1)] slotOpenLastUrl_def slotAwayCommand_def
         slotAwayAllCommand_def)
qed

lemma update_twice:
  "\<not> cm_processing (ch_command h c) \<Longrightarrow> same_commands (updateCommand c (\<lambda>cmd. cmd\<lparr>cm_processing := True\<rparr>) h) h'
    \<Longrightarrow> same_commands h (updateCommand c (\<lambda>cmd. cmd\<lparr>cm_processing := False\<rparr>) h')"
  by (auto simp: same_commands_def updateCommand_def)

lemma idle_less:
  assumes "c \<in> idle h"
  shows "idle (updateCommand c (\<lambda>cmd. cmd\<lparr>cm_processing := True\<rparr>) h) = idle h - {c}"
    "card (idle h - {c}) < card (idle h)"
  using assms card_Diff1_less [OF finite_idle assms] by (auto simp: idle_def updateCommand_def cmdPtrs_def)

definition isCommand :: "chEnv \<Rightarrow> qstring \<Rightarrow> sessionPtr \<Rightarrow> handler \<Rightarrow> bool" where
  "isCommand en msg s h \<longleftrightarrow> (case splitCommand msg of
       None \<Rightarrow> False | Some (command, args) \<Rightarrow> map_of (commands en (en_protocol en s) h) command \<noteq> None)"

definition settled :: "chEnv \<Rightarrow> qstring \<Rightarrow> sessionPtr \<Rightarrow> handler \<Rightarrow> bool \<times> handler \<Rightarrow> bool" where
  "settled en msg s h r \<longleftrightarrow> (\<forall>n > card (idle h). processMessage n en msg s h = Some r)
     \<and> fst r = (\<not> ch_inCommand h \<and> isCommand en msg s h) \<and> same_commands h (snd r)
     \<and> (if fst r then \<not> ch_inCommand (snd r) else snd r = h)"

lemma settled_refused: "ch_inCommand h \<or> \<not> isCommand en msg s h \<Longrightarrow> settled en msg s h (False, h)"
  unfolding settled_def
proof (intro conjI allI impI)
  fix n assume no: "ch_inCommand h \<or> \<not> isCommand en msg s h" and "card (idle h) < n"
  then show "processMessage n en msg s h = Some (False, h)"
    by (cases n) (auto simp: processMessageBody_def isCommand_def split: option.splits)
qed auto

lemma processCommand_ends:
  assumes "c \<in> cmdPtrs h" "\<not> isAlias (ch_command h c) \<longrightarrow> ch_inCommand h"
    and rec: "\<And>msg v. card (idle v) < card (idle h) \<Longrightarrow> \<exists>r. settled en msg s v r"
  shows "\<exists>h'. (\<forall>n \<ge> card (idle h). processCommand (processMessage n en) en c args s gui h = Some h') \<and> same_commands h h'"
proof -
  let ?cmd = "ch_command h c" let ?mArgs = "parseArguments args"
  let ?v = "updateCommand c (\<lambda>cmd. cmd\<lparr>cm_processing := True\<rparr>) h"
  let ?undo = "updateCommand c (\<lambda>cmd. cmd\<lparr>cm_processing := False\<rparr>)"
  consider
      (refused) e where "\<And>n. processCommand (processMessage n en) en c args s gui h = Some (raise e h)"
    | (runs) "\<not> cm_processing ?cmd" "\<And>n. processCommand (processMessage n en) en c args s gui h = map_option ?undo
        (if isAlias ?cmd
         then map_option snd (processMessage n en (0x2F # expandAlias (cm_formatString ?cmd) (en_displayName en s) args ?mArgs) s ?v)
         else handleCommand (processMessage n en) en c args s ?v)"
  proof (cases "refusal en ?cmd (length ?mArgs)")
    case None
    then show ?thesis by (intro that(2)) (simp_all add: processCommand_def Let_def refusal_def split: if_splits)
  next
    case (Some e)
    then show ?thesis by (intro that(1)) (simp add: processCommand_def Let_def)
  qed
  then show ?thesis
  proof cases
    case runs
    then have c: "c \<in> idle h" using assms(1) by (simp add: idle_def)
    note less = idle_less [OF c]
    show ?thesis
    proof (cases "isAlias ?cmd")
      case True
      obtain r where r: "settled en (0x2F # expandAlias (cm_formatString ?cmd) (en_displayName en s) args ?mArgs) s ?v r"
        using rec [of ?v] unfolding less(1) using less(2) by blast
      then have "processMessage n en (0x2F # expandAlias (cm_formatString ?cmd) (en_displayName en s) args ?mArgs) s ?v = Some r"
        if "card (idle h) \<le> n" for n using that less by (simp add: settled_def)
      moreover have "same_commands h (?undo (snd r))"
        using r by (intro update_twice [OF runs(1)]) (simp add: settled_def)
      ultimately show ?thesis unfolding runs(2) using True by (intro exI [of _ "?undo (snd r)"]) simp
    next
      case False
      then have "ch_inCommand ?v" using assms(2) by (simp add: updateCommand_def)
      from handleCommand_answers [OF this, of en c args s] obtain h' where
        h': "\<And>n. 0 < n \<Longrightarrow> handleCommand (processMessage n en) en c args s ?v = Some h'" "same_commands ?v h'" by blast
      have "0 < card (idle h)" using less(2) by simp
      then show ?thesis unfolding runs(2) using False h'(1) update_twice [OF runs(1) h'(2)]
        by (intro exI [of _ "?undo h'"]) simp
    qed
  qed auto
qed

text \<open>The depth of the calls is at most the number of commands that are not being processed.\<close>

lemma message_settled: "\<exists>r. settled en msg s h r"
proof (induction "card (idle h)" arbitrary: msg h rule: less_induct)
  case less
  show ?case
  proof (cases "\<not> ch_inCommand h \<and> isCommand en msg s h")
    case True
    then obtain command args c where split: "splitCommand msg = Some (command, args)"
      and found: "map_of (commands en (en_protocol en s) h) command = Some c"
      by (auto simp: isCommand_def split: option.splits)
    let ?h = "if \<not> isAlias (ch_command h c) then h\<lparr>ch_inCommand := True\<rparr> else h"
    have same: "ch_command ?h = ch_command h" "ch_pluginCommands ?h = ch_pluginCommands h" "ch_this ?h = ch_this h" by simp_all
    then have idle: "idle ?h = idle h" by (simp add: idle_def cmdPtrs_def)
    have "c \<in> snd ` set (commands en (en_protocol en s) h)" using map_of_SomeD [OF found] by force
    then have c: "c \<in> cmdPtrs ?h" using commands_ptrs [of en _ h] unfolding cmdPtrs_def same by blast
    have "\<not> isAlias (ch_command ?h c) \<longrightarrow> ch_inCommand ?h" by simp
    from processCommand_ends [OF c this, where en = en and s = s and args = args and gui = False] obtain h' where
      h': "\<And>n. card (idle h) \<le> n \<Longrightarrow> processCommand (processMessage n en) en c args s False ?h = Some h'" "same_commands ?h h'"
      using less.hyps unfolding idle by blast
    have "processMessage n en msg s h = Some (True, h'\<lparr>ch_inCommand := False\<rparr>)" if "card (idle h) < n" for n
    proof -
      from that obtain k where k: "n = Suc k" "card (idle h) \<le> k" by (metis Suc_le_D Suc_le_eq Suc_le_mono)
      then show ?thesis using True h'(1) [OF k(2)] by (simp add: processMessageBody_def split found Let_def)
    qed
    then have "settled en msg s h (True, h'\<lparr>ch_inCommand := False\<rparr>)"
      using True h'(2) same by (simp add: settled_def same_commands_def)
    then show ?thesis ..
  next
    case False
    then show ?thesis using settled_refused by blast
  qed
qed

text \<open>
  C8: every message is answered.  Whatever aliases expand to, processing a message makes at most one
  call more than there are commands not being processed; it handles the message exactly when no
  command is running and the message names a registered one, leaves every command registered and
  no longer processing, and an unhandled message leaves the handler as it was.
\<close>

theorem messages_are_answered:
  "\<exists>b h'. (\<forall>n > card (idle h). processMessage n en msg s h = Some (b, h'))
     \<and> b = (\<not> ch_inCommand h \<and> isCommand en msg s h)
     \<and> ch_command h' = ch_command h \<and> ch_pluginCommands h' = ch_pluginCommands h
     \<and> (if b then \<not> ch_inCommand h' else h' = h)"
proof -
  obtain b h' where "settled en msg s h (b, h')" using message_settled by (metis prod.exhaust)
  then show ?thesis by (intro exI [of _ b] exI [of _ h']) (simp add: settled_def same_commands_def split: if_splits)
qed

subsection \<open>Which command a name stands for\<close>

primrec firstOf :: "'a option list \<Rightarrow> 'a option" where
  "firstOf [] = None"
| "firstOf (x # xs) = (case x of None \<Rightarrow> firstOf xs | Some v \<Rightarrow> Some v)"

definition latest :: "handler \<Rightarrow> CommandType \<Rightarrow> qstring \<Rightarrow> commandList \<Rightarrow> cmdPtr option" where
  "latest h type name l =
     map_of (filter (\<lambda>(k, c). type = UndefinedCommand \<or> cm_type (ch_command h c) = type) l) name"

lemma firstOf_append: "firstOf (xs @ ys) = (case firstOf xs of None \<Rightarrow> firstOf ys | Some v \<Rightarrow> Some v)"
  by (induction xs) (simp_all split: option.splits)

lemma addCommands_lookup:
  "map_of (addCommands h ty source target) name = firstOf [map_of target name, latest h ty name source]"
proof (induction source arbitrary: target)
  case (Cons a source)
  obtain k c where a: "a = (k, c)" by (cases a)
  let ?t = "if map_of target k = None \<and> (ty = UndefinedCommand \<or> cm_type (ch_command h c) = ty) then (k, c) # target else target"
  have "addCommands h ty (a # source) target = addCommands h ty source ?t"
    unfolding addCommands_def a fold_simps prod.case ..
  then have "map_of (addCommands h ty (a # source) target) name = firstOf [map_of ?t name, latest h ty name source]"
    by (simp only: Cons.IH)
  also have "\<dots> = firstOf [map_of target name, latest h ty name (a # source)]"
    unfolding a latest_def by (simp split: option.splits)
  finally show ?case .
qed (simp add: addCommands_def latest_def split: option.splits)

lemma commands_lookup:
  "map_of (commands en p h) name =
     (let own = pluginCommandsOf p h; this = pluginCommandsOf (ch_this h) h in
      firstOf ([latest h UserAlias name own, latest h SystemAlias name own, latest h UndefinedCommand name own]
        @ map (\<lambda>(k, cs). latest h UndefinedCommand name cs)
            (filter (\<lambda>(k, cs). en_kind en k = PluginObject) (ch_pluginCommands h))
        @ [latest h UserAlias name this, latest h SystemAlias name this, latest h UndefinedCommand name this]))"
proof -
  have plugins: "map_of (fold (\<lambda>(k, cs) l. if en_kind en k = PluginObject then addCommands h UndefinedCommand cs l else l) kls l) name
      = firstOf (map_of l name # map (\<lambda>(k, cs). latest h UndefinedCommand name cs)
            (filter (\<lambda>(k, cs). en_kind en k = PluginObject) kls))" for kls l
  proof (induction kls arbitrary: l)
    case (Cons kl kls)
    then show ?case by (cases kl) (simp add: addCommands_lookup split: option.splits)
  qed (simp split: option.splits)
  show ?thesis unfolding commands_def Let_def addCommands_lookup plugins
    by (simp add: firstOf_append split: option.splits)
qed

text \<open>
  The command a name stands for is looked up among the protocol's user aliases, its system
  aliases and its other commands, then in the plugins in the order of their addresses, then among
  the handler's user aliases, system aliases and built-in commands; the first place that has one
  gives the last registered there.
\<close>

theorem command_precedence:
  "map_of (commands en p h) name =
     (let own = pluginCommandsOf p h; this = pluginCommandsOf (ch_this h) h in
      firstOf ([latest h UserAlias name own, latest h SystemAlias name own, latest h UndefinedCommand name own]
        @ map (\<lambda>(k, cs). latest h UndefinedCommand name cs)
            (filter (\<lambda>(k, cs). en_kind en k = PluginObject) (ch_pluginCommands h))
        @ [latest h UserAlias name this, latest h SystemAlias name this, latest h UndefinedCommand name this]))"
  by (rule commands_lookup)

subsection \<open>Case\<close>

datatype regOp =
    RegisterCommand objPtr qstring slotName "qstring option" nat int
  | RegisterAlias objPtr qstring qstring "qstring option" CommandType nat int
  | UnregisterCommand objPtr qstring
  | PluginLoaded objPtr
  | PluginDestroyed objPtr

fun regStep :: "chEnv \<Rightarrow> regOp \<Rightarrow> handler \<Rightarrow> handler" where
  "regStep en (RegisterCommand p name slot help mn mx) h = registerCommand en p name slot help mn mx h"
| "regStep en (RegisterAlias p name format help ty mn mx) h = registerAlias en p name format help ty mn mx h"
| "regStep en (UnregisterCommand p name) h = unregisterCommand p name h"
| "regStep en (PluginLoaded p) h = slotPluginLoaded p h"
| "regStep en (PluginDestroyed p) h = slotPluginDestroyed p h"

definition lowered :: "chEnv \<Rightarrow> handler \<Rightarrow> bool" where
  "lowered en h \<longleftrightarrow> (\<forall>(p, l) \<in> set (ch_pluginCommands h). \<forall>(k, c) \<in> set l. en_lower en k = k)"

lemma set_qmapSet: "set (qmapSet k v xs) \<subseteq> insert (k, v) (set xs)"
  by (induction xs rule: qmapSet.induct) auto

lemma lowered_set:
  assumes "lowered en h" "\<forall>(k, c) \<in> set l. en_lower en k = k" "ch_pluginCommands h' = qmapSet p l (ch_pluginCommands h)"
  shows "lowered en h'"
  using assms set_qmapSet [of p l "ch_pluginCommands h"] unfolding lowered_def by fastforce

lemma lowered_of: "lowered en h \<Longrightarrow> (k, c) \<in> set (pluginCommandsOf p h) \<Longrightarrow> en_lower en k = k"
  unfolding lowered_def pluginCommandsOf_def by (cases "map_of (ch_pluginCommands h) p") (auto dest!: map_of_SomeD)

lemma lowered_insert:
  "lowered en h \<Longrightarrow> en_lower en name = name \<Longrightarrow> lowered en (toInsert p name cmd h)"
  by (rule lowered_set [where l = "(name, ch_nextCommand h) # pluginCommandsOf p h" and p = p])
    (auto simp: toInsert_def Let_def dest: lowered_of)

lemma lowered_step:
  assumes "\<And>x. en_lower en (en_lower en x) = en_lower en x" "lowered en h"
  shows "lowered en (regStep en oper h)"
proof (cases oper)
  case (UnregisterCommand p name)
  show ?thesis
  proof (cases "name \<in> fst ` set (pluginCommandsOf p h)")
    case True
    show ?thesis
      by (rule lowered_set [OF assms(2), where l = "filter (\<lambda>(k, c). k \<noteq> name) (pluginCommandsOf p h)" and p = p])
        (use UnregisterCommand True in \<open>auto simp: unregisterCommand_def dest: lowered_of [OF assms(2)]\<close>)
  qed (use UnregisterCommand assms(2) in \<open>simp add: unregisterCommand_def\<close>)
next
  case (PluginLoaded p)
  show ?thesis
  proof (cases "p \<in> fst ` set (ch_pluginCommands h)")
    case False
    show ?thesis
      by (rule lowered_set [OF assms(2), where l = "[]" and p = p]) (use PluginLoaded False in \<open>simp_all add: slotPluginLoaded_def\<close>)
  qed (use PluginLoaded assms(2) in \<open>simp add: slotPluginLoaded_def\<close>)
next
  case (PluginDestroyed p)
  then show ?thesis using assms(2) by (auto simp: lowered_def slotPluginDestroyed_def)
qed (simp_all add: registerCommand_def registerAlias_def Let_def lowered_insert assms)

lemma lowered_run:
  "(\<And>x. en_lower en (en_lower en x) = en_lower en x) \<Longrightarrow> lowered en h \<Longrightarrow> lowered en (fold (regStep en) ops h)"
  by (induction ops arbitrary: h) (simp_all add: lowered_step)

lemma lowered_new:
  assumes "\<And>x. en_lower en (en_lower en x) = en_lower en x" "ch_pluginCommands h = []"
  shows "lowered en (newCommandHandler en this h)"
proof -
  have reg: "lowered en v \<Longrightarrow> lowered en (registerCommand en p name slot usage mn mx v)" for v p name slot usage mn mx
    by (simp add: registerCommand_def Let_def lowered_insert assms(1))
  have "lowered en (h\<lparr>ch_this := this, ch_inCommand := False, ch_pluginCommands := qmapSet this [] (ch_pluginCommands h)\<rparr>)"
    by (simp add: lowered_def assms(2))
  then show ?thesis unfolding newCommandHandler_def Let_def fold_simps by - ((rule reg)+, assumption)
qed

lemma firstOf_Some: "firstOf xs = Some v \<Longrightarrow> Some v \<in> set xs"
  by (induction xs) (auto split: option.splits)

lemma latest_member: "latest h ty name l = Some c \<Longrightarrow> (name, c) \<in> set l"
  by (auto simp: latest_def dest!: map_of_SomeD)

lemma lowered_lookup:
  assumes "lowered en h" "map_of (commands en p h) name = Some c"
  shows "en_lower en name = name"
proof -
  let ?own = "pluginCommandsOf p h" and ?builtin = "pluginCommandsOf (ch_this h) h"
  have "\<exists>ty l. latest h ty name l = Some c \<and> (l = ?own \<or> l = ?builtin \<or> (\<exists>k. (k, l) \<in> set (ch_pluginCommands h)))"
    using firstOf_Some [OF assms(2) [unfolded commands_lookup Let_def]] by force
  then obtain l where l: "(name, c) \<in> set l" "l = ?own \<or> l = ?builtin \<or> (\<exists>k. (k, l) \<in> set (ch_pluginCommands h))"
    using latest_member by blast
  then show ?thesis using assms(1) lowered_of [OF assms(1)] unfolding lowered_def by blast
qed

text \<open>
  The case of a command matters.  All names in the table are lower case, whatever was registered,
  so a message that names a command with an upper-case letter is not handled, and a command or alias
  registered under such a name cannot be removed with that name.
\<close>

theorem case_matters:
  assumes "\<forall>x. en_lower en (en_lower en x) = en_lower en x" "ch_pluginCommands h0 = []"
    "h = fold (regStep en) ops (newCommandHandler en this h0)"
    "splitCommand msg = Some (command, args)" "en_lower en command \<noteq> command"
  shows "processMessage (Suc n) en msg s h = Some (False, h) \<and> unregisterCommand p command h = h"
proof -
  have low: "lowered en h" unfolding assms(3)
    by (rule lowered_run, simp add: assms(1), rule lowered_new) (simp_all add: assms(1,2))
  have "map_of (commands en q h) command = None" for q
    using lowered_lookup [OF low] assms(5) by (metis option.exhaust)
  then have "processMessage (Suc n) en msg s h = Some (False, h)"
    by (simp add: processMessageBody_def assms(4))
  moreover have "command \<notin> fst ` set (pluginCommandsOf p h)" using lowered_of [OF low] assms(5) by force
  ultimately show ?thesis by (simp add: unregisterCommand_def)
qed

subsection \<open>Quoted arguments\<close>

lemma qwords_some: "c \<in> set s \<Longrightarrow> \<not> qIsSpace c \<Longrightarrow> qwords s \<noteq> []"
proof (induction s)
  case (Cons a s)
  show ?case
  proof (cases "qIsSpace a")
    case True
    with Cons show ?thesis by (auto simp: qwords_def)
  qed (simp add: qwords_def)
qed simp

lemma quotedBlock_quote: "quotedBlock s = Some b \<Longrightarrow> quote \<in> set s"
proof -
  assume "quotedBlock s = Some b"
  then have "dropWhile (\<lambda>c. c \<noteq> quote) s \<noteq> []" unfolding quotedBlock_def by (metis list.simps(4) option.distinct(1))
  then show ?thesis by (simp add: dropWhile_eq_Nil_conv)
qed

text \<open>
  A quoted argument is counted as several.  The block is taken with its quotes and all the words
  of the string follow, those of the block too, so a command that takes at most one argument, as
  help does, is refused when the argument is quoted, and not executed.
\<close>

theorem quoted_argument_refused:
  assumes "quotedBlock args = Some b" "cm_maxArgs (ch_command h c) \<in> {0, 1}" "cm_minArgs (ch_command h c) \<le> 1"
    "\<not> cm_processing (ch_command h c)"
  shows "parseArguments args = b # qwords args \<and> qwords args \<noteq> []
    \<and> processCommand rec en c args s gui h = Some (raise (PrintError (TooMany (cm_minArgs (ch_command h c))) c s gui) h)"
proof -
  have words: "qwords args \<noteq> []"
    by (rule qwords_some [OF quotedBlock_quote [OF assms(1)]]) (simp add: quote_def qIsSpace_def)
  have parse: "parseArguments args = b # qwords args" by (simp add: parseArguments_def assms(1))
  have "2 \<le> length (parseArguments args)" using words unfolding parse by (cases "qwords args") simp_all
  then have "refusal en (ch_command h c) (length (parseArguments args)) = Some (TooMany (cm_minArgs (ch_command h c)))"
    using assms(2-4) by (auto simp: refusal_def)
  then show ?thesis using parse words by (simp add: processCommand_def Let_def)
qed

subsection \<open>Help and the output of processes\<close>

lemma qwords_blanks: "\<forall>x \<in> set s. qIsSpace x \<Longrightarrow> qwords s = []"
proof (induction s)
  case (Cons a s)
  then show ?case by (auto simp: qwords_def)
qed (simp add: qwords_def)

lemma splitCommand_slash:
  assumes "w \<noteq> []" "\<forall>x \<in> set w. \<not> qIsSpace x" "qIsSpace b"
  shows "splitCommand (0x2F # w @ b # rest) = Some (w, rest)"
proof -
  have "takeWhile (\<lambda>c. \<not> qIsSpace c) (w @ b # rest) = w" "dropWhile (\<lambda>c. \<not> qIsSpace c) (w @ b # rest) = b # rest"
    using assms(2,3) by simp_all
  then show ?thesis using assms(1) by (simp add: splitCommand_def)
qed

text \<open>
  Asking for help with blanks instead of a command reads the front of an empty list, which is
  undefined behaviour: two blanks after the command are enough.
\<close>

theorem help_with_blanks:
  assumes "\<not> ch_inCommand h" "map_of (commands en (en_protocol en s) h) (qstr ''help'') = Some c"
    "cm_slot (ch_command h c) = HelpSlot" "\<not> isAlias (ch_command h c)" "refusal en (ch_command h c) 0 = None"
    "blanks \<noteq> []" "\<forall>x \<in> set blanks. qIsSpace x"
  shows "\<exists>h'. processMessage (Suc n) en (qstr ''/help'' @ 0x20 # blanks) s h = Some (True, h')
    \<and> FrontOfEmptyList \<in> set (ch_events h')"
proof -
  have split: "splitCommand (qstr ''/help'' @ 0x20 # blanks) = Some (qstr ''help'', blanks)"
    using splitCommand_slash [of "qstr ''help''" "0x20" blanks] by (simp add: qstr_def qIsSpace_def of_char_def)
  have "quotedBlock blanks = None"
  proof (rule ccontr)
    assume "quotedBlock blanks \<noteq> None"
    then have "quote \<in> set blanks" using quotedBlock_quote by blast
    with assms(7) show False by (auto simp: quote_def qIsSpace_def)
  qed
  then have parse: "parseArguments blanks = []" by (simp add: parseArguments_def qwords_blanks [OF assms(7)])
  show ?thesis
    by (simp add: processMessageBody_def assms(1-5) split Let_def processCommand_def parse updateCommand_def handleCommand_def
        slotHelpCommand_def assms(6) raise_def)
qed

text \<open>
  What a process prints goes to the chat it was started from, once.  With the option that sends
  it to the others it is offered to the command handler first, like anything typed, so that output
  which begins with the name of a command is executed and not sent.
\<close>

theorem exec_output_goes_back:
  assumes "map_of (ch_processMap h) proc = Some (s, dir)" "buffer \<noteq> []" "card (idle h) < n"
  shows "(if dir = Outbound
      then \<exists>b h1. processMessage n en buffer s h = Some (b, h1) \<and> b = (\<not> ch_inCommand h \<and> isCommand en buffer s h)
        \<and> slotExecFinished (processMessage n en) proc buffer h
            = Some (forgetProcess proc (raise (if b then MessageSuccess s else MessageSent buffer Outbound s) h1))
      else slotExecFinished (processMessage n en) proc buffer h
            = Some (forgetProcess proc (raise (AppendMessage buffer dir s) h)))
    \<and> (\<forall>h'. map_of (ch_processMap (forgetProcess proc h')) proc = None)"
proof -
  obtain b h1 where r: "settled en buffer s h (b, h1)" using message_settled by (metis prod.exhaust)
  then have "processMessage n en buffer s h = Some (b, h1)" "b = (\<not> ch_inCommand h \<and> isCommand en buffer s h)"
    using assms(3) by (simp_all add: settled_def)
  moreover have "map_of (ch_processMap (forgetProcess proc h')) proc = None" for h'
    by (auto simp: forgetProcess_def raise_def map_of_eq_None_iff)
  ultimately show ?thesis
    using assms(1,2) by (auto simp: slotExecFinished_def slotExecSendMessage_def sendMessage_def)
qed

subsection \<open>At work\<close>

text \<open>The built-in commands, an alias that expands to itself and a process started with the option.\<close>

definition sampleEnv :: chEnv where
  "sampleEnv =
     \<lparr>en_lower = map (\<lambda>c. if 0x41 \<le> c \<and> c \<le> 0x5A then c + 32 else c), en_upper = (\<lambda>s. s), en_i18n = (\<lambda>s args. []),
      en_order = (\<lambda>l. l), en_authorize = (\<lambda>s. True), en_shellAccess = True, en_kind = (\<lambda>p. OtherObject),
      en_protocol = (\<lambda>s. 9), en_displayName = (\<lambda>s. []), en_isAway = (\<lambda>s. False), en_hasView = (\<lambda>s. True),
      en_lastUrl = (\<lambda>s. [])\<rparr>"

definition blankHandler :: handler where
  "blankHandler =
     \<lparr>ch_this = 0, ch_pluginCommands = [],
      ch_command = (\<lambda>c. \<lparr>cm_command = [], cm_help = None, cm_formatString = [], cm_minArgs = 0, cm_maxArgs = 0,
        cm_type = NormalCommand, cm_slot = PluginSlot [], cm_parent = 0, cm_processing = False\<rparr>),
      ch_nextCommand = 0, ch_nextProcess = 5, ch_processMap = [(4, 1, Outbound)], ch_inCommand = False, ch_events = []\<rparr>"

definition sampleHandler :: handler where
  "sampleHandler = regStep sampleEnv (RegisterAlias 0 (qstr ''a'') (qstr ''a x'') None UserAlias 0 (- 1))
     (newCommandHandler sampleEnv 0 blankHandler)"

lemmas sample_defs = sampleHandler_def sampleEnv_def blankHandler_def newCommandHandler_def registerCommand_def
  registerAlias_def toInsert_def Let_def pluginCommandsOf_def

lemma qstr_simps [simp]: "qstr [] = []" "qstr (c # s) = of_char c # qstr s"
  by (simp_all add: qstr_def)

lemma sample_isCommand: "isCommand sampleEnv (qstr ''/close'') 1 sampleHandler" "\<not> ch_inCommand sampleHandler"
  by code_simp+

lemma sample_help:
  "map_of (commands sampleEnv (en_protocol sampleEnv 1) sampleHandler) (qstr ''help'') = Some 0"
  "cm_slot (ch_command sampleHandler 0) = HelpSlot" "\<not> isAlias (ch_command sampleHandler 0)"
  "refusal sampleEnv (ch_command sampleHandler 0) 0 = None"
  by code_simp+

lemma sampleEnv_lower: "en_lower sampleEnv (en_lower sampleEnv x) = en_lower sampleEnv x"
proof -
  have "\<not> (0x41 \<le> c + 32 \<and> c + 32 \<le> 0x5A)" if "0x41 \<le> c" "c \<le> 0x5A" for c :: u16
    using that by (simp add: word_le_nat_alt unat_word_ariths)
  then show ?thesis by (auto simp: sampleEnv_def)
qed

theorem messages_are_answered_witness:
  "\<exists>b h'. (\<forall>n > card (idle sampleHandler). processMessage n sampleEnv (qstr ''/a'') 1 sampleHandler = Some (b, h'))
     \<and> b = (\<not> ch_inCommand sampleHandler \<and> isCommand sampleEnv (qstr ''/a'') 1 sampleHandler)
     \<and> ch_command h' = ch_command sampleHandler \<and> ch_pluginCommands h' = ch_pluginCommands sampleHandler
     \<and> (if b then \<not> ch_inCommand h' else h' = sampleHandler)"
  by (rule messages_are_answered)

theorem case_matters_witness:
  "processMessage (Suc 0) sampleEnv (qstr ''/HELP'') 1 sampleHandler = Some (False, sampleHandler)
    \<and> unregisterCommand 0 (qstr ''HELP'') sampleHandler = sampleHandler"
proof (rule case_matters)
  show "\<forall>x. en_lower sampleEnv (en_lower sampleEnv x) = en_lower sampleEnv x" by (simp add: sampleEnv_lower)
  show "ch_pluginCommands blankHandler = []" by (simp add: blankHandler_def)
  show "sampleHandler = fold (regStep sampleEnv) [RegisterAlias 0 (qstr ''a'') (qstr ''a x'') None UserAlias 0 (- 1)]
     (newCommandHandler sampleEnv 0 blankHandler)" by (simp only: sampleHandler_def fold_simps)
  show "splitCommand (qstr ''/HELP'') = Some (qstr ''HELP'', [])" by code_simp
  show "en_lower sampleEnv (qstr ''HELP'') \<noteq> qstr ''HELP''" by code_simp
qed

theorem quoted_argument_refused_witness:
  "parseArguments [0x22, 0x78, 0x22] = [0x22, 0x78, 0x22] # qwords [0x22, 0x78, 0x22] \<and> qwords [0x22, 0x78, 0x22] \<noteq> []
    \<and> processCommand (processMessage 3 sampleEnv) sampleEnv 0 [0x22, 0x78, 0x22] 1 False sampleHandler
      = Some (raise (PrintError (TooMany (cm_minArgs (ch_command sampleHandler 0))) 0 1 False) sampleHandler)"
  by (rule quoted_argument_refused) code_simp+

theorem help_with_blanks_witness:
  "\<exists>h'. processMessage (Suc 1) sampleEnv (qstr ''/help'' @ 0x20 # [0x20]) 1 sampleHandler = Some (True, h')
    \<and> FrontOfEmptyList \<in> set (ch_events h')"
  by (rule help_with_blanks [OF sample_isCommand(2) sample_help]) (simp_all add: qIsSpace_def)

theorem exec_output_goes_back_witness:
  "\<exists>h1. processMessage (Suc (card (idle sampleHandler))) sampleEnv (qstr ''/close'') 1 sampleHandler = Some (True, h1)
    \<and> slotExecFinished (processMessage (Suc (card (idle sampleHandler))) sampleEnv) 4 (qstr ''/close'') sampleHandler
        = Some (forgetProcess 4 (raise (MessageSuccess 1) h1))"
proof -
  have "map_of (ch_processMap sampleHandler) 4 = Some (1, Outbound)" "qstr ''/close'' \<noteq> []" by code_simp+
  from exec_output_goes_back [OF this, of "Suc (card (idle sampleHandler))" sampleEnv] show ?thesis
    using sample_isCommand by auto
qed

end
