(* ===== verification/Kopete_MessageChain.thy ===== *)
theory Kopete_MessageChain
  imports Kopete_Message "HOL-Library.Multiset"
begin

text \<open>
  The chains of message handlers of \<^verbatim>\<open>libkopete\<close>: the registry of handler factories
  (\<^verbatim>\<open>kopetemessagehandler.cpp\<close>), the construction of a chain and the task that sends a message
  down it (\<^verbatim>\<open>kopetemessagehandlerchain.cpp\<close>), the events (\<^verbatim>\<open>kopetemessageevent.cpp\<close>), the
  handlers that call a slot (\<^verbatim>\<open>kopetesimplemessagehandler.cpp\<close>) and the handler that ends a chain
  of a chat session (\<^verbatim>\<open>kopetechatsession.cpp\<close>).

  A chain is linked by the next pointers of its handlers; here it is the list of them, and the
  list after a handler is what its next pointer leads to.  A handler of a plugin is a function
  from the message to what it does with the event: accept it with a message, discard it, or keep
  it and decide later; \<open>Fault\<close> stands for a null pointer it dereferences.  A handler without a
  successor that passes an event on dereferences one as well: the delivery is then \<open>Crashed\<close>.
\<close>

subsection \<open>Handlers\<close>

datatype 'd verdict = Pass "'d message" | Drop | Keep "'d message" | Fault

datatype 'd messageHandler =
    PluginHandler "'d message \<Rightarrow> 'd verdict"
  | SimpleMessageHandler "'d message \<Rightarrow> 'd message"
  | AppendMessageHandler
  | ChainTerminator

record 'd factory =
  fa_id :: nat
  fa_filterPosition :: "nat \<Rightarrow> direction \<Rightarrow> int"
  fa_create :: "nat \<Rightarrow> direction \<Rightarrow> 'd messageHandler option"

definition StageDoNotCreate :: int where
  "StageDoNotCreate = - 10000"

text \<open>The constructor appends the factory to the linked list and the destructor erases its node.\<close>

definition registerFactory :: "'d factory \<Rightarrow> 'd factory list \<Rightarrow> 'd factory list" where
  "registerFactory f fs = fs @ [f]"

definition unregisterFactory :: "nat \<Rightarrow> 'd factory list \<Rightarrow> 'd factory list" where
  "unregisterFactory i fs = filter (\<lambda>f. fa_id f \<noteq> i) fs"

definition simpleFilterPosition :: "direction \<Rightarrow> int \<Rightarrow> nat \<Rightarrow> direction \<Rightarrow> int" where
  "simpleFilterPosition mine position manager dir = (if dir \<noteq> mine then StageDoNotCreate else position)"

definition simpleCreate :: "direction \<Rightarrow> ('d message \<Rightarrow> 'd message) \<Rightarrow> nat \<Rightarrow> direction \<Rightarrow> 'd messageHandler option" where
  "simpleCreate mine slot manager dir = (if dir \<noteq> mine then None else Some (SimpleMessageHandler slot))"

definition simpleFactory :: "nat \<Rightarrow> direction \<Rightarrow> int \<Rightarrow> ('d message \<Rightarrow> 'd message) \<Rightarrow> 'd factory" where
  "simpleFactory i mine position slot =
     \<lparr>fa_id = i, fa_filterPosition = simpleFilterPosition mine position, fa_create = simpleCreate mine slot\<rparr>"

text \<open>\<^verbatim>\<open>TempFactory\<close>: the handler that shows the message in the session.\<close>

definition tempFactory :: "nat \<Rightarrow> 'd factory" where
  "tempFactory i =
     \<lparr>fa_id = i, fa_filterPosition = (\<lambda>manager dir. 100000), fa_create = (\<lambda>manager dir. Some AppendMessageHandler)\<rparr>"

subsection \<open>Building a chain\<close>

text \<open>\<^verbatim>\<open>handlers[position].append(handler)\<close> on a \<^verbatim>\<open>QMap\<close>, which is iterated in the order of its keys.\<close>

fun handlersAppend :: "int \<Rightarrow> 'h \<Rightarrow> (int \<times> 'h list) list \<Rightarrow> (int \<times> 'h list) list" where
  "handlersAppend p h [] = [(p, [h])]"
| "handlersAppend p h ((q, hs) # rest) =
     (if p < q then (p, [h]) # (q, hs) # rest
      else if p = q then (q, hs @ [h]) # rest
      else (q, hs) # handlersAppend p h rest)"

fun collectHandlers :: "nat \<Rightarrow> direction \<Rightarrow> 'd factory list \<Rightarrow> (int \<times> 'd messageHandler list) list \<Rightarrow> (int \<times> 'd messageHandler list) list" where
  "collectHandlers manager dir [] handlers = handlers"
| "collectHandlers manager dir (f # fs) handlers =
     (let position = fa_filterPosition f manager dir
      in if position = StageDoNotCreate then collectHandlers manager dir fs handlers
         else (case fa_create f manager dir of
                 None \<Rightarrow> collectHandlers manager dir fs handlers
               | Some h \<Rightarrow> collectHandlers manager dir fs (handlersAppend position h handlers)))"

definition createChain :: "nat \<Rightarrow> direction \<Rightarrow> 'd factory list \<Rightarrow> 'd messageHandler list" where
  "createChain manager dir factories =
     concat (map snd (collectHandlers manager dir factories [])) @ [ChainTerminator]"

subsection \<open>Sending a message down a chain\<close>

datatype 'd chainSignal = MessageAppended "'d message" | EventDiscarded "'d message"

datatype 'd progress =
    Done "'d chainSignal option"
  | Waiting "'d messageHandler list" "'d message"
  | Crashed

text \<open>
  \<^verbatim>\<open>handleMessageInternal\<close> of the first handler of the list.  \<open>alive\<close> says that the session still
  exists: the handler that shows the message holds a guarded pointer to it.  An event that is
  deleted is done, one that waits has left the handlers after the one that keeps it to do.
\<close>

fun handleMessageInternal :: "bool \<Rightarrow> 'd messageHandler list \<Rightarrow> 'd message \<Rightarrow> 'd progress" where
  "handleMessageInternal alive [] m = Crashed"
| "handleMessageInternal alive (PluginHandler slot # hs) m =
     (case slot m of
        Pass m' \<Rightarrow> handleMessageInternal alive hs m'
      | Drop \<Rightarrow> Done (Some (EventDiscarded m))
      | Keep m' \<Rightarrow> Waiting hs m'
      | Fault \<Rightarrow> Crashed)"
| "handleMessageInternal alive (SimpleMessageHandler slot # hs) m = handleMessageInternal alive hs (slot m)"
| "handleMessageInternal alive (AppendMessageHandler # hs) m =
     Done (if alive then Some (MessageAppended m) else None)"
| "handleMessageInternal alive (ChainTerminator # hs) m = Done (Some (EventDiscarded m))"

text \<open>\<^verbatim>\<open>accept\<close> and \<^verbatim>\<open>discard\<close> of an event that waits.\<close>

definition acceptEvent :: "bool \<Rightarrow> 'd progress \<Rightarrow> 'd progress" where
  "acceptEvent alive p = (case p of Waiting hs m \<Rightarrow> handleMessageInternal alive hs m | _ \<Rightarrow> p)"

definition discardEvent :: "'d progress \<Rightarrow> 'd progress" where
  "discardEvent p = (case p of Waiting hs m \<Rightarrow> Done (Some (EventDiscarded m)) | _ \<Rightarrow> p)"

subsection \<open>The order of the handlers\<close>

text \<open>The handlers the factories create, in the order of their registration, with their positions.\<close>

definition created :: "nat \<Rightarrow> direction \<Rightarrow> 'd factory list \<Rightarrow> (int \<times> 'd messageHandler) list" where
  "created manager dir fs =
     concat (map (\<lambda>f. let p = fa_filterPosition f manager dir in
       if p = StageDoNotCreate then []
       else case fa_create f manager dir of None \<Rightarrow> [] | Some h \<Rightarrow> [(p, h)]) fs)"

definition flatten :: "(int \<times> 'h list) list \<Rightarrow> (int \<times> 'h) list" where
  "flatten m = concat (map (\<lambda>(p, hs). map (Pair p) hs) m)"

lemma collectHandlers_fold:
  "collectHandlers manager dir fs m = fold (\<lambda>(p, h). handlersAppend p h) (created manager dir fs) m"
  by (induction fs arbitrary: m) (auto simp: created_def Let_def split: option.split)

lemma keys_handlersAppend: "set (map fst (handlersAppend p h m)) = insert p (set (map fst m))"
  by (induction p h m rule: handlersAppend.induct) auto

lemma sorted_handlersAppend:
  "sorted_wrt (<) (map fst m) \<Longrightarrow> sorted_wrt (<) (map fst (handlersAppend p h m))"
proof (induction p h m rule: handlersAppend.induct)
  case (2 p h q hs rest)
  then show ?case using keys_handlersAppend [of p h rest] by (auto simp: image_iff)
qed simp

lemma mset_handlersAppend: "mset (flatten (handlersAppend p h m)) = mset (flatten m) + {#(p, h)#}"
  by (induction p h m rule: handlersAppend.induct) (auto simp: flatten_def)

lemma filter_handlersAppend:
  "sorted_wrt (<) (map fst m) \<Longrightarrow>
     filter (\<lambda>x. fst x = k) (flatten (handlersAppend p h m))
       = filter (\<lambda>x. fst x = k) (flatten m) @ (if p = k then [(p, h)] else [])"
proof (induction p h m rule: handlersAppend.induct)
  case (2 p h q hs rest)
  have later: "filter (\<lambda>x. fst x = k) (flatten rest) = []" if "k \<le> q" for k
    using "2.prems" that by (auto simp: flatten_def filter_empty_conv)
  from 2 show ?case
    using later [of p] by (auto simp: flatten_def filter_map comp_def)
qed (auto simp: flatten_def)

lemma sorted_flatten: "sorted_wrt (<) (map fst m) \<Longrightarrow> sorted (map fst (flatten m))"
proof (induction m)
  case (Cons x m)
  then show ?case
    by (cases x) (auto simp: flatten_def sorted_append comp_def map_replicate_const)
qed (simp add: flatten_def)

lemma fold_handlersAppend:
  fixes xs :: "(int \<times> 'h) list" and m :: "(int \<times> 'h list) list"
  assumes "sorted_wrt (<) (map fst m)"
  shows "let m' = fold (\<lambda>(p, h). handlersAppend p h) xs m
    in sorted_wrt (<) (map fst m') \<and> mset (flatten m') = mset (flatten m @ xs)
    \<and> (\<forall>k. filter (\<lambda>x. fst x = k) (flatten m') = filter (\<lambda>x. fst x = k) (flatten m @ xs))"
  using assms unfolding Let_def
proof (induction xs arbitrary: m)
  case (Cons x xs)
  obtain p h where x: "x = (p, h)" by fastforce
  from Cons.IH [OF sorted_handlersAppend [OF Cons.prems, of p h]] show ?case
    by (simp add: x mset_handlersAppend filter_handlersAppend [OF Cons.prems])
qed simp

lemma createChain_sorted:
  "createChain manager dir fs = map snd (sort_key fst (created manager dir fs)) @ [ChainTerminator]"
proof -
  let ?m = "collectHandlers manager dir fs []"
  have f: "sorted_wrt (<) (map fst ?m)" "mset (flatten ?m) = mset (created manager dir fs)"
    "filter (\<lambda>x. fst x = k) (flatten ?m) = filter (\<lambda>x. fst x = k) (created manager dir fs)" for k
    using fold_handlersAppend [of "[]" "created manager dir fs"] by (simp_all add: collectHandlers_fold flatten_def Let_def)
  have "sort_key fst (created manager dir fs) = flatten ?m"
  proof (rule properties_for_sort_key)
    fix x assume "x \<in> set (flatten ?m)"
    show "filter (\<lambda>y. fst x = fst y) (flatten ?m) = filter (\<lambda>y. fst x = fst y) (created manager dir fs)"
      using f(3) [of "fst x"] by (simp add: eq_commute)
  qed (use f sorted_flatten in auto)
  moreover have "concat (map snd m) = map snd (flatten m)" for m :: "(int \<times> 'a messageHandler list) list"
    by (induction m) (auto simp: flatten_def comp_def)
  ultimately show ?thesis by (simp add: createChain_def)
qed

text \<open>C20: a chain is the handlers its factories create, in the order of their positions and, for equal
  positions, of their registration, followed by the terminator.\<close>

theorem chain_is_stably_sorted:
  "createChain manager dir fs = map snd (sort_key fst (created manager dir fs)) @ [ChainTerminator]"
  by (rule createChain_sorted)

subsection \<open>Passing a message on\<close>

text \<open>The message that comes out of handlers that all pass it on.\<close>

fun through :: "'d messageHandler list \<Rightarrow> 'd message \<Rightarrow> 'd message option" where
  "through [] m = Some m"
| "through (PluginHandler slot # hs) m = (case slot m of Pass m' \<Rightarrow> through hs m' | _ \<Rightarrow> None)"
| "through (SimpleMessageHandler slot # hs) m = through hs (slot m)"
| "through (_ # hs) m = None"

lemma handle_through:
  "through hs m = Some m' \<Longrightarrow> handleMessageInternal alive (hs @ rest) m = handleMessageInternal alive rest m'"
  by (induction hs m rule: through.induct) (auto split: verdict.splits)

fun faultless :: "'d messageHandler \<Rightarrow> bool" where
  "faultless (PluginHandler slot) \<longleftrightarrow> (\<forall>m. slot m \<noteq> Fault)"
| "faultless _ \<longleftrightarrow> True"

definition soundChain :: "'d messageHandler list \<Rightarrow> bool" where
  "soundChain hs \<longleftrightarrow> ChainTerminator \<in> set hs \<and> (\<forall>h \<in> set hs. faultless h)"

lemma handle_sound: "soundChain hs \<Longrightarrow> handleMessageInternal alive hs m \<noteq> Crashed"
  by (induction alive hs m rule: handleMessageInternal.induct) (auto simp: soundChain_def split: verdict.splits)

lemma waiting_suffix:
  "handleMessageInternal alive hs m = Waiting rest m' \<Longrightarrow> \<exists>before. hs = before @ rest \<and> before \<noteq> [] \<and>
     (\<forall>h \<in> set before. h \<noteq> ChainTerminator \<and> h \<noteq> AppendMessageHandler)"
proof (induction alive hs m rule: handleMessageInternal.induct)
  case (2 alive slot hs m)
  show ?case
  proof (cases "slot m")
    case (Pass m'')
    with 2 obtain before where "hs = before @ rest" "\<forall>h \<in> set before. h \<noteq> ChainTerminator \<and> h \<noteq> AppendMessageHandler"
      by auto
    then show ?thesis by (intro exI [of _ "PluginHandler slot # before"]) auto
  next
    case (Keep m'')
    with 2 show ?thesis by (intro exI [of _ "[PluginHandler slot]"]) auto
  qed (use 2 in simp_all)
next
  case (3 alive slot hs m)
  then obtain before where "hs = before @ rest" "\<forall>h \<in> set before. h \<noteq> ChainTerminator \<and> h \<noteq> AppendMessageHandler"
    by auto
  then show ?case by (intro exI [of _ "SimpleMessageHandler slot # before"]) auto
qed auto

lemma waiting_sound:
  "handleMessageInternal alive hs m = Waiting rest m' \<Longrightarrow> soundChain hs \<Longrightarrow> soundChain rest"
  using waiting_suffix by (fastforce simp: soundChain_def)

definition healthy :: "'d progress \<Rightarrow> bool" where
  "healthy p = (case p of Crashed \<Rightarrow> False | Waiting hs m \<Rightarrow> soundChain hs | Done s \<Rightarrow> True)"

lemma healthy_handle: "soundChain hs \<Longrightarrow> healthy (handleMessageInternal alive hs m)"
  using handle_sound [of hs alive m] waiting_sound [of alive hs m]
  by (auto simp: healthy_def split: progress.split)

lemma healthy_accept: "healthy p \<Longrightarrow> healthy (acceptEvent alive p)"
  using healthy_handle by (cases p) (auto simp: acceptEvent_def healthy_def)

lemma sound_chain: "\<forall>(p, h) \<in> set (created manager dir fs). faultless h \<Longrightarrow> soundChain (createChain manager dir fs)"
  by (auto simp: soundChain_def createChain_sorted)

text \<open>An event never runs off the end of a chain, as long as no plugin's handler dereferences a null
  pointer itself: sending a message down, and accepting the event later whenever a handler kept
  it, ends or waits at another handler.\<close>

theorem chains_do_not_crash:
  assumes "\<forall>(p, h) \<in> set (created manager dir fs). faultless h"
  shows "(acceptEvent alive ^^ n) (handleMessageInternal alive (createChain manager dir fs) m) \<noteq> Crashed"
proof -
  have "healthy ((acceptEvent alive ^^ n) (handleMessageInternal alive (createChain manager dir fs) m))"
    by (induction n) (auto simp: healthy_handle healthy_accept sound_chain assms)
  then show ?thesis by (auto simp: healthy_def)
qed

theorem chains_do_not_crash_witness:
  "(acceptEvent True ^^ 2) (handleMessageInternal True
     (createChain 0 Inbound [simpleFactory 1 Inbound 5 (setState StateSent), tempFactory 2]) (sampleMessage ''hello'')) \<noteq> Crashed"
  by (rule chains_do_not_crash)
    (simp add: created_def simpleFactory_def tempFactory_def simpleFilterPosition_def simpleCreate_def
      StageDoNotCreate_def)

text \<open>The message that comes out of handlers that pass it on at once or keep it and accept it later.\<close>

fun passed :: "'d messageHandler list \<Rightarrow> 'd message \<Rightarrow> 'd message option" where
  "passed [] m = Some m"
| "passed (PluginHandler slot # hs) m =
     (case slot m of Pass m' \<Rightarrow> passed hs m' | Keep m' \<Rightarrow> passed hs m' | _ \<Rightarrow> None)"
| "passed (SimpleMessageHandler slot # hs) m = passed hs (slot m)"
| "passed (_ # hs) m = None"

lemma accept_done: "(acceptEvent alive ^^ n) (Done s) = Done s" "(acceptEvent alive ^^ n) Crashed = Crashed"
  by (induction n) (simp_all add: acceptEvent_def)

lemma shown_passed:
  "(acceptEvent alive ^^ n) (handleMessageInternal alive (hs @ rest) m) = Done (Some (MessageAppended m'')) \<Longrightarrow>
     AppendMessageHandler \<notin> set hs \<Longrightarrow>
     \<exists>m' k. passed hs m = Some m' \<and> (acceptEvent alive ^^ k) (handleMessageInternal alive rest m') = Done (Some (MessageAppended m''))"
proof (induction hs m arbitrary: n rule: passed.induct)
  case (2 slot hs m)
  show ?case
  proof (cases "slot m")
    case (Keep m')
    with 2(3) have n: "n \<noteq> 0" by (cases n) simp_all
    then obtain k where k: "n = Suc k" by (cases n) simp_all
    have "acceptEvent alive (Waiting (hs @ rest) m') = handleMessageInternal alive (hs @ rest) m'"
      by (simp add: acceptEvent_def)
    then have "(acceptEvent alive ^^ n) (Waiting (hs @ rest) m')
        = (acceptEvent alive ^^ k) (handleMessageInternal alive (hs @ rest) m')"
      by (simp only: k funpow_Suc_right comp_apply)
    with 2(3) Keep have "(acceptEvent alive ^^ k) (handleMessageInternal alive (hs @ rest) m') = Done (Some (MessageAppended m''))"
      by simp
    with 2(2) [OF Keep] 2(4) Keep show ?thesis by simp
  next
    case (Pass m')
    with 2(1) [OF Pass] 2(3,4) show ?thesis by simp
  qed (use 2(3) in \<open>simp_all add: accept_done\<close>)
qed (auto simp: accept_done)

subsection \<open>Handlers that refuse messages\<close>

lemma sort_key_around:
  "sort_key f (xs @ x # ys) = sort_key f (filter (\<lambda>y. f y \<le> f x) xs @ filter (\<lambda>y. f y < f x) ys) @ x
     # sort_key f (filter (\<lambda>y. f x < f y) xs @ filter (\<lambda>y. f x \<le> f y) ys)"
  (is "_ = sort_key f ?low @ x # sort_key f ?high")
proof (rule properties_for_sort_key)
  show "mset (sort_key f ?low @ x # sort_key f ?high) = mset (xs @ x # ys)"
    by (rule multiset_eqI) (auto simp: not_le not_less)
  show "sorted (map f (sort_key f ?low @ x # sort_key f ?high))"
    by (auto simp: sorted_append intro: less_imp_le order_trans)
  fix k
  show "filter (\<lambda>y. f k = f y) (sort_key f ?low @ x # sort_key f ?high) = filter (\<lambda>y. f k = f y) (xs @ x # ys)"
  proof -
    have stable: "filter (\<lambda>y. f k = f y) (sort_key f zs) = filter (\<lambda>y. f k = f y) zs" for zs
      using sort_key_stable [of f "f k" zs] by (simp add: eq_commute)
    have pick: "filter (\<lambda>y. Q (f y) \<and> f k = f y) zs = (if Q (f k) then filter (\<lambda>y. f k = f y) zs else [])" for Q zs
      by (induction zs) auto
    show ?thesis
      unfolding filter_append filter.simps stable filter_filter
        pick [of "\<lambda>v. v \<le> f x"] pick [of "\<lambda>v. v < f x"] pick [of "\<lambda>v. f x < v"] pick [of "\<lambda>v. f x \<le> v"]
      by (cases "f k" "f x" rule: linorder_cases) (auto dest: less_imp_le leD)
  qed
qed

lemma sort_key_first:
  "\<forall>y \<in> set xs. f x < f y \<Longrightarrow> \<forall>y \<in> set ys. f x \<le> f y \<Longrightarrow>
     sort_key f (xs @ x # ys) = x # sort_key f (xs @ ys)"
proof -
  assume "\<forall>y \<in> set xs. f x < f y" "\<forall>y \<in> set ys. f x \<le> f y"
  then have "filter (\<lambda>y. f y \<le> f x) xs = []" "filter (\<lambda>y. f y < f x) ys = []"
    "filter (\<lambda>y. f x < f y) xs = xs" "filter (\<lambda>y. f x \<le> f y) ys = ys"
    by (auto simp: filter_empty_conv filter_id_conv not_le not_less)
  then show ?thesis by (simp add: sort_key_around)
qed

text \<open>
  What a filter plugin promises of its handler: messages it refuses are discarded and the others
  passed on as they are.
\<close>

locale message_filter =
  fixes slot :: "'d message \<Rightarrow> 'd verdict" and refused :: "'d message \<Rightarrow> bool"
  assumes refuses: "refused m \<Longrightarrow> slot m \<noteq> Fault \<Longrightarrow> slot m = Drop"
    and lets_pass: "\<not> refused m \<Longrightarrow> slot m \<noteq> Fault \<Longrightarrow> slot m = Pass m"
begin

text \<open>A message is shown, at once or after other handlers have kept it for a while, only if the filter
  does not refuse it as it is when it comes there.\<close>

lemma shown_is_not_refused:
  assumes "(acceptEvent alive ^^ n) (handleMessageInternal alive (before @ PluginHandler slot # after) m)
      = Done (Some (MessageAppended m''))" "AppendMessageHandler \<notin> set before"
  shows "\<exists>m'. passed before m = Some m' \<and> \<not> refused m'"
proof -
  from shown_passed [OF assms] obtain m' k where m': "passed before m = Some m'"
    "(acceptEvent alive ^^ k) (handleMessageInternal alive (PluginHandler slot # after) m') = Done (Some (MessageAppended m''))"
    by blast
  have "\<not> refused m'"
  proof
    assume "refused m'"
    then have "slot m' = Fault \<or> slot m' = Drop" using refuses by blast
    then have "handleMessageInternal alive (PluginHandler slot # after) m' \<in> {Crashed, Done (Some (EventDiscarded m'))}"
      by auto
    then have "(acceptEvent alive ^^ k) (handleMessageInternal alive (PluginHandler slot # after) m')
        \<in> {Crashed, Done (Some (EventDiscarded m'))}"
      by (induction k) (auto simp: acceptEvent_def)
    with m'(2) show False by auto
  qed
  with m'(1) show ?thesis by blast
qed

lemma refused_is_discarded:
  assumes "through before m = Some m'" "refused m'" "slot m' \<noteq> Fault"
  shows "handleMessageInternal alive (before @ PluginHandler slot # after) m = Done (Some (EventDiscarded m'))"
  using handle_through [OF assms(1)] refuses [OF assms(2,3)] by simp

lemma others_are_untouched:
  assumes "\<not> refused m" "slot m \<noteq> Fault"
  shows "handleMessageInternal alive (PluginHandler slot # after) m = handleMessageInternal alive after m"
  using lets_pass [OF assms] by simp

lemma verdict_decides:
  assumes "slot m \<noteq> Fault"
  shows "slot m = (if refused m then Drop else Pass m)"
  using refuses lets_pass assms by simp

end

text \<open>The handler a factory puts first: no other one has a smaller position, and those registered
  before it have a larger one.\<close>

lemma created_append: "created manager dir (fs @ gs) = created manager dir fs @ created manager dir gs"
  by (simp add: created_def)

lemma createChain_first:
  assumes "fa_filterPosition f manager dir = p" "p \<noteq> StageDoNotCreate" "fa_create f manager dir = Some h"
    "\<forall>(q, h') \<in> set (created manager dir fs). p < q" "\<forall>(q, h') \<in> set (created manager dir gs). p \<le> q"
  shows "createChain manager dir (fs @ f # gs) = h # createChain manager dir (fs @ gs)"
proof -
  have "created manager dir (f # gs) = (p, h) # created manager dir gs"
    using assms(1-3) by (simp add: created_def Let_def)
  then show ?thesis
    using assms(4,5) sort_key_first [of "created manager dir fs" fst "(p, h)" "created manager dir gs"]
    by (simp add: createChain_sorted created_append case_prod_unfold)
qed

end
