(* ===== verification/Plugin_Privacy.thy ===== *)
theory Plugin_Privacy
  imports Kopete_MessageChain
begin

text \<open>
  The privacy plugin (\<^verbatim>\<open>privacyplugin.cpp\<close>, \<^verbatim>\<open>privacymessagehandler.cpp\<close>, the settings of
  \<^verbatim>\<open>privacyconfig.kcfg\<close>): the white and the black list, the check of an incoming message, and
  its handler at the start of the inbound chain.  The handler is an instance of the interface
  \<^verbatim>\<open>message_filter\<close> of the chains.

  Who is a temporary contact is known to the contact list; \<open>temporary p\<close> is \<open>None\<close> for a contact
  without a meta contact, which the plugin dereferences.
\<close>

record privacyConfig =
  pc_sender_AllowNoneButWhiteList :: bool
  pc_sender_AllowAllButBlackList :: bool
  pc_sender_AllowNoneButContactList :: bool
  pc_whiteList :: "qstring list"
  pc_blackList :: "qstring list"
  pc_content_DropIfAny :: bool
  pc_dropIfAny :: qstring
  pc_content_DropIfAll :: bool
  pc_dropIfAll :: qstring

definition contactEntry :: "objects \<Rightarrow> contactPtr \<Rightarrow> qstring" where
  "contactEntry ob p =
     ac_protocolId (ob_account ob (c_account (ob_contact ob p))) @ [0x3A] @ c_contactId (ob_contact ob p)"

fun addEntries :: "objects \<Rightarrow> contactPtr list \<Rightarrow> qstring list \<Rightarrow> qstring list" where
  "addEntries ob [] entries = entries"
| "addEntries ob (p # ps) entries =
     addEntries ob ps (if contactEntry ob p \<in> set entries then entries else entries @ [contactEntry ob p])"

definition addContactsToWhiteList :: "objects \<Rightarrow> contactPtr list \<Rightarrow> privacyConfig \<Rightarrow> privacyConfig" where
  "addContactsToWhiteList ob ps cfg = cfg\<lparr>pc_whiteList := addEntries ob ps (pc_whiteList cfg)\<rparr>"

definition addContactsToBlackList :: "objects \<Rightarrow> contactPtr list \<Rightarrow> privacyConfig \<Rightarrow> privacyConfig" where
  "addContactsToBlackList ob ps cfg = cfg\<lparr>pc_blackList := addEntries ob ps (pc_blackList cfg)\<rparr>"

text \<open>The contacts of the selected meta contacts, in order.\<close>

definition slotAddToWhiteList :: "objects \<Rightarrow> contactPtr list list \<Rightarrow> privacyConfig \<Rightarrow> privacyConfig" where
  "slotAddToWhiteList ob selected = addContactsToWhiteList ob (concat selected)"

definition slotAddToBlackList :: "objects \<Rightarrow> contactPtr list list \<Rightarrow> privacyConfig \<Rightarrow> privacyConfig" where
  "slotAddToBlackList ob selected = addContactsToBlackList ob (concat selected)"

subsection \<open>The check of a message\<close>

definition qcontains :: "qstring \<Rightarrow> qstring \<Rightarrow> bool" where
  "qcontains word s \<longleftrightarrow> qfind word s \<noteq> None"

datatype check = Continue | Refuse | NullSender

definition verifySender :: "objects \<Rightarrow> (contactPtr \<Rightarrow> bool option) \<Rightarrow> privacyConfig \<Rightarrow> contactPtr option \<Rightarrow> check" where
  "verifySender ob temporary cfg from' =
     (if pc_sender_AllowNoneButWhiteList cfg
      then (case from' of None \<Rightarrow> NullSender
              | Some p \<Rightarrow> if contactEntry ob p \<notin> set (pc_whiteList cfg) then Refuse else Continue)
      else if pc_sender_AllowAllButBlackList cfg
      then (case from' of None \<Rightarrow> NullSender
              | Some p \<Rightarrow> if contactEntry ob p \<in> set (pc_blackList cfg) then Refuse else Continue)
      else if pc_sender_AllowNoneButContactList cfg
      then (case from' of None \<Rightarrow> NullSender
              | Some p \<Rightarrow> (case temporary p of None \<Rightarrow> NullSender | Some t \<Rightarrow> if t then Refuse else Continue))
      else Continue)"

text \<open>The two loops over the words of a list separated by commas; empty words are skipped.\<close>

fun containsAny :: "qstring \<Rightarrow> qstring list \<Rightarrow> bool" where
  "containsAny body [] \<longleftrightarrow> False"
| "containsAny body (word # ws) \<longleftrightarrow>
     (if word = [] then containsAny body ws else if qcontains word body then True else containsAny body ws)"

fun containsAll :: "qstring \<Rightarrow> qstring list \<Rightarrow> bool" where
  "containsAll body [] \<longleftrightarrow> True"
| "containsAll body (word # ws) \<longleftrightarrow>
     (if word = [] then containsAll body ws else if \<not> qcontains word body then False else containsAll body ws)"

text \<open>
  Of a message from no contact that the words refuse, the text of the notification dereferences
  the sender unless the account is busy.
\<close>

definition slotIncomingMessage ::
  "objects \<Rightarrow> (contactPtr \<Rightarrow> bool option) \<Rightarrow> 'd richText \<Rightarrow> bool \<Rightarrow> privacyConfig \<Rightarrow> 'd message \<Rightarrow> 'd verdict" where
  "slotIncomingMessage ob temporary rt busy cfg msg =
     (let refuse = (if m_from msg = None \<and> \<not> busy then Fault else Drop)
      in if m_direction msg = Outbound \<or> m_direction msg = Internal then Pass msg
         else (case verifySender ob temporary cfg (m_from msg) of
                 NullSender \<Rightarrow> Fault
               | Refuse \<Rightarrow> refuse
               | Continue \<Rightarrow>
                   if pc_content_DropIfAny cfg \<and> containsAny (plainBody rt msg) (qsplitOn 0x2C (pc_dropIfAny cfg))
                   then refuse
                   else if pc_content_DropIfAll cfg \<and> containsAll (plainBody rt msg) (qsplitOn 0x2C (pc_dropIfAll cfg))
                   then refuse
                   else Pass msg))"

text \<open>\<^verbatim>\<open>PrivacyMessageHandler::handleMessage\<close> passes an event on unless the slot has destroyed it.\<close>

definition privacyFactory ::
  "nat \<Rightarrow> objects \<Rightarrow> (contactPtr \<Rightarrow> bool option) \<Rightarrow> 'd richText \<Rightarrow> bool \<Rightarrow> privacyConfig \<Rightarrow> 'd factory" where
  "privacyFactory i ob temporary rt busy cfg =
     \<lparr>fa_id = i,
      fa_filterPosition = simpleFilterPosition Inbound 0,
      fa_create = (\<lambda>manager dir. if dir \<noteq> Inbound then None
                     else Some (PluginHandler (slotIncomingMessage ob temporary rt busy cfg)))\<rparr>"

subsection \<open>What is refused\<close>

definition wordsOf :: "qstring \<Rightarrow> qstring set" where
  "wordsOf s = {w \<in> set (qsplitOn 0x2C s). w \<noteq> []}"

lemma containsAny_iff: "containsAny body ws \<longleftrightarrow> (\<exists>w \<in> set ws. w \<noteq> [] \<and> qcontains w body)"
  by (induction ws) auto

lemma containsAll_iff: "containsAll body ws \<longleftrightarrow> (\<forall>w \<in> set ws. w \<noteq> [] \<longrightarrow> qcontains w body)"
  by (induction ws) auto

text \<open>The settings as a policy: who may not send, and which texts are refused.\<close>

definition senderBarred :: "objects \<Rightarrow> (contactPtr \<Rightarrow> bool option) \<Rightarrow> privacyConfig \<Rightarrow> contactPtr \<Rightarrow> bool" where
  "senderBarred ob temporary cfg p =
     (if pc_sender_AllowNoneButWhiteList cfg then contactEntry ob p \<notin> set (pc_whiteList cfg)
      else if pc_sender_AllowAllButBlackList cfg then contactEntry ob p \<in> set (pc_blackList cfg)
      else pc_sender_AllowNoneButContactList cfg \<and> temporary p = Some True)"

definition textBarred :: "privacyConfig \<Rightarrow> qstring \<Rightarrow> bool" where
  "textBarred cfg body \<longleftrightarrow>
     pc_content_DropIfAny cfg \<and> (\<exists>w \<in> wordsOf (pc_dropIfAny cfg). qcontains w body)
     \<or> pc_content_DropIfAll cfg \<and> (\<forall>w \<in> wordsOf (pc_dropIfAll cfg). qcontains w body)"

definition barred ::
  "objects \<Rightarrow> (contactPtr \<Rightarrow> bool option) \<Rightarrow> 'd richText \<Rightarrow> privacyConfig \<Rightarrow> 'd message \<Rightarrow> bool" where
  "barred ob temporary rt cfg m \<longleftrightarrow>
     m_direction m = Inbound
     \<and> ((\<exists>p. m_from m = Some p \<and> senderBarred ob temporary cfg p) \<or> textBarred cfg (plainBody rt m))"

lemma verifySender_iff:
  "verifySender ob temporary cfg from' = Refuse \<Longrightarrow> \<exists>p. from' = Some p \<and> senderBarred ob temporary cfg p"
  "verifySender ob temporary cfg from' = Continue \<Longrightarrow> \<not> (\<exists>p. from' = Some p \<and> senderBarred ob temporary cfg p)"
  by (auto simp: verifySender_def senderBarred_def split: option.splits if_splits)

lemma words_iff:
  "containsAny body (qsplitOn 0x2C s) \<longleftrightarrow> (\<exists>w \<in> wordsOf s. qcontains w body)"
  "containsAll body (qsplitOn 0x2C s) \<longleftrightarrow> (\<forall>w \<in> wordsOf s. qcontains w body)"
  by (auto simp: containsAny_iff containsAll_iff wordsOf_def)

lemma textBarred_iff:
  "textBarred cfg body \<longleftrightarrow>
     pc_content_DropIfAny cfg \<and> containsAny body (qsplitOn 0x2C (pc_dropIfAny cfg))
     \<or> pc_content_DropIfAll cfg \<and> containsAll body (qsplitOn 0x2C (pc_dropIfAll cfg))"
  by (simp add: textBarred_def words_iff)

lemma slot_verdict:
  assumes "slotIncomingMessage ob temporary rt busy cfg m \<noteq> Fault"
  shows "slotIncomingMessage ob temporary rt busy cfg m = (if barred ob temporary rt cfg m then Drop else Pass m)"
proof (cases "m_direction m = Inbound")
  case True
  show ?thesis
  proof (cases "verifySender ob temporary cfg (m_from m)")
    case Continue
    from verifySender_iff(2) [OF Continue] True
    have "barred ob temporary rt cfg m \<longleftrightarrow> textBarred cfg (plainBody rt m)" by (auto simp: barred_def)
    with assms True Continue show ?thesis
      by (simp add: slotIncomingMessage_def Let_def textBarred_iff split: if_splits) blast
  next
    case Refuse
    from verifySender_iff(1) [OF Refuse] True have "barred ob temporary rt cfg m" by (simp add: barred_def)
    with assms True Refuse show ?thesis by (simp add: slotIncomingMessage_def Let_def split: if_splits)
  next
    case NullSender
    with assms True show ?thesis by (simp add: slotIncomingMessage_def)
  qed
next
  case False
  then show ?thesis by (cases "m_direction m") (simp_all add: slotIncomingMessage_def barred_def)
qed

interpretation privacy: message_filter "slotIncomingMessage ob temporary rt busy cfg" "barred ob temporary rt cfg"
  for ob temporary rt busy cfg
  by unfold_locales (simp_all add: slot_verdict)

text \<open>When the check finds a sender it can name, it dereferences nothing else.\<close>

lemma no_fault:
  assumes "m_from m = Some p" "temporary p \<noteq> None"
  shows "slotIncomingMessage ob temporary rt busy cfg m \<noteq> Fault"
proof -
  have "verifySender ob temporary cfg (m_from m) \<noteq> NullSender"
    using assms by (auto simp: verifySender_def split: if_splits)
  with assms(1) show ?thesis by (auto simp: slotIncomingMessage_def Let_def split: check.split)
qed

text \<open>C37: the plugin refuses an incoming message exactly when its sender or its text is barred by the
  settings, and passes every other message on unchanged.\<close>

theorem privacy_policy_enforced:
  assumes "m_from m = Some p" "temporary p \<noteq> None"
  shows "slotIncomingMessage ob temporary rt busy cfg m = (if barred ob temporary rt cfg m then Drop else Pass m)"
  by (rule privacy.verdict_decides) (rule no_fault [where p = p]; fact assms)

text \<open>When the plugin's handler is the first of the chain, a barred message is discarded there.\<close>

lemma barred_message_discarded:
  assumes "m_from m = Some p" "temporary p \<noteq> None" "barred ob temporary rt cfg m"
    "\<forall>(q, h) \<in> set (created manager Inbound fs). 0 < q" "\<forall>(q, h) \<in> set (created manager Inbound gs). 0 \<le> q"
  shows "handleMessageInternal alive (createChain manager Inbound (fs @ privacyFactory i ob temporary rt busy cfg # gs)) m
    = Done (Some (EventDiscarded m))"
proof -
  have "createChain manager Inbound (fs @ privacyFactory i ob temporary rt busy cfg # gs)
      = PluginHandler (slotIncomingMessage ob temporary rt busy cfg) # createChain manager Inbound (fs @ gs)"
    using assms(4,5)
    by (intro createChain_first [where p = 0])
      (auto simp: privacyFactory_def simpleFilterPosition_def StageDoNotCreate_def)
  then show ?thesis
    using privacy.refused_is_discarded [of "[]" m m] assms(3) no_fault [of m p temporary] assms(1,2) by simp
qed

text \<open>The handlers before the plugin's: those of a smaller position, and those of the same position
  that were registered earlier.\<close>

definition beforePrivacy :: "nat \<Rightarrow> 'd factory list \<Rightarrow> 'd factory list \<Rightarrow> 'd messageHandler list" where
  "beforePrivacy manager fs gs =
     map snd (sort_key fst (filter (\<lambda>x. fst x \<le> 0) (created manager Inbound fs)
       @ filter (\<lambda>x. fst x < 0) (created manager Inbound gs)))"

text \<open>
  C15: in every inbound chain, whatever the other plugins and their positions are and however often a
  handler keeps the message and accepts it later, a message is shown only if the settings do not bar
  it as it is when it comes to the plugin's handler, that is, as the handlers before have left it.
  The handler that shows messages must not be among them; it is created with the position 100000.
\<close>

theorem barred_message_never_shown:
  assumes "(acceptEvent alive ^^ n) (handleMessageInternal alive
      (createChain manager Inbound (fs @ privacyFactory i ob temporary rt busy cfg # gs)) m) = Done (Some (MessageAppended m''))"
    "\<forall>(q, h) \<in> set (created manager Inbound (fs @ gs)). h = AppendMessageHandler \<longrightarrow> 0 < q"
  shows "\<exists>m'. passed (beforePrivacy manager fs gs) m = Some m' \<and> \<not> barred ob temporary rt cfg m'"
proof -
  let ?slot = "slotIncomingMessage ob temporary rt busy cfg"
  have "created manager Inbound (fs @ privacyFactory i ob temporary rt busy cfg # gs)
      = created manager Inbound fs @ (0, PluginHandler ?slot) # created manager Inbound gs"
    by (simp add: created_def privacyFactory_def simpleFilterPosition_def StageDoNotCreate_def Let_def)
  then obtain after where "createChain manager Inbound (fs @ privacyFactory i ob temporary rt busy cfg # gs)
      = beforePrivacy manager fs gs @ PluginHandler ?slot # after"
    by (simp add: createChain_sorted sort_key_around beforePrivacy_def)
  moreover have "AppendMessageHandler \<notin> set (beforePrivacy manager fs gs)"
  proof
    assume "AppendMessageHandler \<in> set (beforePrivacy manager fs gs)"
    moreover have "set (beforePrivacy manager fs gs) \<subseteq> snd ` {x \<in> set (created manager Inbound (fs @ gs)). fst x \<le> 0}"
      by (auto simp: beforePrivacy_def created_append intro: rev_image_eqI)
    ultimately show False using assms(2) by fastforce
  qed
  ultimately show ?thesis using privacy.shown_is_not_refused assms(1) by metis
qed

text \<open>With the check for messages that contain all of the words switched on and no word given, every
  message of every sender the plugin can name is refused.\<close>

theorem no_words_refuse_everything:
  assumes "pc_content_DropIfAll cfg" "wordsOf (pc_dropIfAll cfg) = {}"
    "m_direction m = Inbound" "m_from m = Some p" "temporary p \<noteq> None"
  shows "slotIncomingMessage ob temporary rt busy cfg m = Drop"
  using slot_verdict [of ob temporary rt busy cfg m] no_fault [of m p temporary ob rt busy cfg] assms
  by (simp add: barred_def textBarred_def)

subsection \<open>A configuration\<close>

definition sampleConfig :: privacyConfig where
  "sampleConfig =
     \<lparr>pc_sender_AllowNoneButWhiteList = False, pc_sender_AllowAllButBlackList = True,
      pc_sender_AllowNoneButContactList = False, pc_whiteList = [], pc_blackList = [],
      pc_content_DropIfAny = True, pc_dropIfAny = qstr ''spam,,ads'', pc_content_DropIfAll = True,
      pc_dropIfAll = qstr '',''\<rparr>"

theorem privacy_policy_enforced_witness:
  "slotIncomingMessage sampleObjects (\<lambda>p. Some False) sampleRichText False sampleConfig (sampleMessage ''spam'')
     = (if barred sampleObjects (\<lambda>p. Some False) sampleRichText sampleConfig (sampleMessage ''spam'')
        then Drop else Pass (sampleMessage ''spam''))"
  by (rule privacy_policy_enforced [where p = 1]) simp_all

text \<open>A plugin before the check marks the message as sent, keeps it for a while and accepts it.\<close>

definition keepingFactory :: "qstring factory" where
  "keepingFactory =
     \<lparr>fa_id = 3, fa_filterPosition = (\<lambda>manager dir. - 90),
      fa_create = (\<lambda>manager dir. Some (PluginHandler (\<lambda>m. Keep (setState StateSent m))))\<rparr>"

definition quietConfig :: privacyConfig where
  "quietConfig = sampleConfig\<lparr>pc_content_DropIfAny := False, pc_content_DropIfAll := False\<rparr>"

lemma keeping_shown:
  "(acceptEvent True ^^ 1) (handleMessageInternal True (createChain 0 Inbound
     ([keepingFactory] @ privacyFactory 1 sampleObjects (\<lambda>p. Some False) sampleRichText False quietConfig # [tempFactory 2]))
     (sampleMessage ''a'')) = Done (Some (MessageAppended (setState StateSent (sampleMessage ''a''))))"
  by (simp add: createChain_def keepingFactory_def privacyFactory_def tempFactory_def simpleFilterPosition_def
      StageDoNotCreate_def acceptEvent_def slotIncomingMessage_def verifySender_def quietConfig_def sampleConfig_def setState_def)

theorem barred_message_never_shown_witness:
  "\<exists>m'. passed (beforePrivacy 0 [keepingFactory] [tempFactory 2]) (sampleMessage ''a'') = Some m'
    \<and> \<not> barred sampleObjects (\<lambda>p. Some False) sampleRichText quietConfig m'"
  by (rule barred_message_never_shown [OF keeping_shown])
    (simp add: created_def keepingFactory_def tempFactory_def StageDoNotCreate_def)

theorem no_words_refuse_everything_witness:
  "slotIncomingMessage sampleObjects (\<lambda>p. Some False) sampleRichText False sampleConfig (sampleMessage ''hello'') = Drop"
  by (rule no_words_refuse_everything [where p = 1]) (simp_all add: sampleConfig_def wordsOf_def qstr_def)

end
