(* ===== verification/Kopete_ChatSession.thy ===== *)
theory Kopete_ChatSession
  imports Kopete_MessageChain
begin

text \<open>
  Chat sessions of \<^verbatim>\<open>libkopete\<close> (\<^verbatim>\<open>kopetechatsession.cpp\<close>): the members of a chat and what the session
  listens to of them, the display name, the typing notifications, the statuses of members inside of
  the chat and the references that keep a session alive.

  A session is connected to signals of its members: a connection is the sender and the slot or
  signal of the session it runs, and the list of connections has one entry for each call of
  \<^verbatim>\<open>connect\<close>, as Qt runs a slot once for each connection.  The signals of the session are recorded in
  the order of their emission.  The meta contacts' names, which of them there are, and the settings
  are arguments.
\<close>

subsection \<open>State\<close>

datatype sender = FromContact contactPtr | FromMeta metaPtr

datatype receiver =
    SlotOnlineStatusChanged | SignalOnlineStatusChanged | SignalStatusMessageChanged
  | SlotUpdateDisplayName | SignalPhotoChanged | SlotContactDestroyed | SlotMyselfDestroyed
  | SlotDisplayNameChanged

datatype sessionEvent =
    ContactAdded contactPtr bool
  | ContactRemoved contactPtr
  | MemberStatusChanged contactPtr onlineStatus onlineStatus
  | SessionNameChanged
  | NickNameChanged contactPtr qstring
  | RemoteTyping contactPtr bool
  | MyselfTyping bool
  | ShowNotification qstring
  | NewNotification qstring

datatype form = Small | Chatroom

record session =
  cs_contacts :: "contactPtr list"
  cs_user :: "contactPtr option"
  cs_contactStatus :: "(contactPtr \<times> onlineStatus) list"
  cs_typingNotifications :: "qstring list"
  cs_protocol :: nat
  cs_isEmpty :: bool
  cs_mCanBeDeleted :: bool
  cs_refcount :: u32
  cs_customDisplayName :: bool
  cs_displayName :: "qstring option"
  cs_lastUrl :: qstring
  cs_view :: "nat option"
  cs_mayInvite :: bool
  cs_form :: form
  cs_warnGroupChat :: bool
  cs_connections :: "(sender \<times> receiver) list"
  cs_deleteLater :: bool
  cs_events :: "sessionEvent list"

record people =
  pe_objects :: objects
  pe_metaName :: "metaPtr \<Rightarrow> qstring"
  pe_accountLabel :: "accountPtr \<Rightarrow> qstring"

abbreviation metaOf :: "people \<Rightarrow> contactPtr \<Rightarrow> metaPtr option" where
  "metaOf pe c \<equiv> c_metaContact (ob_contact (pe_objects pe) c)"

definition raiseEvent :: "sessionEvent \<Rightarrow> session \<Rightarrow> session" where
  "raiseEvent e s = s\<lparr>cs_events := cs_events s @ [e]\<rparr>"

definition connectTo :: "sender \<Rightarrow> receiver \<Rightarrow> session \<Rightarrow> session" where
  "connectTo a r s = s\<lparr>cs_connections := cs_connections s @ [(a, r)]\<rparr>"

definition disconnectFrom :: "sender \<Rightarrow> receiver \<Rightarrow> session \<Rightarrow> session" where
  "disconnectFrom a r s = s\<lparr>cs_connections := filter (\<lambda>x. x \<noteq> (a, r)) (cs_connections s)\<rparr>"

definition deleteLater :: "session \<Rightarrow> session" where
  "deleteLater s = s\<lparr>cs_deleteLater := True\<rparr>"

subsection \<open>The display name\<close>

definition memberName :: "people \<Rightarrow> contactPtr \<Rightarrow> qstring" where
  "memberName pe c =
     (case metaOf pe c of
        Some mc \<Rightarrow> pe_metaName pe mc
      | None \<Rightarrow> contactDisplayName (pe_objects pe) (ob_contact (pe_objects pe) c))"

definition slotUpdateDisplayName :: "people \<Rightarrow> session \<Rightarrow> session" where
  "slotUpdateDisplayName pe s =
     (if cs_customDisplayName s then s
      else if cs_contacts s = [] then s
      else let name = qjoin (qstr '', '') (map (memberName pe) (cs_contacts s));
               name = (case cs_contacts s of
                         [c] \<Rightarrow> name @ qarg (qstr '' (%1)'') (os_description (onlineStatusOf (pe_objects pe) c))
                       | _ \<Rightarrow> name)
           in raiseEvent SessionNameChanged (s\<lparr>cs_displayName := Some name\<rparr>))"

definition setDisplayName :: "qstring \<Rightarrow> session \<Rightarrow> session" where
  "setDisplayName newName s =
     raiseEvent SessionNameChanged (s\<lparr>cs_displayName := Some newName, cs_customDisplayName := True\<rparr>)"

definition displayName :: "people \<Rightarrow> session \<Rightarrow> qstring option \<times> session" where
  "displayName pe s =
     (let s = (if cs_displayName s = None then slotUpdateDisplayName pe s else s) in (cs_displayName s, s))"

subsection \<open>Members\<close>

text \<open>The connections a new member gets, and the two orders in which they are cut.\<close>

definition connectMember :: "people \<Rightarrow> contactPtr \<Rightarrow> session \<Rightarrow> session" where
  "connectMember pe c s =
     (let s = connectTo (FromContact c) SlotOnlineStatusChanged s;
          s = connectTo (FromContact c) SignalStatusMessageChanged s;
          s = (case metaOf pe c of
                 Some mc \<Rightarrow> connectTo (FromMeta mc) SignalPhotoChanged (connectTo (FromMeta mc) SlotUpdateDisplayName s)
               | None \<Rightarrow> connectTo (FromContact c) SlotUpdateDisplayName s);
          s = connectTo (FromContact c) SlotContactDestroyed s
      in connectTo (FromContact c) SlotDisplayNameChanged s)"

definition disconnectNames :: "people \<Rightarrow> contactPtr \<Rightarrow> session \<Rightarrow> session" where
  "disconnectNames pe c s =
     (case metaOf pe c of
        Some mc \<Rightarrow> disconnectFrom (FromMeta mc) SignalPhotoChanged (disconnectFrom (FromMeta mc) SlotUpdateDisplayName s)
      | None \<Rightarrow> disconnectFrom (FromContact c) SlotUpdateDisplayName s)"

definition chatAddContact :: "people \<Rightarrow> contactPtr \<Rightarrow> bool \<Rightarrow> session \<Rightarrow> session" where
  "chatAddContact pe c suppress s =
     (if c \<in> set (cs_contacts s) then s
      else let s = (if length (cs_contacts s) = 1 \<and> cs_isEmpty s
                    then let old = hd (cs_contacts s);
                             s = s\<lparr>cs_contacts := filter (\<lambda>x. x \<noteq> old) (cs_contacts s) @ [c]\<rparr>;
                             s = disconnectFrom (FromContact old) SlotOnlineStatusChanged s;
                             s = disconnectFrom (FromContact old) SignalStatusMessageChanged s;
                             s = disconnectNames pe old s;
                             s = disconnectFrom (FromContact old) SlotDisplayNameChanged s
                         in raiseEvent (ContactRemoved old) (raiseEvent (ContactAdded c suppress) s)
                    else raiseEvent (ContactAdded c suppress) (s\<lparr>cs_contacts := cs_contacts s @ [c]\<rparr>))
           in slotUpdateDisplayName pe (connectMember pe c s))\<lparr>cs_isEmpty := False\<rparr>"

definition addContactWithStatus :: "people \<Rightarrow> contactPtr \<Rightarrow> onlineStatus \<Rightarrow> bool \<Rightarrow> session \<Rightarrow> session" where
  "addContactWithStatus pe c initialStatus suppress s =
     chatAddContact pe c suppress
       (if c \<in> fst ` set (cs_contactStatus s) then s
        else s\<lparr>cs_contactStatus := (c, initialStatus) # cs_contactStatus s\<rparr>)"

definition chatRemoveContact :: "people \<Rightarrow> contactPtr option \<Rightarrow> session \<Rightarrow> session" where
  "chatRemoveContact pe c' s =
     (case c' of
        None \<Rightarrow> s
      | Some c \<Rightarrow>
          if c \<notin> set (cs_contacts s) then s
          else let s = (if length (cs_contacts s) = 1 then s\<lparr>cs_isEmpty := True\<rparr>
                        else let s = s\<lparr>cs_contacts := filter (\<lambda>x. x \<noteq> c) (cs_contacts s)\<rparr>;
                                 s = disconnectFrom (FromContact c) SlotOnlineStatusChanged s;
                                 s = disconnectNames pe c s;
                                 s = disconnectFrom (FromContact c) SlotContactDestroyed s;
                                 s = disconnectFrom (FromContact c) SlotDisplayNameChanged s
                             in slotUpdateDisplayName pe s)
               in raiseEvent (ContactRemoved c)
                    (s\<lparr>cs_contactStatus := filter (\<lambda>(p, st). p \<noteq> c) (cs_contactStatus s)\<rparr>))"

definition slotContactDestroyed :: "contactPtr option \<Rightarrow> session \<Rightarrow> session" where
  "slotContactDestroyed c' s =
     (case c' of
        None \<Rightarrow> s
      | Some c \<Rightarrow>
          if c \<notin> set (cs_contacts s) then s
          else let s = raiseEvent (ContactRemoved c) (s\<lparr>cs_contacts := filter (\<lambda>x. x \<noteq> c) (cs_contacts s)\<rparr>)
               in if cs_contacts s = [] then deleteLater s else s)"

definition slotMyselfDestroyed :: "session \<Rightarrow> session" where
  "slotMyselfDestroyed s = deleteLater (s\<lparr>cs_user := None\<rparr>)"

text \<open>The destructor of a contact runs the slots connected to it; Qt then drops its connections.\<close>

definition chatContactDestroyed :: "contactPtr \<Rightarrow> session \<Rightarrow> session" where
  "chatContactDestroyed c s =
     (let s = (if (FromContact c, SlotContactDestroyed) \<in> set (cs_connections s) then slotContactDestroyed (Some c) s else s);
          s = (if (FromContact c, SlotMyselfDestroyed) \<in> set (cs_connections s) then slotMyselfDestroyed s else s)
      in s\<lparr>cs_connections := filter (\<lambda>(a, r). a \<noteq> FromContact c) (cs_connections s)\<rparr>)"

text \<open>The constructor; \<open>url\<close> is the last link stored for the first of the others.\<close>

definition blankChatSession :: "contactPtr \<Rightarrow> contactPtr list \<Rightarrow> nat \<Rightarrow> form \<Rightarrow> qstring \<Rightarrow> session" where
  "blankChatSession user others protocol f url =
     \<lparr>cs_contacts = [], cs_user = Some user, cs_contactStatus = [], cs_typingNotifications = [],
      cs_protocol = protocol, cs_isEmpty = (others = []), cs_mCanBeDeleted = True, cs_refcount = 0,
      cs_customDisplayName = False, cs_displayName = None,
      cs_lastUrl = (if others = [] then [] else url), cs_view = None, cs_mayInvite = False, cs_form = f,
      cs_warnGroupChat = True, cs_connections = [], cs_deleteLater = False, cs_events = []\<rparr>"

definition newChatSession :: "people \<Rightarrow> contactPtr \<Rightarrow> contactPtr list \<Rightarrow> nat \<Rightarrow> form \<Rightarrow> qstring \<Rightarrow> session" where
  "newChatSession pe user others protocol f url =
     (let s = fold (\<lambda>c. chatAddContact pe c True) others (blankChatSession user others protocol f url);
          s = connectTo (FromContact user) SlotMyselfDestroyed s;
          s = connectTo (FromContact user) SlotOnlineStatusChanged s;
          s = (case metaOf pe user of Some mc \<Rightarrow> connectTo (FromMeta mc) SignalPhotoChanged s | None \<Rightarrow> s)
      in slotUpdateDisplayName pe s)"

subsection \<open>Statuses in the session\<close>

definition slotOnlineStatusChanged :: "people \<Rightarrow> contactPtr \<Rightarrow> onlineStatus \<Rightarrow> onlineStatus \<Rightarrow> session \<Rightarrow> session" where
  "slotOnlineStatusChanged pe c status oldStatus s =
     raiseEvent (MemberStatusChanged c status oldStatus) (slotUpdateDisplayName pe s)"

definition setContactOnlineStatus' :: "contactPtr \<Rightarrow> onlineStatus \<Rightarrow> session \<Rightarrow> session" where
  "setContactOnlineStatus' c status s =
     (let oldStatus = (case map_of (cs_contactStatus s) c of Some st \<Rightarrow> st | None \<Rightarrow> emptyStatus);
          s = s\<lparr>cs_contactStatus := (c, status) # filter (\<lambda>(p, st). p \<noteq> c) (cs_contactStatus s)\<rparr>;
          s = disconnectFrom (FromContact c) SignalOnlineStatusChanged s
      in raiseEvent (MemberStatusChanged c status oldStatus) s)"

definition contactOnlineStatus :: "people \<Rightarrow> contactPtr \<Rightarrow> session \<Rightarrow> onlineStatus" where
  "contactOnlineStatus pe c s =
     (case map_of (cs_contactStatus s) c of Some st \<Rightarrow> st | None \<Rightarrow> onlineStatusOf (pe_objects pe) c)"

text \<open>A change of the status of a contact runs the slot once for each connection.\<close>

definition contactStatusChanged :: "people \<Rightarrow> contactPtr \<Rightarrow> onlineStatus \<Rightarrow> onlineStatus \<Rightarrow> session \<Rightarrow> session" where
  "contactStatusChanged pe c status oldStatus s =
     (let n = count_list (cs_connections s) (FromContact c, SlotOnlineStatusChanged);
          k = count_list (cs_connections s) (FromContact c, SignalOnlineStatusChanged)
      in (raiseEvent (MemberStatusChanged c status oldStatus) ^^ k)
           ((slotOnlineStatusChanged pe c status oldStatus ^^ n) s))"

subsection \<open>Typing\<close>

text \<open>
  \<open>quiet\<close>: the account is away and the user does not want events then, or it is busy; \<open>active\<close>: the
  window of the view is the active one.  The picture of the meta contact is read before it is
  known that there is one: \<open>None\<close> is the null pointer.
\<close>

definition receivedTypingMsg :: "people \<Rightarrow> bool \<Rightarrow> bool \<Rightarrow> contactPtr \<Rightarrow> bool \<Rightarrow> session \<Rightarrow> session option" where
  "receivedTypingMsg pe quiet active c t s =
     (let s = raiseEvent (RemoteTyping c t) s;
          co = ob_contact (pe_objects pe) c;
          key = pe_accountLabel pe (c_account co) @ c_contactId co
      in if quiet then Some s
         else if (cs_view s \<noteq> None \<and> active) \<or> \<not> t then Some s
         else if key \<in> set (cs_typingNotifications s) then Some (raiseEvent (ShowNotification key) s)
         else if metaOf pe c = None then None
         else Some (raiseEvent (NewNotification key)
                (s\<lparr>cs_typingNotifications := cs_typingNotifications s @ [key]\<rparr>)))"

definition notificationClosed :: "qstring \<Rightarrow> session \<Rightarrow> session" where
  "notificationClosed key s =
     s\<lparr>cs_typingNotifications := filter (\<lambda>k. k \<noteq> key) (cs_typingNotifications s)\<rparr>"

definition receivedTypingMsgId :: "people \<Rightarrow> bool \<Rightarrow> bool \<Rightarrow> qstring \<Rightarrow> bool \<Rightarrow> session \<Rightarrow> session option" where
  "receivedTypingMsgId pe quiet active contactId t s =
     (case find (\<lambda>c. c_contactId (ob_contact (pe_objects pe) c) = contactId) (cs_contacts s) of
        Some c \<Rightarrow> receivedTypingMsg pe quiet active c t s
      | None \<Rightarrow> Some s)"

definition typing :: "bool \<Rightarrow> session \<Rightarrow> session" where
  "typing t s = raiseEvent (MyselfTyping t) s"

definition slotDisplayNameChanged :: "contactPtr \<Rightarrow> qstring \<Rightarrow> session \<Rightarrow> session" where
  "slotDisplayNameChanged c oldName s = raiseEvent (NickNameChanged c oldName) s"

subsection \<open>Keeping a session\<close>

text \<open>The comparison of \<^verbatim>\<open>setCanBeDeleted\<close> is one of unsigned numbers.\<close>

definition setCanBeDeleted :: "bool \<Rightarrow> session \<Rightarrow> session" where
  "setCanBeDeleted b s =
     (let s = s\<lparr>cs_mCanBeDeleted := b\<rparr>
      in if cs_refcount s < (if b then 1 else 0) \<and> cs_view s = None then deleteLater s else s)"

definition ref :: "session \<Rightarrow> session" where
  "ref s = s\<lparr>cs_refcount := cs_refcount s + 1\<rparr>"

definition deref :: "session \<Rightarrow> session" where
  "deref s =
     (let s = s\<lparr>cs_refcount := cs_refcount s - 1\<rparr>
      in if cs_refcount s < 1 \<and> cs_mCanBeDeleted s \<and> cs_view s = None then deleteLater s else s)"

text \<open>\<open>made\<close> is what \<^verbatim>\<open>createView\<close> returns.\<close>

definition view :: "bool \<Rightarrow> nat option \<Rightarrow> session \<Rightarrow> nat option \<times> session" where
  "view canCreate made s =
     (let s = (if cs_view s = None \<and> canCreate then s\<lparr>cs_view := made\<rparr> else s) in (cs_view s, s))"

definition slotViewDestroyed :: "session \<Rightarrow> session" where
  "slotViewDestroyed s =
     (let s = s\<lparr>cs_view := None\<rparr>
      in if cs_mCanBeDeleted s \<and> cs_refcount s < 1 then deleteLater s else s)"

definition setLastUrl :: "qstring \<Rightarrow> session \<Rightarrow> session" where
  "setLastUrl u s = s\<lparr>cs_lastUrl := u\<rparr>"

definition setMayInvite :: "bool \<Rightarrow> session \<Rightarrow> session" where
  "setMayInvite b s = s\<lparr>cs_mayInvite := b\<rparr>"

definition setWarnGroupChat :: "bool \<Rightarrow> session \<Rightarrow> session" where
  "setWarnGroupChat b s = s\<lparr>cs_warnGroupChat := b\<rparr>"

text \<open>The file in which the links of a contact are stored, below the folder of all of them.\<close>

definition fileChar :: "u16 \<Rightarrow> u16" where
  "fileChar c = (if c \<in> {0x2E, 0x2F, 0x7E, 0x3F, 0x2A} then 0x2D else c)"

definition getUrlsFileName :: "people \<Rightarrow> qstring \<Rightarrow> contactPtr \<Rightarrow> qstring" where
  "getUrlsFileName pe folder c =
     (let co = ob_contact (pe_objects pe) c; a = ob_account (pe_objects pe) (c_account co)
      in folder @ qstr ''/kopete/urls/'' @ map fileChar (ac_protocolId a) @ qstr ''/''
         @ map fileChar (ac_accountId a) @ qstr ''/'' @ map fileChar (c_contactId co)
         @ qstr ''.lasturls'' @ qstr ''.txt'')"

subsection \<open>What the listeners are told\<close>

text \<open>The members a listener to the signals of the session believes in.\<close>

fun hear :: "sessionEvent \<Rightarrow> contactPtr set \<Rightarrow> contactPtr set" where
  "hear (ContactAdded c b) A = insert c A"
| "hear (ContactRemoved c) A = A - {c}"
| "hear _ A = A"

definition announced :: "session \<Rightarrow> contactPtr set" where
  "announced s = fold hear (cs_events s) {}"

datatype memberOp =
    Add contactPtr bool
  | AddWithStatus contactPtr onlineStatus bool
  | Remove "contactPtr option"
  | Destroy contactPtr
  | ChangeStatus contactPtr onlineStatus
  | Rename qstring

fun memberStep :: "people \<Rightarrow> memberOp \<Rightarrow> session \<Rightarrow> session" where
  "memberStep pe (Add c b) s = chatAddContact pe c b s"
| "memberStep pe (AddWithStatus c st b) s = addContactWithStatus pe c st b s"
| "memberStep pe (Remove c) s = chatRemoveContact pe c s"
| "memberStep pe (Destroy c) s = chatContactDestroyed c s"
| "memberStep pe (ChangeStatus c st) s = setContactOnlineStatus' c st s"
| "memberStep pe (Rename n) s = setDisplayName n s"

definition runMembers :: "people \<Rightarrow> memberOp list \<Rightarrow> session \<Rightarrow> session" where
  "runMembers pe ops s = fold (memberStep pe) ops s"

named_theorems session_simps \<open>what the operations do to the members, the events and the connections\<close>

lemma events_simps [session_simps]:
  "cs_events (raiseEvent e s) = cs_events s @ [e]"
  "cs_events (connectTo a r s) = cs_events s" "cs_events (disconnectFrom a r s) = cs_events s"
  "cs_events (deleteLater s) = cs_events s"
  by (simp_all add: raiseEvent_def connectTo_def disconnectFrom_def deleteLater_def)

lemma contacts_simps [session_simps]:
  "cs_contacts (raiseEvent e s) = cs_contacts s"
  "cs_contacts (connectTo a r s) = cs_contacts s" "cs_contacts (disconnectFrom a r s) = cs_contacts s"
  "cs_contacts (deleteLater s) = cs_contacts s" "cs_contacts (slotUpdateDisplayName pe s) = cs_contacts s"
  "cs_contacts (disconnectNames pe c s) = cs_contacts s" "cs_contacts (connectMember pe c s) = cs_contacts s"
  by (simp_all add: raiseEvent_def connectTo_def disconnectFrom_def deleteLater_def slotUpdateDisplayName_def
      disconnectNames_def connectMember_def Let_def split: option.split list.split)

lemma empty_simps [session_simps]:
  "cs_isEmpty (raiseEvent e s) = cs_isEmpty s"
  "cs_isEmpty (connectTo a r s) = cs_isEmpty s" "cs_isEmpty (disconnectFrom a r s) = cs_isEmpty s"
  "cs_isEmpty (deleteLater s) = cs_isEmpty s" "cs_isEmpty (slotUpdateDisplayName pe s) = cs_isEmpty s"
  "cs_isEmpty (disconnectNames pe c s) = cs_isEmpty s" "cs_isEmpty (connectMember pe c s) = cs_isEmpty s"
  by (simp_all add: raiseEvent_def connectTo_def disconnectFrom_def deleteLater_def slotUpdateDisplayName_def
      disconnectNames_def connectMember_def Let_def split: option.split list.split)

lemma announced_simps [session_simps]:
  "announced (raiseEvent e s) = hear e (announced s)"
  "announced (connectTo a r s) = announced s" "announced (disconnectFrom a r s) = announced s"
  "announced (deleteLater s) = announced s" "announced (slotUpdateDisplayName pe s) = announced s"
  "announced (disconnectNames pe c s) = announced s" "announced (connectMember pe c s) = announced s"
  "announced (s\<lparr>cs_contacts := cl\<rparr>) = announced s" "announced (s\<lparr>cs_isEmpty := b\<rparr>) = announced s"
  "announced (s\<lparr>cs_contactStatus := sl\<rparr>) = announced s" "announced (s\<lparr>cs_user := u\<rparr>) = announced s"
  "announced (s\<lparr>cs_connections := xs\<rparr>) = announced s"
  by (simp_all add: announced_def raiseEvent_def connectTo_def disconnectFrom_def deleteLater_def
      slotUpdateDisplayName_def disconnectNames_def connectMember_def Let_def split: option.split list.split)

lemma deleteLater_simps [session_simps]:
  "cs_deleteLater (raiseEvent e s) = cs_deleteLater s"
  "cs_deleteLater (connectTo a r s) = cs_deleteLater s" "cs_deleteLater (disconnectFrom a r s) = cs_deleteLater s"
  "cs_deleteLater (deleteLater s) = True" "cs_deleteLater (slotUpdateDisplayName pe s) = cs_deleteLater s"
  "cs_deleteLater (disconnectNames pe c s) = cs_deleteLater s" "cs_deleteLater (connectMember pe c s) = cs_deleteLater s"
  by (simp_all add: raiseEvent_def connectTo_def disconnectFrom_def deleteLater_def slotUpdateDisplayName_def
      disconnectNames_def connectMember_def Let_def split: option.split list.split)

text \<open>What holds between the members and what was announced of them: at most one member is not
  known to the listeners, the one that was kept when the last member was removed.\<close>

definition consistent :: "session \<Rightarrow> bool" where
  "consistent s \<longleftrightarrow> distinct (cs_contacts s) \<and> announced s \<subseteq> set (cs_contacts s)
     \<and> (\<exists>k. set (cs_contacts s) - announced s \<subseteq> {k})
     \<and> (cs_isEmpty s \<longrightarrow> announced s = {} \<and> length (cs_contacts s) \<le> 1)"

lemma consistent_add:
  assumes "consistent s"
  shows "consistent (chatAddContact pe c b s)"
proof (cases "c \<in> set (cs_contacts s)")
  case True
  with assms show ?thesis by (simp add: chatAddContact_def consistent_def session_simps)
next
  case False
  show ?thesis
  proof (cases "length (cs_contacts s) = 1 \<and> cs_isEmpty s")
    case True
    then obtain old where "cs_contacts s = [old]" by (auto simp: length_Suc_conv)
    with True False assms show ?thesis
      by (simp add: chatAddContact_def consistent_def session_simps Let_def)
  next
    case not_kept: False
    then have add: "chatAddContact pe c b s
        = (slotUpdateDisplayName pe (connectMember pe c
             (raiseEvent (ContactAdded c b) (s\<lparr>cs_contacts := cs_contacts s @ [c]\<rparr>))))\<lparr>cs_isEmpty := False\<rparr>"
      using False by (auto simp: chatAddContact_def Let_def)
    from assms obtain k where "set (cs_contacts s) - announced s \<subseteq> {k}" by (auto simp: consistent_def)
    with assms False show ?thesis
      unfolding add by (auto simp: consistent_def session_simps)
  qed
qed

lemma consistent_remove: "consistent s \<Longrightarrow> consistent (chatRemoveContact pe c' s)"
proof (cases "\<exists>c. c' = Some c \<and> c \<in> set (cs_contacts s)")
  case True
  then obtain c where c: "c' = Some c" "c \<in> set (cs_contacts s)" by blast
  assume s: "consistent s"
  then obtain k where k: "set (cs_contacts s) - announced s \<subseteq> {k}" by (auto simp: consistent_def)
  show ?thesis
  proof (cases "length (cs_contacts s) = 1")
    case True
    then have "cs_contacts s = [c]" using c(2) by (auto simp: length_Suc_conv)
    with c s show ?thesis by (auto simp: chatRemoveContact_def consistent_def session_simps)
  next
    case False
    have "\<not> cs_isEmpty s" using False c(2) s by (cases "cs_contacts s") (auto simp: consistent_def)
    with c s False k show ?thesis
      by (auto simp: chatRemoveContact_def consistent_def session_simps Let_def)
  qed
qed (auto simp: chatRemoveContact_def split: option.split)

lemma consistent_cong:
  "cs_contacts s' = cs_contacts s \<Longrightarrow> announced s' = announced s \<Longrightarrow> cs_isEmpty s' = cs_isEmpty s \<Longrightarrow>
     consistent s \<Longrightarrow> consistent s'"
  by (simp add: consistent_def)

lemma consistent_deleteLater: "consistent (deleteLater s) = consistent s"
  by (simp add: consistent_def session_simps deleteLater_def announced_def)

lemma consistent_slotContactDestroyed: "consistent s \<Longrightarrow> consistent (slotContactDestroyed (Some c) s)"
proof (cases "c \<in> set (cs_contacts s)")
  case True
  assume s: "consistent s"
  let ?s = "raiseEvent (ContactRemoved c) (s\<lparr>cs_contacts := filter (\<lambda>x. x \<noteq> c) (cs_contacts s)\<rparr>)"
  have "slotContactDestroyed (Some c) s = (if cs_contacts ?s = [] then deleteLater ?s else ?s)"
    using True by (simp add: slotContactDestroyed_def Let_def)
  moreover have "consistent ?s"
  proof -
    have l: "length (filter (\<lambda>x. x \<noteq> c) (cs_contacts s)) \<le> length (cs_contacts s)" by simp
    from s obtain k where "set (cs_contacts s) - announced s \<subseteq> {k}" by (auto simp: consistent_def)
    then have "set (filter (\<lambda>x. x \<noteq> c) (cs_contacts s)) - (announced s - {c}) \<subseteq> {k}" by auto
    with s l show ?thesis
      using order_trans [OF l] by (auto simp: consistent_def session_simps)
  qed
  ultimately show ?thesis
    by (metis consistent_deleteLater)
qed (simp add: slotContactDestroyed_def)

lemma consistent_destroy: "consistent s \<Longrightarrow> consistent (chatContactDestroyed c s)"
proof -
  let ?s = "if (FromContact c, SlotContactDestroyed) \<in> set (cs_connections s) then slotContactDestroyed (Some c) s else s"
  assume "consistent s"
  then have "consistent ?s" by (simp add: consistent_slotContactDestroyed)
  then show ?thesis
    by (rule consistent_cong [rotated -1])
      (auto simp: chatContactDestroyed_def slotMyselfDestroyed_def session_simps Let_def)
qed

lemma consistent_step: "consistent s \<Longrightarrow> consistent (memberStep pe op' s)"
proof (cases op')
  case (AddWithStatus c st b)
  assume s: "consistent s"
  have "consistent (if c \<in> fst ` set (cs_contactStatus s) then s
      else s\<lparr>cs_contactStatus := (c, st) # cs_contactStatus s\<rparr>)"
    by (rule consistent_cong [OF _ _ _ s]) (simp_all add: session_simps)
  with AddWithStatus show ?thesis by (simp add: addContactWithStatus_def consistent_add)
next
  case (ChangeStatus c st)
  assume "consistent s"
  with ChangeStatus show ?thesis
    by (auto simp: setContactOnlineStatus'_def Let_def session_simps elim!: consistent_cong [rotated -1])
next
  case (Rename n)
  assume "consistent s"
  with Rename show ?thesis
    by (auto simp: setDisplayName_def session_simps announced_def elim!: consistent_cong [rotated -1])
qed (auto intro: consistent_add consistent_remove consistent_destroy)

lemma consistent_run: "consistent s \<Longrightarrow> consistent (runMembers pe ops s)"
  unfolding runMembers_def by (induction ops arbitrary: s) (auto intro: consistent_step)

lemma consistent_fold: "consistent s \<Longrightarrow> consistent (fold (\<lambda>c. chatAddContact pe c True) others s)"
  by (induction others arbitrary: s) (auto intro: consistent_add)

lemma consistent_new: "consistent (newChatSession pe user others protocol f url)"
proof -
  have "consistent (blankChatSession user others protocol f url)"
    by (simp add: blankChatSession_def consistent_def announced_def)
  from consistent_fold [OF this, of pe others] show ?thesis
    by (rule consistent_cong [rotated -1])
      (auto simp: newChatSession_def Let_def session_simps split: option.split)
qed

text \<open>C24: in every run, the contacts a listener has heard of are members, and all members but at most
  one are known to the listeners.\<close>

theorem members_as_announced:
  "let s = runMembers pe ops (newChatSession pe user others protocol f url)
   in distinct (cs_contacts s) \<and> announced s \<subseteq> set (cs_contacts s) \<and> (\<exists>k. set (cs_contacts s) - announced s \<subseteq> {k})"
  using consistent_run [OF consistent_new, of pe ops pe user others protocol f url]
  by (simp add: consistent_def Let_def)

text \<open>The one left out is a contact that came back: when the last member leaves it is kept and announced
  as removed, and when it is added again nobody is told.\<close>

theorem returning_member_unannounced:
  assumes "cs_contacts s = [c]"
  shows "let s' = chatAddContact pe c b (chatRemoveContact pe (Some c) s)
    in cs_contacts s' = [c] \<and> \<not> cs_isEmpty s' \<and> cs_events s' = cs_events s @ [ContactRemoved c]"
  using assms by (simp add: chatRemoveContact_def chatAddContact_def session_simps Let_def)

text \<open>A session that is not to be deleted has a member.\<close>

definition occupied :: "session \<Rightarrow> bool" where
  "occupied s \<longleftrightarrow> cs_contacts s = [] \<longrightarrow> cs_deleteLater s"

lemma add_occupied: "cs_contacts (chatAddContact pe c b s) \<noteq> []"
  by (auto simp: chatAddContact_def session_simps Let_def)

lemma remove_occupied: "cs_contacts s \<noteq> [] \<Longrightarrow> distinct (cs_contacts s) \<Longrightarrow> cs_contacts (chatRemoveContact pe c' s) \<noteq> []"
proof (cases c')
  case (Some c)
  assume ne: "cs_contacts s \<noteq> []" and d: "distinct (cs_contacts s)"
  have "filter (\<lambda>x. x \<noteq> c) (cs_contacts s) \<noteq> []" if "length (cs_contacts s) \<noteq> 1"
  proof
    assume "filter (\<lambda>x. x \<noteq> c) (cs_contacts s) = []"
    then have "set (cs_contacts s) \<subseteq> {c}" by (auto simp: filter_empty_conv)
    then have "card (set (cs_contacts s)) \<le> 1" using card_mono [of "{c}"] by fastforce
    with d ne that show False by (simp add: distinct_card le_Suc_eq)
  qed
  with Some ne show ?thesis by (auto simp: chatRemoveContact_def session_simps Let_def)
qed (simp add: chatRemoveContact_def)

lemma occupied_step: "occupied s \<Longrightarrow> distinct (cs_contacts s) \<Longrightarrow> occupied (memberStep pe op' s)"
proof (cases op')
  case (Remove c')
  assume "occupied s" "distinct (cs_contacts s)"
  with Remove show ?thesis
    using remove_occupied [of s pe c']
    by (cases "cs_contacts s = []") (auto simp: occupied_def chatRemoveContact_def split: option.split)
next
  case (Destroy c)
  assume "occupied s"
  with Destroy show ?thesis
    by (auto simp: occupied_def chatContactDestroyed_def slotContactDestroyed_def slotMyselfDestroyed_def session_simps Let_def)
qed (auto simp: occupied_def addContactWithStatus_def add_occupied setContactOnlineStatus'_def setDisplayName_def
    session_simps Let_def)

lemma occupied_run: "occupied s \<and> consistent s \<Longrightarrow> occupied (runMembers pe ops s)"
  unfolding runMembers_def
proof (induction ops arbitrary: s)
  case (Cons op' ops)
  then have "occupied (memberStep pe op' s) \<and> consistent (memberStep pe op' s)"
    by (intro conjI occupied_step consistent_step) (auto simp: consistent_def)
  with Cons.IH show ?case by simp
qed simp

lemma occupied_new:
  "others \<noteq> [] \<Longrightarrow> occupied (newChatSession pe user others protocol f url) \<and> consistent (newChatSession pe user others protocol f url)"
proof -
  assume "others \<noteq> []"
  then have "cs_contacts (fold (\<lambda>c. chatAddContact pe c True) others s) \<noteq> []" for s
    by (cases others rule: rev_cases) (auto simp: add_occupied)
  then have "occupied (newChatSession pe user others protocol f url)"
    by (auto simp: occupied_def newChatSession_def Let_def session_simps split: option.split)
  then show ?thesis by (simp add: consistent_new)
qed

text \<open>Removing contacts never leaves a session without a member; only the destruction of its last
  contact does, and then the session is to be deleted.\<close>

theorem session_keeps_a_member:
  assumes "others \<noteq> []" "cs_contacts (runMembers pe ops (newChatSession pe user others protocol f url)) = []"
  shows "cs_deleteLater (runMembers pe ops (newChatSession pe user others protocol f url))"
  using occupied_run [OF occupied_new [OF assms(1)], of pe ops] assms(2) by (auto simp: occupied_def)

subsection \<open>What the session listens to\<close>

definition listens :: "sender \<Rightarrow> receiver \<Rightarrow> session \<Rightarrow> nat" where
  "listens a r s = count_list (cs_connections s) (a, r)"

lemma count_filter_neq: "count_list (filter (\<lambda>x. x \<noteq> y) xs) z = (if z = y then 0 else count_list xs z)"
  by (induction xs) auto

lemma listens_simps [session_simps]:
  "listens a r (raiseEvent e s) = listens a r s"
  "listens a r (connectTo b q s) = listens a r s + (if (a, r) = (b, q) then 1 else 0)"
  "listens a r (disconnectFrom b q s) = (if (a, r) = (b, q) then 0 else listens a r s)"
  "listens a r (deleteLater s) = listens a r s" "listens a r (slotUpdateDisplayName pe s) = listens a r s"
  "listens a r (s\<lparr>cs_contacts := cl\<rparr>) = listens a r s" "listens a r (s\<lparr>cs_isEmpty := bb\<rparr>) = listens a r s"
  "listens a r (s\<lparr>cs_contactStatus := sl\<rparr>) = listens a r s"
  by (simp_all add: listens_def raiseEvent_def connectTo_def disconnectFrom_def deleteLater_def count_filter_neq
      slotUpdateDisplayName_def Let_def split: option.split list.split)

lemma listens_names [session_simps]:
  "r \<noteq> SlotUpdateDisplayName \<Longrightarrow> listens (FromContact a) r (disconnectNames pe c s) = listens (FromContact a) r s"
  by (simp add: disconnectNames_def session_simps split: option.split)

lemma listens_member [session_simps]:
  "listens (FromContact a) SlotOnlineStatusChanged (connectMember pe c s)
     = listens (FromContact a) SlotOnlineStatusChanged s + (if a = c then 1 else 0)"
  "listens (FromContact a) SignalStatusMessageChanged (connectMember pe c s)
     = listens (FromContact a) SignalStatusMessageChanged s + (if a = c then 1 else 0)"
  "listens (FromContact a) SignalOnlineStatusChanged (connectMember pe c s)
     = listens (FromContact a) SignalOnlineStatusChanged s"
  "listens (FromContact a) SlotContactDestroyed (connectMember pe c s)
     = listens (FromContact a) SlotContactDestroyed s + (if a = c then 1 else 0)"
  by (auto simp: connectMember_def Let_def session_simps split: option.split)

text \<open>The session listens to the status of its members, once to each, and to no other contact's but
  its own user's; it hears of the destruction of every member.\<close>

definition attentive :: "contactPtr \<Rightarrow> session \<Rightarrow> bool" where
  "attentive user s \<longleftrightarrow> (\<forall>a. a \<noteq> user \<longrightarrow>
     listens (FromContact a) SlotOnlineStatusChanged s = (if a \<in> set (cs_contacts s) then 1 else 0)
     \<and> (a \<in> set (cs_contacts s) \<longrightarrow> 0 < listens (FromContact a) SlotContactDestroyed s)
     \<and> listens (FromContact a) SignalOnlineStatusChanged s = 0)"

lemma attentive_add: "attentive user s \<Longrightarrow> attentive user (chatAddContact pe c b s)"
proof (cases "c \<in> set (cs_contacts s)")
  case True
  assume "attentive user s"
  with True show ?thesis by (simp add: chatAddContact_def attentive_def listens_def)
next
  case False
  assume att: "attentive user s"
  show ?thesis
  proof (cases "length (cs_contacts s) = 1 \<and> cs_isEmpty s")
    case True
    then obtain old where "cs_contacts s = [old]" by (auto simp: length_Suc_conv)
    with True False att show ?thesis
      by (simp add: chatAddContact_def attentive_def session_simps Let_def)
  next
    case not_kept: False
    then have add: "chatAddContact pe c b s
        = (slotUpdateDisplayName pe (connectMember pe c
             (raiseEvent (ContactAdded c b) (s\<lparr>cs_contacts := cs_contacts s @ [c]\<rparr>))))\<lparr>cs_isEmpty := False\<rparr>"
      using False by (auto simp: chatAddContact_def Let_def)
    from att False show ?thesis
      unfolding add by (simp add: attentive_def session_simps)
  qed
qed

lemma attentive_remove: "attentive user s \<Longrightarrow> attentive user (chatRemoveContact pe c' s)"
proof (cases "\<exists>c. c' = Some c \<and> c \<in> set (cs_contacts s)")
  case True
  then obtain c where c: "c' = Some c" "c \<in> set (cs_contacts s)" by blast
  assume att: "attentive user s"
  show ?thesis
  proof (cases "length (cs_contacts s) = 1")
    case True
    with c att show ?thesis by (simp add: chatRemoveContact_def attentive_def session_simps)
  next
    case False
    with c att show ?thesis
      by (simp add: chatRemoveContact_def attentive_def session_simps Let_def)
  qed
qed (auto simp: chatRemoveContact_def split: option.split)

lemma listens_destroyed:
  "listens (FromContact a) r (chatContactDestroyed c s) = (if a = c then 0 else listens (FromContact a) r s)"
proof -
  have "count_list (filter (\<lambda>(x, r). x \<noteq> FromContact c) xs) (FromContact a, r)
      = (if a = c then 0 else count_list xs (FromContact a, r))" for xs :: "(sender \<times> receiver) list"
    by (induction xs) auto
  then show ?thesis
    by (simp add: chatContactDestroyed_def listens_def Let_def slotContactDestroyed_def slotMyselfDestroyed_def
        raiseEvent_def deleteLater_def)
qed

lemma filter_absent: "c \<notin> set xs \<Longrightarrow> filter (\<lambda>x. x \<noteq> c) xs = xs"
  by (auto intro: filter_True)

lemma contacts_destroyed:
  "cs_contacts (chatContactDestroyed c s)
     = (if 0 < listens (FromContact c) SlotContactDestroyed s then filter (\<lambda>x. x \<noteq> c) (cs_contacts s) else cs_contacts s)"
proof -
  have "0 < listens (FromContact c) SlotContactDestroyed s \<longleftrightarrow> (FromContact c, SlotContactDestroyed) \<in> set (cs_connections s)"
    using count_list_0_iff [of "cs_connections s" "(FromContact c, SlotContactDestroyed)"]
    by (auto simp: listens_def)
  then show ?thesis
    by (auto simp: chatContactDestroyed_def slotContactDestroyed_def slotMyselfDestroyed_def session_simps Let_def
        filter_absent)
qed

lemma attentive_destroy: "attentive user s \<Longrightarrow> attentive user (chatContactDestroyed c s)"
  by (auto simp: attentive_def listens_destroyed contacts_destroyed)

lemma attentive_step: "attentive user s \<Longrightarrow> attentive user (memberStep pe op' s)"
proof (cases op')
  case (AddWithStatus c st b)
  assume "attentive user s"
  then have "attentive user (if c \<in> fst ` set (cs_contactStatus s) then s
      else s\<lparr>cs_contactStatus := (c, st) # cs_contactStatus s\<rparr>)"
    by (simp add: attentive_def listens_def)
  with AddWithStatus show ?thesis by (simp add: addContactWithStatus_def attentive_add)
next
  case (ChangeStatus c st)
  assume "attentive user s"
  with ChangeStatus show ?thesis
    by (simp add: setContactOnlineStatus'_def Let_def attentive_def session_simps)
next
  case (Rename n)
  assume "attentive user s"
  with Rename show ?thesis
    by (simp add: setDisplayName_def attentive_def listens_def raiseEvent_def)
qed (auto intro: attentive_add attentive_remove attentive_destroy)

lemma attentive_run: "attentive user s \<Longrightarrow> attentive user (runMembers pe ops s)"
  unfolding runMembers_def by (induction ops arbitrary: s) (auto intro: attentive_step)

lemma attentive_new: "attentive user (newChatSession pe user others protocol f url)"
proof -
  have "attentive user (fold (\<lambda>c. chatAddContact pe c True) others s)" if "attentive user s" for s
    using that by (induction others arbitrary: s) (auto intro: attentive_add)
  moreover have "attentive user (blankChatSession user others protocol f url)"
    by (simp add: attentive_def listens_def blankChatSession_def)
  ultimately have "attentive user (fold (\<lambda>c. chatAddContact pe c True) others (blankChatSession user others protocol f url))" .
  then show ?thesis
    by (simp add: newChatSession_def Let_def attentive_def session_simps split: option.split)
qed

text \<open>What a change of status does: the slot runs once for each connection.\<close>

lemma heard_events:
  assumes "listens (FromContact c) SlotOnlineStatusChanged s = n" "listens (FromContact c) SignalOnlineStatusChanged s = 0"
  shows "length (filter (\<lambda>e. e = MemberStatusChanged c st old) (cs_events (contactStatusChanged pe c st old s)))
    = length (filter (\<lambda>e. e = MemberStatusChanged c st old) (cs_events s)) + n"
proof -
  have "length (filter (\<lambda>e. e = MemberStatusChanged c st old)
      (cs_events ((slotOnlineStatusChanged pe c st old ^^ n) s)))
    = length (filter (\<lambda>e. e = MemberStatusChanged c st old) (cs_events s)) + n" for n
    by (induction n) (auto simp: slotOnlineStatusChanged_def slotUpdateDisplayName_def raiseEvent_def Let_def)
  with assms show ?thesis by (simp add: contactStatusChanged_def Let_def listens_def)
qed

text \<open>The user of the session is heard once as well, as long as it does not join the chat as a member:
  when a member leaves, all connections to its status are cut.\<close>

fun staysOutside :: "contactPtr \<Rightarrow> memberOp \<Rightarrow> bool" where
  "staysOutside user (Add c b) \<longleftrightarrow> c \<noteq> user"
| "staysOutside user (AddWithStatus c st b) \<longleftrightarrow> c \<noteq> user"
| "staysOutside user (Destroy c) \<longleftrightarrow> c \<noteq> user"
| "staysOutside user _ \<longleftrightarrow> True"

definition outside :: "contactPtr \<Rightarrow> session \<Rightarrow> bool" where
  "outside user s \<longleftrightarrow> user \<notin> set (cs_contacts s) \<and> listens (FromContact user) SignalOnlineStatusChanged s = 0"

abbreviation hearsUser :: "contactPtr \<Rightarrow> session \<Rightarrow> nat" where
  "hearsUser user s \<equiv> listens (FromContact user) SlotOnlineStatusChanged s"

lemma outside_add:
  assumes "outside user s" "c \<noteq> user"
  shows "outside user (chatAddContact pe c b s) \<and> hearsUser user (chatAddContact pe c b s) = hearsUser user s"
proof (cases "c \<in> set (cs_contacts s)")
  case True
  then have "chatAddContact pe c b s = s\<lparr>cs_isEmpty := False\<rparr>" by (simp add: chatAddContact_def)
  with assms(1) show ?thesis by (simp add: outside_def session_simps)
next
  case False
  show ?thesis
  proof (cases "length (cs_contacts s) = 1 \<and> cs_isEmpty s")
    case True
    then obtain old where "cs_contacts s = [old]" by (auto simp: length_Suc_conv)
    with True False assms show ?thesis
      by (auto simp: chatAddContact_def outside_def session_simps Let_def)
  next
    case not_kept: False
    then have add: "chatAddContact pe c b s
        = (slotUpdateDisplayName pe (connectMember pe c
             (raiseEvent (ContactAdded c b) (s\<lparr>cs_contacts := cs_contacts s @ [c]\<rparr>))))\<lparr>cs_isEmpty := False\<rparr>"
      using False by (auto simp: chatAddContact_def Let_def)
    from assms show ?thesis unfolding add by (simp add: outside_def session_simps)
  qed
qed

lemma outside_remove:
  assumes "outside user s"
  shows "outside user (chatRemoveContact pe c' s) \<and> hearsUser user (chatRemoveContact pe c' s) = hearsUser user s"
proof (cases "\<exists>c. c' = Some c \<and> c \<in> set (cs_contacts s)")
  case True
  then obtain c where c: "c' = Some c" "c \<in> set (cs_contacts s)" by blast
  then have "c \<noteq> user" using assms by (auto simp: outside_def)
  with c assms show ?thesis
    by (cases "length (cs_contacts s) = 1") (simp_all add: chatRemoveContact_def outside_def session_simps Let_def)
qed (use assms in \<open>auto simp: chatRemoveContact_def split: option.split\<close>)

lemma outside_step:
  assumes "outside user s" "staysOutside user m"
  shows "outside user (memberStep pe m s) \<and> hearsUser user (memberStep pe m s) = hearsUser user s"
proof (cases m)
  case (AddWithStatus c st b)
  let ?s = "if c \<in> fst ` set (cs_contactStatus s) then s else s\<lparr>cs_contactStatus := (c, st) # cs_contactStatus s\<rparr>"
  have "outside user ?s" "hearsUser user ?s = hearsUser user s" using assms(1) by (simp_all add: outside_def session_simps)
  with outside_add [of user ?s c pe b] AddWithStatus assms(2) show ?thesis by (simp add: addContactWithStatus_def)
next
  case (Destroy c)
  with assms show ?thesis by (auto simp: outside_def listens_destroyed contacts_destroyed)
next
  case (ChangeStatus c st)
  with assms(1) show ?thesis by (simp add: setContactOnlineStatus'_def Let_def outside_def session_simps)
next
  case (Rename n)
  with assms(1) show ?thesis by (simp add: setDisplayName_def outside_def listens_def raiseEvent_def)
qed (use assms in \<open>simp_all add: outside_add outside_remove\<close>)

lemma outside_run:
  "outside user s \<Longrightarrow> list_all (staysOutside user) ops \<Longrightarrow>
     outside user (runMembers pe ops s) \<and> hearsUser user (runMembers pe ops s) = hearsUser user s"
  unfolding runMembers_def by (induction ops arbitrary: s) (auto simp: outside_step)

lemma outside_new:
  assumes "user \<notin> set others"
  shows "outside user (newChatSession pe user others protocol f url)
    \<and> hearsUser user (newChatSession pe user others protocol f url) = 1"
proof -
  let ?s = "fold (\<lambda>c. chatAddContact pe c True) others (blankChatSession user others protocol f url)"
  have "outside user (fold (\<lambda>c. chatAddContact pe c True) cs s) \<and> hearsUser user (fold (\<lambda>c. chatAddContact pe c True) cs s) = hearsUser user s"
    if "outside user s" "user \<notin> set cs" for cs s
    using that by (induction cs arbitrary: s) (auto simp: outside_add)
  from this [OF _ assms] have "outside user ?s \<and> hearsUser user ?s = 0"
    by (simp add: outside_def listens_def blankChatSession_def)
  then show ?thesis by (simp add: newChatSession_def Let_def outside_def session_simps split: option.split)
qed

text \<open>
  C14: in every run, the session passes a change of the status of a contact on exactly once if the
  contact is a member or the user of the session, and not at all if it is neither.  The user must
  not have been a member itself, and still exist, for its own status to be heard.
\<close>

theorem status_heard_once:
  assumes "s = runMembers pe ops (newChatSession pe user others protocol f url)"
    "c = user \<longrightarrow> user \<notin> set others \<and> list_all (staysOutside user) ops"
  shows "length (filter (\<lambda>e. e = MemberStatusChanged c st old) (cs_events (contactStatusChanged pe c st old s)))
    = length (filter (\<lambda>e. e = MemberStatusChanged c st old) (cs_events s))
      + (if c \<in> set (cs_contacts s) \<or> c = user then 1 else 0)"
proof (rule heard_events)
  have "listens (FromContact c) SlotOnlineStatusChanged s = (if c \<in> set (cs_contacts s) \<or> c = user then 1 else 0)
      \<and> listens (FromContact c) SignalOnlineStatusChanged s = 0"
  proof (cases "c = user")
    case True
    with assms outside_run [OF conjunct1 [OF outside_new [of user others pe protocol f url]], of ops pe]
      outside_new [of user others pe protocol f url]
    show ?thesis by (simp add: outside_def)
  next
    case False
    have "attentive user s" unfolding assms(1) by (intro attentive_run attentive_new)
    with False show ?thesis by (simp add: attentive_def)
  qed
  then show "listens (FromContact c) SlotOnlineStatusChanged s = (if c \<in> set (cs_contacts s) \<or> c = user then 1 else 0)"
    "listens (FromContact c) SignalOnlineStatusChanged s = 0" by simp_all
qed

text \<open>A status the session has of its own for a member does not silence that member: when the
  contact changes its status, the session still passes the new status on, while it answers its own.\<close>

theorem own_status_does_not_silence:
  assumes "c \<noteq> user" "s = runMembers pe ops (newChatSession pe user others protocol f url)" "c \<in> set (cs_contacts s)"
  shows "let s' = contactStatusChanged pe c st old (setContactOnlineStatus' c own s)
    in MemberStatusChanged c st old \<in> set (cs_events s') \<and> contactOnlineStatus pe c (setContactOnlineStatus' c own s) = own"
proof -
  let ?s = "setContactOnlineStatus' c own s"
  have att: "attentive user s" unfolding assms(2) by (intro attentive_run attentive_new)
  then have "attentive user ?s" using attentive_step [of user s pe "ChangeStatus c own"] by simp
  moreover have "cs_contacts ?s = cs_contacts s" by (simp add: setContactOnlineStatus'_def Let_def session_simps)
  ultimately have "listens (FromContact c) SlotOnlineStatusChanged ?s = 1" "listens (FromContact c) SignalOnlineStatusChanged ?s = 0"
    using assms(1,3) by (simp_all add: attentive_def)
  from heard_events [OF this, of st old pe]
  have "filter (\<lambda>e. e = MemberStatusChanged c st old) (cs_events (contactStatusChanged pe c st old ?s)) \<noteq> []" by auto
  then have "MemberStatusChanged c st old \<in> set (cs_events (contactStatusChanged pe c st old ?s))"
    by (auto simp: filter_empty_conv)
  moreover have "contactOnlineStatus pe c ?s = own"
    by (simp add: contactOnlineStatus_def setContactOnlineStatus'_def Let_def raiseEvent_def disconnectFrom_def)
  ultimately show ?thesis by (simp add: Let_def)
qed

text \<open>A member that leaves a chat of several and comes back is heard twice: its status messages are
  passed on once more for each time it was removed.\<close>

theorem status_message_heard_again:
  assumes "c \<in> set (cs_contacts s)" "length (cs_contacts s) \<noteq> 1" "\<not> cs_isEmpty s"
  shows "listens (FromContact c) SignalStatusMessageChanged (chatAddContact pe c b (chatRemoveContact pe (Some c) s))
    = Suc (listens (FromContact c) SignalStatusMessageChanged s)"
  using assms by (simp add: chatRemoveContact_def chatAddContact_def session_simps Let_def)

subsection \<open>A chat\<close>

definition samplePeople :: people where
  "samplePeople =
     \<lparr>pe_objects = sampleObjects, pe_metaName = (\<lambda>mc. qstr ''Meta''), pe_accountLabel = (\<lambda>a. qstr ''account'')\<rparr>"

definition sampleChat :: session where
  "sampleChat = newChatSession samplePeople 1 [2, 3] 0 Small []"

lemma sampleChat_fields [simp]: "cs_contacts sampleChat = [2, 3]" "\<not> cs_isEmpty sampleChat"
  by (simp_all add: sampleChat_def newChatSession_def blankChatSession_def chatAddContact_def session_simps Let_def split: option.split)

theorem returning_member_unannounced_witness:
  "let s = chatRemoveContact samplePeople (Some 3) sampleChat;
       s' = chatAddContact samplePeople 2 False (chatRemoveContact samplePeople (Some 2) s)
   in cs_contacts s' = [2] \<and> \<not> cs_isEmpty s' \<and> cs_events s' = cs_events s @ [ContactRemoved 2]"
proof -
  have "cs_contacts (chatRemoveContact samplePeople (Some 3) sampleChat) = [2]"
    by (simp add: chatRemoveContact_def session_simps Let_def)
  from returning_member_unannounced [OF this, of samplePeople False] show ?thesis by (simp add: Let_def)
qed

theorem session_keeps_a_member_witness:
  "cs_deleteLater (runMembers samplePeople [Destroy 2] (newChatSession samplePeople 1 [2] 0 Small []))"
proof (rule session_keeps_a_member)
  let ?s = "newChatSession samplePeople 1 [2] 0 Small []"
  have c: "cs_contacts ?s = [2]"
    by (simp add: newChatSession_def blankChatSession_def chatAddContact_def session_simps Let_def split: option.split)
  have "0 < listens (FromContact 2) SlotContactDestroyed ?s"
    using attentive_new [of 1 samplePeople "[2]" 0 Small "[]"] c unfolding attentive_def
    by (auto dest!: spec [of _ 2])
  with c show "cs_contacts (runMembers samplePeople [Destroy 2] ?s) = []"
    by (simp add: runMembers_def contacts_destroyed)
qed simp

theorem status_heard_once_witness:
  "length (filter (\<lambda>e. e = MemberStatusChanged 1 emptyStatus emptyStatus)
      (cs_events (contactStatusChanged samplePeople 1 emptyStatus emptyStatus (runMembers samplePeople [Remove (Some 2)] sampleChat))))
   = length (filter (\<lambda>e. e = MemberStatusChanged 1 emptyStatus emptyStatus)
      (cs_events (runMembers samplePeople [Remove (Some 2)] sampleChat))) + 1"
proof -
  have "runMembers samplePeople [Remove (Some 2)] sampleChat
      = runMembers samplePeople [Remove (Some 2)] (newChatSession samplePeople 1 [2, 3] 0 Small [])"
    by (simp add: sampleChat_def)
  from status_heard_once [OF this, of 1 emptyStatus emptyStatus] show ?thesis by simp
qed

theorem own_status_does_not_silence_witness:
  "let s = runMembers samplePeople [] sampleChat;
       s' = contactStatusChanged samplePeople 2 emptyStatus emptyStatus (setContactOnlineStatus' 2 awayOnly s)
   in MemberStatusChanged 2 emptyStatus emptyStatus \<in> set (cs_events s')
     \<and> contactOnlineStatus samplePeople 2 (setContactOnlineStatus' 2 awayOnly s) = awayOnly"
proof -
  have "2 \<in> set (cs_contacts (runMembers samplePeople [] sampleChat))" by (simp add: runMembers_def)
  from own_status_does_not_silence [where user = 1, OF _ _ this, unfolded sampleChat_def, OF _ refl]
  show ?thesis unfolding sampleChat_def by simp
qed

theorem status_message_heard_again_witness:
  "listens (FromContact 2) SignalStatusMessageChanged
     (chatAddContact samplePeople 2 True (chatRemoveContact samplePeople (Some 2) sampleChat))
   = Suc (listens (FromContact 2) SignalStatusMessageChanged sampleChat)"
  by (rule status_message_heard_again) simp_all

end
