(* ===== verification/Kopete_ChatDelivery.thy ===== *)
theory Kopete_ChatDelivery
  imports Kopete_ChatSession
begin

text \<open>
  The messages of a chat session (\<^verbatim>\<open>kopetechatsession.cpp\<close>, \<^verbatim>\<open>kopetemessagehandlerchain.cpp\<close>): appending
  a message, the chains a session keeps, the tasks that send messages down them and hold a
  reference to the session, and the deletion of the session by the event loop.  The last part is the
  registry of sessions (\<^verbatim>\<open>kopetechatsessionmanager.cpp\<close>).

  A task starts when the event loop gets to it; \<open>NotStarted\<close> and \<open>Kept\<close> are the two states in which
  it waits.  Regular expressions, the settings and the folder of the links are arguments.
\<close>

subsection \<open>State\<close>

datatype 'd chatTask = NotStarted "'d messageHandler list" "'d message" | Kept "'d messageHandler list" "'d message"

text \<open>\<open>ch_others\<close> counts the references of other code; \<open>ch_alive\<close> says that the session exists.\<close>

record 'd chat =
  ch_session :: session
  ch_alive :: bool
  ch_chains :: "direction \<Rightarrow> 'd messageHandler list option"
  ch_factories :: "'d factory list"
  ch_tasks :: "'d chatTask list"
  ch_received :: "'d message list"
  ch_shown :: "'d message list"
  ch_discarded :: "'d message list"
  ch_others :: nat
  ch_urlFiles :: "(qstring \<times> qstring list) list"

record 'd chatEnv =
  en_people :: people
  en_rt :: "'d richText"
  en_self :: nat
  en_highlightEnabled :: bool
  en_rxEscape :: "qstring \<Rightarrow> qstring"
  en_rxContains :: "qstring \<Rightarrow> qstring \<Rightarrow> bool"
  en_rxIndexIn :: "qstring \<Rightarrow> qstring \<Rightarrow> nat \<Rightarrow> (nat \<times> nat) option"
  en_folder :: qstring

abbreviation with_session :: "(session \<Rightarrow> session) \<Rightarrow> 'd chat \<Rightarrow> 'd chat" where
  "with_session f c \<equiv> c\<lparr>ch_session := f (ch_session c)\<rparr>"

subsection \<open>Links in a message\<close>

text \<open>
  The matches of one pattern, from \<open>pos\<close> on, entered into the map by their positions.  An empty
  match would be found again for ever, which is \<open>None\<close>; matches before \<open>pos\<close> or past the end of the
  text do not occur.
\<close>

function urlMatches :: "(nat \<Rightarrow> (nat \<times> nat) option) \<Rightarrow> qstring \<Rightarrow> nat \<Rightarrow> (nat \<times> qstring) list \<Rightarrow> (nat \<times> qstring) list option" where
  "urlMatches indexIn s pos mapUrl =
     (case indexIn pos of
        None \<Rightarrow> Some mapUrl
      | Some (p, n) \<Rightarrow>
          if n = 0 \<or> p < pos \<or> length s < p + n then None
          else urlMatches indexIn s (p + n) (qmapSet p (take n (drop p s)) mapUrl))"
  by pat_completeness auto
termination
  by (relation "measure (\<lambda>(indexIn, s, pos, mapUrl). Suc (length s) - pos)") auto

declare urlMatches.simps [simp del]

fun urlPatterns :: "'d chatEnv \<Rightarrow> qstring \<Rightarrow> qstring list \<Rightarrow> (nat \<times> qstring) list \<Rightarrow> (nat \<times> qstring) list option" where
  "urlPatterns en s [] mapUrl = Some mapUrl"
| "urlPatterns en s (pat # pats) mapUrl =
     Option.bind (urlMatches (en_rxIndexIn en pat s) s 0 mapUrl) (urlPatterns en s pats)"

definition findUrls :: "'d chatEnv \<Rightarrow> 'd message \<Rightarrow> qstring list option" where
  "findUrls en msg =
     map_option
       (\<lambda>mapUrl. map (\<lambda>(p, u). rt_rxReplace (en_rt en) (regexpPatterns ! 1) (rx ''`1http://`2`3'') (qreplace [0x20] [] u)) mapUrl)
       (urlPatterns en (plainBody (en_rt en) msg) regexpPatterns [])"

definition urlSearch :: "'d chatEnv \<Rightarrow> 'd message \<Rightarrow> 'd chat \<Rightarrow> 'd chat option" where
  "urlSearch en msg c =
     (case findUrls en msg of
        None \<Rightarrow> None
      | Some [] \<Rightarrow> Some c
      | Some lasturls \<Rightarrow>
          (case cs_contacts (ch_session c) of
             [] \<Rightarrow> None
           | p # ps \<Rightarrow> Some (with_session (setLastUrl (last lasturls)) c
               \<lparr>ch_urlFiles := ch_urlFiles c @ [(getUrlsFileName (en_people en) (en_folder en) p, lasturls)]\<rparr>)))"

subsection \<open>Appending a message\<close>

definition clearChains :: "'d chat \<Rightarrow> 'd chat" where
  "clearChains c = c\<lparr>ch_chains := (\<lambda>dir. None)\<rparr>"

text \<open>The factory of the session is registered while the chain is built, and erased again.\<close>

definition buildChain :: "'d chatEnv \<Rightarrow> direction \<Rightarrow> 'd factory list \<Rightarrow> 'd messageHandler list" where
  "buildChain en dir factories = createChain (en_self en) dir (registerFactory (tempFactory 0) factories)"

definition chainForDirection :: "'d chatEnv \<Rightarrow> direction \<Rightarrow> 'd chat \<Rightarrow> 'd messageHandler list \<times> 'd chat" where
  "chainForDirection en dir c =
     (case ch_chains c dir of
        Some hs \<Rightarrow> (hs, c)
      | None \<Rightarrow> let hs = buildChain en dir (ch_factories c) in (hs, c\<lparr>ch_chains := (ch_chains c)(dir := Some hs)\<rparr>))"

definition chainDirection :: "direction \<Rightarrow> direction" where
  "chainDirection dir = (if dir = Outbound then Inbound else dir)"

text \<open>The nickname of the user in an incoming message makes it important; \<open>None\<close>: there is no user.\<close>

definition highlighted :: "'d chatEnv \<Rightarrow> 'd message \<Rightarrow> 'd chat \<Rightarrow> 'd message option" where
  "highlighted en msg c =
     (if m_direction msg \<noteq> Inbound then Some msg
      else (case cs_user (ch_session c) of
              None \<Rightarrow> None
            | Some user \<Rightarrow>
                let ob = pe_objects (en_people en);
                    nick = contactDisplayName ob (ob_contact ob user);
                    pattern = qarg (rx ''(^|[`W])(%1)([`W]|$)'') (en_rxEscape en nick)
                in Some (if en_highlightEnabled en \<and> nick \<noteq> [] \<and> en_rxContains en pattern (plainBody (en_rt en) msg)
                         then setImportance Highlight msg else msg)))"

text \<open>\<^verbatim>\<open>processMessage\<close> of a chain: the task takes a reference to the session of the message.\<close>

definition processMessage' :: "'d messageHandler list \<Rightarrow> 'd message \<Rightarrow> 'd chat \<Rightarrow> 'd chat" where
  "processMessage' hs msg c = with_session ref c\<lparr>ch_tasks := ch_tasks c @ [NotStarted hs msg]\<rparr>"

definition appendMessage :: "'d chatEnv \<Rightarrow> 'd message \<Rightarrow> 'd chat \<Rightarrow> 'd chat option" where
  "appendMessage en msg c =
     (case highlighted en (setManager (Some (en_self en)) msg) c of
        None \<Rightarrow> None
      | Some msg \<Rightarrow>
          let c = (if m_direction msg = Inbound then c\<lparr>ch_received := ch_received c @ [msg]\<rparr> else c);
              (hs, c) = chainForDirection en (chainDirection (m_direction msg)) c
          in urlSearch en msg (processMessage' hs msg c))"

subsection \<open>Tasks\<close>

text \<open>\<open>without i xs\<close>: the list without its entry at the position.\<close>

definition without :: "nat \<Rightarrow> 'a list \<Rightarrow> 'a list" where
  "without i xs = take i xs @ drop (Suc i) xs"

text \<open>\<^verbatim>\<open>slotDone\<close>, when the event is deleted: a session that still exists loses the reference.\<close>

definition slotDone :: "'d chat \<Rightarrow> 'd chat" where
  "slotDone c = (if ch_alive c then with_session deref c else c)"

fun recordSignal :: "'d chainSignal option \<Rightarrow> 'd chat \<Rightarrow> 'd chat" where
  "recordSignal None c = c"
| "recordSignal (Some (MessageAppended m)) c = c\<lparr>ch_shown := ch_shown c @ [m]\<rparr>"
| "recordSignal (Some (EventDiscarded m)) c = c\<lparr>ch_discarded := ch_discarded c @ [m]\<rparr>"

definition progressTask :: "nat \<Rightarrow> 'd progress \<Rightarrow> 'd chat \<Rightarrow> 'd chat option" where
  "progressTask i p c =
     (case p of
        Crashed \<Rightarrow> None
      | Waiting hs m \<Rightarrow> Some (c\<lparr>ch_tasks := (ch_tasks c)[i := Kept hs m]\<rparr>)
      | Done s \<Rightarrow> Some (slotDone (recordSignal s (c\<lparr>ch_tasks := without i (ch_tasks c)\<rparr>))))"

definition startTask :: "nat \<Rightarrow> 'd chat \<Rightarrow> 'd chat option" where
  "startTask i c =
     (if i < length (ch_tasks c)
      then (case ch_tasks c ! i of
              NotStarted hs m \<Rightarrow> progressTask i (handleMessageInternal (ch_alive c) hs m) c
            | Kept hs m \<Rightarrow> Some c)
      else Some c)"

definition acceptTask :: "nat \<Rightarrow> 'd chat \<Rightarrow> 'd chat option" where
  "acceptTask i c =
     (if i < length (ch_tasks c)
      then (case ch_tasks c ! i of
              NotStarted hs m \<Rightarrow> Some c
            | Kept hs m \<Rightarrow> progressTask i (acceptEvent (ch_alive c) (Waiting hs m)) c)
      else Some c)"

definition discardTask :: "nat \<Rightarrow> 'd chat \<Rightarrow> 'd chat option" where
  "discardTask i c =
     (if i < length (ch_tasks c)
      then (case ch_tasks c ! i of
              NotStarted hs m \<Rightarrow> Some c
            | Kept hs m \<Rightarrow> progressTask i (discardEvent (Waiting hs m)) c)
      else Some c)"

text \<open>
  An event listens to the destruction of the sender of its message and is then discarded, started or
  not.  The sender of a message is not set after its construction, so it is that of the message as
  the handlers have left it.
\<close>

primrec taskMessage :: "'d chatTask \<Rightarrow> 'd message" where
  "taskMessage (NotStarted hs m) = m"
| "taskMessage (Kept hs m) = m"

definition sentBy :: "contactPtr \<Rightarrow> 'd chatTask \<Rightarrow> bool" where
  "sentBy p t \<longleftrightarrow> m_from (taskMessage t) = Some p"

definition eventDiscarded :: "'d chatTask \<Rightarrow> 'd chat \<Rightarrow> 'd chat" where
  "eventDiscarded t c = slotDone (recordSignal (Some (EventDiscarded (taskMessage t))) c)"

definition senderDestroyed :: "contactPtr \<Rightarrow> 'd chat \<Rightarrow> 'd chat" where
  "senderDestroyed p c =
     fold eventDiscarded (filter (sentBy p) (ch_tasks c))
       (c\<lparr>ch_tasks := filter (\<lambda>t. \<not> sentBy p t) (ch_tasks c)\<rparr>)"

text \<open>The event loop deletes a session that asked for it.\<close>

definition deleteSession :: "'d chat \<Rightarrow> 'd chat" where
  "deleteSession c = (if cs_deleteLater (ch_session c) then c\<lparr>ch_alive := False\<rparr> else c)"

subsection \<open>What can happen to a chat\<close>

definition newChat :: "session \<Rightarrow> 'd factory list \<Rightarrow> 'd chat" where
  "newChat s factories =
     \<lparr>ch_session = s, ch_alive = True, ch_chains = (\<lambda>dir. None), ch_factories = factories, ch_tasks = [],
      ch_received = [], ch_shown = [], ch_discarded = [], ch_others = 0, ch_urlFiles = []\<rparr>"

text \<open>
  A plugin registers and erases its factories and the session then clears its chains.  The destruction
  of a contact is a step of the events it has sent and a step of the session, in the order in which they
  were connected to it.
\<close>

inductive chat_step :: "'d chatEnv \<Rightarrow> 'd chat \<Rightarrow> 'd chat \<Rightarrow> bool" for en where
  appends: "ch_alive c \<Longrightarrow> appendMessage en m c = Some c' \<Longrightarrow> chat_step en c c'"
| starts: "startTask i c = Some c' \<Longrightarrow> chat_step en c c'"
| accepts: "acceptTask i c = Some c' \<Longrightarrow> chat_step en c c'"
| discards: "discardTask i c = Some c' \<Longrightarrow> chat_step en c c'"
| senders: "chat_step en c (senderDestroyed p c)"
| members: "ch_alive c \<Longrightarrow> chat_step en c (with_session (memberStep (en_people en) m) c)"
| opens: "ch_alive c \<Longrightarrow> chat_step en c (with_session (\<lambda>s. snd (view True made s)) c)"
| closes: "ch_alive c \<Longrightarrow> cs_view (ch_session c) \<noteq> None \<Longrightarrow> chat_step en c (with_session slotViewDestroyed c)"
| allows: "ch_alive c \<Longrightarrow> chat_step en c (with_session (setCanBeDeleted b) c)"
| takes: "ch_alive c \<Longrightarrow> chat_step en c (with_session ref c\<lparr>ch_others := Suc (ch_others c)\<rparr>)"
| returns: "ch_alive c \<Longrightarrow> ch_others c = Suc n \<Longrightarrow> chat_step en c (with_session deref c\<lparr>ch_others := n\<rparr>)"
| plugins: "ch_alive c \<Longrightarrow> chat_step en c (clearChains (c\<lparr>ch_factories := fs\<rparr>))"
| deletes: "chat_step en c (deleteSession c)"

inductive chat_run :: "'d chatEnv \<Rightarrow> 'd chat \<Rightarrow> 'd chat \<Rightarrow> bool" for en c0 where
  idle: "chat_run en c0 c0"
| more: "chat_run en c0 c \<Longrightarrow> chat_step en c c' \<Longrightarrow> chat_run en c0 c'"

inductive_cases chat_stepE: "chat_step en c c'"

lemma refcount_simps [session_simps]:
  "cs_refcount (raiseEvent e s) = cs_refcount s"
  "cs_refcount (connectTo a r s) = cs_refcount s" "cs_refcount (disconnectFrom a r s) = cs_refcount s"
  "cs_refcount (deleteLater s) = cs_refcount s" "cs_refcount (slotUpdateDisplayName pe s) = cs_refcount s"
  "cs_refcount (disconnectNames pe c s) = cs_refcount s" "cs_refcount (connectMember pe c s) = cs_refcount s"
  by (simp_all add: raiseEvent_def connectTo_def disconnectFrom_def deleteLater_def slotUpdateDisplayName_def
      disconnectNames_def connectMember_def Let_def split: option.split list.split)

lemma refcount_add: "cs_refcount (chatAddContact pe c b s) = cs_refcount s"
  by (simp add: chatAddContact_def session_simps Let_def)

lemma refcount_member: "cs_refcount (memberStep pe m s) = cs_refcount s"
  by (cases m)
    (auto simp: refcount_add addContactWithStatus_def chatRemoveContact_def chatContactDestroyed_def slotContactDestroyed_def
      slotMyselfDestroyed_def setContactOnlineStatus'_def setDisplayName_def session_simps Let_def split: option.split)

lemma refcount_others [session_simps]:
  "cs_refcount (ref s) = cs_refcount s + 1" "cs_refcount (deref s) = cs_refcount s - 1"
  "cs_refcount (setCanBeDeleted b s) = cs_refcount s" "cs_refcount (slotViewDestroyed s) = cs_refcount s"
  "cs_refcount (snd (view b made s)) = cs_refcount s" "cs_refcount (setLastUrl u s) = cs_refcount s"
  by (simp_all add: ref_def deref_def setCanBeDeleted_def slotViewDestroyed_def view_def setLastUrl_def
      deleteLater_def Let_def)

text \<open>The reference count of a session that exists is the number of its tasks and of the references of
  others, modulo the width of the counter; the chains it keeps are the ones it would build.\<close>

definition accounted :: "'d chatEnv \<Rightarrow> 'd chat \<Rightarrow> bool" where
  "accounted en c \<longleftrightarrow>
     (ch_alive c \<longrightarrow> cs_refcount (ch_session c) = of_nat (length (ch_tasks c) + ch_others c))
     \<and> (\<forall>dir hs. ch_chains c dir = Some hs \<longrightarrow> hs = buildChain en dir (ch_factories c))"

lemma urlSearch_frame:
  "urlSearch en m c = Some c' \<Longrightarrow>
     ch_alive c' = ch_alive c \<and> cs_refcount (ch_session c') = cs_refcount (ch_session c) \<and> ch_tasks c' = ch_tasks c
     \<and> ch_others c' = ch_others c \<and> ch_chains c' = ch_chains c \<and> ch_factories c' = ch_factories c
     \<and> ch_shown c' = ch_shown c \<and> ch_discarded c' = ch_discarded c
     \<and> cs_deleteLater (ch_session c') = cs_deleteLater (ch_session c)"
  by (auto simp: urlSearch_def setLastUrl_def split: option.splits list.splits)

lemma chainForDirection_fresh:
  assumes "accounted en c" "chainForDirection en dir c = (hs, c')"
  shows "hs = buildChain en dir (ch_factories c)" "accounted en c'"
    "c' = c\<lparr>ch_chains := (ch_chains c)(dir := Some hs)\<rparr> \<or> c' = c"
  using assms by (auto simp: chainForDirection_def accounted_def Let_def split: option.splits if_splits)

lemma length_without: "i < length xs \<Longrightarrow> length xs = Suc (length (without i xs))"
  by (simp add: without_def)

lemma accounted_process: "accounted en c \<Longrightarrow> accounted en (processMessage' hs m c)"
  by (simp add: accounted_def processMessage'_def session_simps)

lemma accounted_append:
  assumes "accounted en c" "appendMessage en m c = Some c'"
  shows "accounted en c'"
proof -
  obtain m' where m': "highlighted en (setManager (Some (en_self en)) m) c = Some m'"
    using assms(2) by (auto simp: appendMessage_def split: option.splits)
  let ?c = "if m_direction m' = Inbound then c\<lparr>ch_received := ch_received c @ [m']\<rparr> else c"
  obtain hs c1 where c1: "chainForDirection en (chainDirection (m_direction m')) ?c = (hs, c1)" by fastforce
  have "accounted en ?c" using assms(1) by (simp add: accounted_def)
  then have "accounted en (processMessage' hs m' c1)"
    using chainForDirection_fresh(2) [OF _ c1] by (intro accounted_process)
  moreover have "urlSearch en m' (processMessage' hs m' c1) = Some c'"
    using assms(2) m' c1 by (simp add: appendMessage_def Let_def)
  ultimately show ?thesis using urlSearch_frame by (fastforce simp: accounted_def)
qed

lemma accounted_progress:
  assumes "accounted en c" "progressTask i p c = Some c'" "i < length (ch_tasks c)"
  shows "accounted en c'"
proof (cases p)
  case (Done s)
  let ?c = "recordSignal s (c\<lparr>ch_tasks := without i (ch_tasks c)\<rparr>)"
  have f: "ch_alive ?c = ch_alive c" "ch_session ?c = ch_session c" "ch_tasks ?c = without i (ch_tasks c)"
    "ch_others ?c = ch_others c" "ch_chains ?c = ch_chains c" "ch_factories ?c = ch_factories c"
    by (cases "(s, c)" rule: recordSignal.cases; simp)+
  have "c' = slotDone ?c" using assms(2) Done by (simp add: progressTask_def)
  with assms(1) length_without [OF assms(3)] f show ?thesis
    by (auto simp: accounted_def slotDone_def session_simps)
qed (use assms in \<open>auto simp: progressTask_def accounted_def\<close>)

lemma accounted_tasks:
  assumes "accounted en c" "startTask i c = Some c' \<or> acceptTask i c = Some c' \<or> discardTask i c = Some c'"
  shows "accounted en c'"
  using assms
  by (auto simp: startTask_def acceptTask_def discardTask_def split: if_splits chatTask.splits
      intro: accounted_progress)

lemma eventDiscarded_simps [simp]:
  "ch_alive (eventDiscarded t c) = ch_alive c" "ch_tasks (eventDiscarded t c) = ch_tasks c"
  "ch_others (eventDiscarded t c) = ch_others c" "ch_chains (eventDiscarded t c) = ch_chains c"
  "ch_factories (eventDiscarded t c) = ch_factories c" "ch_shown (eventDiscarded t c) = ch_shown c"
  "ch_discarded (eventDiscarded t c) = ch_discarded c @ [taskMessage t]"
  "cs_refcount (ch_session (eventDiscarded t c)) = cs_refcount (ch_session c) - (if ch_alive c then 1 else 0)"
  by (simp_all add: eventDiscarded_def slotDone_def session_simps)

lemma fold_eventDiscarded [simp]:
  "ch_alive (fold eventDiscarded ts c) = ch_alive c" "ch_tasks (fold eventDiscarded ts c) = ch_tasks c"
  "ch_others (fold eventDiscarded ts c) = ch_others c" "ch_chains (fold eventDiscarded ts c) = ch_chains c"
  "ch_factories (fold eventDiscarded ts c) = ch_factories c" "ch_shown (fold eventDiscarded ts c) = ch_shown c"
  "ch_discarded (fold eventDiscarded ts c) = ch_discarded c @ map taskMessage ts"
  "cs_refcount (ch_session (fold eventDiscarded ts c))
     = cs_refcount (ch_session c) - (if ch_alive c then of_nat (length ts) else 0)"
  by (induction ts arbitrary: c) simp_all

lemma accounted_senders: "accounted en c \<Longrightarrow> accounted en (senderDestroyed p c)"
proof -
  have "length (filter (sentBy p) ts) + length (filter (\<lambda>t. \<not> sentBy p t) ts) = length ts" for ts :: "'a chatTask list"
    by (rule sum_length_filter_compl)
  then have "(of_nat (length (ch_tasks c)) :: u32)
      = of_nat (length (filter (sentBy p) (ch_tasks c))) + of_nat (length (filter (\<lambda>t. \<not> sentBy p t) (ch_tasks c)))"
    by (metis of_nat_add)
  then show "accounted en c \<Longrightarrow> ?thesis" by (simp add: accounted_def senderDestroyed_def)
qed

lemma accounted_step: "chat_step en c c' \<Longrightarrow> accounted en c \<Longrightarrow> accounted en c'"
proof (induction rule: chat_step.induct)
  case (appends c m c')
  then show ?case by (blast intro: accounted_append)
next
  case (starts i c c')
  then show ?case by (blast intro: accounted_tasks)
next
  case (accepts i c c')
  then show ?case by (blast intro: accounted_tasks)
next
  case (discards i c c')
  then show ?case by (blast intro: accounted_tasks)
next
  case (senders c p)
  then show ?case by (rule accounted_senders)
qed (auto simp: accounted_def session_simps refcount_member clearChains_def deleteSession_def)

lemma accounted_run: "chat_run en c0 c \<Longrightarrow> accounted en c0 \<Longrightarrow> accounted en c"
  by (induction rule: chat_run.induct) (auto intro: accounted_step)

lemma accounted_new: "cs_refcount s = 0 \<Longrightarrow> accounted en (newChat s fs)"
  by (simp add: newChat_def accounted_def)

lemma refcount_fold: "cs_refcount (fold (\<lambda>c. chatAddContact pe c True) others s) = cs_refcount s"
  by (induction others arbitrary: s) (auto simp: refcount_add)

lemma refcount_new: "cs_refcount (newChatSession pe user others protocol f url) = 0"
  by (simp add: newChatSession_def Let_def session_simps refcount_fold split: option.split)
    (simp add: blankChatSession_def)

text \<open>C7: in every reachable state of a chat that exists, the reference count is the number of messages on
  their way through its chains and of references held elsewhere, and the chains it keeps are the
  ones of the factories registered now.\<close>

theorem references_counted:
  assumes "chat_run en (newChat (newChatSession (en_people en) user others protocol f url) fs) c" "ch_alive c"
  shows "cs_refcount (ch_session c) = of_nat (length (ch_tasks c) + ch_others c)
    \<and> (\<forall>dir hs. ch_chains c dir = Some hs \<longrightarrow> hs = buildChain en dir (ch_factories c))"
  using accounted_run [OF assms(1) accounted_new [OF refcount_new]] assms(2) by (simp add: accounted_def)

subsection \<open>Closing the window\<close>

text \<open>C26: closing the window of a chat deletes it exactly if it may be deleted and no message is on its way
  and nobody else holds a reference, as long as there are fewer than two to the thirty-two of them.\<close>

theorem closing_waits_for_messages:
  assumes "chat_run en (newChat (newChatSession (en_people en) user others protocol f url) fs) c" "ch_alive c"
    "length (ch_tasks c) + ch_others c < 4294967296"
  shows "cs_deleteLater (slotViewDestroyed (ch_session c)) \<longleftrightarrow>
    cs_deleteLater (ch_session c) \<or> cs_mCanBeDeleted (ch_session c) \<and> ch_tasks c = [] \<and> ch_others c = 0"
proof -
  let ?n = "length (ch_tasks c) + ch_others c"
  have "cs_refcount (ch_session c) = of_nat ?n"
    using accounted_run [OF assms(1) accounted_new [OF refcount_new]] assms(2) by (simp add: accounted_def)
  moreover have "(of_nat ?n :: u32) < 1 \<longleftrightarrow> ?n = 0"
    unfolding word_less_nat_alt unat_of_nat_u32 [OF assms(3)] by simp
  ultimately show ?thesis
    by (auto simp: slotViewDestroyed_def deleteLater_def Let_def)
qed

subsection \<open>A message on its way\<close>

lemma sort_key_snoc:
  "sort_key f (xs @ [x]) = sort_key f (filter (\<lambda>y. f y \<le> f x) xs) @ x # sort_key f (filter (\<lambda>y. f x < f y) xs)"
  by (simp add: sort_key_around [of f xs x "[]", simplified])

text \<open>The handlers a message passes before the one that shows it.\<close>

definition beforeShown :: "'d chatEnv \<Rightarrow> direction \<Rightarrow> 'd factory list \<Rightarrow> 'd messageHandler list" where
  "beforeShown en dir fs = map snd (sort_key fst (filter (\<lambda>x. fst x \<le> 100000) (created (en_self en) dir fs)))"

lemma created_temp: "created manager dir [tempFactory i] = [(100000, AppendMessageHandler)]"
  by (simp add: created_def tempFactory_def StageDoNotCreate_def)

lemma buildChain_shows: "\<exists>rest. buildChain en dir fs = beforeShown en dir fs @ AppendMessageHandler # rest"
  by (simp add: buildChain_def registerFactory_def createChain_sorted created_append created_temp beforeShown_def
      sort_key_snoc)

lemma appendMessage_queues:
  assumes "accounted en c" "appendMessage en m c = Some c1" "highlighted en (setManager (Some (en_self en)) m) c = Some m'"
  shows "ch_tasks c1 = ch_tasks c @ [NotStarted (buildChain en (chainDirection (m_direction m')) (ch_factories c)) m']
    \<and> ch_alive c1 = ch_alive c \<and> ch_shown c1 = ch_shown c \<and> ch_discarded c1 = ch_discarded c
    \<and> cs_refcount (ch_session c1) = cs_refcount (ch_session c) + 1
    \<and> cs_deleteLater (ch_session c1) = cs_deleteLater (ch_session c)"
proof -
  let ?c = "if m_direction m' = Inbound then c\<lparr>ch_received := ch_received c @ [m']\<rparr> else c"
  obtain hs c2 where c2: "chainForDirection en (chainDirection (m_direction m')) ?c = (hs, c2)" by fastforce
  have "accounted en ?c" using assms(1) by (simp add: accounted_def)
  note f = chainForDirection_fresh [OF this c2]
  have "urlSearch en m' (processMessage' hs m' c2) = Some c1"
    using assms(2,3) c2 by (simp add: appendMessage_def Let_def)
  from urlSearch_frame [OF this] f(1,3) show ?thesis
    by (auto simp: processMessage'_def ref_def split: if_splits)
qed

lemma appendMessage_others: "appendMessage en m c = Some c1 \<Longrightarrow> ch_others c1 = ch_others c"
  by (auto simp: appendMessage_def chainForDirection_def processMessage'_def Let_def
      split: option.splits if_splits prod.splits dest!: urlSearch_frame)

lemma append_user: "appendMessage en m c = Some c1 \<Longrightarrow>
    cs_user (ch_session c1) = cs_user (ch_session c) \<and> cs_contacts (ch_session c1) = cs_contacts (ch_session c)"
proof -
  have url: "cs_user (ch_session c') = cs_user (ch_session c) \<and> cs_contacts (ch_session c') = cs_contacts (ch_session c)"
    if "urlSearch en m c = Some c'" for m and c c' :: "'a chat"
    using that by (auto simp: urlSearch_def setLastUrl_def split: option.splits list.splits)
  show "appendMessage en m c = Some c1 \<Longrightarrow> ?thesis"
    by (auto simp: appendMessage_def chainForDirection_def processMessage'_def ref_def Let_def
        split: option.splits if_splits prod.splits dest!: url)
qed

lemma without_last: "without (length xs) (xs @ [x]) = xs"
  by (simp add: without_def)

text \<open>
  What can happen between appending a message and the start of its task, which is at position \<open>i\<close> of
  the queue: any step of the chat that does not start this task, under which the task may move to the
  front.  Neither its sender, nor the user of the session, nor its last member is destroyed, and
  there are fewer than two to the thirty-two references.
\<close>

definition steady :: "'d chat \<Rightarrow> 'd chat \<Rightarrow> bool" where
  "steady c c' \<longleftrightarrow> cs_user (ch_session c') \<noteq> None
     \<and> (cs_contacts (ch_session c') = [] \<longrightarrow> cs_contacts (ch_session c) = [])
     \<and> length (ch_tasks c') + ch_others c' < 4294967296"

inductive waits :: "'d chatEnv \<Rightarrow> 'd chat \<Rightarrow> nat \<Rightarrow> 'd chat \<Rightarrow> nat \<Rightarrow> bool" for en c0 i0 where
  stays: "waits en c0 i0 c0 i0"
| others: "waits en c0 i0 c i \<Longrightarrow> chat_step en c c' \<Longrightarrow> ch_tasks c' = ch_tasks c @ new \<Longrightarrow> steady c c'
    \<Longrightarrow> waits en c0 i0 c' i"
| tasks: "waits en c0 i0 c i \<Longrightarrow> k \<noteq> i \<Longrightarrow>
    startTask k c = Some c' \<or> acceptTask k c = Some c' \<or> discardTask k c = Some c' \<Longrightarrow> steady c c'
    \<Longrightarrow> waits en c0 i0 c' (if k < i \<and> length (ch_tasks c') < length (ch_tasks c) then i - 1 else i)"
| senders: "waits en c0 i0 c i \<Longrightarrow> \<not> sentBy p (ch_tasks c ! i) \<Longrightarrow> steady c (senderDestroyed p c)
    \<Longrightarrow> waits en c0 i0 (senderDestroyed p c) (length (filter (\<lambda>t. \<not> sentBy p t) (take i (ch_tasks c))))"

lemma deref_requests: "cs_deleteLater (deref s) \<Longrightarrow> cs_deleteLater s \<or> cs_refcount (deref s) < 1"
  by (auto simp: deref_def deleteLater_def Let_def split: if_splits)

lemma user_simps [session_simps]:
  "cs_user (deleteLater s) = cs_user s"
  by (simp add: deleteLater_def)

lemma add_requests: "cs_deleteLater (chatAddContact pe c b s) = cs_deleteLater s"
  by (simp add: chatAddContact_def session_simps Let_def)

lemma member_requests:
  assumes "cs_deleteLater (memberStep pe m s)" "cs_user (memberStep pe m s) \<noteq> None"
    "cs_contacts (memberStep pe m s) = [] \<longrightarrow> cs_contacts s = []"
  shows "cs_deleteLater s"
proof (cases m)
  case (Destroy c)
  let ?s = "if (FromContact c, SlotContactDestroyed) \<in> set (cs_connections s) then slotContactDestroyed (Some c) s else s"
  have no: "(FromContact c, SlotMyselfDestroyed) \<notin> set (cs_connections ?s)"
    using assms(2) by (auto simp: Destroy chatContactDestroyed_def slotMyselfDestroyed_def Let_def session_simps)
  then have "cs_deleteLater ?s" "cs_contacts ?s = [] \<longrightarrow> cs_contacts s = []"
    using assms(1,3) by (simp_all add: Destroy chatContactDestroyed_def Let_def)
  then show ?thesis
    by (auto simp: slotContactDestroyed_def session_simps Let_def split: if_splits)
next
  case (Remove c)
  have "cs_deleteLater (chatRemoveContact pe c s) = cs_deleteLater s"
    by (simp add: chatRemoveContact_def session_simps Let_def split: option.split)
  with assms(1) Remove show ?thesis by simp
qed (use assms(1) in \<open>simp_all add: add_requests addContactWithStatus_def setContactOnlineStatus'_def setDisplayName_def
      session_simps Let_def split: if_splits\<close>)

lemma progress_requests:
  assumes "progressTask i p c = Some c'"
  shows "ch_alive c' = ch_alive c"
    "ch_alive c \<Longrightarrow> cs_deleteLater (ch_session c') \<Longrightarrow> cs_deleteLater (ch_session c) \<or> cs_refcount (ch_session c') < 1"
    "(\<exists>t. ch_tasks c' = (ch_tasks c)[i := t]) \<or> ch_tasks c' = without i (ch_tasks c)"
proof -
  have sig: "ch_alive (recordSignal sg d) = ch_alive d" "ch_session (recordSignal sg d) = ch_session d"
    "ch_tasks (recordSignal sg d) = ch_tasks d" for sg and d :: "'a chat"
    by (cases "(sg, d)" rule: recordSignal.cases; simp)+
  show "ch_alive c' = ch_alive c"
    using assms by (auto simp: progressTask_def slotDone_def sig split: progress.splits if_splits)
  show "(\<exists>t. ch_tasks c' = (ch_tasks c)[i := t]) \<or> ch_tasks c' = without i (ch_tasks c)"
    using assms by (auto simp: progressTask_def slotDone_def sig split: progress.splits if_splits)
  show "cs_deleteLater (ch_session c) \<or> cs_refcount (ch_session c') < 1"
    if "ch_alive c" "cs_deleteLater (ch_session c')"
    using assms that by (auto simp: progressTask_def slotDone_def sig split: progress.splits if_splits dest!: deref_requests)
qed

lemma task_requests:
  assumes "startTask i c = Some c' \<or> acceptTask i c = Some c' \<or> discardTask i c = Some c'" "ch_alive c"
  shows "ch_alive c'"
    "cs_deleteLater (ch_session c') \<Longrightarrow> cs_deleteLater (ch_session c) \<or> cs_refcount (ch_session c') < 1"
    "(\<exists>t. ch_tasks c' = (ch_tasks c)[i := t]) \<or> i < length (ch_tasks c) \<and> ch_tasks c' = without i (ch_tasks c)"
proof -
  from assms(1) consider "c' = c" | p where "i < length (ch_tasks c)" "progressTask i p c = Some c'"
    by (auto simp: startTask_def acceptTask_def discardTask_def split: if_splits chatTask.splits)
  then show "ch_alive c'"
    "cs_deleteLater (ch_session c') \<Longrightarrow> cs_deleteLater (ch_session c) \<or> cs_refcount (ch_session c') < 1"
    "(\<exists>t. ch_tasks c' = (ch_tasks c)[i := t]) \<or> i < length (ch_tasks c) \<and> ch_tasks c' = without i (ch_tasks c)"
    using assms(2) by (cases; metis progress_requests list_update_id)+
qed

text \<open>The events of other senders are discarded one by one and give their references back; one is left.\<close>

lemma discards_keep:
  assumes "cs_refcount (ch_session c) = of_nat (n + length ts)" "0 < n" "n + length ts < 4294967296"
    "\<not> cs_deleteLater (ch_session c)"
  shows "\<not> cs_deleteLater (ch_session (fold eventDiscarded ts c))"
  using assms
proof (induction ts arbitrary: c)
  case (Cons t ts)
  show ?case
  proof (cases "ch_alive c")
    case True
    have "cs_refcount (ch_session (eventDiscarded t c)) = of_nat (n + length ts)"
      using Cons.prems(1) True by simp
    moreover have "\<not> (of_nat (n + length ts) :: u32) < 1"
      using Cons.prems(2,3) unfolding word_less_nat_alt by (subst unat_of_nat_u32) simp_all
    moreover have "ch_session (eventDiscarded t c) = deref (ch_session c)"
      using True by (simp add: eventDiscarded_def slotDone_def)
    ultimately have "\<not> cs_deleteLater (ch_session (eventDiscarded t c))"
      using Cons.prems(4) deref_requests by metis
    with Cons.IH [of "eventDiscarded t c"] Cons.prems(1-3) True show ?thesis by simp
  next
    case False
    have "ch_session (fold eventDiscarded us d) = ch_session d" if "\<not> ch_alive d" for us and d :: "'a chat"
      using that by (induction us arbitrary: d) (simp_all add: eventDiscarded_def slotDone_def)
    with False Cons.prems(4) show ?thesis by metis
  qed
qed simp

definition on_its_way :: "'d chatEnv \<Rightarrow> 'd messageHandler list \<Rightarrow> 'd message \<Rightarrow> 'd chat \<Rightarrow> nat \<Rightarrow> bool" where
  "on_its_way en hs m c i \<longleftrightarrow> accounted en c \<and> ch_alive c \<and> \<not> cs_deleteLater (ch_session c)
     \<and> i < length (ch_tasks c) \<and> ch_tasks c ! i = NotStarted hs m
     \<and> length (ch_tasks c) + ch_others c < 4294967296"

text \<open>As long as a task is in the queue the count is not below one, so nothing asks for the deletion.\<close>

lemma counted_refcount:
  assumes "accounted en c" "ch_alive c" "ch_tasks c \<noteq> []" "length (ch_tasks c) + ch_others c < 4294967296"
  shows "\<not> cs_refcount (ch_session c) < 1"
proof -
  have "cs_refcount (ch_session c) = of_nat (length (ch_tasks c) + ch_others c)"
    using assms(1,2) by (simp add: accounted_def)
  then show ?thesis
    using assms(3,4) unfolding word_less_nat_alt by (simp only: unat_of_nat_u32) simp
qed

lemma step_requests:
  assumes "chat_step en c c'" "ch_alive c" "accounted en c" "\<not> cs_deleteLater (ch_session c)" "steady c c'"
    "ch_tasks c' \<noteq> []" "length (ch_tasks c) + ch_others c < 4294967296"
  shows "ch_alive c' \<and> \<not> cs_deleteLater (ch_session c')"
proof -
  have acc: "accounted en c'" using accounted_step assms(1,3) by blast
  have fine: ?thesis if "ch_alive c'"
    "cs_deleteLater (ch_session c') \<Longrightarrow> cs_deleteLater (ch_session c) \<or> cs_refcount (ch_session c') < 1"
    using that counted_refcount [OF acc _ assms(6)] assms(4,5) by (auto simp: steady_def)
  from assms(1) show ?thesis
  proof (cases rule: chat_step.cases)
    case (appends m)
    then obtain m' where m': "highlighted en (setManager (Some (en_self en)) m) c = Some m'"
      by (auto simp: appendMessage_def split: option.splits)
    from appendMessage_queues [OF assms(3) appends(2) m'] assms(2,4) show ?thesis by simp
  next
    case (starts i)
    with task_requests [of i c c'] assms(2) show ?thesis by (intro fine) blast+
  next
    case (accepts i)
    with task_requests [of i c c'] assms(2) show ?thesis by (intro fine) blast+
  next
    case (discards i)
    with task_requests [of i c c'] assms(2) show ?thesis by (intro fine) blast+
  next
    case (senders p)
    let ?gone = "filter (sentBy p) (ch_tasks c)" and ?left = "filter (\<lambda>t. \<not> sentBy p t) (ch_tasks c)"
    let ?c = "c\<lparr>ch_tasks := ?left\<rparr>"
    have l: "length ?gone + length ?left = length (ch_tasks c)" by (rule sum_length_filter_compl)
    have "ch_tasks c' = ?left" using senders by (simp add: senderDestroyed_def)
    then have "0 < length ?left + ch_others c" using assms(6) by simp
    moreover have "cs_refcount (ch_session ?c) = of_nat ((length ?left + ch_others c) + length ?gone)"
      using assms(2,3) l by (simp add: accounted_def ac_simps flip: of_nat_add)
    ultimately have "\<not> cs_deleteLater (ch_session (fold eventDiscarded ?gone ?c))"
      using assms(4,7) l by (intro discards_keep [where n = "length ?left + ch_others c"]) simp_all
    then show ?thesis using senders assms(2) by (simp add: senderDestroyed_def)
  next
    case (members m)
    then have "ch_alive c'" "cs_deleteLater (ch_session c') \<Longrightarrow> cs_deleteLater (ch_session c)"
      using assms(5) member_requests [of "en_people en" m "ch_session c"] by (auto simp: steady_def)
    with assms(4) show ?thesis by blast
  next
    case (returns n)
    then show ?thesis by (intro fine) (auto dest: deref_requests)
  next
    case (allows b)
    then show ?thesis
      by (intro fine) (auto simp: setCanBeDeleted_def session_simps Let_def split: if_splits)
  next
    case closes
    then show ?thesis
      by (intro fine) (auto simp: slotViewDestroyed_def session_simps Let_def deleteLater_def split: if_splits)
  qed (use assms(2,4) in \<open>auto simp: view_def ref_def clearChains_def deleteSession_def Let_def\<close>)
qed

lemma without_nth:
  assumes "k \<noteq> i" "i < length xs" "k < length xs"
  shows "without k xs ! (if k < i then i - 1 else i) = xs ! i" "(if k < i then i - 1 else i) < length (without k xs)"
  using assms by (auto simp: without_def nth_append)

lemma filter_nth:
  "i < length xs \<Longrightarrow> P (xs ! i) \<Longrightarrow>
     length (filter P (take i xs)) < length (filter P xs) \<and> filter P xs ! length (filter P (take i xs)) = xs ! i"
proof (induction xs arbitrary: i)
  case (Cons x xs)
  then show ?case by (cases i) auto
qed simp

lemma waits_on_its_way:
  "waits en c0 i0 c i \<Longrightarrow> on_its_way en hs m c0 i0 \<Longrightarrow> on_its_way en hs m c i"
proof (induction rule: waits.induct)
  case (others c i c' new)
  then have way: "on_its_way en hs m c i" by blast
  have "ch_tasks c' \<noteq> []" "i < length (ch_tasks c')" "ch_tasks c' ! i = NotStarted hs m"
    using way others.hyps(3) by (auto simp: on_its_way_def nth_append)
  with step_requests [OF others.hyps(2) _ _ _ others.hyps(4)] accounted_step [OF others.hyps(2)] way others.hyps(4)
  show ?case by (simp add: on_its_way_def steady_def)
next
  case (tasks c i k c')
  then have way: "on_its_way en hs m c i" by blast
  let ?i = "if k < i \<and> length (ch_tasks c') < length (ch_tasks c) then i - 1 else i"
  have step: "chat_step en c c'" using tasks.hyps(3) by (auto intro: chat_step.intros)
  have i: "i < length (ch_tasks c)" "ch_tasks c ! i = NotStarted hs m" "ch_alive c" using way by (simp_all add: on_its_way_def)
  have nth: "?i < length (ch_tasks c') \<and> ch_tasks c' ! ?i = NotStarted hs m"
  proof (cases "\<exists>t. ch_tasks c' = (ch_tasks c)[k := t]")
    case True
    with i tasks.hyps(2) show ?thesis by auto
  next
    case False
    with task_requests(3) [OF tasks.hyps(3) i(3)] have w: "k < length (ch_tasks c)" "ch_tasks c' = without k (ch_tasks c)"
      by blast+
    then have "length (ch_tasks c') < length (ch_tasks c)" using length_without [of k "ch_tasks c"] by simp
    then have "?i = (if k < i then i - 1 else i)" by simp
    with without_nth [OF tasks.hyps(2) i(1) w(1)] w(2) i(2) show ?thesis by (simp only:)
  qed
  then have "ch_tasks c' \<noteq> []" by auto
  with step_requests [OF step _ _ _ tasks.hyps(4)] accounted_step [OF step] way tasks.hyps(4) nth
  show ?case by (simp add: on_its_way_def steady_def)
next
  case (senders c i p)
  then have way: "on_its_way en hs m c i" by blast
  let ?i = "length (filter (\<lambda>t. \<not> sentBy p t) (take i (ch_tasks c)))"
  have step: "chat_step en c (senderDestroyed p c)" by (rule chat_step.senders)
  have nth: "?i < length (ch_tasks (senderDestroyed p c)) \<and> ch_tasks (senderDestroyed p c) ! ?i = NotStarted hs m"
    using filter_nth [of i "ch_tasks c" "\<lambda>t. \<not> sentBy p t"] senders.hyps(2) way
    by (simp add: on_its_way_def senderDestroyed_def)
  then have "ch_tasks (senderDestroyed p c) \<noteq> []" by auto
  with step_requests [OF step _ _ _ senders.hyps(3)] accounted_step [OF step] way senders.hyps(3) nth
  show ?case by (simp add: on_its_way_def steady_def)
qed


text \<open>C33: a session that is about to be deleted still takes messages: a message appended after its window
  was closed and before the event loop deletes it is neither shown nor discarded.\<close>

theorem doomed_session_loses_message:
  assumes "chat_run en (newChat (newChatSession (en_people en) user others protocol f url) fs) c" "ch_alive c"
    "cs_deleteLater (ch_session c)"
    "highlighted en (setManager (Some (en_self en)) m) c = Some m'" "appendMessage en m c = Some c1"
    "through (beforeShown en (chainDirection (m_direction m')) (ch_factories c)) m' = Some m''"
  shows "\<exists>c2. startTask (length (ch_tasks c)) (deleteSession c1) = Some c2 \<and> \<not> ch_alive c2
    \<and> ch_shown c2 = ch_shown c \<and> ch_discarded c2 = ch_discarded c \<and> ch_tasks c2 = ch_tasks c"
proof -
  have "accounted en c" by (rule accounted_run [OF assms(1) accounted_new [OF refcount_new]])
  note q = appendMessage_queues [OF this assms(5,4)]
  obtain rest where "buildChain en (chainDirection (m_direction m')) (ch_factories c)
      = beforeShown en (chainDirection (m_direction m')) (ch_factories c) @ AppendMessageHandler # rest"
    using buildChain_shows by blast
  then have "handleMessageInternal False (buildChain en (chainDirection (m_direction m')) (ch_factories c)) m'
      = Done None"
    using handle_through [OF assms(6)] by simp
  with q assms(3) show ?thesis
    by (simp add: startTask_def deleteSession_def progressTask_def slotDone_def without_last)
qed

subsection \<open>The registry of sessions\<close>

record manager =
  mg_heap :: "nat \<Rightarrow> session"
  mg_sessions :: "nat list"
  mg_next :: nat

definition findChatSession :: "contactPtr \<Rightarrow> contactPtr list \<Rightarrow> nat \<Rightarrow> manager \<Rightarrow> nat option" where
  "findChatSession user chatContacts protocol mg =
     find (\<lambda>p. let cs = mg_heap mg p in
         cs_protocol cs = protocol \<and> cs_user cs = Some user
         \<and> list_all (\<lambda>c. c \<in> set chatContacts) (cs_contacts cs)
         \<and> list_all (\<lambda>c. c \<in> set (cs_contacts cs)) chatContacts) (mg_sessions mg)"

definition registerChatSession :: "nat \<Rightarrow> manager \<Rightarrow> manager" where
  "registerChatSession p mg = mg\<lparr>mg_sessions := mg_sessions mg @ [p]\<rparr>"

definition removeSession :: "nat \<Rightarrow> manager \<Rightarrow> manager" where
  "removeSession p mg = mg\<lparr>mg_sessions := filter (\<lambda>q. q \<noteq> p) (mg_sessions mg)\<rparr>"

definition createChat ::
  "people \<Rightarrow> contactPtr \<Rightarrow> contactPtr list \<Rightarrow> nat \<Rightarrow> form \<Rightarrow> qstring \<Rightarrow> manager \<Rightarrow> nat \<times> manager" where
  "createChat pe user chatContacts protocol f url mg =
     (case findChatSession user chatContacts protocol mg of
        Some p \<Rightarrow> (p, mg)
      | None \<Rightarrow>
          let p = mg_next mg;
              mg = mg\<lparr>mg_heap := (mg_heap mg)(p := newChatSession pe user chatContacts protocol f url), mg_next := Suc p\<rparr>
          in (p, registerChatSession p mg))"

lemma members_new: "set (cs_contacts (newChatSession pe user others protocol f url)) = set others"
proof -
  have fresh: "\<not> cs_isEmpty (chatAddContact pe c b s)" for c b s by (simp add: chatAddContact_def)
  have add: "set (cs_contacts (chatAddContact pe c b s)) = insert c (set (cs_contacts s))"
    if "\<not> cs_isEmpty s \<or> cs_contacts s = []" for c b s
    using that by (auto simp: chatAddContact_def session_simps Let_def)
  have "set (cs_contacts (fold (\<lambda>c. chatAddContact pe c True) others s)) = set (cs_contacts s) \<union> set others"
    if "\<not> cs_isEmpty s \<or> cs_contacts s = []" for s
    using that by (induction others arbitrary: s) (auto simp: add fresh)
  then have "set (cs_contacts (fold (\<lambda>c. chatAddContact pe c True) others (blankChatSession user others protocol f url))) = set others"
    by (simp add: blankChatSession_def)
  then show ?thesis
    by (simp add: newChatSession_def Let_def session_simps split: option.split)
qed

lemma owner_simps [session_simps]:
  "cs_user (raiseEvent e s) = cs_user s" "cs_protocol (raiseEvent e s) = cs_protocol s"
  "cs_user (connectTo a r s) = cs_user s" "cs_protocol (connectTo a r s) = cs_protocol s"
  "cs_user (disconnectFrom a r s) = cs_user s" "cs_protocol (disconnectFrom a r s) = cs_protocol s"
  "cs_user (slotUpdateDisplayName pe s) = cs_user s" "cs_protocol (slotUpdateDisplayName pe s) = cs_protocol s"
  "cs_user (disconnectNames pe c s) = cs_user s" "cs_protocol (disconnectNames pe c s) = cs_protocol s"
  "cs_user (connectMember pe c s) = cs_user s" "cs_protocol (connectMember pe c s) = cs_protocol s"
  by (simp_all add: raiseEvent_def connectTo_def disconnectFrom_def slotUpdateDisplayName_def
      disconnectNames_def connectMember_def Let_def split: option.split list.split)

lemma owner_new:
  "cs_user (newChatSession pe user others protocol f url) = Some user"
  "cs_protocol (newChatSession pe user others protocol f url) = protocol"
proof -
  have "cs_user (fold (\<lambda>c. chatAddContact pe c True) others s) = cs_user s
      \<and> cs_protocol (fold (\<lambda>c. chatAddContact pe c True) others s) = cs_protocol s" for s
    by (induction others arbitrary: s) (auto simp: chatAddContact_def session_simps Let_def)
  then show "cs_user (newChatSession pe user others protocol f url) = Some user"
    "cs_protocol (newChatSession pe user others protocol f url) = protocol"
    by (simp_all add: newChatSession_def Let_def session_simps blankChatSession_def split: option.split)
qed

definition matches :: "contactPtr \<Rightarrow> contactPtr list \<Rightarrow> nat \<Rightarrow> session \<Rightarrow> bool" where
  "matches user chatContacts protocol cs \<longleftrightarrow>
     cs_protocol cs = protocol \<and> cs_user cs = Some user \<and> set (cs_contacts cs) = set chatContacts"

lemma findChatSession_matches:
  "findChatSession user chatContacts protocol mg = find (\<lambda>p. matches user chatContacts protocol (mg_heap mg p)) (mg_sessions mg)"
proof -
  have "list_all (\<lambda>c. c \<in> set xs) ys \<and> list_all (\<lambda>c. c \<in> set ys) xs \<longleftrightarrow> set ys = set xs" for xs ys :: "contactPtr list"
    by (auto simp: list_all_iff)
  then show ?thesis by (simp add: findChatSession_def matches_def Let_def)
qed

lemma find_append: "find P (xs @ ys) = (case find P xs of None \<Rightarrow> find P ys | Some x \<Rightarrow> Some x)"
  by (induction xs) auto

text \<open>C36: asking for a chat gives a registered session of this user and protocol whose members are the
  given contacts, and makes a new one only if there is none; asking again, with the contacts in
  any order and any number of times, gives the same session and makes no other.\<close>

theorem chat_found_again:
  assumes "createChat pe user chatContacts protocol f url mg = (p, mg')" "set contacts' = set chatContacts"
    "\<forall>q \<in> set (mg_sessions mg). q < mg_next mg"
  shows "matches user chatContacts protocol (mg_heap mg' p) \<and> p \<in> set (mg_sessions mg')
    \<and> (\<forall>q \<in> set (mg_sessions mg). matches user chatContacts protocol (mg_heap mg q) \<longrightarrow> mg' = mg)
    \<and> createChat pe user contacts' protocol f' url' mg' = (p, mg')"
proof (cases "findChatSession user chatContacts protocol mg")
  case (Some q)
  then have "p = q" "mg' = mg" using assms(1) by (auto simp: createChat_def)
  moreover have "findChatSession user contacts' protocol mg = Some q"
    using Some assms(2) by (simp add: findChatSession_matches matches_def)
  moreover have "matches user chatContacts protocol (mg_heap mg q)" "q \<in> set (mg_sessions mg)"
    using Some by (auto simp: findChatSession_matches find_Some_iff)
  ultimately show ?thesis by (simp add: createChat_def)
next
  case None
  then have none: "\<forall>q \<in> set (mg_sessions mg). \<not> matches user chatContacts protocol (mg_heap mg q)"
    by (auto simp: findChatSession_matches find_None_iff)
  from None assms(1) have p: "p = mg_next mg" "mg_sessions mg' = mg_sessions mg @ [p]"
    "mg_heap mg' = (mg_heap mg)(p := newChatSession pe user chatContacts protocol f url)"
    by (auto simp: createChat_def registerChatSession_def Let_def)
  have new: "matches user contacts' protocol (newChatSession pe user chatContacts protocol f url)"
    using assms(2) by (simp add: matches_def members_new owner_new)
  have "find (\<lambda>q. matches user contacts' protocol (mg_heap mg' q)) (mg_sessions mg) = None"
    using none assms(2,3) p by (auto simp: find_None_iff matches_def)
  then have "findChatSession user contacts' protocol mg' = Some p"
    using new p by (simp add: findChatSession_matches find_append)
  with none p new assms(2) show ?thesis
    by (auto simp: createChat_def matches_def members_new owner_new)
qed

subsection \<open>A message in a chat\<close>

definition sampleEnv' :: "qstring chatEnv" where
  "sampleEnv' =
     \<lparr>en_people = samplePeople, en_rt = sampleRichText, en_self = 7, en_highlightEnabled = True,
      en_rxEscape = id, en_rxContains = (\<lambda>pattern s. False), en_rxIndexIn = (\<lambda>pattern s pos. None),
      en_folder = qstr ''data''\<rparr>"

definition sampleFactories :: "qstring factory list" where
  "sampleFactories = [simpleFactory 4 Inbound 7000 (setState StateSent)]"

definition openChat :: "qstring chat" where
  "openChat = newChat (newChatSession (en_people sampleEnv') 1 [2, 3] 0 Small []) sampleFactories"

definition closedChat :: "qstring chat" where
  "closedChat = with_session slotViewDestroyed (with_session (\<lambda>s. snd (view True (Some 9) s)) openChat)"

definition queuedMessage :: "qstring message" where
  "queuedMessage = setManager (Some 7) (sampleMessage ''hello'')"

lemma openChat_run: "chat_run sampleEnv' (newChat (newChatSession (en_people sampleEnv') 1 [2, 3] 0 Small []) sampleFactories) openChat"
  unfolding openChat_def by (rule idle)

lemma openChat_alive [simp]: "ch_alive openChat" "ch_tasks openChat = []" "ch_others openChat = 0"
  "ch_factories openChat = sampleFactories" "ch_chains openChat dir = None"
  by (simp_all add: openChat_def newChat_def)

lemma openChat_user [simp]: "cs_user (ch_session openChat) = Some 1" "cs_refcount (ch_session openChat) = 0"
  by (simp_all add: openChat_def newChat_def owner_new refcount_new)

lemma closedChat_run: "chat_run sampleEnv' (newChat (newChatSession (en_people sampleEnv') 1 [2, 3] 0 Small []) sampleFactories) closedChat"
proof -
  have "chat_step sampleEnv' openChat (with_session (\<lambda>s. snd (view True (Some 9) s)) openChat)"
    by (rule opens) simp
  then have r: "chat_run sampleEnv' (newChat (newChatSession (en_people sampleEnv') 1 [2, 3] 0 Small []) sampleFactories)
      (with_session (\<lambda>s. snd (view True (Some 9) s)) openChat)"
    by (rule more [OF openChat_run])
  show ?thesis unfolding closedChat_def
  proof (rule more [OF r closes])
    show "cs_view (ch_session (with_session (\<lambda>s. snd (view True (Some 9) s)) openChat)) \<noteq> None"
      by (cases "cs_view (ch_session openChat)") (simp_all add: view_def)
  qed simp
qed

lemma deletable_new: "cs_mCanBeDeleted (newChatSession pe user others protocol f url)"
proof -
  have simps: "cs_mCanBeDeleted (raiseEvent e s) = cs_mCanBeDeleted s" "cs_mCanBeDeleted (connectTo a r s) = cs_mCanBeDeleted s"
    "cs_mCanBeDeleted (disconnectFrom a r s) = cs_mCanBeDeleted s"
    "cs_mCanBeDeleted (slotUpdateDisplayName pe s) = cs_mCanBeDeleted s"
    "cs_mCanBeDeleted (disconnectNames pe c s) = cs_mCanBeDeleted s"
    "cs_mCanBeDeleted (connectMember pe c s) = cs_mCanBeDeleted s" for e a r c s
    by (simp_all add: raiseEvent_def connectTo_def disconnectFrom_def slotUpdateDisplayName_def
        disconnectNames_def connectMember_def Let_def split: option.split list.split)
  have "cs_mCanBeDeleted (fold (\<lambda>c. chatAddContact pe c True) others s) = cs_mCanBeDeleted s" for s
    by (induction others arbitrary: s) (auto simp: chatAddContact_def simps Let_def)
  then show ?thesis by (simp add: newChatSession_def Let_def simps blankChatSession_def split: option.split)
qed

lemma deleteLater_new: "\<not> cs_deleteLater (newChatSession pe user others protocol f url)"
proof -
  have "cs_deleteLater (fold (\<lambda>c. chatAddContact pe c True) others s) = cs_deleteLater s" for s
    by (induction others arbitrary: s) (auto simp: add_requests)
  then show ?thesis by (simp add: newChatSession_def Let_def session_simps blankChatSession_def split: option.split)
qed

lemma closedChat_fields [simp]:
  "ch_alive closedChat" "ch_tasks closedChat = []" "cs_deleteLater (ch_session closedChat)"
  "ch_factories closedChat = sampleFactories" "ch_chains closedChat dir = None"
  "cs_user (ch_session closedChat) = Some 1"
  by (simp_all add: closedChat_def slotViewDestroyed_def view_def Let_def deleteLater_def)
    (simp_all add: openChat_def newChat_def deletable_new refcount_new)

lemma sample_highlighted:
  "cs_user (ch_session c) = Some 1 \<Longrightarrow>
     highlighted sampleEnv' (setManager (Some (en_self sampleEnv')) (sampleMessage ''hello'')) c = Some queuedMessage"
  by (simp add: highlighted_def sampleEnv'_def queuedMessage_def Let_def)

lemma sample_append:
  assumes "cs_user (ch_session c) = Some 1"
  shows "\<exists>c1. appendMessage sampleEnv' (sampleMessage ''hello'') c = Some c1"
proof -
  have "findUrls sampleEnv' m = Some []" for m
    by (simp add: findUrls_def regexpPatterns_def urlMatches.simps sampleEnv'_def)
  then show ?thesis
    by (auto simp: appendMessage_def sample_highlighted [OF assms] urlSearch_def Let_def split: prod.split)
qed

lemma queued_direction: "m_direction queuedMessage = Inbound"
  by (simp add: queuedMessage_def setManager_def)

lemma sample_through:
  "through (beforeShown sampleEnv' (chainDirection (m_direction queuedMessage)) sampleFactories) queuedMessage
     = Some (setState StateSent queuedMessage)"
  by (simp add: queued_direction chainDirection_def beforeShown_def sampleFactories_def created_def simpleFactory_def
      simpleFilterPosition_def simpleCreate_def StageDoNotCreate_def)

theorem references_counted_witness:
  "cs_refcount (ch_session openChat) = of_nat (length (ch_tasks openChat) + ch_others openChat)"
  using references_counted [OF openChat_run] by simp

theorem closing_waits_for_messages_witness:
  "cs_deleteLater (slotViewDestroyed (ch_session openChat)) \<longleftrightarrow>
    cs_deleteLater (ch_session openChat) \<or> cs_mCanBeDeleted (ch_session openChat) \<and> ch_tasks openChat = [] \<and> ch_others openChat = 0"
  by (rule closing_waits_for_messages [OF openChat_run]) simp_all


theorem doomed_session_loses_message_witness:
  "\<exists>c1 c2. appendMessage sampleEnv' (sampleMessage ''hello'') closedChat = Some c1
    \<and> startTask 0 (deleteSession c1) = Some c2 \<and> ch_shown c2 = [] \<and> ch_discarded c2 = []"
proof -
  obtain c1 where c1: "appendMessage sampleEnv' (sampleMessage ''hello'') closedChat = Some c1"
    using sample_append [of closedChat] by auto
  have "ch_shown closedChat = []" "ch_discarded closedChat = []" by (simp_all add: closedChat_def openChat_def newChat_def)
  with doomed_session_loses_message [OF closedChat_run _ _ sample_highlighted c1] c1 sample_through show ?thesis by auto
qed

definition emptyManager :: manager where
  "emptyManager = \<lparr>mg_heap = (\<lambda>p. blankChatSession 0 [] 0 Small []), mg_sessions = [], mg_next = 5\<rparr>"

theorem chat_found_again_witness:
  "\<exists>mg'. createChat samplePeople 1 [2, 3] 0 Small [] emptyManager = (5, mg')
     \<and> createChat samplePeople 1 [3, 2, 3] 0 Chatroom [] mg' = (5, mg')"
proof -
  obtain p mg' where c: "createChat samplePeople 1 [2, 3] 0 Small [] emptyManager = (p, mg')" by fastforce
  moreover have "p = 5" using c by (auto simp: createChat_def findChatSession_def emptyManager_def Let_def)
  moreover have "createChat samplePeople 1 [3, 2, 3] 0 Chatroom [] mg' = (p, mg')"
    using chat_found_again [OF c, of "[3, 2, 3]" Chatroom "[]"] by (auto simp: emptyManager_def)
  ultimately show ?thesis by auto
qed

end
