(* ===== verification/QQ_Crypt.thy ===== *)
theory QQ_Crypt
  imports Kopete_Prelude
begin

text \<open>
  The cipher of the QQ protocol: the byte array of \<^verbatim>\<open>libeva.h\<close>, the block cipher of
  \<^verbatim>\<open>crypt.cpp\<close> and the chaining and padding of \<^verbatim>\<open>evautil.cpp\<close>.

  A byte array has a capacity, which it does not exceed: what does not fit is not copied.  Blocks
  are lists of eight bytes, of which \<^verbatim>\<open>ntohl\<close> makes words in network order on every machine.
  \<^verbatim>\<open>decrypt\<close> takes the bytes that follow the ciphertext in memory as an argument, because it
  reads some of them, and returns with the text the end of what it has read.
\<close>

subsection \<open>Byte arrays\<close>

record byteArray =
  ba_capacity :: int
  ba_data :: bytes

definition newByteArray :: "int \<Rightarrow> byteArray" where
  "newByteArray capacity = \<lparr>ba_capacity = capacity, ba_data = []\<rparr>"

definition copyAt :: "nat \<Rightarrow> bytes \<Rightarrow> byteArray \<Rightarrow> byteArray" where
  "copyAt index buf a =
     (if int index + int (length buf) > ba_capacity a then a
      else a\<lparr>ba_data := take index (ba_data a) @ buf @ drop (index + length buf) (ba_data a)\<rparr>)"

definition appendBytes :: "bytes \<Rightarrow> byteArray \<Rightarrow> byteArray" where
  "appendBytes buf a = copyAt (length (ba_data a)) buf a"

definition duplicate :: "bytes \<Rightarrow> byteArray" where
  "duplicate d = appendBytes d (newByteArray (int (length d)))"

lemma appendBytes_fits:
  "int (length (ba_data a) + length buf) \<le> ba_capacity a \<Longrightarrow> appendBytes buf a = a\<lparr>ba_data := ba_data a @ buf\<rparr>"
  by (simp add: appendBytes_def copyAt_def)

lemma appendBytes_full:
  "int (length (ba_data a) + length buf) > ba_capacity a \<Longrightarrow> appendBytes buf a = a"
  by (simp add: appendBytes_def copyAt_def)

subsection \<open>The block cipher\<close>

definition dec32 :: "bytes \<Rightarrow> u32" where
  "dec32 bs = push_bit 24 (ucast (bs ! 0)) OR push_bit 16 (ucast (bs ! 1)) OR push_bit 8 (ucast (bs ! 2)) OR ucast (bs ! 3)"

definition wordAt :: "nat \<Rightarrow> bytes \<Rightarrow> u32" where
  "wordAt i bs = dec32 (take 4 (drop (4 * i) bs))"

definition teaDelta :: u32 where
  "teaDelta = 0x9E3779B9"

definition encRound :: "u32 \<Rightarrow> u32 \<Rightarrow> u32 \<Rightarrow> u32 \<Rightarrow> u32 \<times> u32 \<times> u32 \<Rightarrow> u32 \<times> u32 \<times> u32" where
  "encRound a b c d st =
     (case st of (y, z, acc) \<Rightarrow>
        let acc = acc + teaDelta;
            y = y + ((push_bit 4 z + a) XOR (z + acc) XOR (drop_bit 5 z + b));
            z = z + ((push_bit 4 y + c) XOR (y + acc) XOR (drop_bit 5 y + d))
        in (y, z, acc))"

definition decRound :: "u32 \<Rightarrow> u32 \<Rightarrow> u32 \<Rightarrow> u32 \<Rightarrow> u32 \<times> u32 \<times> u32 \<Rightarrow> u32 \<times> u32 \<times> u32" where
  "decRound a b c d st =
     (case st of (y, z, acc) \<Rightarrow>
        let z = z - ((push_bit 4 y + c) XOR (y + acc) XOR (drop_bit 5 y + d));
            y = y - ((push_bit 4 z + a) XOR (z + acc) XOR (drop_bit 5 z + b))
        in (y, z, acc - teaDelta))"

definition encipher :: "bytes \<Rightarrow> bytes \<Rightarrow> bytes" where
  "encipher v k =
     (case (encRound (wordAt 0 k) (wordAt 1 k) (wordAt 2 k) (wordAt 3 k) ^^ 16) (wordAt 0 v, wordAt 1 v, 0) of
        (y, z, acc) \<Rightarrow> enc32 y @ enc32 z)"

definition decipher :: "bytes \<Rightarrow> bytes \<Rightarrow> bytes" where
  "decipher v k =
     (case (decRound (wordAt 0 k) (wordAt 1 k) (wordAt 2 k) (wordAt 3 k) ^^ 16) (wordAt 0 v, wordAt 1 v, 0xE3779B90) of
        (y, z, acc) \<Rightarrow> enc32 y @ enc32 z)"

lemma dec32_enc32: "dec32 (enc32 w) = w"
proof (rule bit_word_eqI)
  fix n assume "n < LENGTH(32)"
  then show "bit (dec32 (enc32 w)) n = bit w n"
    by (cases "n < 8"; cases "n < 16"; cases "n < 24") (auto simp: dec32_def enc32_def bit_simps)
qed

lemma enc32_dec32: "length bs = 4 \<Longrightarrow> enc32 (dec32 bs) = bs"
proof -
  assume "length bs = 4"
  then obtain a b c d where bs: "bs = [a, b, c, d]" by (auto simp: numeral_eq_Suc length_Suc_conv)
  have "(ucast (drop_bit 24 (dec32 bs)) :: u8) = a" "(ucast (drop_bit 16 (dec32 bs)) :: u8) = b"
    "(ucast (drop_bit 8 (dec32 bs)) :: u8) = c" "(ucast (dec32 bs) :: u8) = d"
    unfolding bs dec32_def by (rule bit_word_eqI, auto simp: bit_simps dest: bit_imp_le_length)+
  then show ?thesis by (simp add: enc32_def bs)
qed

lemma decRound_encRound: "decRound a b c d (encRound a b c d st) = st"
  by (cases st) (simp add: encRound_def decRound_def Let_def)

lemma decRounds_encRounds: "(decRound a b c d ^^ n) ((encRound a b c d ^^ n) st) = st"
proof (induction n arbitrary: st)
  case (Suc n)
  have "(decRound a b c d ^^ Suc n) ((encRound a b c d ^^ Suc n) st)
      = (decRound a b c d ^^ n) (decRound a b c d (encRound a b c d ((encRound a b c d ^^ n) st)))"
    by (simp add: funpow_swap1)
  then show ?case by (simp add: decRound_encRound Suc.IH)
qed simp

lemma encRounds_sum: "snd (snd ((encRound a b c d ^^ n) (y, z, s))) = s + of_nat n * teaDelta"
proof (induction n)
  case (Suc n)
  have "snd (snd (encRound a b c d st)) = snd (snd st) + teaDelta" for st
    by (cases st) (simp add: encRound_def Let_def)
  with Suc show ?case by (simp add: algebra_simps)
qed simp

lemma words_split: "length v = 8 \<Longrightarrow> enc32 (wordAt 0 v) @ enc32 (wordAt 1 v) = v"
  by (simp add: wordAt_def enc32_dec32)

lemma wordAt_join: "wordAt 0 (enc32 y @ enc32 z) = y" "wordAt 1 (enc32 y @ enc32 z) = z"
  by (simp_all add: wordAt_def dec32_enc32)

lemma length_cipher [simp]: "length (encipher v k) = 8" "length (decipher v k) = 8"
  by (simp_all add: encipher_def decipher_def split: prod.splits)

lemma decipher_encipher: "length v = 8 \<Longrightarrow> decipher (encipher v k) k = v"
proof -
  assume v: "length v = 8"
  let ?a = "wordAt 0 k" and ?b = "wordAt 1 k" and ?c = "wordAt 2 k" and ?d = "wordAt 3 k"
  obtain y z s where e: "(encRound ?a ?b ?c ?d ^^ 16) (wordAt 0 v, wordAt 1 v, 0) = (y, z, s)" by (metis prod.exhaust)
  have "s = 0xE3779B90" using encRounds_sum [of 16 ?a ?b ?c ?d "wordAt 0 v" "wordAt 1 v" 0] e by (simp add: teaDelta_def)
  moreover have "(decRound ?a ?b ?c ?d ^^ 16) (y, z, s) = (wordAt 0 v, wordAt 1 v, 0)"
    using decRounds_encRounds [of 16 ?a ?b ?c ?d] unfolding e [symmetric] by blast
  moreover have "encipher v k = enc32 y @ enc32 z" unfolding encipher_def e by simp
  ultimately show ?thesis using words_split [OF v] by (simp add: decipher_def wordAt_join del: One_nat_def)
qed

subsection \<open>Chaining and padding\<close>

definition xorBytes :: "bytes \<Rightarrow> bytes \<Rightarrow> bytes" where
  "xorBytes a b = map2 (XOR) a b"

text \<open>The random number generator of \<^verbatim>\<open>namespace Eva\<close>.\<close>

definition evaRand :: u32 where
  "evaRand = 0xdead"

record encState =
  e_plain :: bytes
  e_plain_pre :: bytes
  e_crypted_pre :: bytes
  e_isHeader :: bool
  e_pos :: nat
  e_encoded :: byteArray

definition encrypt64 :: "bytes \<Rightarrow> encState \<Rightarrow> encState" where
  "encrypt64 key st =
     (let plain = xorBytes (e_plain st) (if e_isHeader st then e_plain_pre st else e_crypted_pre st);
          crypted = xorBytes (encipher plain key) (e_plain_pre st)
      in st\<lparr>e_plain := plain, e_plain_pre := plain, e_crypted_pre := crypted, e_isHeader := False,
           e_pos := 0, e_encoded := appendBytes crypted (e_encoded st)\<rparr>)"

definition putByte :: "u8 \<Rightarrow> encState \<Rightarrow> encState" where
  "putByte b st =
     (if e_pos st < 8 then st\<lparr>e_plain := (e_plain st)[e_pos st := b], e_pos := e_pos st + 1\<rparr> else st)"

definition encByte :: "bytes \<Rightarrow> u8 \<Rightarrow> encState \<Rightarrow> encState" where
  "encByte key b st = (let st = putByte b st in if e_pos st = 8 then encrypt64 key st else st)"

fun encTail :: "bytes \<Rightarrow> nat \<Rightarrow> encState \<Rightarrow> encState" where
  "encTail key 0 st = st"
| "encTail key (Suc n) st =
     (let st = putByte 0 st in if e_pos st = 8 then encrypt64 key st else encTail key n st)"

text \<open>The plain buffer is written before it is read; it starts with zeros here.\<close>

definition encryptStart :: "nat \<Rightarrow> encState" where
  "encryptStart len =
     (let pos = (len + 10) mod 8;
          pos = (if pos \<noteq> 0 then 8 - pos else pos);
          plain = (replicate 8 0)[0 := (ucast (evaRand AND 0xf8) OR of_nat pos :: u8)];
          plain = (if pos > 0 then take 1 plain @ replicate pos (ucast (evaRand AND 0xff)) @ drop (1 + pos) plain else plain)
      in \<lparr>e_plain = plain, e_plain_pre = replicate 8 0, e_crypted_pre = replicate 8 0, e_isHeader = True,
          e_pos = pos + 1, e_encoded = newByteArray (int len + 32)\<rparr>)"

definition encrypt :: "bytes \<Rightarrow> bytes \<Rightarrow> byteArray" where
  "encrypt text key =
     (let st = encryptStart (length text);
          st = fold (encByte key) (replicate 2 (ucast (evaRand AND 0xff))) st;
          st = fold (encByte key) text st
      in e_encoded (encTail key 7 st))"

record decState =
  d_decrypted :: bytes
  d_crypt :: nat
  d_pre :: "nat option"
  d_pos :: nat

definition blockOf :: "nat \<Rightarrow> bytes \<Rightarrow> bytes" where
  "blockOf off m = take 8 (drop off m)"

text \<open>\<^verbatim>\<open>crypt_pre\<close> points to a block of zeros first, then into the ciphertext.\<close>

definition preByte :: "bytes \<Rightarrow> nat option \<Rightarrow> nat \<Rightarrow> u8" where
  "preByte m pre i = (case pre of None \<Rightarrow> 0 | Some off \<Rightarrow> m ! (off + i))"

definition nextBlock :: "bytes \<Rightarrow> bytes \<Rightarrow> nat option \<Rightarrow> decState \<Rightarrow> decState" where
  "nextBlock key m pre st =
     st\<lparr>d_pre := pre, d_decrypted := decipher (xorBytes (d_decrypted st) (blockOf (d_crypt st) m)) key,
        d_crypt := d_crypt st + 8, d_pos := 0\<rparr>"

text \<open>The position is at most eight throughout.\<close>

function decSkip :: "bytes \<Rightarrow> bytes \<Rightarrow> nat \<Rightarrow> decState \<Rightarrow> decState" where
  "decSkip key m i st =
     (if i < 2
      then
        let (i, st) = (if d_pos st < 8 then (i + 1, st\<lparr>d_pos := d_pos st + 1\<rparr>) else (i, st));
            st = (if \<not> d_pos st < 8 then nextBlock key m (Some 0) st else st)
        in decSkip key m i st
      else st)"
  by pat_completeness auto
termination
  by (relation "measure (\<lambda>(key, m, i, st). 2 * (2 - i) + (if d_pos st < 8 then 0 else 1))")
    (auto simp: nextBlock_def split: if_splits)

function decText :: "bytes \<Rightarrow> bytes \<Rightarrow> nat \<Rightarrow> nat \<Rightarrow> decState \<Rightarrow> byteArray \<Rightarrow> decState \<times> byteArray" where
  "decText key m len i st text =
     (if i < len
      then
        let (i, st, text) =
              (if d_pos st < 8
               then (i + 1, st\<lparr>d_pos := d_pos st + 1\<rparr>,
                     appendBytes [preByte m (d_pre st) (d_pos st) XOR d_decrypted st ! d_pos st] text)
               else (i, st, text));
            st = (if \<not> d_pos st < 8 then nextBlock key m (Some (d_crypt st - 8)) st else st)
        in decText key m len i st text
      else (st, text))"
  by pat_completeness auto
termination
  by (relation "measure (\<lambda>(key, m, len, i, st, text). 2 * (len - i) + (if d_pos st < 8 then 0 else 1))")
    (auto simp: nextBlock_def split: if_splits)

text \<open>Whether the trailing bytes are zero, and the end of what has been read.\<close>

fun decTail :: "bytes \<Rightarrow> nat \<Rightarrow> decState \<Rightarrow> bool \<times> nat" where
  "decTail m 0 st = (True, d_crypt st)"
| "decTail m (Suc n) st =
     (if d_pos st < 8 \<and> preByte m (d_pre st) (d_pos st) XOR d_decrypted st ! d_pos st \<noteq> 0 then (False, d_crypt st)
      else
        let st = (if d_pos st < 8 then st\<lparr>d_pos := d_pos st + 1\<rparr> else st)
        in if d_pos st = 8 then (True, d_crypt st + 8) else decTail m n st)"

definition decrypt :: "bytes \<Rightarrow> bytes \<Rightarrow> bytes \<Rightarrow> byteArray \<times> nat" where
  "decrypt code key behind =
     (if length code < 16 \<or> length code mod 8 \<noteq> 0 then (newByteArray 0, 0)
      else
        let m = code @ behind;
            decrypted = decipher (blockOf 0 m) key;
            pos = unat (decrypted ! 0 AND 7);
            len = int (length code) - int pos - 10
        in if len < 0 then (newByteArray 0, 8)
           else
             let st = \<lparr>d_decrypted = decrypted, d_crypt = 8, d_pre = None, d_pos = pos + 1\<rparr>;
                 st = decSkip key m 0 st;
                 (st, text) = decText key m (nat len) 0 st (newByteArray len);
                 (ok, fin) = decTail m 7 st
             in if ok then (text, fin) else (newByteArray 0, fin))"

declare decSkip.simps [simp del] decText.simps [simp del]

subsection \<open>What decryption reads\<close>

text \<open>
  The blocks decrypted one after the other, the state in which the byte with number q is the next,
  and that byte.
\<close>

primrec decChain :: "bytes \<Rightarrow> bytes \<Rightarrow> nat \<Rightarrow> bytes" where
  "decChain key m 0 = decipher (blockOf 0 m) key"
| "decChain key m (Suc j) = decipher (xorBytes (decChain key m j) (blockOf (8 * Suc j) m)) key"

definition preOf :: "nat \<Rightarrow> nat option" where
  "preOf j = (if j = 0 then None else Some (8 * (j - 1)))"

definition readAt :: "bytes \<Rightarrow> bytes \<Rightarrow> nat \<Rightarrow> decState" where
  "readAt key m q =
     \<lparr>d_decrypted = decChain key m (q div 8), d_crypt = 8 * (q div 8 + 1), d_pre = preOf (q div 8), d_pos = q mod 8\<rparr>"

definition plainByte :: "bytes \<Rightarrow> bytes \<Rightarrow> nat \<Rightarrow> u8" where
  "plainByte key m q = preByte m (preOf (q div 8)) (q mod 8) XOR decChain key m (q div 8) ! (q mod 8)"

lemma next_div: "q mod 8 = 7 \<Longrightarrow> Suc q div 8 = Suc (q div 8) \<and> Suc q mod 8 = (0 :: nat)"
  "q mod 8 \<noteq> 7 \<Longrightarrow> Suc q div 8 = q div 8 \<and> Suc q mod 8 = Suc (q mod 8)" for q :: nat
  by (simp_all add: div_Suc mod_Suc)

lemma readAt_pos: "d_pos (readAt key m q) < 8" "d_pos (readAt key m q) = q mod 8"
  by (simp_all add: readAt_def)

lemma readAt_next:
  "q mod 8 \<noteq> 7 \<Longrightarrow> (readAt key m q)\<lparr>d_pos := Suc (q mod 8)\<rparr> = readAt key m (Suc q)"
  "q mod 8 = 7 \<Longrightarrow> nextBlock key m (Some (8 * (q div 8))) ((readAt key m q)\<lparr>d_pos := Suc (q mod 8)\<rparr>) = readAt key m (Suc q)"
  using next_div [of q] by (simp_all add: readAt_def nextBlock_def preOf_def)

lemma decSkip_read:
  assumes "q < 15"
  shows "i < 2 \<Longrightarrow> decSkip key m i (readAt key m q) = decSkip key m (Suc i) (readAt key m (Suc q))"
proof -
  assume i: "i < 2"
  show ?thesis
  proof (cases "q mod 8 = 7")
    case True
    then have "q = 7" using assms by presburger
    then show ?thesis using i readAt_next(2) [of q key m]
      by (subst decSkip.simps) (simp add: readAt_pos(2))
  next
    case False
    then have "Suc (q mod 8) < 8" by presburger
    then show ?thesis using i readAt_next(1) [OF False] by (subst decSkip.simps) (simp add: readAt_pos(2))
  qed
qed

lemma decSkip_done [simp]: "decSkip key m 2 st = st" "decSkip key m (Suc (Suc 0)) st = st"
  by (subst decSkip.simps, simp)+

lemma decText_read:
  assumes "int (length (ba_data buf)) + int (len - i) \<le> ba_capacity buf" "i \<le> len"
  shows "decText key m len i (readAt key m q) buf =
    (readAt key m (q + (len - i)), buf\<lparr>ba_data := ba_data buf @ map (plainByte key m) [q ..< q + (len - i)]\<rparr>)"
  using assms
proof (induction "len - i" arbitrary: i q buf)
  case 0
  then show ?case by (subst decText.simps) simp
next
  case (Suc n)
  then have less: "i < len" by simp
  let ?b = "plainByte key m q" let ?t = "buf\<lparr>ba_data := ba_data buf @ [?b]\<rparr>"
  have byte: "preByte m (d_pre (readAt key m q)) (q mod 8) XOR d_decrypted (readAt key m q) ! (q mod 8) = ?b"
    by (simp add: readAt_def plainByte_def)
  have app: "appendBytes [?b] buf = ?t" by (rule appendBytes_fits) (use Suc.prems less in simp)
  have crypt: "d_crypt (readAt key m q) - 8 = 8 * (q div 8)" by (simp add: readAt_def)
  have step: "decText key m len i (readAt key m q) buf = decText key m len (Suc i) (readAt key m (Suc q)) ?t"
  proof (cases "q mod 8 = 7")
    case True
    then show ?thesis using less readAt_next(2) [OF True, of key m] byte app crypt
      by (subst decText.simps) (simp add: readAt_pos(2))
  next
    case False
    then have "Suc (q mod 8) < 8" by presburger
    then show ?thesis using less readAt_next(1) [OF False, of key m] byte app
      by (subst decText.simps) (simp add: readAt_pos(2))
  qed
  have "n = len - Suc i" using Suc.hyps(2) by simp
  moreover have "int (length (ba_data ?t)) + int (len - Suc i) \<le> ba_capacity ?t" using Suc.prems less by simp
  ultimately have "decText key m len (Suc i) (readAt key m (Suc q)) ?t =
      (readAt key m (Suc q + (len - Suc i)), ?t\<lparr>ba_data := ba_data ?t @ map (plainByte key m) [Suc q ..< Suc q + (len - Suc i)]\<rparr>)"
    using less by (intro Suc.hyps(1)) simp_all
  moreover have total: "q + (len - i) = Suc q + (len - Suc i)" using less by simp
  moreover have "[q ..< Suc q + (len - Suc i)] = q # [Suc q ..< Suc q + (len - Suc i)]" by (rule upt_conv_Cons) simp
  ultimately show ?case unfolding total using step by (simp del: upt_Suc)
qed

lemma decTail_read:
  assumes "q mod 8 + n = 8" "n \<noteq> 0"
  shows "decTail m n (readAt key m q) =
    (if \<forall>i \<in> {q ..< q + n}. plainByte key m i = 0 then (True, 8 * (q div 8 + 1) + 8) else (False, 8 * (q div 8 + 1)))"
  using assms
proof (induction n arbitrary: q)
  case (Suc n)
  have byte: "preByte m (d_pre (readAt key m q)) (q mod 8) XOR d_decrypted (readAt key m q) ! (q mod 8) = plainByte key m q"
    by (simp add: readAt_def plainByte_def)
  have crypt: "d_crypt (readAt key m q) = 8 * (q div 8 + 1)" by (simp add: readAt_def)
  have range: "{q ..< q + Suc n} = insert q {Suc q ..< Suc q + n}" by auto
  show ?case
  proof (cases "n = 0")
    case True
    with Suc.prems have "q mod 8 = 7" by simp
    then show ?thesis using True byte crypt by (simp add: readAt_pos(2))
  next
    case False
    with Suc.prems have mod: "q mod 8 \<noteq> 7" "Suc (q mod 8) \<noteq> 8" by simp_all
    note nd = next_div(2) [OF mod(1)]
    have "decTail m n (readAt key m (Suc q)) =
      (if \<forall>i \<in> {Suc q ..< Suc q + n}. plainByte key m i = 0 then (True, 8 * (q div 8 + 1) + 8) else (False, 8 * (q div 8 + 1)))"
      using Suc.IH [of "Suc q"] Suc.prems False nd by simp
    then show ?thesis unfolding range using byte crypt readAt_next(1) [OF mod(1), of key m] mod(2) nd
      by (simp add: readAt_pos(2) Let_def)
  qed
qed simp

text \<open>Decryption in terms of the bytes it recovers.\<close>

definition padLength :: "bytes \<Rightarrow> bytes \<Rightarrow> nat" where
  "padLength key m = unat (plainByte key m 0 AND 7)"

lemma decrypt_reads:
  fixes behind key :: bytes
  assumes "16 \<le> length code" "length code mod 8 = 0"
  defines "m \<equiv> code @ behind" and "n \<equiv> length code"
  defines "p \<equiv> padLength key m"
  shows "n < p + 10 \<Longrightarrow> decrypt code key behind = (newByteArray 0, 8)"
    "p + 10 \<le> n \<Longrightarrow> decrypt code key behind =
      (if \<forall>i \<in> {n - 7 ..< n}. plainByte key m i = 0
       then (\<lparr>ba_capacity = int (n - p - 10), ba_data = map (plainByte key m) [p + 3 ..< n - 7]\<rparr>, n + 8)
       else (newByteArray 0, n))"
proof -
  have first: "unat (decipher (blockOf 0 m) key ! 0 AND 7) = p"
    by (simp add: p_def padLength_def plainByte_def preByte_def preOf_def)
  have uint: "uint (decipher (blockOf 0 m) key ! 0 AND 7) = int p" by (simp flip: first)
  show "n < p + 10 \<Longrightarrow> decrypt code key behind = (newByteArray 0, 8)"
    using assms(1,2) by (simp add: decrypt_def Let_def n_def m_def [symmetric] uint)
  assume long: "p + 10 \<le> n"
  have "plainByte key m 0 AND 7 \<le> 7" by (rule word_and_le1)
  then have p: "p \<le> 7" unfolding p_def padLength_def word_le_nat_alt by simp
  let ?st = "\<lparr>d_decrypted = decipher (blockOf 0 m) key, d_crypt = 8, d_pre = None, d_pos = p + 1\<rparr>"
  have skip: "decSkip key m 0 ?st = readAt key m (p + 3)"
  proof (cases "p = 7")
    case True
    have "nextBlock key m (Some 0) ?st = readAt key m 8"
      by (simp add: readAt_def nextBlock_def preOf_def)
    then have "decSkip key m 0 ?st = decSkip key m 0 (readAt key m 8)" using True by (subst decSkip.simps) simp
    also have "\<dots> = decSkip key m 2 (readAt key m 10)"
      by (subst decSkip.simps, simp add: readAt_def, subst decSkip.simps) (simp add: readAt_def numeral_2_eq_2)
    finally show ?thesis using True by simp
  next
    case False
    with p have less: "p < 7" by simp
    then have "?st = readAt key m (p + 1)" by (simp add: readAt_def preOf_def)
    then have "decSkip key m 0 ?st = decSkip key m 1 (readAt key m (p + 2))"
      using decSkip_read [of "p + 1" 0 key m] less by simp
    also have "\<dots> = decSkip key m 2 (readAt key m (p + 3))"
      using decSkip_read [of "p + 2" 1 key m] less by (simp add: eval_nat_numeral)
    finally show ?thesis by simp
  qed
  obtain l where l: "n - p - 10 = l" by blast
  then have len: "int n - int p - 10 = int l" "p + 3 + l = n - 7" "\<not> int n - int p < 10" using long by simp_all
  then have body: "decText key m l 0 (readAt key m (p + 3)) (newByteArray (int l))
      = (readAt key m (n - 7), \<lparr>ba_capacity = int l, ba_data = map (plainByte key m) [p + 3 ..< n - 7]\<rparr>)"
    using decText_read [of "newByteArray (int l)" l 0 key m "p + 3"] by (simp add: newByteArray_def)
  obtain k where k: "n = 8 * k" "2 \<le> k" using assms(1,2) unfolding n_def by (auto elim!: dvdE simp: mod_eq_0_iff_dvd)
  then have "n - 7 = 8 * (k - 1) + 1" by simp
  moreover have "(8 * j + 1) div 8 = j" "(8 * j + 1) mod 8 = 1" for j :: nat by presburger+
  ultimately have "(n - 7) mod 8 = 1" "8 * ((n - 7) div 8 + 1) = n" "n - 7 + 7 = n" using k by (simp_all del: One_nat_def)
  then have tail: "decTail m 7 (readAt key m (n - 7)) = (if \<forall>i \<in> {n - 7 ..< n}. plainByte key m i = 0 then (True, n + 8) else (False, n))"
    using decTail_read [where q = "n - 7" and n = 7 and key = key and m = m] by simp
  show "decrypt code key behind = (if \<forall>i \<in> {n - 7 ..< n}. plainByte key m i = 0
       then (\<lparr>ba_capacity = int (n - p - 10), ba_data = map (plainByte key m) [p + 3 ..< n - 7]\<rparr>, n + 8)
       else (newByteArray 0, n))"
    unfolding l using assms(1,2) skip [simplified]
    by (simp add: decrypt_def Let_def m_def [symmetric] n_def [symmetric] first uint len(1,3) body tail)
qed

subsection \<open>What encryption writes\<close>

primrec encChain :: "bytes \<Rightarrow> bytes \<Rightarrow> nat \<Rightarrow> bytes \<times> bytes" where
  "encChain key S 0 = (blockOf 0 S, encipher (blockOf 0 S) key)"
| "encChain key S (Suc j) =
     (let (p, c) = encChain key S j; p' = xorBytes (blockOf (8 * Suc j) S) c
      in (p', xorBytes (encipher p' key) p))"

definition cipherBlocks :: "bytes \<Rightarrow> bytes \<Rightarrow> nat \<Rightarrow> bytes" where
  "cipherBlocks key S n = concat (map (\<lambda>j. snd (encChain key S j)) [0 ..< n])"

text \<open>The state after the first q bytes of the padded text have been put into it.\<close>

definition writtenTo :: "bytes \<Rightarrow> bytes \<Rightarrow> nat \<Rightarrow> int \<Rightarrow> encState \<Rightarrow> bool" where
  "writtenTo key S q cap st \<longleftrightarrow>
     e_pos st = q mod 8 \<and> length (e_plain st) = 8
     \<and> take (q mod 8) (e_plain st) = take (q mod 8) (drop (8 * (q div 8)) S)
     \<and> (case q div 8 of
          0 \<Rightarrow> e_isHeader st \<and> e_plain_pre st = replicate 8 0 \<and> e_crypted_pre st = replicate 8 0
        | Suc j \<Rightarrow> \<not> e_isHeader st \<and> (e_plain_pre st, e_crypted_pre st) = encChain key S j)
     \<and> ba_data (e_encoded st) = cipherBlocks key S (q div 8) \<and> ba_capacity (e_encoded st) = cap"

lemma length_xorBytes [simp]: "length (xorBytes a b) = min (length a) (length b)"
  by (simp add: xorBytes_def)

lemma nth_xorBytes: "i < length a \<Longrightarrow> i < length b \<Longrightarrow> xorBytes a b ! i = a ! i XOR b ! i"
  by (simp add: xorBytes_def)

lemma xorBytes_zero: "xorBytes a (replicate (length a) 0) = a"
  by (rule nth_equalityI) (simp_all add: nth_xorBytes)

lemma xorBytes_back:
  assumes "length a = length b"
  shows "xorBytes b (xorBytes a b) = a"
proof (rule nth_equalityI)
  have "y XOR (x XOR y) = x" for x y :: u8 by (metis xor.commute xor.left_neutral xor.assoc xor_self_eq)
  then show "i < length (xorBytes b (xorBytes a b)) \<Longrightarrow> xorBytes b (xorBytes a b) ! i = a ! i" for i
    using assms by (simp add: nth_xorBytes)
qed (simp add: assms)

lemma length_blockOf: "off + 8 \<le> length S \<Longrightarrow> length (blockOf off S) = 8"
  by (simp add: blockOf_def)

lemma length_encChain:
  "8 * Suc j \<le> length S \<Longrightarrow> length (fst (encChain key S j)) = 8 \<and> length (snd (encChain key S j)) = 8"
proof (induction j)
  case (Suc j)
  then show ?case by (simp add: Let_def case_prod_unfold length_blockOf)
qed (simp add: length_blockOf)

lemma length_cipherBlocks: "8 * n \<le> length S \<Longrightarrow> length (cipherBlocks key S n) = 8 * n"
  by (induction n) (simp_all add: cipherBlocks_def length_encChain)

lemma cipherBlocks_Suc: "cipherBlocks key S (Suc n) = cipherBlocks key S n @ snd (encChain key S n)"
  by (simp add: cipherBlocks_def)

lemma flush_block:
  assumes "e_plain st = blockOf (8 * j) S" "8 * Suc j \<le> length S"
    "case j of 0 \<Rightarrow> e_isHeader st \<and> e_plain_pre st = replicate 8 0 \<and> e_crypted_pre st = replicate 8 0
      | Suc i \<Rightarrow> \<not> e_isHeader st \<and> (e_plain_pre st, e_crypted_pre st) = encChain key S i"
    "ba_data (e_encoded st) = cipherBlocks key S j" "ba_capacity (e_encoded st) = cap" "int (8 * Suc j) \<le> cap"
  shows "writtenTo key S (8 * Suc j) cap (encrypt64 key st)"
proof -
  have len: "length (blockOf (8 * j) S) = 8" using assms(2) by (simp add: length_blockOf)
  have chain: "(e_plain_pre (encrypt64 key st), e_crypted_pre (encrypt64 key st)) = encChain key S j"
  proof (cases j)
    case 0
    then show ?thesis using assms(1,3) xorBytes_zero [of "blockOf 0 S"] xorBytes_zero [of "encipher (blockOf 0 S) key"] len
      by (simp add: encrypt64_def Let_def)
  next
    case (Suc i)
    obtain p c where pc: "encChain key S i = (p, c)" by (cases "encChain key S i")
    with Suc assms(3) have "\<not> e_isHeader st" "e_plain_pre st = p" "e_crypted_pre st = c" by simp_all
    then show ?thesis using assms(1) Suc pc by (simp add: encrypt64_def Let_def)
  qed
  have enc: "e_encoded (encrypt64 key st) = appendBytes (e_crypted_pre (encrypt64 key st)) (e_encoded st)"
    by (simp add: encrypt64_def Let_def)
  have crypted: "e_crypted_pre (encrypt64 key st) = snd (encChain key S j)"
    using chain by (metis snd_conv)
  have "8 * j \<le> length S" using assms(2) by simp
  note sizes = length_cipherBlocks [OF this, of key] conjunct2 [OF length_encChain [OF assms(2), of key]]
  have "int (length (ba_data (e_encoded st)) + length (snd (encChain key S j))) \<le> ba_capacity (e_encoded st)"
    unfolding assms(4,5) sizes using assms(6) by simp
  then have "ba_data (e_encoded (encrypt64 key st)) = cipherBlocks key S (Suc j)" "ba_capacity (e_encoded (encrypt64 key st)) = cap"
    unfolding enc crypted by (simp_all add: appendBytes_fits cipherBlocks_Suc assms(4,5))
  moreover have "e_pos (encrypt64 key st) = 0" "\<not> e_isHeader (encrypt64 key st)"
    "e_plain (encrypt64 key st) = e_plain_pre (encrypt64 key st)"
    by (simp_all add: encrypt64_def Let_def)
  moreover have "e_plain_pre (encrypt64 key st) = fst (encChain key S j)" using chain by (metis fst_conv)
  moreover have "8 * Suc j div 8 = Suc j" "8 * Suc j mod 8 = 0" by (simp_all only: nonzero_mult_div_cancel_left mod_mult_self1_is_0)
  ultimately show ?thesis
    using chain length_encChain [OF assms(2), of key] unfolding writtenTo_def by (simp del: mult_Suc_right encChain.simps)
qed

lemma writtenTo_byte:
  assumes "writtenTo key S q cap st" "q < length S" "int (Suc q) \<le> cap"
  shows "writtenTo key S (Suc q) cap (encByte key (S ! q) st)"
proof -
  let ?j = "q div 8" and ?i = "q mod 8" and ?st = "putByte (S ! q) st"
  note st = assms(1) [unfolded writtenTo_def]
  have q: "8 * ?j + ?i = q" "?i < 8" by simp_all
  have put: "?st = st\<lparr>e_plain := (e_plain st)[?i := S ! q], e_pos := Suc ?i\<rparr>" using st q(2) by (simp add: putByte_def)
  have "take (Suc ?i) ((e_plain st)[?i := S ! q]) = take ?i (e_plain st) @ [S ! q]"
    using st q(2) by (simp add: take_Suc_conv_app_nth)
  also have "\<dots> = take (Suc ?i) (drop (8 * ?j) S)"
  proof -
    have "8 * ?j \<le> length S" "?i < length (drop (8 * ?j) S)" using q(1) assms(2) by (simp_all add: less_diff_conv)
    from nth_drop [OF this(1), of ?i] take_Suc_conv_app_nth [OF this(2)] show ?thesis
      unfolding q(1) using st by simp
  qed
  finally have pre: "take (Suc ?i) (e_plain ?st) = take (Suc ?i) (drop (8 * ?j) S)" by (simp add: put)
  show ?thesis
  proof (cases "?i = 7")
    case True
    with q(1) have suc: "Suc q = 8 * Suc ?j" by simp
    have "e_plain ?st = blockOf (8 * ?j) S" using pre True st by (simp add: put blockOf_def)
    then have "writtenTo key S (8 * Suc ?j) cap (encrypt64 key ?st)"
      by (rule flush_block) (use st assms(2,3) suc in \<open>simp_all add: put split: nat.splits\<close>)
    then show ?thesis unfolding suc encByte_def Let_def using True by (simp add: put)
  next
    case False
    then have "encByte key (S ! q) st = ?st" using q(2) by (simp add: encByte_def Let_def put)
    moreover have "writtenTo key S (Suc q) cap ?st"
      unfolding writtenTo_def conjunct1 [OF next_div(2) [OF False]] conjunct2 [OF next_div(2) [OF False]]
      using st pre by (cases ?j) (simp_all add: put)
    ultimately show ?thesis by simp
  qed
qed

lemma writtenTo_bytes:
  assumes "writtenTo key S q cap st" "drop q S = bs @ rest" "int (q + length bs) \<le> cap"
  shows "writtenTo key S (q + length bs) cap (fold (encByte key) bs st)"
  using assms
proof (induction bs arbitrary: q st)
  case (Cons b bs)
  have "q < length S" using Cons.prems(2) by (cases "q < length S") simp_all
  moreover from this have "S ! q = b" "drop (Suc q) S = bs @ rest"
    using Cons.prems(2) by (simp_all add: Cons_nth_drop_Suc [symmetric])
  moreover have "int (Suc q) \<le> cap" using Cons.prems(3) by simp
  ultimately have "writtenTo key S (Suc q) cap (encByte key b st)" using writtenTo_byte [OF Cons.prems(1)] by blast
  from Cons.IH [OF this] Cons.prems(3) \<open>drop (Suc q) S = bs @ rest\<close> show ?case by simp
qed simp

lemma encTail_fold:
  "e_pos st + n = 8 \<Longrightarrow> n \<noteq> 0 \<Longrightarrow> encTail key n st = fold (encByte key) (replicate n 0) st"
proof (induction n arbitrary: st)
  case (Suc n)
  then have put: "e_pos (putByte 0 st) = Suc (e_pos st)" by (simp add: putByte_def)
  then show ?case using Suc by (cases "n = 0") (simp_all add: encByte_def Let_def)
qed simp

lemma encTail_short: "e_pos st + n < 8 \<Longrightarrow> e_encoded (encTail key n st) = e_encoded st"
proof (induction n arbitrary: st)
  case (Suc n)
  then have "e_pos (putByte 0 st) = Suc (e_pos st)" "e_encoded (putByte 0 st) = e_encoded st" by (simp_all add: putByte_def)
  with Suc show ?case by (simp add: Let_def)
qed simp

text \<open>The padded text: the two bytes after the padding are there only when the first block has room.\<close>

definition padOf :: "nat \<Rightarrow> nat" where
  "padOf len = (let pos = (len + 10) mod 8 in if pos \<noteq> 0 then 8 - pos else pos)"

definition paddedText :: "bytes \<Rightarrow> bytes" where
  "paddedText text =
     (let pad = padOf (length text)
      in (0xa8 OR of_nat pad) # replicate pad 0xad
         @ (if pad = 7 then 0xad # text else [0xad, 0xad] @ text @ replicate 7 0))"

lemma padOf_mod: "padOf len = (if len mod 8 = 7 then 7 else 6 - len mod 8)"
proof -
  have "(len + 10) mod 8 = (len mod 8 + 10) mod 8" by (rule mod_add_left_eq [symmetric])
  moreover have "len mod 8 < 8" by simp
  then have "len mod 8 \<in> {0, 1, 2, 3, 4, 5, 6, 7}" by auto
  ultimately show ?thesis unfolding padOf_def Let_def by auto
qed

lemma padOf_le: "padOf len \<le> 7"
  unfolding padOf_mod by (cases "len mod 8 = 7") (simp_all add: le_diff_conv)

lemma length_paddedText:
  "length (paddedText text) = (if length text mod 8 = 7 then length text + 9 else 16 + 8 * (length text div 8))"
proof -
  have "length (paddedText text) = 1 + padOf (length text) + (if padOf (length text) = 7 then 1 else 9) + length text"
    by (simp add: paddedText_def Let_def)
  then have size: "length (paddedText text) = 1 + (if length text mod 8 = 7 then 7 else 6 - length text mod 8)
      + (if (if length text mod 8 = 7 then 7 else 6 - length text mod 8) = 7 then 1 else 9) + length text"
    unfolding padOf_mod .
  show ?thesis
  proof (cases "length text mod 8 = 7")
    case False
    have "length text mod 8 < 8" by simp
    with False have "length text mod 8 \<le> 6" by arith
    moreover have "8 * (length text div 8) + length text mod 8 = length text" by simp
    ultimately have "6 - length text mod 8 \<noteq> 7" "1 + (6 - length text mod 8) + 9 + length text = 16 + 8 * (length text div 8)"
      by arith+
    with False show ?thesis unfolding size by (simp only: if_False)
  qed (simp add: size)
qed

lemma paddedText_blocks: "length (paddedText text) mod 8 = 0" "16 \<le> length (paddedText text)"
  "length (paddedText text) \<le> length text + 32"
proof -
  have d: "8 * (length text div 8) + length text mod 8 = length text" by simp
  show "length (paddedText text) mod 8 = 0"
    unfolding length_paddedText by (auto simp: mod_add_left_eq [of "length text" 8 9, symmetric])
  show "16 \<le> length (paddedText text)" "length (paddedText text) \<le> length text + 32"
    unfolding length_paddedText using d by (auto split: if_splits)
qed

lemma encryptStart_eq:
  "encryptStart len = \<lparr>e_plain = (0xa8 OR of_nat (padOf len)) # replicate (padOf len) 0xad @ replicate (7 - padOf len) 0,
     e_plain_pre = replicate 8 0, e_crypted_pre = replicate 8 0, e_isHeader = True, e_pos = padOf len + 1,
     e_encoded = newByteArray (int len + 32)\<rparr>"
proof -
  have "(ucast (evaRand AND 0xf8) :: u8) = 0xa8" "(ucast (evaRand AND 0xff) :: u8) = 0xad" by (simp_all add: evaRand_def)
  moreover have "replicate 8 (0 :: u8) = 0 # replicate 7 0" by (simp add: eval_nat_numeral)
  ultimately show ?thesis unfolding encryptStart_def padOf_def [symmetric] Let_def padOf_def [unfolded Let_def, symmetric]
    by (simp only: list_update_code) simp
qed

lemma seven_back: "n mod 8 = 0 \<Longrightarrow> 8 \<le> n \<Longrightarrow> (n - 7) mod 8 = 1" for n :: nat
proof -
  assume "n mod 8 = 0" "8 \<le> n"
  then obtain k where "n = 8 * Suc k" by (metis dvdE mod_0_imp_dvd not0_implies_Suc mult_0_right not_numeral_le_zero)
  then have "n - 7 = 1 + 8 * k" by simp
  then show ?thesis by (simp only: mod_mult_self2) simp
qed

lemma encrypt_writes:
  "ba_data (encrypt text key) = cipherBlocks key (paddedText text) (length (paddedText text) div 8)"
proof -
  let ?S = "paddedText text" and ?pad = "padOf (length text)" and ?cap = "int (length text) + 32"
  let ?h = "0xa8 OR of_nat ?pad :: u8" and ?st = "encryptStart (length text)"
  have cap: "int (length ?S) \<le> ?cap" using paddedText_blocks(3) [of "text"] by simp
  have "replicate 2 b = [b, b]" for b :: u8 by (simp add: numeral_2_eq_2)
  moreover have "(ucast (evaRand AND 0xff) :: u8) = 0xad" by (simp add: evaRand_def)
  ultimately have two: "replicate 2 (ucast (evaRand AND 0xff) :: u8) = [0xad, 0xad]" by metis
  show ?thesis
  proof (cases "?pad = 7")
    case True
    then have S: "?S = (?h # replicate 7 0xad) @ 0xad # text" by (simp add: paddedText_def)
    then have n: "length ?S = 9 + length text" by simp
    have plain: "e_plain ?st = blockOf (8 * 0) ?S" using S True by (simp add: encryptStart_eq blockOf_def)
    have "writtenTo key ?S (8 * Suc 0) ?cap (encrypt64 key ?st)"
      by (rule flush_block [OF plain]) (use n in \<open>simp_all add: encryptStart_eq newByteArray_def cipherBlocks_def\<close>)
    moreover have "encByte key 0xad ?st = encrypt64 key ?st" using True by (simp add: encByte_def putByte_def encryptStart_eq)
    ultimately have first: "writtenTo key ?S 8 ?cap (encByte key 0xad ?st)" by simp
    have "drop 8 ?S = (0xad # text) @ []" using S by simp
    from writtenTo_bytes [OF first this] have "writtenTo key ?S (length ?S) ?cap (fold (encByte key) text (encByte key 0xad (encByte key 0xad ?st)))"
      using n cap by simp
    then have "e_pos (fold (encByte key) text (encByte key 0xad (encByte key 0xad ?st))) = 0"
      "ba_data (e_encoded (fold (encByte key) text (encByte key 0xad (encByte key 0xad ?st)))) = cipherBlocks key ?S (length ?S div 8)"
      using paddedText_blocks(1) [of "text"] by (simp_all add: writtenTo_def)
    then show ?thesis by (simp add: encrypt_def Let_def two encTail_short)
  next
    case False
    with padOf_le [of "length text"] have less: "?pad < 7" by simp
    have S: "?S = (?h # replicate ?pad 0xad) @ ([0xad, 0xad] @ text @ replicate 7 0)" using False by (simp add: paddedText_def Let_def)
    then have n: "length ?S = ?pad + 1 + 2 + length text + 7" by simp
    have first: "writtenTo key ?S (?pad + 1) ?cap ?st"
      using less S by (simp add: writtenTo_def encryptStart_eq newByteArray_def cipherBlocks_def)
    have "drop (?pad + 1) ?S = ([0xad, 0xad] @ text) @ replicate 7 0" using S by simp
    note fed = writtenTo_bytes [OF first this]
    have q: "?pad + 1 + length ([0xad, 0xad] @ text) = length ?S - 7" using n by simp
    have put: "writtenTo key ?S (length ?S - 7) ?cap (fold (encByte key) text (fold (encByte key) [0xad, 0xad] ?st))"
      using fed [unfolded q] cap by simp
    let ?st' = "fold (encByte key) text (fold (encByte key) [0xad, 0xad] ?st)"
    have "(length ?S - 7) mod 8 = 1" by (rule seven_back) (use paddedText_blocks [of "text"] in simp_all)
    then have "e_pos ?st' + 7 = 8" using put by (simp add: writtenTo_def)
    then have tail: "encTail key 7 ?st' = fold (encByte key) (replicate 7 0) ?st'" by (rule encTail_fold) simp
    let ?X = "(?h # replicate ?pad 0xad) @ [0xad, 0xad] @ text"
    have "?S = ?X @ replicate 7 0" "length ?S - 7 = length ?X" using S n by simp_all
    then have "drop (length ?S - 7) ?S = replicate 7 0 @ []" by (metis append_Nil2 append_eq_conv_conj)
    note fed = writtenTo_bytes [OF put this]
    have q: "length ?S - 7 + length (replicate 7 (0 :: u8)) = length ?S" using n by simp
    have "writtenTo key ?S (length ?S) ?cap (encTail key 7 ?st')"
      unfolding tail using fed [unfolded q] cap by blast
    then show ?thesis by (simp add: encrypt_def Let_def two writtenTo_def)
  qed
qed

subsection \<open>Decrypting what was encrypted\<close>

lemma cipherBlocks_block:
  assumes "j < n" "8 * n \<le> length S"
  shows "blockOf (8 * j) (cipherBlocks key S n @ behind) = snd (encChain key S j)"
proof -
  have "[0 ..< n] = [0 ..< j] @ j # [Suc j ..< n]" using assms(1) by (metis less_imp_add_positive upt_add_eq_append upt_conv_Cons zero_le add.left_neutral less_or_eq_imp_le)
  then have "cipherBlocks key S n = cipherBlocks key S j @ snd (encChain key S j)
      @ concat (map (\<lambda>j. snd (encChain key S j)) [Suc j ..< n])"
    by (simp add: cipherBlocks_def)
  moreover have "length (cipherBlocks key S j) = 8 * j" "length (snd (encChain key S j)) = 8"
    using assms length_cipherBlocks [of j S key] length_encChain [of j S key] by simp_all
  ultimately show ?thesis by (simp add: blockOf_def)
qed

lemma decChain_encChain:
  assumes "8 * n \<le> length S"
  shows "j < n \<Longrightarrow> decChain key (cipherBlocks key S n @ behind) j = fst (encChain key S j)"
proof (induction j)
  case 0
  then have "length (blockOf 0 S) = 8" using assms by (simp add: length_blockOf)
  then show ?case using cipherBlocks_block [OF 0 assms, of key behind] by (simp add: decipher_encipher)
next
  case (Suc j)
  obtain p c where pc: "encChain key S j = (p, c)" by (cases "encChain key S j")
  have sizes: "8 * Suc j \<le> length S" "8 * Suc (Suc j) \<le> length S" using Suc.prems assms by simp_all
  have p: "length p = 8" "length c = 8" using length_encChain [OF sizes(1), of key] pc by simp_all
  let ?p = "xorBytes (blockOf (8 * Suc j) S) c"
  have "length ?p = 8" using p(2) length_blockOf [of "8 * Suc j" S] sizes(2) by simp
  then have "decipher (xorBytes p (xorBytes (encipher ?p key) p)) key = ?p"
    using p(1) by (simp add: xorBytes_back decipher_encipher)
  moreover have "blockOf (8 * Suc j) (cipherBlocks key S n @ behind) = xorBytes (encipher ?p key) p"
    using cipherBlocks_block [OF Suc.prems assms, of key behind] pc by (simp add: Let_def)
  ultimately show ?case using Suc.IH Suc.prems pc by (simp add: Let_def)
qed

lemma blockOf_nth: "off + 8 \<le> length m \<Longrightarrow> i < 8 \<Longrightarrow> blockOf off m ! i = m ! (off + i)"
  by (simp add: blockOf_def)

lemma drop_nths: "drop k S = map ((!) S) [k ..< length S]"
  by (metis map_nth drop_map drop_upt add_0)

lemma plainByte_padded:
  assumes "8 * n \<le> length S" "q < 8 * n"
  shows "plainByte key (cipherBlocks key S n @ behind) q = S ! q"
proof -
  let ?m = "cipherBlocks key S n @ behind" and ?j = "q div 8" and ?i = "q mod 8"
  have q: "8 * ?j + ?i = q" "?i < 8" "?j < n" using assms(2) by (simp_all add: less_mult_imp_div_less mult.commute)
  have block: "blockOf (8 * ?j) S ! ?i = S ! q" "8 * Suc ?j \<le> length S"
    using q assms by (simp_all add: blockOf_def)
  note dec = decChain_encChain [OF assms(1) q(3), of key behind]
  show ?thesis
  proof (cases ?j)
    case 0
    then show ?thesis using dec block(1) by (simp add: plainByte_def preOf_def preByte_def)
  next
    case (Suc j)
    obtain p c where pc: "encChain key S j = (p, c)" by (cases "encChain key S j")
    have "length c = 8" "length (blockOf (8 * ?j) S) = 8"
      using length_encChain [of j S key] pc length_blockOf [of "8 * ?j" S] block(2) Suc by simp_all
    moreover have "fst (encChain key S ?j) = xorBytes (blockOf (8 * ?j) S) c" using Suc pc by (simp add: Let_def)
    moreover have "?m ! (8 * j + ?i) = c ! ?i"
    proof -
      have "blockOf (8 * j) ?m = c" using cipherBlocks_block [of j n S key behind] assms(1) q(3) Suc pc by simp
      moreover have "8 * j + 8 \<le> length ?m" using length_cipherBlocks [OF assms(1), of key] q(3) Suc by simp
      ultimately show ?thesis using blockOf_nth [of "8 * j" ?m ?i] q(2) by simp
    qed
    ultimately have "plainByte key ?m q = c ! ?i XOR (S ! q XOR c ! ?i)"
      using dec q(2) block(1) Suc by (simp add: plainByte_def preOf_def preByte_def nth_xorBytes)
    then show ?thesis by (metis xor.commute xor.left_neutral xor.assoc xor_self_eq)
  qed
qed

lemma padByte: "n < 8 \<Longrightarrow> unat ((0xa8 OR of_nat n :: u8) AND 7) = n"
proof -
  assume "n < 8"
  then have "n \<in> {0, 1, 2, 3, 4, 5, 6, 7}" by auto
  then show ?thesis by auto
qed

lemma decrypt_encrypted:
  fixes t key behind :: bytes
  defines "S \<equiv> paddedText t" and "pad \<equiv> padOf (length t)"
  shows "fst (decrypt (ba_data (encrypt t key)) key behind) =
    (if pad + 10 \<le> length S \<and> (\<forall>x \<in> set (drop (length S - 7) S). x = 0)
     then \<lparr>ba_capacity = int (length S - pad - 10), ba_data = drop (pad + 3) (take (length S - 7) S)\<rparr> else newByteArray 0)"
proof -
  let ?n = "length S div 8" let ?code = "cipherBlocks key S ?n"
  have n: "8 * ?n = length S" using paddedText_blocks(1) [of t] unfolding S_def by (simp add: mod_0_imp_dvd)
  then have "8 * ?n \<le> length S" by simp
  note code = length_cipherBlocks [OF this, of key] and plain = plainByte_padded [OF this, of _ key behind]
  have enc: "ba_data (encrypt t key) = ?code" by (simp add: encrypt_writes S_def)
  have len: "length ?code = length S" using code n by simp
  have ok: "16 \<le> length ?code" "length ?code mod 8 = 0"
    unfolding len by (simp_all only: S_def paddedText_blocks)
  have "S ! 0 = 0xa8 OR of_nat pad" by (simp add: S_def paddedText_def pad_def Let_def)
  then have pad: "padLength key (?code @ behind) = pad"
    using plain [of 0] ok(1) padByte [of pad] padOf_le [of "length t"] n len
    by (cases S) (simp_all add: padLength_def pad_def)
  note reads = decrypt_reads [OF ok, of key behind, unfolded pad len]
  show ?thesis
  proof (cases "pad + 10 \<le> length S")
    case False
    then show ?thesis using reads(1) by (simp add: enc)
  next
    case True
    have "(\<forall>i \<in> {length S - 7 ..< length S}. plainByte key (?code @ behind) i = 0)
        = (\<forall>i \<in> {length S - 7 ..< length S}. S ! i = 0)"
      using plain unfolding n by (intro ball_cong refl) simp
    then have zero: "(\<forall>i \<in> {length S - 7 ..< length S}. plainByte key (?code @ behind) i = 0)
        = (\<forall>x \<in> set (drop (length S - 7) S). x = 0)"
      by (simp add: drop_nths)
    have "map (plainByte key (?code @ behind)) [pad + 3 ..< length S - 7] = map ((!) S) [pad + 3 ..< length S - 7]"
      by (intro map_cong refl plain) (use n in auto)
    also have "\<dots> = drop (pad + 3) (take (length S - 7) S)"
      unfolding drop_nths [of "pad + 3" "take (length S - 7) S"] by simp
    finally show ?thesis using reads(2) [OF True] True by (simp add: enc zero)
  qed
qed

lemma decrypt_encrypt:
  assumes "length text mod 8 \<noteq> 7"
  shows "ba_data (fst (decrypt (ba_data (encrypt text key)) key behind)) = text"
proof -
  let ?pad = "padOf (length text)"
  have "?pad \<noteq> 7" using assms by (simp add: padOf_mod)
  then obtain H where S: "paddedText text = H @ text @ replicate 7 0" and H: "length H = ?pad + 3"
    by (auto simp: paddedText_def Let_def intro!: that [of "(0xa8 OR of_nat ?pad) # replicate ?pad 0xad @ [0xad, 0xad]"])
  then have n: "length (paddedText text) = length (H @ text) + 7" by simp
  have "drop (length (paddedText text) - 7) (paddedText text) = replicate 7 0"
    "take (length (paddedText text) - 7) (paddedText text) = H @ text"
    unfolding n unfolding S by simp_all
  then show ?thesis using n H by (simp add: decrypt_encrypted)
qed

text \<open>
  C9: a text whose length is not seven more than a multiple of eight is decrypted to itself with the
  key it was encrypted with, whatever lies behind the ciphertext in memory.
\<close>

theorem qq_crypt_roundtrip:
  assumes "length text mod 8 \<noteq> 7"
  shows "ba_data (fst (decrypt (ba_data (encrypt text key)) key behind)) = text"
  using assms by (rule decrypt_encrypt)

lemma decrypt_encrypt_seven:
  assumes "length text mod 8 = 7"
  shows "ba_data (fst (decrypt (ba_data (encrypt text key)) key behind)) =
      (if 7 < length text \<and> (\<forall>x \<in> set (drop (length text - 7) text). x = 0)
       then drop 1 (take (length text - 7) text) else [])
    \<and> ba_data (fst (decrypt (ba_data (encrypt text key)) key behind)) \<noteq> text"
proof -
  have pad: "padOf (length text) = 7" using assms by (simp add: padOf_mod)
  then obtain H where S: "paddedText text = H @ text" and H: "length H = 9"
    by (auto simp: paddedText_def Let_def intro!: that [of "(0xa8 OR of_nat 7) # replicate 7 0xad @ [0xad]"])
  have "length text \<ge> 7" using assms by (metis mod_less_eq_dividend)
  then have n: "length (paddedText text) = 9 + length text" "7 \<le> length text" using H by (simp_all add: S)
  then have "length (paddedText text) - 7 = length H + (length text - 7)" using H by simp
  then have "drop (length (paddedText text) - 7) (paddedText text) = drop (length text - 7) text"
    "drop (7 + 3) (take (length (paddedText text) - 7) (paddedText text)) = drop 1 (take (length text - 7) text)"
    using H unfolding S by simp_all
  moreover have "8 \<le> length text \<longleftrightarrow> 7 < length text" by auto
  ultimately have result: "ba_data (fst (decrypt (ba_data (encrypt text key)) key behind)) =
      (if 7 < length text \<and> (\<forall>x \<in> set (drop (length text - 7) text). x = 0)
       then drop 1 (take (length text - 7) text) else [])"
    using n by (simp add: decrypt_encrypted pad newByteArray_def)
  then have "length (ba_data (fst (decrypt (ba_data (encrypt text key)) key behind))) < length text" using n(2) by auto
  with result show ?thesis by auto
qed

text \<open>
  A text whose length is seven more than a multiple of eight is lost.  The byte that the full
  first block has no room for is skipped, so the receiver takes the first byte of the text for
  padding and the last seven for the trailing zeros: it recovers nothing, or the text without
  these eight bytes if the seven happen to be zero.
\<close>

theorem seven_mod_eight_lost:
  assumes "length text mod 8 = 7"
  shows "ba_data (fst (decrypt (ba_data (encrypt text key)) key behind)) =
      (if 7 < length text \<and> (\<forall>x \<in> set (drop (length text - 7) text). x = 0)
       then drop 1 (take (length text - 7) text) else [])
    \<and> ba_data (fst (decrypt (ba_data (encrypt text key)) key behind)) \<noteq> text"
  using assms by (rule decrypt_encrypt_seven)

lemma blockOf_behind: "off + 8 \<le> length code \<Longrightarrow> blockOf off (code @ behind) = blockOf off code"
  by (simp add: blockOf_def)

lemma plainByte_behind:
  assumes "length code mod 8 = 0" "q < length code"
  shows "plainByte key (code @ behind) q = plainByte key code q"
proof -
  obtain n where n: "length code = 8 * n" using assms(1) by (auto simp: mod_eq_0_iff_dvd elim!: dvdE)
  have chain: "j < n \<Longrightarrow> decChain key (code @ behind) j = decChain key code j" for j
    by (induction j) (simp_all add: blockOf_behind n)
  have q: "8 * (q div 8) + q mod 8 = q" "q mod 8 < 8" "q div 8 < n"
    using assms(2) n by (simp_all add: less_mult_imp_div_less mult.commute)
  have "8 * (q div 8 - 1) + q mod 8 < length code" using q n by linarith
  then show ?thesis using chain [OF q(3)] by (simp add: plainByte_def preByte_def preOf_def nth_append)
qed

text \<open>
  Decryption reads up to eight bytes past the end of the ciphertext, and always does when it
  returns a text; what it returns does not depend on them.
\<close>

theorem decrypt_reads_past_end:
  "snd (decrypt code key behind) \<le> length code + 8
    \<and> (ba_data (fst (decrypt code key behind)) \<noteq> [] \<longrightarrow> snd (decrypt code key behind) = length code + 8)
    \<and> fst (decrypt code key behind) = fst (decrypt code key behind')"
proof (cases "16 \<le> length code \<and> length code mod 8 = 0")
  case True
  then have ok: "16 \<le> length code" "length code mod 8 = 0" by simp_all
  note plain = plainByte_behind [OF ok(2)]
  have some: "0 < length code" using ok(1) by (cases code) simp_all
  have pad: "padLength key (code @ b) = padLength key code" for b by (simp only: padLength_def plain [OF some])
  note reads = decrypt_reads [OF ok, where key = key, unfolded pad]
  show ?thesis
  proof (cases "padLength key code + 10 \<le> length code")
    case long: True
    have zero: "(\<forall>i \<in> {length code - 7 ..< length code}. plainByte key (code @ b) i = 0)
        = (\<forall>i \<in> {length code - 7 ..< length code}. plainByte key code i = 0)" for b
      by (intro ball_cong refl) (simp add: plain)
    have body: "map (plainByte key (code @ b)) [k ..< length code - 7] = map (plainByte key code) [k ..< length code - 7]" for b k
      by (intro map_cong refl plain) auto
    show ?thesis unfolding reads(2) [OF long] zero body by (simp add: newByteArray_def)
  qed (simp add: reads(1) newByteArray_def)
qed (auto simp: decrypt_def newByteArray_def)

theorem decrypt_reads_past_end_witness:
  "let code = ba_data (encrypt [1, 2, 3] (replicate 16 5)) in
    snd (decrypt code (replicate 16 5) [7, 7]) \<le> length code + 8
    \<and> (ba_data (fst (decrypt code (replicate 16 5) [7, 7])) \<noteq> [] \<longrightarrow> snd (decrypt code (replicate 16 5) [7, 7]) = length code + 8)
    \<and> fst (decrypt code (replicate 16 5) [7, 7]) = fst (decrypt code (replicate 16 5) [])"
  unfolding Let_def by (rule decrypt_reads_past_end)

theorem qq_crypt_roundtrip_witness:
  "ba_data (fst (decrypt (ba_data (encrypt [1, 2, 3] (replicate 16 5))) (replicate 16 5) [])) = [1, 2, 3]"
  by (rule qq_crypt_roundtrip) simp

theorem seven_mod_eight_lost_witness:
  "ba_data (fst (decrypt (ba_data (encrypt [1, 2, 3, 4, 5, 6, 7] (replicate 16 5))) (replicate 16 5) [])) = []"
  using seven_mod_eight_lost [of "[1, 2, 3, 4, 5, 6, 7]" "replicate 16 5" "[]"] by simp

end
