(* ===== verification/QQ_Packet.thy ===== *)
theory QQ_Packet
  imports QQ_Crypt
begin

text \<open>
  The packets of the QQ protocol (\<^verbatim>\<open>libeva.h\<close>, \<^verbatim>\<open>libeva.cpp\<close>): the frame around a command, the
  requests the client makes and the replies it takes apart.

  A packet is assembled in a byte array of a fixed capacity by operations that skip what does not
  fit.  The replies are read with pointer arithmetic, unchecked: an access outside the bytes that
  were received is None here.  Numbers are converted to network order, but some are copied as they
  lie in memory; the machine is little endian, and its \<^verbatim>\<open>char\<close> is signed.
\<close>

subsection \<open>Reading and writing\<close>

definition appendAll :: "bytes list \<Rightarrow> byteArray \<Rightarrow> byteArray" where
  "appendAll parts a = fold appendBytes parts a"

definition rd8 :: "bytes \<Rightarrow> nat \<Rightarrow> u8 option" where
  "rd8 m i = (if i < length m then Some (m ! i) else None)"

definition dec16 :: "bytes \<Rightarrow> u16" where
  "dec16 bs = push_bit 8 (ucast (bs ! 0)) OR ucast (bs ! 1)"

definition rd16 :: "bytes \<Rightarrow> nat \<Rightarrow> u16 option" where
  "rd16 m i = (if i + 2 \<le> length m then Some (dec16 (take 2 (drop i m))) else None)"

definition rd32 :: "bytes \<Rightarrow> nat \<Rightarrow> u32 option" where
  "rd32 m i = (if i + 4 \<le> length m then Some (dec32 (take 4 (drop i m))) else None)"

text \<open>A \<^verbatim>\<open>short\<close> read without \<^verbatim>\<open>ntohs\<close>.\<close>

definition rd16host :: "bytes \<Rightarrow> nat \<Rightarrow> u16 option" where
  "rd16host m i = (if i + 2 \<le> length m then Some (dec16 (rev (take 2 (drop i m)))) else None)"

definition rdBytes :: "bytes \<Rightarrow> nat \<Rightarrow> nat \<Rightarrow> bytes option" where
  "rdBytes m i n = (if i + n \<le> length m then Some (take n (drop i m)) else None)"

text \<open>A C string: the bytes up to the next zero, which has to be there.\<close>

definition rdString :: "bytes \<Rightarrow> nat \<Rightarrow> bytes option" where
  "rdString m i = (if 0 \<in> set (drop i m) then Some (takeWhile (\<lambda>b. b \<noteq> 0) (drop i m)) else None)"

lemma dec16_enc16 [simp]: "dec16 (enc16 w) = w"
  by (rule bit_word_eqI) (auto simp: dec16_def enc16_def bit_simps)

lemma rd16_at: "length a = i \<Longrightarrow> rd16 (a @ enc16 w @ b) i = Some w"
  by (simp add: rd16_def)

lemma rd32_at: "length a = i \<Longrightarrow> rd32 (a @ enc32 w @ b) i = Some w"
  by (simp add: rd32_def dec32_enc32)

lemma rdBytes_at: "length a = i \<Longrightarrow> length xs = n \<Longrightarrow> rdBytes (a @ xs @ b) i n = Some xs"
  by (simp add: rdBytes_def)

lemma appendAll_fits:
  "int (length (ba_data a) + length (concat parts)) \<le> ba_capacity a \<Longrightarrow>
    appendAll parts a = a\<lparr>ba_data := ba_data a @ concat parts\<rparr>"
proof (induction parts arbitrary: a)
  case (Cons p parts)
  then have "appendBytes p a = a\<lparr>ba_data := ba_data a @ p\<rparr>" by (intro appendBytes_fits) simp
  then show ?case using Cons by (simp add: appendAll_def)
qed (simp add: appendAll_def)

lemma appendAll_append: "appendAll (ps @ qs) a = appendAll qs (appendAll ps a)"
  by (simp add: appendAll_def)

lemma ba_capacity_append [simp]: "ba_capacity (appendBytes p a) = ba_capacity a"
  by (simp add: appendBytes_def copyAt_def)

lemma ba_capacity_appendAll [simp]: "ba_capacity (appendAll ps a) = ba_capacity a"
  by (induction ps arbitrary: a) (simp_all add: appendAll_def)

lemma newByteArray_sel [simp]: "ba_capacity (newByteArray n) = n" "ba_data (newByteArray n) = []"
  by (simp_all add: newByteArray_def)

lemma ba_data_duplicate [simp]: "ba_data (duplicate d) = d"
  by (simp add: duplicate_def appendBytes_def copyAt_def)

lemma length_encrypt:
  "length (ba_data (encrypt text key)) =
    (if length text mod 8 = 7 then length text + 9 else 16 + 8 * (length text div 8))"
proof -
  have "8 * (length (paddedText text) div 8) = length (paddedText text)"
    using paddedText_blocks(1) [of "text"] by presburger
  then have "length (ba_data (encrypt text key)) = length (paddedText text)"
    unfolding encrypt_writes by (subst length_cipherBlocks) simp_all
  then show ?thesis by (simp add: length_paddedText)
qed

lemma length_encrypt_le: "length (ba_data (encrypt text key)) \<le> length text + 16"
proof -
  have "8 * (length text div 8) \<le> length text" by simp
  then show ?thesis by (simp add: length_encrypt)
qed

subsection \<open>The frame\<close>

definition qqVersion :: u16 where "qqVersion = 0x0F15"
definition qqHead :: u8 where "qqHead = 0x02"
definition qqTail :: u8 where "qqTail = 0x03"
definition MaxPacketLength :: int where "MaxPacketLength = 65535"

definition qqHeader :: "u32 \<Rightarrow> u16 \<Rightarrow> u16 \<Rightarrow> byteArray" where
  "qqHeader qq command sequence =
     appendAll [[0], [0], [qqHead], enc16 qqVersion, enc16 command, enc16 sequence, enc32 qq] (newByteArray 13)"

definition setLength :: "byteArray \<Rightarrow> byteArray" where
  "setLength data = copyAt 0 (enc16 (of_nat (length (ba_data data)))) data"

definition createPacket :: "u32 \<Rightarrow> u16 \<Rightarrow> u16 \<Rightarrow> bytes \<Rightarrow> bytes \<Rightarrow> byteArray" where
  "createPacket qq command sequence key text =
     (let packet = newByteArray MaxPacketLength;
          packet = appendBytes (ba_data (qqHeader qq command sequence)) packet;
          packet = appendBytes (ba_data (encrypt text key)) packet;
          packet = appendBytes [qqTail] packet
      in setLength packet)"

record qqPacket =
  pk_version :: u16
  pk_command :: u16
  pk_sequence :: u16
  pk_body :: bytes

text \<open>
  Below ten bytes the length of the body is negative, and \<^verbatim>\<open>memcpy\<close> takes it for a huge one.
\<close>

definition readPacket :: "bytes \<Rightarrow> qqPacket option" where
  "readPacket buffer =
     (case (rd16 buffer 3, rd16 buffer 5, rd16 buffer 7) of
        (Some version, Some command, Some sequence) \<Rightarrow>
          let len = int (length buffer) - 9 - 1
          in if len < 0 then None
             else Some \<lparr>pk_version = version, pk_command = command, pk_sequence = sequence,
                        pk_body = ba_data (duplicate (take (nat len) (drop 9 buffer)))\<rparr>
      | _ \<Rightarrow> None)"

lemma qqHeader_data [simp]:
  "ba_data (qqHeader qq command sequence) = [0, 0, qqHead] @ enc16 qqVersion @ enc16 command @ enc16 sequence @ enc32 qq"
  by (simp add: qqHeader_def appendAll_fits)

lemma setLength_data:
  assumes "2 \<le> length (ba_data a)" "2 \<le> ba_capacity a"
  shows "ba_data (setLength a) = enc16 (of_nat (length (ba_data a))) @ drop 2 (ba_data a)"
  using assms by (simp add: setLength_def copyAt_def flip: numeral_2_eq_2)

lemma readPacket_frame:
  assumes "length l = 3"
  shows "readPacket (l @ enc16 v @ enc16 c @ enc16 s @ body @ [t]) =
    Some \<lparr>pk_version = v, pk_command = c, pk_sequence = s, pk_body = body\<rparr>"
proof -
  let ?p = "l @ enc16 v @ enc16 c @ enc16 s @ body @ [t]"
  have "rd16 ?p 3 = Some v" by (rule rd16_at) (rule assms)
  moreover have "rd16 ?p 5 = Some c" using rd16_at [of "l @ enc16 v" 5 c "enc16 s @ body @ [t]"] assms by simp
  moreover have "rd16 ?p 7 = Some s" using rd16_at [of "l @ enc16 v @ enc16 c" 7 s "body @ [t]"] assms by simp
  moreover have "drop 9 ?p = body @ [t]" "int (length ?p) - 9 - 1 = int (length body)" using assms by simp_all
  ultimately show ?thesis by (simp add: readPacket_def Let_def)
qed

lemma readPacket_short: "length buffer < 10 \<longleftrightarrow> readPacket buffer = None"
  by (auto simp: readPacket_def rd16_def Let_def)

lemma createPacket_data:
  assumes "length (ba_data (encrypt text key)) \<le> 65521"
  shows "ba_data (createPacket qq command sequence key text) =
    enc16 (of_nat (14 + length (ba_data (encrypt text key)))) @ [qqHead] @ enc16 qqVersion @ enc16 command @ enc16 sequence
      @ enc32 qq @ ba_data (encrypt text key) @ [qqTail]"
  using assms
  by (simp add: createPacket_def Let_def setLength_data appendBytes_fits MaxPacketLength_def)

lemma createPacket_full:
  assumes "length (ba_data (encrypt text key)) > 65522"
  shows "ba_data (createPacket qq command sequence key text) =
    enc16 14 @ [qqHead] @ enc16 qqVersion @ enc16 command @ enc16 sequence @ enc32 qq @ [qqTail]"
  using assms
  by (simp add: createPacket_def Let_def setLength_data appendBytes_fits appendBytes_full MaxPacketLength_def)

subsection \<open>Requests\<close>

text \<open>The constants of \<^verbatim>\<open>namespace Command\<close> that the client sends or distinguishes.\<close>

definition cmdLogout :: u16 where "cmdLogout = 0x0001"
definition cmdHeartbeat :: u16 where "cmdHeartbeat = 0x0002"
definition cmdUpdateInfo :: u16 where "cmdUpdateInfo = 0x0004"
definition cmdSearch :: u16 where "cmdSearch = 0x0005"
definition cmdUserInfo :: u16 where "cmdUserInfo = 0x0006"
definition cmdChangeStatus :: u16 where "cmdChangeStatus = 0x000D"
definition cmdSendMsg :: u16 where "cmdSendMsg = 0x0016"
definition cmdReceiveMsg :: u16 where "cmdReceiveMsg = 0x0017"
definition cmdRequestKey :: u16 where "cmdRequestKey = 0x001D"
definition cmdLogin :: u16 where "cmdLogin = 0x0022"
definition cmdAllContacts :: u16 where "cmdAllContacts = 0x0026"
definition cmdContactsOnline :: u16 where "cmdContactsOnline = 0x0027"
definition cmdGroupNames :: u16 where "cmdGroupNames = 0x003C"
definition cmdDownloadGroups :: u16 where "cmdDownloadGroups = 0x0058"
definition cmdRequestLoginToken :: u16 where "cmdRequestLoginToken = 0x0062"
definition cmdContactStatusChanged :: u16 where "cmdContactStatusChanged = 0x0081"

lemmas cmd_defs = cmdLogout_def cmdHeartbeat_def cmdUpdateInfo_def cmdSearch_def cmdUserInfo_def cmdChangeStatus_def
  cmdSendMsg_def cmdReceiveMsg_def cmdRequestKey_def cmdLogin_def cmdAllContacts_def cmdContactsOnline_def
  cmdGroupNames_def cmdDownloadGroups_def cmdRequestLoginToken_def cmdContactStatusChanged_def

definition login_16_51 :: bytes where
  "login_16_51 =
     [0x00, 0x00, 0x00, 0x00, 0x00, 0x00, 0x00, 0x00,
      0x00, 0x00, 0x00, 0x00, 0x00, 0x00, 0x00, 0x00,
      0x00, 0x00, 0x00, 0x29, 0xc0, 0xf8, 0xc4, 0xbe,
      0x3b, 0xee, 0x57, 0x92, 0xd2, 0x42, 0xa6, 0xbe,
      0x41, 0x98, 0x97, 0xb4]"

definition login_53_68 :: bytes where
  "login_53_68 =
     [0xce, 0x11, 0xd5, 0xd9, 0x97, 0x46, 0xac, 0x41,
      0xa5, 0x01, 0xb2, 0xf5, 0xe9, 0x62, 0x8e, 0x07]"

definition login_94_193 :: bytes where
  "login_94_193 =
     [0x01, 0x40, 0x01, 0xb6, 0xfb, 0x54, 0x6e, 0x00,
      0x10, 0x33, 0x11, 0xa3, 0xab, 0x86, 0x86, 0xff,
      0x5b, 0x90, 0x5c, 0x74, 0x5d, 0xf1, 0x47, 0xbf,
      0xcf] @ replicate 75 0x00"

definition init_key :: bytes where
  "init_key = replicate 16 0x01"

definition loginTokenPacket :: "u32 \<Rightarrow> u16 \<Rightarrow> byteArray" where
  "loginTokenPacket qq sequence =
     setLength (appendAll [ba_data (qqHeader qq cmdRequestLoginToken sequence), [0], [qqTail]] (newByteArray 16))"

text \<open>\<^verbatim>\<open>memset\<close> and \<^verbatim>\<open>setSize\<close> fill the array of the login text up to its capacity.\<close>

definition loginText :: "bytes \<Rightarrow> byteArray \<Rightarrow> u8 \<Rightarrow> byteArray" where
  "loginText key token loginMode =
     (let login = appendAll [ba_data (encrypt [] key), login_16_51, [loginMode], login_53_68,
                             [of_nat (length (ba_data token))], ba_data token, login_94_193] (newByteArray 416)
      in login\<lparr>ba_data := ba_data login @ replicate (nat (ba_capacity login) - length (ba_data login)) 0\<rparr>)"

definition loginPacket :: "u32 \<Rightarrow> u16 \<Rightarrow> bytes \<Rightarrow> byteArray \<Rightarrow> u8 \<Rightarrow> byteArray" where
  "loginPacket qq sequence key token loginMode =
     setLength (appendAll [ba_data (qqHeader qq cmdLogin sequence), init_key,
                           ba_data (encrypt (ba_data (loginText key token loginMode)) init_key), [qqTail]]
                  (newByteArray MaxPacketLength))"

definition transferKeyPacket :: "u32 \<Rightarrow> u16 \<Rightarrow> bytes \<Rightarrow> byteArray" where
  "transferKeyPacket qq sequence key =
     createPacket qq cmdRequestKey sequence key (ba_data (appendAll [[0x03]] (newByteArray 1)))"

text \<open>The position is copied as it lies in memory.\<close>

definition allContactsPacket :: "u32 \<Rightarrow> u16 \<Rightarrow> bytes \<Rightarrow> u16 \<Rightarrow> byteArray" where
  "allContactsPacket qq sequence key pos =
     createPacket qq cmdAllContacts sequence key (ba_data (appendAll [enc16le pos, [0x01], [0], [1]] (newByteArray 5)))"

definition statusUpdatePacket :: "u32 \<Rightarrow> u16 \<Rightarrow> bytes \<Rightarrow> u8 \<Rightarrow> byteArray" where
  "statusUpdatePacket qq sequence key status =
     createPacket qq cmdChangeStatus sequence key (ba_data (appendAll [[status], enc32le 0] (newByteArray 5)))"

fun decimal :: "nat \<Rightarrow> bytes" where
  "decimal n = (if n < 10 then [of_nat (48 + n)] else decimal (n div 10) @ [of_nat (48 + n mod 10)])"

declare decimal.simps [simp del]

text \<open>\<^verbatim>\<open>snprintf\<close> with \<^verbatim>\<open>%d\<close>; 31 characters are enough for every number.\<close>

definition printInt :: "u32 \<Rightarrow> bytes" where
  "printInt w = (if sint w < 0 then 45 # decimal (nat (- sint w)) else decimal (nat (sint w)))"

definition contactDetailPacket :: "u32 \<Rightarrow> u16 \<Rightarrow> bytes \<Rightarrow> u32 \<Rightarrow> byteArray" where
  "contactDetailPacket qq sequence key qqId = createPacket qq cmdUserInfo sequence key (printInt qqId)"

definition groupNamesPacket :: "u32 \<Rightarrow> u16 \<Rightarrow> bytes \<Rightarrow> byteArray" where
  "groupNamesPacket qq sequence key =
     createPacket qq cmdGroupNames sequence key (ba_data (appendAll [[0x1], [2], enc32le 0] (newByteArray 6)))"

definition downloadGroupsPacket :: "u32 \<Rightarrow> u16 \<Rightarrow> bytes \<Rightarrow> u32 \<Rightarrow> byteArray" where
  "downloadGroupsPacket qq sequence key pos =
     createPacket qq cmdDownloadGroups sequence key
       (ba_data (appendAll [[1], [2], enc32le 0, enc32 pos] (newByteArray 10)))"

definition messageHeader :: "u32 \<Rightarrow> u32 \<Rightarrow> bytes \<Rightarrow> u16 \<Rightarrow> u16 \<Rightarrow> u32 \<Rightarrow> u16 \<Rightarrow> byteArray" where
  "messageHeader sender receiver transferKey type sequence timestamp face =
     appendAll [enc32 sender, enc32 receiver, enc16 qqVersion, enc32 sender, enc32 receiver, transferKey, enc16 type,
                enc16 sequence, enc32 timestamp, enc16 face, [0], [0], [0], [1], enc32le 0] (newByteArray 64)"

definition encodeMessage :: "bytes \<Rightarrow> byteArray" where
  "encodeMessage text =
     appendAll [[0x01], text, [0x20], [0x0], [0x9], [0x0], [0x0], [0x0], [0x0], enc16 0x8602, enc32 0xcbcecce5, [0xd]]
       (newByteArray 65536)"

definition messageText :: "u32 \<Rightarrow> u32 \<Rightarrow> bytes \<Rightarrow> u16 \<Rightarrow> u32 \<Rightarrow> bytes \<Rightarrow> byteArray" where
  "messageText qq toId transferKey sequence now message =
     appendAll [ba_data (messageHeader qq toId transferKey 0x000b sequence now 0), ba_data (encodeMessage message)]
       (newByteArray 65536)"

definition textMessagePacket :: "u32 \<Rightarrow> u16 \<Rightarrow> bytes \<Rightarrow> u32 \<Rightarrow> bytes \<Rightarrow> u32 \<Rightarrow> bytes \<Rightarrow> byteArray" where
  "textMessagePacket qq sequence key toId transferKey now message =
     createPacket qq cmdSendMsg sequence key (ba_data (messageText qq toId transferKey sequence now message))"

definition messageReplyPacket :: "u32 \<Rightarrow> u16 \<Rightarrow> bytes \<Rightarrow> bytes \<Rightarrow> byteArray" where
  "messageReplyPacket qq sequence key text = createPacket qq cmdReceiveMsg sequence key text"

definition heartbeatPacket :: "u32 \<Rightarrow> u16 \<Rightarrow> bytes \<Rightarrow> byteArray" where
  "heartbeatPacket qq sequence key =
     createPacket qq cmdHeartbeat sequence key (ba_data (appendAll [enc32le qq] (newByteArray 4)))"

definition onlineContactsPacket :: "u32 \<Rightarrow> u16 \<Rightarrow> bytes \<Rightarrow> u8 \<Rightarrow> byteArray" where
  "onlineContactsPacket qq sequence key pos =
     createPacket qq cmdContactsOnline sequence key (ba_data (appendAll [[0x02], [pos], [0], [0], [0]] (newByteArray 5)))"

subsection \<open>Replies\<close>

text \<open>
  The length in the reply is a signed \<^verbatim>\<open>char\<close>.  A negative one is taken for the capacity of the
  array, which stays empty if the request was refused; otherwise it is the length of the copy.
\<close>

definition loginTokenReply :: "bytes \<Rightarrow> byteArray option" where
  "loginTokenReply packet =
     (case (rd8 packet 0, rd8 packet 1) of
        (Some reply, Some n) \<Rightarrow>
          let data = newByteArray (sint n)
          in if reply \<noteq> 0x00 then Some data
             else if sint n < 0 then None
             else map_option (\<lambda>d. appendBytes d data) (rdBytes packet 2 (nat (sint n)))
      | _ \<Rightarrow> None)"

definition replyCode :: "bytes \<Rightarrow> u8 option" where
  "replyCode data = rd8 data 0"

definition redirectedIP :: "bytes \<Rightarrow> u32 option" where
  "redirectedIP data = rd32 data 5"

definition redirectedPort :: "bytes \<Rightarrow> u16 option" where
  "redirectedPort data = rd16 data 9"

definition sessionKeyOf :: "bytes \<Rightarrow> byteArray option" where
  "sessionKeyOf data = map_option duplicate (rdBytes data 1 16)"

definition transferKeyOf :: "bytes \<Rightarrow> byteArray option" where
  "transferKeyOf data = map_option duplicate (rdBytes data 2 16)"

definition replyKey :: "bytes \<Rightarrow> byteArray option" where
  "replyKey data = map_option duplicate (rdBytes data 0 16)"

definition transferToken :: "bytes \<Rightarrow> byteArray option" where
  "transferToken data =
     (case rd8 data 30 of
        None \<Rightarrow> None
      | Some n \<Rightarrow> map_option duplicate (rdBytes data 31 (unat n)))"

definition remoteIP :: "bytes \<Rightarrow> u32 option" where "remoteIP data = rd32 data 27"
definition remotePort :: "bytes \<Rightarrow> u16 option" where "remotePort data = rd16 data 31"
definition localIP :: "bytes \<Rightarrow> u32 option" where "localIP data = rd32 data 21"
definition localPort :: "bytes \<Rightarrow> u16 option" where "localPort data = rd16 data 25"
definition loginTime :: "bytes \<Rightarrow> u32 option" where "loginTime data = rd32 data 33"
definition lastLoginFrom :: "bytes \<Rightarrow> u32 option" where "lastLoginFrom data = rd32 data 123"
definition lastLoginTime :: "bytes \<Rightarrow> u32 option" where "lastLoginTime data = rd32 data 127"
definition qqNextGroupId :: "bytes \<Rightarrow> u32 option" where "qqNextGroupId data = rd32 data 6"

record contactInfo =
  ci_id :: u32
  ci_face :: u16
  ci_age :: u8
  ci_gender :: u8
  ci_nick :: bytes

text \<open>The length of the nick name is signed; \<^verbatim>\<open>std::string\<close> does not take a negative one.\<close>

definition readContactInfo :: "bytes \<Rightarrow> nat \<Rightarrow> (contactInfo \<times> nat) option" where
  "readContactInfo buffer len =
     (case (rd32 buffer len, rd16 buffer (len + 4), rd8 buffer (len + 6), rd8 buffer (len + 7), rd8 buffer (len + 8)) of
        (Some i, Some face, Some age, Some gender, Some nl) \<Rightarrow>
          if sint nl < 0 then None
          else map_option
                 (\<lambda>nick. (\<lparr>ci_id = i, ci_face = face, ci_age = age, ci_gender = gender, ci_nick = nick\<rparr>,
                          len + (9 + nat (sint nl) + 4)))
                 (rdBytes buffer (len + 9) (nat (sint nl)))
      | _ \<Rightarrow> None)"

function readGroupNames :: "nat \<Rightarrow> bytes \<Rightarrow> bytes list option" where
  "readGroupNames offset t =
     (if offset < length t
      then (case rdString t offset of
              None \<Rightarrow> None
            | Some name \<Rightarrow> map_option ((#) name) (readGroupNames (offset + 17) t))
      else Some [])"
  by pat_completeness auto
termination by (relation "measure (\<lambda>(offset, t). length t - offset)") auto

definition groupNamesOf :: "bytes \<Rightarrow> bytes list option" where
  "groupNamesOf t = readGroupNames 7 t"

record groupInfo =
  gi_qqId :: u32
  gi_type :: u8
  gi_groupId :: u8

text \<open>The group is read at a fixed place, the same for every contact.\<close>

function readGroupInfos :: "nat \<Rightarrow> bytes \<Rightarrow> groupInfo list option" where
  "readGroupInfos offset t =
     (if offset < length t
      then (case (rd32 t offset, rd8 t (offset + 4), rd16host t 5) of
              (Some q, Some ty, Some g) \<Rightarrow>
                map_option ((#) \<lparr>gi_qqId = q, gi_type = ty, gi_groupId = ucast (signed_drop_bit 2 g AND 0x3f)\<rparr>)
                  (readGroupInfos (offset + 6) t)
            | _ \<Rightarrow> None)
      else Some [])"
  by pat_completeness auto
termination by (relation "measure (\<lambda>(offset, t). length t - offset)") auto

definition groupInfosOf :: "bytes \<Rightarrow> groupInfo list option" where
  "groupInfosOf t = readGroupInfos 10 t"

record contactStatus =
  cs_qqId :: u32
  cs_ip :: u32
  cs_port :: u16
  cs_status :: u8

definition readContactStatus :: "bytes \<Rightarrow> nat \<Rightarrow> contactStatus option" where
  "readContactStatus t i =
     (case (rd32 t i, rd32 t (i + 5), rd16 t (i + 9), rd8 t (i + 12)) of
        (Some q, Some ip, Some port, Some st) \<Rightarrow> Some \<lparr>cs_qqId = q, cs_ip = ip, cs_port = port, cs_status = st\<rparr>
      | _ \<Rightarrow> None)"

function readStatuses :: "nat \<Rightarrow> bytes \<Rightarrow> contactStatus list option" where
  "readStatuses offset t =
     (if offset < length t
      then (case readContactStatus t offset of
              None \<Rightarrow> None
            | Some cs \<Rightarrow> map_option ((#) cs) (readStatuses (offset + 31) t))
      else Some [])"
  by pat_completeness auto
termination by (relation "measure (\<lambda>(offset, t). length t - offset)") auto

definition onlineContactsOf :: "bytes \<Rightarrow> (contactStatus list \<times> u8) option" where
  "onlineContactsOf t =
     (case (rd8 t 0, readStatuses 1 t) of
        (Some pos, Some l) \<Rightarrow> Some (l, pos)
      | _ \<Rightarrow> None)"

declare readGroupNames.simps [simp del] readGroupInfos.simps [simp del] readStatuses.simps [simp del]

definition contactDetailIndex :: "string list" where
  "contactDetailIndex =
     [''qqId'', ''nickName'', ''country'', ''state'', ''zipcode'', ''state'', ''phone'', ''age'', ''gender'', ''name'',
      ''email'', ''pagerSn'', ''pagerNum'', ''pagerSP'', ''pagerBaseNum'', ''pagerType'', ''occupation'', ''homepage'',
      ''authType'', ''unknown1'', ''unknown2'', ''avatar'', ''Mobile'', ''mobileType'', ''intro'', ''city'', ''unknown3'',
      ''unknown4'', ''unknown5'', ''openHP'', ''openContact'', ''graduation'', ''horoscope'', ''zodiac'', ''bloodType'',
      ''qqShow'', ''unknown6'']"

definition fieldName :: "nat \<Rightarrow> string option" where
  "fieldName index = (if index < length contactDetailIndex then Some (contactDetailIndex ! index) else None)"

definition setField :: "nat \<Rightarrow> bytes \<Rightarrow> (string \<rightharpoonup> bytes) \<Rightarrow> (string \<rightharpoonup> bytes) option" where
  "setField index field dict = map_option (\<lambda>k. dict(k \<mapsto> field)) (fieldName index)"

text \<open>The bytes since the last divider are kept as the list \<^verbatim>\<open>field\<close>.\<close>

fun readDetail :: "nat \<Rightarrow> bytes \<Rightarrow> bytes \<Rightarrow> (string \<rightharpoonup> bytes) \<Rightarrow> (string \<rightharpoonup> bytes) option" where
  "readDetail index field [] dict = setField index field dict"
| "readDetail index field (b # t) dict =
     (if b \<noteq> 0x1e then readDetail index (field @ [b]) t dict
      else (case setField index field dict of
              None \<Rightarrow> None
            | Some dict \<Rightarrow> readDetail (index + 1) [] t dict))"

definition contactDetailOf :: "bytes \<Rightarrow> (string \<rightharpoonup> bytes) option" where
  "contactDetailOf t = readDetail 0 [] t Map.empty"

subsection \<open>Requests reach the server\<close>

text \<open>A packet of the client as the server reads it: the number of the sender, then the ciphertext.\<close>

definition serverReads :: "bytes \<Rightarrow> bytes \<Rightarrow> (u16 \<times> u16 \<times> u32 \<times> bytes) option" where
  "serverReads key packet =
     (case readPacket packet of
        None \<Rightarrow> None
      | Some p \<Rightarrow> Some (pk_command p, pk_sequence p, dec32 (take 4 (pk_body p)),
                   ba_data (fst (decrypt (drop 4 (pk_body p)) key []))))"

lemma readPacket_created:
  assumes "length (ba_data (encrypt text key)) \<le> 65521"
  shows "readPacket (ba_data (createPacket qq command sequence key text)) =
    Some \<lparr>pk_version = qqVersion, pk_command = command, pk_sequence = sequence,
          pk_body = enc32 qq @ ba_data (encrypt text key)\<rparr>"
proof -
  have "ba_data (createPacket qq command sequence key text) =
      (enc16 (of_nat (14 + length (ba_data (encrypt text key)))) @ [qqHead]) @ enc16 qqVersion @ enc16 command
        @ enc16 sequence @ (enc32 qq @ ba_data (encrypt text key)) @ [qqTail]"
    by (simp add: createPacket_data [OF assms])
  moreover have "length (enc16 (of_nat (14 + length (ba_data (encrypt text key)))) @ [qqHead]) = 3" by simp
  ultimately show ?thesis by (simp only: readPacket_frame)
qed

lemma serverReads_created:
  assumes "length text \<le> 65505"
  shows "serverReads key (ba_data (createPacket qq command sequence key text)) =
    Some (command, sequence, qq, ba_data (fst (decrypt (ba_data (encrypt text key)) key [])))"
proof -
  have "length (ba_data (encrypt text key)) \<le> 65521" using length_encrypt_le [of "text" key] assms by linarith
  then show ?thesis by (simp add: serverReads_def readPacket_created dec32_enc32)
qed

lemma serverReads_request:
  assumes "length text \<le> 65505" "length text mod 8 \<noteq> 7"
  shows "serverReads key (ba_data (createPacket qq command sequence key text)) = Some (command, sequence, qq, text)"
  using assms by (simp add: serverReads_created decrypt_encrypt)

lemma messageHeader_data:
  "length transferKey = 16 \<Longrightarrow> ba_data (messageHeader qq toId transferKey type sequence now face) =
    enc32 qq @ enc32 toId @ enc16 qqVersion @ enc32 qq @ enc32 toId @ transferKey @ enc16 type @ enc16 sequence
      @ enc32 now @ enc16 face @ [0, 0, 0, 1] @ enc32le 0"
  by (simp add: messageHeader_def appendAll_fits)

lemma encodeMessage_data:
  "length message \<le> 65521 \<Longrightarrow> ba_data (encodeMessage message) =
    [1] @ message @ [0x20, 0, 9, 0, 0, 0, 0] @ enc16 0x8602 @ enc32 0xcbcecce5 @ [0xd]"
  by (simp add: encodeMessage_def appendAll_fits)

lemma messageText_data:
  assumes "length transferKey = 16" "length message \<le> 65469"
  shows "ba_data (messageText qq toId transferKey sequence now message) =
      ba_data (messageHeader qq toId transferKey 0x000b sequence now 0) @ ba_data (encodeMessage message)"
    "length (ba_data (messageText qq toId transferKey sequence now message)) = length message + 67"
proof -
  have len: "length (ba_data (messageHeader qq toId transferKey 0x000b sequence now 0)) = 52"
    "length (ba_data (encodeMessage message)) = length message + 15"
    using assms by (simp_all add: messageHeader_data encodeMessage_data)
  then show split: "ba_data (messageText qq toId transferKey sequence now message) =
      ba_data (messageHeader qq toId transferKey 0x000b sequence now 0) @ ba_data (encodeMessage message)"
    unfolding messageText_def using assms by (subst appendAll_fits) simp_all
  show "length (ba_data (messageText qq toId transferKey sequence now message)) = length message + 67"
    unfolding split using len by simp
qed

text \<open>
  C35: a text message of up to 65444 bytes is sent as one packet, in which the server finds the
  message between the header and the font.  If its length is four more than a multiple of eight the
  server finds something else: header and font make the text seven more than a multiple of eight.
\<close>

theorem message_reaches_server:
  assumes "length transferKey = 16" "length message \<le> 65444"
  shows "\<exists>t. serverReads key (ba_data (textMessagePacket qq sequence key toId transferKey now message))
        = Some (cmdSendMsg, sequence, qq, t)
    \<and> (t = ba_data (messageHeader qq toId transferKey 0x000b sequence now 0) @ [1] @ message
          @ [0x20, 0, 9, 0, 0, 0, 0, 0x86, 0x02, 0xcb, 0xce, 0xcc, 0xe5, 0xd]) = (length message mod 8 \<noteq> 4)"
proof -
  let ?T = "ba_data (messageText qq toId transferKey sequence now message)"
  have T: "?T = ba_data (messageHeader qq toId transferKey 0x000b sequence now 0) @ [1] @ message
          @ [0x20, 0, 9, 0, 0, 0, 0, 0x86, 0x02, 0xcb, 0xce, 0xcc, 0xe5, 0xd]"
    using messageText_data(1) [of transferKey message qq toId sequence now] assms
    by (simp add: encodeMessage_data enc16_def enc32_def)
  have len: "length ?T = length message + 67" using messageText_data(2) assms by simp
  then have m: "(length ?T mod 8 = 7) = (length message mod 8 = 4)" by presburger
  have "(length message + 67) div 8 \<le> 65511 div 8" using assms(2) by (intro div_le_mono) simp
  then have "length (ba_data (encrypt ?T key)) \<le> 65521"
    unfolding length_encrypt len using assms(2) by simp
  then have "serverReads key (ba_data (textMessagePacket qq sequence key toId transferKey now message)) =
      Some (cmdSendMsg, sequence, qq, ba_data (fst (decrypt (ba_data (encrypt ?T key)) key [])))"
    by (simp add: serverReads_def textMessagePacket_def readPacket_created dec32_enc32)
  moreover have "(ba_data (fst (decrypt (ba_data (encrypt ?T key)) key [])) = ?T) = (length message mod 8 \<noteq> 4)"
    using decrypt_encrypt [of ?T key "[]"] decrypt_encrypt_seven [of ?T key "[]"] m by blast
  ultimately show ?thesis unfolding T by blast
qed

theorem message_reaches_server_witness:
  "\<exists>t. serverReads (replicate 16 5) (ba_data (textMessagePacket 10001 6 (replicate 16 5) 10002 (replicate 16 7) 0 [72, 105]))
        = Some (cmdSendMsg, 6, 10001, t)
    \<and> (t = ba_data (messageHeader 10001 10002 (replicate 16 7) 0x000b 6 0 0) @ [1] @ [72, 105]
          @ [0x20, 0, 9, 0, 0, 0, 0, 0x86, 0x02, 0xcb, 0xce, 0xcc, 0xe5, 0xd])"
  using message_reaches_server [of "replicate 16 7" "[72, 105]" "replicate 16 5" 10001 6 10002 0] by simp

text \<open>
  A longer one does not get into the packet, and nobody is told: up to 65469 bytes the packet
  goes out without a text, and from 65536 on with the text of an empty message.
\<close>

theorem long_message_dropped:
  assumes "length transferKey = 16" "65444 < length message"
  shows "(length message \<le> 65469 \<longrightarrow>
        map_option pk_body (readPacket (ba_data (textMessagePacket qq sequence key toId transferKey now message))) = Some (enc32 qq))
    \<and> (65536 \<le> length message \<longrightarrow>
        textMessagePacket qq sequence key toId transferKey now message = textMessagePacket qq sequence key toId transferKey now [])"
proof (intro conjI impI)
  let ?T = "ba_data (messageText qq toId transferKey sequence now message)"
  assume "length message \<le> 65469"
  then have len: "length ?T = length message + 67" using messageText_data(2) assms by simp
  then have long: "65512 \<le> length ?T" using assms(2) by simp
  have "65512 \<le> k \<Longrightarrow> 65522 < (if k mod 8 = 7 then k + 9 else 16 + 8 * (k div 8))" for k :: nat by presburger
  from this [OF long] have "length (ba_data (encrypt ?T key)) > 65522" unfolding length_encrypt .
  then have "ba_data (textMessagePacket qq sequence key toId transferKey now message) =
      (enc16 14 @ [qqHead]) @ enc16 qqVersion @ enc16 cmdSendMsg @ enc16 sequence @ enc32 qq @ [qqTail]"
    by (simp add: textMessagePacket_def createPacket_full)
  moreover have "length (enc16 14 @ [qqHead]) = 3" by simp
  ultimately show "map_option pk_body (readPacket (ba_data (textMessagePacket qq sequence key toId transferKey now message)))
      = Some (enc32 qq)"
    by (simp only: readPacket_frame) simp
next
  assume "65536 \<le> length message"
  then have "encodeMessage message = encodeMessage []"
    by (simp add: encodeMessage_def appendAll_def appendBytes_full appendBytes_fits)
  then show "textMessagePacket qq sequence key toId transferKey now message = textMessagePacket qq sequence key toId transferKey now []"
    by (simp add: textMessagePacket_def messageText_def)
qed

theorem long_message_dropped_witness:
  "map_option pk_body (readPacket (ba_data (textMessagePacket 10001 6 (replicate 16 5) 10002 (replicate 16 7) 0 (replicate 65450 97))))
    = Some (enc32 10001)"
  using long_message_dropped [of "replicate 16 7" "replicate 65450 97" 10001 6 "replicate 16 5" 10002 0] by simp

subsection \<open>Lists in replies\<close>

lemma readGroupInfos_all:
  assumes "\<And>c. length (rec c) = 6" "\<And>c. take 4 (rec c) = enc32 (q c)" "\<And>c. rec c ! 4 = ty c" "7 \<le> length a"
  shows "readGroupInfos (length a) (a @ concat (map rec cs)) =
    Some (map (\<lambda>c. \<lparr>gi_qqId = q c, gi_type = ty c,
                    gi_groupId = ucast (signed_drop_bit 2 (dec16 [a ! 6, a ! 5]) AND 0x3f)\<rparr>) cs)"
  using assms(4)
proof (induction cs arbitrary: a)
  case Nil
  then show ?case by (subst readGroupInfos.simps) simp
next
  case (Cons c cs)
  let ?t = "a @ concat (map rec (c # cs))"
  have "rd32 ?t (length a) = Some (q c)" using assms(1-2) by (simp add: rd32_def dec32_enc32)
  moreover have "rd8 ?t (length a + 4) = Some (ty c)" using assms(1,3) by (simp add: rd8_def nth_append)
  moreover have "drop 5 a = a ! 5 # drop (Suc 5) a" "drop 6 a = a ! 6 # drop (Suc 6) a"
    using Cons_nth_drop_Suc [of 5 a] Cons_nth_drop_Suc [of 6 a] Cons.prems by simp_all
  then have "rd16host ?t 5 = Some (dec16 [a ! 6, a ! 5])" using Cons.prems by (simp add: rd16host_def numeral_2_eq_2)
  moreover have at: "(a @ r) ! 6 = a ! 6" "(a @ r) ! 5 = a ! 5" for r using Cons.prems by (simp_all add: nth_append)
  have "readGroupInfos (length a + 6) ((a @ rec c) @ concat (map rec cs)) =
      Some (map (\<lambda>c. \<lparr>gi_qqId = q c, gi_type = ty c,
                    gi_groupId = ucast (signed_drop_bit 2 (dec16 [a ! 6, a ! 5]) AND 0x3f)\<rparr>) cs)"
    using Cons.IH [of "a @ rec c"] Cons.prems assms(1) by (simp add: at)
  ultimately show ?case using assms(1) by (subst readGroupInfos.simps) simp
qed

text \<open>
  Whatever group the server puts a contact in, the reply is read as if all contacts were in
  one group, which is taken from the header.
\<close>

theorem contacts_all_in_one_group:
  assumes "length hdr = 10"
  shows "groupInfosOf (hdr @ concat (map (\<lambda>(q, ty, g). enc32 q @ [ty, g]) cs)) =
    Some (map (\<lambda>(q, ty, g). \<lparr>gi_qqId = q, gi_type = ty,
                gi_groupId = ucast (signed_drop_bit 2 (dec16 [hdr ! 6, hdr ! 5]) AND 0x3f)\<rparr>) cs)"
proof -
  have "readGroupInfos (length hdr) (hdr @ concat (map (\<lambda>(q, ty, g). enc32 q @ [ty, g]) cs)) =
      Some (map (\<lambda>(q, ty, g). \<lparr>gi_qqId = q, gi_type = ty,
                gi_groupId = ucast (signed_drop_bit 2 (dec16 [hdr ! 6, hdr ! 5]) AND 0x3f)\<rparr>) cs)"
    unfolding case_prod_beta by (rule readGroupInfos_all) (simp_all add: assms enc32_def)
  then show ?thesis using assms by (simp add: groupInfosOf_def)
qed

theorem contacts_all_in_one_group_witness:
  "groupInfosOf ([1, 2, 3, 4, 5, 0x0c, 0, 0, 0, 0] @ concat (map (\<lambda>(q, ty, g). enc32 q @ [ty, g]) [(10001, 1, 0x04), (10002, 1, 0x08)])) =
    Some [\<lparr>gi_qqId = 10001, gi_type = 1, gi_groupId = 3\<rparr>, \<lparr>gi_qqId = 10002, gi_type = 1, gi_groupId = 3\<rparr>]"
proof -
  have "ucast (signed_drop_bit 2 (dec16 [0, 0x0c]) AND 0x3f) = (3 :: u8)" by code_simp
  then show ?thesis
    using contacts_all_in_one_group [of "[1, 2, 3, 4, 5, 0x0c, 0, 0, 0, 0]" "[(10001, 1, 0x04), (10002, 1, 0x08)]"]
    by (simp add: numeral_eq_Suc)
qed

lemma rdString_at:
  assumes "0 \<notin> set name" "k > 0"
  shows "rdString (a @ (name @ replicate k 0) @ b) (length a) = Some name"
proof -
  obtain j where k: "k = Suc j" using assms(2) by (cases k) simp_all
  have "x \<noteq> 0" if "x \<in> set name" for x using assms(1) that by auto
  then have "takeWhile (\<lambda>b. b \<noteq> 0) (name @ 0 # replicate j 0 @ b) = name" by (subst takeWhile_append2) simp_all
  then show ?thesis by (simp add: rdString_def k)
qed

lemma readGroupNames_all:
  assumes "list_all (\<lambda>n. 0 \<notin> set n \<and> length n \<le> 16) names"
  shows "readGroupNames (length a) (a @ concat (map (\<lambda>n. n @ replicate (17 - length n) 0) names)) = Some names"
  using assms
proof (induction names arbitrary: a)
  case Nil
  then show ?case by (subst readGroupNames.simps) simp
next
  case (Cons n names)
  let ?r = "n @ replicate (17 - length n) 0" and ?b = "concat (map (\<lambda>n. n @ replicate (17 - length n) 0) names)"
  have "rdString (a @ ?r @ ?b) (length a) = Some n" using Cons.prems by (intro rdString_at) auto
  moreover have "length ?r = 17" using Cons.prems by simp
  then have "readGroupNames (length a + 17) (a @ ?r @ ?b) = Some names"
    using Cons.IH [of "a @ ?r"] Cons.prems by simp
  ultimately show ?case by (subst readGroupNames.simps) (simp add: Cons.prems)
qed

text \<open>
  Group names of up to sixteen bytes, each in a field of seventeen bytes filled with zeros, are
  read as they are; the seven bytes in front of them do not matter.
\<close>

theorem group_names_read:
  assumes "length hdr = 7" "list_all (\<lambda>n. 0 \<notin> set n \<and> length n \<le> 16) names"
  shows "groupNamesOf (hdr @ concat (map (\<lambda>n. n @ replicate (17 - length n) 0) names)) = Some names"
  using readGroupNames_all [OF assms(2), of hdr] assms(1) by (simp add: groupNamesOf_def)

theorem group_names_read_witness:
  "groupNamesOf (replicate 7 1 @ concat (map (\<lambda>n. n @ replicate (17 - length n) 0) [[70, 114], [87]])) = Some [[70, 114], [87]]"
  by (rule group_names_read) simp_all

text \<open>The fields of a contact, with the divider between them.\<close>

fun joinFields :: "bytes list \<Rightarrow> bytes" where
  "joinFields [] = []"
| "joinFields [f] = f"
| "joinFields (f # fs) = f @ 0x1e # joinFields fs"

lemma readDetail_field:
  "0x1e \<notin> set f \<Longrightarrow> readDetail index pre (f @ t) dict = readDetail index (pre @ f) t dict"
  by (induction f arbitrary: pre) auto

fun setFields :: "nat \<Rightarrow> bytes list \<Rightarrow> (string \<rightharpoonup> bytes) \<Rightarrow> (string \<rightharpoonup> bytes) option" where
  "setFields index [] dict = Some dict"
| "setFields index (f # fs) dict =
     (case setField index f dict of None \<Rightarrow> None | Some dict \<Rightarrow> setFields (index + 1) fs dict)"

lemma readDetail_fields:
  "list_all (\<lambda>f. 0x1e \<notin> set f) fs \<Longrightarrow> fs \<noteq> [] \<Longrightarrow>
    readDetail index [] (joinFields fs) dict = setFields index fs dict"
proof (induction fs arbitrary: index dict rule: joinFields.induct)
  case (2 f)
  then show ?case using readDetail_field [of f index "[]" "[]"] by (simp split: option.splits)
next
  case (3 f g fs)
  then show ?case by (simp add: readDetail_field split: option.splits)
qed simp

lemma setFields_map:
  "index + length fs \<le> length contactDetailIndex \<Longrightarrow>
    setFields index fs dict = Some (dict ++ map_of (rev (zip (drop index contactDetailIndex) fs)))"
proof (induction fs arbitrary: index dict)
  case (Cons f fs)
  then have "index < length contactDetailIndex" by simp
  then have "drop index contactDetailIndex = contactDetailIndex ! index # drop (Suc index) contactDetailIndex"
    by (simp add: Cons_nth_drop_Suc)
  moreover have "setFields (Suc index) fs (dict(contactDetailIndex ! index \<mapsto> f)) =
      Some (dict(contactDetailIndex ! index \<mapsto> f) ++ map_of (rev (zip (drop (Suc index) contactDetailIndex) fs)))"
    using Cons.prems by (intro Cons.IH) simp
  moreover have "dict(k \<mapsto> f) ++ m = dict ++ ([k \<mapsto> f] ++ m)" for k and m :: "string \<rightharpoonup> bytes"
    by (rule ext) (simp add: map_add_def split: option.split)
  ultimately show ?case using \<open>index < length contactDetailIndex\<close>
    by (simp only: setFields.simps setField_def fieldName_def if_True option.map option.case zip_Cons_Cons rev.simps
      map_of_append map_of.simps fst_conv snd_conv Suc_eq_plus1)
qed simp

lemma setFields_too_many:
  "length contactDetailIndex < index + length fs \<Longrightarrow> index \<le> length contactDetailIndex \<Longrightarrow> setFields index fs dict = None"
proof (induction fs arbitrary: index dict)
  case (Cons f fs)
  then show ?case by (cases "index < length contactDetailIndex") (simp_all add: setField_def fieldName_def)
qed simp

text \<open>
  A reply with the details of a contact gives each field the name at its position, and of the
  two positions called state the second one wins; a reply with more than 37 fields is read
  past the end of the table of names.
\<close>

theorem contact_detail_read:
  assumes "list_all (\<lambda>f. 0x1e \<notin> set f) fs" "fs \<noteq> []"
  shows "contactDetailOf (joinFields fs) =
      (if length fs \<le> 37 then Some (map_of (rev (zip contactDetailIndex fs))) else None)
    \<and> (6 \<le> length fs \<and> length fs \<le> 37 \<longrightarrow> map_of (rev (zip contactDetailIndex fs)) ''state'' = Some (fs ! 5))"
proof -
  have n: "length contactDetailIndex = 37" by (simp add: contactDetailIndex_def)
  have "map_of (rev (zip contactDetailIndex fs)) ''state'' = Some (fs ! 5)" if "6 \<le> length fs"
  proof -
    obtain a b c d e f gs where fs: "fs = a # b # c # d # e # f # gs"
      using \<open>6 \<le> length fs\<close> by (metis (no_types, lifting) Suc_le_length_iff numeral_eq_Suc pred_numeral_simps(2,3) semiring_norm(26,27,28) eval_nat_numeral(2,3))
    have "''state'' \<notin> set (drop 6 contactDetailIndex)" by code_simp
    then have "map_of (rev (zip (drop 6 contactDetailIndex) gs)) ''state'' = None"
      by (auto simp: map_of_eq_None_iff dest: set_zip_leftD)
    then show ?thesis by (simp add: fs contactDetailIndex_def map_add_def)
  qed
  then show ?thesis using assms readDetail_fields [of fs 0 Map.empty] setFields_map [of 0 fs Map.empty]
      setFields_too_many [of 0 fs Map.empty] by (simp add: contactDetailOf_def n)
qed

theorem contact_detail_read_witness:
  "contactDetailOf (joinFields [[49], [65], [], [66], [], [67], []]) =
    Some (map_of (rev (zip contactDetailIndex [[49], [65], [], [66], [], [67], []])))
    \<and> map_of (rev (zip contactDetailIndex [[49], [65], [], [66], [], [67], [] :: bytes])) ''state'' = Some [67]"
  using contact_detail_read [of "[[49], [65], [], [66], [], [67], []]"] by simp

end
