(* ===== verification/QQ_Session.thy ===== *)
theory QQ_Session
  imports QQ_Packet Kopete_OnlineStatus
begin

text \<open>
  The connection to the QQ server: the socket with its queue (\<^verbatim>\<open>qqsocket.cpp\<close>) and what is done
  with an incoming packet (\<^verbatim>\<open>qqnotifysocket.cpp\<close>).

  An operation ends in a state, or in a fault with the state it has reached, where the code does
  what no state describes: it reads outside an array, copies a negative number of bytes, calls a
  null pointer or frees what was not allocated.  Signals are recorded, and the slots connected to
  them, an argument of the operations, run at once.

  The socket of KDE, the debug output and the memory behind a ciphertext are parameters
  (\<^verbatim>\<open>qqEnv\<close>): whether closing a socket emits \<^verbatim>\<open>closed()\<close> before it returns, whether the arguments
  of \<^verbatim>\<open>kDebug\<close> are evaluated, and the bytes.
\<close>

datatype socketStatus = SockConnecting | SockConnected | SockDisconnecting | SockDisconnected

datatype host = HostName qstring | HostIP u32

datatype fault = ReadsOutside | NullSocket | BadFree

record incomingHeader =
  mh_version :: u16
  mh_sender :: u32
  mh_receiver :: u32
  mh_type :: u16
  mh_sequence :: u16
  mh_timestamp :: u32
  mh_avatar :: u16

datatype qqEvent =
    OnlineStatusChanged socketStatus
  | ConnectionFailed
  | SocketClosed
  | ErrorMessage qstring
  | StatusChanged StatusType
  | NewContactList
  | GroupNames "bytes list"
  | ContactInGroup u32 u8 u8
  | ContactStatusChanged contactStatus
  | MessageReceived incomingHeader bytes
  | ContactDetailReceived bytes "string \<rightharpoonup> bytes"

record qqSession =
  qs_status :: socketStatus
  qs_socket :: bool
  qs_writeEnabled :: bool
  qs_server :: "host \<times> u32"
  qs_id :: u32
  qs_sendQueue :: "bytes list"
  qs_written :: "bytes list"
  qs_qqId :: u32
  qs_newstatus :: StatusType
  qs_token :: byteArray
  qs_passwordKey :: byteArray
  qs_sessionKey :: byteArray
  qs_transferKey :: byteArray
  qs_transferToken :: byteArray
  qs_loginMode :: u8
  qs_disconnectReason :: int
  qs_heartbeat :: bool
  qs_events :: "qqEvent list"

record qqEnv =
  en_behind :: bytes
  en_closeEmits :: bool
  en_debug :: bool

type_synonym 's outcome = "(fault \<times> 's) + 's"

definition andThen :: "'s outcome \<Rightarrow> ('s \<Rightarrow> 's outcome) \<Rightarrow> 's outcome" where
  "andThen r f = (case r of Inl e \<Rightarrow> Inl e | Inr s \<Rightarrow> f s)"

definition need :: "'b option \<Rightarrow> ('b \<Rightarrow> 's \<Rightarrow> 's outcome) \<Rightarrow> 's \<Rightarrow> 's outcome" where
  "need x f s = (case x of None \<Rightarrow> Inl (ReadsOutside, s) | Some v \<Rightarrow> f v s)"

type_synonym 's slots = "qqEvent \<Rightarrow> 's \<Rightarrow> 's outcome"

subsection \<open>The socket\<close>

definition emitSignal :: "'a qqSession_scheme slots \<Rightarrow> qqEvent \<Rightarrow> 'a qqSession_scheme \<Rightarrow> 'a qqSession_scheme outcome" where
  "emitSignal slots e s = slots e (s\<lparr>qs_events := qs_events s @ [e]\<rparr>)"

definition setSocketStatus ::
    "'a qqSession_scheme slots \<Rightarrow> socketStatus \<Rightarrow> 'a qqSession_scheme \<Rightarrow> 'a qqSession_scheme outcome" where
  "setSocketStatus slots st s =
     (if qs_status s = st then Inr s else emitSignal slots (OnlineStatusChanged st) (s\<lparr>qs_status := st\<rparr>))"

text \<open>A socket that is still there while the session disconnects is deleted at once.\<close>

definition socketConnect ::
    "'a qqSession_scheme slots \<Rightarrow> host \<Rightarrow> u32 \<Rightarrow> 'a qqSession_scheme \<Rightarrow> 'a qqSession_scheme outcome" where
  "socketConnect slots server port s =
     (if qs_status s = SockConnected \<or> qs_status s = SockConnecting then Inr s
      else andThen (setSocketStatus slots SockConnecting s)
             (\<lambda>s. Inr (s\<lparr>qs_id := 5, qs_server := (server, port), qs_socket := True, qs_writeEnabled := False\<rparr>)))"

definition slotSocketClosed :: "'a qqSession_scheme slots \<Rightarrow> 'a qqSession_scheme \<Rightarrow> 'a qqSession_scheme outcome" where
  "slotSocketClosed slots s =
     (if \<not> qs_socket s \<or> qs_status s = SockDisconnected then Inr s
      else andThen (setSocketStatus slots SockDisconnected s)
             (\<lambda>s. emitSignal slots SocketClosed (s\<lparr>qs_socket := False\<rparr>)))"

definition socketDisconnect ::
    "qqEnv \<Rightarrow> 'a qqSession_scheme slots \<Rightarrow> 'a qqSession_scheme \<Rightarrow> 'a qqSession_scheme outcome" where
  "socketDisconnect en slots s =
     (if qs_socket s
      then andThen (if en_closeEmits en then slotSocketClosed slots s else Inr s)
             (setSocketStatus slots SockDisconnecting)
      else slotSocketClosed slots s)"

definition sendRaw :: "bytes \<Rightarrow> 'a qqSession_scheme \<Rightarrow> 'a qqSession_scheme outcome" where
  "sendRaw data s =
     (let s = s\<lparr>qs_sendQueue := qs_sendQueue s @ [data]\<rparr>
      in if qs_socket s then Inr (s\<lparr>qs_writeEnabled := True\<rparr>) else Inl (NullSocket, s))"

definition slotSocketError ::
    "'a qqSession_scheme slots \<Rightarrow> bool \<Rightarrow> qstring \<Rightarrow> 'a qqSession_scheme \<Rightarrow> 'a qqSession_scheme outcome" where
  "slotSocketError slots fatal msg s =
     (if \<not> qs_socket s then Inl (NullSocket, s)
      else if \<not> fatal then Inr s
      else andThen (setSocketStatus slots SockDisconnected (s\<lparr>qs_socket := False\<rparr>))
             (\<lambda>s. andThen (emitSignal slots ConnectionFailed s)
               (\<lambda>s. andThen (emitSignal slots SocketClosed s)
                 (emitSignal slots (ErrorMessage msg)))))"

definition slotReadyWrite :: "'a qqSession_scheme \<Rightarrow> 'a qqSession_scheme outcome" where
  "slotReadyWrite s =
     (if \<not> qs_socket s then Inl (NullSocket, s)
      else case qs_sendQueue s of
             [] \<Rightarrow> Inr (s\<lparr>qs_writeEnabled := False\<rparr>)
           | d # q \<Rightarrow>
               let s = s\<lparr>qs_written := qs_written s @ [d], qs_sendQueue := q\<rparr>
               in Inr (if qs_sendQueue s = [] then s\<lparr>qs_writeEnabled := False\<rparr> else s))"

subsection \<open>Requests of the session\<close>

definition nextSequence :: "'a qqSession_scheme \<Rightarrow> u16 \<times> 'a qqSession_scheme" where
  "nextSequence s = (ucast (qs_id s), s\<lparr>qs_id := qs_id s + 1\<rparr>)"

text \<open>
  The cipher reads the sixteen bytes of a key whatever its size; before the login the key of the
  session has none.
\<close>

definition keyed :: "byteArray \<Rightarrow> (bytes \<Rightarrow> byteArray) \<Rightarrow> bytes option" where
  "keyed key f = (if length (ba_data key) < 16 then None else Some (ba_data (f (ba_data key))))"

definition request ::
    "(u32 \<Rightarrow> u16 \<Rightarrow> bytes \<Rightarrow> byteArray) \<Rightarrow> 'a qqSession_scheme \<Rightarrow> 'a qqSession_scheme outcome" where
  "request build s =
     (let (seq, s) = nextSequence s
      in need (keyed (qs_sessionKey s) (build (qs_qqId s) seq)) sendRaw s)"

definition sendLogin :: "'a qqSession_scheme \<Rightarrow> 'a qqSession_scheme outcome" where
  "sendLogin s =
     (let (seq, s) = nextSequence s
      in need (keyed (qs_passwordKey s) (\<lambda>key. loginPacket (qs_qqId s) seq key (qs_token s) (qs_loginMode s))) sendRaw s)"

definition sendLoginToken :: "'a qqSession_scheme \<Rightarrow> 'a qqSession_scheme outcome" where
  "sendLoginToken s =
     (let (seq, s) = nextSequence s
      in sendRaw (ba_data (loginTokenPacket (qs_qqId s) seq)) s)"

definition sendContactDetail :: "u32 \<Rightarrow> 'a qqSession_scheme \<Rightarrow> 'a qqSession_scheme outcome" where
  "sendContactDetail qqId = request (\<lambda>qq seq key. contactDetailPacket qq seq key qqId)"

definition sendListOnlineContacts :: "u8 \<Rightarrow> 'a qqSession_scheme \<Rightarrow> 'a qqSession_scheme outcome" where
  "sendListOnlineContacts pos = request (\<lambda>qq seq key. onlineContactsPacket qq seq key pos)"

definition sendGetGroupNames :: "'a qqSession_scheme \<Rightarrow> 'a qqSession_scheme outcome" where
  "sendGetGroupNames = request groupNamesPacket"

definition sendDownloadGroups :: "u32 \<Rightarrow> 'a qqSession_scheme \<Rightarrow> 'a qqSession_scheme outcome" where
  "sendDownloadGroups pos = request (\<lambda>qq seq key. downloadGroupsPacket qq seq key pos)"

definition sendTextMessage :: "u32 \<Rightarrow> u32 \<Rightarrow> bytes \<Rightarrow> 'a qqSession_scheme \<Rightarrow> 'a qqSession_scheme outcome" where
  "sendTextMessage now toId message s =
     request (\<lambda>qq seq key. textMessagePacket qq seq key toId (ba_data (qs_transferKey s)) now message) s"

definition sendHeartbeat :: "'a qqSession_scheme \<Rightarrow> 'a qqSession_scheme outcome" where
  "sendHeartbeat = request heartbeatPacket"

definition notifyDisconnect ::
    "qqEnv \<Rightarrow> 'a qqSession_scheme slots \<Rightarrow> 'a qqSession_scheme \<Rightarrow> 'a qqSession_scheme outcome" where
  "notifyDisconnect en slots s =
     (let s = (if qs_disconnectReason s = 99 then s\<lparr>qs_disconnectReason := 0\<rparr> else s)
      in if qs_status s = SockDisconnected \<or> qs_status s = SockConnecting then emitSignal slots SocketClosed s
         else socketDisconnect en slots s)"

definition slotConnectionSuccess :: "'a qqSession_scheme slots \<Rightarrow> 'a qqSession_scheme \<Rightarrow> 'a qqSession_scheme outcome" where
  "slotConnectionSuccess slots s =
     andThen (setSocketStatus slots SockConnected s)
       (\<lambda>s. if ba_data (qs_token s) \<noteq> [] then sendLogin s else sendLoginToken s)"

subsection \<open>Incoming packets\<close>

text \<open>
  What a \<^verbatim>\<open>ByteArray\<close> owns: one that is given a pointer takes it for a block it has to free,
  unless it is told to release it.
\<close>

datatype pointer = NullPointer | BlockStart | InsideBlock

record arrayOwner =
  ao_itsOwn :: bool
  ao_data :: pointer

definition wrapPointer :: "pointer \<Rightarrow> arrayOwner" where
  "wrapPointer p = \<lparr>ao_itsOwn = (p \<noteq> NullPointer), ao_data = p\<rparr>"

definition releasePointer :: "arrayOwner \<Rightarrow> arrayOwner" where
  "releasePointer a = a\<lparr>ao_itsOwn := False\<rparr>"

definition destroyArray :: "arrayOwner \<Rightarrow> 's \<Rightarrow> 's outcome" where
  "destroyArray a s = (if ao_itsOwn a \<and> ao_data a = InsideBlock then Inl (BadFree, s) else Inr s)"

record messageEnvelop =
  me_sender :: u32
  me_receiver :: u32
  me_sequence :: u32
  me_ip :: u32
  me_port :: u16
  me_type :: u16

definition readEnvelop :: "bytes \<Rightarrow> messageEnvelop option" where
  "readEnvelop t =
     (case (rd32 t 0, rd32 t 4, rd32 t 8, rd32 t 12, rd16 t 16, rd16 t 18) of
        (Some sender, Some receiver, Some sequence, Some ip, Some port, Some ty) \<Rightarrow>
          Some \<lparr>me_sender = sender, me_receiver = receiver, me_sequence = sequence, me_ip = ip, me_port = port, me_type = ty\<rparr>
      | _ \<Rightarrow> None)"

text \<open>The header and the owner of its array \<^verbatim>\<open>transferKey\<close>, which points into the packet.\<close>

definition readHeader :: "bytes \<Rightarrow> (incomingHeader \<times> arrayOwner) option" where
  "readHeader t =
     (case (rd16 t 0, rd32 t 2, rd32 t 6, rd16 t 26, rd16 t 28, rd32 t 30, rd16 t 34) of
        (Some version, Some sender, Some receiver, Some ty, Some sequence, Some timestamp, Some avatar) \<Rightarrow>
          Some (\<lparr>mh_version = version, mh_sender = sender, mh_receiver = receiver, mh_type = ty, mh_sequence = sequence,
                 mh_timestamp = timestamp, mh_avatar = avatar\<rparr>, wrapPointer InsideBlock)
      | _ \<Rightarrow> None)"

definition keyedDecrypt :: "qqEnv \<Rightarrow> bytes \<Rightarrow> bytes \<Rightarrow> bytes option" where
  "keyedDecrypt en code key =
     (if 16 \<le> length code \<and> length code mod 8 = 0 \<and> length key < 16 then None
      else Some (ba_data (fst (decrypt code key (en_behind en)))))"

definition decryptEither :: "qqEnv \<Rightarrow> bytes \<Rightarrow> bytes \<Rightarrow> bytes \<Rightarrow> bytes option" where
  "decryptEither en code key key' =
     (case keyedDecrypt en code key of
        None \<Rightarrow> None
      | Some t \<Rightarrow> if t = [] then keyedDecrypt en code key' else Some t)"

definition incomingText :: "qqEnv \<Rightarrow> qqPacket \<Rightarrow> 'a qqSession_scheme \<Rightarrow> byteArray option" where
  "incomingText en packet s =
     (if pk_command packet = cmdRequestLoginToken then loginTokenReply (pk_body packet)
      else if pk_command packet = cmdLogin
      then map_option duplicate (decryptEither en (pk_body packet) (ba_data (qs_passwordKey s)) init_key)
      else map_option duplicate
             (decryptEither en (pk_body packet) (ba_data (qs_sessionKey s)) (ba_data (qs_passwordKey s))))"

definition handleDetail :: "'a qqSession_scheme slots \<Rightarrow> bytes \<Rightarrow> 'a qqSession_scheme \<Rightarrow> 'a qqSession_scheme outcome" where
  "handleDetail slots t =
     need (contactDetailOf t)
       (\<lambda>dict. emitSignal slots (ContactDetailReceived (cstr (the (dict ''qqId''))) (map_option cstr \<circ> dict)))"

definition handleChangeStatus ::
    "qqEnv \<Rightarrow> 'a qqSession_scheme slots \<Rightarrow> bytes \<Rightarrow> 'a qqSession_scheme \<Rightarrow> 'a qqSession_scheme outcome" where
  "handleChangeStatus en slots t =
     need (replyCode t)
       (\<lambda>code s. if code = 0x30 then emitSignal slots (StatusChanged (qs_newstatus s)) s
                 else notifyDisconnect en slots s)"

text \<open>The message starts after the header, two unread bytes apart; it ends at the next zero.\<close>

definition handleBuddyMessage :: "'a qqSession_scheme slots \<Rightarrow> bytes \<Rightarrow> 'a qqSession_scheme \<Rightarrow> 'a qqSession_scheme outcome" where
  "handleBuddyMessage slots body =
     need (readHeader body)
       (\<lambda>(mh, transferKey) s.
         andThen
           (if mh_receiver mh \<noteq> qs_qqId s then Inr s
            else need (rd8 body (36 + 3)) (\<lambda>hasFontStyle.
                 need (rd8 body (36 + 8)) (\<lambda>replyType.
                 need (rdString body (36 + 9)) (\<lambda>msg.
                   emitSignal slots
                     (MessageReceived mh (ba_data (appendBytes [0] (fold (\<lambda>b. appendBytes [b]) msg
                       (newByteArray (int (length body)))))))))) s)
           (destroyArray transferKey))"

definition handleMessage ::
    "'a qqSession_scheme slots \<Rightarrow> u16 \<Rightarrow> bytes \<Rightarrow> 'a qqSession_scheme \<Rightarrow> 'a qqSession_scheme outcome" where
  "handleMessage slots sequence t =
     need (readEnvelop t) (\<lambda>envelop.
     need (replyKey t) (\<lambda>key s.
       andThen
         (need (keyed (qs_sessionKey s) (\<lambda>k. messageReplyPacket (qs_qqId s) sequence k (ba_data key))) sendRaw s)
         (\<lambda>s. let body = drop 20 t; owner = releasePointer (wrapPointer InsideBlock)
              in andThen
                   (if me_type envelop = 0x0009 then handleBuddyMessage slots body s else Inr s)
                   (destroyArray owner))))"

definition handleRequestKey :: "bytes \<Rightarrow> 'a qqSession_scheme \<Rightarrow> 'a qqSession_scheme outcome" where
  "handleRequestKey t =
     need (rd8 t 0) (\<lambda>ty. need (rd8 t 1) (\<lambda>reply s.
       if reply = 0 \<and> ty = 0x03
       then need (transferKeyOf t) (\<lambda>key s.
              need (transferToken t) (\<lambda>token s. Inr (s\<lparr>qs_transferToken := token\<rparr>)) (s\<lparr>qs_transferKey := key\<rparr>)) s
       else Inr s))"

text \<open>The metadata that is shown in the debug output.\<close>

definition debugLogin :: "bytes \<Rightarrow> unit option" where
  "debugLogin t =
     (if remoteIP t \<noteq> None \<and> remotePort t \<noteq> None \<and> localIP t \<noteq> None \<and> localPort t \<noteq> None \<and> loginTime t \<noteq> None
         \<and> lastLoginFrom t \<noteq> None \<and> lastLoginTime t \<noteq> None
      then Some () else None)"

definition loginAccepted :: "qqEnv \<Rightarrow> 'a qqSession_scheme slots \<Rightarrow> bytes \<Rightarrow> 'a qqSession_scheme \<Rightarrow> 'a qqSession_scheme outcome" where
  "loginAccepted en slots t =
     need (sessionKeyOf t) (\<lambda>key s.
       need (if en_debug en then debugLogin t else Some ()) (\<lambda>_ s.
         andThen (emitSignal slots NewContactList (s\<lparr>qs_heartbeat := True\<rparr>))
           (\<lambda>s. andThen (request (\<lambda>qq seq k. statusUpdatePacket qq seq k 10) (s\<lparr>qs_newstatus := Online\<rparr>))
             (\<lambda>s. andThen (request transferKeyPacket s)
               (\<lambda>s. andThen (sendContactDetail (qs_qqId s) s)
                 (sendListOnlineContacts 0)))))
         (s\<lparr>qs_sessionKey := key\<rparr>))"

definition handleLogin ::
    "qqEnv \<Rightarrow> 'a qqSession_scheme slots \<Rightarrow> bytes \<Rightarrow> 'a qqSession_scheme \<Rightarrow> 'a qqSession_scheme outcome" where
  "handleLogin en slots t =
     need (replyCode t)
       (\<lambda>code s.
         if code = 0x00 then loginAccepted en slots t s
         else if code = 0x01
         then andThen (need (if en_debug en \<and> (redirectedIP t = None \<or> redirectedPort t = None) then None else Some ())
                         (\<lambda>_. notifyDisconnect en slots) s)
                (need (redirectedIP t) (\<lambda>ip. need (redirectedPort t) (\<lambda>port.
                   socketConnect slots (HostIP ip) (ucast port))))
         else Inr s)"

primrec emitAll :: "'a qqSession_scheme slots \<Rightarrow> qqEvent list \<Rightarrow> 'a qqSession_scheme \<Rightarrow> 'a qqSession_scheme outcome" where
  "emitAll slots [] s = Inr s"
| "emitAll slots (e # es) s = andThen (emitSignal slots e s) (emitAll slots es)"

definition handleGroupInfos :: "'a qqSession_scheme slots \<Rightarrow> bytes \<Rightarrow> 'a qqSession_scheme \<Rightarrow> 'a qqSession_scheme outcome" where
  "handleGroupInfos slots t =
     need (groupInfosOf t) (\<lambda>gis s.
       andThen (emitAll slots (map (\<lambda>gi. ContactInGroup (gi_qqId gi) (gi_type gi) (gi_groupId gi)) gis) s)
         (need (qqNextGroupId t) (\<lambda>next s. if next \<noteq> 0 then sendDownloadGroups next s else Inr s)))"

text \<open>This one is not called.\<close>

definition doGetContactStatuses ::
    "'a qqSession_scheme slots \<Rightarrow> bytes \<Rightarrow> 'a qqSession_scheme \<Rightarrow> 'a qqSession_scheme outcome" where
  "doGetContactStatuses slots t =
     need (onlineContactsOf t) (\<lambda>(css, pos) s.
       andThen (emitAll slots (map ContactStatusChanged css) s)
         (\<lambda>s. if pos \<noteq> 0xff then sendListOnlineContacts pos s else Inr s))"

definition handleText ::
    "qqEnv \<Rightarrow> 'a qqSession_scheme slots \<Rightarrow> qqPacket \<Rightarrow> byteArray \<Rightarrow> 'a qqSession_scheme \<Rightarrow> 'a qqSession_scheme outcome" where
  "handleText en slots packet text s =
     (let c = pk_command packet; t = ba_data text
      in if c = cmdUpdateInfo \<or> c = cmdSearch \<or> c = cmdUserInfo then handleDetail slots t s
         else if c = cmdChangeStatus then handleChangeStatus en slots t s
         else if c = cmdReceiveMsg then handleMessage slots (pk_sequence packet) t s
         else if c = cmdRequestKey then handleRequestKey t s
         else if c = cmdLogin then handleLogin en slots t s
         else if c = cmdGroupNames
         then need (groupNamesOf t) (\<lambda>l. emitSignal slots (GroupNames l)) s
         else if c = cmdDownloadGroups then handleGroupInfos slots t s
         else if c = cmdRequestLoginToken then sendLogin (s\<lparr>qs_token := text\<rparr>)
         else if c = cmdContactStatusChanged
         then need (readContactStatus t 0) (\<lambda>cs. emitSignal slots (ContactStatusChanged cs)) s
         else Inr s)"

definition handleIncomingPacket ::
    "qqEnv \<Rightarrow> 'a qqSession_scheme slots \<Rightarrow> bytes \<Rightarrow> 'a qqSession_scheme \<Rightarrow> 'a qqSession_scheme outcome" where
  "handleIncomingPacket en slots rawData s =
     need (readPacket rawData) (\<lambda>packet.
       need (incomingText en packet s) (handleText en slots packet)) s"

text \<open>What \<^verbatim>\<open>bytesAvailable\<close> and \<^verbatim>\<open>read\<close> return are the arguments; a failed read is None.\<close>

definition slotDataReceived ::
    "qqEnv \<Rightarrow> 'a qqSession_scheme slots \<Rightarrow> int \<Rightarrow> bytes option \<Rightarrow> 'a qqSession_scheme \<Rightarrow> 'a qqSession_scheme outcome" where
  "slotDataReceived en slots avail ret s =
     (if \<not> qs_socket s then Inl (NullSocket, s)
      else if avail < 0 then Inr s
      else case ret of
             None \<Rightarrow> Inr s
           | Some buf \<Rightarrow> if buf = [] then Inr s else handleIncomingPacket en slots buf s)"

subsection \<open>Outcomes\<close>

lemma andThen_simps [simp]: "andThen (Inr s) f = f s" "andThen (Inl e) f = Inl e"
  by (simp_all add: andThen_def)

lemma need_simps [simp]: "need (Some v) f s = f v s" "need None f s = Inl (ReadsOutside, s)"
  by (simp_all add: need_def)

lemma andThen_Inr: "andThen r f = Inr s' \<longleftrightarrow> (\<exists>s. r = Inr s \<and> f s = Inr s')"
  by (cases r) auto

lemma need_Inr: "need x f s = Inr s' \<longleftrightarrow> (\<exists>v. x = Some v \<and> f v s = Inr s')"
  by (cases x) auto

subsection \<open>What a session leaves alone\<close>

text \<open>
  The laws of the slots: they may send packets, but the socket, its status and the keys of the
  session are not theirs.  Whatever holds of the operations of the session holds with every
  listener that respects them.
\<close>

record sessionCore =
  co_status :: socketStatus
  co_socket :: bool
  co_token :: byteArray
  co_passwordKey :: byteArray
  co_sessionKey :: byteArray
  co_qqId :: u32
  co_heartbeat :: bool

definition core :: "'a qqSession_scheme \<Rightarrow> sessionCore" where
  "core s = \<lparr>co_status = qs_status s, co_socket = qs_socket s, co_token = qs_token s, co_passwordKey = qs_passwordKey s,
     co_sessionKey = qs_sessionKey s, co_qqId = qs_qqId s, co_heartbeat = qs_heartbeat s\<rparr>"

definition numberOf :: "bytes \<Rightarrow> (u16 \<times> u16) option" where
  "numberOf packet = map_option (\<lambda>p. (pk_command p, pk_sequence p)) (readPacket packet)"

text \<open>The sequence numbers of the requests among packets; an answer carries that of the server.\<close>

definition requestNumbers :: "bytes list \<Rightarrow> u16 list" where
  "requestNumbers packets = map snd (filter (\<lambda>n. fst n \<noteq> cmdReceiveMsg) (List.map_filter numberOf packets))"

definition allPackets :: "'a qqSession_scheme \<Rightarrow> bytes list" where
  "allPackets s = qs_written s @ qs_sendQueue s"

text \<open>Between two states the session has sent requests with the numbers from the first \<^verbatim>\<open>m_id\<close> on.\<close>

definition numbered :: "'a qqSession_scheme \<Rightarrow> 'a qqSession_scheme \<Rightarrow> bool" where
  "numbered s s' \<longleftrightarrow>
     (\<exists>sent n. allPackets s' = allPackets s @ sent \<and> qs_id s' = qs_id s + of_nat n
        \<and> requestNumbers sent = map (\<lambda>i. ucast (qs_id s + of_nat i)) [0 ..< n])"

lemma numbered_refl [simp]: "numbered s s"
  by (auto simp: numbered_def requestNumbers_def intro!: exI [of _ "[]"] exI [of _ 0])

lemma map_filter_append: "List.map_filter f (xs @ ys) = List.map_filter f xs @ List.map_filter f ys"
  by (simp add: List.map_filter_def)

lemma numbered_trans: "numbered s s' \<Longrightarrow> numbered s' s'' \<Longrightarrow> numbered s s''"
proof -
  assume "numbered s s'" "numbered s' s''"
  then obtain sent n sent' n' where *: "allPackets s' = allPackets s @ sent" "qs_id s' = qs_id s + of_nat n"
    "requestNumbers sent = map (\<lambda>i. ucast (qs_id s + of_nat i)) [0 ..< n]"
    "allPackets s'' = allPackets s' @ sent'" "qs_id s'' = qs_id s' + of_nat n'"
    "requestNumbers sent' = map (\<lambda>i. ucast (qs_id s' + of_nat i)) [0 ..< n']"
    unfolding numbered_def by blast
  have "map (\<lambda>i. ucast (qs_id s + of_nat i) :: u16) [n ..< n + n'] = map (\<lambda>i. ucast (qs_id s' + of_nat i)) [0 ..< n']"
    unfolding *(2) by (rule nth_equalityI) (simp_all add: algebra_simps)
  moreover have "[0 ..< n + n'] = [0 ..< n] @ [n ..< n + n']" by (rule upt_add_eq_append) simp
  ultimately have "requestNumbers (sent @ sent') = map (\<lambda>i. ucast (qs_id s + of_nat i)) [0 ..< n + n']"
    using *(3,6) by (simp add: requestNumbers_def map_filter_append)
  then show ?thesis using * unfolding numbered_def by (intro exI [of _ "sent @ sent'"] exI [of _ "n + n'"]) simp
qed

lemma numberOf_frame:
  "length l = 3 \<Longrightarrow> numberOf (l @ enc16 v @ enc16 c @ enc16 q @ body @ [t]) = Some (c, q)"
  by (simp add: numberOf_def readPacket_frame)

lemma numberOf_created: "numberOf (ba_data (createPacket qq c q key text)) = Some (c, q)"
proof (cases "length (ba_data (encrypt text key)) \<le> 65521")
  case True
  then show ?thesis by (simp add: numberOf_def readPacket_created)
next
  case False
  have "65521 < (if k mod 8 = 7 then k + 9 else 16 + 8 * (k div 8)) \<Longrightarrow>
      65522 < (if k mod 8 = 7 then k + 9 else 16 + 8 * (k div 8))" for k :: nat by presburger
  with False have "length (ba_data (encrypt text key)) > 65522" unfolding length_encrypt not_le by blast
  then have "ba_data (createPacket qq c q key text) =
      (enc16 14 @ [qqHead]) @ enc16 qqVersion @ enc16 c @ enc16 q @ enc32 qq @ [qqTail]"
    by (simp add: createPacket_full)
  moreover have "length (enc16 14 @ [qqHead]) = 3" by simp
  ultimately show ?thesis by (simp only: numberOf_frame)
qed

lemma loginText_length: "length (ba_data (loginText key token mode)) = 416"
proof -
  have "length (ba_data (appendAll ps a)) \<le> nat (ba_capacity a)" if "int (length (ba_data a)) \<le> ba_capacity a" for ps a
    using that
  proof (induction ps arbitrary: a)
    case (Cons p ps)
    have "int (length (ba_data (appendBytes p a))) \<le> ba_capacity (appendBytes p a)"
      using Cons.prems by (auto simp: appendBytes_def copyAt_def)
    from Cons.IH [OF this] show ?case by (simp add: appendAll_def)
  qed (simp add: appendAll_def)
  from this [of "newByteArray 416"] show ?thesis by (simp add: loginText_def Let_def)
qed

lemma loginPacket_frame:
  "\<exists>l. length l = 3 \<and> ba_data (loginPacket qq q key token mode) =
    l @ enc16 qqVersion @ enc16 cmdLogin @ enc16 q
      @ (enc32 qq @ init_key @ ba_data (encrypt (ba_data (loginText key token mode)) init_key)) @ [qqTail]"
proof -
  let ?E = "ba_data (encrypt (ba_data (loginText key token mode)) init_key)"
  have len: "length ?E \<le> 432" using length_encrypt_le [of "ba_data (loginText key token mode)" init_key]
    by (simp add: loginText_length)
  have "length init_key = 16" by (simp add: init_key_def)
  then have "appendAll [ba_data (qqHeader qq cmdLogin q), init_key, ?E, [qqTail]] (newByteArray MaxPacketLength) =
      \<lparr>ba_capacity = MaxPacketLength, ba_data = ba_data (qqHeader qq cmdLogin q) @ init_key @ ?E @ [qqTail]\<rparr>"
    using len by (subst appendAll_fits) (simp_all add: MaxPacketLength_def newByteArray_def)
  then have "ba_data (loginPacket qq q key token mode) =
      (enc16 (of_nat (length (ba_data (qqHeader qq cmdLogin q) @ init_key @ ?E @ [qqTail]))) @ [qqHead])
      @ enc16 qqVersion @ enc16 cmdLogin @ enc16 q @ (enc32 qq @ init_key @ ?E) @ [qqTail]"
    unfolding loginPacket_def by (subst setLength_data) (simp_all add: MaxPacketLength_def)
  then show ?thesis by (intro exI conjI) simp_all
qed

lemma loginTokenPacket_frame:
  "ba_data (loginTokenPacket qq q) =
    (enc16 15 @ [qqHead]) @ enc16 qqVersion @ enc16 cmdRequestLoginToken @ enc16 q @ (enc32 qq @ [0]) @ [qqTail]"
  by (simp add: loginTokenPacket_def appendAll_fits setLength_data)

lemma numberOf_login: "numberOf (ba_data (loginPacket qq q key token mode)) = Some (cmdLogin, q)"
proof -
  obtain l where "length l = 3" and eq: "ba_data (loginPacket qq q key token mode) =
    l @ enc16 qqVersion @ enc16 cmdLogin @ enc16 q
      @ (enc32 qq @ init_key @ ba_data (encrypt (ba_data (loginText key token mode)) init_key)) @ [qqTail]"
    using loginPacket_frame by blast
  then show ?thesis unfolding eq by (intro numberOf_frame)
qed

lemma numberOf_loginToken: "numberOf (ba_data (loginTokenPacket qq q)) = Some (cmdRequestLoginToken, q)"
  unfolding loginTokenPacket_frame by (rule numberOf_frame) simp

text \<open>A builder makes requests with the number it is given.\<close>

definition makesRequests :: "(u32 \<Rightarrow> u16 \<Rightarrow> bytes \<Rightarrow> byteArray) \<Rightarrow> bool" where
  "makesRequests build \<longleftrightarrow> (\<forall>qq q key. \<exists>c. c \<noteq> cmdReceiveMsg \<and> numberOf (ba_data (build qq q key)) = Some (c, q))"

lemma cmd_differ:
  "cmdChangeStatus \<noteq> cmdReceiveMsg" "cmdRequestKey \<noteq> cmdReceiveMsg" "cmdUserInfo \<noteq> cmdReceiveMsg"
  "cmdContactsOnline \<noteq> cmdReceiveMsg" "cmdGroupNames \<noteq> cmdReceiveMsg" "cmdDownloadGroups \<noteq> cmdReceiveMsg"
  "cmdSendMsg \<noteq> cmdReceiveMsg" "cmdHeartbeat \<noteq> cmdReceiveMsg" "cmdLogin \<noteq> cmdReceiveMsg"
  "cmdRequestLoginToken \<noteq> cmdReceiveMsg"
  by (simp_all add: cmd_defs)

lemma makesRequests_all:
  "makesRequests (\<lambda>qq q key. statusUpdatePacket qq q key st)" "makesRequests transferKeyPacket"
  "makesRequests (\<lambda>qq q key. contactDetailPacket qq q key qqId)" "makesRequests (\<lambda>qq q key. onlineContactsPacket qq q key pos)"
  "makesRequests groupNamesPacket" "makesRequests (\<lambda>qq q key. downloadGroupsPacket qq q key npos)"
  "makesRequests (\<lambda>qq q key. textMessagePacket qq q key toId tk now message)" "makesRequests heartbeatPacket"
  by (simp_all add: makesRequests_def numberOf_created cmd_differ statusUpdatePacket_def transferKeyPacket_def
      contactDetailPacket_def onlineContactsPacket_def groupNamesPacket_def downloadGroupsPacket_def
      textMessagePacket_def heartbeatPacket_def)

subsection \<open>Sending keeps the numbers consecutive\<close>

lemma numbered_update [simp]:
  "numbered s (s'\<lparr>qs_events := x\<rparr>) = numbered s s'" "numbered s (s'\<lparr>qs_status := st\<rparr>) = numbered s s'"
  "numbered s (s'\<lparr>qs_writeEnabled := w\<rparr>) = numbered s s'" "numbered s (s'\<lparr>qs_socket := w\<rparr>) = numbered s s'"
  "numbered s (s'\<lparr>qs_newstatus := ns\<rparr>) = numbered s s'" "numbered s (s'\<lparr>qs_heartbeat := w\<rparr>) = numbered s s'"
  "numbered s (s'\<lparr>qs_token := k\<rparr>) = numbered s s'" "numbered s (s'\<lparr>qs_sessionKey := k\<rparr>) = numbered s s'"
  "numbered s (s'\<lparr>qs_transferKey := k\<rparr>) = numbered s s'" "numbered s (s'\<lparr>qs_transferToken := k\<rparr>) = numbered s s'"
  "numbered s (s'\<lparr>qs_disconnectReason := r\<rparr>) = numbered s s'"
  "numbered (s\<lparr>qs_events := x\<rparr>) s' = numbered s s'" "numbered (s\<lparr>qs_status := st\<rparr>) s' = numbered s s'"
  "numbered (s\<lparr>qs_writeEnabled := w\<rparr>) s' = numbered s s'" "numbered (s\<lparr>qs_socket := w\<rparr>) s' = numbered s s'"
  "numbered (s\<lparr>qs_newstatus := ns\<rparr>) s' = numbered s s'" "numbered (s\<lparr>qs_heartbeat := w\<rparr>) s' = numbered s s'"
  "numbered (s\<lparr>qs_token := k\<rparr>) s' = numbered s s'" "numbered (s\<lparr>qs_sessionKey := k\<rparr>) s' = numbered s s'"
  "numbered (s\<lparr>qs_transferKey := k\<rparr>) s' = numbered s s'" "numbered (s\<lparr>qs_transferToken := k\<rparr>) s' = numbered s s'"
  "numbered (s\<lparr>qs_disconnectReason := r\<rparr>) s' = numbered s s'"
  by (simp_all add: numbered_def allPackets_def)

lemma sendRaw_cases:
  "sendRaw data s =
    (if qs_socket s then Inr (s\<lparr>qs_sendQueue := qs_sendQueue s @ [data], qs_writeEnabled := True\<rparr>)
     else Inl (NullSocket, s\<lparr>qs_sendQueue := qs_sendQueue s @ [data]\<rparr>))"
  by (simp add: sendRaw_def Let_def)

lemma numbered_send:
  assumes "numberOf data = Some (c, ucast (qs_id s))" "c \<noteq> cmdReceiveMsg" "sendRaw data (s\<lparr>qs_id := qs_id s + 1\<rparr>) = Inr s'"
  shows "numbered s s'"
proof -
  have "requestNumbers [data] = [ucast (qs_id s)]" using assms(1,2) by (simp add: requestNumbers_def List.map_filter_def)
  with assms(3) show ?thesis
    by (auto simp: sendRaw_cases numbered_def allPackets_def split: if_splits intro!: exI [of _ "[data]"] exI [of _ "Suc 0"])
qed

lemma request_numbered: "makesRequests build \<Longrightarrow> request build s = Inr s' \<Longrightarrow> numbered s s'"
proof -
  assume build: "makesRequests build" and "request build s = Inr s'"
  then have "sendRaw (ba_data (build (qs_qqId s) (ucast (qs_id s)) (ba_data (qs_sessionKey s)))) (s\<lparr>qs_id := qs_id s + 1\<rparr>) = Inr s'"
    by (auto simp: request_def nextSequence_def need_Inr keyed_def split: if_splits)
  moreover obtain c where "c \<noteq> cmdReceiveMsg"
    "numberOf (ba_data (build (qs_qqId s) (ucast (qs_id s)) (ba_data (qs_sessionKey s)))) = Some (c, ucast (qs_id s))"
    using build unfolding makesRequests_def by blast
  ultimately show ?thesis by (blast intro: numbered_send)
qed

lemma login_numbered: "sendLogin s = Inr s' \<Longrightarrow> numbered s s'" "sendLoginToken s = Inr s' \<Longrightarrow> numbered s s'"
  by (auto simp: sendLogin_def sendLoginToken_def nextSequence_def need_Inr keyed_def Let_def cmd_differ
      intro: numbered_send [OF numberOf_login] numbered_send [OF numberOf_loginToken] split: if_splits)

lemma reply_numbered:
  assumes "need (keyed key (\<lambda>k. messageReplyPacket qq seq k t)) sendRaw s = Inr s'"
  shows "numbered s s'"
proof -
  obtain data where data: "numberOf data = Some (cmdReceiveMsg, seq)" and "sendRaw data s = Inr s'"
    using assms by (auto simp: need_Inr keyed_def messageReplyPacket_def intro: that [OF numberOf_created] split: if_splits)
  moreover have "requestNumbers [data] = []" using data by (simp add: requestNumbers_def List.map_filter_def)
  ultimately show ?thesis
    by (auto simp: sendRaw_cases numbered_def allPackets_def split: if_splits intro!: exI [of _ "[data]"] exI [of _ 0])
qed

lemma reply_sent:
  "keyed key (\<lambda>k. messageReplyPacket qq seq k t) = Some d \<Longrightarrow> sendRaw d s = Inr s' \<Longrightarrow> numbered s s'"
  by (rule reply_numbered [of key qq seq t]) simp

lemma sends_numbered:
  "sendContactDetail q s = Inr s' \<Longrightarrow> numbered s s'" "sendListOnlineContacts pos s = Inr s' \<Longrightarrow> numbered s s'"
  "sendGetGroupNames s = Inr s' \<Longrightarrow> numbered s s'" "sendDownloadGroups npos s = Inr s' \<Longrightarrow> numbered s s'"
  "sendTextMessage now toId message s = Inr s' \<Longrightarrow> numbered s s'" "sendHeartbeat s = Inr s' \<Longrightarrow> numbered s s'"
  unfolding sendContactDetail_def sendListOnlineContacts_def sendGetGroupNames_def sendDownloadGroups_def
      sendTextMessage_def sendHeartbeat_def
  by (erule makesRequests_all [THEN request_numbered])+

subsection \<open>Sending leaves the core alone\<close>

lemma core_update [simp]:
  "core (s\<lparr>qs_events := x\<rparr>) = core s" "core (s\<lparr>qs_writeEnabled := w\<rparr>) = core s" "core (s\<lparr>qs_id := n\<rparr>) = core s"
  "core (s\<lparr>qs_sendQueue := q\<rparr>) = core s" "core (s\<lparr>qs_written := q\<rparr>) = core s" "core (s\<lparr>qs_server := v\<rparr>) = core s"
  "core (s\<lparr>qs_newstatus := ns\<rparr>) = core s" "core (s\<lparr>qs_disconnectReason := r\<rparr>) = core s"
  "core (s\<lparr>qs_transferKey := k\<rparr>) = core s" "core (s\<lparr>qs_transferToken := k\<rparr>) = core s"
  "core (s\<lparr>qs_status := st\<rparr>) = (core s)\<lparr>co_status := st\<rparr>" "core (s\<lparr>qs_socket := b\<rparr>) = (core s)\<lparr>co_socket := b\<rparr>"
  "core (s\<lparr>qs_token := k\<rparr>) = (core s)\<lparr>co_token := k\<rparr>" "core (s\<lparr>qs_sessionKey := k\<rparr>) = (core s)\<lparr>co_sessionKey := k\<rparr>"
  "core (s\<lparr>qs_heartbeat := b\<rparr>) = (core s)\<lparr>co_heartbeat := b\<rparr>"
  by (simp_all add: core_def)

lemma core_sel [simp]: "co_status (core s) = qs_status s" "co_socket (core s) = qs_socket s"
  "co_sessionKey (core s) = qs_sessionKey s" "co_heartbeat (core s) = qs_heartbeat s"
  by (simp_all add: core_def)

lemma sendRaw_core: "sendRaw data s = Inr s' \<Longrightarrow> core s' = core s"
  by (auto simp: sendRaw_cases split: if_splits)

lemma request_core: "request build s = Inr s' \<Longrightarrow> core s' = core s"
  by (auto simp: request_def nextSequence_def Let_def need_Inr dest!: sendRaw_core)

lemma sends_core:
  "sendLogin s = Inr s' \<Longrightarrow> core s' = core s" "sendLoginToken s = Inr s' \<Longrightarrow> core s' = core s"
  "sendContactDetail q s = Inr s' \<Longrightarrow> core s' = core s" "sendListOnlineContacts pos s = Inr s' \<Longrightarrow> core s' = core s"
  "sendGetGroupNames s = Inr s' \<Longrightarrow> core s' = core s" "sendDownloadGroups npos s = Inr s' \<Longrightarrow> core s' = core s"
  "sendTextMessage now toId message s = Inr s' \<Longrightarrow> core s' = core s"
  by (auto simp: sendLogin_def sendLoginToken_def nextSequence_def Let_def need_Inr sendContactDetail_def
      sendListOnlineContacts_def sendGetGroupNames_def sendDownloadGroups_def sendTextMessage_def
      dest!: sendRaw_core request_core)

text \<open>
  A session that is connecting or connected has a socket, and one whose heartbeat runs has a key.
\<close>

definition sound :: "'a qqSession_scheme \<Rightarrow> bool" where
  "sound s \<longleftrightarrow>
     (qs_status s = SockConnecting \<or> qs_status s = SockConnected \<longrightarrow> qs_socket s)
     \<and> (qs_heartbeat s \<longrightarrow> 16 \<le> length (ba_data (qs_sessionKey s)))"

lemma sound_core: "core s' = core s \<Longrightarrow> sound s' = sound s"
  unfolding sound_def by (metis core_sel)

subsection \<open>Listeners\<close>

text \<open>A new connection starts with number 5 again; the packets that wait are still those of before.\<close>

definition continues :: "'a qqSession_scheme \<Rightarrow> 'a qqSession_scheme \<Rightarrow> bool" where
  "continues s s' \<longleftrightarrow> numbered s s' \<or> (\<exists>m. numbered s m \<and> qs_id s' = 5 \<and> allPackets s' = allPackets m)"

lemma continues_numbered [intro]: "numbered s s' \<Longrightarrow> continues s s'"
  by (simp add: continues_def)

locale numbered_slots =
  fixes slots :: "qqEvent \<Rightarrow> 'a qqSession_scheme \<Rightarrow> (fault \<times> 'a qqSession_scheme) + 'a qqSession_scheme"
  assumes slots_numbered: "slots e s = Inr s' \<Longrightarrow> numbered s s'"
begin

lemma emit_numbered: "emitSignal slots e s = Inr s' \<Longrightarrow> numbered s s'"
  unfolding emitSignal_def by (drule slots_numbered) simp

lemma status_numbered: "setSocketStatus slots st s = Inr s' \<Longrightarrow> numbered s s'"
  by (auto simp: setSocketStatus_def split: if_splits dest!: emit_numbered)

lemma closed_numbered: "slotSocketClosed slots s = Inr s' \<Longrightarrow> numbered s s'"
  by (auto simp: slotSocketClosed_def andThen_Inr split: if_splits dest!: status_numbered emit_numbered
      intro: numbered_trans)

lemma disconnect_numbered: "notifyDisconnect en slots s = Inr s' \<Longrightarrow> numbered s s'"
  by (auto simp: notifyDisconnect_def socketDisconnect_def Let_def andThen_Inr split: if_splits
      dest!: status_numbered emit_numbered closed_numbered intro: numbered_trans)

lemma emitAll_numbered: "emitAll slots es s = Inr s' \<Longrightarrow> numbered s s'"
proof (induction es arbitrary: s)
  case (Cons e es)
  then show ?case by (auto simp: andThen_Inr dest!: emit_numbered intro: numbered_trans)
qed simp

lemma connect_continues: "socketConnect slots server port s = Inr s' \<Longrightarrow> continues s s'"
  by (auto simp: socketConnect_def andThen_Inr continues_def allPackets_def split: if_splits dest!: status_numbered)

lemma destroy_Inr: "destroyArray a s = Inr s' \<longleftrightarrow> \<not> (ao_itsOwn a \<and> ao_data a = InsideBlock) \<and> s' = s"
  by (auto simp: destroyArray_def)

lemma buddy_never_ends: "handleBuddyMessage slots body s \<noteq> Inr s'"
  by (auto simp: handleBuddyMessage_def need_Inr andThen_Inr destroy_Inr readHeader_def wrapPointer_def Let_def
      split: option.splits)

lemma message_numbered: "handleMessage slots q t s = Inr s' \<Longrightarrow> numbered s s'"
  by (auto simp: handleMessage_def need_Inr andThen_Inr destroy_Inr buddy_never_ends Let_def split: if_splits
      intro: reply_sent)

lemma loginAccepted_numbered: "loginAccepted en slots t s = Inr s' \<Longrightarrow> numbered s s'"
  by (auto simp: loginAccepted_def need_Inr andThen_Inr
      dest!: emit_numbered request_numbered [OF makesRequests_all(1)] request_numbered [OF makesRequests_all(2)] sends_numbered)
    (meson numbered_trans)

lemma login_continues: "handleLogin en slots t s = Inr s' \<Longrightarrow> continues s s'"
proof -
  have "continues s s'" if "numbered s m" "continues m s'" for m
    using that unfolding continues_def by (meson numbered_trans)
  then show "handleLogin en slots t s = Inr s' \<Longrightarrow> continues s s'"
    by (auto simp: handleLogin_def need_Inr andThen_Inr split: if_splits
        dest: loginAccepted_numbered disconnect_numbered connect_continues)
qed

lemma groups_numbered: "handleGroupInfos slots t s = Inr s' \<Longrightarrow> numbered s s'"
  by (auto simp: handleGroupInfos_def need_Inr andThen_Inr split: if_splits
      dest!: emitAll_numbered sends_numbered(4) intro: numbered_trans)

lemma key_numbered: "handleRequestKey t s = Inr s' \<Longrightarrow> numbered s s'"
  by (auto simp: handleRequestKey_def need_Inr split: if_splits)

lemma text_continues: "handleText en slots packet text s = Inr s' \<Longrightarrow> continues s s'"
  by (auto simp: handleText_def Let_def handleDetail_def handleChangeStatus_def need_Inr split: if_splits
      dest: emit_numbered disconnect_numbered message_numbered key_numbered login_continues groups_numbered
      dest!: login_numbered)

lemma packet_continues: "handleIncomingPacket en slots rawData s = Inr s' \<Longrightarrow> continues s s'"
  by (auto simp: handleIncomingPacket_def need_Inr dest: text_continues)

end

text \<open>Slots that leave the core of a session alone, too.\<close>

locale passive_slots = numbered_slots +
  assumes slots_core: "slots e s = Inr s' \<Longrightarrow> core s' = core s"
begin

lemma emit_core: "emitSignal slots e s = Inr s' \<Longrightarrow> core s' = core s"
  unfolding emitSignal_def by (drule slots_core) (simp add: core_def)

lemma status_core: "setSocketStatus slots st s = Inr s' \<Longrightarrow> core s' = (core s)\<lparr>co_status := st\<rparr>"
  by (auto simp: setSocketStatus_def core_def split: if_splits dest!: emit_core)

lemma emit_sound: "emitSignal slots e s = Inr s' \<Longrightarrow> sound s' = sound s"
  by (intro sound_core emit_core)

lemma core_fields: "core s' = core s \<Longrightarrow> qs_status s' = qs_status s \<and> qs_socket s' = qs_socket s
    \<and> qs_sessionKey s' = qs_sessionKey s \<and> qs_heartbeat s' = qs_heartbeat s"
  by (metis core_sel)

lemma status_sound:
  assumes "setSocketStatus slots st s = Inr s'"
  shows "qs_status s' = st \<and> qs_socket s' = qs_socket s \<and> qs_sessionKey s' = qs_sessionKey s
    \<and> qs_heartbeat s' = qs_heartbeat s"
  using core_fields [of s' "s\<lparr>qs_status := st\<rparr>"] status_core [OF assms] by simp

lemma closed_sound: "slotSocketClosed slots s = Inr s' \<Longrightarrow> sound s \<Longrightarrow> sound s'"
  by (auto simp: slotSocketClosed_def andThen_Inr emit_sound split: if_splits dest!: status_sound)
    (simp_all add: sound_def)

lemma socketDisconnect_sound: "socketDisconnect en slots s = Inr s' \<Longrightarrow> sound s \<Longrightarrow> sound s'"
proof -
  assume d: "socketDisconnect en slots s = Inr s'" and s: "sound s"
  show "sound s'"
  proof (cases "qs_socket s")
    case True
    with d obtain m where m: "(if en_closeEmits en then slotSocketClosed slots s else Inr s) = Inr m"
      and s': "setSocketStatus slots SockDisconnecting m = Inr s'"
      by (auto simp: socketDisconnect_def andThen_Inr)
    from m s have "sound m" by (auto split: if_splits dest: closed_sound)
    with status_sound [OF s'] show ?thesis by (simp add: sound_def)
  next
    case False
    with d s show ?thesis by (auto simp: socketDisconnect_def dest: closed_sound)
  qed
qed

lemma disconnect_sound: "notifyDisconnect en slots s = Inr s' \<Longrightarrow> sound s \<Longrightarrow> sound s'"
proof -
  assume d: "notifyDisconnect en slots s = Inr s'" and s: "sound s"
  let ?s = "if qs_disconnectReason s = 99 then s\<lparr>qs_disconnectReason := 0\<rparr> else s"
  have "sound ?s" using s by (simp add: sound_def)
  moreover have "emitSignal slots SocketClosed ?s = Inr s' \<or> socketDisconnect en slots ?s = Inr s'"
    using d by (auto simp: notifyDisconnect_def Let_def split: if_splits)
  ultimately show "sound s'" using emit_sound socketDisconnect_sound by blast
qed

lemma connect_sound: "socketConnect slots server port s = Inr s' \<Longrightarrow> sound s \<Longrightarrow> sound s'"
  by (auto simp: socketConnect_def andThen_Inr split: if_splits dest!: status_sound) (simp_all add: sound_def)

lemma error_sound: "slotSocketError slots fatal msg s = Inr s' \<Longrightarrow> sound s \<Longrightarrow> sound s'"
  by (auto simp: slotSocketError_def andThen_Inr emit_sound split: if_splits dest!: status_sound) (simp_all add: sound_def)

lemma success_sound: "slotConnectionSuccess slots s = Inr s' \<Longrightarrow> sound s \<Longrightarrow> qs_socket s \<Longrightarrow> sound s'"
proof -
  assume d: "slotConnectionSuccess slots s = Inr s'" and s: "sound s" "qs_socket s"
  then obtain m where m: "setSocketStatus slots SockConnected s = Inr m" and "sendLogin m = Inr s' \<or> sendLoginToken m = Inr s'"
    by (auto simp: slotConnectionSuccess_def andThen_Inr split: if_splits)
  then have "core s' = core m" using sends_core(1,2) by blast
  moreover have "sound m" using status_sound [OF m] s by (simp add: sound_def)
  ultimately show "sound s'" using sound_core by blast
qed

lemma emitAll_sound: "emitAll slots es s = Inr s' \<Longrightarrow> sound s' = sound s"
proof (induction es arbitrary: s)
  case (Cons e es)
  then obtain m where "emitSignal slots e s = Inr m" "emitAll slots es m = Inr s'" by (auto simp: andThen_Inr)
  then show ?case using emit_sound Cons.IH by blast
qed simp

lemma message_core: "handleMessage slots q t s = Inr s' \<Longrightarrow> core s' = core s"
  by (auto simp: handleMessage_def need_Inr andThen_Inr destroy_Inr buddy_never_ends Let_def split: if_splits
      dest!: sendRaw_core)

lemma loginAccepted_sound: "loginAccepted en slots t s = Inr s' \<Longrightarrow> sound s \<Longrightarrow> sound s'"
proof -
  assume d: "loginAccepted en slots t s = Inr s'" and s: "sound s"
  then obtain key m1 m2 m3 m4 where key: "sessionKeyOf t = Some key"
    and m: "emitSignal slots NewContactList (s\<lparr>qs_sessionKey := key, qs_heartbeat := True\<rparr>) = Inr m1"
      "request (\<lambda>qq seq k. statusUpdatePacket qq seq k 10) (m1\<lparr>qs_newstatus := Online\<rparr>) = Inr m2"
      "request transferKeyPacket m2 = Inr m3" "sendContactDetail (qs_qqId m3) m3 = Inr m4" "sendListOnlineContacts 0 m4 = Inr s'"
    by (auto simp: loginAccepted_def need_Inr andThen_Inr)
  have "length (ba_data key) = 16" using key by (auto simp: sessionKeyOf_def rdBytes_def split: if_splits)
  then have "sound (s\<lparr>qs_sessionKey := key, qs_heartbeat := True\<rparr>)" using s by (simp add: sound_def)
  then have "sound m1" using emit_sound [OF m(1)] by simp
  moreover have "core s' = core m1"
    using request_core [OF m(2)] request_core [OF m(3)] sends_core(3) [OF m(4)] sends_core(4) [OF m(5)] by simp
  ultimately show "sound s'" using sound_core by blast
qed

lemma login_sound: "handleLogin en slots t s = Inr s' \<Longrightarrow> sound s \<Longrightarrow> sound s'"
  by (auto simp: handleLogin_def need_Inr andThen_Inr split: if_splits
      dest: loginAccepted_sound disconnect_sound connect_sound)

lemma key_core: "handleRequestKey t s = Inr s' \<Longrightarrow> core s' = core s"
  by (auto simp: handleRequestKey_def need_Inr split: if_splits)

lemma groups_sound: "handleGroupInfos slots t s = Inr s' \<Longrightarrow> sound s' = sound s"
proof -
  assume "handleGroupInfos slots t s = Inr s'"
  then obtain es m n where m: "emitAll slots es s = Inr m" and "(if n \<noteq> 0 then sendDownloadGroups n m else Inr m) = Inr s'"
    by (auto simp: handleGroupInfos_def need_Inr andThen_Inr)
  then have "core s' = core m" by (auto split: if_splits dest: sends_core(6))
  with emitAll_sound [OF m] show ?thesis using sound_core by blast
qed

lemma text_sound:
  assumes "handleText en slots packet text s = Inr s'" "sound s"
  shows "sound s'"
proof -
  have token: "sound s'" if "sendLogin (s\<lparr>qs_token := text\<rparr>) = Inr s'"
  proof -
    have "sound (s\<lparr>qs_token := text\<rparr>)" using assms(2) by (simp add: sound_def)
    with sends_core(1) [OF that] show ?thesis using sound_core by blast
  qed
  have same: "sound s'" if "core s' = core s" using that assms(2) sound_core by blast
  from assms show ?thesis
    unfolding handleText_def Let_def
    by (auto simp: handleDetail_def handleChangeStatus_def need_Inr split: if_splits
        dest: emit_sound disconnect_sound login_sound groups_sound token message_core [THEN same] key_core [THEN same])
qed

lemma packet_sound: "handleIncomingPacket en slots rawData s = Inr s' \<Longrightarrow> sound s \<Longrightarrow> sound s'"
  by (auto simp: handleIncomingPacket_def need_Inr dest: text_sound)

end

text \<open>
  Slots that leave something of the owner of the session alone: no operation of the session changes it.
\<close>

lemma sends_more:
  "sendRaw data s = Inr s' \<Longrightarrow> qqSession.more s' = qqSession.more s"
  "request build s = Inr s' \<Longrightarrow> qqSession.more s' = qqSession.more s"
  "sendLogin s = Inr s' \<Longrightarrow> qqSession.more s' = qqSession.more s"
  "sendLoginToken s = Inr s' \<Longrightarrow> qqSession.more s' = qqSession.more s"
  "sendContactDetail q s = Inr s' \<Longrightarrow> qqSession.more s' = qqSession.more s"
  "sendListOnlineContacts pos s = Inr s' \<Longrightarrow> qqSession.more s' = qqSession.more s"
  "sendDownloadGroups npos s = Inr s' \<Longrightarrow> qqSession.more s' = qqSession.more s"
  "sendGetGroupNames s = Inr s' \<Longrightarrow> qqSession.more s' = qqSession.more s"
  "sendTextMessage now toId message s = Inr s' \<Longrightarrow> qqSession.more s' = qqSession.more s"
  "slotReadyWrite s = Inr s' \<Longrightarrow> qqSession.more s' = qqSession.more s"
  by (auto simp: sendLogin_def sendLoginToken_def nextSequence_def Let_def need_Inr sendContactDetail_def request_def
      sendListOnlineContacts_def sendGetGroupNames_def sendDownloadGroups_def sendTextMessage_def sendRaw_cases
      slotReadyWrite_def split: if_splits list.splits)

locale steady_slots = passive_slots +
  fixes flag :: "'a \<Rightarrow> bool"
  assumes slots_flag: "slots e s = Inr s' \<Longrightarrow> flag (qqSession.more s') = flag (qqSession.more s)"
begin

lemma emit_flag: "emitSignal slots e s = Inr s' \<Longrightarrow> flag (qqSession.more s') = flag (qqSession.more s)"
  unfolding emitSignal_def by (drule slots_flag) simp

lemma status_flag: "setSocketStatus slots st s = Inr s' \<Longrightarrow> flag (qqSession.more s') = flag (qqSession.more s)"
  by (auto simp: setSocketStatus_def split: if_splits dest!: emit_flag)

lemma closed_flag: "slotSocketClosed slots s = Inr s' \<Longrightarrow> flag (qqSession.more s') = flag (qqSession.more s)"
  by (auto simp: slotSocketClosed_def andThen_Inr split: if_splits dest!: status_flag emit_flag)

lemma disconnect_flag: "notifyDisconnect en slots s = Inr s' \<Longrightarrow> flag (qqSession.more s') = flag (qqSession.more s)"
  by (auto simp: notifyDisconnect_def socketDisconnect_def Let_def andThen_Inr split: if_splits
      dest!: status_flag emit_flag closed_flag)

lemma connect_flag: "socketConnect slots server port s = Inr s' \<Longrightarrow> flag (qqSession.more s') = flag (qqSession.more s)"
  by (auto simp: socketConnect_def andThen_Inr split: if_splits dest!: status_flag)

lemma error_flag: "slotSocketError slots fatal msg s = Inr s' \<Longrightarrow> flag (qqSession.more s') = flag (qqSession.more s)"
  by (auto simp: slotSocketError_def andThen_Inr split: if_splits dest!: status_flag emit_flag)

lemma success_flag: "slotConnectionSuccess slots s = Inr s' \<Longrightarrow> flag (qqSession.more s') = flag (qqSession.more s)"
  by (auto simp: slotConnectionSuccess_def andThen_Inr split: if_splits dest!: status_flag sends_more)

lemma emitAll_flag: "emitAll slots es s = Inr s' \<Longrightarrow> flag (qqSession.more s') = flag (qqSession.more s)"
proof (induction es arbitrary: s)
  case (Cons e es)
  then obtain m where "emitSignal slots e s = Inr m" "emitAll slots es m = Inr s'" by (auto simp: andThen_Inr)
  then show ?case using emit_flag Cons.IH by blast
qed simp

lemma loginAccepted_flag: "loginAccepted en slots t s = Inr s' \<Longrightarrow> flag (qqSession.more s') = flag (qqSession.more s)"
  by (auto simp: loginAccepted_def need_Inr andThen_Inr dest!: emit_flag sends_more)

lemma login_flag: "handleLogin en slots t s = Inr s' \<Longrightarrow> flag (qqSession.more s') = flag (qqSession.more s)"
  by (auto simp: handleLogin_def need_Inr andThen_Inr split: if_splits
      dest!: loginAccepted_flag disconnect_flag connect_flag)

lemma message_flag: "handleMessage slots q t s = Inr s' \<Longrightarrow> flag (qqSession.more s') = flag (qqSession.more s)"
  by (auto simp: handleMessage_def need_Inr andThen_Inr destroy_Inr buddy_never_ends Let_def split: if_splits
      dest!: sends_more)

lemma groups_flag: "handleGroupInfos slots t s = Inr s' \<Longrightarrow> flag (qqSession.more s') = flag (qqSession.more s)"
  by (auto simp: handleGroupInfos_def need_Inr andThen_Inr split: if_splits dest!: emitAll_flag sends_more)

lemma text_flag: "handleText en slots packet text s = Inr s' \<Longrightarrow> flag (qqSession.more s') = flag (qqSession.more s)"
  by (auto simp: handleText_def Let_def handleDetail_def handleChangeStatus_def handleRequestKey_def need_Inr
      split: if_splits dest!: emit_flag disconnect_flag login_flag message_flag groups_flag sends_more)

lemma packet_flag:
  "handleIncomingPacket en slots rawData s = Inr s' \<Longrightarrow> flag (qqSession.more s') = flag (qqSession.more s)"
  by (auto simp: handleIncomingPacket_def need_Inr dest: text_flag)

end

subsection \<open>Packets of the server\<close>

definition serverPacket :: "u16 \<Rightarrow> u16 \<Rightarrow> bytes \<Rightarrow> bytes" where
  "serverPacket c seq body =
     (enc16 (of_nat (10 + length body)) @ [qqHead]) @ enc16 qqVersion @ enc16 c @ enc16 seq @ body @ [qqTail]"

lemma readPacket_server: "readPacket (serverPacket c seq body) =
    Some \<lparr>pk_version = qqVersion, pk_command = c, pk_sequence = seq, pk_body = body\<rparr>"
  unfolding serverPacket_def by (rule readPacket_frame) simp

lemma length_encrypt_blocks: "16 \<le> length (ba_data (encrypt text key)) \<and> length (ba_data (encrypt text key)) mod 8 = 0"
  unfolding length_encrypt by presburger

lemma keyedDecrypt_encrypt:
  "length key = 16 \<Longrightarrow> length text mod 8 \<noteq> 7 \<Longrightarrow> keyedDecrypt en (ba_data (encrypt text key)) key = Some text"
  by (simp add: keyedDecrypt_def decrypt_encrypt)

lemma decryptEither_first:
  "length key = 16 \<Longrightarrow> length text mod 8 \<noteq> 7 \<Longrightarrow> text \<noteq> [] \<Longrightarrow>
    decryptEither en (ba_data (encrypt text key)) key key' = Some text"
  by (simp add: decryptEither_def keyedDecrypt_encrypt)

lemma incomingText_session:
  assumes "c \<noteq> cmdRequestLoginToken" "c \<noteq> cmdLogin" "length (ba_data (qs_sessionKey s)) = 16" "length text mod 8 \<noteq> 7" "text \<noteq> []"
  shows "incomingText en \<lparr>pk_version = v, pk_command = c, pk_sequence = q,
      pk_body = ba_data (encrypt text (ba_data (qs_sessionKey s)))\<rparr> s = Some (duplicate text)"
  using assms by (simp add: incomingText_def decryptEither_first)

lemma incomingText_login:
  assumes "length (ba_data (qs_passwordKey s)) = 16" "length text mod 8 \<noteq> 7" "text \<noteq> []"
  shows "incomingText en \<lparr>pk_version = v, pk_command = cmdLogin, pk_sequence = q,
      pk_body = ba_data (encrypt text (ba_data (qs_passwordKey s)))\<rparr> s = Some (duplicate text)"
  using assms by (simp add: incomingText_def decryptEither_first cmd_defs)

lemma request_ok:
  "qs_socket s \<Longrightarrow> 16 \<le> length (ba_data (qs_sessionKey s)) \<Longrightarrow> request build s =
    Inr (s\<lparr>qs_id := qs_id s + 1,
           qs_sendQueue := qs_sendQueue s @ [ba_data (build (qs_qqId s) (ucast (qs_id s)) (ba_data (qs_sessionKey s)))],
           qs_writeEnabled := True\<rparr>)"
  by (simp add: request_def nextSequence_def keyed_def sendRaw_cases)

lemma sendLogin_ok:
  "qs_socket s \<Longrightarrow> 16 \<le> length (ba_data (qs_passwordKey s)) \<Longrightarrow> sendLogin s =
    Inr (s\<lparr>qs_id := qs_id s + 1,
           qs_sendQueue := qs_sendQueue s @ [ba_data (loginPacket (qs_qqId s) (ucast (qs_id s)) (ba_data (qs_passwordKey s))
             (qs_token s) (qs_loginMode s))],
           qs_writeEnabled := True\<rparr>)"
  by (simp add: sendLogin_def nextSequence_def keyed_def sendRaw_cases)

lemma sint_small_u8: "n < 128 \<Longrightarrow> sint (of_nat n :: u8) = int n"
proof -
  assume n: "n < 128"
  then have "take_bit 8 n = n" by (simp add: take_bit_nat_eq_self_iff)
  moreover have "signed_take_bit 7 (int n) = int n" using n by (intro signed_take_bit_int_eq_self) simp_all
  ultimately show ?thesis by (simp add: sint_uint unsigned_of_nat)
qed

lemma loginTokenReply_ok:
  "length token < 128 \<Longrightarrow> loginTokenReply ([0, of_nat (length token)] @ token) =
    Some \<lparr>ba_capacity = int (length token), ba_data = token\<rparr>"
  by (simp add: loginTokenReply_def rd8_def rdBytes_def sint_small_u8 appendBytes_def copyAt_def newByteArray_def)

lemma token_received:
  assumes "length token < 128" "qs_socket s" "16 \<le> length (ba_data (qs_passwordKey s))"
  shows "handleIncomingPacket en slots (serverPacket cmdRequestLoginToken q ([0, of_nat (length token)] @ token)) s =
    sendLogin (s\<lparr>qs_token := \<lparr>ba_capacity = int (length token), ba_data = token\<rparr>\<rparr>)"
  using loginTokenReply_ok [OF assms(1)]
  by (simp add: handleIncomingPacket_def readPacket_server incomingText_def handleText_def cmd_defs)

lemma login_received:
  assumes "length (ba_data (qs_passwordKey s)) = 16" "length text mod 8 \<noteq> 7" "text \<noteq> []"
  shows "handleIncomingPacket en slots (serverPacket cmdLogin q (ba_data (encrypt text (ba_data (qs_passwordKey s))))) s =
    handleLogin en slots text s"
  using assms
  by (simp add: handleIncomingPacket_def readPacket_server incomingText_login handleText_def)
    (simp add: cmd_defs)

lemma session_received:
  assumes "c \<noteq> cmdRequestLoginToken" "c \<noteq> cmdLogin" "length (ba_data (qs_sessionKey s)) = 16" "length text mod 8 \<noteq> 7" "text \<noteq> []"
  shows "handleIncomingPacket en slots (serverPacket c q (ba_data (encrypt text (ba_data (qs_sessionKey s))))) s =
    handleText en slots \<lparr>pk_version = qqVersion, pk_command = c, pk_sequence = q,
      pk_body = ba_data (encrypt text (ba_data (qs_sessionKey s)))\<rparr> (duplicate text) s"
  using assms by (simp add: handleIncomingPacket_def readPacket_server incomingText_session)

lemma loginAccepted_reads:
  assumes "length key = 16" "114 \<le> length rest"
  shows "sessionKeyOf (0 # key @ rest) = Some (duplicate key)" "debugLogin (0 # key @ rest) = Some ()"
  using assms
  by (simp_all add: sessionKeyOf_def rdBytes_def debugLogin_def remoteIP_def remotePort_def localIP_def localPort_def
      loginTime_def lastLoginFrom_def lastLoginTime_def rd32_def rd16_def)

end
