(* ===== verification/QQ_Account.thy ===== *)
theory QQ_Account
  imports QQ_Session
begin

text \<open>
  The account of the QQ protocol (\<^verbatim>\<open>qqaccount.cpp\<close>, \<^verbatim>\<open>qqcontact.cpp\<close>), with the session it owns.  Its
  slots are those the signals of the session run.

  The statuses \<^verbatim>\<open>Offline\<close> and \<^verbatim>\<open>CNT\<close> of the protocol object are never initialised and have the type
  of a default status, Unknown.  Pointers to groups are numbers, 0 the top level group; a contact
  is found under its number.  The hash of the password and the memory of a new session that is not
  initialised are arguments.  Chat sessions are left out: a message is recorded as it is handed to
  one.
\<close>

record qqContact =
  qc_status :: StatusType
  qc_blocked :: bool
  qc_allowed :: bool
  qc_reversed :: bool
  qc_deleted :: bool
  qc_phones :: "qstring \<times> qstring \<times> qstring"
  qc_group :: "nat option"
  qc_detail :: "string \<rightharpoonup> bytes"

record qqMessage =
  qm_sender :: "u32 option"
  qm_guid :: "u32 \<times> u32"
  qm_timestamp :: u32
  qm_body :: qstring

record qqAccount = qqSession +
  ac_notifySocket :: bool
  ac_myself :: StatusType
  ac_newContactList :: bool
  ac_groupList :: "nat list"
  ac_groups :: "(nat \<times> qstring) list"
  ac_contacts :: "u32 \<rightharpoonup> qqContact"
  ac_messages :: "qqMessage list"

record accountEnv =
  ae_session :: qqEnv
  ae_fromAscii :: "bytes \<Rightarrow> qstring"
  ae_hash :: byteArray
  ae_accountId :: u32
  ae_garbage :: "u32 \<times> int"
  ae_server :: "host \<times> u32"

definition protocolOffline :: StatusType where "protocolOffline = Unknown"
definition protocolCNT :: StatusType where "protocolCNT = Unknown"

definition mkQQContact :: qqContact where
  "mkQQContact = \<lparr>qc_status = protocolOffline, qc_blocked = False, qc_allowed = False, qc_reversed = False, qc_deleted = False,
     qc_phones = ([], [], []), qc_group = None, qc_detail = Map.empty\<rparr>"

definition setInfo :: "qstring \<Rightarrow> qstring \<Rightarrow> qqContact \<Rightarrow> qqContact" where
  "setInfo type data c =
     (case qc_phones c of (h, w, m) \<Rightarrow>
        if type = qstr ''PHH'' then c\<lparr>qc_phones := (data, w, m)\<rparr>
        else if type = qstr ''PHW'' then c\<lparr>qc_phones := (h, data, m)\<rparr>
        else if type = qstr ''PHM'' then c\<lparr>qc_phones := (h, w, data)\<rparr>
        else c)"

subsection \<open>Slots\<close>

definition fromEvaStatus :: "u8 \<Rightarrow> StatusType" where
  "fromEvaStatus es =
     (if es = 10 then Online else if es = 20 then Offline else if es = 30 then Away else if es = 40 then Invisible else Unknown)"

definition slotStatusChanged :: "StatusType \<Rightarrow> qqAccount \<Rightarrow> qqAccount outcome" where
  "slotStatusChanged status a =
     (let a = a\<lparr>ac_myself := status\<rparr>
      in if ac_newContactList a then andThen (sendGetGroupNames a) (sendDownloadGroups 0) else Inr a)"

definition resetContact :: "qqContact \<Rightarrow> qqContact" where
  "resetContact c =
     setInfo (qstr ''PHM'') [] (setInfo (qstr ''PHW'') [] (setInfo (qstr ''PHH'') []
       (c\<lparr>qc_blocked := False, qc_allowed := False, qc_reversed := False, qc_deleted := True\<rparr>)))"

definition slotNewContactList :: "qqAccount \<Rightarrow> qqAccount" where
  "slotNewContactList a = a\<lparr>ac_contacts := map_option resetContact \<circ> ac_contacts a, ac_newContactList := True\<rparr>"

text \<open>One name against one of the groups that were there before.\<close>

definition freshGroup :: "qqAccount \<Rightarrow> nat" where
  "freshGroup a = Suc (fold max (map fst (ac_groups a)) 0)"

definition listGroup :: "qstring \<Rightarrow> nat \<times> qstring \<Rightarrow> qqAccount \<Rightarrow> qqAccount" where
  "listGroup name g a =
     (if snd g = name then a\<lparr>ac_groupList := ac_groupList a @ [fst g]\<rparr>
      else
        let fallback = freshGroup a;
            a = a\<lparr>ac_groups := ac_groups a @ [(fallback, name)]\<rparr>
        in a\<lparr>ac_groupList := ac_groupList a @ [fallback]\<rparr>)"

definition slotGroupNamesListed :: "qstring list \<Rightarrow> qqAccount \<Rightarrow> qqAccount" where
  "slotGroupNamesListed ql a =
     (let groupList = ac_groups a;
          a = a\<lparr>ac_groupList := ac_groupList a @ [0]\<rparr>
      in fold (\<lambda>name. fold (listGroup name) groupList) ql a)"

text \<open>An index outside the list of groups is not checked.\<close>

definition slotContactInGroup :: "u32 \<Rightarrow> u8 \<Rightarrow> qqAccount \<Rightarrow> qqAccount outcome" where
  "slotContactInGroup qqId groupId a =
     (case ac_contacts a qqId of
        Some c \<Rightarrow> Inr a
      | None \<Rightarrow>
          let c = mkQQContact\<lparr>qc_status := protocolOffline\<rparr>;
              a = a\<lparr>ac_contacts := (ac_contacts a)(qqId \<mapsto> c)\<rparr>
          in if unat groupId < length (ac_groupList a)
             then Inr (a\<lparr>ac_contacts := (ac_contacts a)(qqId \<mapsto> c\<lparr>qc_group := Some (ac_groupList a ! unat groupId)\<rparr>)\<rparr>)
             else Inl (ReadsOutside, a))"

definition qqContactStatusChanged :: "contactStatus \<Rightarrow> qqAccount \<Rightarrow> qqAccount" where
  "qqContactStatusChanged cs a =
     (case ac_contacts a (cs_qqId cs) of
        None \<Rightarrow> a
      | Some c \<Rightarrow> a\<lparr>ac_contacts := (ac_contacts a)(cs_qqId cs \<mapsto> c\<lparr>qc_status := fromEvaStatus (cs_status cs)\<rparr>)\<rparr>)"

definition slotMessageReceived :: "accountEnv \<Rightarrow> incomingHeader \<Rightarrow> bytes \<Rightarrow> qqAccount \<Rightarrow> qqAccount" where
  "slotMessageReceived ae header message a =
     a\<lparr>ac_messages := ac_messages a @
         [\<lparr>qm_sender = (if ac_contacts a (mh_sender header) = None then None else Some (mh_sender header)),
           qm_guid = (mh_receiver header, mh_sender header), qm_timestamp = mh_timestamp header,
           qm_body = ae_fromAscii ae message\<rparr>]\<rparr>"

text \<open>A number in decimal names one contact; other names belong to none of this protocol.\<close>

definition slotContactDetailReceived :: "bytes \<Rightarrow> (string \<rightharpoonup> bytes) \<Rightarrow> qqAccount \<Rightarrow> qqAccount" where
  "slotContactDetailReceived name dict a =
     a\<lparr>ac_contacts := (\<lambda>q. if printInt q = name then map_option (\<lambda>c. c\<lparr>qc_detail := dict\<rparr>) (ac_contacts a q)
                           else ac_contacts a q)\<rparr>"

definition updateContactStatus :: "qqAccount \<Rightarrow> qqAccount" where
  "updateContactStatus a = a\<lparr>ac_contacts := map_option (\<lambda>c. c\<lparr>qc_status := ac_myself a\<rparr>) \<circ> ac_contacts a\<rparr>"

fun accountSlots :: "accountEnv \<Rightarrow> qqEvent \<Rightarrow> qqAccount \<Rightarrow> qqAccount outcome" where
  "accountSlots ae (StatusChanged status) a = slotStatusChanged status a"
| "accountSlots ae NewContactList a = Inr (slotNewContactList a)"
| "accountSlots ae (GroupNames l) a = Inr (slotGroupNamesListed (map (ae_fromAscii ae) l) a)"
| "accountSlots ae (ContactInGroup qqId type groupId) a = slotContactInGroup qqId groupId a"
| "accountSlots ae (ContactStatusChanged cs) a = Inr (qqContactStatusChanged cs a)"
| "accountSlots ae (MessageReceived header message) a = Inr (slotMessageReceived ae header message a)"
| "accountSlots ae (ContactDetailReceived name dict) a = Inr (slotContactDetailReceived name dict a)"
| "accountSlots ae _ a = Inr a"

subsection \<open>Going online and offline\<close>

definition accountIsConnected :: "qqAccount \<Rightarrow> bool" where
  "accountIsConnected a \<longleftrightarrow> ac_myself a \<noteq> Offline \<and> ac_myself a \<noteq> Connecting \<and> ac_myself a \<noteq> Unknown"

text \<open>A new session; what the constructor does not set is arbitrary.\<close>

definition newSession :: "accountEnv \<Rightarrow> qqAccount \<Rightarrow> qqAccount" where
  "newSession ae a =
     a\<lparr>qs_status := SockDisconnected, qs_socket := False, qs_writeEnabled := False, qs_server := (HostName [], 0),
       qs_id := fst (ae_garbage ae), qs_sendQueue := [], qs_written := [], qs_qqId := ae_accountId ae, qs_newstatus := Offline,
       qs_token := newByteArray 0, qs_passwordKey := ae_hash ae, qs_sessionKey := newByteArray 0,
       qs_transferKey := newByteArray 0, qs_transferToken := newByteArray 0, qs_loginMode := 0x0A,
       qs_disconnectReason := snd (ae_garbage ae), qs_heartbeat := False\<rparr>"

definition createNotificationServer :: "accountEnv \<Rightarrow> host \<Rightarrow> u32 \<Rightarrow> qqAccount \<Rightarrow> qqAccount outcome" where
  "createNotificationServer ae host port a =
     (let a = (if ac_notifySocket a then a\<lparr>ac_notifySocket := False\<rparr> else a);
          a = a\<lparr>ac_myself := protocolCNT\<rparr>;
          a = (newSession ae a)\<lparr>ac_notifySocket := True\<rparr>
      in socketConnect (accountSlots ae) host port a)"

definition accountConnect :: "accountEnv \<Rightarrow> qqAccount \<Rightarrow> qqAccount outcome" where
  "accountConnect ae a =
     (if accountIsConnected a then Inr a
      else if ac_notifySocket a then Inr a
      else createNotificationServer ae (fst (ae_server ae)) (snd (ae_server ae)) a)"

definition accountDisconnect :: "accountEnv \<Rightarrow> qqAccount \<Rightarrow> qqAccount outcome" where
  "accountDisconnect ae a =
     (if ac_notifySocket a then notifyDisconnect (ae_session ae) (accountSlots ae) a else Inr a)"

definition accountSetOnlineStatus :: "accountEnv \<Rightarrow> StatusType \<Rightarrow> qqAccount \<Rightarrow> qqAccount outcome" where
  "accountSetOnlineStatus ae status a =
     (if status = Offline then accountDisconnect ae a
      else if ac_notifySocket a then Inr a
      else accountConnect ae a)"

definition accountConnectWithPassword :: "qqAccount \<Rightarrow> qqAccount" where
  "accountConnectWithPassword a = a\<lparr>ac_myself := Online\<rparr>"

text \<open>The text is encoded already; without a session the pointer to it is null.\<close>

definition accountSendMessage :: "u32 \<Rightarrow> u32 \<Rightarrow> bytes \<Rightarrow> qqAccount \<Rightarrow> qqAccount outcome" where
  "accountSendMessage now to message a =
     (if ac_notifySocket a then sendTextMessage now to message a else Inl (NullSocket, a))"

definition mkAccount :: "(nat \<times> qstring) list \<Rightarrow> qqSession \<Rightarrow> qqAccount" where
  "mkAccount groups s =
     qqSession.extend s \<lparr>ac_notifySocket = False, ac_myself = protocolOffline, ac_newContactList = False, ac_groupList = [],
       ac_groups = groups, ac_contacts = Map.empty, ac_messages = []\<rparr>"

subsection \<open>The slots keep the laws of a listener\<close>

lemma account_update [simp]:
  "numbered s (a\<lparr>ac_myself := x\<rparr>) = numbered s a" "core (a\<lparr>ac_myself := x\<rparr>) = core a"
  "numbered s (a\<lparr>ac_contacts := f\<rparr>) = numbered s a" "core (a\<lparr>ac_contacts := f\<rparr>) = core a"
  "numbered s (a\<lparr>ac_newContactList := b\<rparr>) = numbered s a" "core (a\<lparr>ac_newContactList := b\<rparr>) = core a"
  "numbered s (a\<lparr>ac_messages := ms\<rparr>) = numbered s a" "core (a\<lparr>ac_messages := ms\<rparr>) = core a"
  "numbered s (a\<lparr>ac_groupList := gl\<rparr>) = numbered s a" "core (a\<lparr>ac_groupList := gl\<rparr>) = core a"
  "numbered s (a\<lparr>ac_groups := gs\<rparr>) = numbered s a" "core (a\<lparr>ac_groups := gs\<rparr>) = core a"
  "numbered (a\<lparr>ac_myself := x\<rparr>) s = numbered a s"
  by (simp_all add: numbered_def allPackets_def core_def)

lemma listGroup_session: "numbered s (listGroup name g a) = numbered s a" "core (listGroup name g a) = core a"
  by (simp_all add: listGroup_def Let_def)

lemma fold_kept: "(\<And>x a. Q (f x a) = Q a) \<Longrightarrow> Q (fold f xs a) = Q a"
  by (induction xs arbitrary: a) simp_all

lemma groupNames_session:
  "numbered s (slotGroupNamesListed ql a) = numbered s a" "core (slotGroupNamesListed ql a) = core a"
proof -
  have "numbered s (fold (listGroup n) gs b) = numbered s b" for n gs b
    by (rule fold_kept [where Q = "numbered s"]) (rule listGroup_session(1))
  then show "numbered s (slotGroupNamesListed ql a) = numbered s a"
    by (simp add: slotGroupNamesListed_def Let_def fold_kept [where Q = "numbered s"])
  have "core (fold (listGroup n) gs b) = core b" for n gs b
    by (rule fold_kept [where Q = core]) (rule listGroup_session(2))
  then show "core (slotGroupNamesListed ql a) = core a"
    by (simp add: slotGroupNamesListed_def Let_def fold_kept [where Q = core])
qed

lemma statusChanged_laws:
  assumes "slotStatusChanged status a = Inr a'"
  shows "numbered a a'" "core a' = core a"
proof -
  have "numbered (a\<lparr>ac_myself := status\<rparr>) a' \<and> core a' = core (a\<lparr>ac_myself := status\<rparr>)"
  proof (cases "ac_newContactList a")
    case True
    then obtain m where m: "sendGetGroupNames (a\<lparr>ac_myself := status\<rparr>) = Inr m" "sendDownloadGroups 0 m = Inr a'"
      using assms by (auto simp: slotStatusChanged_def Let_def andThen_Inr)
    from numbered_trans [OF sends_numbered(3) [OF m(1)] sends_numbered(4) [OF m(2)]]
      sends_core(5) [OF m(1)] sends_core(6) [OF m(2)] show ?thesis by simp
  qed (use assms in \<open>auto simp: slotStatusChanged_def\<close>)
  then show "numbered a a'" "core a' = core a" by simp_all
qed

lemma contactInGroup_laws:
  "slotContactInGroup q g a = Inr a' \<Longrightarrow> numbered a a'" "slotContactInGroup q g a = Inr a' \<Longrightarrow> core a' = core a"
  by (auto simp: slotContactInGroup_def Let_def split: option.splits if_splits)

lemma contactStatus_laws: "numbered a (qqContactStatusChanged cs a)" "core (qqContactStatusChanged cs a) = core a"
  by (simp_all add: qqContactStatusChanged_def split: option.splits)

lemma accountSlots_laws:
  assumes "accountSlots ae e a = Inr a'"
  shows "numbered a a' \<and> core a' = core a"
  using assms
  by (cases e)
    (auto simp: slotNewContactList_def slotMessageReceived_def slotContactDetailReceived_def contactStatus_laws
      groupNames_session dest: statusChanged_laws contactInGroup_laws)

text \<open>Whether there is a session is in the part of the account that the session does not know.\<close>

definition blankSession :: qqSession where
  "blankSession = \<lparr>qs_status = SockDisconnected, qs_socket = False, qs_writeEnabled = False, qs_server = (HostName [], 0),
     qs_id = 0, qs_sendQueue = [], qs_written = [], qs_qqId = 0, qs_newstatus = Offline, qs_token = newByteArray 0,
     qs_passwordKey = newByteArray 0, qs_sessionKey = newByteArray 0, qs_transferKey = newByteArray 0,
     qs_transferToken = newByteArray 0, qs_loginMode = 0, qs_disconnectReason = 0, qs_heartbeat = False, qs_events = []\<rparr>"

definition hasSession :: "unit qqAccount_ext \<Rightarrow> bool" where
  "hasSession m = ac_notifySocket (qqSession.extend blankSession m)"

lemma hasSession_more: "hasSession (qqSession.more a) = ac_notifySocket a"
  by (cases a) (simp add: hasSession_def qqSession.defs blankSession_def)

lemma same_session: "qqSession.more a' = qqSession.more a \<Longrightarrow> ac_notifySocket a' = ac_notifySocket a"
  for a a' :: qqAccount
  by (simp flip: hasSession_more)

lemma sends_session: "sendGetGroupNames a = Inr a' \<Longrightarrow> ac_notifySocket a' = ac_notifySocket a"
  "sendDownloadGroups n a = Inr a' \<Longrightarrow> ac_notifySocket a' = ac_notifySocket a"
  "sendTextMessage now to message a = Inr a' \<Longrightarrow> ac_notifySocket a' = ac_notifySocket a"
  "slotReadyWrite a = Inr a' \<Longrightarrow> ac_notifySocket a' = ac_notifySocket a"
  for a a' :: qqAccount
  by (rule same_session, erule sends_more)+

lemma groupNames_notifySocket: "ac_notifySocket (slotGroupNamesListed ql a) = ac_notifySocket a"
proof -
  have "ac_notifySocket (fold (listGroup n) gs b) = ac_notifySocket b" for n gs b
    by (rule fold_kept [where Q = ac_notifySocket]) (simp add: listGroup_def Let_def)
  then show ?thesis by (simp add: slotGroupNamesListed_def Let_def fold_kept [where Q = ac_notifySocket])
qed

lemma accountSlots_session:
  assumes "accountSlots ae e a = Inr a'"
  shows "ac_notifySocket a' = ac_notifySocket a"
  using assms
  by (cases e)
    (auto simp: slotNewContactList_def slotMessageReceived_def slotContactDetailReceived_def qqContactStatusChanged_def
      slotStatusChanged_def slotContactInGroup_def Let_def andThen_Inr groupNames_notifySocket
      split: option.splits if_splits dest!: sends_session)

interpretation qq: steady_slots "accountSlots ae" hasSession for ae
  by unfold_locales (use accountSlots_laws accountSlots_session in \<open>auto simp: hasSession_more\<close>)

lemmas keeps_session = qq.disconnect_flag [unfolded hasSession_more] qq.connect_flag [unfolded hasSession_more]
  qq.packet_flag [unfolded hasSession_more] qq.success_flag [unfolded hasSession_more]
  qq.closed_flag [unfolded hasSession_more] qq.error_flag [unfolded hasSession_more]

subsection \<open>Runs of an account\<close>

text \<open>
  What the user and the socket do.  A socket that is there can finish connecting, deliver what it
  received, take the next packet, close or fail.
\<close>

inductive qq_step :: "accountEnv \<Rightarrow> qqAccount \<Rightarrow> qqAccount \<Rightarrow> bool" for ae where
  Status: "accountSetOnlineStatus ae st a = Inr a' \<Longrightarrow> qq_step ae a a'"
| Password: "qq_step ae a (accountConnectWithPassword a)"
| Say: "accountSendMessage now to message a = Inr a' \<Longrightarrow> qq_step ae a a'"
| Success: "qs_socket a \<Longrightarrow> qs_status a = SockConnecting \<Longrightarrow> slotConnectionSuccess (accountSlots ae) a = Inr a' \<Longrightarrow> qq_step ae a a'"
| Data: "slotDataReceived (ae_session ae) (accountSlots ae) avail ret a = Inr a' \<Longrightarrow> qq_step ae a a'"
| Write: "slotReadyWrite a = Inr a' \<Longrightarrow> qq_step ae a a'"
| Close: "qs_socket a \<Longrightarrow> slotSocketClosed (accountSlots ae) a = Inr a' \<Longrightarrow> qq_step ae a a'"
| Fail: "slotSocketError (accountSlots ae) fatal msg a = Inr a' \<Longrightarrow> qq_step ae a a'"

abbreviation qq_run :: "accountEnv \<Rightarrow> qqAccount \<Rightarrow> qqAccount \<Rightarrow> bool" where
  "qq_run ae \<equiv> (qq_step ae)\<^sup>*\<^sup>*"

inductive_cases qq_stepE: "qq_step ae a a'"

definition accountOk :: "qqAccount \<Rightarrow> bool" where
  "accountOk a \<longleftrightarrow> sound a \<and> (qs_socket a \<longrightarrow> ac_notifySocket a)"

text \<open>
  The requests since the last connect carry the numbers 5, 6 and so on, and \<^verbatim>\<open>m_id\<close> is the next one.
\<close>

definition numberedFrom5 :: "'a qqSession_scheme \<Rightarrow> bool" where
  "numberedFrom5 s \<longleftrightarrow>
     (\<exists>before sent n. allPackets s = before @ sent \<and> qs_id s = 5 + of_nat n
        \<and> requestNumbers sent = map (\<lambda>i. ucast (5 + of_nat i :: u32)) [0 ..< n])"

lemma numberedFrom5_numbered:
  assumes "numbered s s'" "numberedFrom5 s"
  shows "numberedFrom5 s'"
proof -
  obtain before sent n where 1: "allPackets s = before @ sent" "qs_id s = 5 + of_nat n"
    "requestNumbers sent = map (\<lambda>i. ucast (5 + of_nat i :: u32)) [0 ..< n]"
    using assms(2) unfolding numberedFrom5_def by blast
  obtain sent' n' where 2: "allPackets s' = allPackets s @ sent'" "qs_id s' = qs_id s + of_nat n'"
    "requestNumbers sent' = map (\<lambda>i. ucast (qs_id s + of_nat i)) [0 ..< n']"
    using assms(1) unfolding numbered_def by blast
  have "map (\<lambda>i. ucast (5 + of_nat i :: u32) :: u16) [n ..< n + n'] = map (\<lambda>i. ucast (qs_id s + of_nat i)) [0 ..< n']"
    unfolding 1(2) by (rule nth_equalityI) (simp_all add: algebra_simps)
  moreover have "[0 ..< n + n'] = [0 ..< n] @ [n ..< n + n']" by (rule upt_add_eq_append) simp
  ultimately have "requestNumbers (sent @ sent') = map (\<lambda>i. ucast (5 + of_nat i :: u32)) [0 ..< n + n']"
    using 1(3) 2(3) by (simp add: requestNumbers_def map_filter_append)
  then show ?thesis using 1 2 unfolding numberedFrom5_def
    by (intro exI [of _ before] exI [of _ "sent @ sent'"] exI [of _ "n + n'"]) simp
qed

lemma numberedFrom5_continues: "continues s s' \<Longrightarrow> numberedFrom5 s \<Longrightarrow> numberedFrom5 s'"
  unfolding continues_def
proof (elim disjE exE conjE)
  fix m assume "qs_id s' = 5" "allPackets s' = allPackets m"
  then show "numberedFrom5 s'" unfolding numberedFrom5_def
    by (intro exI [of _ "allPackets m"] exI [of _ "[]"] exI [of _ 0]) (simp add: requestNumbers_def)
qed (rule numberedFrom5_numbered)

lemma error_numbered: "slotSocketError (accountSlots ae) fatal msg a = Inr a' \<Longrightarrow> numbered a a'"
  by (auto simp: slotSocketError_def andThen_Inr split: if_splits dest!: qq.status_numbered qq.emit_numbered)
    (meson numbered_trans)

lemma success_numbered: "slotConnectionSuccess (accountSlots ae) a = Inr a' \<Longrightarrow> numbered a a'"
  by (auto simp: slotConnectionSuccess_def andThen_Inr split: if_splits dest!: qq.status_numbered login_numbered
      intro: numbered_trans)

lemma write_numbered: "slotReadyWrite a = Inr a' \<Longrightarrow> numbered a a'"
  by (auto simp: slotReadyWrite_def Let_def numbered_def allPackets_def requestNumbers_def split: if_splits list.splits
      intro!: exI [of _ "[]"] exI [of _ 0])

text \<open>Every step that does not make a session continues the numbers of the one there is.\<close>

lemma step_continues:
  assumes "qq_step ae a a'" "ac_notifySocket a"
  shows "continues a a'"
  using assms
proof (cases rule: qq_step.cases)
  case (Status st)
  then show ?thesis using assms(2)
    by (auto simp: accountSetOnlineStatus_def accountDisconnect_def split: if_splits dest: qq.disconnect_numbered)
next
  case Password
  then show ?thesis by (auto simp: accountConnectWithPassword_def)
next
  case (Say now to message)
  then show ?thesis by (auto simp: accountSendMessage_def split: if_splits dest: sends_numbered)
next
  case (Data avail ret)
  then show ?thesis by (auto simp: slotDataReceived_def split: if_splits option.splits dest: qq.packet_continues)
qed (auto dest: success_numbered write_numbered qq.closed_numbered error_numbered)

subsection \<open>Invariants of a run\<close>

lemma new_connection:
  assumes "createNotificationServer ae h p a = Inr a'"
  shows "accountOk a' \<and> numberedFrom5 a' \<and> ac_notifySocket a' \<and> qs_socket a' \<and> qs_status a' = SockConnecting"
proof -
  let ?b = "newSession ae ((if ac_notifySocket a then a\<lparr>ac_notifySocket := False\<rparr> else a)\<lparr>ac_myself := protocolCNT\<rparr>)
    \<lparr>ac_notifySocket := True\<rparr>"
  have c: "socketConnect (accountSlots ae) h p ?b = Inr a'" using assms by (simp add: createNotificationServer_def Let_def)
  have b: "qs_status ?b = SockDisconnected" "sound ?b" "ac_notifySocket ?b" by (simp_all add: newSession_def sound_def)
  then obtain m where m: "setSocketStatus (accountSlots ae) SockConnecting ?b = Inr m"
    and a': "a' = m\<lparr>qs_id := 5, qs_server := (h, p), qs_socket := True, qs_writeEnabled := False\<rparr>"
    using c by (auto simp: socketConnect_def andThen_Inr)
  have "numberedFrom5 a'" unfolding numberedFrom5_def a'
    by (intro exI [of _ "allPackets m"] exI [of _ "[]"] exI [of _ 0]) (simp add: requestNumbers_def allPackets_def)
  moreover have "ac_notifySocket a'" using keeps_session(2) [OF c] b by simp
  moreover have "qs_status m = SockConnecting" using qq.status_sound [OF m] by simp
  ultimately show ?thesis using qq.connect_sound [OF c b(2)] by (simp add: accountOk_def a')
qed

lemma step_keeps_session: "qq_step ae a a' \<Longrightarrow> ac_notifySocket a \<Longrightarrow> ac_notifySocket a'"
  by (erule qq_stepE)
    (auto simp: accountSetOnlineStatus_def accountDisconnect_def accountConnectWithPassword_def accountSendMessage_def
      slotDataReceived_def split: if_splits option.splits dest: keeps_session sends_session)

lemma connect_new: "accountConnect ae a = Inr a' \<Longrightarrow>
    a' = a \<or> createNotificationServer ae (fst (ae_server ae)) (snd (ae_server ae)) a = Inr a'"
  by (auto simp: accountConnect_def split: if_splits)

lemma write_core: "slotReadyWrite a = Inr a' \<Longrightarrow> core a' = core a"
  by (auto simp: slotReadyWrite_def Let_def split: if_splits list.splits)

lemma status_step:
  assumes "accountSetOnlineStatus ae st a = Inr a'"
  shows "a' = a \<or> (ac_notifySocket a \<and> notifyDisconnect (ae_session ae) (accountSlots ae) a = Inr a')
    \<or> createNotificationServer ae (fst (ae_server ae)) (snd (ae_server ae)) a = Inr a'"
  using assms by (auto simp: accountSetOnlineStatus_def accountDisconnect_def split: if_splits dest: connect_new)

lemma step_ok:
  assumes "qq_step ae a a'" "accountOk a" "\<not> ac_notifySocket a \<longrightarrow> qs_status a = SockDisconnected"
  shows "accountOk a' \<and> (\<not> ac_notifySocket a' \<longrightarrow> qs_status a' = SockDisconnected)"
  using assms(1)
proof (cases rule: qq_step.cases)
  case (Status st)
  from status_step [OF this] show ?thesis
  proof (elim disjE conjE)
    assume d: "ac_notifySocket a" "notifyDisconnect (ae_session ae) (accountSlots ae) a = Inr a'"
    then have "sound a'" "ac_notifySocket a'"
      using qq.disconnect_sound [OF d(2)] keeps_session(1) [OF d(2)] assms(2) by (simp_all add: accountOk_def)
    then show ?thesis by (simp add: accountOk_def)
  next
    assume "createNotificationServer ae (fst (ae_server ae)) (snd (ae_server ae)) a = Inr a'"
    from new_connection [OF this] show ?thesis by simp
  qed (use assms(2,3) in simp)
next
  case Password
  then have "core a' = core a" "ac_notifySocket a' = ac_notifySocket a" "qs_socket a' = qs_socket a" "qs_status a' = qs_status a"
    by (simp_all add: accountConnectWithPassword_def)
  then show ?thesis using assms(2,3) sound_core [of a' a] by (auto simp: accountOk_def)
next
  case (Say now to message)
  then have "core a' = core a" "ac_notifySocket a" "ac_notifySocket a'"
    by (auto simp: accountSendMessage_def split: if_splits dest: sends_core sends_session)
  then show ?thesis using assms(2) sound_core [of a' a] by (simp add: accountOk_def)
next
  case Success
  then show ?thesis using assms(2) qq.success_sound [OF Success(3)] keeps_session(4) [OF Success(3)]
    by (simp add: accountOk_def)
next
  case (Data avail ret)
  then have s: "qs_socket a" by (auto simp: slotDataReceived_def split: if_splits)
  with Data have "sound a' \<and> ac_notifySocket a' = ac_notifySocket a" using assms(2)
    by (auto simp: slotDataReceived_def accountOk_def split: if_splits option.splits dest: qq.packet_sound keeps_session(3))
  then show ?thesis using assms(2) s by (simp add: accountOk_def)
next
  case Write
  then have "core a' = core a" "qs_socket a" "ac_notifySocket a' = ac_notifySocket a"
    by (auto simp: write_core sends_session(4)) (auto simp: slotReadyWrite_def split: if_splits)
  then show ?thesis using assms(2) sound_core [of a' a] by (simp add: accountOk_def)
next
  case Close
  then show ?thesis using assms(2) qq.closed_sound [OF Close(2)] keeps_session(5) [OF Close(2)] by (simp add: accountOk_def)
next
  case (Fail fatal msg)
  then have "qs_socket a" by (auto simp: slotSocketError_def split: if_splits)
  then show ?thesis using assms(2) qq.error_sound [OF Fail] keeps_session(6) [OF Fail] by (simp add: accountOk_def)
qed

text \<open>An account as the program makes it.\<close>

definition newAccount :: "qqAccount \<Rightarrow> bool" where
  "newAccount a \<longleftrightarrow> \<not> ac_notifySocket a \<and> qs_status a = SockDisconnected \<and> \<not> qs_socket a \<and> \<not> qs_heartbeat a"

lemma run_ok:
  assumes "qq_run ae a0 a" "newAccount a0"
  shows "accountOk a \<and> (\<not> ac_notifySocket a \<longrightarrow> qs_status a = SockDisconnected)"
  using assms
  by (induction rule: rtranclp_induct) (auto simp: newAccount_def accountOk_def sound_def dest: step_ok)

lemma run_numbered:
  assumes "qq_run ae a0 a" "newAccount a0"
  shows "ac_notifySocket a \<longrightarrow> numberedFrom5 a"
  using assms(1)
proof (induction rule: rtranclp_induct)
  case base
  then show ?case using assms(2) by (simp add: newAccount_def)
next
  case (step b c)
  show ?case
  proof (cases "ac_notifySocket b")
    case True
    with step show ?thesis using step_continues [OF step(2)] numberedFrom5_continues by blast
  next
    case False
    have ok: "accountOk b" using run_ok [OF step(1) assms(2)] by simp
    from step(2) show ?thesis
    proof (cases rule: qq_step.cases)
      case (Status st)
      from status_step [OF this] False new_connection show ?thesis by blast
    qed (use False ok in \<open>auto simp: accountConnectWithPassword_def accountSendMessage_def slotDataReceived_def
        slotReadyWrite_def slotSocketError_def accountOk_def split: if_splits\<close>)
  qed
qed

subsection \<open>Logging in\<close>

lemma emit_ignored:
  "emitSignal (accountSlots ae) (OnlineStatusChanged st) a = Inr (a\<lparr>qs_events := qs_events a @ [OnlineStatusChanged st]\<rparr>)"
  "emitSignal (accountSlots ae) SocketClosed a = Inr (a\<lparr>qs_events := qs_events a @ [SocketClosed]\<rparr>)"
  "emitSignal (accountSlots ae) ConnectionFailed a = Inr (a\<lparr>qs_events := qs_events a @ [ConnectionFailed]\<rparr>)"
  "emitSignal (accountSlots ae) (ErrorMessage m) a = Inr (a\<lparr>qs_events := qs_events a @ [ErrorMessage m]\<rparr>)"
  by (simp_all add: emitSignal_def)

lemma login_done:
  assumes "length key = 16" "114 \<le> length rest" "qs_socket a"
  shows "\<exists>a'. handleLogin en (accountSlots ae) (0 # key @ rest) a = Inr a' \<and> ac_newContactList a' \<and> qs_heartbeat a'
    \<and> qs_newstatus a' = Online \<and> qs_sessionKey a' = duplicate key \<and> qs_socket a' \<and> qs_status a' = qs_status a
    \<and> qs_qqId a' = qs_qqId a \<and> qs_id a' = qs_id a + 4
    \<and> qs_sendQueue a' = qs_sendQueue a @ map ba_data
        [statusUpdatePacket (qs_qqId a) (ucast (qs_id a)) key 10, transferKeyPacket (qs_qqId a) (ucast (qs_id a + 1)) key,
         contactDetailPacket (qs_qqId a) (ucast (qs_id a + 2)) key (qs_qqId a),
         onlineContactsPacket (qs_qqId a) (ucast (qs_id a + 3)) key 0]"
proof -
  have code: "replyCode (0 # key @ rest) = Some 0" by (simp add: replyCode_def rd8_def)
  have debug: "(if en_debug en then debugLogin (0 # key @ rest) else Some ()) = Some ()"
    using loginAccepted_reads(2) [OF assms(1,2)] by simp
  let ?a = "slotNewContactList (a\<lparr>qs_sessionKey := duplicate key, qs_heartbeat := True, qs_events := qs_events a @ [NewContactList]\<rparr>)"
  have emit: "emitSignal (accountSlots ae) NewContactList (a\<lparr>qs_sessionKey := duplicate key, qs_heartbeat := True\<rparr>) = Inr ?a"
    by (simp add: emitSignal_def)
  have start: "qs_socket ?a" "qs_sessionKey ?a = duplicate key" using assms(3) by (simp_all add: slotNewContactList_def)
  have "handleLogin en (accountSlots ae) (0 # key @ rest) a = loginAccepted en (accountSlots ae) (0 # key @ rest) a"
    by (simp add: handleLogin_def code)
  also have "\<dots> = andThen (request (\<lambda>qq seq k. statusUpdatePacket qq seq k 10) (?a\<lparr>qs_newstatus := Online\<rparr>))
      (\<lambda>s. andThen (request transferKeyPacket s) (\<lambda>s. andThen (sendContactDetail (qs_qqId s) s) (sendListOnlineContacts 0)))"
    by (simp only: loginAccepted_def loginAccepted_reads(1) [OF assms(1,2)] debug need_simps emit andThen_simps)
  finally show ?thesis using start assms(1)
    by (simp add: request_ok sendContactDetail_def sendListOnlineContacts_def add.assoc)
      (simp add: slotNewContactList_def)
qed

lemma login_run:
  assumes "qs_status a = SockConnecting" "qs_socket a" "qs_id a = 5" "qs_sendQueue a = []" "ba_data (qs_token a) = []"
    "length (ba_data (qs_passwordKey a)) = 16" "1 \<le> length token" "length token \<le> 127" "length key = 16" "114 \<le> length rest"
    "(17 + length rest) mod 8 \<noteq> 7"
  shows "\<exists>a1 a2 a3 a4. slotConnectionSuccess (accountSlots ae) a = Inr a1
    \<and> handleIncomingPacket en (accountSlots ae)
        (serverPacket cmdRequestLoginToken q1 ([0, of_nat (length token)] @ token)) a1 = Inr a2
    \<and> handleIncomingPacket en (accountSlots ae)
        (serverPacket cmdLogin q2 (ba_data (encrypt (0 # key @ rest) (ba_data (qs_passwordKey a))))) a2 = Inr a3
    \<and> handleIncomingPacket en (accountSlots ae) (serverPacket cmdChangeStatus q3 (ba_data (encrypt [0x30] key))) a3 = Inr a4
    \<and> qs_socket a1 \<and> qs_socket a2 \<and> qs_socket a3 \<and> qs_socket a4
    \<and> ac_myself a4 = Online \<and> qs_status a4 = SockConnected \<and> qs_heartbeat a4 \<and> ba_data (qs_sessionKey a4) = key
    \<and> qs_sendQueue a4 = map ba_data
        [loginTokenPacket (qs_qqId a) 5,
         loginPacket (qs_qqId a) 6 (ba_data (qs_passwordKey a)) \<lparr>ba_capacity = int (length token), ba_data = token\<rparr> (qs_loginMode a),
         statusUpdatePacket (qs_qqId a) 7 key 10, transferKeyPacket (qs_qqId a) 8 key,
         contactDetailPacket (qs_qqId a) 9 key (qs_qqId a), onlineContactsPacket (qs_qqId a) 10 key 0,
         groupNamesPacket (qs_qqId a) 11 key, downloadGroupsPacket (qs_qqId a) 12 key 0]"
proof -
  let ?pw = "ba_data (qs_passwordKey a)" and ?qq = "qs_qqId a"
  let ?a1 = "a\<lparr>qs_status := SockConnected, qs_events := qs_events a @ [OnlineStatusChanged SockConnected], qs_id := 6,
    qs_sendQueue := [ba_data (loginTokenPacket ?qq 5)], qs_writeEnabled := True\<rparr>"
  have 1: "slotConnectionSuccess (accountSlots ae) a = Inr ?a1"
    using assms(1-5) by (simp add: slotConnectionSuccess_def setSocketStatus_def emit_ignored sendLoginToken_def nextSequence_def
        sendRaw_cases)
  let ?token = "\<lparr>ba_capacity = int (length token), ba_data = token\<rparr>"
  let ?a2 = "?a1\<lparr>qs_token := ?token, qs_id := 7, qs_sendQueue := map ba_data [loginTokenPacket ?qq 5, loginPacket ?qq 6 ?pw ?token (qs_loginMode a)]\<rparr>"
  have 2: "handleIncomingPacket en (accountSlots ae) (serverPacket cmdRequestLoginToken q1 ([0, of_nat (length token)] @ token)) ?a1 = Inr ?a2"
    using assms(2,6,8) by (subst token_received) (simp_all add: sendLogin_ok)
  have odd: "length (0 # key @ rest) mod 8 \<noteq> 7" using assms(9,11) by simp
  have "length (ba_data (qs_passwordKey ?a2)) = 16" using assms(6) by simp
  from login_received [OF this odd, of en "accountSlots ae" q2] have "handleIncomingPacket en (accountSlots ae)
      (serverPacket cmdLogin q2 (ba_data (encrypt (0 # key @ rest) ?pw))) ?a2 = handleLogin en (accountSlots ae) (0 # key @ rest) ?a2"
    by simp
  moreover have "qs_socket ?a2" using assms(2) by simp
  from login_done [OF assms(9,10) this, of en ae] obtain a3 where 3: "handleLogin en (accountSlots ae) (0 # key @ rest) ?a2 = Inr a3"
    "ac_newContactList a3" "qs_heartbeat a3" "qs_newstatus a3 = Online" "qs_sessionKey a3 = duplicate key" "qs_socket a3"
    "qs_status a3 = SockConnected" "qs_qqId a3 = ?qq" "qs_id a3 = 11"
    "qs_sendQueue a3 = map ba_data [loginTokenPacket ?qq 5, loginPacket ?qq 6 ?pw ?token (qs_loginMode a),
      statusUpdatePacket ?qq 7 key 10, transferKeyPacket ?qq 8 key, contactDetailPacket ?qq 9 key ?qq, onlineContactsPacket ?qq 10 key 0]"
    by auto
  have "handleIncomingPacket en (accountSlots ae) (serverPacket cmdChangeStatus q3 (ba_data (encrypt [0x30] (ba_data (qs_sessionKey a3))))) a3
      = slotStatusChanged Online (a3\<lparr>qs_events := qs_events a3 @ [StatusChanged Online]\<rparr>)"
    using 3(4,5) assms(9)
    by (subst session_received)
      (simp_all add: cmd_defs handleText_def handleChangeStatus_def replyCode_def rd8_def emitSignal_def)
  moreover obtain a4 where "slotStatusChanged Online (a3\<lparr>qs_events := qs_events a3 @ [StatusChanged Online]\<rparr>) = Inr a4"
    "ac_myself a4 = Online" "qs_status a4 = SockConnected" "qs_heartbeat a4" "ba_data (qs_sessionKey a4) = key" "qs_socket a4"
    "qs_sendQueue a4 = qs_sendQueue a3 @ map ba_data [groupNamesPacket ?qq 11 key, downloadGroupsPacket ?qq 12 key 0]"
    using 3 assms(9) by (simp add: slotStatusChanged_def sendGetGroupNames_def sendDownloadGroups_def request_ok)
  ultimately show ?thesis using 1 2 3 assms(2)
    by (intro exI [of _ ?a1] exI [of _ ?a2] exI [of _ a3] exI [of _ a4]) simp
qed

text \<open>
  C6: logging in.  The client asks for a token, sends the login with the token it is given, takes
  the key of the session from the reply, announces its status and asks for its lists; when the
  server confirms the status the account is online.  The requests carry the numbers 5 to 12.
\<close>

theorem login_exchange:
  assumes "qs_status a = SockConnecting" "qs_socket a" "qs_id a = 5" "qs_sendQueue a = []" "ba_data (qs_token a) = []"
    "length (ba_data (qs_passwordKey a)) = 16" "1 \<le> length token" "length token \<le> 127" "length key = 16" "114 \<le> length rest"
    "(17 + length rest) mod 8 \<noteq> 7"
  shows "\<exists>a1 a2 a3 a4. slotConnectionSuccess (accountSlots ae) a = Inr a1
    \<and> handleIncomingPacket en (accountSlots ae)
        (serverPacket cmdRequestLoginToken q1 ([0, of_nat (length token)] @ token)) a1 = Inr a2
    \<and> handleIncomingPacket en (accountSlots ae)
        (serverPacket cmdLogin q2 (ba_data (encrypt (0 # key @ rest) (ba_data (qs_passwordKey a))))) a2 = Inr a3
    \<and> handleIncomingPacket en (accountSlots ae) (serverPacket cmdChangeStatus q3 (ba_data (encrypt [0x30] key))) a3 = Inr a4
    \<and> qs_socket a1 \<and> qs_socket a2 \<and> qs_socket a3 \<and> qs_socket a4
    \<and> ac_myself a4 = Online \<and> qs_status a4 = SockConnected \<and> qs_heartbeat a4 \<and> ba_data (qs_sessionKey a4) = key
    \<and> qs_sendQueue a4 = map ba_data
        [loginTokenPacket (qs_qqId a) 5,
         loginPacket (qs_qqId a) 6 (ba_data (qs_passwordKey a)) \<lparr>ba_capacity = int (length token), ba_data = token\<rparr> (qs_loginMode a),
         statusUpdatePacket (qs_qqId a) 7 key 10, transferKeyPacket (qs_qqId a) 8 key,
         contactDetailPacket (qs_qqId a) 9 key (qs_qqId a), onlineContactsPacket (qs_qqId a) 10 key 0,
         groupNamesPacket (qs_qqId a) 11 key, downloadGroupsPacket (qs_qqId a) 12 key 0]"
  by (rule login_run [OF assms])

text \<open>An account to try things on.\<close>

definition demoEnv :: accountEnv where
  "demoEnv = \<lparr>ae_session = \<lparr>en_behind = [], en_closeEmits = True, en_debug = True\<rparr>, ae_fromAscii = map ucast,
     ae_hash = duplicate (replicate 16 9), ae_accountId = 10001, ae_garbage = (77, 0), ae_server = (HostName [], 80)\<rparr>"

definition demoConnecting :: qqAccount where
  "demoConnecting = (newSession demoEnv (mkAccount [(0, []), (1, [70])] blankSession))
     \<lparr>ac_notifySocket := True, qs_status := SockConnecting, qs_events := [OnlineStatusChanged SockConnecting], qs_id := 5,
      qs_server := (HostName [], 80), qs_socket := True\<rparr>"

lemma demo_connects:
  "createNotificationServer demoEnv (HostName []) 80 (mkAccount [(0, []), (1, [70])] blankSession) = Inr demoConnecting"
  by (simp add: createNotificationServer_def demoConnecting_def socketConnect_def newSession_def mkAccount_def
      setSocketStatus_def emit_ignored blankSession_def qqSession.defs protocolCNT_def protocolOffline_def)

lemma demo_fields: "qs_status demoConnecting = SockConnecting" "qs_socket demoConnecting" "qs_id demoConnecting = 5"
  "qs_sendQueue demoConnecting = []" "qs_token demoConnecting = newByteArray 0"
  "qs_passwordKey demoConnecting = duplicate (replicate 16 9)" "qs_qqId demoConnecting = 10001" "ac_notifySocket demoConnecting"
  by (simp_all add: demoConnecting_def newSession_def demoEnv_def)

theorem login_exchange_witness:
  "\<exists>a1 a2 a3 a4. slotConnectionSuccess (accountSlots demoEnv) demoConnecting = Inr a1
    \<and> handleIncomingPacket (ae_session demoEnv) (accountSlots demoEnv)
        (serverPacket cmdRequestLoginToken 1 ([0, 3] @ [4, 5, 6])) a1 = Inr a2
    \<and> handleIncomingPacket (ae_session demoEnv) (accountSlots demoEnv)
        (serverPacket cmdLogin 2 (ba_data (encrypt (0 # replicate 16 8 @ replicate 119 0) (replicate 16 9)))) a2 = Inr a3
    \<and> handleIncomingPacket (ae_session demoEnv) (accountSlots demoEnv)
        (serverPacket cmdChangeStatus 3 (ba_data (encrypt [0x30] (replicate 16 8)))) a3 = Inr a4
    \<and> ac_myself a4 = Online \<and> length (qs_sendQueue a4) = 8"
  using login_exchange [of demoConnecting "[4, 5, 6]" "replicate 16 8" "replicate 119 0" demoEnv "ae_session demoEnv" 1 2 3]
  by (auto simp: demo_fields)

definition demoAccount :: qqAccount where
  "demoAccount = mkAccount [(0, []), (1, [70])] blankSession"

lemma demo_new: "newAccount demoAccount"
  by (simp add: newAccount_def demoAccount_def mkAccount_def blankSession_def qqSession.defs)

text \<open>A run that logs in.\<close>

lemma demo_logged_in:
  "\<exists>a. qq_run demoEnv demoAccount a \<and> qs_status a = SockConnected \<and> qs_heartbeat a \<and> qs_socket a \<and> ac_notifySocket a
    \<and> ba_data (qs_sessionKey a) = replicate 16 8 \<and> length (qs_sendQueue a) = 8"
proof -
  let ?p1 = "serverPacket cmdRequestLoginToken 1 ([0, 3] @ [4, 5, 6])"
  let ?p2 = "serverPacket cmdLogin 2 (ba_data (encrypt (0 # replicate 16 8 @ replicate 119 0) (replicate 16 9)))"
  let ?p3 = "serverPacket cmdChangeStatus 3 (ba_data (encrypt [0x30] (replicate 16 8)))"
  obtain a1 a2 a3 a4 where a: "slotConnectionSuccess (accountSlots demoEnv) demoConnecting = Inr a1"
    "handleIncomingPacket (ae_session demoEnv) (accountSlots demoEnv) ?p1 a1 = Inr a2"
    "handleIncomingPacket (ae_session demoEnv) (accountSlots demoEnv) ?p2 a2 = Inr a3"
    "handleIncomingPacket (ae_session demoEnv) (accountSlots demoEnv) ?p3 a3 = Inr a4"
    "qs_socket a1" "qs_socket a2" "qs_socket a3" "qs_socket a4" "qs_status a4 = SockConnected" "qs_heartbeat a4"
    "ba_data (qs_sessionKey a4) = replicate 16 8" "length (qs_sendQueue a4) = 8"
    using login_run [of demoConnecting "[4, 5, 6]" "replicate 16 8" "replicate 119 0" demoEnv "ae_session demoEnv" 1 2 3]
    by (auto simp: demo_fields)
  have "accountSetOnlineStatus demoEnv Online demoAccount = Inr demoConnecting"
    using demo_connects by (simp add: accountSetOnlineStatus_def accountConnect_def accountIsConnected_def demoAccount_def
        mkAccount_def qqSession.defs blankSession_def protocolOffline_def demoEnv_def)
  then have "qq_step demoEnv demoAccount demoConnecting" by (rule qq_step.Status)
  moreover have "qq_step demoEnv demoConnecting a1" by (rule qq_step.Success) (simp_all add: demo_fields a(1))
  moreover have data: "qq_step demoEnv b c" if "handleIncomingPacket (ae_session demoEnv) (accountSlots demoEnv) (serverPacket x y z) b = Inr c"
      "qs_socket b" for b c x y z
    using that by (intro qq_step.Data [where avail = 1 and ret = "Some (serverPacket x y z)"])
      (simp add: slotDataReceived_def serverPacket_def)
  have "qq_step demoEnv a1 a2" "qq_step demoEnv a2 a3" "qq_step demoEnv a3 a4"
    using data [OF a(2,5)] data [OF a(3,6)] data [OF a(4,7)] .
  ultimately have run: "qq_run demoEnv demoAccount a4" by (meson rtranclp.rtrancl_into_rtrancl rtranclp.rtrancl_refl)
  with run_ok [OF run demo_new] a show ?thesis by (auto simp: accountOk_def)
qed

lemma created_arrives:
  "length text \<le> 65505 \<Longrightarrow>
    (serverReads key (ba_data (createPacket qq c q key text)) = Some (c, q, qq, text)) = (length text mod 8 \<noteq> 7)"
  using decrypt_encrypt [of "text" key "[]"] decrypt_encrypt_seven [of "text" key "[]"]
  by (auto simp: serverReads_created)

lemma length_printInt: "length (printInt w) \<le> 11"
proof -
  have len: "n < 10 ^ Suc k \<Longrightarrow> length (decimal n) \<le> Suc k" for n k
  proof (induction k arbitrary: n)
    case (Suc k)
    then have "n div 10 < 10 ^ Suc k" by (simp add: less_mult_imp_div_less mult.commute)
    from Suc.IH [OF this] show ?case by (subst decimal.simps) auto
  qed (subst decimal.simps, simp)
  have "- (2 ^ 31) \<le> sint w" "sint w < 2 ^ 31" using sint_ge [of w] sint_lt [of w] by simp_all
  then have "nat (sint w) < 10 ^ Suc 9" "nat (- sint w) < 10 ^ Suc 9" by simp_all
  from this [THEN len] show ?thesis by (auto simp: printInt_def)
qed

text \<open>
  What the server makes of the requests of a session.  It reads each of them, but for the
  request for the details of a contact whose number has seven digits.
\<close>

theorem requests_are_read:
  "serverReads key (ba_data (statusUpdatePacket qq q key st)) = Some (cmdChangeStatus, q, qq, st # [0, 0, 0, 0])
    \<and> serverReads key (ba_data (transferKeyPacket qq q key)) = Some (cmdRequestKey, q, qq, [3])
    \<and> (serverReads key (ba_data (contactDetailPacket qq q key w)) = Some (cmdUserInfo, q, qq, printInt w))
        = (length (printInt w) \<noteq> 7)
    \<and> serverReads key (ba_data (onlineContactsPacket qq q key pos)) = Some (cmdContactsOnline, q, qq, [2, pos, 0, 0, 0])
    \<and> serverReads key (ba_data (groupNamesPacket qq q key)) = Some (cmdGroupNames, q, qq, [1, 2, 0, 0, 0, 0])
    \<and> serverReads key (ba_data (downloadGroupsPacket qq q key npos)) = Some (cmdDownloadGroups, q, qq, [1, 2, 0, 0, 0, 0] @ enc32 npos)
    \<and> serverReads key (ba_data (heartbeatPacket qq q key)) = Some (cmdHeartbeat, q, qq, enc32le qq)"
proof -
  have mod7: "(k mod 8 \<noteq> 7) = (k \<noteq> 7)" if "k \<le> 11" for k :: nat using that by presburger
  have detail: "(serverReads key (ba_data (contactDetailPacket qq q key w)) = Some (cmdUserInfo, q, qq, printInt w))
      = (length (printInt w) \<noteq> 7)"
    unfolding contactDetailPacket_def using length_printInt [of w] by (subst created_arrives) (simp_all add: mod7)
  have bytes: "enc32le 0 = [0, 0, 0, 0]" by (simp add: enc32le_def)
  have "ba_data (appendAll parts (newByteArray n)) = concat parts" if "int (length (concat parts)) \<le> n" for parts n
    using that by (simp add: appendAll_fits)
  then show ?thesis
    by (intro conjI detail; simp add: statusUpdatePacket_def transferKeyPacket_def onlineContactsPacket_def
      groupNamesPacket_def downloadGroupsPacket_def heartbeatPacket_def created_arrives bytes)
qed

subsection \<open>What an account can do\<close>

text \<open>
  C25: an account that is connected and has logged in can send: whatever happened before, the
  message is queued under the next number.
\<close>

theorem logged_in_can_talk:
  assumes "qq_run ae a0 a" "newAccount a0" "qs_status a = SockConnected" "qs_heartbeat a"
  shows "\<exists>a'. accountSendMessage now to message a = Inr a' \<and> qs_id a' = qs_id a + 1
    \<and> qs_sendQueue a' = qs_sendQueue a @ [ba_data (textMessagePacket (qs_qqId a) (ucast (qs_id a)) (ba_data (qs_sessionKey a))
          to (ba_data (qs_transferKey a)) now message)]"
proof -
  have "accountOk a" using run_ok [OF assms(1,2)] by simp
  then have "qs_socket a" "16 \<le> length (ba_data (qs_sessionKey a))" "ac_notifySocket a"
    using assms(3,4) by (simp_all add: accountOk_def sound_def)
  then show ?thesis by (simp add: accountSendMessage_def sendTextMessage_def request_ok)
qed

text \<open>
  Among the packets of an account, the requests since its last connect carry the numbers from 5
  on, one after the other, and \<^verbatim>\<open>m_id\<close> is the number of the next one.
\<close>

theorem requests_numbered:
  assumes "qq_run ae a0 a" "newAccount a0" "ac_notifySocket a"
  shows "\<exists>before sent n. qs_written a @ qs_sendQueue a = before @ sent \<and> qs_id a = 5 + of_nat n
    \<and> requestNumbers sent = map (\<lambda>i. ucast (5 + of_nat i :: u32)) [0 ..< n]"
  using run_numbered [OF assms(1,2)] assms(3) unfolding numberedFrom5_def allPackets_def by blast

theorem logged_in_can_talk_witness:
  "\<exists>a a'. qq_run demoEnv demoAccount a \<and> accountSendMessage 0 10002 [72, 105] a = Inr a' \<and> qs_id a' = qs_id a + 1"
proof -
  obtain a where a: "qq_run demoEnv demoAccount a" "qs_status a = SockConnected" "qs_heartbeat a" using demo_logged_in by blast
  from logged_in_can_talk [OF a(1) demo_new a(2,3), of 0 10002 "[72, 105]"] a(1) show ?thesis by auto
qed

theorem requests_numbered_witness:
  "\<exists>a before sent n. qq_run demoEnv demoAccount a \<and> length (qs_written a @ qs_sendQueue a) \<ge> 8 \<and> qs_written a @ qs_sendQueue a = before @ sent
    \<and> qs_id a = 5 + of_nat n \<and> requestNumbers sent = map (\<lambda>i. ucast (5 + of_nat i :: u32)) [0 ..< n]"
proof -
  obtain a where a: "qq_run demoEnv demoAccount a" "ac_notifySocket a" "length (qs_sendQueue a) = 8" using demo_logged_in by blast
  moreover have "8 \<le> length (qs_written a @ qs_sendQueue a)" using a(3) by simp
  ultimately show ?thesis using requests_numbered [OF a(1) demo_new a(2)] by blast
qed

lemma dead_step:
  assumes "qq_step ae a a'" "ac_notifySocket a" "\<not> qs_socket a"
  shows "ac_notifySocket a' \<and> \<not> qs_socket a' \<and> qs_written a' = qs_written a"
  using assms(1)
proof (cases rule: qq_step.cases)
  case (Status st)
  then show ?thesis using assms(2,3)
    by (auto simp: accountSetOnlineStatus_def accountDisconnect_def notifyDisconnect_def socketDisconnect_def
        slotSocketClosed_def Let_def emit_ignored split: if_splits)
next
  case (Say now to message)
  then show ?thesis using assms(3)
    by (auto simp: accountSendMessage_def sendTextMessage_def request_def nextSequence_def need_Inr sendRaw_cases split: if_splits)
qed (use assms(2,3) in \<open>auto simp: accountConnectWithPassword_def slotDataReceived_def slotReadyWrite_def slotSocketError_def\<close>)

text \<open>
  An account whose socket has gone, because it was closed or failed, never gets another one.
  The session object stays, so that every request to go online is taken for one made while
  connecting; nothing is written any more, and sending a message calls a null pointer.
\<close>

theorem lost_socket_is_final:
  assumes "qq_run ae a a'" "ac_notifySocket a" "\<not> qs_socket a"
  shows "\<not> qs_socket a' \<and> qs_written a' = qs_written a
    \<and> (st \<noteq> Offline \<longrightarrow> accountSetOnlineStatus ae st a' = Inr a')
    \<and> (\<exists>f s. accountSendMessage now to message a' = Inl (f, s))"
proof -
  have dead: "ac_notifySocket a' \<and> \<not> qs_socket a' \<and> qs_written a' = qs_written a"
    using assms(1) by (induction rule: rtranclp_induct) (use assms(2,3) in \<open>auto dest: dead_step\<close>)
  moreover have "\<exists>f s. accountSendMessage now to message a' = Inl (f, s)"
    using dead by (auto simp: accountSendMessage_def sendTextMessage_def request_def nextSequence_def need_def sendRaw_cases
        split: option.split)
  ultimately show ?thesis by (auto simp: accountSetOnlineStatus_def)
qed

theorem lost_socket_is_final_witness:
  "\<exists>a. slotSocketError (accountSlots demoEnv) True [] demoConnecting = Inr a
    \<and> accountSetOnlineStatus demoEnv Online a = Inr a \<and> (\<exists>f s. accountSendMessage 0 10002 [72] a = Inl (f, s))"
proof -
  obtain a where a: "slotSocketError (accountSlots demoEnv) True [] demoConnecting = Inr a" "\<not> qs_socket a" "ac_notifySocket a"
    using demo_fields by (simp add: slotSocketError_def setSocketStatus_def emit_ignored)
  from lost_socket_is_final [OF rtranclp.rtrancl_refl a(3,2), where ae = demoEnv and st = Online and now = 0 and to = 10002 and message = "[72]"] a(1) show ?thesis by auto
qed

text \<open>
  Going offline while connecting is forgotten.  The socket is not closed and the status stays,
  so when the connection is made the account logs in as if nothing had been said.
\<close>

theorem cancelled_connect_goes_on:
  assumes "ac_notifySocket a" "qs_status a = SockConnecting" "qs_socket a" "ba_data (qs_token a) = []"
  shows "\<exists>a1 a2. accountSetOnlineStatus ae Offline a = Inr a1 \<and> qs_socket a1 \<and> qs_status a1 = SockConnecting
    \<and> slotConnectionSuccess (accountSlots ae) a1 = Inr a2 \<and> qs_status a2 = SockConnected
    \<and> qs_sendQueue a2 = qs_sendQueue a @ [ba_data (loginTokenPacket (qs_qqId a) (ucast (qs_id a)))]"
  using assms
  by (simp add: accountSetOnlineStatus_def accountDisconnect_def notifyDisconnect_def emit_ignored Let_def
      slotConnectionSuccess_def setSocketStatus_def sendLoginToken_def nextSequence_def sendRaw_cases)

theorem cancelled_connect_goes_on_witness:
  "\<exists>a1 a2. accountSetOnlineStatus demoEnv Offline demoConnecting = Inr a1 \<and> qs_socket a1 \<and> qs_status a1 = SockConnecting
    \<and> slotConnectionSuccess (accountSlots demoEnv) a1 = Inr a2 \<and> qs_status a2 = SockConnected
    \<and> qs_sendQueue a2 = [ba_data (loginTokenPacket 10001 5)]"
  using cancelled_connect_goes_on [of demoConnecting demoEnv] by (simp add: demo_fields)

subsection \<open>Packets that bring the client down\<close>

text \<open>A message of another user, as the server sends it.\<close>

definition buddyText :: "u32 \<Rightarrow> u32 \<Rightarrow> bytes \<Rightarrow> bytes \<Rightarrow> bytes" where
  "buddyText sender receiver filler message =
     enc32 sender @ enc32 receiver @ enc32 1 @ enc32 0 @ enc16 0 @ enc16 0x0009
       @ enc16 qqVersion @ enc32 sender @ enc32 receiver @ filler @ enc16 0x000b @ enc16 1 @ enc32 0 @ enc16 0
       @ [0, 0, 0, 1, 0, 0, 0, 0, 1] @ message @ [0]"

lemma rd32_enc [simp]:
  "rd32 (enc32 w @ t) 0 = Some w" "i \<ge> 4 \<Longrightarrow> rd32 (enc32 w @ t) i = rd32 t (i - 4)" "i \<ge> 2 \<Longrightarrow> rd32 (enc16 v @ t) i = rd32 t (i - 2)"
  by (auto simp: rd32_def dec32_enc32)

lemma rd16_enc [simp]:
  "rd16 (enc16 w @ t) 0 = Some w" "i \<ge> 4 \<Longrightarrow> rd16 (enc32 d @ t) i = rd16 t (i - 4)" "i \<ge> 2 \<Longrightarrow> rd16 (enc16 v @ t) i = rd16 t (i - 2)"
  by (auto simp: rd16_def)

lemma rd_skip:
  "length f = n \<Longrightarrow> i \<ge> n \<Longrightarrow> rd16 (f @ t) i = rd16 t (i - n)" "length f = n \<Longrightarrow> i \<ge> n \<Longrightarrow> rd32 (f @ t) i = rd32 t (i - n)"
  by (auto simp: rd16_def rd32_def)

lemma buddyText_reads:
  assumes "length filler = 16" "0 \<notin> set message"
  shows "readEnvelop (buddyText sender receiver filler message) = Some \<lparr>me_sender = sender, me_receiver = receiver,
      me_sequence = 1, me_ip = 0, me_port = 0, me_type = 9\<rparr>"
    "readHeader (drop 20 (buddyText sender receiver filler message)) = Some (\<lparr>mh_version = qqVersion, mh_sender = sender,
      mh_receiver = receiver, mh_type = 0x000b, mh_sequence = 1, mh_timestamp = 0, mh_avatar = 0\<rparr>, wrapPointer InsideBlock)"
    "rdString (drop 20 (buddyText sender receiver filler message)) 45 = Some message"
proof -
  show "readEnvelop (buddyText sender receiver filler message) = Some \<lparr>me_sender = sender, me_receiver = receiver,
      me_sequence = 1, me_ip = 0, me_port = 0, me_type = 9\<rparr>"
    by (simp add: readEnvelop_def buddyText_def)
  have body: "drop 20 (buddyText sender receiver filler message) = enc16 qqVersion @ enc32 sender @ enc32 receiver @ filler
      @ enc16 0x000b @ enc16 1 @ enc32 0 @ enc16 0 @ [0, 0, 0, 1, 0, 0, 0, 0, 1] @ message @ [0]"
    by (simp add: buddyText_def)
  show "readHeader (drop 20 (buddyText sender receiver filler message)) = Some (\<lparr>mh_version = qqVersion, mh_sender = sender,
      mh_receiver = receiver, mh_type = 0x000b, mh_sequence = 1, mh_timestamp = 0, mh_avatar = 0\<rparr>, wrapPointer InsideBlock)"
    unfolding body by (simp add: readHeader_def rd_skip [OF assms(1)])
  have "takeWhile (\<lambda>b. b \<noteq> 0) (message @ [0]) = message" using assms(2) by (intro takeWhile_tail [THEN trans]) (auto intro: takeWhile_eq_all_conv [THEN iffD2])
  then show "rdString (drop 20 (buddyText sender receiver filler message)) 45 = Some message"
    unfolding body rdString_def using assms(1) by simp
qed

text \<open>
  A message of another user is answered and delivered, and then brings the client down: the
  array in the header of the message was given a pointer into the packet and frees it.  No message
  of this kind is ever handled to the end.
\<close>

theorem buddy_message_frees_packet:
  assumes "qs_socket a" "length (ba_data (qs_sessionKey a)) = 16" "length filler = 16" "0 \<notin> set message"
    "(66 + length message) mod 8 \<noteq> 7"
  shows "(\<exists>a'. handleIncomingPacket en (accountSlots ae) (serverPacket cmdReceiveMsg q
            (ba_data (encrypt (buddyText sender (qs_qqId a) filler message) (ba_data (qs_sessionKey a))))) a = Inl (BadFree, a')
        \<and> length (qs_sendQueue a') = length (qs_sendQueue a) + 1
        \<and> map qm_body (ac_messages a') = map qm_body (ac_messages a) @ [ae_fromAscii ae (message @ [0])])
    \<and> (\<forall>t e s s'. readEnvelop t = Some e \<and> me_type e = 9 \<longrightarrow> handleMessage (accountSlots ae) q t s \<noteq> Inr s')"
proof (intro conjI allI impI)
  let ?t = "buddyText sender (qs_qqId a) filler message" and ?key = "ba_data (qs_sessionKey a)"
  have len: "length ?t = 66 + length message" using assms(3) by (simp add: buddyText_def)
  then have "?t \<noteq> []" by auto
  then have handled: "handleIncomingPacket en (accountSlots ae) (serverPacket cmdReceiveMsg q (ba_data (encrypt ?t ?key))) a
      = handleMessage (accountSlots ae) q ?t a"
    using assms(2,5) len by (subst session_received) (simp_all add: cmd_defs handleText_def)
  obtain rk where rk: "replyKey ?t = Some rk" using len by (auto simp: replyKey_def rdBytes_def)
  note reads = buddyText_reads [OF assms(3,4), of sender "qs_qqId a"]
  have size: "length (drop 20 ?t) = 46 + length message" using len by simp
  have copy: "fold (\<lambda>b. appendBytes [b]) bs c = c\<lparr>ba_data := ba_data c @ bs\<rparr>"
    if "int (length (ba_data c) + length bs) \<le> ba_capacity c" for bs c
    using that appendAll_fits [of c "map (\<lambda>b. [b]) bs"] by (simp add: appendAll_def fold_map comp_def concat_map_singleton)
  have msg: "ba_data (appendBytes [0] (fold (\<lambda>b. appendBytes [b]) message (newByteArray (int (46 + length message))))) = message @ [0]"
    by (simp add: copy appendBytes_fits)
  show "\<exists>a'. handleIncomingPacket en (accountSlots ae) (serverPacket cmdReceiveMsg q (ba_data (encrypt ?t ?key))) a = Inl (BadFree, a')
        \<and> length (qs_sendQueue a') = length (qs_sendQueue a) + 1
        \<and> map qm_body (ac_messages a') = map qm_body (ac_messages a) @ [ae_fromAscii ae (message @ [0])]"
    unfolding handled handleMessage_def handleBuddyMessage_def
    using assms(1,2) msg size
    by (simp add: reads rk keyed_def sendRaw_cases rd8_def emitSignal_def slotMessageReceived_def destroyArray_def
        wrapPointer_def releasePointer_def Let_def del: length_drop)
next
  fix t e s s'
  assume "readEnvelop t = Some e \<and> me_type e = 9"
  then show "handleMessage (accountSlots ae) q t s \<noteq> Inr s'"
    by (auto simp: handleMessage_def need_Inr andThen_Inr qq.buddy_never_ends Let_def)
qed

theorem buddy_message_frees_packet_witness:
  "\<exists>a a'. qq_run demoEnv demoAccount a \<and> handleIncomingPacket (ae_session demoEnv) (accountSlots demoEnv)
      (serverPacket cmdReceiveMsg 9 (ba_data (encrypt (buddyText 10002 (qs_qqId a) (replicate 16 0) [72, 105]) (ba_data (qs_sessionKey a))))) a
    = Inl (BadFree, a')"
proof -
  obtain a where a: "qq_run demoEnv demoAccount a" "qs_socket a" "ba_data (qs_sessionKey a) = replicate 16 8"
    using demo_logged_in by blast
  then have "length (ba_data (qs_sessionKey a)) = 16" by simp
  from buddy_message_frees_packet [OF a(2) this, of "replicate 16 0" "[72, 105]" "ae_session demoEnv" demoEnv 9 10002] a(1)
  show ?thesis by auto
qed

text \<open>
  A packet of less than ten bytes, and one whose contents cannot be a ciphertext where the
  client expects one, makes the client read outside its memory, whatever the state of the session
  and whoever sent it.
\<close>

theorem bad_packet_reads_outside:
  assumes "length raw < 10 \<or> (\<exists>p. readPacket raw = Some p \<and> (length (pk_body p) < 16 \<or> length (pk_body p) mod 8 \<noteq> 0)
    \<and> pk_command p \<in> {cmdChangeStatus, cmdReceiveMsg, cmdRequestKey, cmdLogin, cmdDownloadGroups, cmdContactStatusChanged})"
  shows "handleIncomingPacket en slots raw s = Inl (ReadsOutside, s)"
  using assms
proof
  assume "length raw < 10"
  then show ?thesis by (simp add: handleIncomingPacket_def readPacket_short)
next
  assume "\<exists>p. readPacket raw = Some p \<and> (length (pk_body p) < 16 \<or> length (pk_body p) mod 8 \<noteq> 0)
    \<and> pk_command p \<in> {cmdChangeStatus, cmdReceiveMsg, cmdRequestKey, cmdLogin, cmdDownloadGroups, cmdContactStatusChanged}"
  then obtain p where p: "readPacket raw = Some p" "length (pk_body p) < 16 \<or> length (pk_body p) mod 8 \<noteq> 0"
    and c: "pk_command p \<in> {cmdChangeStatus, cmdReceiveMsg, cmdRequestKey, cmdLogin, cmdDownloadGroups, cmdContactStatusChanged}"
    by blast
  have "keyedDecrypt en (pk_body p) key = Some []" for key
    using p(2) by (auto simp: keyedDecrypt_def decrypt_def)
  then have "decryptEither en (pk_body p) key key' = Some []" for key key' by (simp add: decryptEither_def)
  moreover have "pk_command p \<noteq> cmdRequestLoginToken" using c by (auto simp: cmd_defs)
  ultimately have "incomingText en p s = Some (duplicate [])" by (simp add: incomingText_def)
  moreover have "handleText en slots p (duplicate []) s = Inl (ReadsOutside, s)"
    using c by (auto simp: handleText_def Let_def cmd_defs handleChangeStatus_def replyCode_def rd8_def handleMessage_def
        readEnvelop_def rd32_def handleRequestKey_def handleLogin_def handleGroupInfos_def groupInfosOf_def
        readGroupInfos.simps qqNextGroupId_def readContactStatus_def)
  ultimately show ?thesis using p(1) by (simp add: handleIncomingPacket_def)
qed

theorem bad_packet_reads_outside_witness:
  "handleIncomingPacket (ae_session demoEnv) (accountSlots demoEnv) (serverPacket cmdChangeStatus 3 [0x30]) demoConnecting
    = Inl (ReadsOutside, demoConnecting)"
  by (rule bad_packet_reads_outside) (simp add: readPacket_server)

subsection \<open>Groups\<close>

lemma listGroups_inner:
  "length (ac_groupList (fold (listGroup name) gs a)) = length (ac_groupList a) + length gs"
  "length (filter (\<lambda>g. snd g = n) (ac_groups (fold (listGroup name) gs a))) =
    length (filter (\<lambda>g. snd g = n) (ac_groups a)) + (if name = n then length (filter (\<lambda>g. snd g \<noteq> n) gs) else 0)"
  by (induction gs arbitrary: a) (auto simp: listGroup_def Let_def)

lemma listGroups_outer:
  "length (ac_groupList (fold (\<lambda>name. fold (listGroup name) gs) ql a)) = length (ac_groupList a) + length ql * length gs"
  "length (filter (\<lambda>g. snd g = n) (ac_groups (fold (\<lambda>name. fold (listGroup name) gs) ql a))) =
    length (filter (\<lambda>g. snd g = n) (ac_groups a)) + count_list ql n * length (filter (\<lambda>g. snd g \<noteq> n) gs)"
  by (induction ql arbitrary: a) (auto simp: listGroups_inner)

text \<open>
  When the server lists its groups, every name is entered once for each group of the contact
  list, whether it has that name or not: the list that is indexed with the numbers of the server is
  longer than the reply, and each group of another name adds one more group of this name to the
  contact list, at every login.
\<close>

theorem groups_multiply:
  "length (ac_groupList (slotGroupNamesListed ql a)) = length (ac_groupList a) + 1 + length ql * length (ac_groups a)
    \<and> length (filter (\<lambda>g. snd g = n) (ac_groups (slotGroupNamesListed ql a))) =
        length (filter (\<lambda>g. snd g = n) (ac_groups a)) + count_list ql n * length (filter (\<lambda>g. snd g \<noteq> n) (ac_groups a))"
  by (simp add: slotGroupNamesListed_def Let_def listGroups_outer)

end
