(* ===== verification/Spec2Isabelle.thy ===== *)
theory Spec2Isabelle
  imports Oscar_Codec Oscar_Hexdump Oscar_Stream Oscar_ContactManager Oscar_Connection Oscar_Task Oscar_SSI Kopete_OnlineStatus Kopete_ContactList Kopete_AddContact Kopete_AutoAway Kopete_StatusItems Kopete_CommandHandler Plugin_Privacy Kopete_ChatDelivery QQ_Account
begin

text \<open>
  Kopete is an instant messenger: a library of contacts, accounts and chats (\<^verbatim>\<open>src/libkopete\<close>),
  protocol plugins below it (\<^verbatim>\<open>src/protocols\<close>), and an application and plugins above it.  This
  development models the core of the library and two protocols from the wire up.

  \<^bold>\<open>Parts and theories.\<close>

  The wire protocol of ICQ and AIM, \<^verbatim>\<open>src/protocols/oscar/liboscar\<close>:
  \<^item> \<^verbatim>\<open>Oscar_Buffer\<close>, \<^verbatim>\<open>Oscar_Codec\<close>, \<^verbatim>\<open>Oscar_Hexdump\<close>: the byte buffer, TLVs and GUIDs (\<^verbatim>\<open>buffer.cpp\<close>,
    \<^verbatim>\<open>oscartypeclasses.cpp\<close>, \<^verbatim>\<open>oscarguid.cpp\<close>).  A buffer is its array, read position and stack of open
    blocks.  The locale \<open>buffer_codec\<close> says what an append promises to the matching read; every pair of
    the code is an instance, and the round trips follow from it.
  \<^item> \<^verbatim>\<open>Oscar_Transfer\<close>, \<^verbatim>\<open>Oscar_CoreProtocol\<close>, \<^verbatim>\<open>Oscar_Stream\<close>: transfers, the FLAP and SNAC parsers and
    the reassembly of frames (\<^verbatim>\<open>transfer.cpp\<close>, \<^verbatim>\<open>coreprotocol.cpp\<close> and its helpers).
  \<^item> \<^verbatim>\<open>Oscar_Contact\<close>, \<^verbatim>\<open>Oscar_ContactManager\<close>, \<^verbatim>\<open>Oscar_SSI\<close>: the items of the server-side list, the
    list with its id allocation, and the task that edits it (\<^verbatim>\<open>contact.cpp\<close>, \<^verbatim>\<open>contactmanager.cpp\<close>,
    \<^verbatim>\<open>tasks/ssimodifytask.cpp\<close>).
  \<^item> \<^verbatim>\<open>Oscar_Rate\<close>, \<^verbatim>\<open>Oscar_Connection\<close>, \<^verbatim>\<open>Oscar_Task\<close>: rate limits, sequence numbers and sending, and the
    life of a task (\<^verbatim>\<open>rateclass.cpp\<close>, \<^verbatim>\<open>rateclassmanager.cpp\<close>, \<^verbatim>\<open>connection.cpp\<close>, \<^verbatim>\<open>tasks/task.cpp\<close>).

  The QQ protocol, \<^verbatim>\<open>src/protocols/qq\<close>:
  \<^item> \<^verbatim>\<open>QQ_Crypt\<close>, \<^verbatim>\<open>QQ_Packet\<close>: the cipher with its padding, and the packets (\<^verbatim>\<open>crypt.cpp\<close>,
    \<^verbatim>\<open>evautil.cpp\<close>, \<^verbatim>\<open>libeva.cpp\<close>).
  \<^item> \<^verbatim>\<open>QQ_Session\<close>, \<^verbatim>\<open>QQ_Account\<close>: the connection with its queue and the handlers of incoming packets, and
    the account whose slots its signals run (\<^verbatim>\<open>qqsocket.cpp\<close>, \<^verbatim>\<open>qqnotifysocket.cpp\<close>, \<^verbatim>\<open>qqaccount.cpp\<close>).
    What a listener must respect is the locale \<open>numbered_slots\<close> and its extensions, of which the slots of
    the account are the instance.

  The library, \<^verbatim>\<open>src/libkopete\<close>:
  \<^item> \<^verbatim>\<open>Kopete_OnlineStatus\<close>, \<^verbatim>\<open>Kopete_Contact\<close>, \<^verbatim>\<open>Kopete_MetaContact\<close>: presence, contacts with their
    properties, and the meta contacts that group them (\<^verbatim>\<open>kopeteonlinestatus.cpp\<close>,
    \<^verbatim>\<open>kopeteonlinestatusmanager.cpp\<close>, \<^verbatim>\<open>kopetepropertycontainer.cpp\<close>, \<^verbatim>\<open>kopetecontact.cpp\<close>,
    \<^verbatim>\<open>kopetemetacontact.cpp\<close>).
  \<^item> \<^verbatim>\<open>Kopete_ContactList\<close>: the contact list with moving, merging and removing, the groups, and the timer
    that saves it (\<^verbatim>\<open>kopetecontactlist.cpp\<close>, \<^verbatim>\<open>kopetegroup.cpp\<close>, \<^verbatim>\<open>kopetedeletecontacttask.cpp\<close>).
  \<^item> \<^verbatim>\<open>Kopete_CommandHandler\<close>: slash commands (\<^verbatim>\<open>kopetecommandhandler.cpp\<close>, \<^verbatim>\<open>kopetecommand.cpp\<close>).
  \<^item> \<^verbatim>\<open>Kopete_Message\<close>: the body of a message in its forms, as text, as HTML and parsed (\<^verbatim>\<open>kopetemessage.cpp\<close>).
  \<^item> \<^verbatim>\<open>Kopete_MessageChain\<close>: the chains of handlers that a message runs through
    (\<^verbatim>\<open>kopetemessagehandler.cpp\<close>, \<^verbatim>\<open>kopetemessagehandlerchain.cpp\<close>, \<^verbatim>\<open>kopetesimplemessagehandler.cpp\<close>).
    What a handler that filters messages promises is the locale \<open>message_filter\<close>; the privacy plugin,
    \<^verbatim>\<open>Plugin_Privacy\<close> (\<^verbatim>\<open>src/plugins/privacy\<close>), is the instance.
  \<^item> \<^verbatim>\<open>Kopete_ChatSession\<close>, \<^verbatim>\<open>Kopete_ChatDelivery\<close>: a chat with its members, names and typing, and the way of
    its messages through the chains, the count of references that keeps a chat alive meanwhile, and the
    registry of chats (\<^verbatim>\<open>kopetechatsession.cpp\<close>, \<^verbatim>\<open>kopetemessageevent.cpp\<close>, \<^verbatim>\<open>kopetechatsessionmanager.cpp\<close>).
  \<^item> \<^verbatim>\<open>Kopete_Account\<close>, \<^verbatim>\<open>Kopete_AddContact\<close>: one account, how it connects again, goes offline, sleeps and
    gets contacts (\<^verbatim>\<open>kopeteaccount.cpp\<close>).  A protocol's own part of an account is recorded as a request to it.
  \<^item> \<^verbatim>\<open>Kopete_Identity\<close>, \<^verbatim>\<open>Kopete_AccountManager\<close>, \<^verbatim>\<open>Kopete_AutoAway\<close>: the identities, the accounts, the
    global status and the idle timer, on states that extend one another (\<^verbatim>\<open>kopeteidentity.cpp\<close>,
    \<^verbatim>\<open>kopeteidentitymanager.cpp\<close>, \<^verbatim>\<open>kopeteaccountmanager.cpp\<close>, \<^verbatim>\<open>kopetestatusmanager.cpp\<close>,
    \<^verbatim>\<open>kopeteidletimer.cpp\<close>).  Both managers are instances of the locale \<open>key_registry\<close>: at most one object of each key.
  \<^item> \<^verbatim>\<open>Kopete_StatusItems\<close>: the tree of statuses to choose from and its document (\<^verbatim>\<open>kopetestatusitems.cpp\<close>,
    \<^verbatim>\<open>kopetestatusmanager.cpp\<close>).
  \<^item> \<^verbatim>\<open>Kopete_Prelude\<close>, \<^verbatim>\<open>Qt_String\<close>: the types and lemmas that the parts share, and the operations of
    \<^verbatim>\<open>QString\<close> that they use.

  Objects with fields are records, pointers to shared objects are numbers in a store, signals are
  recorded in the order of their emission, and every early return, failure and undefined operation is a
  branch of the model (\<open>None\<close>, a fault with the state reached, or, in the command handler, the event
  \<open>FrontOfEmptyList\<close>, after which the model says nothing of the program).  Machine integers are words.

  \<^bold>\<open>What the lemmas show.\<close>  For the wire formats, that what is written is read back, and for which
  inputs it is not; for the streams and queues, that nothing is reordered or sent too early, and nothing lost but by a reset; for
  the lists of contacts, that each contact has one owner and that the lists and the signals agree; for
  the protocols of requests and replies, what a successful exchange does and what each refusal leaves
  behind; for chats, that a message is shown once and its chat lives until then; for accounts and
  identities, that registries, pointers and the presence shown agree in every run, that absence and
  restarts are undone, and which accounts come back from sleep; and for the calls that go round in circles, that they end.  This theory composes the
  connection, the stream and the parser: what one end sends is what the other end receives.

  \<^bold>\<open>Fuel and bounds.\<close>  Mutually recursive calls through virtual functions and slots take fuel, and \<open>None\<close>
  is running out of it: \<open>runCall\<close> of the contact list, for which \<open>moves_and_names_end\<close> proves that some
  amount is enough and every larger one gives the same result, and \<open>processMessage\<close> of the commands, for
  which more fuel than there are idle commands is enough.  Loops that are not structural are functions with
  a termination proof.  Loops that can run forever are partial functions to \<open>option\<close>; that one of
  them does is stated as such.

  \<^bold>\<open>Assumptions.\<close>  The clock stands still while one event is handled.  Memory is not aliased where the code
  copies: \<^verbatim>\<open>QByteArray::fromRawData\<close> is a copy here.  Case folding, text encodings, translations, random
  numbers and the hash of a password are arguments of the definitions, and so is the effect of slots
  outside the modelled classes, among them what a protocol does to an account before a call returns.
  \<^verbatim>\<open>std::sort\<close> is any function that rearranges, and undefined for a comparison that is not a strict weak
  ordering.  A coarse \<^verbatim>\<open>QTimer\<close> may fire up to a twentieth of its interval early.  How \<^verbatim>\<open>QDomDocument\<close> writes and
  reads files is a parameter of the statuses' document, with its documented behaviour as a hypothesis.  A
  \<^verbatim>\<open>QObject\<close> that is deleted takes its children with it: contacts are the children of their meta contact.
  \<^verbatim>\<open>char\<close> is signed and the machine is little endian, where the QQ code
  depends on it.

  \<^bold>\<open>Not modelled.\<close>  The Jabber protocol is mostly the vendored libraries libiris, jdns and libjingle; its
  own code is glue between them and the library, like the other plugins (Gadu-Gadu, Meanwhile,
  Bonjour, SMS, WinPopup), which wrap third-party libraries or external programs, and Groupwise.  Of liboscar, the login
  sequence, the direct connections, file transfer and the RTF reader.  Of the library, dialogs, widgets,
  icons, the XML of the contact list, plugin loading, passwords, the address book and video devices; of the application
  and of the plugins other than the privacy plugin, nothing.
  Within the modelled files, the notes of the manifest say which operations are left out.
\<close>

subsection \<open>From one end of a connection to the other\<close>

lemma frame_ok_withoutSeq:
  assumes "withoutSeq t' = withoutSeq t" "frame_ok t"
  shows "frame_ok t'"
proof -
  have snac: "m_flapChannel u = m_flapChannel v \<and> m_snacFlags u = m_snacFlags v \<and> m_buffer u = m_buffer v"
    if "u\<lparr>m_flapSequence := 0\<rparr> = v\<lparr>m_flapSequence := 0\<rparr>" for u v :: snacTransfer
    using arg_cong [OF that, of m_flapChannel] arg_cong [OF that, of m_snacFlags] arg_cong [OF that, of m_buffer] by simp
  have flap: "m_flapChannel u = m_flapChannel v \<and> m_buffer u = m_buffer v"
    if "u\<lparr>m_flapSequence := 0\<rparr> = v\<lparr>m_flapSequence := 0\<rparr>" for u v :: flapTransfer
    using arg_cong [OF that, of m_flapChannel] arg_cong [OF that, of m_buffer] by simp
  show ?thesis
    using assms by (cases t; cases t')
      (auto simp: withoutSeq_def setFlapSequence_def snac_frame_ok_def dest!: snac flap)
qed

text \<open>
  C1: what one end of a connection is given to send, SNACs, keep-alives and other FLAP frames, the
  other end receives.  However the SNACs were queued by the rate classes, renumbered and written, and
  however the stream is cut into chunks, as long as no cut leaves the end of a FLAP frame of another
  channel for the next chunk, the receiver delivers exactly the frames that were written, in the
  order written; and these, with the ones still waiting in a rate class and the ones deleted when the
  connection was reset or closed, are those handed over.
\<close>

theorem sent_frames_arrive:
  assumes "cn_run (mkConnection random qrand starts) c ins dumped" "list_all frame_ok ins"
    "concat chunks = concat (map outgoingTransfer (cn_written c))" "list_all (safeCut (cn_written c)) (cuts 0 chunks)"
  shows "\<exists>s. addChunks chunks (mkCoreProtocol st prev) = Some s
    \<and> d_in s = map arrived (cn_written c) \<and> m_in s = []
    \<and> mset (map withoutSeq (cn_written c)) + image_mset withoutSeq (waiting c + dumped) = mset (map withoutSeq ins)"
proof -
  have bal: "mset (map withoutSeq (cn_written c)) + image_mset withoutSeq (waiting c + dumped) = mset (map withoutSeq ins)"
    using balance_initial [OF assms(1)] by (simp add: balance_def ac_simps)
  have ok: "list_all frame_ok (cn_written c)"
    unfolding list_all_iff
  proof
    fix t' assume "t' \<in> set (cn_written c)"
    then have "withoutSeq t' \<in># mset (map withoutSeq (cn_written c))" by simp
    then have "withoutSeq t' \<in># mset (map withoutSeq ins)" unfolding bal [symmetric] by simp
    then obtain t where "t \<in> set ins" "withoutSeq t' = withoutSeq t" by auto
    with assms(2) show "frame_ok t'" by (auto simp: list_all_iff intro: frame_ok_withoutSeq)
  qed
  have "[] @ concat chunks = concat (map outgoingTransfer (cn_written c))" using assms(3) by simp
  from addChunks_frames [OF ok rx_state_init this, of st prev] assms(4) bal show ?thesis
    by (auto simp: rx_state_def)
qed

text \<open>SNACs and keep-alives may be cut anywhere.\<close>

lemma keepalives_cut_anywhere:
  assumes "\<forall>t \<in> set ts. (\<exists>u. t = SnacTransfer u) \<or> (\<exists>u. t = FlapTransfer u \<and> mBuffer (m_buffer u) = [])"
  shows "list_all (safeCut ts) (cuts n chunks)"
proof -
  have "\<not> blind k t" if "t \<in> set ts" for k t using assms that by (cases t) auto
  then show ?thesis by (auto simp: list_all_iff intro!: safeCut_everywhere)
qed

text \<open>A SNAC and a keep-alive, the cut inside the header of the second.\<close>

theorem sent_frames_arrive_witness:
  "\<exists>(c :: connection) s. length (cn_written c) = 2
     \<and> (let w = concat (map outgoingTransfer (cn_written c))
        in addChunks [take 19 w, drop 19 w] (mkCoreProtocol NoData None) = Some s)
     \<and> d_in s = map arrived (cn_written c) \<and> m_in s = []"
proof -
  let ?t = "SnacTransfer (mkSnacTransferWith emptyBuffer 2 0 0 4 6 0 1)"
  let ?k = "FlapTransfer (mkFlapTransfer \<lparr>flap_channel = 0x05, flap_sequence = 0, flap_length = 0\<rparr> emptyBuffer)"
  obtain c' where c': "cn_run (mkConnection 0 0 [5]) c' [?t] {#}" "length (cn_written c') = 1"
    using sample_send_run by blast
  define c where "c = doNoop True c'"
  have r: "cn_run (mkConnection 0 0 [5]) c ([?t] @ [?k]) {#}" unfolding c_def by (rule cn_noop [OF c'(1)])
  have l: "length (cn_written c) = 2" using c'(2) by (simp add: c_def doNoop_def flapSequence_eq)
  have ok: "list_all frame_ok ([?t] @ [?k])"
    by (simp add: snac_frame_ok_def mkSnacTransferWith_def mkFlapTransferWith_def mkFlapTransfer_def flapTransfer.defs
        snacTransfer.defs emptyBuffer_def)
  define w where "w = concat (map outgoingTransfer (cn_written c))"
  have cat: "concat [take 19 w, drop 19 w] = concat (map outgoingTransfer (cn_written c))" by (simp add: w_def)
  have safe: "list_all (safeCut (cn_written c)) (cuts 0 [take 19 w, drop 19 w])"
  proof (rule keepalives_cut_anywhere, rule ballI)
    fix t' assume "t' \<in> set (cn_written c)"
    then have "withoutSeq t' \<in># mset (map withoutSeq (cn_written c))" by simp
    moreover have "mset (map withoutSeq (cn_written c)) \<subseteq># mset (map withoutSeq ([?t] @ [?k]))"
      using balance_initial [OF r] by (metis balance_def image_mset_empty mset_subset_eq_add_left add.right_neutral)
    ultimately have "withoutSeq t' \<in> {withoutSeq ?t, withoutSeq ?k}"
      by (auto dest!: mset_subset_eqD)
    then show "(\<exists>u. t' = SnacTransfer u) \<or> (\<exists>u. t' = FlapTransfer u \<and> mBuffer (m_buffer u) = [])"
      by (cases t') (auto simp: withoutSeq_def setFlapSequence_def mkFlapTransfer_def emptyBuffer_def
          dest!: arg_cong [where f = m_buffer])
  qed
  from sent_frames_arrive [OF r ok cat safe, of NoData None] l show ?thesis
    unfolding w_def Let_def by blast
qed

end
